(* ===== verification/Prelude.thy ===== *)
theory Prelude
  imports Main "HOL-Library.Word"
begin

text \<open>
  Shared vocabulary of the development: the types that name the model's data, the
  theorem collections the component theories fill, and the list and map facts they share.

  A C++ \<open>std::string\<close> that holds text is a \<open>string\<close>; a byte buffer
  (\<open>std::vector<unsigned char>\<close>, or a string used as a wire buffer) is a \<open>bytes\<close>.
  An \<open>std::map\<close> or \<open>std::unordered_map\<close> that is only looked up, inserted
  into and erased from by key is a partial function.
\<close>

unbundle bit_operations_syntax

type_synonym byte = "8 word"
type_synonym bytes = "byte list"
type_synonym u32 = "32 word"
type_synonym u64 = "64 word"

text \<open>Collections: the invariant lemmas, the step equations and the frame facts.\<close>

named_theorems inv_intros "an operation keeps the invariant of its component"
named_theorems step_simps "the equations of the operations of a component"
named_theorems frame_simps "the fields an operation leaves alone"

subsection \<open>Bytes of a text\<close>

definition byte_of :: "char \<Rightarrow> byte" where
  "byte_of c = of_char c"

definition bytes_of :: "string \<Rightarrow> bytes" where
  "bytes_of s = map byte_of s"

lemma unat_byte_of: "unat (byte_of c) = of_char c"
proof -
  have "(of_char c :: byte) = word_of_nat (of_char c)"
    by (simp add: of_nat_of_char)
  moreover have "(of_char c :: nat) < 2 ^ 8"
    using nat_of_char_less_256 [of c] by simp
  ultimately show ?thesis
    by (simp add: byte_of_def unat_of_nat take_bit_nat_eq_self)
qed

lemma byte_of_inject [simp]: "byte_of a = byte_of b \<longleftrightarrow> a = b"
proof
  assume "byte_of a = byte_of b"
  then have "(of_char a :: nat) = of_char b"
    by (metis unat_byte_of)
  then show "a = b"
    by simp
qed simp

text \<open>A byte buffer read back as text.\<close>

definition text_of :: "bytes \<Rightarrow> string" where
  "text_of bs = map (\<lambda>b. char_of (unat b)) bs"

lemma text_of_bytes_of [simp]: "text_of (bytes_of s) = s"
  by (induction s) (simp_all add: text_of_def bytes_of_def unat_byte_of)

lemma bytes_of_inject [simp]: "bytes_of s = bytes_of t \<longleftrightarrow> s = t"
  by (auto simp: bytes_of_def inj_map_eq_map inj_def)

lemma length_bytes_of [simp]: "length (bytes_of s) = length s"
  by (simp add: bytes_of_def)

lemma bytes_of_append [simp]: "bytes_of (s @ t) = bytes_of s @ bytes_of t"
  by (simp add: bytes_of_def)

subsection \<open>Decimal numbers\<close>

text \<open>\<open>std::to_string\<close>: the decimal digits, with a sign when negative.\<close>

definition digit_char :: "nat \<Rightarrow> char" where
  "digit_char d = ''0123456789'' ! d"

definition digit_val :: "char \<Rightarrow> nat" where
  "digit_val c = of_char c - 48"

definition is_digit :: "char \<Rightarrow> bool" where
  "is_digit c \<longleftrightarrow> c \<in> set ''0123456789''"

fun nat_str :: "nat \<Rightarrow> string" where
  "nat_str n = (if n < 10 then [digit_char n] else nat_str (n div 10) @ [digit_char (n mod 10)])"

declare nat_str.simps [simp del]

definition int_str :: "int \<Rightarrow> string" where
  "int_str i = (if i < 0 then CHR ''-'' # nat_str (nat (- i)) else nat_str (nat i))"

definition digits_val :: "string \<Rightarrow> nat" where
  "digits_val s = foldl (\<lambda>v c. v * 10 + digit_val c) 0 s"

lemma digit_cases:
  "(d :: nat) < 10 \<Longrightarrow> d = 0 \<or> d = 1 \<or> d = 2 \<or> d = 3 \<or> d = 4 \<or> d = 5 \<or> d = 6 \<or> d = 7 \<or> d = 8 \<or> d = 9"
  by presburger

lemma digit_char_props: "d < 10 \<Longrightarrow> is_digit (digit_char d) \<and> digit_val (digit_char d) = d"
  by (drule digit_cases, elim disjE) (simp_all add: is_digit_def digit_val_def digit_char_def)

lemma nat_str_digits: "nat_str n \<noteq> [] \<and> (\<forall>c \<in> set (nat_str n). is_digit c)"
proof (induction n rule: nat_str.induct)
  case (1 n)
  then show ?case
    by (subst (1 2) nat_str.simps) (auto simp: digit_char_props)
qed

lemma digits_val_nat_str [simp]: "digits_val (nat_str n) = n"
proof (induction n rule: nat_str.induct)
  case (1 n)
  show ?case
  proof (cases "n < 10")
    case False
    then show ?thesis
      using 1 by (subst nat_str.simps) (simp add: digits_val_def digit_char_props)
  qed (subst nat_str.simps, simp add: digits_val_def digit_char_props)
qed

lemma nat_str_inject [simp]: "nat_str m = nat_str n \<longleftrightarrow> m = n"
  by (metis digits_val_nat_str)

lemma nat_str_no_sign: "nat_str n \<noteq> CHR ''-'' # xs"
proof
  assume "nat_str n = CHR ''-'' # xs"
  then have "is_digit CHR ''-''"
    using nat_str_digits [of n] by simp
  then show False by (simp add: is_digit_def)
qed

lemma int_str_inject [simp]: "int_str i = int_str j \<longleftrightarrow> i = j"
  using nat_str_no_sign nat_str_no_sign [symmetric] by (simp add: int_str_def) linarith

subsection \<open>Lists used as tables\<close>

definition upd_where :: "('a \<Rightarrow> bool) \<Rightarrow> ('a \<Rightarrow> 'a) \<Rightarrow> 'a list \<Rightarrow> 'a list" where
  "upd_where P f xs = map (\<lambda>x. if P x then f x else x) xs"

definition count_where :: "('a \<Rightarrow> bool) \<Rightarrow> 'a list \<Rightarrow> nat" where
  "count_where P xs = length (filter P xs)"

lemma upd_where_Nil [simp]: "upd_where P f [] = []"
  by (simp add: upd_where_def)

lemma upd_where_Cons [simp]:
  "upd_where P f (x # xs) = (if P x then f x else x) # upd_where P f xs"
  by (simp add: upd_where_def)

lemma length_upd_where [simp]: "length (upd_where P f xs) = length xs"
  by (simp add: upd_where_def)

lemma set_upd_where: "set (upd_where P f xs) = f ` {x \<in> set xs. P x} \<union> {x \<in> set xs. \<not> P x}"
  by (auto simp: upd_where_def)

lemma bex_upd_where:
  "(\<exists>r \<in> set (upd_where P f xs). Q r) \<longleftrightarrow> (\<exists>r \<in> set xs. Q (if P r then f r else r))"
  by (induction xs) simp_all

lemma map_upd_where_id:
  assumes "\<And>x. P x \<Longrightarrow> g (f x) = g x"
  shows "map g (upd_where P f xs) = map g xs"
  using assms by (induction xs) auto

lemma map_filter_upd_where:
  assumes "\<And>x. P x \<Longrightarrow> g (f x) = g x" and "\<And>x. P x \<Longrightarrow> Q (f x) = Q x"
  shows "map g (filter Q (upd_where P f xs)) = map g (filter Q xs)"
  using assms by (induction xs) auto

lemma upd_where_none: "\<forall>x \<in> set xs. \<not> P x \<Longrightarrow> upd_where P f xs = xs"
  by (induction xs) auto

lemma count_where_Nil [simp]: "count_where P [] = 0"
  by (simp add: count_where_def)

lemma count_where_Cons [simp]:
  "count_where P (x # xs) = (if P x then Suc (count_where P xs) else count_where P xs)"
  by (simp add: count_where_def)

lemma count_where_0: "count_where P xs = 0 \<longleftrightarrow> (\<forall>x \<in> set xs. \<not> P x)"
  by (simp add: count_where_def filter_empty_conv)

lemma find_append:
  "List.find P (xs @ ys) = (case List.find P xs of None \<Rightarrow> List.find P ys | Some x \<Rightarrow> Some x)"
  by (induction xs) simp_all

lemma find_SomeD: "List.find P xs = Some x \<Longrightarrow> x \<in> set xs \<and> P x"
  by (auto simp: find_Some_iff in_set_conv_nth)

lemma find_NoneD: "List.find P xs = None \<Longrightarrow> x \<in> set xs \<Longrightarrow> \<not> P x"
  by (auto simp: find_None_iff)

lemma find_upd_where:
  assumes "\<And>x. Q (f x) = Q x"
  shows "List.find Q (upd_where P f xs) = map_option (\<lambda>x. if P x then f x else x) (List.find Q xs)"
  by (induction xs) (auto simp: assms)

lemma find_filter_other: "(\<And>y. Q y \<Longrightarrow> R y) \<Longrightarrow> List.find Q (filter R xs) = List.find Q xs"
  by (induction xs) auto

lemma count_unique:
  "distinct (map f xs) \<Longrightarrow> (\<And>x. P x \<Longrightarrow> f x = k) \<Longrightarrow> count_where P xs \<le> 1"
proof (induction xs)
  case (Cons x xs)
  have "count_where P xs = 0" if "P x"
    using Cons.prems that by (auto simp: count_where_0 image_iff)
  then show ?case using Cons by auto
qed simp

lemma distinct_upd_where_one:
  assumes "\<And>x. k (f x) = v"
  shows "distinct (map k xs) \<Longrightarrow> count_where P xs \<le> 1 \<Longrightarrow> \<forall>x \<in> set xs. \<not> P x \<longrightarrow> k x \<noteq> v \<Longrightarrow>
    distinct (map k (upd_where P f xs))"
proof (induction xs)
  case (Cons x xs)
  show ?case
  proof (cases "P x")
    case True
    then have "\<forall>y \<in> set xs. \<not> P y" using Cons.prems(2) by (simp add: count_where_0)
    then show ?thesis using Cons.prems True by (auto simp: upd_where_none assms)
  next
    case False
    then have "k x \<notin> k ` set (upd_where P f xs)"
      using Cons.prems by (auto simp: set_upd_where assms)
    then show ?thesis using Cons False by simp
  qed
qed simp

subsection \<open>Maps\<close>

text \<open>Erasing every entry that satisfies a test: the erase-while-iterating loops.\<close>

definition map_keep :: "('v \<Rightarrow> bool) \<Rightarrow> ('k \<rightharpoonup> 'v) \<Rightarrow> ('k \<rightharpoonup> 'v)" where
  "map_keep keep m = (\<lambda>k. case m k of None \<Rightarrow> None | Some v \<Rightarrow> if keep v then Some v else None)"

lemma map_keep_Some [simp]: "map_keep keep m k = Some v \<longleftrightarrow> m k = Some v \<and> keep v"
  by (auto simp: map_keep_def split: option.splits)

lemma map_keep_None: "map_keep keep m k = None \<longleftrightarrow> m k = None \<or> (\<exists>v. m k = Some v \<and> \<not> keep v)"
  by (auto simp: map_keep_def split: option.splits)

lemma dom_map_keep: "dom (map_keep keep m) \<subseteq> dom m"
  by (auto simp: map_keep_def split: option.splits)

subsection \<open>Ordered maps\<close>

text \<open>A \<open>std::map\<close> that is enumerated is an association list in strictly ascending key order.\<close>

fun kv_put :: "'k::linorder \<Rightarrow> 'v \<Rightarrow> ('k \<times> 'v) list \<Rightarrow> ('k \<times> 'v) list" where
  "kv_put k v [] = [(k, v)]"
| "kv_put k v ((k', v') # m) =
     (if k = k' then (k, v) # m else if k < k' then (k, v) # (k', v') # m
      else (k', v') # kv_put k v m)"

definition kv_erase :: "'k::linorder \<Rightarrow> ('k \<times> 'v) list \<Rightarrow> ('k \<times> 'v) list" where
  "kv_erase k m = filter (\<lambda>(k', v). k' \<noteq> k) m"

definition kv_ok :: "('k::linorder \<times> 'v) list \<Rightarrow> bool" where
  "kv_ok m \<longleftrightarrow> sorted_wrt (<) (map fst m)"

lemma kv_ok_Cons: "kv_ok ((k, v) # m) \<longleftrightarrow> (\<forall>x \<in> fst ` set m. k < x) \<and> kv_ok m"
  by (simp add: kv_ok_def)

lemma fst_kv_put: "fst ` set (kv_put k v m) = insert k (fst ` set m)"
  by (induction k v m rule: kv_put.induct) auto

lemma kv_put_ok: "kv_ok m \<Longrightarrow> kv_ok (kv_put k v m)"
proof (induction k v m rule: kv_put.induct)
  case (2 k v k' v' m)
  then show ?case
    by (cases "k = k'"; cases "k < k'") (auto simp: kv_ok_Cons fst_kv_put)
qed (simp add: kv_ok_def)

lemma kv_erase_ok: "kv_ok m \<Longrightarrow> kv_ok (kv_erase k m)"
  unfolding kv_erase_def by (induction m) (auto simp: kv_ok_Cons)

lemma map_of_kv_put: "map_of (kv_put k v m) = (map_of m)(k \<mapsto> v)"
  by (induction k v m rule: kv_put.induct) (auto simp: fun_eq_iff)

lemma map_of_kv_erase: "map_of (kv_erase k m) = (map_of m)(k := None)"
  unfolding kv_erase_def by (induction m) (auto simp: fun_eq_iff)

lemma kv_put_last: "\<forall>x \<in> fst ` set m. x < k \<Longrightarrow> kv_put k v m = m @ [(k, v)]"
  by (induction k v m rule: kv_put.induct) auto

lemma length_kv_put: "length (kv_put k v m) \<le> Suc (length m)"
  by (induction k v m rule: kv_put.induct) auto

lemma set_kv_put: "set (kv_put k v m) \<subseteq> insert (k, v) (set m)"
  by (induction k v m rule: kv_put.induct) auto

lemma length_kv_erase: "length (kv_erase k m) \<le> length m"
  by (simp add: kv_erase_def)

lemma set_kv_erase: "set (kv_erase k m) \<subseteq> set m"
  by (auto simp: kv_erase_def)

end
