(* ===== verification/Protocol.thy ===== *)
theory Protocol
  imports Prelude
begin

text \<open>
  \<^verbatim>\<open>client_core/Protocol.h\<close>: the protocol numbers, the limits and result codes
  the two ends share, the little-endian protocol number of the wire format and the
  truncation of UTF-8 text at a character boundary.
\<close>

section \<open>Protocol numbers\<close>

definition DEF_BASE :: u32 where
  "DEF_BASE = 1000"

text \<open>The protocol numbers, as the source spells them: an offset from \<open>DEF_BASE\<close>.\<close>

datatype prot =
    REGISTER_RQ | REGISTER_RS | LOGIN_RQ | LOGIN_RS | FRIEND_INFO
  | CHAT_INFO_RQ | CHAT_INFO_RS | ADD_FRIEND_RQ | ADD_FRIEND_RS | FRIEND_OFFLINE
  | HEARTBEAT_RQ | HEARTBEAT_RS | KICKED_OFFLINE
  | ROAM_CONV_RQ | ROAM_CONV_RS | ROAM_MSG_RQ | ROAM_MSG_RS
  | TOKEN_LOGIN_RQ | TOKEN_LOGIN_RS | TOKEN_REFRESH_RQ | TOKEN_REFRESH_RS
  | LOGOUT_RQ | LOGOUT_RS | AI_REPLY_RQ | AI_REPLY_RS | AI_CANCEL_RQ
  | DELETE_FRIEND_RQ | DELETE_FRIEND_RS | FRIEND_REQUEST_LIST_RQ | FRIEND_REQUEST_LIST_RS
  | APP_CLIENT_HELLO | APP_SERVER_HELLO | APP_CLIENT_FINISHED | APP_SERVER_FINISHED
  | APP_ENCRYPTED_FRAME

fun prot_offset :: "prot \<Rightarrow> nat" where
  "prot_offset REGISTER_RQ = 0"
| "prot_offset REGISTER_RS = 1"
| "prot_offset LOGIN_RQ = 2"
| "prot_offset LOGIN_RS = 3"
| "prot_offset FRIEND_INFO = 4"
| "prot_offset CHAT_INFO_RQ = 5"
| "prot_offset CHAT_INFO_RS = 6"
| "prot_offset ADD_FRIEND_RQ = 7"
| "prot_offset ADD_FRIEND_RS = 8"
| "prot_offset FRIEND_OFFLINE = 9"
| "prot_offset HEARTBEAT_RQ = 10"
| "prot_offset HEARTBEAT_RS = 11"
| "prot_offset KICKED_OFFLINE = 12"
| "prot_offset ROAM_CONV_RQ = 13"
| "prot_offset ROAM_CONV_RS = 14"
| "prot_offset ROAM_MSG_RQ = 15"
| "prot_offset ROAM_MSG_RS = 16"
| "prot_offset TOKEN_LOGIN_RQ = 23"
| "prot_offset TOKEN_LOGIN_RS = 24"
| "prot_offset TOKEN_REFRESH_RQ = 25"
| "prot_offset TOKEN_REFRESH_RS = 26"
| "prot_offset LOGOUT_RQ = 27"
| "prot_offset LOGOUT_RS = 28"
| "prot_offset AI_REPLY_RQ = 29"
| "prot_offset AI_REPLY_RS = 30"
| "prot_offset AI_CANCEL_RQ = 31"
| "prot_offset DELETE_FRIEND_RQ = 32"
| "prot_offset DELETE_FRIEND_RS = 33"
| "prot_offset FRIEND_REQUEST_LIST_RQ = 34"
| "prot_offset FRIEND_REQUEST_LIST_RS = 35"
| "prot_offset APP_CLIENT_HELLO = 36"
| "prot_offset APP_SERVER_HELLO = 37"
| "prot_offset APP_CLIENT_FINISHED = 38"
| "prot_offset APP_SERVER_FINISHED = 39"
| "prot_offset APP_ENCRYPTED_FRAME = 40"

definition prot_num :: "prot \<Rightarrow> u32" where
  "prot_num p = DEF_BASE + of_nat (prot_offset p)"

lemma prot_offset_inject: "prot_offset p = prot_offset q \<longleftrightarrow> p = q"
  by (cases p; cases q) simp_all

lemma prot_offset_le: "prot_offset p \<le> 40"
  by (cases p) simp_all

lemma unat_prot_num: "unat (prot_num p) = 1000 + prot_offset p"
proof -
  have "unat (of_nat (prot_offset p) :: u32) = prot_offset p"
    using prot_offset_le [of p] by (simp add: unat_of_nat take_bit_nat_eq_self)
  moreover have "unat (DEF_BASE :: u32) = 1000"
    by (simp add: DEF_BASE_def)
  ultimately show ?thesis
    using prot_offset_le [of p] by (simp add: prot_num_def unat_word_ariths)
qed

lemma prot_num_inject [simp]: "prot_num p = prot_num q \<longleftrightarrow> p = q"
  by (metis add_left_cancel prot_offset_inject unat_prot_num)

text \<open>The control protocols of the secure channel are the range 1036 to 1040.\<close>

definition control_prot :: "u32 \<Rightarrow> bool" where
  "control_prot t \<longleftrightarrow> prot_num APP_CLIENT_HELLO \<le> t \<and> t \<le> prot_num APP_ENCRYPTED_FRAME"

definition handshake_prot :: "u32 \<Rightarrow> bool" where
  "handshake_prot t \<longleftrightarrow> prot_num APP_CLIENT_HELLO \<le> t \<and> t \<le> prot_num APP_SERVER_FINISHED"

lemma handshake_control: "handshake_prot t \<Longrightarrow> control_prot t"
  unfolding handshake_prot_def control_prot_def
  by (auto simp: prot_num_def DEF_BASE_def elim: order_trans)

section \<open>Limits and result codes\<close>

definition MAX_PACK_LEN :: nat where "MAX_PACK_LEN = 10 * 1024 * 1024"

definition USER_NICK_LEN :: nat where "USER_NICK_LEN = 30"

definition APP_SECURITY_VERSION :: u32 where "APP_SECURITY_VERSION = 1"
definition APP_CIPHER_SUITE_V1 :: u32 where "APP_CIPHER_SUITE_V1 = 1"
definition APP_X25519_KEY_LEN :: nat where "APP_X25519_KEY_LEN = 32"
definition APP_NONCE_LEN :: nat where "APP_NONCE_LEN = 32"
definition APP_RANDOM_ID_LEN :: nat where "APP_RANDOM_ID_LEN = 16"
definition APP_SESSION_ID_LEN :: nat where "APP_SESSION_ID_LEN = 16"
definition APP_ED25519_SIGNATURE_LEN :: nat where "APP_ED25519_SIGNATURE_LEN = 64"
definition APP_FINISHED_LEN :: nat where "APP_FINISHED_LEN = 32"
definition APP_GCM_TAG_LEN :: nat where "APP_GCM_TAG_LEN = 16"
definition APP_MAX_HANDSHAKE_PAYLOAD :: nat where "APP_MAX_HANDSHAKE_PAYLOAD = 1024"

lemmas app_lens = APP_X25519_KEY_LEN_def APP_NONCE_LEN_def APP_RANDOM_ID_LEN_def
  APP_SESSION_ID_LEN_def APP_ED25519_SIGNATURE_LEN_def APP_FINISHED_LEN_def APP_GCM_TAG_LEN_def
  APP_MAX_HANDSHAKE_PAYLOAD_def

abbreviation "REGISTER_SUCC \<equiv> (1::int)"
abbreviation "REGISTER_NICK_EXIT \<equiv> (2::int)"
abbreviation "REGISTER_TEL_EXIT \<equiv> (3::int)"
abbreviation "REGISTER_INVALID \<equiv> (4::int)"

abbreviation "LOGIN_SUCCESS \<equiv> (0::int)"
abbreviation "LOGIN_NOTEXIT \<equiv> (1::int)"
abbreviation "LOGIN_PASSERROR \<equiv> (2::int)"
abbreviation "LOGIN_INVALID \<equiv> (3::int)"
abbreviation "LOGIN_RATE_LIMITED \<equiv> (4::int)"

abbreviation "STATUS_ONLINE \<equiv> (0::int)"
abbreviation "STATUS_OFFLINE \<equiv> (1::int)"

abbreviation "CHAT_RESULT_SUCC \<equiv> (0::int)"
abbreviation "CHAT_RESULT_FAIL \<equiv> (1::int)"
abbreviation "CHAT_RESULT_NOT_FRIEND \<equiv> (2::int)"
abbreviation "CHAT_RESULT_SERVER_ERROR \<equiv> (3::int)"
abbreviation "CHAT_RESULT_FILE_NOT_OWNED \<equiv> (4::int)"

abbreviation "ADD_FRIEND_AGREE \<equiv> (0::int)"
abbreviation "ADD_FRIEND_REJECT \<equiv> (1::int)"
abbreviation "ADD_FRIEND_NOTEXIT \<equiv> (3::int)"
abbreviation "ADD_FRIEND_SELF \<equiv> (4::int)"
abbreviation "ADD_FRIEND_ALREADY \<equiv> (5::int)"
abbreviation "ADD_FRIEND_PENDING \<equiv> (6::int)"
abbreviation "ADD_FRIEND_DB_ERROR \<equiv> (7::int)"

abbreviation "DELETE_FRIEND_SUCCESS \<equiv> (0::int)"
abbreviation "DELETE_FRIEND_DB_ERROR \<equiv> (1::int)"
abbreviation "DELETE_FRIEND_NOT_FRIEND \<equiv> (2::int)"
abbreviation "DELETE_FRIEND_INVALID \<equiv> (3::int)"

definition FILE_MAX_SIZE :: int where "FILE_MAX_SIZE = 100 * 1024 * 1024"

section \<open>The little-endian protocol number\<close>

definition encodeType32 :: "u32 \<Rightarrow> bytes" where
  "encodeType32 v =
     [ucast (v AND 0xFF),
      ucast (drop_bit 8 v AND 0xFF),
      ucast (drop_bit 16 v AND 0xFF),
      ucast (drop_bit 24 v AND 0xFF)]"

definition decodeType32 :: "bytes \<Rightarrow> u32" where
  "decodeType32 p =
     ucast (p ! 0) OR push_bit 8 (ucast (p ! 1)) OR
     push_bit 16 (ucast (p ! 2)) OR push_bit 24 (ucast (p ! 3))"

lemma length_encodeType32 [simp]: "length (encodeType32 v) = 4"
  by (simp add: encodeType32_def)

lemma low_byte_mask [simp]: "(ucast (v AND 0xFF :: 'a::len word) :: byte) = ucast v"
proof (rule bit_word_eqI)
  fix n
  assume n: "n < LENGTH(8)"
  have m: "(0xFF :: 'a word) = mask 8"
    by (simp add: mask_eq_decr_exp)
  show "bit (ucast (v AND 0xFF) :: byte) n = bit (ucast v :: byte) n"
    unfolding m using n by (auto simp: bit_simps dest: bit_imp_le_length)
qed

text \<open>Cutting a 32-bit word into bytes and putting it together again.\<close>

lemma word32_bytes:
  "(ucast (ucast (v :: u32) :: byte) :: u32) OR push_bit 8 (ucast (ucast (drop_bit 8 v) :: byte)) OR
   push_bit 16 (ucast (ucast (drop_bit 16 v) :: byte)) OR
   push_bit 24 (ucast (ucast (drop_bit 24 v) :: byte)) = v" (is "?l = v")
proof (rule bit_word_eqI)
  fix n
  assume n: "n < LENGTH(32)"
  consider "n < 8" | "8 \<le> n" "n < 16" | "16 \<le> n" "n < 24" | "24 \<le> n" "n < 32"
    using n by fastforce
  then show "bit ?l n = bit v n"
    by cases (auto simp: bit_or_iff bit_push_bit_iff bit_ucast_iff bit_drop_bit_eq)
qed

lemma decode_encode_Type32: "decodeType32 (encodeType32 v @ xs) = v"
  using word32_bytes [of v] by (simp add: decodeType32_def encodeType32_def)

section \<open>UTF-8 truncation\<close>

text \<open>
  \<open>utf8Truncate\<close> steps back from \<open>maxBytes\<close> while the byte there is a continuation
  byte (\<open>10xxxxxx\<close>), so that the cut never falls inside a character.
\<close>

definition is_cont :: "char \<Rightarrow> bool" where
  "is_cont c \<longleftrightarrow> byte_of c AND 0xC0 = 0x80"

fun utf8_back :: "string \<Rightarrow> nat \<Rightarrow> nat" where
  "utf8_back s 0 = 0"
| "utf8_back s (Suc n) = (if is_cont (s ! Suc n) then utf8_back s n else Suc n)"

definition utf8Truncate :: "string \<Rightarrow> nat \<Rightarrow> string" where
  "utf8Truncate s maxBytes =
     (if length s \<le> maxBytes then s else take (utf8_back s maxBytes) s)"

lemma utf8_back_le: "utf8_back s n \<le> n"
  by (induction n) auto

lemma utf8_back_boundary: "utf8_back s n = 0 \<or> \<not> is_cont (s ! utf8_back s n)"
  by (induction n) auto

lemma utf8_back_greatest: "utf8_back s n < k \<Longrightarrow> k \<le> n \<Longrightarrow> is_cont (s ! k)"
  by (induction n) (auto split: if_splits simp: le_Suc_eq)

lemma length_utf8Truncate_le: "length (utf8Truncate s m) \<le> m"
  using utf8_back_le [of s m] by (auto simp: utf8Truncate_def)

lemma utf8Truncate_prefix: "\<exists>t. s = utf8Truncate s m @ t"
  by (metis append_take_drop_id utf8Truncate_def append_Nil2)

lemma utf8Truncate_id: "length s \<le> m \<Longrightarrow> utf8Truncate s m = s"
  by (simp add: utf8Truncate_def)

text \<open>
  A text cut to a byte limit is a prefix within the limit, it ends on a character boundary, and
  every longer prefix within the limit would have cut a character in two.
\<close>

theorem utf8Truncate_correct:
  assumes "m < length s"
  shows "length (utf8Truncate s m) \<le> m \<and>
         utf8Truncate s m = take (length (utf8Truncate s m)) s \<and>
         (utf8Truncate s m = [] \<or> \<not> is_cont (s ! length (utf8Truncate s m))) \<and>
         (\<forall>k. length (utf8Truncate s m) < k \<and> k \<le> m \<longrightarrow> is_cont (s ! k))"
proof -
  have len: "length (utf8Truncate s m) = utf8_back s m"
    using assms utf8_back_le [of s m] by (simp add: utf8Truncate_def)
  have "utf8Truncate s m = take (utf8_back s m) s"
    using assms by (simp add: utf8Truncate_def)
  then show ?thesis
    using len utf8_back_le [of s m] utf8_back_boundary [of s m] utf8_back_greatest [of s m]
    by auto
qed

text \<open>The two bytes of a Latin letter with an accent are dropped together.\<close>

theorem utf8Truncate_correct_witness:
  "length (utf8Truncate (''ab'' @ [CHR 0xC3, CHR 0xA9]) 3) \<le> 3 \<and>
   utf8Truncate (''ab'' @ [CHR 0xC3, CHR 0xA9]) 3 =
     take (length (utf8Truncate (''ab'' @ [CHR 0xC3, CHR 0xA9]) 3)) (''ab'' @ [CHR 0xC3, CHR 0xA9])"
  using utf8Truncate_correct [of 3 "''ab'' @ [CHR 0xC3, CHR 0xA9]"] by simp

end
