(* ===== verification/Frames.thy ===== *)
theory Frames
  imports Protocol
begin

text \<open>
  The wire format of both ends, \<^verbatim>\<open>[4B big-endian length][4B little-endian type][payload]\<close>:
  \<^verbatim>\<open>client_core/src/transport/FrameCodec\<close> (the codec and the incremental
  \<open>FrameReader\<close>) and the reading and writing of frames in
  \<^verbatim>\<open>im_server/src/session/Session\<close>.

  The locale \<open>stream_parser\<close> states what a reader of a chunked byte stream relies on; its
  lemmas (chunking does not matter, a concatenation of encodings parses to its frames) are
  proved once and interpreted on the client's and on the server's step.
\<close>

section \<open>Chunked parsing, once for both ends\<close>

datatype 'f pstep = More | Bad | Got 'f bytes

fun run_parser :: "(bytes \<Rightarrow> 'f pstep) \<Rightarrow> nat \<Rightarrow> bytes \<Rightarrow> 'f list \<times> bytes option" where
  "run_parser step 0 xs = ([], Some xs)"
| "run_parser step (Suc n) xs =
     (case step xs of
        More \<Rightarrow> ([], Some xs)
      | Bad \<Rightarrow> ([], None)
      | Got f r \<Rightarrow> (let (fs, e) = run_parser step n r in (f # fs, e)))"

definition parse_all :: "(bytes \<Rightarrow> 'f pstep) \<Rightarrow> bytes \<Rightarrow> 'f list \<times> bytes option" where
  "parse_all step xs = run_parser step (length xs) xs"

fun parse_chunks :: "(bytes \<Rightarrow> 'f pstep) \<Rightarrow> bytes \<Rightarrow> bytes list \<Rightarrow> 'f list \<times> bytes option" where
  "parse_chunks step pend [] = ([], Some pend)"
| "parse_chunks step pend (c # cs) =
     (case parse_all step (pend @ c) of
        (fs, None) \<Rightarrow> (fs, None)
      | (fs, Some r) \<Rightarrow> (let (gs, e) = parse_chunks step r cs in (fs @ gs, e)))"

locale stream_parser =
  fixes step :: "bytes \<Rightarrow> 'f pstep"
  assumes step_Nil: "step [] = More"
    and got_shorter: "step xs = Got f r \<Longrightarrow> length r < length xs"
    and got_append: "step xs = Got f r \<Longrightarrow> step (xs @ ys) = Got f (r @ ys)"
    and bad_append: "step xs = Bad \<Longrightarrow> step (xs @ ys) = Bad"
begin

lemma fuel_enough: "length xs \<le> n \<Longrightarrow> run_parser step n xs = parse_all step xs"
proof (induction n arbitrary: xs rule: less_induct)
  case (less n)
  show ?case
  proof (cases n)
    case 0
    with less.prems show ?thesis by (simp add: parse_all_def)
  next
    case (Suc m)
    show ?thesis
    proof (cases xs)
      case Nil
      then show ?thesis using Suc by (simp add: parse_all_def step_Nil)
    next
      case (Cons x ys)
      have rec: "run_parser step m r = run_parser step (length ys) r"
        if "step xs = Got f r" for f r
      proof -
        from that have r: "length r \<le> length ys"
          using got_shorter Cons by fastforce
        moreover have "length ys \<le> m"
          using less.prems Suc Cons by simp
        ultimately have "run_parser step m r = parse_all step r"
          using less.IH [of m r] Suc by simp
        moreover have "run_parser step (length ys) r = parse_all step r"
          using less.IH [of "length ys" r] r \<open>length ys \<le> m\<close> Suc by simp
        ultimately show ?thesis by simp
      qed
      then show ?thesis
        using Suc Cons by (auto simp: parse_all_def split: pstep.splits)
    qed
  qed
qed

lemma parse_all_unfold:
  "parse_all step xs =
     (case step xs of
        More \<Rightarrow> ([], Some xs)
      | Bad \<Rightarrow> ([], None)
      | Got f r \<Rightarrow> (let (fs, e) = parse_all step r in (f # fs, e)))"
proof -
  have "parse_all step xs = run_parser step (Suc (length xs)) xs"
    by (simp add: fuel_enough del: run_parser.simps)
  also have "\<dots> = (case step xs of
        More \<Rightarrow> ([], Some xs)
      | Bad \<Rightarrow> ([], None)
      | Got f r \<Rightarrow> (let (fs, e) = parse_all step r in (f # fs, e)))"
    by (auto split: pstep.splits simp: fuel_enough less_imp_le got_shorter)
  finally show ?thesis .
qed

lemma parse_all_append:
  "parse_all step (xs @ ys) =
     (case parse_all step xs of
        (fs, None) \<Rightarrow> (fs, None)
      | (fs, Some r) \<Rightarrow> (let (gs, e) = parse_all step (r @ ys) in (fs @ gs, e)))"
proof (induction xs rule: length_induct)
  case (1 xs)
  show ?case
  proof (cases "step xs")
    case More
    then show ?thesis by (simp add: parse_all_unfold [of xs])
  next
    case Bad
    then show ?thesis
      by (simp add: parse_all_unfold [of xs] parse_all_unfold [of "xs @ ys"] bad_append)
  next
    case (Got f r)
    then have "length r < length xs" by (rule got_shorter)
    with 1 have "parse_all step (r @ ys) =
       (case parse_all step r of
          (fs, None) \<Rightarrow> (fs, None)
        | (fs, Some r) \<Rightarrow> (let (gs, e) = parse_all step (r @ ys) in (fs @ gs, e)))"
      by simp
    with Got show ?thesis
      by (simp add: parse_all_unfold [of xs] parse_all_unfold [of "xs @ ys"] got_append
          split: prod.splits option.splits)
  qed
qed

text \<open>Chunking does not matter: the chunks parse to what their concatenation parses to.\<close>

lemma parse_chunks_concat:
  assumes "step pend = More"
  shows "parse_chunks step pend cs = parse_all step (pend @ concat cs)"
  using assms
proof (induction cs arbitrary: pend)
  case Nil
  then show ?case by (simp add: parse_all_unfold)
next
  case (Cons c cs)
  have rest: "step r = More" if "parse_all step zs = (fs, Some r)" for zs fs r
    using that
  proof (induction zs arbitrary: fs rule: length_induct)
    case (1 zs)
    from 1(2) show ?case
    proof (cases "step zs")
      case (Got f r')
      then have "length r' < length zs" by (rule got_shorter)
      with 1 Got show ?thesis
        by (auto simp: parse_all_unfold [of zs] split: prod.splits)
    qed (auto simp: parse_all_unfold [of zs])
  qed
  have "parse_all step (pend @ concat (c # cs)) = parse_all step ((pend @ c) @ concat cs)"
    by simp
  also have "\<dots> = parse_chunks step pend (c # cs)"
    by (subst parse_all_append)
      (auto split: prod.splits option.splits dest!: rest simp: Cons.IH)
  finally show ?case by simp
qed

end

text \<open>A parser that inverts an encoder on the well-formed frames.\<close>

locale framing = stream_parser step for step :: "bytes \<Rightarrow> 'f pstep" +
  fixes enc :: "'f \<Rightarrow> bytes" and good :: "'f \<Rightarrow> bool"
  assumes step_enc: "good f \<Longrightarrow> step (enc f @ ys) = Got f ys"
begin

lemma parse_all_encoded:
  "\<forall>f \<in> set fs. good f \<Longrightarrow> parse_all step (concat (map enc fs)) = (fs, Some [])"
proof (induction fs)
  case Nil
  then show ?case by (simp add: parse_all_unfold step_Nil)
next
  case (Cons f fs)
  then show ?case by (simp add: parse_all_unfold [of "enc f @ _"] step_enc)
qed

lemma chunks_of_encoded:
  assumes "\<forall>f \<in> set fs. good f" and "concat cs = concat (map enc fs)"
  shows "parse_chunks step [] cs = (fs, Some [])"
  using assms by (simp add: parse_chunks_concat step_Nil parse_all_encoded)

end

section \<open>FrameCodec\<close>

definition kLengthFieldSize :: nat where "kLengthFieldSize = 4"
definition kTypeFieldSize :: nat where "kTypeFieldSize = 4"
definition kMaxBodyLen :: u32 where "kMaxBodyLen = of_nat MAX_PACK_LEN"
definition kMinBodyLen :: u32 where "kMinBodyLen = of_nat kTypeFieldSize"

lemmas field_sizes = kLengthFieldSize_def kTypeFieldSize_def

definition encodeLength :: "u32 \<Rightarrow> bytes" where
  "encodeLength bodyLen =
     [ucast (drop_bit 24 bodyLen AND 0xFF),
      ucast (drop_bit 16 bodyLen AND 0xFF),
      ucast (drop_bit 8 bodyLen AND 0xFF),
      ucast (bodyLen AND 0xFF)]"

definition decodeLength :: "bytes \<Rightarrow> u32" where
  "decodeLength p =
     push_bit 24 (ucast (p ! 0)) OR push_bit 16 (ucast (p ! 1)) OR
     push_bit 8 (ucast (p ! 2)) OR ucast (p ! 3)"

definition isValidBodyLen :: "u32 \<Rightarrow> bool" where
  "isValidBodyLen bodyLen \<longleftrightarrow> kMinBodyLen \<le> bodyLen \<and> bodyLen \<le> kMaxBodyLen"

definition payloadSize :: "u32 \<Rightarrow> nat" where
  "payloadSize bodyLen =
     (if bodyLen < kMinBodyLen then 0 else unat bodyLen - kTypeFieldSize)"

record frame =
  ftype :: u32
  fpayload :: bytes

datatype frame_error = LengthError

definition encodeFrame :: "u32 \<Rightarrow> bytes \<Rightarrow> frame_error + bytes" where
  "encodeFrame type payload =
     (let bodyLen64 = kTypeFieldSize + length payload in
      if bodyLen64 > unat kMaxBodyLen then Inl LengthError
      else Inr (encodeLength (of_nat bodyLen64) @ encodeType32 type @ payload))"

text \<open>\<open>parseBody\<close> returns the type and the payload of a complete body, or fails.\<close>

definition parseBody :: "bytes option \<Rightarrow> frame option" where
  "parseBody body =
     (case body of
        None \<Rightarrow> None
      | Some b \<Rightarrow>
          if length b < kTypeFieldSize then None
          else if length b > unat kMaxBodyLen then None
          else Some \<lparr>ftype = decodeType32 b, fpayload = drop kTypeFieldSize b\<rparr>)"

lemma length_encodeLength [simp]: "length (encodeLength v) = 4"
  by (simp add: encodeLength_def)

lemma decode_encode_Length: "decodeLength (encodeLength v @ xs) = v"
proof -
  have "decodeLength (encodeLength v @ xs) =
    (ucast (ucast v :: byte) :: u32) OR push_bit 8 (ucast (ucast (drop_bit 8 v) :: byte)) OR
     push_bit 16 (ucast (ucast (drop_bit 16 v) :: byte)) OR
     push_bit 24 (ucast (ucast (drop_bit 24 v) :: byte))"
    by (simp add: decodeLength_def encodeLength_def ac_simps)
  then show ?thesis using word32_bytes [of v] by simp
qed

lemma unat_kMaxBodyLen: "unat kMaxBodyLen = 10485760"
  by (simp add: kMaxBodyLen_def MAX_PACK_LEN_def)

lemma unat_kMinBodyLen: "unat kMinBodyLen = 4"
  by (simp add: kMinBodyLen_def kTypeFieldSize_def)

lemma isValidBodyLen_iff: "isValidBodyLen b \<longleftrightarrow> 4 \<le> unat b \<and> unat b \<le> 10485760"
  by (simp add: isValidBodyLen_def word_le_nat_alt unat_kMaxBodyLen unat_kMinBodyLen)

lemma unat_of_nat_small: "n \<le> 10485760 \<Longrightarrow> unat (of_nat n :: u32) = n"
  by (simp add: unat_of_nat take_bit_nat_eq_self)

lemma decodeLength_take: "4 \<le> length xs \<Longrightarrow> decodeLength (xs @ ys) = decodeLength xs"
  by (cases "xs = []") (auto simp: decodeLength_def nth_append)

lemma decodeType32_take: "4 \<le> length xs \<Longrightarrow> decodeType32 (xs @ ys) = decodeType32 xs"
  by (cases "xs = []") (auto simp: decodeType32_def nth_append)

section \<open>FrameReader\<close>

record reader =
  pending :: bytes

datatype reader_status = NeedMore | FrameReady | InvalidLength

text \<open>
  The loop of \<open>FrameReader::feed\<close>: \<open>consumed\<close> walks over the pending bytes; the result
  is the frames produced and \<open>None\<close> for a corrupt length, else the bytes consumed.
\<close>

function feed_loop :: "bytes \<Rightarrow> nat \<Rightarrow> frame list \<Rightarrow> frame list \<times> nat option" where
  "feed_loop pend consumed out =
     (let remaining = length pend - consumed in
      if remaining < kLengthFieldSize then (out, Some consumed)
      else
        let bodyLen = decodeLength (drop consumed pend) in
        if \<not> isValidBodyLen bodyLen then (out, None)
        else
          let frameLen = kLengthFieldSize + unat bodyLen in
          if remaining < frameLen then (out, Some consumed)
          else
            let body = drop (consumed + kLengthFieldSize) pend;
                f = \<lparr>ftype = decodeType32 body,
                     fpayload = take (unat bodyLen - kTypeFieldSize) (drop kTypeFieldSize body)\<rparr>
            in feed_loop pend (consumed + frameLen) (out @ [f]))"
  by pat_completeness auto
termination
  by (relation "measure (\<lambda>(pend, consumed, out). length pend - consumed)")
    (auto simp: field_sizes)

declare feed_loop.simps [simp del]

text \<open>
  \<open>feed\<close>: \<open>None\<close> stands for a null \<open>data\<close> pointer with a positive length. On a
  corrupt length the buffer is dropped and the frames produced before it stay in \<open>out\<close>.
\<close>

definition feed :: "reader \<Rightarrow> bytes option \<Rightarrow> reader \<times> frame list \<times> reader_status" where
  "feed r data =
     (case data of
        None \<Rightarrow> (r, [], InvalidLength)
      | Some d \<Rightarrow>
          (let pend = pending r @ d in
           case feed_loop pend 0 [] of
             (out, None) \<Rightarrow> (r\<lparr>pending := []\<rparr>, out, InvalidLength)
           | (out, Some consumed) \<Rightarrow>
               (r\<lparr>pending := drop consumed pend\<rparr>, out,
                if out \<noteq> [] then FrameReady else NeedMore)))"

definition reader_reset :: "reader \<Rightarrow> reader" where
  "reader_reset r = r\<lparr>pending := []\<rparr>"

text \<open>The caller feeds chunk after chunk and closes the connection at a corrupt length.\<close>

fun feed_all :: "reader \<Rightarrow> bytes list \<Rightarrow> frame list \<times> reader option" where
  "feed_all r [] = ([], Some r)"
| "feed_all r (c # cs) =
     (case feed r (Some c) of
        (r', out, st) \<Rightarrow>
          if st = InvalidLength then (out, None)
          else (let (out', e) = feed_all r' cs in (out @ out', e)))"

text \<open>One step of the reader as a function of the bytes that remain.\<close>

definition client_step :: "bytes \<Rightarrow> frame pstep" where
  "client_step xs =
     (if length xs < kLengthFieldSize then More
      else if \<not> isValidBodyLen (decodeLength xs) then Bad
      else if length xs < kLengthFieldSize + unat (decodeLength xs) then More
      else Got \<lparr>ftype = decodeType32 (drop kLengthFieldSize xs),
                fpayload = take (unat (decodeLength xs) - kTypeFieldSize)
                  (drop kTypeFieldSize (drop kLengthFieldSize xs))\<rparr>
             (drop (kLengthFieldSize + unat (decodeLength xs)) xs))"

definition frame_bytes :: "frame \<Rightarrow> bytes" where
  "frame_bytes f =
     encodeLength (of_nat (kTypeFieldSize + length (fpayload f))) @ encodeType32 (ftype f) @ fpayload f"

definition frame_ok :: "frame \<Rightarrow> bool" where
  "frame_ok f \<longleftrightarrow> kTypeFieldSize + length (fpayload f) \<le> MAX_PACK_LEN"

lemma encodeFrame_ok:
  "frame_ok f \<Longrightarrow> encodeFrame (ftype f) (fpayload f) = Inr (frame_bytes f)"
  by (simp add: encodeFrame_def frame_ok_def frame_bytes_def unat_kMaxBodyLen MAX_PACK_LEN_def Let_def)

lemma client_step_enc:
  assumes "frame_ok f"
  shows "client_step (frame_bytes f @ ys) = Got f ys"
proof -
  let ?n = "kTypeFieldSize + length (fpayload f)"
  have n: "?n \<le> 10485760" "4 \<le> ?n"
    using assms by (auto simp: frame_ok_def MAX_PACK_LEN_def field_sizes)
  have u: "unat (of_nat ?n :: u32) = ?n"
    by (rule unat_of_nat_small) (use n in simp)
  have d: "decodeLength (frame_bytes f @ ys) = of_nat ?n"
    by (simp add: frame_bytes_def decode_encode_Length)
  have v: "isValidBodyLen (of_nat ?n)"
    using u n by (simp only: isValidBodyLen_iff)
  show ?thesis
    unfolding client_step_def d u using v
    by (simp add: frame_bytes_def field_sizes decode_encode_Type32)
qed

interpretation client_frames: framing client_step frame_bytes frame_ok
proof unfold_locales
  show "client_step [] = More"
    by (simp add: client_step_def field_sizes)
next
  fix xs f r
  assume "client_step xs = Got f r"
  then show "length r < length xs"
    by (auto simp: client_step_def field_sizes split: if_splits)
next
  fix xs f r ys
  assume a: "client_step xs = Got f r"
  then have "4 \<le> length xs" and "4 + unat (decodeLength xs) \<le> length xs"
    and "isValidBodyLen (decodeLength xs)"
    by (auto simp: client_step_def field_sizes split: if_splits)
  moreover from this have "8 \<le> length xs"
    by (simp add: isValidBodyLen_iff)
  ultimately show "client_step (xs @ ys) = Got f (r @ ys)"
    using a by (auto simp: client_step_def field_sizes decodeLength_take decodeType32_take)
next
  fix xs ys
  assume "client_step xs = Bad"
  then show "client_step (xs @ ys) = Bad"
    by (auto simp: client_step_def field_sizes decodeLength_take split: if_splits)
next
  fix f ys
  assume "frame_ok f"
  then show "client_step (frame_bytes f @ ys) = Got f ys"
    by (rule client_step_enc)
qed

text \<open>The loop over an index is the parser on what the index leaves.\<close>

lemma feed_loop_parse:
  "consumed \<le> length pend \<Longrightarrow>
   feed_loop pend consumed out =
     (case parse_all client_step (drop consumed pend) of
        (fs, None) \<Rightarrow> (out @ fs, None)
      | (fs, Some r) \<Rightarrow> (out @ fs, Some (length pend - length r)))"
proof (induction pend consumed out rule: feed_loop.induct)
  case (1 pend consumed out)
  let ?xs = "drop consumed pend"
  show ?case
  proof (cases "client_step ?xs")
    case More
    then show ?thesis
      using 1(2) by (subst feed_loop.simps)
        (auto simp: client_frames.parse_all_unfold [of ?xs] client_step_def split: if_splits)
  next
    case Bad
    then show ?thesis
      by (subst feed_loop.simps)
        (auto simp: client_frames.parse_all_unfold [of ?xs] client_step_def split: if_splits)
  next
    case (Got f r)
    let ?n = "kLengthFieldSize + unat (decodeLength ?xs)"
    have c: "\<not> length pend - consumed < kLengthFieldSize" "isValidBodyLen (decodeLength ?xs)"
      "\<not> length pend - consumed < ?n"
      and r: "r = drop ?n ?xs"
      and f: "f = \<lparr>ftype = decodeType32 (drop (consumed + kLengthFieldSize) pend),
        fpayload = take (unat (decodeLength ?xs) - kTypeFieldSize)
          (drop kTypeFieldSize (drop (consumed + kLengthFieldSize) pend))\<rparr>"
      using Got by (auto simp: client_step_def add.commute split: if_splits)
    then have le: "consumed + ?n \<le> length pend" and r': "r = drop (consumed + ?n) pend"
      using 1(2) by (auto simp: add.commute)
    have "feed_loop pend consumed out = feed_loop pend (consumed + ?n) (out @ [f])"
      using c f by (subst feed_loop.simps) (simp add: Let_def)
    also have "\<dots> = (case parse_all client_step r of
        (fs, None) \<Rightarrow> (out @ [f] @ fs, None)
      | (fs, Some r) \<Rightarrow> (out @ [f] @ fs, Some (length pend - length r)))"
      using 1(1) [OF refl c(1) refl _ refl c(3) refl f le] c(2) r'
      by (simp split: prod.splits option.splits)
    also have "\<dots> = (case parse_all client_step ?xs of
        (fs, None) \<Rightarrow> (out @ fs, None)
      | (fs, Some r) \<Rightarrow> (out @ fs, Some (length pend - length r)))"
      using Got by (simp add: client_frames.parse_all_unfold [of ?xs]
          split: prod.splits option.splits)
    finally show ?thesis .
  qed
qed

lemma parse_all_suffix:
  "parse_all client_step xs = (fs, Some r) \<Longrightarrow> \<exists>ys. xs = ys @ r"
proof (induction xs arbitrary: fs rule: length_induct)
  case (1 xs)
  show ?case
  proof (cases "client_step xs")
    case (Got f r')
    then obtain n where r': "r' = drop n xs"
      by (auto simp: client_step_def split: if_splits)
    obtain gs where "parse_all client_step r' = (gs, Some r)"
      using 1(2) Got by (auto simp: client_frames.parse_all_unfold [of xs] split: prod.splits)
    with 1(1) client_frames.got_shorter [OF Got] obtain ys where "r' = ys @ r"
      by blast
    then have "xs = (take n xs @ ys) @ r"
      using r' by (metis append.assoc append_take_drop_id)
    then show ?thesis ..
  qed (use 1(2) in \<open>auto simp: client_frames.parse_all_unfold [of xs]\<close>)
qed

lemma feed_parse:
  "feed r (Some d) =
     (case parse_all client_step (pending r @ d) of
        (fs, None) \<Rightarrow> (r\<lparr>pending := []\<rparr>, fs, InvalidLength)
      | (fs, Some rest) \<Rightarrow>
          (r\<lparr>pending := rest\<rparr>, fs, if fs \<noteq> [] then FrameReady else NeedMore))"
proof (cases "parse_all client_step (pending r @ d)")
  case (Pair fs e)
  show ?thesis
  proof (cases e)
    case None
    with Pair show ?thesis by (simp add: feed_def feed_loop_parse)
  next
    case (Some rest)
    with Pair obtain ys where "pending r @ d = ys @ rest"
      by (auto dest: parse_all_suffix)
    with Pair Some show ?thesis by (simp add: feed_def feed_loop_parse)
  qed
qed

lemma feed_all_parse:
  "feed_all r cs =
     (case parse_chunks client_step (pending r) cs of
        (fs, None) \<Rightarrow> (fs, None)
      | (fs, Some rest) \<Rightarrow> (fs, Some (r\<lparr>pending := rest\<rparr>)))"
  by (induction cs arbitrary: r)
    (auto simp: feed_parse split: prod.splits option.splits)

section \<open>The server's frames\<close>

text \<open>
  \<open>Session::enqueueRawFrame\<close> writes \<open>4 + payload.size()\<close> as 32 bits without a check;
  \<open>doReadHeader\<close> and \<open>doReadBody\<close> read four bytes, then exactly the announced body.
\<close>

definition encodeLen32 :: "u32 \<Rightarrow> bytes" where
  "encodeLen32 v =
     [ucast (drop_bit 24 v AND 0xFF), ucast (drop_bit 16 v AND 0xFF),
      ucast (drop_bit 8 v AND 0xFF), ucast (v AND 0xFF)]"

definition decodeLen32 :: "bytes \<Rightarrow> u32" where
  "decodeLen32 p =
     push_bit 24 (ucast (p ! 0)) OR push_bit 16 (ucast (p ! 1)) OR
     push_bit 8 (ucast (p ! 2)) OR ucast (p ! 3)"

definition enqueueRawFrame :: "u32 \<Rightarrow> bytes \<Rightarrow> bytes" where
  "enqueueRawFrame type payload =
     encodeLen32 (of_nat (4 + length payload)) @ encodeType32 type @ payload"

definition server_step :: "bytes \<Rightarrow> frame pstep" where
  "server_step xs =
     (if length xs < 4 then More
      else let bodyLen = decodeLen32 xs in
        if bodyLen < 4 \<or> bodyLen > of_nat MAX_PACK_LEN then Bad
        else let rest = drop 4 xs in
          if length rest < unat bodyLen then More
          else let body = take (unat bodyLen) rest in
            Got \<lparr>ftype = decodeType32 body, fpayload = drop 4 body\<rparr> (drop (unat bodyLen) rest))"

lemma server_step_eq_client_step: "server_step xs = client_step xs"
proof -
  have len: "decodeLen32 xs = decodeLength xs"
    by (simp add: decodeLen32_def decodeLength_def)
  have bad: "b < 4 \<or> b > of_nat MAX_PACK_LEN \<longleftrightarrow> \<not> isValidBodyLen b" for b :: u32
    by (auto simp: isValidBodyLen_def kMinBodyLen_def kMaxBodyLen_def field_sizes)
  have ty: "decodeType32 (take n ys) = decodeType32 ys" if "4 \<le> n" "n \<le> length ys" for n ys
    using that decodeType32_take [of "take n ys" "drop n ys"] by simp
  show ?thesis
    unfolding server_step_def client_step_def len bad Let_def
    by (auto simp: field_sizes isValidBodyLen_iff drop_take ty add.commute)
qed

interpretation server_frames: framing server_step "\<lambda>f. enqueueRawFrame (ftype f) (fpayload f)" frame_ok
proof -
  have enc: "(\<lambda>f. enqueueRawFrame (ftype f) (fpayload f)) = frame_bytes"
    by (rule ext) (simp add: enqueueRawFrame_def frame_bytes_def encodeLen32_def encodeLength_def field_sizes)
  have "server_step = client_step"
    by (rule ext) (rule server_step_eq_client_step)
  then show "framing server_step (\<lambda>f. enqueueRawFrame (ftype f) (fpayload f)) frame_ok"
    unfolding enc by (simp add: client_frames.framing_axioms)
qed

section \<open>Properties\<close>

lemma encodeFrame_Inr:
  "encodeFrame (ftype f) (fpayload f) = Inr b \<Longrightarrow> frame_ok f \<and> b = frame_bytes f"
  by (auto simp: encodeFrame_def frame_ok_def frame_bytes_def unat_kMaxBodyLen MAX_PACK_LEN_def
      Let_def split: if_splits)

lemma encoded_all:
  "list_all2 (\<lambda>f b. encodeFrame (ftype f) (fpayload f) = Inr b) fs bs \<Longrightarrow>
   (\<forall>f \<in> set fs. frame_ok f) \<and> bs = map frame_bytes fs"
  by (induction rule: list_all2_induct) (auto dest: encodeFrame_Inr)

text \<open>
  C1: the client's reader recovers a sequence of encoded frames however the transport cuts it.
  Whatever chunks the bytes arrive in, empty chunks and cuts inside a header included, the
  frames come out in order, none twice and none lost, and no byte stays behind; the server's
  reader gets the same frames from the same bytes.
\<close>

theorem frames_survive_chunking:
  assumes "list_all2 (\<lambda>f b. encodeFrame (ftype f) (fpayload f) = Inr b) fs bs"
    and "concat cs = concat bs"
  shows "feed_all \<lparr>pending = []\<rparr> cs = (fs, Some \<lparr>pending = []\<rparr>) \<and>
         parse_chunks server_step [] cs = (fs, Some [])"
proof -
  have ok: "\<forall>f \<in> set fs. frame_ok f" and cs: "concat cs = concat (map frame_bytes fs)"
    using encoded_all [OF assms(1)] assms(2) by auto
  have "parse_chunks client_step [] cs = (fs, Some [])"
    by (rule client_frames.chunks_of_encoded [OF ok cs])
  moreover have "server_step = client_step"
    by (rule ext) (rule server_step_eq_client_step)
  ultimately show ?thesis
    by (simp add: feed_all_parse)
qed

theorem frames_survive_chunking_witness:
  "feed_all \<lparr>pending = []\<rparr> [[0, 0], [0, 6, 0xED], [], [3, 0, 0, 7, 8, 0, 0, 0], [4, 0xF2, 3, 0, 0]] =
     ([\<lparr>ftype = 1005, fpayload = [7, 8]\<rparr>, \<lparr>ftype = 1010, fpayload = []\<rparr>], Some \<lparr>pending = []\<rparr>)"
proof -
  let ?fs = "[\<lparr>ftype = 1005, fpayload = [7, 8]\<rparr>, \<lparr>ftype = 1010, fpayload = []\<rparr>]"
  let ?bs = "[[0, 0, 0, 6, 0xED, 3, 0, 0, 7, 8], [0, 0, 0, 4, 0xF2, 3, 0, 0]] :: bytes list"
  have 1: "list_all2 (\<lambda>f b. encodeFrame (ftype f) (fpayload f) = Inr b) ?fs ?bs"
    by (simp add: encodeFrame_def kMaxBodyLen_def MAX_PACK_LEN_def field_sizes encodeLength_def
        encodeType32_def)
  show ?thesis
    by (rule frames_survive_chunking [OF 1, THEN conjunct1]) simp
qed

lemma server_frame_small:
  assumes "4 + length p \<le> MAX_PACK_LEN"
  shows "feed \<lparr>pending = []\<rparr> (Some (enqueueRawFrame t p)) =
           (\<lparr>pending = []\<rparr>, [\<lparr>ftype = t, fpayload = p\<rparr>], FrameReady)"
proof -
  let ?f = "\<lparr>ftype = t, fpayload = p\<rparr>"
  have "parse_all server_step (concat (map (\<lambda>f. enqueueRawFrame (ftype f) (fpayload f)) [?f])) =
      ([?f], Some [])"
    by (rule server_frames.parse_all_encoded) (use assms in \<open>simp add: frame_ok_def field_sizes\<close>)
  moreover have "server_step = client_step"
    by (rule ext) (rule server_step_eq_client_step)
  ultimately show ?thesis by (simp add: feed_parse)
qed

lemma server_frame_large:
  assumes "MAX_PACK_LEN < 4 + length p" and "4 + length p < 2 ^ 32"
  shows "feed \<lparr>pending = []\<rparr> (Some (enqueueRawFrame t p)) = (\<lparr>pending = []\<rparr>, [], InvalidLength)"
proof -
  have len: "decodeLength (enqueueRawFrame t p) = of_nat (4 + length p)"
    using decode_encode_Length [of "of_nat (4 + length p)"]
    by (simp add: enqueueRawFrame_def encodeLen32_def encodeLength_def)
  have "unat (of_nat (4 + length p) :: u32) = 4 + length p"
    using assms(2) by (subst unat_of_nat) (simp add: take_bit_nat_eq_self)
  then have "\<not> isValidBodyLen (decodeLength (enqueueRawFrame t p))"
    using assms(1) unfolding len isValidBodyLen_iff MAX_PACK_LEN_def by linarith
  moreover have "\<not> length (enqueueRawFrame t p) < kLengthFieldSize"
    by (simp add: enqueueRawFrame_def encodeLen32_def field_sizes)
  ultimately have "client_step (enqueueRawFrame t p) = Bad"
    by (simp add: client_step_def)
  then show ?thesis
    by (simp add: feed_parse client_frames.parse_all_unfold)
qed

text \<open>
  The server's frames reach the client exactly when they respect the limit: a frame
  whose body is at most \<open>MAX_PACK_LEN\<close> is read back as it was sent, and one whose body
  exceeds it (\<open>enqueueRawFrame\<close> does not look at the size) makes the client drop its buffer
  and report a corrupt length, which closes the connection.
\<close>

theorem server_frame_to_client:
  assumes "4 + length p < 2 ^ 32"
  shows "feed \<lparr>pending = []\<rparr> (Some (enqueueRawFrame t p)) =
           (if 4 + length p \<le> MAX_PACK_LEN
            then (\<lparr>pending = []\<rparr>, [\<lparr>ftype = t, fpayload = p\<rparr>], FrameReady)
            else (\<lparr>pending = []\<rparr>, [], InvalidLength))"
  using server_frame_small [of p t] server_frame_large [of p t] assms by simp

theorem server_frame_to_client_witness:
  "feed \<lparr>pending = []\<rparr> (Some (enqueueRawFrame 1006 (replicate 10485757 0))) =
     (\<lparr>pending = []\<rparr>, [], InvalidLength)"
proof -
  have len: "length (replicate 10485757 (0 :: byte)) = 10485757"
    by (rule length_replicate)
  show ?thesis
    by (subst server_frame_to_client) (simp_all only: len MAX_PACK_LEN_def, simp_all)
qed

text \<open>A body that parses is the one the codec built, without its length field.\<close>

lemma parseBody_encodeFrame:
  assumes "encodeFrame type payload = Inr b"
  shows "parseBody (Some (drop kLengthFieldSize b)) = Some \<lparr>ftype = type, fpayload = payload\<rparr>"
proof -
  have ok: "4 + length payload \<le> 10485760" and b:
    "b = encodeLength (of_nat (4 + length payload)) @ encodeType32 type @ payload"
    using assms
    by (auto simp: encodeFrame_def Let_def unat_kMaxBodyLen kTypeFieldSize_def split: if_splits)
  then show ?thesis
    by (simp add: parseBody_def field_sizes unat_kMaxBodyLen decode_encode_Type32)
qed

lemma feed_all_concat: "feed_all (reader_reset r) cs = feed_all (reader_reset r) [concat cs]"
proof -
  have "parse_chunks client_step [] cs = parse_chunks client_step [] [concat cs]"
    by (simp only: client_frames.parse_chunks_concat client_frames.step_Nil) simp
  then show ?thesis
    by (simp add: feed_all_parse reader_reset_def del: parse_chunks.simps)
qed

end
