(* ===== verification/Sha256.thy ===== *)
theory Sha256
  imports Prelude
begin

text \<open>
  \<^verbatim>\<open>protocol/sha256.h\<close> (the streaming hash both ends use for passwords, device proofs and
  file contents) and \<^verbatim>\<open>protocol/image_format.h\<close> (the magic-byte sniffer).

  The model keeps the 64-byte buffer, its fill \<open>m_len\<close>, the bit counter and the eight state
  words. The reference is the one-shot padded hash of FIPS 180-4, written with the library's
  rotation and the recursive message schedule.
\<close>

section \<open>The streaming hash\<close>

record sha =
  sdata :: bytes
  slen :: nat
  sbits :: u64
  sst :: "u32 list"

definition sha_h0 :: "u32 list" where
  "sha_h0 = [0x6a09e667, 0xbb67ae85, 0x3c6ef372, 0xa54ff53a,
             0x510e527f, 0x9b05688c, 0x1f83d9ab, 0x5be0cd19]"

definition sha_reset :: "sha \<Rightarrow> sha" where
  "sha_reset s = s\<lparr>slen := 0, sbits := 0, sst := sha_h0\<rparr>"

definition sha_K :: "u32 list" where
  "sha_K =
    concat
      [[0x428a2f98, 0x71374491, 0xb5c0fbcf, 0xe9b5dba5, 0x3956c25b, 0x59f111f1, 0x923f82a4, 0xab1c5ed5],
       [0xd807aa98, 0x12835b01, 0x243185be, 0x550c7dc3, 0x72be5d74, 0x80deb1fe, 0x9bdc06a7, 0xc19bf174],
       [0xe49b69c1, 0xefbe4786, 0x0fc19dc6, 0x240ca1cc, 0x2de92c6f, 0x4a7484aa, 0x5cb0a9dc, 0x76f988da],
       [0x983e5152, 0xa831c66d, 0xb00327c8, 0xbf597fc7, 0xc6e00bf3, 0xd5a79147, 0x06ca6351, 0x14292967],
       [0x27b70a85, 0x2e1b2138, 0x4d2c6dfc, 0x53380d13, 0x650a7354, 0x766a0abb, 0x81c2c92e, 0x92722c85],
       [0xa2bfe8a1, 0xa81a664b, 0xc24b8b70, 0xc76c51a3, 0xd192e819, 0xd6990624, 0xf40e3585, 0x106aa070],
       [0x19a4c116, 0x1e376c08, 0x2748774c, 0x34b0bcb5, 0x391c0cb3, 0x4ed8aa4a, 0x5b9cca4f, 0x682e6ff3],
       [0x748f82ee, 0x78a5636f, 0x84c87814, 0x8cc70208, 0x90befffa, 0xa4506ceb, 0xbef9a3f7, 0xc67178f2]]"

definition rotr :: "u32 \<Rightarrow> nat \<Rightarrow> u32" where
  "rotr x n = drop_bit n x OR push_bit (32 - n) x"

definition sha_load :: "bytes \<Rightarrow> nat \<Rightarrow> u32" where
  "sha_load d i =
     push_bit 24 (ucast (d ! (i * 4))) OR push_bit 16 (ucast (d ! (i * 4 + 1))) OR
     push_bit 8 (ucast (d ! (i * 4 + 2))) OR ucast (d ! (i * 4 + 3))"

definition sched_next :: "u32 list \<Rightarrow> u32 list" where
  "sched_next w =
     (let i = length w;
          s0 = rotr (w ! (i - 15)) 7 XOR rotr (w ! (i - 15)) 18 XOR drop_bit 3 (w ! (i - 15));
          s1 = rotr (w ! (i - 2)) 17 XOR rotr (w ! (i - 2)) 19 XOR drop_bit 10 (w ! (i - 2))
      in w @ [w ! (i - 16) + s0 + w ! (i - 7) + s1])"

fun sched_loop :: "nat \<Rightarrow> u32 list \<Rightarrow> u32 list" where
  "sched_loop 0 w = w"
| "sched_loop (Suc n) w = sched_loop n (sched_next w)"

fun sha_round :: "u32 \<times> u32 \<Rightarrow> u32 list \<Rightarrow> u32 list" where
  "sha_round (k, w) [a, b, c, d, e, f, g, h] =
     (let S1 = rotr e 6 XOR rotr e 11 XOR rotr e 25;
          ch = (e AND f) XOR (NOT e AND g);
          temp1 = h + S1 + ch + k + w;
          S0 = rotr a 2 XOR rotr a 13 XOR rotr a 22;
          maj = (a AND b) XOR (a AND c) XOR (b AND c);
          temp2 = S0 + maj
      in [temp1 + temp2, a, b, c, d + temp1, e, f, g])"
| "sha_round _ st = st"

definition transform :: "sha \<Rightarrow> sha" where
  "transform s =
     (let w = sched_loop 48 (map (sha_load (sdata s)) [0..<16]);
          v = fold sha_round (zip sha_K w) (sst s)
      in s\<lparr>sst := map2 (+) (sst s) v\<rparr>)"

definition put :: "byte \<Rightarrow> sha \<Rightarrow> sha" where
  "put b s = s\<lparr>sdata := (sdata s)[slen s := b], slen := slen s + 1\<rparr>"

definition sha_update1 :: "byte \<Rightarrow> sha \<Rightarrow> sha" where
  "sha_update1 b s =
     (let s = put b s in
      if slen s = 64 then (transform s)\<lparr>sbits := sbits s + 512, slen := 0\<rparr> else s)"

definition sha_update :: "bytes \<Rightarrow> sha \<Rightarrow> sha" where
  "sha_update bs s = fold sha_update1 bs s"

function zero_upto :: "nat \<Rightarrow> sha \<Rightarrow> sha" where
  "zero_upto lim s = (if slen s < lim then zero_upto lim (put 0 s) else s)"
  by pat_completeness auto
termination
  by (relation "measure (\<lambda>(lim, s). lim - slen s)") (auto simp: put_def)

declare zero_upto.simps [simp del]

definition be64 :: "u64 \<Rightarrow> bytes" where
  "be64 v = map (\<lambda>k. ucast (drop_bit (k * 8) v AND 0xFF)) (rev [0..<8])"

definition be32 :: "u32 \<Rightarrow> bytes" where
  "be32 v = [ucast (drop_bit 24 v AND 0xFF), ucast (drop_bit 16 v AND 0xFF),
             ucast (drop_bit 8 v AND 0xFF), ucast (v AND 0xFF)]"

definition sha_final :: "sha \<Rightarrow> bytes" where
  "sha_final s0 =
     (let i = slen s0;
          s = put 0x80 s0;
          s = (if slen s > 56 then (transform (zero_upto 64 s))\<lparr>slen := 0\<rparr> else s);
          s = zero_upto 56 s;
          totalBits = sbits s0 + of_nat i * 8;
          s = fold put (be64 totalBits) s;
          s = transform s
      in concat (map be32 (sst s)))"

definition hex_digit :: "nat \<Rightarrow> char" where
  "hex_digit n = ''0123456789abcdef'' ! n"

definition hex_of :: "bytes \<Rightarrow> string" where
  "hex_of bs = concat (map (\<lambda>b. [hex_digit (unat (drop_bit 4 b AND 0x0F)),
                                 hex_digit (unat (b AND 0x0F))]) bs)"

text \<open>A fresh object; its buffer holds whatever the memory held.\<close>

definition sha_new :: "bytes \<Rightarrow> sha" where
  "sha_new junk = sha_reset \<lparr>sdata = junk, slen = 0, sbits = 0, sst = []\<rparr>"

definition sha256Hex :: "bytes \<Rightarrow> string \<Rightarrow> string" where
  "sha256Hex junk input = hex_of (sha_final (sha_update (bytes_of input) (sha_new junk)))"

section \<open>The reference\<close>

fun sha_W :: "bytes \<Rightarrow> nat \<Rightarrow> u32" where
  "sha_W blk t =
     (if t < 16 then sha_load blk t
      else (let x = sha_W blk (t - 15); y = sha_W blk (t - 2) in
        (word_rotr 17 y XOR word_rotr 19 y XOR drop_bit 10 y) + sha_W blk (t - 7) +
        (word_rotr 7 x XOR word_rotr 18 x XOR drop_bit 3 x) + sha_W blk (t - 16)))"

declare sha_W.simps [simp del]

definition compress :: "u32 list \<Rightarrow> bytes \<Rightarrow> u32 list" where
  "compress H blk = map2 (+) H (fold sha_round (zip sha_K (map (sha_W blk) [0..<64])) H)"

fun blocks :: "bytes \<Rightarrow> bytes list" where
  "blocks xs = (if length xs < 64 then [] else take 64 xs # blocks (drop 64 xs))"

declare blocks.simps [simp del]

definition pad_tail :: "nat \<Rightarrow> bytes" where
  "pad_tail n = 0x80 # replicate ((119 - n mod 64) mod 64) 0 @ be64 (of_nat (8 * n))"

definition sha256_ref :: "bytes \<Rightarrow> bytes" where
  "sha256_ref m = concat (map be32 (foldl compress sha_h0 (blocks (m @ pad_tail (length m)))))"

section \<open>The schedule\<close>

lemma rotr_word_rotr:
  assumes "0 < n" and "n < 32"
  shows "rotr x n = word_rotr n x"
proof (rule bit_word_eqI)
  fix i
  assume i: "i < LENGTH(32)"
  then have i: "i < 32" by simp
  show "bit (rotr x n) i = bit (word_rotr n x) i"
  proof (cases "i < 32 - n")
    case True
    then have "(i + n) mod 32 = i + n" using assms by simp
    with i True show ?thesis
      using assms by (auto simp: rotr_def bit_simps bit_word_rotr_iff add.commute)
  next
    case False
    then have "(i + n) mod 32 = i + n - 32"
      using assms i by (simp add: mod_if)
    moreover have "\<not> bit x (i + n)"
      using False assms by (auto dest: bit_imp_le_length)
    moreover have "i - (32 - n) = i + n - 32"
      using False assms by simp
    ultimately show ?thesis
      using False assms i by (auto simp: rotr_def bit_simps bit_word_rotr_iff add.commute)
  qed
qed

lemma sched_next_W:
  assumes "16 \<le> t"
  shows "sched_next (map (sha_W blk) [0..<t]) = map (sha_W blk) [0..<Suc t]"
proof -
  have "sha_W blk t = sha_W blk (t - 16) +
      (rotr (sha_W blk (t - 15)) 7 XOR rotr (sha_W blk (t - 15)) 18 XOR drop_bit 3 (sha_W blk (t - 15))) +
      sha_W blk (t - 7) +
      (rotr (sha_W blk (t - 2)) 17 XOR rotr (sha_W blk (t - 2)) 19 XOR drop_bit 10 (sha_W blk (t - 2)))"
    using assms by (subst sha_W.simps) (simp add: rotr_word_rotr Let_def ac_simps)
  then show ?thesis
    using assms by (simp add: sched_next_def Let_def)
qed

lemma sched_loop_W:
  "16 \<le> t \<Longrightarrow> sched_loop n (map (sha_W blk) [0..<t]) = map (sha_W blk) [0..<t + n]"
  by (induction n arbitrary: t) (simp_all add: sched_next_W del: upt_Suc)

lemma transform_compress:
  "transform s = s\<lparr>sst := compress (sst s) (sdata s)\<rparr>"
proof -
  have "map (sha_load (sdata s)) [0..<16] = map (sha_W (sdata s)) [0..<16]"
    by (rule map_cong [OF refl]) (simp add: sha_W.simps)
  then have "sched_loop 48 (map (sha_load (sdata s)) [0..<16]) = map (sha_W (sdata s)) [0..<64]"
    using sched_loop_W [of 16 48 "sdata s"] by (simp only:) simp
  then show ?thesis by (simp only: transform_def compress_def Let_def)
qed

section \<open>Streaming is hashing the whole\<close>

text \<open>A byte absorbed, without the bit counter.\<close>

definition flush :: "sha \<Rightarrow> sha" where
  "flush s = (transform s)\<lparr>slen := 0\<rparr>"

definition absorb :: "byte \<Rightarrow> sha \<Rightarrow> sha" where
  "absorb b s = (let s = put b s in if slen s = 64 then flush s else s)"

definition forget :: "sha \<Rightarrow> sha" where
  "forget s = s\<lparr>sbits := 0\<rparr>"

lemma forget_put: "forget (put b s) = put b (forget s)"
  by (simp add: forget_def put_def)

lemma forget_transform: "forget (transform s) = transform (forget s)"
  by (simp add: forget_def transform_compress)

lemma forget_flush: "forget (flush s) = flush (forget s)"
  by (simp add: forget_def flush_def transform_compress)

lemma forget_update1: "forget (sha_update1 b s) = absorb b (forget s)"
  by (simp add: sha_update1_def absorb_def flush_def forget_def put_def transform_compress Let_def)

lemma forget_absorb: "forget (absorb b s) = absorb b (forget s)"
  by (cases s) (simp add: absorb_def flush_def put_def forget_def transform_compress Let_def)

lemma forget_absorbs: "forget (fold absorb bs s) = fold absorb bs (forget s)"
  by (induction bs arbitrary: s) (simp_all add: forget_absorb)

lemma sst_forget [simp]: "sst (forget s) = sst s"
  by (simp add: forget_def)

lemma sdata_forget [simp]: "sdata (forget s) = sdata s"
  by (simp add: forget_def)

lemma slen_forget [simp]: "slen (forget s) = slen s"
  by (simp add: forget_def)

lemma forget_update: "forget (sha_update bs s) = fold absorb bs (forget s)"
  unfolding sha_update_def by (induction bs arbitrary: s) (simp_all add: forget_update1)

lemma forget_puts: "forget (fold put bs s) = fold put bs (forget s)"
  by (induction bs arbitrary: s) (simp_all add: forget_put)

lemma slen_put [simp]: "slen (put b s) = slen s + 1"
  by (simp add: put_def)

lemma slen_puts [simp]: "slen (fold put bs s) = slen s + length bs"
  by (induction bs arbitrary: s) simp_all

lemma zero_upto_puts: "zero_upto lim s = fold put (replicate (lim - slen s) 0) s"
proof (induction lim s rule: zero_upto.induct)
  case (1 lim s)
  show ?case
  proof (cases "slen s < lim")
    case True
    then have "replicate (lim - slen s) (0::byte) = 0 # replicate (lim - slen (put 0 s)) 0"
      by (simp flip: replicate_Suc add: Suc_diff_Suc)
    with True 1 show ?thesis by (simp add: zero_upto.simps [of lim s])
  qed (simp add: zero_upto.simps [of lim s])
qed

lemma absorb_put: "slen s \<noteq> 63 \<Longrightarrow> absorb b s = put b s"
  by (simp add: absorb_def Let_def)

lemma absorb_full: "slen s = 63 \<Longrightarrow> absorb b s = flush (put b s)"
  by (simp add: absorb_def Let_def)

lemma absorb_puts: "slen s + length bs < 64 \<Longrightarrow> fold absorb bs s = fold put bs s"
  by (induction bs arbitrary: s) (simp_all add: absorb_put)

lemma absorb_flush:
  "slen s + length bs = 64 \<Longrightarrow> bs \<noteq> [] \<Longrightarrow> fold absorb bs s = flush (fold put bs s)"
proof (induction bs arbitrary: s rule: rev_induct)
  case (snoc b bs)
  then show ?case using absorb_puts [of s bs] by (simp add: absorb_full)
qed simp

lemma slen_absorb: "slen s < 64 \<Longrightarrow> slen (absorb b s) = (slen s + 1) mod 64"
  by (auto simp: absorb_def flush_def Let_def transform_compress)

lemma slen_absorbs: "slen s < 64 \<Longrightarrow> slen (fold absorb bs s) = (slen s + length bs) mod 64"
  by (induction bs arbitrary: s) (simp_all add: slen_absorb mod_simps)

lemma sdata_puts:
  "slen s + length bs \<le> length (sdata s) \<Longrightarrow>
   sdata (fold put bs s) = take (slen s) (sdata s) @ bs @ drop (slen s + length bs) (sdata s)"
proof (induction bs arbitrary: s)
  case (Cons b bs)
  have "sdata (fold put (b # bs) s) =
      take (slen s + 1) ((sdata s)[slen s := b]) @ bs @ drop (slen s + 1 + length bs) ((sdata s)[slen s := b])"
    using Cons.IH [of "put b s"] Cons.prems by (simp add: put_def [of b s])
  moreover have "take (slen s + 1) ((sdata s)[slen s := b]) = take (slen s) (sdata s) @ [b]"
    using Cons.prems by (simp add: take_Suc_conv_app_nth)
  ultimately show ?case by simp
qed simp

lemma sst_puts [simp]: "sst (fold put bs s) = sst s"
  by (induction bs arbitrary: s) (simp_all add: put_def)

lemma length_sdata_absorb: "length (sdata (fold absorb bs s)) = length (sdata s)"
  by (induction bs arbitrary: s)
    (simp_all add: absorb_def flush_def put_def transform_compress Let_def)

lemma sst_absorb_blocks:
  "64 dvd length p \<Longrightarrow> slen s = 0 \<Longrightarrow> length (sdata s) = 64 \<Longrightarrow>
   sst (fold absorb p s) = foldl compress (sst s) (blocks p)"
proof (induction p arbitrary: s rule: blocks.induct)
  case (1 p)
  show ?case
  proof (cases "length p < 64")
    case True
    with 1 have "p = []" by (auto dest: nat_dvd_not_less)
    then show ?thesis by (simp add: blocks.simps)
  next
    case False
    let ?b = "take 64 p" and ?r = "drop 64 p"
    have b: "length ?b = 64" using False by simp
    have "fold absorb ?b s = flush (fold put ?b s)"
      by (rule absorb_flush) (use 1 b in auto)
    moreover have "sdata (fold put ?b s) = ?b"
      using 1 b by (subst sdata_puts) auto
    ultimately have st: "sst (fold absorb ?b s) = compress (sst s) ?b"
      by (simp add: flush_def transform_compress)
    have "fold absorb p s = fold absorb ?r (fold absorb ?b s)"
      by (metis append_take_drop_id comp_apply fold_append)
    moreover have "64 dvd length ?r"
      using 1 False by (simp add: dvd_diff_nat)
    moreover have "slen (fold absorb ?b s) = 0"
      using 1 b by (simp add: slen_absorbs del: length_take)
    ultimately show ?thesis
      using 1 False st by (simp add: length_sdata_absorb blocks.simps [of p])
  qed
qed

lemma length_be64 [simp]: "length (be64 v) = 8"
  by (simp add: be64_def)

lemma length_pad: "64 dvd length (m @ pad_tail (length m))"
proof -
  obtain q r where n: "length m = 64 * q + r" and r: "r < 64"
    by (metis mod_less_divisor mult_div_mod_eq zero_less_numeral)
  then have "length m mod 64 = r" by simp
  then have "length (m @ pad_tail (length m)) = 64 * q + (r + 9 + (119 - r) mod 64)"
    using n by (simp add: pad_tail_def)
  moreover have "r + 9 + (119 - r) mod 64 = 64 \<or> r + 9 + (119 - r) mod 64 = 128"
    using r by (cases "r < 56") (auto simp: mod_if)
  then have "64 dvd 64 * q + (r + 9 + (119 - r) mod 64)"
    by (metis dvd_add dvd_refl dvd_triv_left dvd_mult num_double mult_2 numeral_Bit0)
  ultimately show ?thesis by simp
qed

lemma sbits_update1:
  "sbits (sha_update1 b s) = (if slen s = 63 then sbits s + 512 else sbits s)"
  by (auto simp: sha_update1_def Let_def put_def transform_compress)

lemma slen_update1: "slen s < 64 \<Longrightarrow> slen (sha_update1 b s) = (slen s + 1) mod 64"
  by (auto simp: sha_update1_def Let_def put_def transform_compress)

lemma sbits_update:
  "slen s < 64 \<Longrightarrow>
   sbits (sha_update bs s) = sbits s + of_nat (512 * ((slen s + length bs) div 64)) \<and>
   slen (sha_update bs s) = (slen s + length bs) mod 64"
  unfolding sha_update_def
proof (induction bs arbitrary: s)
  case (Cons b bs)
  show ?case
  proof (cases "slen s = 63")
    case True
    then have l: "slen (sha_update1 b s) = 0"
      by (simp add: slen_update1)
    have d: "(slen s + length (b # bs)) div 64 = Suc (length bs div 64)"
      and m: "(slen s + length (b # bs)) mod 64 = length bs mod 64"
      using True by simp_all
    show ?thesis
      unfolding d m using Cons.IH [of "sha_update1 b s"] True
      by (simp add: l sbits_update1 algebra_simps)
  next
    case False
    with Cons.prems show ?thesis
      using Cons.IH [of "sha_update1 b s"] by (simp add: sbits_update1 slen_update1)
  qed
qed simp

lemma final_absorb:
  assumes "slen s < 64" and "length (sdata s) = 64"
  shows "sha_final s =
    concat (map be32 (sst (fold absorb
      (0x80 # replicate ((119 - slen s) mod 64) 0 @ be64 (sbits s + of_nat (slen s) * 8)) s)))"
    (is "_ = concat (map be32 (sst (fold absorb ?t s)))")
proof (cases "slen s < 56")
  case True
  let ?z = "replicate (55 - slen s) (0::byte)" and ?l = "be64 (sbits s + of_nat (slen s) * 8)"
  have "(119 - slen s) mod 64 = 55 - slen s"
    using True by (simp add: mod_if)
  then have "fold absorb ?t s = flush (fold put (0x80 # ?z @ ?l) s)"
    using absorb_flush [of s "0x80 # ?z @ ?l"] True by simp
  moreover have "sha_final s = concat (map be32 (sst (transform (fold put (0x80 # ?z @ ?l) s))))"
    using True by (simp add: sha_final_def Let_def zero_upto_puts)
  ultimately show ?thesis by (simp add: flush_def)
next
  case False
  let ?z1 = "replicate (63 - slen s) (0::byte)" and ?z2 = "replicate 56 (0::byte)"
    and ?l = "be64 (sbits s + of_nat (slen s) * 8)"
  let ?s1 = "flush (fold put (0x80 # ?z1) s)"
  have "(119 - slen s) mod 64 = 119 - slen s"
    using False assms(1) by simp
  then have "replicate ((119 - slen s) mod 64) (0::byte) = ?z1 @ ?z2"
    using False assms(1) by (simp flip: replicate_add)
  then have "fold absorb ?t s = fold absorb (?z2 @ ?l) (fold absorb (0x80 # ?z1) s)"
    by simp
  also have "fold absorb (0x80 # ?z1) s = ?s1"
    by (rule absorb_flush) (use assms in auto)
  also have "fold absorb (?z2 @ ?l) ?s1 = flush (fold put (?z2 @ ?l) ?s1)"
    by (rule absorb_flush) (auto simp: flush_def)
  finally have "sst (fold absorb ?t s) = sst (transform (fold put (?z2 @ ?l) ?s1))"
    by (simp add: flush_def)
  moreover have "sha_final s = concat (map be32 (sst (transform (fold put (?z2 @ ?l) ?s1))))"
    using False assms(1) by (simp add: sha_final_def Let_def zero_upto_puts flush_def)
  ultimately show ?thesis by simp
qed

lemma sha_stream_ref:
  assumes "length junk = 64"
  shows "sha_final (sha_update m (sha_new junk)) = sha256_ref m"
proof -
  let ?init = "sha_new junk"
  have s0: "slen ?init = 0" "sbits ?init = 0" "length (sdata ?init) = 64" "sst ?init = sha_h0"
    using assms by (simp_all add: sha_new_def sha_reset_def)
  let ?s = "sha_update m ?init"
  have l: "slen ?s = length m mod 64" and b: "sbits ?s = of_nat (512 * (length m div 64))"
    using sbits_update [of ?init m] s0 by simp_all
  have f: "fold absorb xs (forget ?s) = fold absorb (m @ xs) (forget ?init)" for xs
    by (simp add: forget_update)
  have nb: "sst (fold absorb xs s) = sst (fold absorb xs (forget s))" for xs s
    by (metis forget_absorbs sst_forget)
  have n: "8 * length m = 512 * (length m div 64) + length m mod 64 * 8"
    using mult_div_mod_eq [of 64 "length m"] by linarith
  have bits: "sbits ?s + of_nat (slen ?s) * 8 = of_nat (8 * length m)"
    by (subst n) (simp only: l b of_nat_add of_nat_mult of_nat_numeral)
  have "length (sdata ?s) = 64"
    using length_sdata_absorb [of m "forget ?init"] s0 by (metis forget_update sdata_forget)
  then have "sha_final ?s = concat (map be32 (sst (fold absorb (pad_tail (length m)) ?s)))"
    using final_absorb [of ?s] l bits by (simp add: pad_tail_def)
  also have "sst (fold absorb (pad_tail (length m)) ?s) =
      sst (fold absorb (m @ pad_tail (length m)) (forget ?init))"
    by (subst nb) (simp only: f)
  also have "\<dots> = foldl compress sha_h0 (blocks (m @ pad_tail (length m)))"
    by (subst sst_absorb_blocks) (use length_pad s0 in \<open>auto simp: forget_def\<close>)
  finally show ?thesis by (simp add: sha256_ref_def)
qed


text \<open>The hash has 32 bytes, its text 64 lower-case hexadecimal digits.\<close>

lemma sha_round_length: "length st = 8 \<Longrightarrow> length (sha_round kw st) = 8"
  by (cases "(kw, st)" rule: sha_round.cases) (auto simp: Let_def)

lemma fold_round_length: "length st = 8 \<Longrightarrow> length (fold sha_round kws st) = 8"
  by (induction kws arbitrary: st) (simp_all add: sha_round_length)

lemma compress_length: "length H = 8 \<Longrightarrow> length (foldl compress H bs) = 8"
  by (induction bs arbitrary: H) (simp_all add: compress_def fold_round_length)

lemma length_be32 [simp]: "length (be32 v) = 4"
  by (simp add: be32_def)

lemma concat_be32: "length (concat (map be32 ws)) = 4 * length ws"
  by (induction ws) simp_all

lemma length_sha256_ref: "length (sha256_ref m) = 32"
  using compress_length [of sha_h0] by (simp add: sha256_ref_def concat_be32 sha_h0_def)

lemma length_hex_of: "length (hex_of bs) = 2 * length bs"
  by (induction bs) (simp_all add: hex_of_def)

lemma nibble_less: "unat (x AND 0x0F :: byte) < 16"
proof -
  have "x AND 0x0F \<le> (0x0F :: byte)"
    by (rule word_and_le1)
  then show ?thesis by (simp add: word_le_nat_alt)
qed

lemma hex_digit_in: "n < 16 \<Longrightarrow> hex_digit n \<in> set ''0123456789abcdef''"
  unfolding hex_digit_def by (rule nth_mem) simp

lemma set_hex_of: "set (hex_of bs) \<subseteq> set ''0123456789abcdef''"
proof
  fix c assume "c \<in> set (hex_of bs)"
  then obtain x :: byte where "c = hex_digit (unat (x AND 0x0F))"
    unfolding hex_of_def by auto
  then show "c \<in> set ''0123456789abcdef''"
    using hex_digit_in [OF nibble_less [of x]] by simp
qed

lemma hex_digit_inject: "m < 16 \<Longrightarrow> n < 16 \<Longrightarrow> hex_digit m = hex_digit n \<longleftrightarrow> m = n"
proof -
  assume m: "m < 16" and n: "n < 16"
  have "distinct ''0123456789abcdef''" by simp
  then show ?thesis
    unfolding hex_digit_def by (rule nth_eq_iff_index_eq) (use m n in simp_all)
qed

lemma byte_nibbles: "unat b = 16 * unat (drop_bit 4 b AND 0x0F) + unat (b AND 0x0F)" for b :: byte
proof -
  have m: "(0x0F :: byte) = mask 4" by (simp add: mask_eq_decr_exp)
  have "unat (drop_bit 4 b AND 0x0F) = unat b div 16"
  proof -
    have "unat b div 16 < 16" using unsigned_less [of b, where 'a = nat] by simp
    moreover have "unat (drop_bit 4 b AND mask 4) = take_bit 4 (drop_bit 4 (unat b))"
      by (simp only: take_bit_eq_mask [symmetric] unsigned_take_bit_eq unsigned_drop_bit_eq)
        (use unsigned_less [of b, where 'a = nat] in \<open>simp add: take_bit_nat_eq_self\<close>)
    ultimately show ?thesis
      unfolding m by (simp add: drop_bit_eq_div take_bit_eq_mod)
  qed
  moreover have "unat (b AND mask 4) = take_bit 4 (unat b)"
    by (simp only: take_bit_eq_mask [symmetric] unsigned_take_bit_eq)
  then have "unat (b AND 0x0F) = unat b mod 16"
    unfolding m by (simp add: take_bit_eq_mod)
  ultimately show ?thesis by simp
qed

lemma hex_of_inject: "hex_of xs = hex_of ys \<longleftrightarrow> xs = ys"
proof (induction xs arbitrary: ys)
  case Nil
  then show ?case by (cases ys) (simp_all add: hex_of_def)
next
  case (Cons x xs)
  have one: "x = y" if "hex_digit (unat (drop_bit 4 x AND 0x0F)) = hex_digit (unat (drop_bit 4 y AND 0x0F))"
    and "hex_digit (unat (x AND 0x0F)) = hex_digit (unat (y AND 0x0F))" for y :: byte
    using that byte_nibbles [of x] byte_nibbles [of y]
    by (metis hex_digit_inject nibble_less unsigned_word_eqI)
  show ?case
    using Cons.IH by (cases ys) (auto simp: hex_of_def dest: one)
qed

text \<open>
  C31: \<open>sha256Hex\<close> is SHA-256. The streaming hash, whatever its buffer held before, gives the
  digest of the padded message as FIPS 180-4 defines it, as 64 lower-case hexadecimal digits.
\<close>

theorem sha256Hex_correct:
  assumes "length junk = 64"
  shows "sha256Hex junk s = hex_of (sha256_ref (bytes_of s)) \<and>
         length (sha256Hex junk s) = 64 \<and> set (sha256Hex junk s) \<subseteq> set ''0123456789abcdef''"
  using set_hex_of sha_stream_ref [OF assms]
  by (auto simp: sha256Hex_def length_hex_of length_sha256_ref)

theorem sha256Hex_correct_witness:
  "sha256Hex (replicate 64 0xAA) ''abc'' =
     hex_of (concat (map be32 (compress sha_h0
       ([0x61, 0x62, 0x63, 0x80] @ replicate 52 0 @ be64 24))))"
proof -
  have b: "bytes_of ''abc'' = [0x61, 0x62, 0x63]"
    by (simp add: bytes_of_def byte_of_def of_char_def)
  have p: "pad_tail 3 = 0x80 # replicate 52 0 @ be64 24"
    by (simp add: pad_tail_def)
  have one: "blocks xs = [xs]" if "length xs = 64" for xs
    using that by (simp add: blocks.simps [of xs] blocks.simps [of "[]"])
  have "sha256_ref (bytes_of ''abc'') = concat (map be32 (compress sha_h0
       ([0x61, 0x62, 0x63, 0x80] @ replicate 52 0 @ be64 24)))"
    unfolding sha256_ref_def b by (simp add: p one flip: numeral_3_eq_3)
  then show ?thesis
    using sha256Hex_correct [of "replicate 64 0xAA" "''abc''"] by simp
qed

section \<open>Image formats\<close>

definition imageExtForBytes :: "bytes \<Rightarrow> string" where
  "imageExtForBytes p =
     (let n = length p in
      if n \<ge> 8 \<and> p ! 0 = 0x89 \<and> p ! 1 = 0x50 \<and> p ! 2 = 0x4E \<and> p ! 3 = 0x47 \<and>
         p ! 4 = 0x0D \<and> p ! 5 = 0x0A \<and> p ! 6 = 0x1A \<and> p ! 7 = 0x0A
      then ''.png''
      else if n \<ge> 3 \<and> p ! 0 = 0xFF \<and> p ! 1 = 0xD8 \<and> p ! 2 = 0xFF then ''.jpg''
      else if n \<ge> 4 \<and> p ! 0 = 0x47 \<and> p ! 1 = 0x49 \<and> p ! 2 = 0x46 \<and> p ! 3 = 0x38 then ''.gif''
      else if n \<ge> 2 \<and> p ! 0 = 0x42 \<and> p ! 1 = 0x4D then ''.bmp''
      else if n \<ge> 12 \<and> p ! 0 = 0x52 \<and> p ! 1 = 0x49 \<and> p ! 2 = 0x46 \<and> p ! 3 = 0x46 \<and>
              p ! 8 = 0x57 \<and> p ! 9 = 0x45 \<and> p ! 10 = 0x42 \<and> p ! 11 = 0x50
      then ''.webp''
      else if n \<ge> 12 \<and> p ! 4 = byte_of CHR ''f'' \<and> p ! 5 = byte_of CHR ''t'' \<and>
              p ! 6 = byte_of CHR ''y'' \<and> p ! 7 = byte_of CHR ''p'' \<and>
              p ! 8 = byte_of CHR ''a'' \<and> p ! 9 = byte_of CHR ''v'' \<and> p ! 10 = byte_of CHR ''i'' \<and>
              (p ! 11 = byte_of CHR ''f'' \<or> p ! 11 = byte_of CHR ''s'')
      then ''.avif''
      else ''.bin'')"

end
