(* ===== verification/SyncTracker.thy ===== *)
theory SyncTracker
  imports Prelude
begin

text \<open>
  \<^verbatim>\<open>client_core/sync/SyncTracker.h\<close>: the watermark and gap state machine of one
  conversation. The code keeps the arrived sequence numbers as a sorted vector of closed
  intervals; the abstraction \<open>covered\<close> is the set of those numbers, and every operation is
  proved to be the set operation it stands for.

  Sequence numbers and times are \<open>int\<close>: the code adds one to a sequence number and doubles a
  back-off below its maximum, which overflow \<open>int64\<close> only at \<open>2^63 - 1\<close>.
\<close>

section \<open>State\<close>

record gap =
  gfrom :: int
  gto :: int
  gattempt :: int
  gretry :: int

record range =
  rfrom :: int
  rto :: int

record retry_info =
  ri_attempt :: int
  ri_next :: int

record tr_config =
  cf_owner :: int
  cf_conv :: int
  cf_maxPages :: int
  cf_maxGaps :: int
  cf_base :: int
  cf_max :: int

record tracker =
  tr_cfg :: tr_config
  tr_maxSeen :: int
  tr_arrived :: "range list"
  tr_retries :: "int \<rightharpoonup> retry_info"

definition tr_default_config :: tr_config where
  "tr_default_config =
     \<lparr>cf_owner = 0, cf_conv = 0, cf_maxPages = 5, cf_maxGaps = 3, cf_base = 1000, cf_max = 60 * 1000\<rparr>"

definition tr_new :: "tr_config \<Rightarrow> tracker" where
  "tr_new c = \<lparr>tr_cfg = c, tr_maxSeen = 0, tr_arrived = [], tr_retries = (\<lambda>_. None)\<rparr>"

section \<open>Operations\<close>

text \<open>The merge loop: swallow the following ranges while they touch or overlap.\<close>

fun merge_next :: "range \<Rightarrow> range list \<Rightarrow> range list" where
  "merge_next it [] = [it]"
| "merge_next it (next # rest) =
     (if rfrom next \<le> rto it + 1 then merge_next (it\<lparr>rto := max (rto it) (rto next)\<rparr>) rest
      else it # next # rest)"

text \<open>\<open>std::lower_bound\<close> on a partitioned vector is the end of its longest true prefix.\<close>

definition addArrived :: "range list \<Rightarrow> int \<Rightarrow> int \<Rightarrow> range list" where
  "addArrived rs from to =
     (if from > to then rs
      else
        let before = takeWhile (\<lambda>r. rto r < from - 1) rs;
            it = dropWhile (\<lambda>r. rto r < from - 1) rs
        in case it of
             [] \<Rightarrow> before @ [\<lparr>rfrom = from, rto = to\<rparr>]
           | r # rest \<Rightarrow>
               if rfrom r \<le> to + 1
               then before @ merge_next (r\<lparr>rfrom := min (rfrom r) from, rto := max (rto r) to\<rparr>) rest
               else before @ \<lparr>rfrom = from, rto = to\<rparr> # r # rest)"

fun inner_gaps :: "range list \<Rightarrow> gap list" where
  "inner_gaps (r # s # rs) =
     (let gf = rto r + 1; gt = rfrom s - 1 in
      (if gf \<le> gt then [\<lparr>gfrom = gf, gto = gt, gattempt = 0, gretry = 0\<rparr>] else []) @
      inner_gaps (s # rs))"
| "inner_gaps _ = []"

definition computeGaps :: "range list \<Rightarrow> gap list" where
  "computeGaps rs =
     (case rs of
        [] \<Rightarrow> []
      | r # _ \<Rightarrow>
          (if rfrom r > 1 then [\<lparr>gfrom = 1, gto = rfrom r - 1, gattempt = 0, gretry = 0\<rparr>] else [])
          @ inner_gaps rs)"

definition gapsWithRetry :: "tracker \<Rightarrow> gap list" where
  "gapsWithRetry t =
     map (\<lambda>g. case tr_retries t (gfrom g) of
                None \<Rightarrow> g
              | Some ri \<Rightarrow> g\<lparr>gattempt := ri_attempt ri, gretry := ri_next ri\<rparr>)
         (computeGaps (tr_arrived t))"

definition contiguousSeq :: "tracker \<Rightarrow> int" where
  "contiguousSeq t =
     (case tr_arrived t of
        [] \<Rightarrow> 0
      | r # _ \<Rightarrow> if rfrom r \<noteq> 1 then 0 else rto r)"

definition tr_observeSeq :: "int \<Rightarrow> tracker \<Rightarrow> bool \<times> tracker" where
  "tr_observeSeq seq t =
     (if seq \<le> 0 then (False, t)
      else
        let before = contiguousSeq t;
            t1 = (if seq > tr_maxSeen t then t\<lparr>tr_maxSeen := seq\<rparr> else t);
            t2 = t1\<lparr>tr_arrived := addArrived (tr_arrived t1) seq seq\<rparr>
        in (contiguousSeq t2 > before, t2))"

definition tr_fillGap :: "int \<Rightarrow> int \<Rightarrow> tracker \<Rightarrow> tracker" where
  "tr_fillGap from to t =
     (if from > to then t
      else
        let t1 = (if to > tr_maxSeen t then t\<lparr>tr_maxSeen := to\<rparr> else t)
        in t1\<lparr>tr_arrived := addArrived (tr_arrived t1) from to\<rparr>)"

text \<open>The doubling loop of \<open>backoffFor\<close>: \<open>i\<close> runs from 1 while it is below \<open>attempt\<close>.\<close>

function backoff_loop :: "int \<Rightarrow> int \<Rightarrow> int \<Rightarrow> int \<Rightarrow> int" where
  "backoff_loop cap attempt i v =
     (if i < attempt \<and> v < cap then backoff_loop cap attempt (i + 1) (v * 2) else v)"
  by pat_completeness auto
termination
  by (relation "measure (\<lambda>(cap, attempt, i, v). nat (attempt - i))") auto

declare backoff_loop.simps [simp del]

definition backoffFor :: "tracker \<Rightarrow> int \<Rightarrow> int" where
  "backoffFor t attempt =
     min (backoff_loop (cf_max (tr_cfg t)) attempt 1 (cf_base (tr_cfg t))) (cf_max (tr_cfg t))"

definition markGapAttemptFailed :: "int \<Rightarrow> tracker \<Rightarrow> tracker" where
  "markGapAttemptFailed nowMs t =
     (case computeGaps (tr_arrived t) of
        [] \<Rightarrow> t
      | g # _ \<Rightarrow>
          let ri = (case tr_retries t (gfrom g) of
                      None \<Rightarrow> \<lparr>ri_attempt = 0, ri_next = 0\<rparr> | Some ri \<Rightarrow> ri);
              a = ri_attempt ri + 1
          in t\<lparr>tr_retries := (tr_retries t)(gfrom g \<mapsto>
                 \<lparr>ri_attempt = a, ri_next = nowMs + backoffFor t a\<rparr>)\<rparr>)"

fun pending_loop :: "int \<Rightarrow> int \<Rightarrow> gap list \<Rightarrow> gap list \<Rightarrow> gap list" where
  "pending_loop limit nowMs out [] = out"
| "pending_loop limit nowMs out (g # gs) =
     (if gretry g > nowMs then pending_loop limit nowMs out gs
      else
        let out = out @ [g] in
        if int (length out) \<ge> limit then out else pending_loop limit nowMs out gs)"

definition tr_pendingGaps :: "tracker \<Rightarrow> int \<Rightarrow> gap list" where
  "tr_pendingGaps t nowMs = pending_loop (cf_maxGaps (tr_cfg t)) nowMs [] (gapsWithRetry t)"

definition tr_hasGaps :: "tracker \<Rightarrow> bool" where
  "tr_hasGaps t \<longleftrightarrow> computeGaps (tr_arrived t) \<noteq> []"

definition restore_range :: "int \<times> int \<Rightarrow> tracker \<Rightarrow> tracker" where
  "restore_range r t =
     (if fst r > 0 \<and> snd r \<ge> fst r
      then t\<lparr>tr_arrived := addArrived (tr_arrived t) (fst r) (snd r),
             tr_maxSeen := max (tr_maxSeen t) (snd r)\<rparr>
      else t)"

definition restore_retry :: "gap \<Rightarrow> tracker \<Rightarrow> tracker" where
  "restore_retry g t =
     (if gfrom g > 0 \<and> gto g \<ge> gfrom g \<and> gattempt g > 0
      then t\<lparr>tr_retries := (tr_retries t)(gfrom g \<mapsto>
             \<lparr>ri_attempt = gattempt g, ri_next = gretry g\<rparr>)\<rparr>
      else t)"

definition tr_restore :: "(int \<times> int) list \<Rightarrow> gap list \<Rightarrow> tracker \<Rightarrow> tracker" where
  "tr_restore arrived persisted t =
     fold restore_retry persisted
       (fold restore_range arrived
         (t\<lparr>tr_arrived := [], tr_retries := (\<lambda>_. None), tr_maxSeen := 0\<rparr>))"

section \<open>The representation and its invariant\<close>

definition covered :: "range list \<Rightarrow> int set" where
  "covered rs = (\<Union>r \<in> set rs. {rfrom r..rto r})"

text \<open>Sorted, non-empty, and at least one number apart: touching ranges are merged.\<close>

fun ranges_ok :: "range list \<Rightarrow> bool" where
  "ranges_ok [] \<longleftrightarrow> True"
| "ranges_ok [r] \<longleftrightarrow> rfrom r \<le> rto r"
| "ranges_ok (r # s # rs) \<longleftrightarrow> rfrom r \<le> rto r \<and> rto r + 1 < rfrom s \<and> ranges_ok (s # rs)"

lemma covered_Nil [simp]: "covered [] = {}"
  by (simp add: covered_def)

lemma covered_Cons [simp]: "covered (r # rs) = {rfrom r..rto r} \<union> covered rs"
  by (simp add: covered_def)

lemma covered_append [simp]: "covered (rs @ ss) = covered rs \<union> covered ss"
  by (simp add: covered_def)

lemma ranges_ok_Cons:
  "ranges_ok (r # rs) \<longleftrightarrow>
   rfrom r \<le> rto r \<and> (\<forall>s \<in> set rs. rto r + 1 < rfrom s) \<and> ranges_ok rs"
  by (induction rs arbitrary: r) (auto 0 3)

lemma ranges_ok_append:
  "ranges_ok (rs @ ss) \<longleftrightarrow>
   ranges_ok rs \<and> ranges_ok ss \<and> (\<forall>r \<in> set rs. \<forall>s \<in> set ss. rto r + 1 < rfrom s)"
  by (induction rs) (auto simp: ranges_ok_Cons)

lemma ranges_ok_mem: "ranges_ok rs \<Longrightarrow> r \<in> set rs \<Longrightarrow> rfrom r \<le> rto r"
  by (induction rs) (auto simp: ranges_ok_Cons)

lemma merge_next_covered:
  "rfrom it \<le> rto it \<Longrightarrow> ranges_ok rest \<Longrightarrow> (\<forall>s \<in> set rest. rfrom it \<le> rfrom s) \<Longrightarrow>
   covered (merge_next it rest) = {rfrom it..rto it} \<union> covered rest"
proof (induction it rest rule: merge_next.induct)
  case (2 it n rest)
  show ?case
  proof (cases "rfrom n \<le> rto it + 1")
    case True
    then have "covered (merge_next it (n # rest)) =
        {rfrom it..max (rto it) (rto n)} \<union> covered rest"
      using 2 by (simp add: ranges_ok_Cons)
    moreover have "{rfrom it..max (rto it) (rto n)} = {rfrom it..rto it} \<union> {rfrom n..rto n}"
      using True 2(2-4) by (auto simp: ranges_ok_Cons max_def)
    ultimately show ?thesis by auto
  qed auto
qed simp

lemma merge_next_ok:
  "rfrom it \<le> rto it \<Longrightarrow> ranges_ok rest \<Longrightarrow> (\<forall>s \<in> set rest. rfrom it \<le> rfrom s) \<Longrightarrow>
   ranges_ok (merge_next it rest) \<and> (\<forall>s \<in> set (merge_next it rest). rfrom it \<le> rfrom s)"
proof (induction it rest rule: merge_next.induct)
  case (2 it n rest)
  show ?case
  proof (cases "rfrom n \<le> rto it + 1")
    case True
    then show ?thesis using 2 by (simp add: ranges_ok_Cons)
  next
    case False
    then show ?thesis using 2(2-4) by (fastforce simp: ranges_ok_Cons)
  qed
qed simp

lemma dropWhile_hd_not: "dropWhile P xs = y # ys \<Longrightarrow> \<not> P y"
  by (metis hd_dropWhile list.distinct(1) list.sel(1))

text \<open>The central lemma: \<open>addArrived\<close> keeps the invariant and adds the interval.\<close>

lemma addArrived_correct:
  assumes ok: "ranges_ok rs"
  shows "ranges_ok (addArrived rs a b) \<and> covered (addArrived rs a b) = covered rs \<union> {a..b}"
proof (cases "a > b")
  case True
  then show ?thesis using ok by (simp add: addArrived_def)
next
  case False
  let ?P = "\<lambda>r. rto r < a - 1"
  let ?pre = "takeWhile ?P rs" and ?post = "dropWhile ?P rs"
  have split: "rs = ?pre @ ?post" by simp
  then have okp: "ranges_ok ?pre" "ranges_ok ?post"
    and sep: "\<forall>r \<in> set ?pre. \<forall>s \<in> set ?post. rto r + 1 < rfrom s"
    using ok ranges_ok_append by metis+
  have pre: "\<forall>r \<in> set ?pre. rto r + 1 < a"
    by (auto dest: set_takeWhileD)
  have cov: "covered rs = covered ?pre \<union> covered ?post"
    by (metis covered_append split)
  show ?thesis
  proof (cases ?post)
    case Nil
    then have "addArrived rs a b = ?pre @ [\<lparr>rfrom = a, rto = b\<rparr>]"
      unfolding addArrived_def Let_def Nil using False by simp
    then show ?thesis
      using okp pre False cov Nil by (simp add: ranges_ok_append)
  next
    case (Cons r rest)
    have r: "\<not> rto r < a - 1"
      using Cons by (rule dropWhile_hd_not)
    have rok: "rfrom r \<le> rto r" "\<forall>s \<in> set rest. rto r + 1 < rfrom s" "ranges_ok rest"
      using okp(2) Cons by (simp_all add: ranges_ok_Cons)
    show ?thesis
    proof (cases "rfrom r \<le> b + 1")
      case True
      let ?it = "r\<lparr>rfrom := min (rfrom r) a, rto := max (rto r) b\<rparr>"
      have "addArrived rs a b = ?pre @ merge_next ?it rest"
        using False True Cons by (simp add: addArrived_def Let_def)
      moreover have it: "rfrom ?it \<le> rto ?it" "\<forall>s \<in> set rest. rfrom ?it \<le> rfrom s"
        using rok by auto
      moreover have "{rfrom ?it..rto ?it} = {rfrom r..rto r} \<union> {a..b}"
        using True r rok False by (auto simp: min_def max_def)
      moreover have "\<forall>p \<in> set ?pre. rto p + 1 < rfrom ?it"
        using pre sep Cons by auto
      ultimately show ?thesis
        using merge_next_covered [OF it(1) rok(3) it(2)] merge_next_ok [OF it(1) rok(3) it(2)]
          okp cov Cons by (fastforce simp: ranges_ok_append)
    next
      case no: False
      then have "addArrived rs a b = ?pre @ \<lparr>rfrom = a, rto = b\<rparr> # r # rest"
        using False Cons by (simp add: addArrived_def Let_def)
      then show ?thesis
        using okp pre sep no False rok Cons cov by (fastforce simp: ranges_ok_append ranges_ok_Cons)
    qed
  qed
qed

lemmas addArrived_ok = addArrived_correct [THEN conjunct1]
lemmas addArrived_covered = addArrived_correct [THEN conjunct2]

section \<open>Gaps are exactly what is missing\<close>

definition top_seq :: "range list \<Rightarrow> int" where
  "top_seq rs = (if rs = [] then 0 else rto (last rs))"

definition gap_seqs :: "gap list \<Rightarrow> int set" where
  "gap_seqs gs = (\<Union>g \<in> set gs. {gfrom g..gto g})"

lemma gap_seqs_Nil [simp]: "gap_seqs [] = {}"
  by (simp add: gap_seqs_def)

lemma gap_seqs_append [simp]: "gap_seqs (gs @ hs) = gap_seqs gs \<union> gap_seqs hs"
  by (simp add: gap_seqs_def)

lemma gap_seqs_Cons [simp]: "gap_seqs (g # gs) = {gfrom g..gto g} \<union> gap_seqs gs"
  by (simp add: gap_seqs_def)

lemma covered_le_top: "ranges_ok rs \<Longrightarrow> x \<in> covered rs \<Longrightarrow> x \<le> top_seq rs"
proof (induction rs)
  case (Cons r rs)
  show ?case
  proof (cases rs)
    case Nil
    then show ?thesis using Cons by (simp add: top_seq_def)
  next
    case (Cons s ss)
    have "last rs \<in> set rs" using Cons by simp
    then have "rto r < rfrom (last rs)"
      using Cons.prems(1) by (fastforce simp: ranges_ok_Cons)
    moreover have "rfrom (last rs) \<le> rto (last rs)"
      using Cons.prems(1) Cons by (auto intro!: ranges_ok_mem [of rs] simp: ranges_ok_Cons)
    ultimately show ?thesis
      using Cons Cons.IH Cons.prems by (auto simp: top_seq_def ranges_ok_Cons)
  qed
qed simp

lemma top_covered: "ranges_ok rs \<Longrightarrow> rs \<noteq> [] \<Longrightarrow> top_seq rs \<in> covered rs"
  using ranges_ok_mem [of rs "last rs"] by (auto simp: top_seq_def covered_def)

lemma inner_gaps_seqs:
  "ranges_ok (r # rs) \<Longrightarrow>
   gap_seqs (inner_gaps (r # rs)) = {rto r + 1..top_seq (r # rs)} - covered (r # rs)"
proof (induction rs arbitrary: r)
  case Nil
  then show ?case by (simp add: top_seq_def)
next
  case (Cons s rs)
  then have ok: "ranges_ok (s # rs)" and r: "rfrom r \<le> rto r" "rto r + 1 < rfrom s"
    and s: "rfrom s \<le> rto s" "\<forall>q \<in> set rs. rto s + 1 < rfrom q"
    by (auto simp: ranges_ok_Cons)
  have top: "rto s \<le> top_seq (s # rs)"
    using covered_le_top [OF ok, of "rto s"] s by simp
  have eq: "top_seq (r # s # rs) = top_seq (s # rs)"
    by (simp add: top_seq_def)
  have rest: "x \<in> covered rs \<Longrightarrow> rto s + 1 < x" for x
    using s by (fastforce simp: covered_def)
  have "gap_seqs (inner_gaps (r # s # rs)) =
      {rto r + 1..rfrom s - 1} \<union> ({rto s + 1..top_seq (s # rs)} - covered (s # rs))"
    using Cons.IH [OF ok] r by (simp add: Let_def)
  also have "\<dots> = {rto r + 1..top_seq (s # rs)} - covered (r # s # rs)"
    using r s top by (auto dest: rest)
  finally show ?case by (simp only: eq)
qed

lemma inner_gaps_maximal:
  "ranges_ok rs \<Longrightarrow> g \<in> set (inner_gaps rs) \<Longrightarrow>
   gfrom g \<le> gto g \<and> gfrom g - 1 \<in> covered rs \<and> gto g + 1 \<in> covered rs"
proof (induction rs rule: inner_gaps.induct)
  case (1 r s rs)
  then show ?case by (auto simp: Let_def ranges_ok_Cons split: if_splits)
qed auto

definition gaps_sorted :: "gap list \<Rightarrow> bool" where
  "gaps_sorted gs \<longleftrightarrow> sorted_wrt (\<lambda>g h. gto g + 1 < gfrom h) gs"

lemma inner_gaps_above: "ranges_ok (r # rs) \<Longrightarrow> g \<in> set (inner_gaps (r # rs)) \<Longrightarrow> rto r < gfrom g"
proof (induction rs arbitrary: r)
  case (Cons s rs)
  then show ?case by (fastforce simp: Let_def ranges_ok_Cons split: if_splits)
qed simp

lemma inner_gaps_sorted: "ranges_ok rs \<Longrightarrow> gaps_sorted (inner_gaps rs)"
proof (induction rs rule: inner_gaps.induct)
  case (1 r s rs)
  then have "gaps_sorted (inner_gaps (s # rs))" by (simp add: ranges_ok_Cons)
  moreover have "rfrom s < gfrom g" if "g \<in> set (inner_gaps (s # rs))" for g
    using inner_gaps_above [of s rs g] that 1(2) by (auto simp: ranges_ok_Cons)
  ultimately show ?case
    using 1(2) by (auto simp: gaps_sorted_def Let_def ranges_ok_Cons)
qed (simp_all add: gaps_sorted_def)

lemma computeGaps_seqs:
  assumes "ranges_ok rs" and "\<forall>x \<in> covered rs. 1 \<le> x"
  shows "gap_seqs (computeGaps rs) = {1..top_seq rs} - covered rs"
proof (cases rs)
  case Nil
  then show ?thesis by (simp add: computeGaps_def top_seq_def)
next
  case (Cons r rest)
  then have r: "rfrom r \<le> rto r" "\<forall>q \<in> set rest. rto r + 1 < rfrom q" "1 \<le> rfrom r"
    using assms by (auto simp: ranges_ok_Cons)
  have rest: "x \<in> covered rest \<Longrightarrow> rto r + 1 < x" for x
    using r by (fastforce simp: covered_def)
  have top: "rto r \<le> top_seq rs"
    using covered_le_top [OF assms(1), of "rto r"] r Cons by simp
  have "gap_seqs (computeGaps rs) = {1..rfrom r - 1} \<union> ({rto r + 1..top_seq rs} - covered rs)"
    using inner_gaps_seqs [of r rest] assms Cons r by (auto simp: computeGaps_def)
  also have "\<dots> = {1..top_seq rs} - covered rs"
    using r top Cons by (auto dest: rest)
  finally show ?thesis .
qed

lemma computeGaps_shape:
  assumes ok: "ranges_ok rs" and pos: "\<forall>x \<in> covered rs. 1 \<le> x"
  shows "gaps_sorted (computeGaps rs) \<and>
    (\<forall>g \<in> set (computeGaps rs). 1 \<le> gfrom g \<and> gfrom g \<le> gto g \<and>
       (gfrom g = 1 \<or> gfrom g - 1 \<in> covered rs) \<and> gto g + 1 \<in> covered rs)"
proof (cases rs)
  case (Cons r rest)
  have "rfrom r < gfrom g" if "g \<in> set (inner_gaps rs)" for g
    using inner_gaps_above [of r rest g] that ok Cons by (auto simp: ranges_ok_Cons)
  then have mx: "\<forall>g \<in> set (inner_gaps rs). gfrom g \<le> gto g \<and> gfrom g - 1 \<in> covered rs \<and>
      gto g + 1 \<in> covered rs \<and> rfrom r < gfrom g"
    using inner_gaps_maximal [OF ok] by blast
  moreover have "gaps_sorted (inner_gaps rs)"
    by (rule inner_gaps_sorted [OF ok])
  moreover have "rfrom r \<in> covered rs" "1 \<le> rfrom r"
    using ok pos Cons by (auto simp: ranges_ok_Cons)
  ultimately show ?thesis
    using Cons by (fastforce simp: computeGaps_def gaps_sorted_def)
qed (simp add: computeGaps_def gaps_sorted_def)

section \<open>Runs of a tracker\<close>

datatype tr_op = ObserveSeq int | FillGap int int | MarkFailed int

fun tr_step :: "tr_op \<Rightarrow> tracker \<Rightarrow> tracker" where
  "tr_step (ObserveSeq n) t = snd (tr_observeSeq n t)"
| "tr_step (FillGap a b) t = tr_fillGap a b t"
| "tr_step (MarkFailed now) t = markGapAttemptFailed now t"

text \<open>What an operation is meant to add to the set of arrived numbers.\<close>

fun op_seqs :: "tr_op \<Rightarrow> int set" where
  "op_seqs (ObserveSeq n) = (if n \<le> 0 then {} else {n})"
| "op_seqs (FillGap a b) = {a..b}"
| "op_seqs (MarkFailed _) = {}"

fun op_ok :: "tr_op \<Rightarrow> bool" where
  "op_ok (FillGap a b) \<longleftrightarrow> 1 \<le> a"
| "op_ok _ \<longleftrightarrow> True"

definition tr_inv :: "tracker \<Rightarrow> bool" where
  "tr_inv t \<longleftrightarrow> ranges_ok (tr_arrived t) \<and> (\<forall>x \<in> covered (tr_arrived t). 1 \<le> x) \<and>
     tr_maxSeen t = top_seq (tr_arrived t)"

lemma tr_inv_new: "tr_inv (tr_new c)"
  by (simp add: tr_inv_def tr_new_def top_seq_def)

lemma addArrived_ne: "a \<le> b \<Longrightarrow> ranges_ok rs \<Longrightarrow> addArrived rs a b \<noteq> []"
  using addArrived_covered [of rs a b] by force

lemma top_seq_eqI:
  assumes "ranges_ok rs" and "x \<in> covered rs" and "\<And>y. y \<in> covered rs \<Longrightarrow> y \<le> x"
  shows "top_seq rs = x"
proof -
  have "rs \<noteq> []" using assms(2) by auto
  then have "top_seq rs \<in> covered rs" using assms(1) by (rule top_covered [rotated])
  then show ?thesis
    using assms covered_le_top [OF assms(1,2)] by (meson antisym)
qed

lemma top_addArrived:
  assumes "ranges_ok rs" and "1 \<le> a" and "a \<le> b"
  shows "top_seq (addArrived rs a b) = max (top_seq rs) b"
proof (cases "rs = []")
  case True
  then show ?thesis using assms by (simp add: addArrived_def top_seq_def)
next
  case False
  show ?thesis
  proof (rule top_seq_eqI)
    show "max (top_seq rs) b \<in> covered (addArrived rs a b)"
      using top_covered [OF assms(1) False] assms(3)
      by (simp add: addArrived_covered [OF assms(1)] max_def)
  qed (use assms covered_le_top [OF assms(1)] in
      \<open>auto simp: addArrived_covered [OF assms(1)] addArrived_ok max_def intro: order_trans\<close>)
qed

lemma fillGap_inv:
  assumes "tr_inv t" and "1 \<le> a"
  shows "tr_inv (tr_fillGap a b t) \<and>
         covered (tr_arrived (tr_fillGap a b t)) = covered (tr_arrived t) \<union> {a..b}"
proof -
  have ok: "ranges_ok (tr_arrived t)" and m: "tr_maxSeen t = top_seq (tr_arrived t)"
    using assms(1) by (simp_all add: tr_inv_def)
  show ?thesis
    using assms ok by (auto simp: tr_fillGap_def tr_inv_def addArrived_ok addArrived_covered
        top_addArrived max_def)
qed

lemma observeSeq_fillGap: "1 \<le> n \<Longrightarrow> snd (tr_observeSeq n t) = tr_fillGap n n t"
  by (simp add: tr_observeSeq_def tr_fillGap_def Let_def)

lemma markFailed_arrived:
  "tr_arrived (markGapAttemptFailed now t) = tr_arrived t \<and>
   tr_maxSeen (markGapAttemptFailed now t) = tr_maxSeen t \<and> tr_cfg (markGapAttemptFailed now t) = tr_cfg t"
  by (simp add: markGapAttemptFailed_def Let_def split: list.split)

lemma step_inv:
  assumes "tr_inv t" and "op_ok op"
  shows "tr_inv (tr_step op t) \<and>
         covered (tr_arrived (tr_step op t)) = covered (tr_arrived t) \<union> op_seqs op"
proof (cases op)
  case (ObserveSeq n)
  show ?thesis
  proof (cases "n \<le> 0")
    case True
    then show ?thesis using ObserveSeq assms by (simp add: tr_observeSeq_def)
  next
    case False
    then show ?thesis using ObserveSeq fillGap_inv [OF assms(1), of n n]
      by (simp add: observeSeq_fillGap)
  qed
next
  case (FillGap a b)
  then show ?thesis using assms fillGap_inv [of t a b] by simp
next
  case (MarkFailed now)
  then show ?thesis using assms markFailed_arrived [of now t] by (simp add: tr_inv_def)
qed

definition tr_run :: "tr_op list \<Rightarrow> tracker \<Rightarrow> tracker" where
  "tr_run ops t = fold tr_step ops t"

lemma run_inv:
  "tr_inv t \<Longrightarrow> \<forall>op \<in> set ops. op_ok op \<Longrightarrow>
   tr_inv (tr_run ops t) \<and>
   covered (tr_arrived (tr_run ops t)) = covered (tr_arrived t) \<union> (\<Union>op \<in> set ops. op_seqs op)"
  unfolding tr_run_def by (induction ops arbitrary: t) (auto simp: step_inv)

lemma run_new:
  "\<forall>op \<in> set ops. op_ok op \<Longrightarrow>
   tr_inv (tr_run ops (tr_new c)) \<and>
   covered (tr_arrived (tr_run ops (tr_new c))) = (\<Union>op \<in> set ops. op_seqs op)"
  using run_inv [OF tr_inv_new] by (simp add: tr_new_def)

lemma contiguous_watermark:
  assumes "tr_inv t"
  shows "0 \<le> contiguousSeq t \<and> {1..contiguousSeq t} \<subseteq> covered (tr_arrived t) \<and>
         contiguousSeq t + 1 \<notin> covered (tr_arrived t)"
proof (cases "tr_arrived t")
  case Nil
  then show ?thesis by (simp add: contiguousSeq_def)
next
  case (Cons r rs)
  have r: "rfrom r \<le> rto r" "\<forall>s \<in> set rs. rto r + 1 < rfrom s" "1 \<le> rfrom r"
    using assms Cons by (auto simp: tr_inv_def ranges_ok_Cons)
  have rest: "x \<in> covered rs \<Longrightarrow> rto r + 1 < x" for x
    using r by (fastforce simp: covered_def)
  show ?thesis
    using r Cons rest [of "rto r + 1"] rest [of 1] by (auto simp: contiguousSeq_def)
qed

lemma watermark_unique:
  fixes k m :: int
  assumes "0 \<le> k" "{1..k} \<subseteq> S" "k + 1 \<notin> S" and "0 \<le> m" "{1..m} \<subseteq> S" "m + 1 \<notin> S"
  shows "k = m"
proof (rule ccontr)
  assume "k \<noteq> m"
  then consider "k + 1 \<le> m" | "m + 1 \<le> k" by linarith
  then show False
    by cases (use assms in \<open>auto simp: subset_iff\<close>)
qed

text \<open>
  C24: the watermark. After any operations, in any order and with repetitions, the contiguous
  sequence number is the end of the longest run \<open>1, 2, 3, \<dots>\<close> of numbers that have arrived,
  the maximum is the greatest arrived number, and one more observation moves the watermark
  exactly when it is the number the watermark waits for.
\<close>

theorem watermark_correct:
  fixes ops :: "tr_op list" and c :: tr_config and n :: int
  assumes "\<forall>op \<in> set ops. op_ok op"
  defines "t \<equiv> tr_run ops (tr_new c)" and "S \<equiv> (\<Union>op \<in> set ops. op_seqs op)"
  shows "0 \<le> contiguousSeq t \<and> {1..contiguousSeq t} \<subseteq> S \<and> contiguousSeq t + 1 \<notin> S \<and>
         (\<forall>x \<in> S. x \<le> tr_maxSeen t) \<and> (S \<noteq> {} \<longrightarrow> tr_maxSeen t \<in> S) \<and>
         fst (tr_observeSeq n t) = (n = contiguousSeq t + 1)"
proof -
  have inv: "tr_inv t" and cov: "covered (tr_arrived t) = S"
    unfolding t_def S_def using run_new [OF assms(1)] by auto
  then have ok: "ranges_ok (tr_arrived t)" and m: "tr_maxSeen t = top_seq (tr_arrived t)"
    by (auto simp: tr_inv_def)
  have wm: "0 \<le> contiguousSeq t \<and> {1..contiguousSeq t} \<subseteq> S \<and> contiguousSeq t + 1 \<notin> S"
    using contiguous_watermark [OF inv] cov by simp
  have top: "(\<forall>x \<in> S. x \<le> tr_maxSeen t) \<and> (S \<noteq> {} \<longrightarrow> tr_maxSeen t \<in> S)"
    using covered_le_top [OF ok] top_covered [OF ok] m cov by (cases "tr_arrived t = []") auto
  have obs: "fst (tr_observeSeq n t) = (n = contiguousSeq t + 1)"
  proof (cases "n \<le> 0")
    case True
    then show ?thesis using wm by (simp add: tr_observeSeq_def)
  next
    case False
    let ?t' = "tr_fillGap n n t"
    have w': "0 \<le> contiguousSeq ?t'" "{1..contiguousSeq ?t'} \<subseteq> insert n S"
      "contiguousSeq ?t' + 1 \<notin> insert n S"
      using contiguous_watermark [of ?t'] fillGap_inv [OF inv, of n n] False cov by auto
    have fst: "fst (tr_observeSeq n t) = (contiguousSeq ?t' > contiguousSeq t)"
      using False by (simp add: tr_observeSeq_def tr_fillGap_def Let_def)
    show ?thesis
    proof (cases "n = contiguousSeq t + 1")
      case True
      have "\<not> contiguousSeq ?t' \<le> contiguousSeq t"
      proof
        assume "contiguousSeq ?t' \<le> contiguousSeq t"
        then have "contiguousSeq ?t' + 1 \<in> insert n S"
          using wm w'(1) True by (cases "contiguousSeq ?t' = contiguousSeq t") auto
        then show False using w'(3) by simp
      qed
      then show ?thesis using fst True by simp
    next
      case no: False
      have "contiguousSeq ?t' = contiguousSeq t"
      proof (rule watermark_unique [of _ "insert n S"])
        show "{1..contiguousSeq t} \<subseteq> insert n S" "contiguousSeq t + 1 \<notin> insert n S"
          using wm no by auto
      qed (use wm w' in auto)
      then show ?thesis using fst no by simp
    qed
  qed
  show ?thesis using wm top obs by blast
qed

theorem watermark_correct_witness:
  "let ops = [ObserveSeq 3, ObserveSeq 1, FillGap 5 7, ObserveSeq 1];
       t = tr_run ops (tr_new tr_default_config)
   in contiguousSeq t + 1 \<notin> (\<Union>op \<in> set ops. op_seqs op) \<and> contiguousSeq t = 1 \<and>
      tr_maxSeen t = 7 \<and> fst (tr_observeSeq 2 t)"
  using watermark_correct [of "[ObserveSeq 3, ObserveSeq 1, FillGap 5 7, ObserveSeq 1]"
      tr_default_config 2]
  by (simp add: tr_run_def tr_new_def tr_observeSeq_def tr_fillGap_def addArrived_def
      contiguousSeq_def Let_def)

text \<open>
  C30: the gaps. After any operations the reported gaps are exactly the numbers up to the
  maximum that have not arrived, as the fewest possible intervals: ascending, none empty,
  none touching another.
\<close>

theorem gaps_correct:
  fixes ops :: "tr_op list" and c :: tr_config
  assumes "\<forall>op \<in> set ops. op_ok op"
  defines "t \<equiv> tr_run ops (tr_new c)" and "S \<equiv> (\<Union>op \<in> set ops. op_seqs op)"
  shows "gap_seqs (gapsWithRetry t) = {1..tr_maxSeen t} - S \<and> gaps_sorted (gapsWithRetry t) \<and>
         (\<forall>g \<in> set (gapsWithRetry t). gfrom g \<le> gto g) \<and>
         (tr_hasGaps t \<longleftrightarrow> contiguousSeq t \<noteq> tr_maxSeen t)"
proof -
  have inv: "tr_inv t" and cov: "covered (tr_arrived t) = S"
    unfolding t_def S_def using run_new [OF assms(1)] by auto
  then have ok: "ranges_ok (tr_arrived t)" and pos: "\<forall>x \<in> covered (tr_arrived t). 1 \<le> x"
    and m: "tr_maxSeen t = top_seq (tr_arrived t)"
    by (auto simp: tr_inv_def)
  define gs where "gs = computeGaps (tr_arrived t)"
  have ft: "map (\<lambda>g. (gfrom g, gto g)) (gapsWithRetry t) = map (\<lambda>g. (gfrom g, gto g)) gs"
    unfolding gs_def gapsWithRetry_def by (simp split: option.splits)
  have seqs: "gap_seqs hs = (\<Union>(a, b) \<in> set (map (\<lambda>g. (gfrom g, gto g)) hs). {a..b})" for hs
    by (auto simp: gap_seqs_def)
  have sorted: "gaps_sorted hs \<longleftrightarrow>
      sorted_wrt (\<lambda>p q. snd p + 1 < fst q) (map (\<lambda>g. (gfrom g, gto g)) hs)" for hs
    by (simp add: gaps_sorted_def sorted_wrt_map)
  have ne: "(\<forall>g \<in> set hs. gfrom g \<le> gto g) \<longleftrightarrow>
      (\<forall>p \<in> set (map (\<lambda>g. (gfrom g, gto g)) hs). fst p \<le> snd p)" for hs
    by auto
  have eq: "gap_seqs gs = {1..tr_maxSeen t} - S"
    unfolding gs_def using computeGaps_seqs [OF ok pos] m cov by simp
  have shape: "gaps_sorted gs" "\<forall>g \<in> set gs. gfrom g \<le> gto g"
    unfolding gs_def using computeGaps_shape [OF ok pos] by auto
  have wm: "0 \<le> contiguousSeq t" "{1..contiguousSeq t} \<subseteq> S" "contiguousSeq t + 1 \<notin> S"
    using contiguous_watermark [OF inv] cov by auto
  have le: "x \<in> S \<Longrightarrow> x \<le> tr_maxSeen t" for x
    using covered_le_top [OF ok] m cov by simp
  have mx: "tr_maxSeen t \<in> S \<or> tr_maxSeen t = 0"
    using top_covered [OF ok] m cov by (auto simp: top_seq_def)
  have "gs = [] \<longleftrightarrow> gap_seqs gs = {}"
    using shape(2) by (cases gs) auto
  also have "\<dots> \<longleftrightarrow> contiguousSeq t = tr_maxSeen t"
  proof
    assume "gap_seqs gs = {}"
    then have "{1..tr_maxSeen t} \<subseteq> S" using eq by auto
    moreover have "tr_maxSeen t + 1 \<notin> S" using le by fastforce
    moreover have "0 \<le> tr_maxSeen t" using mx pos cov by force
    ultimately show "contiguousSeq t = tr_maxSeen t"
      using watermark_unique wm by metis
  qed (use eq wm in auto)
  finally show ?thesis
    using eq shape ft unfolding seqs [of gs] sorted [of gs] ne [of gs] ft [symmetric]
      seqs [symmetric] sorted [symmetric] ne [symmetric]
    by (auto simp: tr_hasGaps_def gs_def)
qed

theorem gaps_correct_witness:
  "let ops = [ObserveSeq 3, ObserveSeq 1, FillGap 6 7];
       t = tr_run ops (tr_new tr_default_config)
   in tr_hasGaps t \<and> map (\<lambda>g. (gfrom g, gto g)) (gapsWithRetry t) = [(2, 2), (4, 5)] \<and>
      gap_seqs (gapsWithRetry t) = {1..tr_maxSeen t} - (\<Union>op \<in> set ops. op_seqs op)"
  using gaps_correct [of "[ObserveSeq 3, ObserveSeq 1, FillGap 6 7]" tr_default_config]
  by (simp add: tr_run_def tr_new_def tr_observeSeq_def tr_fillGap_def addArrived_def
      contiguousSeq_def Let_def tr_hasGaps_def gapsWithRetry_def computeGaps_def)

section \<open>Back-off and the retry budget\<close>

lemma backoff_loop_closed:
  "0 < v \<Longrightarrow> i \<le> attempt \<Longrightarrow>
   min (backoff_loop cap attempt i v) cap = min (v * 2 ^ nat (attempt - i)) cap"
proof (induction cap attempt i v rule: backoff_loop.induct)
  case (1 cap attempt i v)
  show ?case
  proof (cases "i < attempt \<and> v < cap")
    case True
    then have "nat (attempt - i) = Suc (nat (attempt - (i + 1)))" by linarith
    then have "v * 2 ^ nat (attempt - i) = v * 2 * 2 ^ nat (attempt - (i + 1))" by simp
    then show ?thesis
      using 1 True by (simp add: backoff_loop.simps [of cap attempt i v])
  next
    case False
    then have eq: "backoff_loop cap attempt i v = v"
      by (subst backoff_loop.simps) auto
    show ?thesis
    proof (cases "i < attempt")
      case True
      then have "cap \<le> v" using False by simp
      moreover have "v * 1 \<le> v * 2 ^ nat (attempt - i)"
        using 1(2) by (intro mult_left_mono) auto
      ultimately show ?thesis using eq by simp
    qed (use eq 1(3) in simp)
  qed
qed

lemma backoffFor_closed:
  "0 < cf_base (tr_cfg t) \<Longrightarrow> 1 \<le> a \<Longrightarrow>
   backoffFor t a = min (cf_base (tr_cfg t) * 2 ^ nat (a - 1)) (cf_max (tr_cfg t))"
  unfolding backoffFor_def by (rule backoff_loop_closed)

lemma pending_loop_take:
  "int (length out) < max 1 limit \<Longrightarrow>
   pending_loop limit now out gs =
     out @ take (nat (max 1 limit) - length out) (filter (\<lambda>g. gretry g \<le> now) gs)"
proof (induction limit now out gs rule: pending_loop.induct)
  case (2 limit now out g gs)
  show ?case
  proof (cases "gretry g > now")
    case False
    show ?thesis
    proof (cases "int (length (out @ [g])) \<ge> limit")
      case True
      then have "nat (max 1 limit) - length out = 1" using 2(3) by auto
      then show ?thesis using True False by (simp add: Let_def)
    next
      case no: False
      then have lt: "int (length (out @ [g])) < max 1 limit" by simp
      then have "nat (max 1 limit) - length out = Suc (nat (max 1 limit) - length (out @ [g]))"
        by simp
      then show ?thesis using no False 2(2) [OF False refl] lt by (simp add: Let_def)
    qed
  qed (use 2 in simp)
qed simp

lemma pendingGaps_take:
  "tr_pendingGaps t now =
     take (nat (max 1 (cf_maxGaps (tr_cfg t)))) (filter (\<lambda>g. gretry g \<le> now) (gapsWithRetry t))"
  unfolding tr_pendingGaps_def by (subst pending_loop_take) auto

definition tr_fail_all :: "int list \<Rightarrow> tracker \<Rightarrow> tracker" where
  "tr_fail_all nows t = fold markGapAttemptFailed nows t"

lemma fail_all_retry:
  "computeGaps (tr_arrived t) = g # gs \<Longrightarrow>
   tr_retries t (gfrom g) = (if a = 0 then None else Some \<lparr>ri_attempt = int a, ri_next = x\<rparr>) \<Longrightarrow>
   nows \<noteq> [] \<Longrightarrow>
   tr_retries (tr_fail_all nows t) (gfrom g) =
     Some \<lparr>ri_attempt = int (a + length nows),
           ri_next = last nows + backoffFor t (int (a + length nows))\<rparr> \<and>
   tr_arrived (tr_fail_all nows t) = tr_arrived t \<and> tr_cfg (tr_fail_all nows t) = tr_cfg t"
  unfolding tr_fail_all_def
proof (induction nows arbitrary: t a x)
  case (Cons now nows)
  let ?t = "markGapAttemptFailed now t"
  have r: "tr_retries ?t (gfrom g) =
      Some \<lparr>ri_attempt = int (Suc a), ri_next = now + backoffFor t (int (Suc a))\<rparr>"
    using Cons.prems(1,2) by (simp add: markGapAttemptFailed_def Let_def add.commute)
  have b: "backoffFor ?t k = backoffFor t k" for k
    by (simp add: backoffFor_def markFailed_arrived)
  show ?case
  proof (cases nows)
    case Nil
    then show ?thesis using r markFailed_arrived by simp
  next
    case (Cons n ns)
    then show ?thesis
      using Cons.IH [of ?t "Suc a"] Cons.prems(1) r b markFailed_arrived [of now t] by simp
  qed
qed simp

text \<open>
  No request storm. After \<open>n\<close> failures in a row the first gap is due again only after
  \<open>min (base * 2^(n-1)) max\<close> from the last failure: until then \<open>pendingGaps\<close> never returns it,
  and it never returns more than the configured number of gaps (at least one).
\<close>

theorem no_request_storm:
  assumes "computeGaps (tr_arrived t) = g # gs" and "tr_retries t (gfrom g) = None"
    and "nows \<noteq> []" and "0 < cf_base (tr_cfg t)"
  defines "t' \<equiv> tr_fail_all nows t"
    and "due \<equiv> last nows + min (cf_base (tr_cfg t) * 2 ^ (length nows - 1)) (cf_max (tr_cfg t))"
  shows "(\<forall>now < due. gfrom g \<notin> gfrom ` set (tr_pendingGaps t' now)) \<and>
         (\<forall>now \<ge> due. \<exists>h hs. tr_pendingGaps t' now = h # hs \<and> gfrom h = gfrom g) \<and>
         length (tr_pendingGaps t' now) \<le> nat (max 1 (cf_maxGaps (tr_cfg t)))"
proof -
  have ret: "tr_retries t' (gfrom g) = Some \<lparr>ri_attempt = int (length nows), ri_next = due\<rparr>"
    and arr: "tr_arrived t' = tr_arrived t" and cfg: "tr_cfg t' = tr_cfg t"
  proof -
    have "nat (int (length nows) - 1) = length nows - 1" by simp
    then have "backoffFor t (int (length nows)) =
        min (cf_base (tr_cfg t) * 2 ^ (length nows - 1)) (cf_max (tr_cfg t))"
      using backoffFor_closed [OF assms(4), of "int (length nows)"] assms(3)
      by (cases nows) simp_all
    then show "tr_retries t' (gfrom g) = Some \<lparr>ri_attempt = int (length nows), ri_next = due\<rparr>"
      "tr_arrived t' = tr_arrived t" "tr_cfg t' = tr_cfg t"
      using fail_all_retry [OF assms(1), of 0 undefined nows] assms(2,3)
      by (simp_all add: t'_def due_def)
  qed
  have from_keep: "gfrom ((case tr_retries t' (gfrom x) of None \<Rightarrow> x
      | Some ri \<Rightarrow> x\<lparr>gattempt := ri_attempt ri, gretry := ri_next ri\<rparr>)) = gfrom x" for x
    by (simp split: option.splits)
  have all: "gretry x = due" if "x \<in> set (gapsWithRetry t')" "gfrom x = gfrom g" for x
    using that ret unfolding gapsWithRetry_def by (auto split: option.splits)
  have hd: "\<exists>hs. gapsWithRetry t' = g\<lparr>gattempt := int (length nows), gretry := due\<rparr> # hs"
    using assms(1) arr ret by (simp add: gapsWithRetry_def)
  have "\<forall>now < due. gfrom g \<notin> gfrom ` set (tr_pendingGaps t' now)"
    using all by (fastforce simp: pendingGaps_take dest!: in_set_takeD)
  moreover have "\<forall>now \<ge> due. \<exists>h hs. tr_pendingGaps t' now = h # hs \<and> gfrom h = gfrom g"
  proof (intro allI impI)
    fix now assume "due \<le> now"
    moreover obtain hs where "gapsWithRetry t' = g\<lparr>gattempt := int (length nows), gretry := due\<rparr> # hs"
      using hd by blast
    moreover obtain k where "nat (max 1 (cf_maxGaps (tr_cfg t'))) = Suc k"
      by (cases "nat (max 1 (cf_maxGaps (tr_cfg t')))") auto
    ultimately show "\<exists>h hs. tr_pendingGaps t' now = h # hs \<and> gfrom h = gfrom g"
      by (simp add: pendingGaps_take)
  qed
  moreover have "length (tr_pendingGaps t' now) \<le> nat (max 1 (cf_maxGaps (tr_cfg t)))"
    by (simp add: pendingGaps_take cfg)
  ultimately show ?thesis by blast
qed

theorem no_request_storm_witness:
  "let t = tr_run [ObserveSeq 4] (tr_new tr_default_config); t' = tr_fail_all [10, 2000, 9000] t
   in (\<forall>now < 13000. 1 \<notin> gfrom ` set (tr_pendingGaps t' now)) \<and>
      tr_pendingGaps t' 13000 \<noteq> []"
proof -
  let ?t = "tr_run [ObserveSeq 4] (tr_new tr_default_config)"
  have g: "computeGaps (tr_arrived ?t) = [\<lparr>gfrom = 1, gto = 3, gattempt = 0, gretry = 0\<rparr>]"
    by (simp add: tr_run_def tr_new_def tr_observeSeq_def addArrived_def Let_def computeGaps_def)
  have c: "tr_cfg ?t = tr_default_config" "tr_retries ?t = (\<lambda>_. None)"
    by (simp_all add: tr_run_def tr_new_def tr_observeSeq_def Let_def)
  show ?thesis
    using no_request_storm [OF g, of "[10, 2000, 9000]"] c
    by (fastforce simp: Let_def tr_default_config_def)
qed

end
