(* ===== verification/SyncService.thy ===== *)
theory SyncService
  imports SyncTracker
begin

text \<open>
  \<^verbatim>\<open>client_core/src/sync/SyncService.cpp\<close> with the three repository functions it uses
  (\<^verbatim>\<open>client_core/src/storage/NativeRepository.cpp\<close>: \<open>loadMessageSeqRanges\<close>,
  \<open>loadSyncGaps\<close>, \<open>replaceSyncGaps\<close>): one lazily created tracker per conversation, restored
  from the message table and the persisted gaps, with the gaps written back after every change.

  Every call into the database takes a flag that says whether SQLite completed it.
  The locale \<open>gap_store\<close> holds the laws the service relies on; it is interpreted on the
  repository's tables.
\<close>

section \<open>The tables\<close>

record seqdb =
  sd_messages :: "(int \<times> int \<times> int) list"
  sd_gaps :: "(int \<times> int \<times> gap) list"

text \<open>\<open>SELECT DISTINCT conversation_seq \<dots> ORDER BY conversation_seq\<close>.\<close>

definition select_seqs :: "seqdb \<Rightarrow> int \<Rightarrow> int \<Rightarrow> int list" where
  "select_seqs db owner conv =
     sort (remdups (map (\<lambda>(o1, c1, s). s)
       (filter (\<lambda>(o1, c1, s). o1 = owner \<and> c1 = conv \<and> s > 0) (sd_messages db))))"

definition seq_row :: "range list \<Rightarrow> int \<Rightarrow> range list" where
  "seq_row out seq =
     (if out = [] \<or> (seq > rto (last out) \<and> seq - rto (last out) > 1)
      then out @ [\<lparr>rfrom = seq, rto = seq\<rparr>]
      else if seq > rto (last out) then butlast out @ [(last out)\<lparr>rto := seq\<rparr>]
      else out)"

definition loadMessageSeqRanges :: "bool \<Rightarrow> seqdb \<Rightarrow> int \<Rightarrow> int \<Rightarrow> range list option" where
  "loadMessageSeqRanges ok db owner conv =
     (if owner \<le> 0 \<or> conv \<le> 0 then None
      else if ok then Some (foldl seq_row [] (select_seqs db owner conv)) else None)"

definition loadSyncGaps :: "bool \<Rightarrow> seqdb \<Rightarrow> int \<Rightarrow> int \<Rightarrow> gap list option" where
  "loadSyncGaps ok db owner conv =
     (if owner \<le> 0 \<or> conv \<le> 0 then None
      else if ok then Some (sort_key gfrom (map (\<lambda>(o1, c1, g). g)
        (filter (\<lambda>(o1, c1, g). o1 = owner \<and> c1 = conv) (sd_gaps db)))) else None)"

text \<open>
  One transaction: delete the conversation's rows, insert the new ones. The primary key
  \<open>(owner_id, conversation_id, gap_from)\<close> rejects a repeated start, and then, as after any
  other failure, the transaction leaves the table as it was.
\<close>

definition replaceSyncGaps :: "bool \<Rightarrow> int \<Rightarrow> int \<Rightarrow> gap list \<Rightarrow> seqdb \<Rightarrow> bool \<times> seqdb" where
  "replaceSyncGaps ok owner conv gaps db =
     (if owner \<le> 0 \<or> conv \<le> 0 then (False, db)
      else if ok \<and> distinct (map gfrom gaps)
      then (True, db\<lparr>sd_gaps :=
              filter (\<lambda>(o1, c1, g). \<not> (o1 = owner \<and> c1 = conv)) (sd_gaps db) @
              map (\<lambda>g. (owner, conv, g)) gaps\<rparr>)
      else (False, db))"

section \<open>The service\<close>

record sync_service =
  sv_owner :: int
  sv_repo :: "seqdb option"
  sv_trackers :: "int \<rightharpoonup> tracker"

text \<open>Which of the three database calls of an operation SQLite completes.\<close>

record sync_io =
  io_ranges :: bool
  io_gaps :: bool
  io_replace :: bool

definition trackerFor :: "sync_io \<Rightarrow> int \<Rightarrow> sync_service \<Rightarrow> tracker \<times> sync_service" where
  "trackerFor io conv s =
     (case sv_trackers s conv of
        Some t \<Rightarrow> (t, s)
      | None \<Rightarrow>
          let t = tr_new (tr_default_config\<lparr>cf_owner := sv_owner s, cf_conv := conv\<rparr>);
              t = (case sv_repo s of
                     None \<Rightarrow> t
                   | Some db \<Rightarrow>
                       (case loadMessageSeqRanges (io_ranges io) db (sv_owner s) conv of
                          None \<Rightarrow> t
                        | Some ranges \<Rightarrow>
                            (case loadSyncGaps (io_gaps io) db (sv_owner s) conv of
                               None \<Rightarrow> t
                             | Some gaps \<Rightarrow> tr_restore (map (\<lambda>r. (rfrom r, rto r)) ranges) gaps t)))
          in (t, s\<lparr>sv_trackers := (sv_trackers s)(conv \<mapsto> t)\<rparr>))"

definition persistGaps :: "sync_io \<Rightarrow> int \<Rightarrow> sync_service \<Rightarrow> sync_service" where
  "persistGaps io conv s =
     (case sv_repo s of
        None \<Rightarrow> s
      | Some _ \<Rightarrow>
          let (t, s) = trackerFor io conv s in
          (case sv_repo s of
             None \<Rightarrow> s
           | Some db \<Rightarrow>
               s\<lparr>sv_repo := Some (snd (replaceSyncGaps (io_replace io) (sv_owner s) conv
                   (gapsWithRetry t) db))\<rparr>))"

definition put_tracker :: "int \<Rightarrow> tracker \<Rightarrow> sync_service \<Rightarrow> sync_service" where
  "put_tracker conv t s = s\<lparr>sv_trackers := (sv_trackers s)(conv \<mapsto> t)\<rparr>"

definition svc_observeSeq :: "sync_io \<Rightarrow> int \<Rightarrow> int \<Rightarrow> sync_service \<Rightarrow> bool \<times> sync_service" where
  "svc_observeSeq io conv seq s =
     (if conv \<le> 0 \<or> seq \<le> 0 then (False, s)
      else let (t, s) = trackerFor io conv s;
               s = put_tracker conv (snd (tr_observeSeq seq t)) s
           in (True, persistGaps io conv s))"

definition svc_fillGap :: "sync_io \<Rightarrow> int \<Rightarrow> int \<Rightarrow> int \<Rightarrow> sync_service \<Rightarrow> bool \<times> sync_service" where
  "svc_fillGap io conv from to s =
     (if conv \<le> 0 \<or> from \<le> 0 \<or> to < from then (False, s)
      else let (t, s) = trackerFor io conv s;
               s = put_tracker conv (tr_fillGap from to t) s
           in (True, persistGaps io conv s))"

definition svc_markGapFailed :: "sync_io \<Rightarrow> int \<Rightarrow> int \<Rightarrow> sync_service \<Rightarrow> bool \<times> sync_service" where
  "svc_markGapFailed io now conv s =
     (if conv \<le> 0 then (False, s)
      else let (t, s) = trackerFor io conv s;
               s = put_tracker conv (markGapAttemptFailed now t) s
           in (True, persistGaps io conv s))"

definition svc_pendingGaps :: "sync_io \<Rightarrow> int \<Rightarrow> int \<Rightarrow> sync_service \<Rightarrow> gap list \<times> sync_service" where
  "svc_pendingGaps io now conv s =
     (if conv \<le> 0 then ([], s)
      else let (t, s) = trackerFor io conv s in (tr_pendingGaps t now, s))"

definition svc_contiguousSeq :: "sync_io \<Rightarrow> int \<Rightarrow> sync_service \<Rightarrow> int \<times> sync_service" where
  "svc_contiguousSeq io conv s =
     (if conv \<le> 0 then (0, s) else let (t, s) = trackerFor io conv s in (contiguousSeq t, s))"

definition svc_maxSeenSeq :: "sync_io \<Rightarrow> int \<Rightarrow> sync_service \<Rightarrow> int \<times> sync_service" where
  "svc_maxSeenSeq io conv s =
     (if conv \<le> 0 then (0, s) else let (t, s) = trackerFor io conv s in (tr_maxSeen t, s))"

definition svc_hasGaps :: "sync_io \<Rightarrow> int \<Rightarrow> sync_service \<Rightarrow> bool \<times> sync_service" where
  "svc_hasGaps io conv s =
     (if conv \<le> 0 then (False, s) else let (t, s) = trackerFor io conv s in (tr_hasGaps t, s))"

fun earliest_retry :: "int \<Rightarrow> gap list \<Rightarrow> int" where
  "earliest_retry e [] = e"
| "earliest_retry e (g # gs) =
     earliest_retry (if gretry g > 0 \<and> (e = 0 \<or> gretry g < e) then gretry g else e) gs"

definition svc_nextRetryAtMs :: "sync_io \<Rightarrow> int \<Rightarrow> sync_service \<Rightarrow> int \<times> sync_service" where
  "svc_nextRetryAtMs io conv s =
     (if conv \<le> 0 then (0, s)
      else let (t, s) = trackerFor io conv s in (earliest_retry 0 (gapsWithRetry t), s))"

section \<open>Ranges of a sorted column\<close>

lemma last_covered: "ranges_ok rs \<Longrightarrow> rs \<noteq> [] \<Longrightarrow> rto (last rs) = top_seq rs"
  by (simp add: top_seq_def)

lemma seq_row_correct:
  assumes ok: "ranges_ok out" and above: "\<forall>x \<in> covered out. x \<le> seq"
  shows "ranges_ok (seq_row out seq) \<and> covered (seq_row out seq) = insert seq (covered out)"
proof (cases "out = []")
  case True
  then show ?thesis by (simp add: seq_row_def)
next
  case False
  define pre l where "pre = butlast out" and "l = last out"
  have out: "out = pre @ [l]"
    using False by (simp add: pre_def l_def)
  have l: "rfrom l \<le> rto l" "ranges_ok pre" "\<forall>r \<in> set pre. rto r + 1 < rfrom l"
    using ok unfolding out by (auto simp: ranges_ok_append)
  then have "rto l \<le> seq"
    using above unfolding out by auto
  then consider "seq > rto l + 1" | "seq = rto l + 1" | "seq = rto l" by linarith
  then show ?thesis
  proof cases
    case 1
    then have "seq_row out seq = out @ [\<lparr>rfrom = seq, rto = seq\<rparr>]"
      by (simp add: seq_row_def out)
    moreover have "\<forall>r \<in> set out. rto r + 1 < seq"
      using 1 l unfolding out by force
    ultimately show ?thesis using ok by (simp add: ranges_ok_append)
  next
    case 2
    then have "seq_row out seq = pre @ [l\<lparr>rto := seq\<rparr>]"
      by (simp add: seq_row_def out)
    moreover have "{rfrom l..seq} = insert seq {rfrom l..rto l}"
      using 2 l by auto
    ultimately show ?thesis using 2 l by (simp add: ranges_ok_append out)
  next
    case 3
    then have "seq_row out seq = out" by (simp add: seq_row_def out)
    moreover have "seq \<in> covered out" using 3 l unfolding out by simp
    ultimately show ?thesis using ok by auto
  qed
qed

lemma seq_rows_correct:
  "ranges_ok out \<Longrightarrow> sorted xs \<Longrightarrow> \<forall>x \<in> covered out. \<forall>y \<in> set xs. x \<le> y \<Longrightarrow>
   ranges_ok (foldl seq_row out xs) \<and> covered (foldl seq_row out xs) = covered out \<union> set xs"
proof (induction xs arbitrary: out)
  case (Cons x xs)
  have "ranges_ok (seq_row out x)" "covered (seq_row out x) = insert x (covered out)"
    using seq_row_correct [of out x] Cons.prems by auto
  then show ?case using Cons by auto
qed simp

definition stored_seqs :: "seqdb \<Rightarrow> int \<Rightarrow> int \<Rightarrow> int set" where
  "stored_seqs db owner conv = {s. (owner, conv, s) \<in> set (sd_messages db) \<and> s > 0}"

lemma load_ranges_correct:
  assumes "0 < owner" and "0 < conv"
  shows "\<exists>rs. loadMessageSeqRanges True db owner conv = Some rs \<and> ranges_ok rs \<and>
              covered rs = stored_seqs db owner conv"
proof -
  have "set (select_seqs db owner conv) = stored_seqs db owner conv"
    by (force simp: select_seqs_def stored_seqs_def)
  moreover have "sorted (select_seqs db owner conv)"
    by (simp add: select_seqs_def)
  ultimately show ?thesis
    using assms seq_rows_correct [of "[]" "select_seqs db owner conv"]
    by (simp add: loadMessageSeqRanges_def)
qed

section \<open>Restoring a tracker\<close>

text \<open>The representation is canonical: one list of ranges for each set of numbers.\<close>

lemma ranges_canonical:
  "ranges_ok rs \<Longrightarrow> ranges_ok ss \<Longrightarrow> covered rs = covered ss \<Longrightarrow> rs = ss"
proof (induction rs arbitrary: ss)
  case Nil
  then show ?case by (cases ss) (auto simp: ranges_ok_Cons)
next
  case (Cons r rs)
  have mem: "x \<in> covered qs \<Longrightarrow> \<forall>q \<in> set qs. b + 1 < rfrom q \<Longrightarrow> b + 1 < x" for x b qs
    by (fastforce simp: covered_def)
  have r: "rfrom r \<le> rto r" "\<forall>q \<in> set rs. rto r + 1 < rfrom q" "ranges_ok rs"
    using Cons.prems(1) by (auto simp: ranges_ok_Cons)
  then obtain s ss' where ss: "ss = s # ss'"
    using Cons.prems(3) by (cases ss) auto
  then have s: "rfrom s \<le> rto s" "\<forall>q \<in> set ss'. rto s + 1 < rfrom q" "ranges_ok ss'"
    using Cons.prems(2) by (auto simp: ranges_ok_Cons)
  have eq: "{rfrom r..rto r} \<union> covered rs = {rfrom s..rto s} \<union> covered ss'"
    using Cons.prems(3) ss by simp
  have "rfrom r \<in> {rfrom s..rto s} \<union> covered ss'" "rfrom s \<in> {rfrom r..rto r} \<union> covered rs"
    using eq r(1) s(1) by auto
  then have from_eq: "rfrom r = rfrom s"
    using mem [OF _ r(2), of "rfrom s"] mem [OF _ s(2), of "rfrom r"] r(1) s(1) by auto
  have "rto r + 1 \<notin> {rfrom r..rto r} \<union> covered rs" "rto s + 1 \<notin> {rfrom s..rto s} \<union> covered ss'"
    using mem [OF _ r(2), of "rto r + 1"] mem [OF _ s(2), of "rto s + 1"] by auto
  then have "rto r + 1 \<notin> {rfrom s..rto s} \<union> covered ss'" "rto s + 1 \<notin> {rfrom r..rto r} \<union> covered rs"
    using eq by metis+
  then have "rto r + 1 \<notin> {rfrom s..rto s}" "rto s + 1 \<notin> {rfrom r..rto r}"
    by simp_all
  then have to_eq: "rto r = rto s"
    using from_eq r(1) s(1) by auto
  have "covered rs = ({rfrom r..rto r} \<union> covered rs) - {rfrom r..rto r}"
    using mem [OF _ r(2)] by fastforce
  also have "\<dots> = ({rfrom s..rto s} \<union> covered ss') - {rfrom s..rto s}"
    unfolding from_eq to_eq using eq [unfolded from_eq to_eq] by simp
  also have "\<dots> = covered ss'"
    using mem [OF _ s(2)] by fastforce
  finally have "covered rs = covered ss'" .
  then show ?case
    using Cons.IH [OF r(3) s(3)] ss from_eq to_eq by simp
qed

definition retries_ok :: "tracker \<Rightarrow> bool" where
  "retries_ok t \<longleftrightarrow> (\<forall>k ri. tr_retries t k = Some ri \<longrightarrow> 0 < ri_attempt ri)"

lemma step_retries_ok: "retries_ok t \<Longrightarrow> retries_ok (tr_step op t)"
proof (cases op)
  case (MarkFailed now)
  assume "retries_ok t"
  then show ?thesis
    using MarkFailed
    by (auto simp: retries_ok_def markGapAttemptFailed_def Let_def split: list.splits option.splits)
      (metis less_imp_le)
qed (auto simp: retries_ok_def tr_observeSeq_def tr_fillGap_def Let_def)

lemma restore_ranges:
  "tr_inv t \<Longrightarrow> \<forall>r \<in> set rs. 0 < rfrom r \<and> rfrom r \<le> rto r \<Longrightarrow>
   tr_inv (fold restore_range (map (\<lambda>r. (rfrom r, rto r)) rs) t) \<and>
   covered (tr_arrived (fold restore_range (map (\<lambda>r. (rfrom r, rto r)) rs) t)) =
     covered (tr_arrived t) \<union> covered rs \<and>
   tr_retries (fold restore_range (map (\<lambda>r. (rfrom r, rto r)) rs) t) = tr_retries t \<and>
   tr_cfg (fold restore_range (map (\<lambda>r. (rfrom r, rto r)) rs) t) = tr_cfg t"
proof (induction rs arbitrary: t)
  case (Cons r rs)
  let ?t = "restore_range (rfrom r, rto r) t"
  have "tr_inv ?t \<and> covered (tr_arrived ?t) = covered (tr_arrived t) \<union> {rfrom r..rto r} \<and>
      tr_retries ?t = tr_retries t \<and> tr_cfg ?t = tr_cfg t"
    using Cons.prems
    by (auto simp: restore_range_def tr_inv_def addArrived_ok addArrived_covered top_addArrived)
  then show ?case
    using Cons.IH [of ?t] Cons.prems(2) by (simp add: Un_ac)
qed simp

lemma restore_retries:
  "tr_retries (fold restore_retry gs t) k =
   (case List.find (\<lambda>g. gfrom g = k \<and> gfrom g > 0 \<and> gto g \<ge> gfrom g \<and> gattempt g > 0) (rev gs) of
      None \<Rightarrow> tr_retries t k
    | Some g \<Rightarrow> Some \<lparr>ri_attempt = gattempt g, ri_next = gretry g\<rparr>)"
  by (induction gs rule: rev_induct) (auto simp: restore_retry_def)

lemma restore_retry_frame:
  "tr_arrived (fold restore_retry gs t) = tr_arrived t \<and>
   tr_maxSeen (fold restore_retry gs t) = tr_maxSeen t \<and> tr_cfg (fold restore_retry gs t) = tr_cfg t"
proof (induction gs arbitrary: t)
  case (Cons g gs)
  have "tr_arrived (restore_retry g t) = tr_arrived t" "tr_maxSeen (restore_retry g t) = tr_maxSeen t"
    "tr_cfg (restore_retry g t) = tr_cfg t"
    by (simp_all add: restore_retry_def)
  then show ?case using Cons.IH [of "restore_retry g t"] by simp
qed simp

lemma find_unique:
  assumes "distinct (map f xs)" and "x \<in> set xs" and "P x"
  shows "List.find (\<lambda>y. f y = f x \<and> P y) (rev xs) = Some x"
proof -
  have "List.find (\<lambda>y. f y = f x \<and> P y) (rev xs) \<noteq> None"
    using assms by (auto simp: find_None_iff)
  then obtain y where y: "List.find (\<lambda>y. f y = f x \<and> P y) (rev xs) = Some y" by auto
  then have "y \<in> set xs" "f y = f x"
    by (auto dest: find_SomeD)
  moreover have "inj_on f (set xs)"
    using assms(1) by (simp add: distinct_map)
  ultimately have "y = x"
    using assms(2) by (auto dest: inj_onD)
  then show ?thesis using y by simp
qed

lemma inner_gaps_attempt: "g \<in> set (inner_gaps rs) \<Longrightarrow> gattempt g = 0"
  by (induction rs rule: inner_gaps.induct) (auto simp: Let_def split: if_splits)

lemma computeGaps_attempt: "g \<in> set (computeGaps rs) \<Longrightarrow> gattempt g = 0"
  by (auto simp: computeGaps_def inner_gaps_attempt split: list.splits if_splits)

text \<open>The gaps a tracker reports, with their retry data, restore it.\<close>

lemma gaps_sorted_from: "gaps_sorted gs \<Longrightarrow> \<forall>g \<in> set gs. gfrom g \<le> gto g \<Longrightarrow>
   distinct (map gfrom gs) \<and> sorted (map gfrom gs)"
  unfolding gaps_sorted_def by (induction gs) fastforce+

lemma gapsWithRetry_from: "map gfrom (gapsWithRetry t) = map gfrom (computeGaps (tr_arrived t))"
  by (auto simp: gapsWithRetry_def split: option.splits)

lemma gapsWithRetry_keys:
  assumes "tr_inv t"
  shows "distinct (map gfrom (gapsWithRetry t)) \<and> sorted (map gfrom (gapsWithRetry t))"
  using computeGaps_shape [of "tr_arrived t"] assms gaps_sorted_from
  unfolding gapsWithRetry_from by (auto simp: tr_inv_def)

lemma restore_gaps:
  assumes inv: "tr_inv t" and r: "retries_ok t"
    and t0: "tr_arrived t0 = tr_arrived t" "tr_retries t0 = (\<lambda>_. None)"
  shows "gapsWithRetry (fold restore_retry (gapsWithRetry t) t0) = gapsWithRetry t"
proof -
  let ?gs = "gapsWithRetry t" and ?t' = "fold restore_retry (gapsWithRetry t) t0"
  have arr: "tr_arrived ?t' = tr_arrived t" using restore_retry_frame t0 by simp
  have "(case tr_retries ?t' (gfrom g) of None \<Rightarrow> g
      | Some ri \<Rightarrow> g\<lparr>gattempt := ri_attempt ri, gretry := ri_next ri\<rparr>) =
      (case tr_retries t (gfrom g) of None \<Rightarrow> g
      | Some ri \<Rightarrow> g\<lparr>gattempt := ri_attempt ri, gretry := ri_next ri\<rparr>)"
    if g: "g \<in> set (computeGaps (tr_arrived t))" for g
  proof (cases "tr_retries t (gfrom g)")
    case None
    then have "\<forall>h \<in> set ?gs. gfrom h = gfrom g \<longrightarrow> gattempt h = 0"
      using g unfolding gapsWithRetry_def
      by (auto split: option.splits simp: computeGaps_attempt)
    then have "List.find (\<lambda>h. gfrom h = gfrom g \<and> gfrom h > 0 \<and> gto h \<ge> gfrom h \<and> gattempt h > 0)
        (rev ?gs) = None"
      by (auto simp: find_None_iff)
    then show ?thesis using None t0 by (simp add: restore_retries)
  next
    case (Some ri)
    let ?h = "g\<lparr>gattempt := ri_attempt ri, gretry := ri_next ri\<rparr>"
    have h: "?h \<in> set ?gs"
      using g Some unfolding gapsWithRetry_def by (force simp: image_iff)
    have "0 < gfrom ?h \<and> gfrom ?h \<le> gto ?h \<and> 0 < gattempt ?h"
      using computeGaps_shape [of "tr_arrived t"] inv g r Some
      by (auto simp: tr_inv_def retries_ok_def)
    then have "List.find (\<lambda>h. gfrom h = gfrom ?h \<and> gfrom h > 0 \<and> gto h \<ge> gfrom h \<and> gattempt h > 0)
        (rev ?gs) = Some ?h"
      using find_unique [OF _ h, of gfrom "\<lambda>h. gfrom h > 0 \<and> gto h \<ge> gfrom h \<and> gattempt h > 0"]
        gapsWithRetry_keys [OF inv] by simp
    then show ?thesis using Some by (simp add: restore_retries)
  qed
  then show ?thesis
    unfolding gapsWithRetry_def [of ?t'] arr by (auto simp: gapsWithRetry_def intro!: map_cong)
qed

section \<open>The contract of the gap store\<close>

locale gap_store =
  fixes load_ranges :: "'db \<Rightarrow> int \<Rightarrow> int \<Rightarrow> range list option"
    and load_gaps :: "'db \<Rightarrow> int \<Rightarrow> int \<Rightarrow> gap list option"
    and replace_gaps :: "int \<Rightarrow> int \<Rightarrow> gap list \<Rightarrow> 'db \<Rightarrow> bool \<times> 'db"
    and seqs :: "'db \<Rightarrow> int \<Rightarrow> int \<Rightarrow> int set"
  assumes ranges_sound: "0 < ow \<Longrightarrow> 0 < cv \<Longrightarrow>
      \<exists>rs. load_ranges db ow cv = Some rs \<and> ranges_ok rs \<and> covered rs = seqs db ow cv"
    and seqs_pos: "x \<in> seqs db ow cv \<Longrightarrow> 0 < x"
    and load_replaced: "0 < ow \<Longrightarrow> 0 < cv \<Longrightarrow> distinct (map gfrom gs) \<Longrightarrow> sorted (map gfrom gs) \<Longrightarrow>
      load_gaps (snd (replace_gaps ow cv gs db)) ow cv = Some gs"
    and load_other: "(ow', cv') \<noteq> (ow, cv) \<Longrightarrow>
      load_gaps (snd (replace_gaps ow cv gs db)) ow' cv' = load_gaps db ow' cv'"
    and seqs_replaced: "seqs (snd (replace_gaps ow cv gs db)) = seqs db"
begin

text \<open>Writing a tracker's gaps and reading everything back gives the same tracker.\<close>

lemma restored:
  assumes "0 < ow" and "0 < cv" and "tr_inv t" and "retries_ok t"
    and "covered (tr_arrived t) = seqs db ow cv"
  defines "db' \<equiv> snd (replace_gaps ow cv (gapsWithRetry t) db)"
  shows "\<exists>rs gs. load_ranges db' ow cv = Some rs \<and> load_gaps db' ow cv = Some gs \<and>
    (let t' = tr_restore (map (\<lambda>r. (rfrom r, rto r)) rs) gs t0
     in tr_arrived t' = tr_arrived t \<and> tr_maxSeen t' = tr_maxSeen t \<and>
        gapsWithRetry t' = gapsWithRetry t \<and> tr_cfg t' = tr_cfg t0)"
proof -
  obtain rs where rs: "load_ranges db' ow cv = Some rs" "ranges_ok rs"
    "covered rs = covered (tr_arrived t)"
    using ranges_sound [OF assms(1,2), of db'] assms(5) seqs_replaced by (auto simp: db'_def)
  have gs: "load_gaps db' ow cv = Some (gapsWithRetry t)"
    unfolding db'_def using load_replaced [OF assms(1,2)] gapsWithRetry_keys [OF assms(3)] by blast
  have "0 < rfrom r \<and> rfrom r \<le> rto r" if "r \<in> set rs" for r
  proof -
    have "rfrom r \<le> rto r" using ranges_ok_mem rs(2) that by blast
    moreover from this have "rfrom r \<in> covered rs" using that by (auto simp: covered_def)
    ultimately show ?thesis using rs(3) assms(5) seqs_pos by simp
  qed
  then have pos: "\<forall>r \<in> set rs. 0 < rfrom r \<and> rfrom r \<le> rto r" by blast
  let ?b = "t0\<lparr>tr_arrived := [], tr_retries := (\<lambda>_. None), tr_maxSeen := 0\<rparr>"
  let ?t1 = "fold restore_range (map (\<lambda>r. (rfrom r, rto r)) rs) ?b"
  have "tr_inv ?b" by (simp add: tr_inv_def top_seq_def)
  then have t1: "tr_inv ?t1" "covered (tr_arrived ?t1) = covered rs"
    "tr_retries ?t1 = (\<lambda>_. None)" "tr_cfg ?t1 = tr_cfg t0"
    using restore_ranges [OF _ pos, of ?b] by auto
  have arr: "tr_arrived ?t1 = tr_arrived t"
    using ranges_canonical [of "tr_arrived ?t1" "tr_arrived t"] t1 rs assms(3)
    by (simp add: tr_inv_def)
  moreover have "tr_maxSeen ?t1 = tr_maxSeen t"
    using t1(1) arr assms(3) by (simp add: tr_inv_def)
  moreover have "gapsWithRetry (fold restore_retry (gapsWithRetry t) ?t1) = gapsWithRetry t"
    by (rule restore_gaps [OF assms(3,4) arr t1(3)])
  ultimately show ?thesis
    using rs(1) gs t1(4) restore_retry_frame [of "gapsWithRetry t" ?t1]
    by (simp add: Let_def tr_restore_def)
qed

end

lemma sort_key_id: "sorted (map f xs) \<Longrightarrow> sort_key f xs = xs"
  by (induction xs) (simp_all add: insort_is_Cons)

interpretation repo_gaps: gap_store "loadMessageSeqRanges True" "loadSyncGaps True"
  "replaceSyncGaps True" stored_seqs
proof unfold_locales
  fix ow cv :: int and db
  assume "0 < ow" "0 < cv"
  then show "\<exists>rs. loadMessageSeqRanges True db ow cv = Some rs \<and> ranges_ok rs \<and>
      covered rs = stored_seqs db ow cv"
    by (rule load_ranges_correct)
next
  fix ow cv :: int and db and gs :: "gap list"
  assume "0 < ow" "0 < cv" "distinct (map gfrom gs)" "sorted (map gfrom gs)"
  moreover have "filter (\<lambda>(o1, c1, g). o1 = ow \<and> c1 = cv)
      (filter (\<lambda>(o1, c1, g). \<not> (o1 = ow \<and> c1 = cv)) xs) = []" for xs :: "(int \<times> int \<times> gap) list"
    by (induction xs) auto
  ultimately show "loadSyncGaps True (snd (replaceSyncGaps True ow cv gs db)) ow cv = Some gs"
    by (simp add: loadSyncGaps_def replaceSyncGaps_def sort_key_id o_def)
next
  fix ow cv ow' cv' :: int and db and gs :: "gap list"
  assume ne: "(ow', cv') \<noteq> (ow, cv)"
  then have "filter (\<lambda>(o1, c1, g). o1 = ow' \<and> c1 = cv')
      (filter (\<lambda>(o1, c1, g). \<not> (o1 = ow \<and> c1 = cv)) xs) =
      filter (\<lambda>(o1, c1, g). o1 = ow' \<and> c1 = cv') xs" for xs :: "(int \<times> int \<times> gap) list"
    by (induction xs) auto
  moreover have "filter (\<lambda>(o1, c1, g). o1 = ow' \<and> c1 = cv') (map (\<lambda>g. (ow, cv, g)) gs) = []"
    using ne by (induction gs) auto
  ultimately show "loadSyncGaps True (snd (replaceSyncGaps True ow cv gs db)) ow' cv' =
      loadSyncGaps True db ow' cv'"
    by (simp add: loadSyncGaps_def replaceSyncGaps_def)
qed (auto simp: stored_seqs_def replaceSyncGaps_def fun_eq_iff)

section \<open>Runs of the service\<close>

abbreviation io_ok :: sync_io where
  "io_ok \<equiv> \<lparr>io_ranges = True, io_gaps = True, io_replace = True\<rparr>"

text \<open>The three operations that change a conversation, as one step.\<close>

fun svc_step :: "sync_io \<Rightarrow> int \<Rightarrow> tr_op \<Rightarrow> sync_service \<Rightarrow> bool \<times> sync_service" where
  "svc_step io conv (ObserveSeq n) s = svc_observeSeq io conv n s"
| "svc_step io conv (FillGap a b) s = svc_fillGap io conv a b s"
| "svc_step io conv (MarkFailed now) s = svc_markGapFailed io now conv s"

definition svc_inv :: "sync_service \<Rightarrow> bool" where
  "svc_inv s \<longleftrightarrow> (\<forall>cv t. sv_trackers s cv = Some t \<longrightarrow> tr_inv t \<and> retries_ok t \<and>
     tr_cfg t = tr_default_config\<lparr>cf_owner := sv_owner s, cf_conv := cv\<rparr>)"

lemma restore_inv:
  fixes rs :: "range list"
  assumes "\<forall>r \<in> set rs. 0 < rfrom r \<and> rfrom r \<le> rto r"
  shows "tr_inv (tr_restore (map (\<lambda>r. (rfrom r, rto r)) rs) gs t) \<and>
         retries_ok (tr_restore (map (\<lambda>r. (rfrom r, rto r)) rs) gs t) \<and>
         tr_cfg (tr_restore (map (\<lambda>r. (rfrom r, rto r)) rs) gs t) = tr_cfg t"
proof -
  let ?b = "t\<lparr>tr_arrived := [], tr_retries := (\<lambda>_. None), tr_maxSeen := 0\<rparr>"
  let ?t1 = "fold restore_range (map (\<lambda>r. (rfrom r, rto r)) rs) ?b"
  have "tr_inv ?b" by (simp add: tr_inv_def top_seq_def)
  then have t1: "tr_inv ?t1" "tr_retries ?t1 = (\<lambda>_. None)" "tr_cfg ?t1 = tr_cfg t"
    using restore_ranges [OF _ assms, of ?b] by auto
  have "retries_ok (fold restore_retry gs ?t1)"
    using t1(2) by (auto simp: retries_ok_def restore_retries split: option.splits dest!: find_SomeD)
  then show ?thesis
    using t1 restore_retry_frame [of gs ?t1] by (simp add: tr_restore_def tr_inv_def)
qed

lemma loaded_pos:
  assumes "loadMessageSeqRanges ok db ow cv = Some rs"
  shows "\<forall>r \<in> set rs. 0 < rfrom r \<and> rfrom r \<le> rto r"
proof
  fix r assume r: "r \<in> set rs"
  have "0 < ow" "0 < cv" "loadMessageSeqRanges True db ow cv = Some rs"
    using assms by (auto simp: loadMessageSeqRanges_def split: if_splits)
  then have "ranges_ok rs" "covered rs = stored_seqs db ow cv"
    using load_ranges_correct [of ow cv db] by auto
  moreover from this have "rfrom r \<le> rto r" using r ranges_ok_mem by blast
  moreover from this have "rfrom r \<in> covered rs" using r by (auto simp: covered_def)
  ultimately show "0 < rfrom r \<and> rfrom r \<le> rto r" by (simp add: stored_seqs_def)
qed

lemma tr_new_ok: "tr_inv (tr_new c) \<and> retries_ok (tr_new c) \<and> tr_cfg (tr_new c) = c"
  by (simp add: tr_inv_new retries_ok_def) (simp add: tr_new_def)

lemma trackerFor_ok:
  assumes "svc_inv s" and "trackerFor io cv s = (t, s')"
  shows "svc_inv s' \<and> sv_trackers s' cv = Some t \<and> sv_repo s' = sv_repo s \<and> sv_owner s' = sv_owner s \<and>
    tr_inv t \<and> retries_ok t \<and> tr_cfg t = tr_default_config\<lparr>cf_owner := sv_owner s, cf_conv := cv\<rparr>"
proof (cases "sv_trackers s cv")
  case None
  then have "tr_inv t \<and> retries_ok t \<and> tr_cfg t = tr_default_config\<lparr>cf_owner := sv_owner s, cf_conv := cv\<rparr>"
    using assms(2) restore_inv [OF loaded_pos] tr_new_ok
    by (auto simp: trackerFor_def Let_def split: option.splits)
  moreover have "s' = s\<lparr>sv_trackers := (sv_trackers s)(cv \<mapsto> t)\<rparr>"
    using assms(2) None by (auto simp: trackerFor_def Let_def)
  ultimately show ?thesis
    using assms(1) by (auto simp: svc_inv_def)
next
  case (Some t0)
  then show ?thesis using assms by (auto simp: trackerFor_def svc_inv_def)
qed

lemma put_tracker_inv:
  "svc_inv s \<Longrightarrow> tr_inv t \<Longrightarrow> retries_ok t \<Longrightarrow>
   tr_cfg t = tr_default_config\<lparr>cf_owner := sv_owner s, cf_conv := cv\<rparr> \<Longrightarrow>
   svc_inv (put_tracker cv t s)"
  by (auto simp: svc_inv_def put_tracker_def)

lemma svc_inv_repo: "svc_inv (s\<lparr>sv_repo := r\<rparr>) = svc_inv s"
  by (simp add: svc_inv_def)

lemma step_cfg: "tr_cfg (tr_step op t) = tr_cfg t"
  by (cases op) (simp_all add: tr_observeSeq_def tr_fillGap_def markFailed_arrived Let_def)

text \<open>Every accepted operation is the tracker's step, then a write of its gaps.\<close>

lemma svc_step_eq:
  assumes "svc_step io cv op s = (True, s')"
  shows "0 < cv \<and> op_ok op \<and>
    (\<exists>t s1. trackerFor io cv s = (t, s1) \<and> s' = persistGaps io cv (put_tracker cv (tr_step op t) s1))"
proof -
  obtain t s1 where "trackerFor io cv s = (t, s1)" by fastforce
  then show ?thesis
    using assms
    by (cases op)
      (auto simp: svc_observeSeq_def svc_fillGap_def svc_markGapFailed_def Let_def split: if_splits)
qed

lemma persistGaps_eq:
  assumes "sv_trackers s cv = Some t"
  shows "persistGaps io cv s = s\<lparr>sv_repo := map_option
      (\<lambda>db. snd (replaceSyncGaps (io_replace io) (sv_owner s) cv (gapsWithRetry t) db)) (sv_repo s)\<rparr>"
  using assms by (simp add: persistGaps_def trackerFor_def split: option.splits)

lemma svc_step_inv:
  assumes "svc_inv s" and "svc_step io cv op s = (b, s')"
  shows "svc_inv s' \<and> sv_owner s' = sv_owner s"
proof (cases b)
  case True
  obtain t s1 where st: "op_ok op" "trackerFor io cv s = (t, s1)"
    "s' = persistGaps io cv (put_tracker cv (tr_step op t) s1)"
    using svc_step_eq [of io cv op s s'] assms(2) True by auto
  note ok = trackerFor_ok [OF assms(1) st(2)]
  let ?s2 = "put_tracker cv (tr_step op t) s1"
  have "svc_inv ?s2"
    using ok step_inv [of t op] step_retries_ok st(1) by (intro put_tracker_inv) (auto simp: step_cfg)
  moreover have "sv_trackers ?s2 cv = Some (tr_step op t)" "sv_owner ?s2 = sv_owner s"
    using ok by (simp_all add: put_tracker_def)
  ultimately show ?thesis
    unfolding st(3) by (simp add: persistGaps_eq svc_inv_repo)
next
  case False
  then show ?thesis
    using assms by (cases op)
      (auto simp: svc_observeSeq_def svc_fillGap_def svc_markGapFailed_def split: if_splits prod.splits)
qed

lemma earliest_retry_cong: "gs = hs \<Longrightarrow> earliest_retry e gs = earliest_retry e hs"
  by simp

text \<open>
  C35: a restart loses nothing. Once an operation has written its gaps, and the messages it
  observed are in the message table, a service that starts anew on that database reports the
  same watermark, the same maximum, the same due gaps at every time and the same next retry.
\<close>

theorem restart_recovers:
  assumes "svc_inv s" and "0 < sv_owner s" and "sv_repo s = Some db"
    and "svc_step io_ok cv op s = (True, s')"
    and "\<And>t. sv_trackers s' cv = Some t \<Longrightarrow> covered (tr_arrived t) = stored_seqs db (sv_owner s) cv"
  defines "fresh \<equiv> s'\<lparr>sv_trackers := (\<lambda>_. None)\<rparr>"
  shows "fst (svc_contiguousSeq io_ok cv fresh) = fst (svc_contiguousSeq io_ok cv s') \<and>
         fst (svc_maxSeenSeq io_ok cv fresh) = fst (svc_maxSeenSeq io_ok cv s') \<and>
         fst (svc_pendingGaps io_ok now cv fresh) = fst (svc_pendingGaps io_ok now cv s') \<and>
         fst (svc_nextRetryAtMs io_ok cv fresh) = fst (svc_nextRetryAtMs io_ok cv s')"
proof -
  obtain t s1 where st: "0 < cv" "op_ok op" "trackerFor io_ok cv s = (t, s1)"
    "s' = persistGaps io_ok cv (put_tracker cv (tr_step op t) s1)"
    using svc_step_eq [OF assms(4)] by blast
  note ok = trackerFor_ok [OF assms(1) st(3)]
  let ?t = "tr_step op t" and ?ow = "sv_owner s"
  have s': "sv_trackers s' cv = Some ?t" "sv_owner s' = ?ow"
    "sv_repo s' = Some (snd (replaceSyncGaps True ?ow cv (gapsWithRetry ?t) db))"
    using ok assms(3) unfolding st(4) by (simp_all add: persistGaps_eq put_tracker_def)
  let ?c = "tr_new (tr_default_config\<lparr>cf_owner := ?ow, cf_conv := cv\<rparr>)"
  have t: "tr_inv ?t" "retries_ok ?t" "tr_cfg ?t = tr_cfg ?c"
    using ok step_inv [of t op] step_retries_ok st(2) by (auto simp: step_cfg) (simp add: tr_new_def)
  obtain rs gs where "loadMessageSeqRanges True (the (sv_repo s')) ?ow cv = Some rs"
    "loadSyncGaps True (the (sv_repo s')) ?ow cv = Some gs"
    and r: "tr_arrived (tr_restore (map (\<lambda>r. (rfrom r, rto r)) rs) gs ?c) = tr_arrived ?t"
    "tr_maxSeen (tr_restore (map (\<lambda>r. (rfrom r, rto r)) rs) gs ?c) = tr_maxSeen ?t"
    "gapsWithRetry (tr_restore (map (\<lambda>r. (rfrom r, rto r)) rs) gs ?c) = gapsWithRetry ?t"
    "tr_cfg (tr_restore (map (\<lambda>r. (rfrom r, rto r)) rs) gs ?c) = tr_cfg ?t"
    using repo_gaps.restored [OF assms(2) st(1) t(1,2) assms(5) [OF s'(1)], of ?c] t(3) s'(3)
    by (auto simp: Let_def)
  then have f: "fst (trackerFor io_ok cv fresh) = tr_restore (map (\<lambda>r. (rfrom r, rto r)) rs) gs ?c"
    using s' by (simp add: fresh_def trackerFor_def Let_def)
  have g: "fst (trackerFor io_ok cv s') = ?t"
    using s'(1) by (simp add: trackerFor_def)
  show ?thesis
    using st(1) f g r
    by (simp add: svc_contiguousSeq_def svc_maxSeenSeq_def svc_pendingGaps_def svc_nextRetryAtMs_def
        contiguousSeq_def tr_pendingGaps_def case_prod_beta)
qed

theorem restart_recovers_witness:
  "let db = \<lparr>sd_messages = [(7, 5, 1), (7, 5, 4), (7, 6, 2)], sd_gaps = []\<rparr>;
       s = \<lparr>sv_owner = 7, sv_repo = Some db, sv_trackers = (\<lambda>_. None)\<rparr>;
       s' = snd (svc_step io_ok 5 (MarkFailed 100) s)
   in fst (svc_pendingGaps io_ok 1100 5 (s'\<lparr>sv_trackers := (\<lambda>_. None)\<rparr>)) =
        fst (svc_pendingGaps io_ok 1100 5 s') \<and>
      fst (svc_contiguousSeq io_ok 5 (s'\<lparr>sv_trackers := (\<lambda>_. None)\<rparr>)) =
        fst (svc_contiguousSeq io_ok 5 s')"
proof -
  let ?db = "\<lparr>sd_messages = [(7, 5, 1), (7, 5, 4), (7, 6, 2)], sd_gaps = []\<rparr>"
  let ?s = "\<lparr>sv_owner = 7, sv_repo = Some ?db, sv_trackers = (\<lambda>_. None)\<rparr>"
  obtain s' where s': "svc_step io_ok 5 (MarkFailed 100) ?s = (True, s')"
    by (cases "trackerFor io_ok 5 ?s") (simp add: svc_markGapFailed_def Let_def)
  have inv: "svc_inv ?s" by (simp add: svc_inv_def)
  have cov: "covered (tr_arrived t) = stored_seqs ?db (sv_owner ?s) 5" if "sv_trackers s' 5 = Some t" for t
  proof -
    have "stored_seqs ?db 7 5 = {1, 4}" by (auto simp: stored_seqs_def)
    moreover have "tr_arrived t = [\<lparr>rfrom = 1, rto = 1\<rparr>, \<lparr>rfrom = 4, rto = 4\<rparr>]"
      using s' that
      by (auto simp: svc_markGapFailed_def trackerFor_def loadMessageSeqRanges_def select_seqs_def
          seq_row_def loadSyncGaps_def tr_restore_def restore_range_def addArrived_def put_tracker_def
          persistGaps_def tr_new_def markFailed_arrived Let_def split: option.splits)
    ultimately show ?thesis by auto
  qed
  show ?thesis
    using restart_recovers [OF inv _ _ s' cov, where now = 1100] s' by (simp add: Let_def)
qed

end
