(* ===== verification/AuthMachine.thy ===== *)
theory AuthMachine
  imports Prelude
begin

text \<open>
  \<^verbatim>\<open>client_core/src/account/AuthStateMachine.cpp\<close>, \<^verbatim>\<open>AccountTypes\<close> and
  \<^verbatim>\<open>ReconnectPolicy\<close>: the pure decision core of the client's account session.
  A method that fills \<open>Actions& out\<close> returns the actions it appends; operation ids are 64-bit
  words, generations 32-bit words.

  Lemmas: the abstract state diagram the machine refines, the observer's view of its events,
  what a blocked machine can no longer do, and that no operation ends twice.
\<close>

section \<open>Types\<close>

datatype account_state = LoggedOut | Authenticating | Authenticated | Refreshing | LoggedOutKicked

datatype connection_state = Disconnected | Connecting | Connected | Reconnecting

datatype auth_error =
    NoError | NetworkUnreachable | InvalidCredentials | TokenExpired | TokenRevoked
  | DeviceProofFailed | KickedByOtherDevice | OperationInProgress | OperationSuperseded
  | ServerRejected | InternalError

fun account_state_name :: "account_state \<Rightarrow> string" where
  "account_state_name LoggedOut = ''LoggedOut''"
| "account_state_name Authenticating = ''Authenticating''"
| "account_state_name Authenticated = ''Authenticated''"
| "account_state_name Refreshing = ''Refreshing''"
| "account_state_name LoggedOutKicked = ''LoggedOutKicked''"

fun connection_state_name :: "connection_state \<Rightarrow> string" where
  "connection_state_name Disconnected = ''Disconnected''"
| "connection_state_name Connecting = ''Connecting''"
| "connection_state_name Connected = ''Connected''"
| "connection_state_name Reconnecting = ''Reconnecting''"

fun auth_error_name :: "auth_error \<Rightarrow> string" where
  "auth_error_name NoError = ''None''"
| "auth_error_name NetworkUnreachable = ''NetworkUnreachable''"
| "auth_error_name InvalidCredentials = ''InvalidCredentials''"
| "auth_error_name TokenExpired = ''TokenExpired''"
| "auth_error_name TokenRevoked = ''TokenRevoked''"
| "auth_error_name DeviceProofFailed = ''DeviceProofFailed''"
| "auth_error_name KickedByOtherDevice = ''KickedByOtherDevice''"
| "auth_error_name OperationInProgress = ''OperationInProgress''"
| "auth_error_name OperationSuperseded = ''OperationSuperseded''"
| "auth_error_name ServerRejected = ''ServerRejected''"
| "auth_error_name InternalError = ''Internal''"

datatype event_type =
    StateChanged | ConnectionChanged | LoginSucceeded | LoginFailed
  | RefreshSucceeded | RefreshFailed | KickedEvent | LoggedOutEvent

record account_event =
  ev_type :: event_type
  ev_op :: u64
  ev_state :: account_state
  ev_error :: auth_error
  ev_user :: int

datatype auth_method = NoMethod | Password | AccessToken

text \<open>The actions, each with the fields of the struct it uses.\<close>

datatype action =
    Connect u64
  | SendPasswordLogin u64
  | SendTokenLogin u64
  | SendRefresh u64
  | SendLogout u64
  | Disconnect
  | ScheduleReconnect u64
  | CancelReconnect
  | EmitEvent account_event
  | RejectOperation auth_error

record auth_machine =
  sm_state :: account_state
  sm_op :: u64
  sm_next :: u64
  sm_gen :: u32
  sm_account :: string
  sm_method :: auth_method
  sm_auto :: bool
  sm_before :: account_state

definition sm_init :: auth_machine where
  "sm_init = \<lparr>sm_state = LoggedOut, sm_op = 0, sm_next = 1, sm_gen = 0, sm_account = [],
     sm_method = NoMethod, sm_auto = True, sm_before = Authenticated\<rparr>"

section \<open>Operations\<close>

definition makeEvent :: "event_type \<Rightarrow> u64 \<Rightarrow> account_state \<Rightarrow> auth_error \<Rightarrow> int \<Rightarrow> action" where
  "makeEvent ty opid acc err user =
     EmitEvent \<lparr>ev_type = ty, ev_op = opid, ev_state = acc, ev_error = err, ev_user = user\<rparr>"

definition sm_emit :: "event_type \<Rightarrow> u64 \<Rightarrow> auth_error \<Rightarrow> int \<Rightarrow> auth_machine \<Rightarrow> action list" where
  "sm_emit ty opid err user m = [makeEvent ty opid (sm_state m) err user]"

definition transitionTo :: "account_state \<Rightarrow> auth_machine \<Rightarrow> auth_machine \<times> action list" where
  "transitionTo nxt m =
     (if nxt = sm_state m then (m, [])
      else let m = m\<lparr>sm_state := nxt\<rparr> in (m, sm_emit StateChanged (sm_op m) NoError 0 m))"

definition authenticationInFlight :: "auth_machine \<Rightarrow> bool" where
  "authenticationInFlight m \<longleftrightarrow> sm_state m = Authenticating \<or> sm_state m = Refreshing"

definition isStaleGeneration :: "u32 \<Rightarrow> auth_machine \<Rightarrow> bool" where
  "isStaleGeneration g m \<longleftrightarrow> g \<noteq> sm_gen m"

definition begin_op :: "auth_machine \<Rightarrow> auth_machine" where
  "begin_op m = m\<lparr>sm_op := sm_next m, sm_next := sm_next m + 1, sm_gen := sm_gen m + 1\<rparr>"

definition requestLogin :: "string \<Rightarrow> auth_method \<Rightarrow> auth_machine \<Rightarrow> auth_machine \<times> u64 \<times> action list" where
  "requestLogin account method m =
     (if authenticationInFlight m then
        if sm_state m = Authenticating \<and> account = sm_account m \<and> method = sm_method m
        then (m, sm_op m, [])
        else (m, 0, [RejectOperation OperationInProgress])
      else if sm_state m = Authenticated \<and> account = sm_account m \<and> method = AccessToken
      then (m, sm_op m, [])
      else
        let m = (begin_op (m\<lparr>sm_account := account, sm_method := method\<rparr>))\<lparr>sm_auto := True\<rparr>;
            (m, acts) = transitionTo Authenticating m
        in (m, sm_op m, acts @ [Connect (sm_op m)]))"

definition requestPasswordLogin :: "string \<Rightarrow> auth_machine \<Rightarrow> auth_machine \<times> u64 \<times> action list" where
  "requestPasswordLogin account m = requestLogin account Password m"

definition requestTokenLogin :: "string \<Rightarrow> auth_machine \<Rightarrow> auth_machine \<times> u64 \<times> action list" where
  "requestTokenLogin account m = requestLogin account AccessToken m"

definition requestRefresh :: "auth_machine \<Rightarrow> auth_machine \<times> u64 \<times> action list" where
  "requestRefresh m =
     (if sm_state m = Refreshing then (m, sm_op m, [])
      else if sm_state m \<noteq> Authenticated then (m, 0, [RejectOperation OperationInProgress])
      else
        let m = begin_op (m\<lparr>sm_before := sm_state m\<rparr>);
            (m, acts) = transitionTo Refreshing m
        in (m, sm_op m, acts @ [SendRefresh (sm_op m)]))"

definition requestRefreshForLogin :: "string \<Rightarrow> auth_machine \<Rightarrow> auth_machine \<times> u64 \<times> action list" where
  "requestRefreshForLogin account m =
     (if authenticationInFlight m then (m, 0, [RejectOperation OperationInProgress])
      else
        let m = (begin_op (m\<lparr>sm_account := account, sm_method := AccessToken\<rparr>))\<lparr>sm_auto := True\<rparr>;
            (m, acts) = transitionTo Refreshing m
        in (m, sm_op m, acts @ [Connect (sm_op m)]))"

definition requestTokenLoginOnConnected :: "auth_machine \<Rightarrow> auth_machine \<times> u64 \<times> action list" where
  "requestTokenLoginOnConnected m =
     (if sm_state m \<noteq> Authenticated then (m, 0, [])
      else
        let m = begin_op (m\<lparr>sm_method := AccessToken\<rparr>);
            (m, acts) = transitionTo Authenticating m
        in (m, sm_op m, acts @ [SendTokenLogin (sm_op m)]))"

definition requestLogout :: "auth_machine \<Rightarrow> auth_machine \<times> u64 \<times> action list" where
  "requestLogout m =
     (let m = (begin_op m)\<lparr>sm_auto := False\<rparr>
      in (m, sm_op m, [CancelReconnect, SendLogout (sm_op m)]))"

definition cancelAuthentication :: "auth_machine \<Rightarrow> auth_machine \<times> action list" where
  "cancelAuthentication m =
     (let m = m\<lparr>sm_gen := sm_gen m + 1, sm_op := 0, sm_method := NoMethod, sm_auto := False\<rparr>;
          (m, acts) = transitionTo LoggedOut m
      in (m, [CancelReconnect] @ acts @ [Disconnect]))"

definition sm_onConnected :: "auth_machine \<Rightarrow> auth_machine \<times> action list" where
  "sm_onConnected m =
     (m, if sm_state m = Authenticating
         then [if sm_method m = AccessToken then SendTokenLogin (sm_op m) else SendPasswordLogin (sm_op m)]
         else if sm_state m = Refreshing then [SendRefresh (sm_op m)]
         else [])"

definition sm_onDisconnected :: "bool \<Rightarrow> auth_machine \<Rightarrow> auth_machine \<times> action list" where
  "sm_onDisconnected intentional m =
     (if intentional then (m, [])
      else if \<not> sm_auto m \<or> sm_state m = LoggedOutKicked then (m, [])
      else if sm_state m = Authenticated \<or> sm_state m = Refreshing
      then (m, [ScheduleReconnect (sm_op m)])
      else if sm_state m = Authenticating
      then let e = sm_emit LoginFailed (sm_op m) NetworkUnreachable 0 m;
               (m, acts) = transitionTo LoggedOut m
           in (m, e @ acts)
      else (m, []))"

definition onAuthSucceeded :: "u32 \<Rightarrow> int \<Rightarrow> auth_machine \<Rightarrow> auth_machine \<times> action list" where
  "onAuthSucceeded g user m =
     (if isStaleGeneration g m then (m, [])
      else if sm_state m \<noteq> Authenticating then (m, [])
      else let (m, acts) = transitionTo Authenticated m
           in (m, acts @ sm_emit LoginSucceeded (sm_op m) NoError user m))"

definition onAuthFailed :: "u32 \<Rightarrow> auth_error \<Rightarrow> auth_machine \<Rightarrow> auth_machine \<times> action list" where
  "onAuthFailed g err m =
     (if isStaleGeneration g m then (m, [])
      else if sm_state m \<noteq> Authenticating then (m, [])
      else let e = sm_emit LoginFailed (sm_op m) err 0 m;
               (m, acts) = transitionTo LoggedOut m
           in (m, e @ acts @ [Disconnect]))"

definition onRefreshSucceeded :: "u32 \<Rightarrow> auth_machine \<Rightarrow> auth_machine \<times> action list" where
  "onRefreshSucceeded g m =
     (if isStaleGeneration g m then (m, [])
      else if sm_state m \<noteq> Refreshing then (m, [])
      else let (m, acts) = transitionTo Authenticated m
           in (m, acts @ sm_emit RefreshSucceeded (sm_op m) NoError 0 m))"

definition onRefreshFailed :: "u32 \<Rightarrow> auth_error \<Rightarrow> auth_machine \<Rightarrow> auth_machine \<times> action list" where
  "onRefreshFailed g err m =
     (if isStaleGeneration g m then (m, [])
      else if sm_state m \<noteq> Refreshing then (m, [])
      else
        let e = sm_emit RefreshFailed (sm_op m) err 0 m in
        if err = TokenRevoked \<or> err = TokenExpired
        then let (m, acts) = transitionTo LoggedOutKicked (m\<lparr>sm_auto := False\<rparr>)
             in (m, e @ acts @ sm_emit KickedEvent (sm_op m) err 0 m)
        else let (m, acts) = transitionTo Authenticated m in (m, e @ acts))"

definition sm_onKicked :: "auth_error \<Rightarrow> auth_machine \<Rightarrow> auth_machine \<times> action list" where
  "sm_onKicked reason m =
     (let (m, acts) = transitionTo LoggedOutKicked (m\<lparr>sm_auto := False\<rparr>)
      in (m, [CancelReconnect] @ acts @ sm_emit KickedEvent (sm_op m) reason 0 m @ [Disconnect]))"

definition onLogoutCompleted :: "auth_machine \<Rightarrow> auth_machine \<times> action list" where
  "onLogoutCompleted m =
     (let (m, acts) = transitionTo LoggedOut
            (m\<lparr>sm_auto := False, sm_account := [], sm_method := NoMethod\<rparr>);
          e = sm_emit LoggedOutEvent (sm_op m) NoError 0 m
      in (m\<lparr>sm_op := 0\<rparr>, acts @ e))"

section \<open>Inputs and runs\<close>

datatype auth_input =
    InPassword string | InToken string | InRefreshForLogin string | InTokenOnConnected
  | InRefresh | InLogout | InCancel | InConnected | InDisconnected bool
  | InAuthOk u32 int | InAuthFail u32 auth_error | InRefreshOk u32 | InRefreshFail u32 auth_error
  | InKicked auth_error | InLogoutDone

fun sm_step :: "auth_input \<Rightarrow> auth_machine \<Rightarrow> auth_machine \<times> action list" where
  "sm_step (InPassword a) m = (case requestPasswordLogin a m of (m, _, acts) \<Rightarrow> (m, acts))"
| "sm_step (InToken a) m = (case requestTokenLogin a m of (m, _, acts) \<Rightarrow> (m, acts))"
| "sm_step (InRefreshForLogin a) m = (case requestRefreshForLogin a m of (m, _, acts) \<Rightarrow> (m, acts))"
| "sm_step InTokenOnConnected m = (case requestTokenLoginOnConnected m of (m, _, acts) \<Rightarrow> (m, acts))"
| "sm_step InRefresh m = (case requestRefresh m of (m, _, acts) \<Rightarrow> (m, acts))"
| "sm_step InLogout m = (case requestLogout m of (m, _, acts) \<Rightarrow> (m, acts))"
| "sm_step InCancel m = cancelAuthentication m"
| "sm_step InConnected m = sm_onConnected m"
| "sm_step (InDisconnected i) m = sm_onDisconnected i m"
| "sm_step (InAuthOk g u) m = onAuthSucceeded g u m"
| "sm_step (InAuthFail g e) m = onAuthFailed g e m"
| "sm_step (InRefreshOk g) m = onRefreshSucceeded g m"
| "sm_step (InRefreshFail g e) m = onRefreshFailed g e m"
| "sm_step (InKicked e) m = sm_onKicked e m"
| "sm_step InLogoutDone m = onLogoutCompleted m"

fun sm_run :: "auth_input list \<Rightarrow> auth_machine \<Rightarrow> auth_machine \<times> action list" where
  "sm_run [] m = (m, [])"
| "sm_run (i # is) m =
     (let (m, acts) = sm_step i m; (m', acts') = sm_run is m in (m', acts @ acts'))"

lemmas sm_ops = requestPasswordLogin_def requestTokenLogin_def requestLogin_def
  requestRefreshForLogin_def requestTokenLoginOnConnected_def requestRefresh_def requestLogout_def
  cancelAuthentication_def sm_onConnected_def sm_onDisconnected_def onAuthSucceeded_def
  onAuthFailed_def onRefreshSucceeded_def onRefreshFailed_def sm_onKicked_def onLogoutCompleted_def

lemmas sm_helpers = transitionTo_def sm_emit_def makeEvent_def begin_op_def
  authenticationInFlight_def isStaleGeneration_def

section \<open>The state diagram\<close>

text \<open>The account states and the moves between them, as the design draws them.\<close>

inductive acc_next :: "account_state \<Rightarrow> account_state \<Rightarrow> bool" where
  start_login: "s \<in> {LoggedOut, Authenticated, LoggedOutKicked} \<Longrightarrow> acc_next s Authenticating"
| start_refresh: "s \<in> {LoggedOut, Authenticated, LoggedOutKicked} \<Longrightarrow> acc_next s Refreshing"
| login_ok: "acc_next Authenticating Authenticated"
| login_failed: "acc_next Authenticating LoggedOut"
| refresh_done: "acc_next Refreshing Authenticated"
| kicked: "acc_next s LoggedOutKicked"
| logged_out: "acc_next s LoggedOut"

inductive_cases acc_next_from_kicked: "acc_next LoggedOutKicked s"
inductive_simps acc_next_to_authenticated: "acc_next s Authenticated"

lemma acc_next_iff:
  "acc_next s t \<longleftrightarrow>
   (case t of
      LoggedOut \<Rightarrow> True
    | LoggedOutKicked \<Rightarrow> True
    | Authenticated \<Rightarrow> s = Authenticating \<or> s = Refreshing
    | _ \<Rightarrow> s \<noteq> Authenticating \<and> s \<noteq> Refreshing)"
  by (cases s; cases t) (auto simp: acc_next.simps)

lemma sm_state_transition [simp]: "sm_state (fst (transitionTo s m)) = s"
  by (simp add: transitionTo_def Let_def)

lemma transitionTo_frame [frame_simps]:
  "transitionTo s m = (m\<lparr>sm_state := s\<rparr>,
     if s = sm_state m then [] else [makeEvent StateChanged (sm_op m) s NoError 0])"
  by (simp add: transitionTo_def sm_emit_def Let_def)

lemma sm_step_diagram:
  assumes "sm_step i m = (m', acts)"
  shows "sm_state m' = sm_state m \<or> acc_next (sm_state m) (sm_state m')"
  using assms
  by (cases i)
    (auto simp: sm_ops frame_simps begin_op_def authenticationInFlight_def isStaleGeneration_def
      acc_next_iff Let_def split: if_splits account_state.splits)

lemmas sm_unfold = sm_ops frame_simps begin_op_def authenticationInFlight_def isStaleGeneration_def
  sm_emit_def makeEvent_def Let_def

section \<open>What an observer sees\<close>

text \<open>The states a listener learns from the \<open>StateChanged\<close> events.\<close>

fun state_changes :: "action list \<Rightarrow> account_state list" where
  "state_changes [] = []"
| "state_changes (a # as) =
     (case a of
        EmitEvent e \<Rightarrow> (if ev_type e = StateChanged then [ev_state e] else [])
      | _ \<Rightarrow> []) @ state_changes as"

lemma state_changes_append [simp]: "state_changes (as @ bs) = state_changes as @ state_changes bs"
  by (induction as) auto

lemma sm_step_changes:
  assumes "sm_step i m = (m', acts)"
  shows "state_changes acts = (if sm_state m' = sm_state m then [] else [sm_state m'])"
  using assms by (cases i) (auto simp: sm_unfold split: if_splits)

text \<open>
  The interface never loses track. Whatever the inputs, in any state, a listener that keeps
  the state of the last \<open>StateChanged\<close> event always holds the machine's own state, and the
  states it sees follow the diagram: in particular it sees \<open>Authenticated\<close> only after
  \<open>Authenticating\<close> or \<open>Refreshing\<close>.
\<close>

theorem observer_tracks_machine:
  "last (sm_state m # state_changes (snd (sm_run is m))) = sm_state (fst (sm_run is m)) \<and>
   successively acc_next (sm_state m # state_changes (snd (sm_run is m)))"
proof (induction "is" arbitrary: m)
  case (Cons i "is")
  obtain m1 acts where st: "sm_step i m = (m1, acts)" by fastforce
  obtain m2 acts' where rest: "sm_run is m1 = (m2, acts')" by fastforce
  have IH: "last (sm_state m1 # state_changes acts') = sm_state m2"
    "successively acc_next (sm_state m1 # state_changes acts')"
    using Cons [of m1] rest by simp_all
  have run: "sm_run (i # is) m = (m2, acts @ acts')"
    using st rest by simp
  show ?case
  proof (cases "sm_state m1 = sm_state m")
    case True
    then show ?thesis
      using IH sm_step_changes [OF st] unfolding run by simp
  next
    case False
    then show ?thesis
      using IH sm_step_changes [OF st] sm_step_diagram [OF st] unfolding run by simp
  qed
qed simp

section \<open>Blocked machines\<close>

fun is_login :: "auth_input \<Rightarrow> bool" where
  "is_login (InPassword _) = True"
| "is_login (InToken _) = True"
| "is_login (InRefreshForLogin _) = True"
| "is_login _ = False"

text \<open>The actions that reach for the network on behalf of a session.\<close>

fun reaches_out :: "action \<Rightarrow> bool" where
  "reaches_out (Connect _) = True"
| "reaches_out (SendPasswordLogin _) = True"
| "reaches_out (SendTokenLogin _) = True"
| "reaches_out (SendRefresh _) = True"
| "reaches_out (ScheduleReconnect _) = True"
| "reaches_out _ = False"

definition is_event :: "event_type \<Rightarrow> action \<Rightarrow> bool" where
  "is_event ty a = (case a of EmitEvent e \<Rightarrow> ev_type e = ty | _ \<Rightarrow> False)"

lemma logged_out_step:
  assumes "sm_step i m = (m', acts)" and "\<not> is_login i"
    and "sm_state m = LoggedOutKicked \<or> sm_state m = LoggedOut" and "\<not> sm_auto m"
  shows "(sm_state m' = LoggedOutKicked \<or> sm_state m' = LoggedOut) \<and> \<not> sm_auto m' \<and>
    (\<forall>a \<in> set acts. \<not> reaches_out a \<and> \<not> is_event LoginSucceeded a)"
  using assms by (cases i) (auto simp: sm_unfold is_event_def split: if_splits)

text \<open>
  Kicked means offline. After the server kicked the account (or the refresh token was
  revoked, or the user cancelled), no later signal - a connection coming up or going down, a
  late login or refresh result of any generation, a timer, a second kick - makes the machine
  connect, log in, refresh, schedule a reconnect or report a login, until the user asks for a
  new login.
\<close>

theorem kicked_stays_offline:
  assumes "m \<in> {fst (sm_onKicked r m0), fst (cancelAuthentication m0), fst (onLogoutCompleted m0)}"
    and "\<forall>i \<in> set is. \<not> is_login i"
  shows "(\<forall>a \<in> set (snd (sm_run is m)). \<not> reaches_out a \<and> \<not> is_event LoginSucceeded a) \<and>
         sm_state (fst (sm_run is m)) \<in> {LoggedOutKicked, LoggedOut}"
proof -
  have start: "sm_state m = LoggedOutKicked \<or> sm_state m = LoggedOut" "\<not> sm_auto m"
    using assms(1) by (auto simp: sm_unfold)
  then show ?thesis
    using assms(2)
  proof (induction "is" arbitrary: m)
    case (Cons i "is")
    obtain m1 acts where st: "sm_step i m = (m1, acts)" by fastforce
    obtain m2 acts' where rest: "sm_run is m1 = (m2, acts')" by fastforce
    note one = logged_out_step [OF st _ Cons.prems(1,2)]
    show ?case
      using one Cons.IH [of m1] Cons.prems(3) st rest by auto
  qed simp
qed

theorem kicked_stays_offline_witness:
  "let m = fst (sm_onKicked KickedByOtherDevice (fst (sm_run [InPassword ''a'', InConnected, InAuthOk 1 7] sm_init)))
   in \<forall>a \<in> set (snd (sm_run [InDisconnected False, InConnected, InAuthOk 1 7, InRefresh] m)).
        \<not> reaches_out a"
proof -
  let ?m0 = "fst (sm_run [InPassword ''a'', InConnected, InAuthOk 1 7] sm_init)"
  show ?thesis
    using kicked_stays_offline [of "fst (sm_onKicked KickedByOtherDevice ?m0)" KickedByOtherDevice ?m0
        "[InDisconnected False, InConnected, InAuthOk 1 7, InRefresh]"]
    by (simp only: Let_def) auto
qed

section \<open>No operation ends twice\<close>

fun login_ends :: "action list \<Rightarrow> u64 list" where
  "login_ends [] = []"
| "login_ends (a # as) =
     (case a of
        EmitEvent e \<Rightarrow> (if ev_type e = LoginSucceeded \<or> ev_type e = LoginFailed then [ev_op e] else [])
      | _ \<Rightarrow> []) @ login_ends as"

lemma login_ends_append [simp]: "login_ends (as @ bs) = login_ends as @ login_ends bs"
  by (induction as) auto

definition ends_inv :: "auth_machine \<Rightarrow> u64 list \<Rightarrow> bool" where
  "ends_inv m T \<longleftrightarrow> distinct T \<and> (\<forall>k \<in> set T. unat k < unat (sm_next m)) \<and>
     unat (sm_op m) < unat (sm_next m) \<and> (sm_state m = Authenticating \<longrightarrow> sm_op m \<notin> set T)"

lemma unat_next: "unat (x :: u64) + 1 < 2 ^ 64 \<Longrightarrow> unat (x + 1) = unat x + 1"
  by (simp add: unat_word_ariths)

lemma ends_inv_begin:
  assumes "ends_inv m T" and "unat (sm_next m) + 1 < 2 ^ 64"
  shows "ends_inv (m\<lparr>sm_op := sm_next m, sm_next := sm_next m + 1\<rparr>) T"
  using assms unat_next [OF assms(2)] by (auto simp: ends_inv_def intro: less_SucI)

lemma ends_inv_cong:
  "ends_inv m T \<Longrightarrow> sm_op m' = sm_op m \<Longrightarrow> sm_next m' = sm_next m \<Longrightarrow>
   (sm_state m' = Authenticating \<Longrightarrow> sm_state m = Authenticating \<or> sm_op m \<notin> set T) \<Longrightarrow> ends_inv m' T"
  by (auto simp: ends_inv_def)

lemma ends_inv_step:
  assumes "ends_inv m T" and "sm_step i m = (m', acts)" and "unat (sm_next m) + 1 < 2 ^ 64"
  shows "ends_inv m' (T @ login_ends acts) \<and> unat (sm_next m') \<le> unat (sm_next m) + 1"
proof -
  have fresh: "sm_next m \<notin> set T"
    using assms(1) by (auto simp: ends_inv_def)
  have nz: "0 < unat (sm_next m)"
    using assms(1) by (auto simp: ends_inv_def)
  have less: "unat k < Suc (unat (sm_next m))" if "k \<in> set T" for k
    using assms(1) that by (auto simp: ends_inv_def intro: less_SucI)
  note n = unat_next [OF assms(3)]
  show ?thesis
    using assms(1,2) fresh nz n less
    by (cases i) (auto simp: sm_unfold ends_inv_def split: if_splits)
qed

lemma ends_inv_run:
  "ends_inv m T \<Longrightarrow> unat (sm_next m) + length is < 2 ^ 64 \<Longrightarrow>
   ends_inv (fst (sm_run is m)) (T @ login_ends (snd (sm_run is m)))"
proof (induction "is" arbitrary: m T)
  case (Cons i "is")
  obtain m1 acts where st: "sm_step i m = (m1, acts)" by fastforce
  obtain m2 acts' where rest: "sm_run is m1 = (m2, acts')" by fastforce
  have "unat (sm_next m) + 1 < 2 ^ 64" using Cons.prems(2) by simp
  then have "ends_inv m1 (T @ login_ends acts)" "unat (sm_next m1) \<le> unat (sm_next m) + 1"
    using ends_inv_step [OF Cons.prems(1) st] by auto
  then show ?case
    using Cons.IH [of m1 "T @ login_ends acts"] Cons.prems(2) st rest by simp
qed simp

text \<open>
  A login operation ends at most once. In any run from the initial state shorter than
  \<open>2^64 - 1\<close> inputs, with late, repeated and reordered results, no operation id is reported as
  succeeded or failed twice, nor once as succeeded and once as failed.
\<close>

theorem login_ends_once:
  assumes "length is < 2 ^ 64 - 1"
  shows "distinct (login_ends (snd (sm_run is sm_init)))"
proof -
  have "ends_inv sm_init []" by (simp add: ends_inv_def sm_init_def)
  moreover have "unat (sm_next sm_init) + length is < 2 ^ 64"
    using assms by (simp add: sm_init_def)
  ultimately have "ends_inv (fst (sm_run is sm_init)) ([] @ login_ends (snd (sm_run is sm_init)))"
    by (rule ends_inv_run)
  then show ?thesis by (simp add: ends_inv_def)
qed

theorem login_ends_once_witness:
  "login_ends (snd (sm_run [InPassword ''a'', InConnected, InDisconnected False, InAuthFail 1 ServerRejected,
      InPassword ''a'', InAuthOk 1 7, InAuthOk 2 7, InAuthOk 2 7, InDisconnected False] sm_init)) = [1, 2] \<and>
   distinct (login_ends (snd (sm_run [InPassword ''a'', InConnected, InDisconnected False,
      InAuthFail 1 ServerRejected, InPassword ''a'', InAuthOk 1 7, InAuthOk 2 7, InAuthOk 2 7,
      InDisconnected False] sm_init)))"
proof
  show "login_ends (snd (sm_run [InPassword ''a'', InConnected, InDisconnected False, InAuthFail 1 ServerRejected,
      InPassword ''a'', InAuthOk 1 7, InAuthOk 2 7, InAuthOk 2 7, InDisconnected False] sm_init)) = [1, 2]"
    by (simp add: sm_unfold sm_init_def)
  show "distinct (login_ends (snd (sm_run [InPassword ''a'', InConnected, InDisconnected False,
      InAuthFail 1 ServerRejected, InPassword ''a'', InAuthOk 1 7, InAuthOk 2 7, InAuthOk 2 7,
      InDisconnected False] sm_init)))"
    by (rule login_ends_once) simp
qed

text \<open>
  A cold start whose refresh fails for an internal reason ends up signed in. The refresh of
  a cold start begins from a signed-out state, but a failure other than a revoked or expired
  token always returns to \<open>Authenticated\<close> (the field that remembers the state before the
  refresh is written and never read), with no success event of any kind.
\<close>

theorem cold_refresh_failure_signs_in:
  assumes "\<not> authenticationInFlight m" and "sm_state m \<noteq> Authenticated"
    and "err \<noteq> TokenRevoked" and "err \<noteq> TokenExpired"
    and "requestRefreshForLogin account m = (m1, opid, acts1)"
    and "onRefreshFailed (sm_gen m1) err m1 = (m2, acts2)"
  shows "sm_state m2 = Authenticated \<and>
         (\<forall>a \<in> set (acts1 @ acts2). \<not> is_event LoginSucceeded a \<and> \<not> is_event RefreshSucceeded a)"
  using assms by (auto simp: sm_unfold is_event_def)

theorem cold_refresh_failure_signs_in_witness:
  "let (m1, opid, acts1) = requestRefreshForLogin ''a'' sm_init;
       (m2, acts2) = onRefreshFailed (sm_gen m1) InternalError m1
   in sm_state m2 = Authenticated"
proof -
  obtain m1 opid acts1 where 1: "requestRefreshForLogin ''a'' sm_init = (m1, opid, acts1)"
    by (cases "requestRefreshForLogin ''a'' sm_init") auto
  obtain m2 acts2 where 2: "onRefreshFailed (sm_gen m1) InternalError m1 = (m2, acts2)"
    by fastforce
  show ?thesis
    using cold_refresh_failure_signs_in [OF _ _ _ _ 1 2] 1 2
    by (simp add: sm_init_def authenticationInFlight_def)
qed

section \<open>ReconnectPolicy\<close>

text \<open>
  The two floating-point computations of the jitter enter as integers: \<open>nextDelayMs\<close> takes
  the jitter it adds (\<open>None\<close> without a jitter source or with ratio 0).
\<close>

record reconnect_policy =
  rp_base :: int
  rp_max :: int
  rp_attempt :: u32
  rp_enabled :: bool

fun delay_loop :: "nat \<Rightarrow> int \<Rightarrow> int \<Rightarrow> int" where
  "delay_loop 0 cap d = d"
| "delay_loop (Suc n) cap d = (let d = d * 2 in if d \<ge> cap then cap else delay_loop n cap d)"

definition nextDelayMs :: "int option \<Rightarrow> reconnect_policy \<Rightarrow> int \<times> reconnect_policy" where
  "nextDelayMs jitter p =
     (if \<not> rp_enabled p then (-1, p)
      else
        let d = delay_loop (unat (rp_attempt p)) (rp_max p) (rp_base p);
            d = (if d > rp_max p then rp_max p else d);
            d = (case jitter of
                   None \<Rightarrow> d
                 | Some j \<Rightarrow> (let d = d + j in if d > rp_max p then rp_max p else d))
        in (d, p\<lparr>rp_attempt := rp_attempt p + 1\<rparr>))"

definition rp_reset :: "reconnect_policy \<Rightarrow> reconnect_policy" where
  "rp_reset p = p\<lparr>rp_attempt := 0, rp_enabled := True\<rparr>"

definition rp_disable :: "reconnect_policy \<Rightarrow> reconnect_policy" where
  "rp_disable p = p\<lparr>rp_enabled := False\<rparr>"

definition rp_enable :: "reconnect_policy \<Rightarrow> reconnect_policy" where
  "rp_enable p = p\<lparr>rp_enabled := True\<rparr>"

lemma delay_loop_closed:
  "0 < d \<Longrightarrow> min (delay_loop n cap d) cap = min (d * 2 ^ n) cap"
proof (induction n arbitrary: d)
  case (Suc n)
  have "d * 2 * 1 \<le> d * 2 * 2 ^ n"
    using Suc.prems by (intro mult_left_mono) auto
  then have ge: "d * 2 \<le> d * 2 ^ Suc n" by (simp add: mult.assoc)
  show ?case
  proof (cases "cap \<le> d * 2")
    case True
    then show ?thesis using ge by (simp add: Let_def min_def)
  next
    case False
    then show ?thesis
      using Suc.IH [of "d * 2"] Suc.prems by (simp add: Let_def mult.assoc)
  qed
qed simp

definition rp_after :: "nat \<Rightarrow> reconnect_policy \<Rightarrow> reconnect_policy" where
  "rp_after n p = ((\<lambda>p. snd (nextDelayMs None p)) ^^ n) p"

lemma rp_after_fields:
  "rp_enabled p \<Longrightarrow> rp_after n p = p\<lparr>rp_attempt := rp_attempt p + of_nat n\<rparr>"
  by (induction n) (simp_all add: rp_after_def nextDelayMs_def Let_def algebra_simps)

text \<open>
  The reconnect delays. After a reset the \<open>n\<close>-th delay (from 0) is
  \<open>base * 2^n\<close> capped at the maximum, plus the jitter, capped again: never below the base, never
  above the maximum; once disabled the policy answers -1 and keeps its count.
\<close>

theorem reconnect_delays:
  assumes "0 < rp_base p" and "rp_base p \<le> rp_max p" and "0 \<le> j" and "n < 2 ^ 32"
  defines "q \<equiv> rp_after n (rp_reset p)"
  shows "fst (nextDelayMs (Some j) q) = min (min (rp_base p * 2 ^ n) (rp_max p) + j) (rp_max p) \<and>
         rp_base p \<le> fst (nextDelayMs (Some j) q) \<and> fst (nextDelayMs (Some j) q) \<le> rp_max p \<and>
         nextDelayMs (Some j) (rp_disable q) = (-1, rp_disable q)"
proof -
  have q: "q = p\<lparr>rp_attempt := of_nat n, rp_enabled := True\<rparr>"
    unfolding q_def by (subst rp_after_fields) (simp_all add: rp_reset_def)
  have n: "unat (of_nat n :: u32) = n"
    using assms(4) by (simp add: unat_of_nat take_bit_nat_eq_self)
  have "fst (nextDelayMs (Some j) q) =
      min (min (delay_loop n (rp_max p) (rp_base p)) (rp_max p) + j) (rp_max p)"
    unfolding q nextDelayMs_def by (simp add: n Let_def min_def)
  then have d: "fst (nextDelayMs (Some j) q) = min (min (rp_base p * 2 ^ n) (rp_max p) + j) (rp_max p)"
    using delay_loop_closed [OF assms(1)] by simp
  have "rp_base p * 1 \<le> rp_base p * 2 ^ n"
    using assms(1) by (intro mult_left_mono) auto
  then show ?thesis
    using d assms(2,3) by (auto simp: nextDelayMs_def rp_disable_def)
qed

theorem reconnect_delays_witness:
  "fst (nextDelayMs (Some 125) (rp_after 3 (rp_reset \<lparr>rp_base = 1000, rp_max = 30000,
     rp_attempt = 9, rp_enabled = False\<rparr>))) = 8125"
  using reconnect_delays [of "\<lparr>rp_base = 1000, rp_max = 30000, rp_attempt = 9, rp_enabled = False\<rparr>" 125 3]
  by simp

end
