(* ===== verification/TokenStore.thy ===== *)
theory TokenStore
  imports Protocol "HOL-Library.List_Lexorder" "HOL-Library.Char_ord"
begin

text \<open>
  The persisted key-value store of the client's credentials: the blob format and the class
  \<open>JniTokenStore\<close> of \<^verbatim>\<open>jitong_android/app/src/main/cpp/jni_auth_platform.cpp\<close>.

  A \<open>std::map\<close> is an association list in strictly ascending key order (the order of
  \<open>std::string\<close> is the lexicographic order on bytes). The Java bridge that writes the blob is
  a parameter: whether the \<open>n\<close>-th save succeeds.
  The locale \<open>token_store\<close> is the contract of \<open>ITokenStore\<close> that \<open>TokenManager\<close> relies on.
\<close>

section \<open>Ordered maps\<close>

type_synonym kvmap = "(string \<times> string) list"

section \<open>The blob\<close>

definition appendU32 :: "bytes \<Rightarrow> u32 \<Rightarrow> bytes" where
  "appendU32 out value =
     out @ [ucast (drop_bit 24 value AND 0xff), ucast (drop_bit 16 value AND 0xff),
            ucast (drop_bit 8 value AND 0xff), ucast (value AND 0xff)]"

definition readU32 :: "bytes \<Rightarrow> nat \<Rightarrow> (u32 \<times> nat) option" where
  "readU32 inp at =
     (if at + 4 > length inp then None
      else Some (push_bit 24 (ucast (inp ! at)) OR push_bit 16 (ucast (inp ! (at + 1))) OR
                 push_bit 8 (ucast (inp ! (at + 2))) OR ucast (inp ! (at + 3)), at + 4))"

definition encode_item :: "bytes \<Rightarrow> string \<times> string \<Rightarrow> bytes" where
  "encode_item out item =
     appendU32 (appendU32 out (of_nat (length (fst item)))) (of_nat (length (snd item)))
       @ bytes_of (fst item) @ bytes_of (snd item)"

definition blob_magic :: bytes where
  "blob_magic = bytes_of ''JTKV'' @ [1]"

definition encode :: "kvmap \<Rightarrow> bytes" where
  "encode values = foldl encode_item (appendU32 blob_magic (of_nat (length values))) values"

primrec decode_items :: "nat \<Rightarrow> bytes \<Rightarrow> nat \<Rightarrow> kvmap \<Rightarrow> (nat \<times> kvmap) option" where
  "decode_items 0 inp at parsed = Some (at, parsed)"
| "decode_items (Suc n) inp at parsed =
     (case readU32 inp at of
        None \<Rightarrow> None
      | Some (keySize, at1) \<Rightarrow>
          (case readU32 inp at1 of
             None \<Rightarrow> None
           | Some (valueSize, at2) \<Rightarrow>
               if keySize > 1024 \<or> valueSize > 64 * 1024 \<or>
                  at2 + unat keySize + unat valueSize > length inp
               then None
               else
                 let key = text_of (take (unat keySize) (drop at2 inp));
                     at3 = at2 + unat keySize;
                     val = text_of (take (unat valueSize) (drop at3 inp));
                     at4 = at3 + unat valueSize
                 in if key = [] \<or> key \<in> fst ` set parsed then None
                    else decode_items n inp at4 (kv_put key val parsed)))"

definition decode :: "bytes \<Rightarrow> kvmap option" where
  "decode inp =
     (if length inp < 9 \<or> take 5 inp \<noteq> blob_magic then None
      else
        case readU32 inp 5 of
          None \<Rightarrow> None
        | Some (count, at) \<Rightarrow>
            if count > 64 then None
            else (case decode_items (unat count) inp at [] of
                    None \<Rightarrow> None
                  | Some (at, parsed) \<Rightarrow> if at \<noteq> length inp then None else Some parsed))"

text \<open>What the reader accepts of a map: at most 64 entries, no empty key, bounded sizes.\<close>

definition item_fits :: "string \<times> string \<Rightarrow> bool" where
  "item_fits item \<longleftrightarrow>
     fst item \<noteq> [] \<and> length (fst item) \<le> 1024 \<and> length (snd item) \<le> 64 * 1024"

definition u32_bytes :: "u32 \<Rightarrow> bytes" where
  "u32_bytes v = appendU32 [] v"

lemma appendU32_eq: "appendU32 out v = out @ u32_bytes v"
  by (simp add: appendU32_def u32_bytes_def)

lemma length_u32_bytes [simp]: "length (u32_bytes v) = 4"
  by (simp add: u32_bytes_def appendU32_def)

lemma readU32_at:
  "readU32 (xs @ u32_bytes v @ ys) (length xs) = Some (v, length xs + 4)"
  using word32_bytes [of v]
  by (simp add: readU32_def u32_bytes_def appendU32_def nth_append ac_simps)

lemma readU32_at2:
  "length xs = n \<Longrightarrow> readU32 (xs @ u32_bytes v @ ys) n = Some (v, n + 4)"
  using readU32_at by blast

definition item_bytes :: "string \<times> string \<Rightarrow> bytes" where
  "item_bytes item = u32_bytes (of_nat (length (fst item))) @ u32_bytes (of_nat (length (snd item)))
     @ bytes_of (fst item) @ bytes_of (snd item)"

lemma encode_items: "foldl encode_item out kvs = out @ concat (map item_bytes kvs)"
  by (induction kvs arbitrary: out) (simp_all add: encode_item_def item_bytes_def appendU32_eq)

lemma encode_eq:
  "encode kvs = blob_magic @ u32_bytes (of_nat (length kvs)) @ concat (map item_bytes kvs)"
  by (simp add: encode_def encode_items appendU32_eq)

lemma unat_u32_small: "n < 2 ^ 32 \<Longrightarrow> unat (of_nat n :: u32) = n"
  by (simp add: unat_of_nat take_bit_nat_eq_self)

definition small_item :: "string \<times> string \<Rightarrow> bool" where
  "small_item item \<longleftrightarrow> length (fst item) < 2 ^ 32 \<and> length (snd item) < 2 ^ 32"

lemma decode_items_step:
  assumes "small_item it" and "length xs = at"
  shows "decode_items (Suc n) (xs @ item_bytes it @ ys) at parsed =
    (if item_fits it \<and> fst it \<notin> fst ` set parsed
     then decode_items n (xs @ item_bytes it @ ys) (at + length (item_bytes it))
            (kv_put (fst it) (snd it) parsed)
     else None)"
proof -
  obtain k v where it: "it = (k, v)" by fastforce
  let ?K = "u32_bytes (of_nat (length k))" and ?V = "u32_bytes (of_nat (length v))"
  let ?inp = "xs @ ?K @ ?V @ bytes_of k @ bytes_of v @ ys"
  have inp: "xs @ item_bytes it @ ys = ?inp"
    by (simp add: item_bytes_def it)
  have r1: "readU32 ?inp at = Some (of_nat (length k), at + 4)"
    by (rule readU32_at2 [OF assms(2)])
  have r2: "readU32 ?inp (at + 4) = Some (of_nat (length v), at + 8)"
    using readU32_at2 [of "xs @ ?K" "at + 4"] assms(2) by simp
  have uk: "unat (of_nat (length k) :: u32) = length k" "unat (of_nat (length v) :: u32) = length v"
    using assms(1) unat_u32_small by (auto simp: small_item_def it)
  have lim: "(of_nat (length k) :: u32) > 1024 \<longleftrightarrow> length k > 1024"
    "(of_nat (length v) :: u32) > 64 * 1024 \<longleftrightarrow> length v > 64 * 1024"
    using uk by (simp_all add: word_less_nat_alt)
  have key: "text_of (take (length k) (drop (at + 8) ?inp)) = k"
    "text_of (take (length v) (drop (at + 8 + length k) ?inp)) = v"
    using assms(2) by simp_all
  have len: "length (item_bytes it) = 8 + length k + length v"
    by (simp add: item_bytes_def it)
  show ?thesis
    unfolding inp len
    using r1 r2 uk lim key assms(2)
    by (auto simp: it item_fits_def Let_def add.assoc)
qed

lemma decode_items_all:
  "\<forall>it \<in> set kvs. small_item it \<Longrightarrow> length xs = at \<Longrightarrow> kv_ok (parsed @ kvs) \<Longrightarrow>
   decode_items (length kvs) (xs @ concat (map item_bytes kvs)) at parsed =
     (if \<forall>it \<in> set kvs. item_fits it
      then Some (at + length (concat (map item_bytes kvs)), parsed @ kvs) else None)"
proof (induction kvs arbitrary: xs at parsed)
  case (Cons it kvs)
  have less: "\<forall>x \<in> fst ` set parsed. x < fst it"
    using Cons.prems(3) by (auto simp: kv_ok_def sorted_wrt_append)
  then have new: "fst it \<notin> fst ` set parsed"
    and put: "kv_put (fst it) (snd it) parsed = parsed @ [it]"
    by (auto simp: kv_put_last)
  have ok: "kv_ok ((parsed @ [it]) @ kvs)" using Cons.prems(3) by simp
  have "decode_items (length (it # kvs)) (xs @ concat (map item_bytes (it # kvs))) at parsed =
      (if item_fits it
       then decode_items (length kvs) ((xs @ item_bytes it) @ concat (map item_bytes kvs))
              (at + length (item_bytes it)) (parsed @ [it])
       else None)"
    using decode_items_step [of it xs at "length kvs" "concat (map item_bytes kvs)" parsed]
      Cons.prems(1,2) new put by simp
  then show ?case
    using Cons.IH [OF _ _ ok, of "xs @ item_bytes it"] Cons.prems(1,2) by (simp add: add.assoc)
qed simp

lemma magic_length [simp]: "length blob_magic = 5"
  by (simp add: blob_magic_def)

lemma decode_encode:
  assumes "kv_ok kvs" and "\<forall>it \<in> set kvs. small_item it" and "length kvs < 2 ^ 32"
  shows "decode (encode kvs) =
    (if length kvs \<le> 64 \<and> (\<forall>it \<in> set kvs. item_fits it) then Some kvs else None)"
proof -
  let ?c = "of_nat (length kvs) :: u32"
  have c: "unat ?c = length kvs" by (rule unat_u32_small [OF assms(3)])
  have lim: "?c > 64 \<longleftrightarrow> length kvs > 64"
    using c by (simp add: word_less_nat_alt)
  have r: "readU32 (encode kvs) 5 = Some (?c, 9)"
    unfolding encode_eq using readU32_at2 [of blob_magic 5] by simp
  have d: "decode_items (length kvs) (encode kvs) 9 [] =
      (if \<forall>it \<in> set kvs. item_fits it then Some (length (encode kvs), kvs) else None)"
    using decode_items_all [OF assms(2), of "blob_magic @ u32_bytes ?c" 9 "[]"] assms(1)
    by (simp add: encode_eq)
  have "9 \<le> length (encode kvs)" "take 5 (encode kvs) = blob_magic"
    by (simp_all add: encode_eq)
  then show ?thesis
    using r d c lim by (simp add: decode_def)
qed

text \<open>
  C36: what the credential blob gives back. Reading a written blob returns exactly the map that
  was written when it has at most 64 entries, none with an empty key, keys up to 1024 and values
  up to 65536 bytes; otherwise the whole blob is rejected, although writing it succeeded.
\<close>

theorem token_blob_roundtrip:
  assumes "kv_ok kvs" and "\<forall>it \<in> set kvs. small_item it" and "length kvs < 2 ^ 32"
  shows "decode (encode kvs) =
    (if length kvs \<le> 64 \<and> (\<forall>it \<in> set kvs. item_fits it) then Some kvs else None)"
  using assms by (rule decode_encode)

theorem token_blob_roundtrip_witness:
  "decode (encode [(''a'', ''1''), (''b'', '''')]) = Some [(''a'', ''1''), (''b'', '''')]"
  using token_blob_roundtrip [of "[(''a'', ''1''), (''b'', '''')]"]
  by (simp add: kv_ok_def small_item_def item_fits_def less_char_def)

section \<open>JniTokenStore\<close>

record jni_store =
  js_values :: kvmap
  js_disk :: "bytes option"
  js_saves :: nat

text \<open>\<open>ok n\<close> says whether the bridge completes the \<open>n\<close>-th save; a failed save writes nothing.\<close>

definition js_open :: "bytes option \<Rightarrow> jni_store" where
  "js_open disk =
     \<lparr>js_values = (case disk of None \<Rightarrow> [] | Some b \<Rightarrow> (case decode b of None \<Rightarrow> [] | Some m \<Rightarrow> m)),
      js_disk = disk, js_saves = 0\<rparr>"

definition js_get :: "jni_store \<Rightarrow> string \<Rightarrow> string option" where
  "js_get s key = map_of (js_values s) key"

definition js_persist :: "(nat \<Rightarrow> bool) \<Rightarrow> kvmap \<Rightarrow> jni_store \<Rightarrow> bool \<times> jni_store" where
  "js_persist ok m s =
     (let s' = s\<lparr>js_saves := js_saves s + 1\<rparr> in
      if ok (js_saves s) then (True, s'\<lparr>js_disk := Some (encode m)\<rparr>) else (False, s'))"

definition js_apply ::
  "(nat \<Rightarrow> bool) \<Rightarrow> (string \<times> string) list \<Rightarrow> string list \<Rightarrow> jni_store \<Rightarrow> bool \<times> jni_store" where
  "js_apply ok puts removes s =
     (let nxt = foldl (\<lambda>m (k, v). kv_put k v m) (js_values s) puts;
          nxt = foldl (\<lambda>m k. kv_erase k m) nxt removes
      in case js_persist ok nxt s of
           (False, s') \<Rightarrow> (False, s')
         | (True, s') \<Rightarrow> (True, s'\<lparr>js_values := nxt\<rparr>))"

definition js_put :: "(nat \<Rightarrow> bool) \<Rightarrow> string \<Rightarrow> string \<Rightarrow> jni_store \<Rightarrow> bool \<times> jni_store" where
  "js_put ok key value s = js_apply ok [(key, value)] [] s"

definition js_remove :: "(nat \<Rightarrow> bool) \<Rightarrow> string \<Rightarrow> jni_store \<Rightarrow> bool \<times> jni_store" where
  "js_remove ok key s = js_apply ok [] [key] s"

definition js_clearAll :: "(nat \<Rightarrow> bool) \<Rightarrow> jni_store \<Rightarrow> bool \<times> jni_store" where
  "js_clearAll ok s =
     (case js_persist ok [] s of
        (False, s') \<Rightarrow> (False, s')
      | (True, s') \<Rightarrow> (True, s'\<lparr>js_values := []\<rparr>))"

section \<open>The contract of a token store\<close>

text \<open>What the store holds after a batch: the puts in order, then the removals.\<close>

definition batch :: "(string \<rightharpoonup> string) \<Rightarrow> (string \<times> string) list \<Rightarrow> string list \<Rightarrow> (string \<rightharpoonup> string)" where
  "batch m puts removes = (\<lambda>k. if k \<in> set removes then None else (m ++ map_of (rev puts)) k)"

locale token_store =
  fixes get :: "'s \<Rightarrow> string \<rightharpoonup> string"
    and apply_batch :: "(string \<times> string) list \<Rightarrow> string list \<Rightarrow> 's \<Rightarrow> bool \<times> 's"
  assumes apply_ok: "apply_batch puts removes s = (True, s') \<Longrightarrow> get s' = batch (get s) puts removes"
    and apply_fail: "apply_batch puts removes s = (False, s') \<Longrightarrow> get s' = get s"
begin

text \<open>All or nothing, in one equation.\<close>

lemma apply_get:
  "get (snd (apply_batch puts removes s)) =
     (if fst (apply_batch puts removes s) then batch (get s) puts removes else get s)"
  by (cases "apply_batch puts removes s"; cases "fst (apply_batch puts removes s)")
    (auto dest: apply_ok apply_fail)

text \<open>A batch does not touch the keys it does not name.\<close>

lemma apply_other:
  "k \<notin> fst ` set puts \<Longrightarrow> k \<notin> set removes \<Longrightarrow> get (snd (apply_batch puts removes s)) k = get s k"
  by (force simp: apply_get batch_def map_add_def split: option.splits dest: map_of_SomeD)

end

lemma js_get_values: "js_get s = map_of (js_values s)"
  by (simp add: js_get_def fun_eq_iff)

lemma map_of_puts: "map_of (foldl (\<lambda>m (k, v). kv_put k v m) m puts) = map_of m ++ map_of (rev puts)"
  by (induction puts arbitrary: m) (auto simp: map_of_kv_put map_add_def fun_eq_iff split: option.splits)

lemma map_of_removes:
  "map_of (foldl (\<lambda>m k. kv_erase k m) m removes) = (\<lambda>k. if k \<in> set removes then None else map_of m k)"
  by (induction removes arbitrary: m) (auto simp: map_of_kv_erase fun_eq_iff)

interpretation jni: token_store js_get "js_apply ok" for ok
proof unfold_locales
  fix puts removes s s'
  assume "js_apply ok puts removes s = (True, s')"
  then show "js_get s' = batch (js_get s) puts removes"
    by (auto simp: js_apply_def js_persist_def js_get_values batch_def map_of_puts map_of_removes Let_def
        split: if_splits)
next
  fix puts removes s s'
  assume "js_apply ok puts removes s = (False, s')"
  then show "js_get s' = js_get s"
    by (auto simp: js_apply_def js_persist_def js_get_values Let_def split: if_splits)
qed

text \<open>The map in memory is ordered, and the disk holds it whenever a save has succeeded.\<close>

definition js_inv :: "jni_store \<Rightarrow> bool" where
  "js_inv s \<longleftrightarrow> kv_ok (js_values s) \<and> (\<forall>b. js_disk s = Some b \<longrightarrow> b = encode (js_values s))"

lemma puts_ok: "kv_ok m \<Longrightarrow> kv_ok (foldl (\<lambda>m (k, v). kv_put k v m) m puts)"
  by (induction puts arbitrary: m) (auto simp: kv_put_ok)

lemma removes_ok: "kv_ok m \<Longrightarrow> kv_ok (foldl (\<lambda>m k. kv_erase k m) m removes)"
  by (induction removes arbitrary: m) (auto simp: kv_erase_ok)

lemma js_apply_inv: "js_inv s \<Longrightarrow> js_inv (snd (js_apply ok puts removes s))"
  by (auto simp: js_inv_def js_apply_def js_persist_def Let_def puts_ok removes_ok)

lemma js_clearAll_inv: "js_inv s \<Longrightarrow> js_inv (snd (js_clearAll ok s))"
  by (auto simp: js_inv_def js_clearAll_def js_persist_def kv_ok_def Let_def)

lemma js_reopen:
  assumes "js_inv s" and "js_disk s = Some b" and "length (js_values s) \<le> 64"
    and "\<forall>it \<in> set (js_values s). item_fits it"
  shows "js_get (js_open (js_disk s)) = js_get s"
proof -
  have "\<forall>it \<in> set (js_values s). small_item it"
    using assms(4) by (auto simp: item_fits_def small_item_def)
  then have "decode b = Some (js_values s)"
    using decode_encode assms by (simp add: js_inv_def)
  then show ?thesis
    using assms(2) by (simp add: js_get_def js_open_def fun_eq_iff)
qed

end
