(* ===== verification/TokenManager.thy ===== *)
theory TokenManager
  imports TokenStore
begin

text \<open>
  \<^verbatim>\<open>client_core/src/account/TokenManager.cpp\<close>: the credentials in memory, their
  persistence under one namespace per account, expiry, and the single-flight refresh whose
  request id survives a restart.

  The store is the record of the two \<open>ITokenStore\<close> operations the class calls; the clock is
  an argument. The locale \<open>token_manager\<close> proves the class correct over any store that keeps
  the contract; it is interpreted on \<open>JniTokenStore\<close>.
\<close>

section \<open>State\<close>

record 's store_ops =
  so_get :: "'s \<Rightarrow> string \<rightharpoonup> string"
  so_apply :: "(string \<times> string) list \<Rightarrow> string list \<Rightarrow> 's \<Rightarrow> bool \<times> 's"

record token_session =
  ts_access :: string
  ts_refresh :: string
  ts_accessExp :: int
  ts_refreshExp :: int
  ts_sid :: string
  ts_account :: string

record 's tokmgr =
  tm_store :: 's
  tm_skew :: int
  tm_session :: token_session
  tm_inflight :: bool
  tm_reqid :: string
  tm_seq :: u64

definition empty_session :: token_session where
  "empty_session = \<lparr>ts_access = [], ts_refresh = [], ts_accessExp = 0, ts_refreshExp = 0,
     ts_sid = [], ts_account = []\<rparr>"

definition session_valid :: "token_session \<Rightarrow> bool" where
  "session_valid s \<longleftrightarrow> ts_access s \<noteq> [] \<and> ts_refresh s \<noteq> []"

definition tm_new :: "int \<Rightarrow> 's \<Rightarrow> 's tokmgr" where
  "tm_new skew st = \<lparr>tm_store = st, tm_skew = skew, tm_session = empty_session, tm_inflight = False,
     tm_reqid = [], tm_seq = 0\<rparr>"

section \<open>Parsing the stored expiry times\<close>

definition is_space :: "char \<Rightarrow> bool" where
  "is_space c \<longleftrightarrow> of_char c \<in> {32, 9, 10, 11, 12, 13 :: nat}"

text \<open>\<open>std::stoll\<close>: the value and the number of characters consumed, or an exception.\<close>

definition stoll :: "string \<Rightarrow> (int \<times> nat) option" where
  "stoll s =
     (let r = dropWhile is_space s;
          neg = (r \<noteq> [] \<and> hd r = CHR ''-'');
          d = (if r \<noteq> [] \<and> (hd r = CHR ''-'' \<or> hd r = CHR ''+'') then tl r else r);
          ds = takeWhile is_digit d;
          v = (if neg then - int (digits_val ds) else int (digits_val ds))
      in if ds = [] \<or> v < - (2 ^ 63) \<or> v \<ge> 2 ^ 63 then None
         else Some (v, length s - length d + length ds))"

definition parsePositiveInt :: "string \<Rightarrow> int option" where
  "parsePositiveInt s =
     (case stoll s of
        None \<Rightarrow> None
      | Some (value, consumed) \<Rightarrow> if consumed \<noteq> length s \<or> value \<le> 0 then None else Some value)"

lemma digit_not_space: "is_digit c \<Longrightarrow> \<not> is_space c \<and> c \<noteq> CHR ''-'' \<and> c \<noteq> CHR ''+''"
  by (auto simp: is_digit_def is_space_def)

lemma parse_int_str:
  assumes "0 < n" and "n < 2 ^ 63"
  shows "parsePositiveInt (int_str n) = Some n"
proof -
  obtain c cs where s: "nat_str (nat n) = c # cs" and d: "is_digit c" "\<forall>x \<in> set cs. is_digit x"
    using nat_str_digits [of "nat n"] by (cases "nat_str (nat n)") auto
  have all: "takeWhile is_digit (c # cs) = c # cs"
    using d by (simp add: takeWhile_eq_all_conv)
  have v: "digits_val (c # cs) = nat n"
    by (metis s digits_val_nat_str)
  have i: "int_str n = c # cs"
    using assms s by (simp add: int_str_def)
  have "stoll (c # cs) = Some (n, length (c # cs))"
    using digit_not_space [OF d(1)] v assms unfolding stoll_def Let_def
    by (simp add: all del: takeWhile.simps)
  then show ?thesis
    unfolding i parsePositiveInt_def using assms by simp
qed

section \<open>Operations\<close>

definition key_of :: "string \<Rightarrow> string \<Rightarrow> string" where
  "key_of account suffix = ''tok:'' @ account @ '':'' @ suffix"

abbreviation "kAccess \<equiv> ''access''"
abbreviation "kRefresh \<equiv> ''refresh''"
abbreviation "kAccessExp \<equiv> ''access_exp''"
abbreviation "kRefreshExp \<equiv> ''refresh_exp''"
abbreviation "kSession \<equiv> ''session_id''"
abbreviation "kRefreshReqId \<equiv> ''refresh_request_id''"

definition keyOf :: "'s tokmgr \<Rightarrow> string \<Rightarrow> string" where
  "keyOf t suffix = key_of (ts_account (tm_session t)) suffix"

definition clearMemory :: "'s tokmgr \<Rightarrow> 's tokmgr" where
  "clearMemory t = t\<lparr>tm_session := empty_session\<lparr>ts_account := ts_account (tm_session t)\<rparr>,
     tm_inflight := False, tm_reqid := []\<rparr>"

definition revokeFamily :: "'s store_ops \<Rightarrow> 's tokmgr \<Rightarrow> bool \<times> 's tokmgr" where
  "revokeFamily ops t =
     (let (removed, st) = so_apply ops []
            [keyOf t kAccess, keyOf t kRefresh, keyOf t kAccessExp, keyOf t kRefreshExp,
             keyOf t kSession, keyOf t kRefreshReqId] (tm_store t)
      in (removed, clearMemory (t\<lparr>tm_store := st\<rparr>)))"

definition refreshExpired :: "int \<Rightarrow> 's tokmgr \<Rightarrow> bool" where
  "refreshExpired now t \<longleftrightarrow> ts_refreshExp (tm_session t) \<le> 0 \<or> now \<ge> ts_refreshExp (tm_session t)"

definition loadFromStore :: "'s store_ops \<Rightarrow> int \<Rightarrow> string \<Rightarrow> 's tokmgr \<Rightarrow> bool \<times> 's tokmgr" where
  "loadFromStore ops now account t =
     (let t = t\<lparr>tm_session := empty_session\<lparr>ts_account := account\<rparr>\<rparr>;
          g = so_get ops (tm_store t)
      in case (g (keyOf t kAccess), g (keyOf t kRefresh), g (keyOf t kAccessExp),
               g (keyOf t kRefreshExp), g (keyOf t kSession)) of
           (Some access, Some refresh, Some accExp, Some refExp, Some sess) \<Rightarrow>
             (case (parsePositiveInt accExp, parsePositiveInt refExp) of
                (Some ae, Some re) \<Rightarrow>
                  if access = [] \<or> refresh = [] \<or> sess = [] then (False, snd (revokeFamily ops t))
                  else
                    let t = t\<lparr>tm_session := (tm_session t)\<lparr>ts_access := access, ts_refresh := refresh,
                              ts_accessExp := ae, ts_refreshExp := re, ts_sid := sess\<rparr>\<rparr>;
                        t = (case g (keyOf t kRefreshReqId) of
                               None \<Rightarrow> t
                             | Some reqid \<Rightarrow>
                                 if reqid \<noteq> [] then t\<lparr>tm_reqid := reqid, tm_inflight := True\<rparr> else t)
                    in if refreshExpired now t then (False, snd (revokeFamily ops t))
                       else (session_valid (tm_session t), t)
              | _ \<Rightarrow> (False, snd (revokeFamily ops t)))
         | _ \<Rightarrow> (False, snd (revokeFamily ops t)))"

definition tm_persist :: "'s store_ops \<Rightarrow> bool \<Rightarrow> 's tokmgr \<Rightarrow> bool \<times> 's" where
  "tm_persist ops clearPending t =
     (let s = tm_session t;
          puts = [(keyOf t kAccess, ts_access s), (keyOf t kRefresh, ts_refresh s),
                  (keyOf t kAccessExp, int_str (ts_accessExp s)),
                  (keyOf t kRefreshExp, int_str (ts_refreshExp s)), (keyOf t kSession, ts_sid s)];
          removes = (if clearPending then [keyOf t kRefreshReqId] else [])
      in so_apply ops puts removes (tm_store t))"

definition adopt :: "'s store_ops \<Rightarrow> token_session \<Rightarrow> 's tokmgr \<Rightarrow> bool \<times> 's tokmgr" where
  "adopt ops session t =
     (let previous = tm_session t;
          t = t\<lparr>tm_session := session\<rparr>;
          (ok, st) = tm_persist ops True t;
          t = t\<lparr>tm_store := st\<rparr>
      in if \<not> ok then (False, t\<lparr>tm_session := previous\<rparr>)
         else (True, t\<lparr>tm_inflight := False, tm_reqid := []\<rparr>))"

definition rotateTokens ::
  "'s store_ops \<Rightarrow> string \<Rightarrow> string \<Rightarrow> int \<Rightarrow> int \<Rightarrow> string \<Rightarrow> 's tokmgr \<Rightarrow> bool \<times> 's tokmgr" where
  "rotateTokens ops newAccess newRefresh accessExp refreshExp sid t =
     (let previous = tm_session t;
          s = previous\<lparr>ts_access := newAccess, ts_refresh := newRefresh,
                ts_accessExp := accessExp, ts_refreshExp := refreshExp\<rparr>;
          s = (if sid \<noteq> [] then s\<lparr>ts_sid := sid\<rparr> else s);
          t = t\<lparr>tm_session := s\<rparr>;
          (ok, st) = tm_persist ops True t;
          t = t\<lparr>tm_store := st\<rparr>
      in if \<not> ok then (False, t\<lparr>tm_session := previous\<rparr>)
         else (True, t\<lparr>tm_inflight := False, tm_reqid := []\<rparr>))"

definition accessNeedsRefresh :: "int \<Rightarrow> 's tokmgr \<Rightarrow> bool" where
  "accessNeedsRefresh now t \<longleftrightarrow>
     session_valid (tm_session t) \<and> now + tm_skew t \<ge> ts_accessExp (tm_session t)"

definition accessUsable :: "int \<Rightarrow> 's tokmgr \<Rightarrow> bool" where
  "accessUsable now t \<longleftrightarrow>
     session_valid (tm_session t) \<and> now + tm_skew t < ts_accessExp (tm_session t)"

definition beginRefresh :: "'s store_ops \<Rightarrow> int \<Rightarrow> 's tokmgr \<Rightarrow> string \<times> 's tokmgr" where
  "beginRefresh ops now t =
     (if tm_inflight t \<and> tm_reqid t \<noteq> [] then (tm_reqid t, t)
      else
        let rid = ''rf-'' @ ts_account (tm_session t) @ ''-'' @ ts_sid (tm_session t) @ ''-''
                    @ nat_str (unat (tm_seq t + 1)) @ ''-'' @ int_str now;
            (ok, st) = so_apply ops [(keyOf t kRefreshReqId, rid)] [] (tm_store t);
            t = t\<lparr>tm_store := st\<rparr>
        in if \<not> ok then ([], t)
           else (rid, t\<lparr>tm_seq := tm_seq t + 1, tm_reqid := rid, tm_inflight := True\<rparr>))"

definition completeRefresh :: "'s store_ops \<Rightarrow> 's tokmgr \<Rightarrow> bool \<times> 's tokmgr" where
  "completeRefresh ops t =
     (let (ok, st) = so_apply ops [] [keyOf t kRefreshReqId] (tm_store t);
          t = t\<lparr>tm_store := st\<rparr>
      in if \<not> ok then (False, t) else (True, t\<lparr>tm_inflight := False, tm_reqid := []\<rparr>))"

definition suspendRefresh :: "'s tokmgr \<Rightarrow> 's tokmgr" where
  "suspendRefresh t = t"

definition cancelRefresh :: "'s store_ops \<Rightarrow> 's tokmgr \<Rightarrow> bool \<times> 's tokmgr" where
  "cancelRefresh ops t = completeRefresh ops t"

section \<open>Keys\<close>

text \<open>No suffix contains a colon, so a key determines its account and its suffix.\<close>

abbreviation "suffixes \<equiv> {kAccess, kRefresh, kAccessExp, kRefreshExp, kSession, kRefreshReqId}"

lemma split_last_colon:
  "CHR '':'' \<notin> set s \<Longrightarrow> CHR '':'' \<notin> set s' \<Longrightarrow>
   a @ '':'' @ s = a' @ '':'' @ s' \<longleftrightarrow> a = a' \<and> s = s'"
proof -
  assume s: "CHR '':'' \<notin> set s" and s': "CHR '':'' \<notin> set s'"
  have "takeWhile (\<lambda>c. c \<noteq> CHR '':'') (rev (b @ '':'' @ r)) = rev r \<and>
      length (rev (b @ '':'' @ r)) = length b + 1 + length r" if "CHR '':'' \<notin> set r" for b r
    using that by (auto simp: takeWhile_append)
  then show ?thesis
    using s s' by (metis append_same_eq rev_rev_ident)
qed

lemma key_of_inject:
  assumes "s \<in> suffixes" and "s' \<in> suffixes"
  shows "key_of a s = key_of a' s' \<longleftrightarrow> a = a' \<and> s = s'"
proof -
  have "CHR '':'' \<notin> set x" if "x \<in> suffixes" for x
    using that by auto
  then show ?thesis
    unfolding key_of_def using split_last_colon [of s s' a a'] assms by simp
qed

section \<open>The class over a store that keeps its contract\<close>

text \<open>A login result the manager can restore: tokens and id present, times positive 64-bit numbers.\<close>

definition restorable :: "int \<Rightarrow> token_session \<Rightarrow> bool" where
  "restorable now s \<longleftrightarrow>
     session_valid s \<and> ts_sid s \<noteq> [] \<and> 0 < ts_accessExp s \<and> ts_accessExp s < 2 ^ 63 \<and>
     0 < ts_refreshExp s \<and> ts_refreshExp s < 2 ^ 63 \<and> now < ts_refreshExp s"

definition holds :: "('s \<Rightarrow> string \<rightharpoonup> string) \<Rightarrow> 's \<Rightarrow> token_session \<Rightarrow> bool" where
  "holds g st s \<longleftrightarrow>
     g st (key_of (ts_account s) kAccess) = Some (ts_access s) \<and>
     g st (key_of (ts_account s) kRefresh) = Some (ts_refresh s) \<and>
     g st (key_of (ts_account s) kAccessExp) = Some (int_str (ts_accessExp s)) \<and>
     g st (key_of (ts_account s) kRefreshExp) = Some (int_str (ts_refreshExp s)) \<and>
     g st (key_of (ts_account s) kSession) = Some (ts_sid s)"

locale token_manager = token_store "so_get ops" "so_apply ops" for ops :: "'s store_ops"
begin

lemma persist_holds:
  assumes "tm_persist ops True t = (True, st)"
  shows "holds (so_get ops) st (tm_session t) \<and> so_get ops st (keyOf t kRefreshReqId) = None"
proof -
  let ?a = "ts_account (tm_session t)"
  have "so_get ops st = batch (so_get ops (tm_store t))
      [(key_of ?a kAccess, ts_access (tm_session t)), (key_of ?a kRefresh, ts_refresh (tm_session t)),
       (key_of ?a kAccessExp, int_str (ts_accessExp (tm_session t))),
       (key_of ?a kRefreshExp, int_str (ts_refreshExp (tm_session t))),
       (key_of ?a kSession, ts_sid (tm_session t))] [key_of ?a kRefreshReqId]"
    using assms by (simp add: tm_persist_def keyOf_def Let_def apply_ok)
  then show ?thesis
    by (simp add: holds_def keyOf_def batch_def key_of_inject)
qed

lemma load_holds:
  assumes "holds (so_get ops) (tm_store t) s" and "restorable now s"
  shows "loadFromStore ops now (ts_account s) t =
    (True, case so_get ops (tm_store t) (key_of (ts_account s) kRefreshReqId) of
       None \<Rightarrow> t\<lparr>tm_session := s\<rparr>
     | Some r \<Rightarrow> if r = [] then t\<lparr>tm_session := s\<rparr>
         else t\<lparr>tm_session := s, tm_reqid := r, tm_inflight := True\<rparr>)"
proof -
  have p: "parsePositiveInt (int_str (ts_accessExp s)) = Some (ts_accessExp s)"
    "parsePositiveInt (int_str (ts_refreshExp s)) = Some (ts_refreshExp s)"
    using assms(2) by (simp_all add: restorable_def parse_int_str)
  then show ?thesis
    using assms
    by (cases s) (auto simp: loadFromStore_def holds_def restorable_def keyOf_def
        session_valid_def refreshExpired_def empty_session_def Let_def split: option.splits)
qed

lemma adopt_cases:
  "adopt ops s t = (True, t') \<Longrightarrow>
     tm_persist ops True (t\<lparr>tm_session := s\<rparr>) = (True, tm_store t') \<and>
     t' = t\<lparr>tm_session := s, tm_store := tm_store t', tm_inflight := False, tm_reqid := []\<rparr>"
  by (auto simp: adopt_def Let_def split: prod.splits if_splits)

lemma persist_fail:
  "tm_persist ops c t = (False, st) \<Longrightarrow> so_get ops st = so_get ops (tm_store t)"
  unfolding tm_persist_def Let_def by (rule apply_fail)

lemma adopt_fail:
  assumes "adopt ops s t = (False, t')"
  shows "so_get ops (tm_store t') = so_get ops (tm_store t) \<and> t' = t\<lparr>tm_store := tm_store t'\<rparr>"
proof (cases "tm_persist ops True (t\<lparr>tm_session := s\<rparr>)")
  case (Pair ok st)
  then have "\<not> ok" "t' = t\<lparr>tm_store := st\<rparr>"
    using assms by (auto simp: adopt_def Let_def split: if_splits)
  then show ?thesis using persist_fail [of True "t\<lparr>tm_session := s\<rparr>" st] Pair by simp
qed

lemma rotateTokens_fail:
  assumes "rotateTokens ops acc ref ae re sid t = (False, t')"
  shows "so_get ops (tm_store t') = so_get ops (tm_store t) \<and> t' = t\<lparr>tm_store := tm_store t'\<rparr>"
proof -
  define s where "s = (tm_session t)\<lparr>ts_access := acc, ts_refresh := ref, ts_accessExp := ae, ts_refreshExp := re\<rparr>"
  define s' where "s' = (if sid \<noteq> [] then s\<lparr>ts_sid := sid\<rparr> else s)"
  have r: "rotateTokens ops acc ref ae re sid t = adopt ops s' t"
    by (simp only: rotateTokens_def adopt_def s_def s'_def Let_def)
  show ?thesis using assms unfolding r by (rule adopt_fail)
qed

lemma complete_fail:
  assumes "completeRefresh ops t = (False, t')"
  shows "so_get ops (tm_store t') = so_get ops (tm_store t) \<and> t' = t\<lparr>tm_store := tm_store t'\<rparr>"
  using assms
  by (cases "so_apply ops [] [keyOf t kRefreshReqId] (tm_store t)")
    (auto simp: completeRefresh_def Let_def dest: apply_fail split: if_splits)

lemma begin_fail:
  assumes "beginRefresh ops now t = ([], t')"
  shows "so_get ops (tm_store t') = so_get ops (tm_store t) \<and> t' = t\<lparr>tm_store := tm_store t'\<rparr>"
  using assms
  by (auto simp: beginRefresh_def Let_def dest: apply_fail split: prod.splits if_splits)

lemma begin_cases:
  assumes "beginRefresh ops now t = (rid, t')" and "rid \<noteq> []" and "\<not> (tm_inflight t \<and> tm_reqid t \<noteq> [])"
  shows "so_get ops (tm_store t') = (so_get ops (tm_store t))(keyOf t kRefreshReqId \<mapsto> rid) \<and>
         tm_session t' = tm_session t \<and> tm_reqid t' = rid \<and> tm_inflight t'"
  using assms
  by (auto simp: beginRefresh_def Let_def batch_def dest!: apply_ok split: prod.splits if_splits)

end

section \<open>On the Android store\<close>

definition jni_ops :: "(nat \<Rightarrow> bool) \<Rightarrow> jni_store store_ops" where
  "jni_ops ok = \<lparr>so_get = js_get, so_apply = js_apply ok\<rparr>"

interpretation jni_tm: token_manager "jni_ops ok" for ok
proof -
  have "token_store js_get (js_apply ok)" by (rule jni.token_store_axioms)
  then show "token_manager (jni_ops ok)"
    by (simp add: token_manager_def jni_ops_def)
qed

lemma jni_get [simp]: "so_get (jni_ops ok) = js_get"
  by (simp add: jni_ops_def)

lemma jni_apply [simp]: "so_apply (jni_ops ok) = js_apply ok"
  by (simp add: jni_ops_def)

text \<open>The store can be read back when the process starts again.\<close>

definition reopenable :: "jni_store \<Rightarrow> bool" where
  "reopenable s \<longleftrightarrow> length (js_values s) \<le> 64 \<and> (\<forall>it \<in> set (js_values s). item_fits it)"

lemma js_apply_disk: "js_apply ok puts removes s = (True, s') \<Longrightarrow> js_disk s' = Some (encode (js_values s'))"
  by (auto simp: js_apply_def js_persist_def Let_def split: if_splits)

lemma js_apply_inv': "js_inv s \<Longrightarrow> js_apply ok puts removes s = (b, s') \<Longrightarrow> js_inv s'"
  using js_apply_inv [of s ok puts removes] by simp

lemma adopt_store:
  assumes "adopt (jni_ops ok) s t = (True, t')" and "js_inv (tm_store t)"
  shows "holds js_get (tm_store t') s \<and> js_get (tm_store t') (key_of (ts_account s) kRefreshReqId) = None \<and>
    js_inv (tm_store t') \<and> js_disk (tm_store t') \<noteq> None \<and> tm_session t' = s \<and> \<not> tm_inflight t' \<and>
    tm_seq t' = tm_seq t"
proof -
  have p: "tm_persist (jni_ops ok) True (t\<lparr>tm_session := s\<rparr>) = (True, tm_store t')"
    and t': "t' = t\<lparr>tm_session := s, tm_store := tm_store t', tm_inflight := False, tm_reqid := []\<rparr>"
    using jni_tm.adopt_cases [OF assms(1)] by auto
  from p have "js_inv (tm_store t')" "js_disk (tm_store t') \<noteq> None"
    using assms(2) js_apply_inv' js_apply_disk by (auto simp: tm_persist_def Let_def)
  then show ?thesis
    using jni_tm.persist_holds [OF p] arg_cong [OF t', of tm_session] arg_cong [OF t', of tm_inflight]
      arg_cong [OF t', of tm_seq]
    by (simp add: keyOf_def)
qed

lemma reopen_get:
  "js_inv s \<Longrightarrow> reopenable s \<Longrightarrow> js_disk s \<noteq> None \<Longrightarrow> js_get (js_open (js_disk s)) = js_get s"
  using js_reopen [of s] by (auto simp: reopenable_def)

lemma holds_cong: "js_get st = js_get st' \<Longrightarrow> holds js_get st s = holds js_get st' s"
  by (simp add: holds_def)

text \<open>
  C34: a login survives the process. Once a login result has been adopted, a new process that
  opens the store from the blob on disk and loads the account has the very same session - tokens,
  expiry times and session id - and no refresh in flight.
\<close>

theorem login_survives_restart:
  assumes "adopt (jni_ops ok) s t = (True, t')" and "js_inv (tm_store t)"
    and "restorable now s" and "reopenable (tm_store t')"
  shows "let u = tm_new skew (js_open (js_disk (tm_store t')))
         in loadFromStore (jni_ops ok') now (ts_account s) u = (True, u\<lparr>tm_session := s\<rparr>)"
proof -
  let ?st = "js_open (js_disk (tm_store t'))"
  note a = adopt_store [OF assms(1,2)]
  have g: "js_get ?st = js_get (tm_store t')"
    using a assms(4) reopen_get by blast
  then have "holds js_get ?st s"
    using a holds_cong by blast
  then show ?thesis
    using jni_tm.load_holds [of ok' "tm_new skew ?st" s now] assms(3) a g
    by (simp add: Let_def tm_new_def)
qed

abbreviation demo_session :: token_session where
  "demo_session \<equiv> \<lparr>ts_access = ''A'', ts_refresh = ''R'', ts_accessExp = 50, ts_refreshExp = 90,
     ts_sid = ''s'', ts_account = ''u''\<rparr>"

lemma js_inv_open [simp]: "js_inv (js_open None)"
  by (simp add: js_inv_def js_open_def kv_ok_def)

lemma puts_bounds:
  "length (foldl (\<lambda>m (k, v). kv_put k v m) m puts) \<le> length m + length puts \<and>
   set (foldl (\<lambda>m (k, v). kv_put k v m) m puts) \<subseteq> set m \<union> set puts"
proof (induction puts arbitrary: m)
  case (Cons p puts)
  obtain k v where p: "p = (k, v)" by fastforce
  show ?case
    using Cons [of "kv_put k v m"] length_kv_put [of k v m] set_kv_put [of k v m] by (auto simp: p)
qed simp

lemma removes_bounds:
  "length (foldl (\<lambda>m k. kv_erase k m) m removes) \<le> length m \<and>
   set (foldl (\<lambda>m k. kv_erase k m) m removes) \<subseteq> set m"
proof (induction removes arbitrary: m)
  case (Cons k removes)
  show ?case
    using Cons [of "kv_erase k m"] length_kv_erase [of k m] set_kv_erase [of k m] by auto
qed simp

lemma js_apply_bounds:
  assumes "js_apply ok puts removes s = (True, s')"
  shows "length (js_values s') \<le> length (js_values s) + length puts \<and>
         set (js_values s') \<subseteq> set (js_values s) \<union> set puts"
proof -
  let ?m = "foldl (\<lambda>m (k, v). kv_put k v m) (js_values s) puts"
  let ?n = "foldl (\<lambda>m k. kv_erase k m) ?m removes"
  have v: "js_values s' = ?n"
    using assms(1) by (auto simp: js_apply_def js_persist_def Let_def split: if_splits)
  have "length ?n \<le> length ?m" "length ?m \<le> length (js_values s) + length puts"
    and sub: "set ?n \<subseteq> set (js_values s) \<union> set puts"
    using puts_bounds [of "js_values s" puts] removes_bounds [of ?m removes] by blast+
  then show ?thesis
    unfolding v by linarith
qed

lemma js_apply_reopenable:
  assumes "js_apply ok puts removes s = (True, s')"
    and "length (js_values s) + length puts \<le> 64" and "\<forall>it \<in> set (js_values s) \<union> set puts. item_fits it"
  shows "reopenable s'"
  using js_apply_bounds [OF assms(1)] assms(2,3) unfolding reopenable_def by (meson le_trans subsetD)

lemma adopt_reopenable:
  assumes "adopt (jni_ops ok) s t = (True, t')" and "length (js_values (tm_store t)) \<le> 59"
    and "\<forall>it \<in> set (js_values (tm_store t)). item_fits it"
    and "length (ts_account s) \<le> 1000" and "length (ts_access s) \<le> 65536"
    and "length (ts_refresh s) \<le> 65536" and "length (ts_sid s) \<le> 65536"
    and "length (int_str (ts_accessExp s)) \<le> 65536" and "length (int_str (ts_refreshExp s)) \<le> 65536"
  shows "reopenable (tm_store t') \<and> length (js_values (tm_store t')) \<le> length (js_values (tm_store t)) + 5"
proof -
  let ?puts = "[(keyOf (t\<lparr>tm_session := s\<rparr>) kAccess, ts_access s), (keyOf (t\<lparr>tm_session := s\<rparr>) kRefresh, ts_refresh s),
    (keyOf (t\<lparr>tm_session := s\<rparr>) kAccessExp, int_str (ts_accessExp s)),
    (keyOf (t\<lparr>tm_session := s\<rparr>) kRefreshExp, int_str (ts_refreshExp s)), (keyOf (t\<lparr>tm_session := s\<rparr>) kSession, ts_sid s)]"
  have "tm_persist (jni_ops ok) True (t\<lparr>tm_session := s\<rparr>) = (True, tm_store t')"
    using jni_tm.adopt_cases [OF assms(1)] by simp
  then have a: "js_apply ok ?puts [keyOf (t\<lparr>tm_session := s\<rparr>) kRefreshReqId] (tm_store t) = (True, tm_store t')"
    by (simp add: tm_persist_def Let_def)
  have "reopenable (tm_store t')"
    by (rule js_apply_reopenable [OF a]) (use assms in \<open>auto simp: item_fits_def keyOf_def key_of_def\<close>)
  then show ?thesis
    using js_apply_bounds [OF a] by simp
qed

lemma js_apply_total: "ok (js_saves s) \<Longrightarrow> \<exists>s'. js_apply ok puts removes s = (True, s')"
  by (simp add: js_apply_def js_persist_def Let_def)

lemma adopt_total:
  assumes "ok (js_saves (tm_store t))"
  shows "\<exists>t'. adopt (jni_ops ok) s t = (True, t')"
proof -
  obtain st where "tm_persist (jni_ops ok) True (t\<lparr>tm_session := s\<rparr>) = (True, st)"
    unfolding tm_persist_def Let_def jni_apply
    using js_apply_total [of ok "tm_store (t\<lparr>tm_session := s\<rparr>)"] assms by auto
  then show ?thesis by (simp add: adopt_def Let_def)
qed

lemma demo_adopt:
  "\<exists>t'. adopt (jni_ops (\<lambda>_. True)) demo_session (tm_new 60 (js_open None)) = (True, t') \<and>
        reopenable (tm_store t') \<and> length (js_values (tm_store t')) \<le> 5"
proof -
  obtain t' where t': "adopt (jni_ops (\<lambda>_. True)) demo_session (tm_new 60 (js_open None)) = (True, t')"
    using adopt_total [of "\<lambda>_. True"] by blast
  have "length (int_str 50) = 2" "length (int_str 90) = 2"
    by (simp_all add: int_str_def nat_str.simps)
  then have "reopenable (tm_store t')" "length (js_values (tm_store t')) \<le> 5"
    using adopt_reopenable [OF t'] by (simp_all add: tm_new_def js_open_def)
  then show ?thesis using t' by blast
qed

lemma demo_restorable: "restorable 10 demo_session"
  by (simp add: restorable_def session_valid_def)

theorem login_survives_restart_witness:
  "\<exists>t'. adopt (jni_ops (\<lambda>_. True)) demo_session (tm_new 60 (js_open None)) = (True, t') \<and>
        (let u = tm_new 60 (js_open (js_disk (tm_store t')))
         in loadFromStore (jni_ops (\<lambda>_. True)) 10 ''u'' u = (True, u\<lparr>tm_session := demo_session\<rparr>))"
proof -
  obtain t' where t': "adopt (jni_ops (\<lambda>_. True)) demo_session (tm_new 60 (js_open None)) = (True, t')"
    "reopenable (tm_store t')"
    using demo_adopt by blast
  show ?thesis
    using login_survives_restart [OF t'(1) _ demo_restorable t'(2), of 60 "\<lambda>_. True"] t'(1)
    by (simp add: tm_new_def)
qed

lemma load_again_same_id:
  assumes "holds js_get st s" and "restorable now s" and "js_get st (key_of (ts_account s) kRefreshReqId) = Some rid"
    and "rid \<noteq> []"
  shows "\<exists>u. loadFromStore (jni_ops ok) now (ts_account s) (tm_new skew st) = (True, u) \<and>
    tm_session u = s \<and> beginRefresh (jni_ops ok) now' u = (rid, u)"
  using jni_tm.load_holds [of ok "tm_new skew st" s now] assms
  by (simp add: beginRefresh_def tm_new_def)

text \<open>
  One refresh, one id. The request id of a refresh that was begun is written before it is
  used: after a crash at any later moment a new process that loads the account begins "its"
  refresh with the same id, without a further write, so the server can treat both as one request.
\<close>

theorem refresh_id_survives_restart:
  assumes "adopt (jni_ops ok) s t = (True, t1)" and "js_inv (tm_store t)" and "restorable now s"
    and "beginRefresh (jni_ops ok) now t1 = (rid, t2)" and "rid \<noteq> []"
    and "reopenable (tm_store t2)"
  shows "\<exists>u. loadFromStore (jni_ops ok') now (ts_account s)
                 (tm_new skew (js_open (js_disk (tm_store t2)))) = (True, u) \<and>
             tm_session u = s \<and> beginRefresh (jni_ops ok') now' u = (rid, u)"
proof -
  let ?st = "js_open (js_disk (tm_store t2))"
  note a = adopt_store [OF assms(1,2)]
  have b: "js_get (tm_store t2) = (js_get (tm_store t1))(key_of (ts_account s) kRefreshReqId \<mapsto> rid)"
    using jni_tm.begin_cases [OF assms(4,5)] a by (simp add: keyOf_def)
  have inv: "js_inv (tm_store t2)" "js_disk (tm_store t2) \<noteq> None"
    using assms(4,5) a js_apply_inv' js_apply_disk
    by (auto simp: beginRefresh_def Let_def split: prod.splits if_splits)
  have g: "js_get ?st = js_get (tm_store t2)"
    using inv assms(6) reopen_get by blast
  have "holds js_get (tm_store t2) s"
    using a unfolding holds_def b by (simp add: key_of_inject)
  then have "holds js_get ?st s"
    using g holds_cong by blast
  then show ?thesis
    using load_again_same_id [of ?st s now rid ok' skew now'] assms(3,5) b g by simp
qed

theorem refresh_id_survives_restart_witness:
  "\<exists>t1 rid t2. adopt (jni_ops (\<lambda>_. True)) demo_session (tm_new 60 (js_open None)) = (True, t1) \<and>
     beginRefresh (jni_ops (\<lambda>_. True)) 10 t1 = (rid, t2) \<and> rid \<noteq> [] \<and>
     (\<exists>u. loadFromStore (jni_ops (\<lambda>_. False)) 10 ''u''
            (tm_new 60 (js_open (js_disk (tm_store t2)))) = (True, u) \<and>
          beginRefresh (jni_ops (\<lambda>_. False)) 20 u = (rid, u))"
proof -
  obtain t1 where t1: "adopt (jni_ops (\<lambda>_. True)) demo_session (tm_new 60 (js_open None)) = (True, t1)"
    "reopenable (tm_store t1)" "length (js_values (tm_store t1)) \<le> 5"
    using demo_adopt by blast
  have s1: "tm_session t1 = demo_session" "\<not> tm_inflight t1"
    using adopt_store [OF t1(1)] by (simp_all add: tm_new_def)
  have seq: "tm_seq t1 = 0"
    using adopt_store [OF t1(1)] by (simp add: tm_new_def)
  let ?rid = "''rf-u-s-1-10''"
  have rid: "''rf-'' @ ''u'' @ ''-'' @ ''s'' @ ''-'' @ nat_str (unat (0 + 1 :: u64)) @ ''-'' @ int_str 10 = ?rid"
    by (simp add: int_str_def nat_str.simps digit_char_def)
  obtain st where st: "js_apply (\<lambda>_. True) [(keyOf t1 kRefreshReqId, ?rid)] [] (tm_store t1) = (True, st)"
    using js_apply_total [of "\<lambda>_. True"] by blast
  have re: "reopenable st"
    by (rule js_apply_reopenable [OF st])
      (use t1 s1 in \<open>auto simp: reopenable_def item_fits_def keyOf_def key_of_def\<close>)
  obtain t2 where t2: "beginRefresh (jni_ops (\<lambda>_. True)) 10 t1 = (?rid, t2)" "tm_store t2 = st"
    using s1 seq st rid by (simp add: beginRefresh_def Let_def)
  show ?thesis
    using refresh_id_survives_restart [OF t1(1) _ demo_restorable t2(1), of "\<lambda>_. False" 60 20] t1(1) t2 re
    by (fastforce simp: tm_new_def)
qed

text \<open>
  Credentials change completely or not at all. When a write of the store fails, adopting a
  login, rotating after a refresh, beginning and completing a refresh leave every stored key and
  everything in memory (session, pending refresh, counter) as they were; the caller is told.
\<close>

theorem token_change_atomic:
  assumes "adopt (jni_ops ok) s t = (False, t') \<or>
           rotateTokens (jni_ops ok) acc ref ae re sid t = (False, t') \<or>
           completeRefresh (jni_ops ok) t = (False, t') \<or>
           beginRefresh (jni_ops ok) now t = ([], t')"
  shows "js_get (tm_store t') = js_get (tm_store t) \<and> t' = t\<lparr>tm_store := tm_store t'\<rparr>"
  using assms jni_tm.adopt_fail jni_tm.rotateTokens_fail jni_tm.complete_fail jni_tm.begin_fail
  by (metis jni_get)

theorem token_change_atomic_witness:
  "\<exists>t'. adopt (jni_ops (\<lambda>_. False)) demo_session (tm_new 60 (js_open None)) = (False, t') \<and>
        js_get (tm_store t') = js_get (js_open None)"
proof -
  obtain t' where t': "adopt (jni_ops (\<lambda>_. False)) demo_session (tm_new 60 (js_open None)) = (False, t')"
    by (simp add: adopt_def tm_persist_def js_apply_def js_persist_def Let_def)
  show ?thesis
    using token_change_atomic [OF disjI1, OF t'] t' by (simp add: tm_new_def)
qed

text \<open>
  A pending refresh outlives a change of account. Loading another account does not clear the
  pending request id of the account that was loaded before: if the new account has none of its
  own, its first refresh is sent under the id of the other account.
\<close>

theorem pending_refresh_leaks:
  assumes "tm_inflight t" and "tm_reqid t \<noteq> []" and "holds js_get (tm_store t) s" and "restorable now s"
    and "js_get (tm_store t) (key_of (ts_account s) kRefreshReqId) = None"
  shows "\<exists>u. loadFromStore (jni_ops ok) now (ts_account s) t = (True, u) \<and> tm_session u = s \<and>
             beginRefresh (jni_ops ok) now' u = (tm_reqid t, u)"
  using jni_tm.load_holds [of ok t s now] assms by (simp add: beginRefresh_def)

theorem pending_refresh_leaks_witness:
  "\<exists>t u. ts_account (tm_session t) = ''v'' \<and> tm_reqid t = ''rf-v-x-1-5'' \<and>
     loadFromStore (jni_ops (\<lambda>_. True)) 10 ''u'' t = (True, u) \<and>
     beginRefresh (jni_ops (\<lambda>_. True)) 20 u = (''rf-v-x-1-5'', u)"
proof -
  obtain t1 where t1: "adopt (jni_ops (\<lambda>_. True)) demo_session (tm_new 60 (js_open None)) = (True, t1)"
    using demo_adopt by blast
  let ?t = "\<lparr>tm_store = tm_store t1, tm_skew = 60, tm_session = empty_session\<lparr>ts_account := ''v''\<rparr>,
    tm_inflight = True, tm_reqid = ''rf-v-x-1-5'', tm_seq = 1\<rparr>"
  have "holds js_get (tm_store ?t) demo_session"
    "js_get (tm_store ?t) (key_of (ts_account demo_session) kRefreshReqId) = None"
    using adopt_store [OF t1] by (simp_all add: tm_new_def)
  then obtain u where "loadFromStore (jni_ops (\<lambda>_. True)) 10 ''u'' ?t = (True, u)"
    "beginRefresh (jni_ops (\<lambda>_. True)) 20 u = (''rf-v-x-1-5'', u)"
    using pending_refresh_leaks [of ?t demo_session 10 "\<lambda>_. True" 20] demo_restorable by auto
  then show ?thesis
    by (intro exI [of _ ?t] exI [of _ u]) (simp add: empty_session_def)
qed

end
