(* ===== verification/DeviceProof.thy ===== *)
theory DeviceProof
  imports Protocol
begin

text \<open>
  The device proof: the message a client signs with its P-256 key to authenticate an operation
  (\<^verbatim>\<open>client_core/src/account/DeviceProofService.cpp\<close>, \<^verbatim>\<open>AuthRequestBuilder.cpp\<close>,
  \<^verbatim>\<open>client_core/src/transport/DeviceProof.cpp\<close>) and the one the server rebuilds to check
  it (\<^verbatim>\<open>im_server/src/auth/DeviceProof.cpp\<close>).

  The key operations of the platform and of OpenSSL are parameters.
\<close>

section \<open>The client's message\<close>

definition appendU32Be :: "bytes \<Rightarrow> u32 \<Rightarrow> bytes" where
  "appendU32Be out v =
     out @ [ucast (drop_bit 24 v AND 0xFF), ucast (drop_bit 16 v AND 0xFF),
            ucast (drop_bit 8 v AND 0xFF), ucast (v AND 0xFF)]"

definition dp_field :: "bytes \<Rightarrow> bytes \<Rightarrow> bytes" where
  "dp_field out data = appendU32Be out (of_nat (length data)) @ data"

definition dp_label :: string where
  "dp_label = ''jitong-device-proof-v1''"

definition buildMessage :: "string \<Rightarrow> bytes \<Rightarrow> string \<Rightarrow> bytes \<Rightarrow> bytes \<Rightarrow> bytes" where
  "buildMessage operation appSessionId deviceId credential pub =
     (let out = bytes_of dp_label;
          out = dp_field out (bytes_of operation);
          out = dp_field out appSessionId;
          out = dp_field out (bytes_of deviceId);
          out = dp_field out credential;
          out = dp_field out pub
      in out)"

text \<open>\<open>transport/DeviceProof.cpp\<close> builds the same message with its own helpers.\<close>

definition appendField :: "bytes \<Rightarrow> bytes \<Rightarrow> bytes" where
  "appendField out data =
     (let n = (of_nat (length data) :: u32) in
      out @ [ucast (drop_bit 24 n AND 0xFF), ucast (drop_bit 16 n AND 0xFF),
             ucast (drop_bit 8 n AND 0xFF), ucast (n AND 0xFF)] @ data)"

definition buildDeviceProofMessage :: "string \<Rightarrow> bytes \<Rightarrow> string \<Rightarrow> bytes \<Rightarrow> bytes \<Rightarrow> bytes" where
  "buildDeviceProofMessage operation appSessionId deviceId credential pub =
     foldl appendField (bytes_of dp_label)
       [bytes_of operation, appSessionId, bytes_of deviceId, credential, pub]"

record signer =
  sg_pub :: bytes
  sg_sign :: "bytes \<Rightarrow> bytes"

record device_proof =
  dp_pub :: bytes
  dp_sig :: bytes

definition dp_ok :: "device_proof \<Rightarrow> bool" where
  "dp_ok p \<longleftrightarrow> dp_sig p \<noteq> []"

definition dp_make :: "signer \<Rightarrow> string \<Rightarrow> string \<Rightarrow> bytes \<Rightarrow> bytes \<Rightarrow> bool \<Rightarrow> device_proof" where
  "dp_make sg deviceId operation appSessionId credential bindPub =
     (let pub = sg_pub sg in
      if pub = [] then \<lparr>dp_pub = [], dp_sig = []\<rparr>
      else
        let bound = (if bindPub then pub else []);
            sig = sg_sign sg (buildMessage operation appSessionId deviceId credential bound)
        in if sig = [] then \<lparr>dp_pub = [], dp_sig = []\<rparr>
           else \<lparr>dp_pub = (if bindPub then pub else []), dp_sig = sig\<rparr>)"

definition forPasswordLogin :: "signer \<Rightarrow> string \<Rightarrow> bytes \<Rightarrow> string \<Rightarrow> string \<Rightarrow> device_proof" where
  "forPasswordLogin sg dev sess tel passHex =
     dp_make sg dev ''password-login'' sess (bytes_of tel @ [0] @ bytes_of passHex) True"

definition forTokenLogin :: "signer \<Rightarrow> string \<Rightarrow> bytes \<Rightarrow> string \<Rightarrow> device_proof" where
  "forTokenLogin sg dev sess access = dp_make sg dev ''token-login'' sess (bytes_of access) False"

definition forTokenRefresh :: "signer \<Rightarrow> string \<Rightarrow> bytes \<Rightarrow> string \<Rightarrow> string \<Rightarrow> device_proof" where
  "forTokenRefresh sg dev sess refresh requestId =
     dp_make sg dev ''token-refresh'' sess (bytes_of refresh @ [0] @ bytes_of requestId) False"

definition forLogout :: "signer \<Rightarrow> string \<Rightarrow> bytes \<Rightarrow> string \<Rightarrow> bool \<Rightarrow> device_proof" where
  "forLogout sg dev sess refresh allDevices =
     dp_make sg dev ''logout'' sess
       (bytes_of refresh @ [0] @ bytes_of (if allDevices then ''1'' else ''0'')) False"

section \<open>The requests\<close>

text \<open>The protobuf messages the client builds, by their fields; the encoding is the library's.\<close>

record token_login_rq =
  tl_access :: string
  tl_device :: string
  tl_request :: string
  tl_sig :: bytes

record refresh_rq =
  rf_refresh :: string
  rf_device :: string
  rf_request :: string
  rf_sig :: bytes

record logout_rq =
  lo_refresh :: string
  lo_device :: string
  lo_all :: bool
  lo_sig :: bytes

definition buildTokenLogin :: "signer \<Rightarrow> string \<Rightarrow> bytes \<Rightarrow> string \<Rightarrow> string \<Rightarrow> token_login_rq option" where
  "buildTokenLogin sg dev sess access requestId =
     (let proof = forTokenLogin sg dev sess access in
      if \<not> dp_ok proof then None
      else Some \<lparr>tl_access = access, tl_device = dev, tl_request = requestId, tl_sig = dp_sig proof\<rparr>)"

definition buildRefresh :: "signer \<Rightarrow> string \<Rightarrow> bytes \<Rightarrow> string \<Rightarrow> string \<Rightarrow> refresh_rq option" where
  "buildRefresh sg dev sess refresh requestId =
     (let proof = forTokenRefresh sg dev sess refresh requestId in
      if \<not> dp_ok proof then None
      else Some \<lparr>rf_refresh = refresh, rf_device = dev, rf_request = requestId, rf_sig = dp_sig proof\<rparr>)"

definition buildLogout :: "signer \<Rightarrow> string \<Rightarrow> bytes \<Rightarrow> string \<Rightarrow> bool \<Rightarrow> logout_rq option" where
  "buildLogout sg dev sess refresh allDevices =
     (let proof = forLogout sg dev sess refresh allDevices in
      if \<not> dp_ok proof then None
      else Some \<lparr>lo_refresh = refresh, lo_device = dev, lo_all = allDevices, lo_sig = dp_sig proof\<rparr>)"

section \<open>The server's message and check\<close>

definition srv_field :: "bytes \<Rightarrow> bytes \<Rightarrow> bytes" where
  "srv_field out data =
     (let n = (of_nat (length data) :: u32) in
      out @ [ucast (drop_bit 24 n), ucast (drop_bit 16 n), ucast (drop_bit 8 n), ucast n] @ data)"

definition srv_message :: "string \<Rightarrow> bytes \<Rightarrow> string \<Rightarrow> bytes \<Rightarrow> bytes \<Rightarrow> bytes" where
  "srv_message operation appSessionId deviceId credential pub =
     foldl srv_field (bytes_of dp_label)
       [bytes_of operation, appSessionId, bytes_of deviceId, credential, pub]"

text \<open>\<open>evp\<close> is OpenSSL's verification of a P-256 signature under a DER key.\<close>

definition verifyP256 :: "(bytes \<Rightarrow> bytes \<Rightarrow> bytes \<Rightarrow> bool) \<Rightarrow> bytes \<Rightarrow> bytes \<Rightarrow> bytes \<Rightarrow> bool" where
  "verifyP256 evp pub msg sig \<longleftrightarrow>
     \<not> (pub = [] \<or> length pub > 512 \<or> sig = [] \<or> length sig > 144) \<and> evp pub msg sig"

section \<open>One message, read back\<close>

definition be4 :: "u32 \<Rightarrow> bytes" where
  "be4 v = [ucast (drop_bit 24 v), ucast (drop_bit 16 v), ucast (drop_bit 8 v), ucast v]"

lemma be4_inject [simp]: "be4 v = be4 w \<longleftrightarrow> v = w"
proof
  assume "be4 v = be4 w"
  then have b: "(ucast v :: byte) = ucast w" "(ucast (drop_bit 8 v) :: byte) = ucast (drop_bit 8 w)"
    "(ucast (drop_bit 16 v) :: byte) = ucast (drop_bit 16 w)"
    "(ucast (drop_bit 24 v) :: byte) = ucast (drop_bit 24 w)"
    by (simp_all only: be4_def list.inject)
  have "v = (ucast (ucast v :: byte) :: u32) OR push_bit 8 (ucast (ucast (drop_bit 8 v) :: byte)) OR
     push_bit 16 (ucast (ucast (drop_bit 16 v) :: byte)) OR
     push_bit 24 (ucast (ucast (drop_bit 24 v) :: byte))"
    by (rule word32_bytes [symmetric])
  also have "\<dots> = w"
    unfolding b by (rule word32_bytes)
  finally show "v = w" .
qed simp

definition lfield :: "bytes \<Rightarrow> bytes" where
  "lfield data = be4 (of_nat (length data)) @ data"

lemma fields_eq: "dp_field out data = out @ lfield data" "appendField out data = out @ lfield data"
  "srv_field out data = out @ lfield data"
  by (simp_all add: dp_field_def appendU32Be_def appendField_def srv_field_def lfield_def be4_def Let_def)

lemma buildMessage_eq:
  "buildMessage operation sess dev cred pub =
     bytes_of dp_label @ lfield (bytes_of operation) @ lfield sess @ lfield (bytes_of dev)
       @ lfield cred @ lfield pub"
  by (simp add: buildMessage_def fields_eq Let_def)

lemma messages_agree:
  "srv_message operation sess dev cred pub = buildMessage operation sess dev cred pub \<and>
   buildDeviceProofMessage operation sess dev cred pub = buildMessage operation sess dev cred pub"
  by (simp add: buildMessage_eq srv_message_def buildDeviceProofMessage_def fields_eq)

lemma lfield_append_inject:
  assumes "length x < 2 ^ 32" and "length y < 2 ^ 32"
  shows "lfield x @ r = lfield y @ s \<longleftrightarrow> x = y \<and> r = s"
proof
  assume eq: "lfield x @ r = lfield y @ s"
  then have "be4 (of_nat (length x)) = be4 (of_nat (length y))" and rest: "x @ r = y @ s"
    by (simp_all add: lfield_def be4_def)
  then have "(of_nat (length x) :: u32) = of_nat (length y)" by simp
  moreover have "unat (of_nat (length x) :: u32) = length x" "unat (of_nat (length y) :: u32) = length y"
    using assms by (simp_all add: unat_of_nat take_bit_nat_eq_self)
  ultimately have "length x = length y" by metis
  then show "x = y \<and> r = s" using rest by simp
qed simp

definition small32 :: "bytes \<Rightarrow> bool" where
  "small32 b \<longleftrightarrow> length b < 2 ^ 32"

text \<open>
  C37: a device proof signs one thing only. Client and server build byte for byte the same
  message, and the message determines all five parts - operation, channel, device, credential and
  bound key - so a signature made for one operation, session, device or credential is a signature
  of no other.
\<close>

theorem device_proof_binds:
  assumes "\<forall>b \<in> {bytes_of op1, bytes_of op2, s1, s2, bytes_of d1, bytes_of d2, c1, c2, k1, k2}. small32 b"
  shows "buildMessage op1 s1 d1 c1 k1 = srv_message op2 s2 d2 c2 k2 \<longleftrightarrow>
         op1 = op2 \<and> s1 = s2 \<and> d1 = d2 \<and> c1 = c2 \<and> k1 = k2"
proof -
  have k: "lfield k1 = lfield k2 \<longleftrightarrow> k1 = k2"
    using lfield_append_inject [of k1 k2 "[]" "[]"] assms by (simp add: small32_def)
  show ?thesis
    using assms unfolding messages_agree [THEN conjunct1] buildMessage_eq
    by (simp add: lfield_append_inject small32_def k)
qed

theorem device_proof_binds_witness:
  "buildMessage ''token-login'' [1] ''d'' (bytes_of ''tok'') [] \<noteq>
   srv_message ''token-refresh'' [1] ''d'' (bytes_of ''tok'') []"
  using device_proof_binds [of "''token-login''" "''token-refresh''" "[1]" "[1]" "''d''" "''d''"
      "bytes_of ''tok''" "bytes_of ''tok''" "[]" "[]"]
  by (simp add: small32_def)

end
