(* ===== verification/AccountSession.thy ===== *)
theory AccountSession
  imports AuthMachine TokenManager DeviceProof "HOL-Library.Sublist"
begin

text \<open>
  \<^verbatim>\<open>client_core/src/account/AccountSession.cpp\<close>: the orchestrator that runs the actions
  of the state machine against the transport, the token manager, the device proof and the
  reconnect policy.

  Calls of the transport and events go to a log, in order. The environment of a call (store,
  signer, clock, channel id, jitter) is a record. Each entry point runs under one recursive mutex,
  so it is one step. \<open>runActions\<close> calls itself on the actions of a failed send; those contain no
  send, which is its termination argument.
\<close>

section \<open>State\<close>

datatype session_out =
    OConnect
  | ODisconnect
  | OPasswordLogin string string u32
  | OTokenLogin token_login_rq u32
  | ORefresh refresh_rq u32
  | OLogout logout_rq u32
  | OSchedule int
  | OCancelReconnect
  | OEvent account_event

record 's account_session =
  as_sm :: auth_machine
  as_tokens :: "'s tokmgr"
  as_reconnect :: reconnect_policy
  as_account :: string
  as_password :: string
  as_gen :: u32
  as_logoutAll :: bool
  as_tokenAfter :: bool
  as_reauth :: bool
  as_log :: "session_out list"

record 's session_env =
  en_ops :: "'s store_ops"
  en_signer :: signer
  en_device :: string
  en_now :: int
  en_channel :: bytes
  en_jitter :: "int option"

record auth_result =
  ar_user :: int
  ar_access :: string
  ar_refresh :: string
  ar_accessExp :: int
  ar_refreshExp :: int
  ar_sid :: string

definition as_new :: "'s \<Rightarrow> 's account_session" where
  "as_new st = \<lparr>as_sm = sm_init, as_tokens = tm_new 60 st,
     as_reconnect = \<lparr>rp_base = 1000, rp_max = 30000, rp_attempt = 0, rp_enabled = True\<rparr>,
     as_account = [], as_password = [], as_gen = 0, as_logoutAll = False, as_tokenAfter = False,
     as_reauth = False, as_log = []\<rparr>"

definition out :: "session_out \<Rightarrow> 's account_session \<Rightarrow> 's account_session" where
  "out x s = s\<lparr>as_log := as_log s @ [x]\<rparr>"

definition mapLoginError :: "int \<Rightarrow> auth_error" where
  "mapLoginError protoResult =
     (if protoResult = LOGIN_PASSERROR \<or> protoResult = LOGIN_NOTEXIT then InvalidCredentials
      else ServerRejected)"

section \<open>Running actions\<close>

text \<open>The generation a callback carries; 0 means the session's own.\<close>

definition callback_gen :: "u32 \<Rightarrow> 's account_session \<Rightarrow> u32" where
  "callback_gen g s = (if g = 0 then as_gen s else g)"

text \<open>The part of \<open>onRefreshResult\<close> and \<open>onLogoutResult\<close> before their actions run.\<close>

definition refresh_rejected ::
  "'s session_env \<Rightarrow> u32 \<Rightarrow> 's account_session \<Rightarrow> action list \<times> 's account_session" where
  "refresh_rejected e g s =
     (let g = callback_gen g s in
      if g \<noteq> sm_gen (as_sm s) then ([], s)
      else
        let (_, tk) = revokeFamily (en_ops e) (as_tokens s);
            (m, acts) = onRefreshFailed g TokenRevoked (as_sm s)
        in (acts, s\<lparr>as_tokens := tk, as_sm := m\<rparr>))"

definition logout_done ::
  "'s session_env \<Rightarrow> u32 \<Rightarrow> 's account_session \<Rightarrow> action list \<times> 's account_session" where
  "logout_done e g s =
     (if g \<noteq> 0 \<and> g \<noteq> sm_gen (as_sm s) then ([], s)
      else
        let (_, tk) = revokeFamily (en_ops e) (as_tokens s);
            (m, acts) = onLogoutCompleted (as_sm s)
        in (acts, s\<lparr>as_tokens := tk, as_sm := m\<rparr>))"

definition fail_auth :: "auth_error \<Rightarrow> 's account_session \<Rightarrow> action list \<times> 's account_session" where
  "fail_auth err s =
     (let (m, acts) = onAuthFailed (as_gen s) err (as_sm s) in (acts, s\<lparr>as_sm := m\<rparr>))"

definition fail_refresh :: "auth_error \<Rightarrow> 's account_session \<Rightarrow> action list \<times> 's account_session" where
  "fail_refresh err s =
     (let (m, acts) = onRefreshFailed (as_gen s) err (as_sm s) in (acts, s\<lparr>as_sm := m\<rparr>))"

text \<open>One action: the new state, and the actions of a failed send.\<close>

definition run_action ::
  "'s session_env \<Rightarrow> action \<Rightarrow> 's account_session \<Rightarrow> action list \<times> 's account_session" where
  "run_action e a s =
     (case a of
        Connect _ \<Rightarrow> ([], out OConnect (s\<lparr>as_gen := sm_gen (as_sm s)\<rparr>))
      | SendPasswordLogin _ \<Rightarrow>
          ([], (out (OPasswordLogin (as_account s) (as_password s) (sm_gen (as_sm s))) s)
                 \<lparr>as_password := []\<rparr>)
      | SendTokenLogin _ \<Rightarrow>
          (case buildTokenLogin (en_signer e) (en_device e) (en_channel e)
                  (ts_access (tm_session (as_tokens s))) (ts_sid (tm_session (as_tokens s))) of
             Some rq \<Rightarrow> ([], out (OTokenLogin rq (sm_gen (as_sm s))) s)
           | None \<Rightarrow> fail_auth DeviceProofFailed s)
      | SendRefresh _ \<Rightarrow>
          (let (rid, tk) = beginRefresh (en_ops e) (en_now e) (as_tokens s);
               s = s\<lparr>as_tokens := tk\<rparr>
           in if rid = [] then fail_refresh InternalError s
              else
                case buildRefresh (en_signer e) (en_device e) (en_channel e)
                       (ts_refresh (tm_session tk)) rid of
                  Some rq \<Rightarrow> ([], out (ORefresh rq (sm_gen (as_sm s))) s)
                | None \<Rightarrow> refresh_rejected e (sm_gen (as_sm s)) s)
      | SendLogout _ \<Rightarrow>
          (case buildLogout (en_signer e) (en_device e) (en_channel e)
                  (ts_refresh (tm_session (as_tokens s))) (as_logoutAll s) of
             Some rq \<Rightarrow> ([], out (OLogout rq (sm_gen (as_sm s))) s)
           | None \<Rightarrow> logout_done e (sm_gen (as_sm s)) s)
      | Disconnect \<Rightarrow> ([], out ODisconnect s)
      | ScheduleReconnect _ \<Rightarrow>
          (let (delay, rp) = nextDelayMs (en_jitter e) (as_reconnect s)
           in ([], out (OSchedule delay) (s\<lparr>as_reconnect := rp\<rparr>)))
      | CancelReconnect \<Rightarrow>
          ([], out OCancelReconnect (s\<lparr>as_reconnect := rp_disable (as_reconnect s)\<rparr>))
      | EmitEvent ev \<Rightarrow> ([], out (OEvent ev) s)
      | RejectOperation err \<Rightarrow>
          ([], out (OEvent \<lparr>ev_type = LoginFailed, ev_op = 0, ev_state = sm_state (as_sm s),
                            ev_error = err, ev_user = 0\<rparr>) s))"

fun is_send :: "action \<Rightarrow> bool" where
  "is_send (SendPasswordLogin _) = True"
| "is_send (SendTokenLogin _) = True"
| "is_send (SendRefresh _) = True"
| "is_send (SendLogout _) = True"
| "is_send _ = False"

lemma fail_auth_sends: "filter is_send (fst (fail_auth err s)) = []"
  by (auto simp: fail_auth_def onAuthFailed_def frame_simps sm_emit_def makeEvent_def Let_def)

lemma fail_refresh_sends: "filter is_send (fst (fail_refresh err s)) = []"
  by (auto simp: fail_refresh_def onRefreshFailed_def frame_simps sm_emit_def makeEvent_def Let_def)

lemma refresh_rejected_sends: "filter is_send (fst (refresh_rejected e g s)) = []"
  by (auto simp: refresh_rejected_def onRefreshFailed_def frame_simps sm_emit_def makeEvent_def Let_def
      split: prod.splits)

lemma logout_done_sends: "filter is_send (fst (logout_done e g s)) = []"
  by (auto simp: logout_done_def onLogoutCompleted_def frame_simps sm_emit_def makeEvent_def Let_def
      split: prod.splits)

lemma run_action_sends: "filter is_send (fst (run_action e a s)) = []"
  by (cases a) (auto simp: run_action_def fail_auth_sends fail_refresh_sends refresh_rejected_sends
      logout_done_sends Let_def split: option.splits prod.splits)

lemma run_action_no_send: "\<not> is_send a \<Longrightarrow> fst (run_action e a s) = []"
  by (cases a) (auto simp: run_action_def Let_def split: prod.splits)

text \<open>The actions of a failed send run to the end before the loop goes on.\<close>

function runActions :: "'s session_env \<Rightarrow> action list \<Rightarrow> 's account_session \<Rightarrow> 's account_session" where
  "runActions e [] s = s"
| "runActions e (a # as) s =
     runActions e as (runActions e (fst (run_action e a s)) (snd (run_action e a s)))"
  by pat_completeness auto
termination
proof (relation "measures [\<lambda>(e, acts, s). length (filter is_send acts), \<lambda>(e, acts, s). length acts]",
    goal_cases)
  case (2 e a as s)
  then show ?case
    using run_action_sends [of e a s] run_action_no_send [of a e s] by (cases "is_send a"; cases "run_action e a s") auto
qed auto

section \<open>Entry points\<close>

definition startWithPassword ::
  "'s session_env \<Rightarrow> string \<Rightarrow> string \<Rightarrow> 's account_session \<Rightarrow> u64 \<times> 's account_session" where
  "startWithPassword e account password s =
     (let (m, op, acts) = requestPasswordLogin account (as_sm s);
          s = s\<lparr>as_sm := m\<rparr>
      in if op = 0 \<or> acts = [] then (op, runActions e acts s)
         else (op, runActions e acts
                (s\<lparr>as_account := account, as_password := password, as_tokenAfter := False,
                   as_reconnect := rp_reset (as_reconnect s)\<rparr>)))"

definition startWithSavedToken ::
  "'s session_env \<Rightarrow> string \<Rightarrow> 's account_session \<Rightarrow> u64 \<times> 's account_session" where
  "startWithSavedToken e account s =
     (let (ok, tk) = loadFromStore (en_ops e) (en_now e) account (as_tokens s);
          s = s\<lparr>as_tokens := tk\<rparr>
      in if \<not> ok then (0, s)
         else if \<not> accessUsable (en_now e) tk \<and> refreshExpired (en_now e) tk
         then (0, s\<lparr>as_tokens := snd (revokeFamily (en_ops e) tk)\<rparr>)
         else
           let s = s\<lparr>as_account := account, as_reconnect := rp_reset (as_reconnect s)\<rparr> in
           if \<not> accessUsable (en_now e) tk
           then let (m, op, acts) = requestRefreshForLogin account (as_sm s)
                in (op, runActions e acts (s\<lparr>as_tokenAfter := True, as_sm := m\<rparr>))
           else let (m, op, acts) = requestTokenLogin account (as_sm s)
                in (op, runActions e acts (s\<lparr>as_tokenAfter := False, as_sm := m\<rparr>)))"

definition as_logout :: "'s session_env \<Rightarrow> bool \<Rightarrow> 's account_session \<Rightarrow> 's account_session" where
  "as_logout e allDevices s =
     (let (m, _, acts) = requestLogout (as_sm s)
      in runActions e acts (s\<lparr>as_logoutAll := allDevices, as_sm := m, as_gen := sm_gen m\<rparr>))"

definition as_cancel :: "'s session_env \<Rightarrow> 's account_session \<Rightarrow> 's account_session" where
  "as_cancel e s =
     (let (_, tk) = cancelRefresh (en_ops e) (as_tokens s);
          (m, acts) = cancelAuthentication (as_sm s)
      in runActions e acts (s\<lparr>as_password := [], as_tokenAfter := False, as_tokens := tk,
                               as_sm := m, as_gen := sm_gen m\<rparr>))"

definition maybeAutoRefresh :: "'s session_env \<Rightarrow> 's account_session \<Rightarrow> 's account_session" where
  "maybeAutoRefresh e s =
     (if sm_state (as_sm s) \<noteq> Authenticated then s
      else if accessNeedsRefresh (en_now e) (as_tokens s) \<and> \<not> tm_inflight (as_tokens s)
      then let (m, _, acts) = requestRefresh (as_sm s)
           in runActions e acts (s\<lparr>as_sm := m, as_gen := sm_gen m\<rparr>)
      else s)"

definition as_tick :: "'s session_env \<Rightarrow> 's account_session \<Rightarrow> 's account_session" where
  "as_tick e s = maybeAutoRefresh e s"

definition onConnectResult :: "'s session_env \<Rightarrow> bool \<Rightarrow> 's account_session \<Rightarrow> 's account_session" where
  "onConnectResult e ok s =
     (if ok then
        let s = s\<lparr>as_reconnect := rp_reset (as_reconnect s)\<rparr> in
        if as_reauth s
        then let (m, _, acts) = requestTokenLoginOnConnected (as_sm s)
             in runActions e acts (s\<lparr>as_reauth := False, as_sm := m, as_gen := sm_gen m\<rparr>)
        else let (m, acts) = sm_onConnected (as_sm s) in runActions e acts (s\<lparr>as_sm := m\<rparr>)
      else let (m, acts) = sm_onDisconnected False (as_sm s) in runActions e acts (s\<lparr>as_sm := m\<rparr>))"

definition as_onDisconnected :: "'s session_env \<Rightarrow> bool \<Rightarrow> 's account_session \<Rightarrow> 's account_session" where
  "as_onDisconnected e intentional s =
     (let s = (if sm_state (as_sm s) = Refreshing
               then s\<lparr>as_tokens := suspendRefresh (as_tokens s)\<rparr>
               else if \<not> intentional \<and> sm_state (as_sm s) = Authenticated
               then s\<lparr>as_reauth := True\<rparr> else s);
          (m, acts) = sm_onDisconnected intentional (as_sm s)
      in runActions e acts (s\<lparr>as_sm := m\<rparr>))"

definition onLoginResult ::
  "'s session_env \<Rightarrow> int \<Rightarrow> auth_result \<Rightarrow> u32 \<Rightarrow> 's account_session \<Rightarrow> 's account_session" where
  "onLoginResult e protoResult r g s =
     (let g = callback_gen g s in
      if g \<noteq> sm_gen (as_sm s) then s
      else if protoResult = LOGIN_SUCCESS then
        let sess = \<lparr>ts_access = ar_access r, ts_refresh = ar_refresh r, ts_accessExp = ar_accessExp r,
                    ts_refreshExp = ar_refreshExp r, ts_sid = ar_sid r, ts_account = as_account s\<rparr>;
            (ok, tk) = adopt (en_ops e) sess (as_tokens s);
            (m, acts) = (if ok then onAuthSucceeded g (ar_user r) (as_sm s)
                         else onAuthFailed g InternalError (as_sm s))
        in runActions e acts (s\<lparr>as_tokens := tk, as_sm := m\<rparr>)
      else
        let (m, acts) = onAuthFailed g (mapLoginError protoResult) (as_sm s)
        in runActions e acts (s\<lparr>as_sm := m\<rparr>))"

definition onTokenLoginResult ::
  "'s session_env \<Rightarrow> int \<Rightarrow> int \<Rightarrow> u32 \<Rightarrow> 's account_session \<Rightarrow> 's account_session" where
  "onTokenLoginResult e protoResult userId g s =
     (let g = callback_gen g s in
      if g \<noteq> sm_gen (as_sm s) then s
      else
        let (m, acts) = (if protoResult = LOGIN_SUCCESS then onAuthSucceeded g userId (as_sm s)
                         else onAuthFailed g TokenExpired (as_sm s))
        in runActions e acts (s\<lparr>as_sm := m\<rparr>))"

definition onRefreshResult ::
  "'s session_env \<Rightarrow> int \<Rightarrow> auth_result \<Rightarrow> u32 \<Rightarrow> 's account_session \<Rightarrow> 's account_session" where
  "onRefreshResult e protoResult r g s =
     (if callback_gen g s \<noteq> sm_gen (as_sm s) then s
      else if protoResult = LOGIN_SUCCESS then
        let g = callback_gen g s;
            (ok, tk) = rotateTokens (en_ops e) (ar_access r) (ar_refresh r) (ar_accessExp r)
                         (ar_refreshExp r) (ar_sid r) (as_tokens s)
        in if \<not> ok
           then let (m, acts) = onRefreshFailed g InternalError (as_sm s)
                in runActions e acts (s\<lparr>as_tokens := tk, as_sm := m\<rparr>)
           else
             let (m, acts) = onRefreshSucceeded g (as_sm s);
                 continueLogin = as_tokenAfter s;
                 s = runActions e acts (s\<lparr>as_tokens := tk, as_sm := m, as_tokenAfter := False\<rparr>)
             in if continueLogin
                then let (m, _, acts) = requestTokenLoginOnConnected (as_sm s)
                     in runActions e acts (s\<lparr>as_sm := m, as_gen := sm_gen m\<rparr>)
                else s
      else let (acts, s) = refresh_rejected e g s in runActions e acts s)"

definition onLogoutResult :: "'s session_env \<Rightarrow> u32 \<Rightarrow> 's account_session \<Rightarrow> 's account_session" where
  "onLogoutResult e g s = (let (acts, s) = logout_done e g s in runActions e acts s)"

definition as_onKicked :: "'s session_env \<Rightarrow> 's account_session \<Rightarrow> 's account_session" where
  "as_onKicked e s =
     (let (_, tk) = revokeFamily (en_ops e) (as_tokens s);
          (m, acts) = sm_onKicked KickedByOtherDevice (as_sm s)
      in runActions e acts (s\<lparr>as_tokens := tk, as_sm := m\<rparr>))"

definition onReconnectFired :: "'s account_session \<Rightarrow> 's account_session" where
  "onReconnectFired s = (if \<not> rp_enabled (as_reconnect s) then s else out OConnect s)"

section \<open>Silence after a kick\<close>

definition quiet :: "auth_machine \<Rightarrow> bool" where
  "quiet m \<longleftrightarrow> (sm_state m = LoggedOutKicked \<or> sm_state m = LoggedOut) \<and> \<not> sm_auto m"

text \<open>What must not leave the client: a credential, a reconnect, a reported login.\<close>

fun out_login :: "session_out \<Rightarrow> bool" where
  "out_login (OPasswordLogin _ _ _) = True"
| "out_login (OTokenLogin _ _) = True"
| "out_login (ORefresh _ _) = True"
| "out_login (OSchedule _) = True"
| "out_login (OEvent e) = (ev_type e = LoginSucceeded)"
| "out_login _ = False"

text \<open>A request to the server to end the session.\<close>

fun out_logout :: "session_out \<Rightarrow> bool" where
  "out_logout (OLogout _ _) = True"
| "out_logout _ = False"

fun is_logout :: "action \<Rightarrow> bool" where
  "is_logout (SendLogout _) = True"
| "is_logout _ = False"

lemma logout_only_asked: "sm_step i m = (m', acts) \<Longrightarrow> a \<in> set acts \<Longrightarrow> is_logout a \<Longrightarrow> i = InLogout"
  by (cases i) (auto simp: sm_unfold split: if_splits)

text \<open>\<open>lo\<close> says whether the user asked to log out.\<close>

definition quiet_acts :: "bool \<Rightarrow> action list \<Rightarrow> bool" where
  "quiet_acts lo acts \<longleftrightarrow> (\<forall>a \<in> set acts. \<not> reaches_out a \<and> \<not> is_event LoginSucceeded a \<and> (is_logout a \<longrightarrow> lo))"

definition quiet_log :: "bool \<Rightarrow> 's account_session \<Rightarrow> 's account_session \<Rightarrow> bool" where
  "quiet_log lo s s' \<longleftrightarrow>
     (\<exists>l. as_log s' = as_log s @ l \<and> (\<forall>x \<in> set l. \<not> out_login x \<and> x \<noteq> OConnect \<and> (out_logout x \<longrightarrow> lo)))"

lemma quiet_log_refl [simp]: "quiet_log lo s s"
  by (simp add: quiet_log_def)

lemma quiet_log_trans: "quiet_log lo s t \<Longrightarrow> quiet_log lo t u \<Longrightarrow> quiet_log lo s u"
  unfolding quiet_log_def by (metis (no_types, lifting) Un_iff append.assoc set_append)

lemma quiet_log_same: "as_log s = as_log t \<Longrightarrow> quiet_log lo t u \<Longrightarrow> quiet_log lo s u"
  by (simp add: quiet_log_def)

lemma quiet_step:
  "quiet m \<Longrightarrow> \<not> is_login i \<Longrightarrow> sm_step i m = (m', acts) \<Longrightarrow> i = InLogout \<longrightarrow> lo \<Longrightarrow>
   quiet m' \<and> quiet_acts lo acts"
  using logged_out_step [of i m m' acts] logout_only_asked [of i m m' acts] by (auto simp: quiet_def quiet_acts_def)

lemma quiet_logout_done:
  assumes "quiet (as_sm s)" and "logout_done e g s = (acts, s')"
  shows "quiet (as_sm s') \<and> quiet_acts lo acts \<and> as_log s' = as_log s \<and> as_reconnect s' = as_reconnect s"
proof (cases "g \<noteq> 0 \<and> g \<noteq> sm_gen (as_sm s)")
  case True
  then show ?thesis using assms by (simp add: logout_done_def quiet_acts_def)
next
  case False
  obtain m acts' where m: "onLogoutCompleted (as_sm s) = (m, acts')" by fastforce
  have "quiet m \<and> quiet_acts lo acts'"
    by (rule quiet_step [OF assms(1), of InLogoutDone]) (simp_all add: m)
  then show ?thesis
    using assms(2) False m by (auto simp: logout_done_def split: prod.splits)
qed

lemma quiet_run_action:
  assumes "quiet (as_sm s)" and "\<not> reaches_out a" and "\<not> is_event LoginSucceeded a" and "is_logout a \<longrightarrow> lo"
    and "run_action e a s = (acts, s')"
  shows "quiet (as_sm s') \<and> quiet_acts lo acts \<and> quiet_log lo s s' \<and>
    (\<not> rp_enabled (as_reconnect s) \<longrightarrow> \<not> rp_enabled (as_reconnect s'))"
proof (cases a)
  case (SendLogout op)
  show ?thesis
  proof (cases "buildLogout (en_signer e) (en_device e) (en_channel e)
      (ts_refresh (tm_session (as_tokens s))) (as_logoutAll s)")
    case None
    then have "logout_done e (sm_gen (as_sm s)) s = (acts, s')"
      using assms(5) SendLogout by (simp add: run_action_def)
    from quiet_logout_done [OF assms(1) this] show ?thesis
      by (auto simp: quiet_log_def)
  next
    case (Some rq)
    then show ?thesis
      using assms SendLogout by (auto simp: run_action_def out_def quiet_log_def quiet_acts_def)
  qed
qed (use assms in \<open>auto simp: run_action_def out_def quiet_log_def quiet_acts_def is_event_def rp_disable_def\<close>)

lemma quiet_runActions:
  "quiet (as_sm s) \<Longrightarrow> quiet_acts lo acts \<Longrightarrow>
   quiet (as_sm (runActions e acts s)) \<and> quiet_log lo s (runActions e acts s) \<and>
   (\<not> rp_enabled (as_reconnect s) \<longrightarrow> \<not> rp_enabled (as_reconnect (runActions e acts s)))"
proof (induction e acts s rule: runActions.induct)
  case (1 e s)
  then show ?case by simp
next
  case (2 e a as s)
  obtain acts' s' where r: "run_action e a s = (acts', s')" by fastforce
  let ?t = "runActions e acts' s'"
  have a: "quiet (as_sm s')" "quiet_acts lo acts'" "quiet_log lo s s'"
    "\<not> rp_enabled (as_reconnect s) \<longrightarrow> \<not> rp_enabled (as_reconnect s')"
    using quiet_run_action [OF 2(3) _ _ _ r, of lo] 2(4) by (auto simp: quiet_acts_def)
  have t: "quiet (as_sm ?t)" "quiet_log lo s' ?t"
    "\<not> rp_enabled (as_reconnect s') \<longrightarrow> \<not> rp_enabled (as_reconnect ?t)"
    using 2(1) a r by simp_all
  have "quiet_acts lo as" using 2(4) by (simp add: quiet_acts_def)
  then have "quiet (as_sm (runActions e as ?t))" "quiet_log lo ?t (runActions e as ?t)"
    "\<not> rp_enabled (as_reconnect ?t) \<longrightarrow> \<not> rp_enabled (as_reconnect (runActions e as ?t))"
    using 2(2) t(1) r by simp_all
  then show ?case
    using a t r quiet_log_trans by (metis fst_conv runActions.simps(2) snd_conv)
qed

text \<open>Everything that can happen to a session, each with the environment it happens in.\<close>

datatype session_in =
    SPassword string string | SSaved string | SLogout bool | SCancel | STick
  | SConnectResult bool | SDisconnected bool
  | SLoginRs int auth_result u32 | STokenLoginRs int int u32 | SRefreshRs int auth_result u32
  | SLogoutRs u32 | SKicked | STimer

fun session_step :: "'s session_env \<Rightarrow> session_in \<Rightarrow> 's account_session \<Rightarrow> 's account_session" where
  "session_step e (SPassword a p) s = snd (startWithPassword e a p s)"
| "session_step e (SSaved a) s = snd (startWithSavedToken e a s)"
| "session_step e (SLogout b) s = as_logout e b s"
| "session_step e SCancel s = as_cancel e s"
| "session_step e STick s = as_tick e s"
| "session_step e (SConnectResult ok) s = onConnectResult e ok s"
| "session_step e (SDisconnected i) s = as_onDisconnected e i s"
| "session_step e (SLoginRs r ar g) s = onLoginResult e r ar g s"
| "session_step e (STokenLoginRs r u g) s = onTokenLoginResult e r u g s"
| "session_step e (SRefreshRs r ar g) s = onRefreshResult e r ar g s"
| "session_step e (SLogoutRs g) s = onLogoutResult e g s"
| "session_step e SKicked s = as_onKicked e s"
| "session_step e STimer s = onReconnectFired s"

definition session_run ::
  "('s session_env \<times> session_in) list \<Rightarrow> 's account_session \<Rightarrow> 's account_session" where
  "session_run is s = fold (\<lambda>(e, i). session_step e i) is s"

fun asks_login :: "session_in \<Rightarrow> bool" where
  "asks_login (SPassword _ _) = True"
| "asks_login (SSaved _) = True"
| "asks_login _ = False"

fun asks_logout :: "session_in \<Rightarrow> bool" where
  "asks_logout (SLogout _) = True"
| "asks_logout _ = False"

text \<open>A machine step and its actions, from a quiet session.\<close>

lemma quiet_machine:
  assumes "quiet (as_sm s)" and "\<not> is_login i" and "i = InLogout \<longrightarrow> lo" and "sm_step i (as_sm s) = (m, acts)"
    and "as_sm s' = m" and "as_log s' = as_log s"
  shows "quiet (as_sm (runActions e acts s')) \<and> quiet_log lo s (runActions e acts s') \<and>
    (\<not> rp_enabled (as_reconnect s') \<longrightarrow> \<not> rp_enabled (as_reconnect (runActions e acts s')))"
proof -
  have "quiet m" "quiet_acts lo acts"
    using quiet_step [OF assms(1,2,4,3)] by auto
  then show ?thesis
    using quiet_runActions [of s' lo acts e] assms(5,6) by (auto simp: quiet_log_def)
qed

text \<open>One step of a quiet session that nobody asks to log in.\<close>

definition quiet_next :: "bool \<Rightarrow> bool \<Rightarrow> 's account_session \<Rightarrow> 's account_session \<Rightarrow> bool" where
  "quiet_next re lo s s' \<longleftrightarrow> quiet (as_sm s') \<and> quiet_log lo s s' \<and>
     (\<not> re \<longrightarrow> \<not> rp_enabled (as_reconnect s) \<longrightarrow> \<not> rp_enabled (as_reconnect s'))"

lemma quiet_next_refl: "quiet (as_sm s) \<Longrightarrow> quiet_next re lo s s"
  by (simp add: quiet_next_def)

lemma quiet_next_machine:
  assumes "quiet (as_sm s)" and "\<not> is_login i" and "i = InLogout \<longrightarrow> lo" and "sm_step i (as_sm s) = (m, acts)"
    and "as_sm s' = m" and "as_log s' = as_log s" and "re \<or> as_reconnect s' = as_reconnect s"
  shows "quiet_next re lo s (runActions e acts s')"
  using quiet_machine [OF assms(1-6), of e] assms(7) by (auto simp: quiet_next_def)

lemma quiet_logout: "quiet (as_sm s) \<Longrightarrow> quiet_next False True s (as_logout e b s)"
  unfolding as_logout_def
  by (cases "requestLogout (as_sm s)") (auto intro!: quiet_next_machine [where i = InLogout])

lemma quiet_cancel: "quiet (as_sm s) \<Longrightarrow> quiet_next False lo s (as_cancel e s)"
  unfolding as_cancel_def
  by (cases "cancelAuthentication (as_sm s)"; cases "cancelRefresh (en_ops e) (as_tokens s)")
    (auto intro!: quiet_next_machine [where i = InCancel])

lemma quiet_tick: "quiet (as_sm s) \<Longrightarrow> quiet_next False lo s (as_tick e s)"
  by (auto simp: as_tick_def maybeAutoRefresh_def quiet_def intro: quiet_next_refl)

lemma quiet_connect:
  assumes q: "quiet (as_sm s)"
  shows "quiet_next ok lo s (onConnectResult e ok s)"
proof (cases ok)
  case True
  show ?thesis
  proof (cases "as_reauth s")
    case r: True
    obtain m op acts where "requestTokenLoginOnConnected (as_sm s) = (m, op, acts)"
      by (cases "requestTokenLoginOnConnected (as_sm s)")
    then show ?thesis
      using True r
      by (auto simp: onConnectResult_def Let_def intro!: quiet_next_machine [OF q, of InTokenOnConnected])
  next
    case False
    obtain m acts where "sm_onConnected (as_sm s) = (m, acts)" by fastforce
    then show ?thesis
      using True False
      by (auto simp: onConnectResult_def Let_def intro!: quiet_next_machine [OF q, of InConnected])
  qed
next
  case False
  obtain m acts where "sm_onDisconnected False (as_sm s) = (m, acts)" by fastforce
  then show ?thesis
    using False
    by (auto simp: onConnectResult_def intro!: quiet_next_machine [OF q, of "InDisconnected False"])
qed

lemma quiet_disconnected: "quiet (as_sm s) \<Longrightarrow> quiet_next False lo s (as_onDisconnected e i s)"
  unfolding as_onDisconnected_def
  by (cases "sm_onDisconnected i (as_sm s)")
    (auto simp: Let_def suspendRefresh_def intro!: quiet_next_machine [where i = "InDisconnected i"])

lemma quiet_login_rs:
  assumes "quiet (as_sm s)"
  shows "quiet_next False lo s (onLoginResult e r ar g s)"
proof -
  let ?g = "callback_gen g s"
  have 1: "quiet_next False lo s (runActions e acts (s\<lparr>as_tokens := tk, as_sm := m\<rparr>))"
    if "onAuthSucceeded ?g (ar_user ar) (as_sm s) = (m, acts)" for m acts tk
    by (rule quiet_next_machine [OF assms, of "InAuthOk ?g (ar_user ar)"]) (use that in auto)
  have 2: "quiet_next False lo s (runActions e acts (s\<lparr>as_tokens := tk, as_sm := m\<rparr>))"
    if "onAuthFailed ?g err (as_sm s) = (m, acts)" for m acts tk err
    by (rule quiet_next_machine [OF assms, of "InAuthFail ?g err"]) (use that in auto)
  have 3: "quiet_next False lo s (runActions e acts (s\<lparr>as_sm := m\<rparr>))"
    if "onAuthFailed ?g err (as_sm s) = (m, acts)" for m acts err
    by (rule quiet_next_machine [OF assms, of "InAuthFail ?g err"]) (use that in auto)
  show ?thesis
    by (auto simp: onLoginResult_def Let_def quiet_next_refl [OF assms] 1 2 3
        split: prod.splits if_splits)
qed

lemma quiet_token_login_rs:
  assumes "quiet (as_sm s)"
  shows "quiet_next False lo s (onTokenLoginResult e r u g s)"
proof -
  let ?g = "callback_gen g s"
  have 1: "quiet_next False lo s (runActions e acts (s\<lparr>as_sm := m\<rparr>))"
    if "onAuthSucceeded ?g u (as_sm s) = (m, acts)" for m acts
    by (rule quiet_next_machine [OF assms, of "InAuthOk ?g u"]) (use that in auto)
  have 2: "quiet_next False lo s (runActions e acts (s\<lparr>as_sm := m\<rparr>))"
    if "onAuthFailed ?g err (as_sm s) = (m, acts)" for m acts err
    by (rule quiet_next_machine [OF assms, of "InAuthFail ?g err"]) (use that in auto)
  show ?thesis
    by (auto simp: onTokenLoginResult_def Let_def quiet_next_refl [OF assms] 1 2
        split: prod.splits if_splits)
qed

lemma quiet_next_trans: "quiet_next False lo s t \<Longrightarrow> quiet_next False lo t u \<Longrightarrow> quiet_next False lo s u"
  unfolding quiet_next_def using quiet_log_trans by blast

lemma quiet_refresh_rs:
  assumes q: "quiet (as_sm s)"
  shows "quiet_next False lo s (onRefreshResult e r ar g s)"
proof -
  let ?g = "callback_gen g s"
  have ok: "quiet_next False lo s (runActions e acts (s\<lparr>as_tokens := tk, as_sm := m, as_tokenAfter := False\<rparr>))"
    if "onRefreshSucceeded ?g (as_sm s) = (m, acts)" for m acts tk
    by (rule quiet_next_machine [OF q, of "InRefreshOk ?g"]) (use that in auto)
  have failed: "quiet_next False lo s (runActions e acts (s\<lparr>as_tokens := tk, as_sm := m\<rparr>))"
    if "onRefreshFailed ?g err (as_sm s) = (m, acts)" for m acts tk err
    by (rule quiet_next_machine [OF q, of "InRefreshFail ?g err"]) (use that in auto)
  have cont: "quiet_next False lo s (runActions e acts (t\<lparr>as_sm := m, as_gen := sm_gen m\<rparr>))"
    if "quiet_next False lo s t" "requestTokenLoginOnConnected (as_sm t) = (m, op, acts)" for t m op acts
  proof (rule quiet_next_trans [OF that(1)])
    show "quiet_next False lo t (runActions e acts (t\<lparr>as_sm := m, as_gen := sm_gen m\<rparr>))"
      by (rule quiet_next_machine [of t InTokenOnConnected])
        (use that in \<open>auto simp: quiet_next_def\<close>)
  qed
  have rej: "quiet_next False lo s (runActions e acts t)" if "refresh_rejected e g s = (acts, t)" for acts t
    using that failed quiet_next_refl [OF q, of False]
    by (auto simp: refresh_rejected_def Let_def split: if_splits prod.splits)
  consider "?g \<noteq> sm_gen (as_sm s)" | "?g = sm_gen (as_sm s)" "r = LOGIN_SUCCESS"
    | "?g = sm_gen (as_sm s)" "r \<noteq> LOGIN_SUCCESS"
    by blast
  then show ?thesis
  proof cases
    case 1
    then show ?thesis by (simp add: onRefreshResult_def quiet_next_refl [OF q])
  next
    case 2
    obtain b tk where rot: "rotateTokens (en_ops e) (ar_access ar) (ar_refresh ar) (ar_accessExp ar)
        (ar_refreshExp ar) (ar_sid ar) (as_tokens s) = (b, tk)" by fastforce
    obtain m acts where f: "onRefreshFailed ?g InternalError (as_sm s) = (m, acts)" by fastforce
    obtain m' acts' where o: "onRefreshSucceeded ?g (as_sm s) = (m', acts')" by fastforce
    let ?t = "runActions e acts' (s\<lparr>as_tokens := tk, as_sm := m', as_tokenAfter := False\<rparr>)"
    obtain m'' op acts'' where c: "requestTokenLoginOnConnected (as_sm ?t) = (m'', op, acts'')"
      by (cases "requestTokenLoginOnConnected (as_sm ?t)")
    show ?thesis
      using 2 rot f o c failed [OF f] ok [OF o] cont [OF ok [OF o] c]
      by (simp add: onRefreshResult_def Let_def)
  next
    case 3
    obtain acts t where "refresh_rejected e g s = (acts, t)" by fastforce
    then show ?thesis
      using 3 rej by (simp add: onRefreshResult_def)
  qed
qed

lemma quiet_logout_rs:
  assumes "quiet (as_sm s)"
  shows "quiet_next False lo s (onLogoutResult e g s)"
proof -
  obtain acts s' where d: "logout_done e g s = (acts, s')" by fastforce
  note l = quiet_logout_done [OF assms d]
  show ?thesis
    using quiet_runActions [of s' lo acts e] l quiet_log_same [of s s' lo]
    by (auto simp: onLogoutResult_def d quiet_next_def)
qed

lemma quiet_kicked: "quiet (as_sm s) \<Longrightarrow> quiet_next False lo s (as_onKicked e s)"
  unfolding as_onKicked_def
  by (cases "sm_onKicked KickedByOtherDevice (as_sm s)"; cases "revokeFamily (en_ops e) (as_tokens s)")
    (auto intro!: quiet_next_machine [where i = "InKicked KickedByOtherDevice"])

lemma session_step_quiet:
  assumes q: "quiet (as_sm s)" and "\<not> asks_login i" and "i \<noteq> STimer"
  shows "quiet_next (i = SConnectResult True) (asks_logout i) s (session_step e i s)"
proof (cases i)
  case (SConnectResult ok)
  then show ?thesis using quiet_connect [OF q, of ok "asks_logout i" e] by (cases ok) simp_all
qed (use assms in \<open>simp_all add: quiet_logout quiet_cancel quiet_tick quiet_disconnected quiet_login_rs
    quiet_token_login_rs quiet_refresh_rs quiet_logout_rs quiet_kicked\<close>)

text \<open>
  A connection is opened only when the reconnect policy is on and the timer fires; only a successful
  connection switches the policy on.
\<close>

definition connects :: "bool \<Rightarrow> session_in list \<Rightarrow> bool" where
  "connects on is \<longleftrightarrow> (on \<and> STimer \<in> set is) \<or> subseq [SConnectResult True, STimer] is"

lemma connects_Cons:
  assumes "connects on' is" and "on' \<longrightarrow> on \<or> i = SConnectResult True"
  shows "connects on (i # is)"
proof -
  have "STimer \<in> set is \<or> subseq [SConnectResult True, STimer] is \<Longrightarrow> subseq [STimer] is"
    by (metis subseq_Cons' subseq_singleton_left)
  then show ?thesis using assms by (auto simp: connects_def subseq_singleton_left)
qed

lemma session_run_quiet:
  "quiet (as_sm s) \<Longrightarrow> \<forall>(e, i) \<in> set is. \<not> asks_login i \<Longrightarrow>
   quiet (as_sm (session_run is s)) \<and>
   (\<exists>l. as_log (session_run is s) = as_log s @ l \<and> (\<forall>x \<in> set l. \<not> out_login x) \<and>
        (OConnect \<in> set l \<longrightarrow> connects (rp_enabled (as_reconnect s)) (map snd is)) \<and>
        (list_ex out_logout l \<longrightarrow> list_ex asks_logout (map snd is)))"
proof (induction "is" arbitrary: s)
  case Nil
  then show ?case by (simp add: session_run_def)
next
  case (Cons ei "is")
  obtain e i where ei: "ei = (e, i)" by fastforce
  let ?s = "session_step e i s"
  have run: "session_run (ei # is) s = session_run is ?s"
    by (simp add: session_run_def ei)
  have "quiet (as_sm ?s) \<and> (\<exists>l1. as_log ?s = as_log s @ l1 \<and> (\<forall>x \<in> set l1. \<not> out_login x) \<and>
      (OConnect \<in> set l1 \<longrightarrow> rp_enabled (as_reconnect s) \<and> i = STimer) \<and>
      (list_ex out_logout l1 \<longrightarrow> asks_logout i)) \<and>
      (rp_enabled (as_reconnect ?s) \<longrightarrow> rp_enabled (as_reconnect s) \<or> i = SConnectResult True)"
  proof (cases "i = STimer")
    case True
    then show ?thesis
      using Cons.prems(1) by (auto simp: onReconnectFired_def out_def)
  next
    case False
    have "quiet_next (i = SConnectResult True) (asks_logout i) s ?s"
      using session_step_quiet [OF Cons.prems(1) _ False] Cons.prems(2) ei by simp
    then show ?thesis
      by (fastforce simp: quiet_next_def quiet_log_def list_ex_iff)
  qed
  then obtain l1 where q: "quiet (as_sm ?s)" and l1: "as_log ?s = as_log s @ l1" "\<forall>x \<in> set l1. \<not> out_login x"
    "OConnect \<in> set l1 \<longrightarrow> rp_enabled (as_reconnect s) \<and> i = STimer" "list_ex out_logout l1 \<longrightarrow> asks_logout i"
    and re: "rp_enabled (as_reconnect ?s) \<longrightarrow> rp_enabled (as_reconnect s) \<or> i = SConnectResult True"
    by blast
  obtain l2 where l2: "as_log (session_run is ?s) = as_log ?s @ l2" "\<forall>x \<in> set l2. \<not> out_login x"
    "OConnect \<in> set l2 \<longrightarrow> connects (rp_enabled (as_reconnect ?s)) (map snd is)"
    "list_ex out_logout l2 \<longrightarrow> list_ex asks_logout (map snd is)"
    and q2: "quiet (as_sm (session_run is ?s))"
    using Cons.IH [OF q] Cons.prems(2) by auto
  have "as_log (session_run is ?s) = as_log s @ (l1 @ l2)" using l1 l2 by simp
  moreover have "OConnect \<in> set (l1 @ l2) \<longrightarrow> connects (rp_enabled (as_reconnect s)) (map snd (ei # is))"
  proof
    assume "OConnect \<in> set (l1 @ l2)"
    then consider "OConnect \<in> set l1" | "OConnect \<in> set l2" by auto
    then show "connects (rp_enabled (as_reconnect s)) (map snd (ei # is))"
    proof cases
      case 1
      then show ?thesis using l1(3) by (simp add: connects_def ei)
    next
      case 2
      then show ?thesis using connects_Cons [OF _ re] l2(3) by (simp add: ei)
    qed
  qed
  ultimately show ?case
    unfolding run using q2 l1(2,4) l2(2,4) ei
    by (intro conjI exI [of _ "l1 @ l2"]) auto
qed

text \<open>
  C23: what a kicked session may still do. After \<open>onKicked\<close>, whatever results, connection changes,
  ticks and timers follow - late ones of any generation included - until the user asks for a login
  the session sends no password, no token login and no refresh, schedules no reconnect and reports no
  login, and stays logged out. It asks the server to end the session only if the user logs out. It
  opens a connection only if a connection attempt succeeds after the kick and a reconnect timer fires
  after that. (That it then does connect is the shortcoming \<open>kicked_session_reconnects\<close>.)
\<close>

theorem kicked_session_stays_logged_out:
  fixes e0 :: "'s session_env" and s0 :: "'s account_session"
  assumes "\<forall>(e, i) \<in> set is. \<not> asks_login i"
  defines "s \<equiv> as_onKicked e0 s0"
  shows "sm_state (as_sm (session_run is s)) \<in> {LoggedOutKicked, LoggedOut} \<and>
    (\<exists>l. as_log (session_run is s) = as_log s @ l \<and> (\<forall>x \<in> set l. \<not> out_login x) \<and>
         (list_ex out_logout l \<longrightarrow> list_ex asks_logout (map snd is)) \<and>
         (OConnect \<in> set l \<longrightarrow> subseq [SConnectResult True, STimer] (map snd is)))"
proof -
  obtain m acts where m: "sm_onKicked KickedByOtherDevice (as_sm s0) = (m, acts)" by fastforce
  obtain b tk where tk: "revokeFamily (en_ops e0) (as_tokens s0) = (b, tk)" by fastforce
  let ?t = "s0\<lparr>as_tokens := tk, as_sm := m\<rparr>"
  have s: "s = runActions e0 acts ?t"
    by (simp add: s_def as_onKicked_def m tk)
  have m': "quiet m" and acts: "\<exists>as. acts = CancelReconnect # as \<and> quiet_acts False as"
    using m by (auto simp: sm_onKicked_def frame_simps sm_emit_def makeEvent_def quiet_def quiet_acts_def
        is_event_def Let_def)
  then obtain "as" where as: "acts = CancelReconnect # as" "quiet_acts False as" by blast
  let ?u = "out OCancelReconnect (?t\<lparr>as_reconnect := rp_disable (as_reconnect s0)\<rparr>)"
  have "s = runActions e0 as ?u"
    unfolding s as by (simp add: run_action_def)
  moreover have "quiet (as_sm ?u)" "\<not> rp_enabled (as_reconnect ?u)"
    using m' by (simp_all add: out_def rp_disable_def)
  ultimately have "quiet (as_sm s)" "\<not> rp_enabled (as_reconnect s)"
    using quiet_runActions [of ?u False "as" e0] as(2) by simp_all
  then show ?thesis
    using session_run_quiet [of s "is"] assms(1) by (auto simp: quiet_def connects_def)
qed

abbreviation demo_env :: "jni_store session_env" where
  "demo_env \<equiv> \<lparr>en_ops = jni_ops (\<lambda>_. True), en_signer = \<lparr>sg_pub = [1], sg_sign = (\<lambda>m. [7])\<rparr>,
     en_device = ''d'', en_now = 10, en_channel = [9], en_jitter = None\<rparr>"

abbreviation demo_result :: auth_result where
  "demo_result \<equiv> \<lparr>ar_user = 7, ar_access = ''A'', ar_refresh = ''R'', ar_accessExp = 500,
     ar_refreshExp = 900, ar_sid = ''s''\<rparr>"

theorem kicked_session_stays_logged_out_witness:
  "let s = as_onKicked demo_env (snd (startWithPassword demo_env ''a'' ''p'' (as_new (js_open None))))
   in sm_state (as_sm (session_run [(demo_env, SConnectResult True), (demo_env, SLoginRs 0 demo_result 1),
        (demo_env, STimer)] s)) \<in> {LoggedOutKicked, LoggedOut}"
  using kicked_session_stays_logged_out [of "[(demo_env, SConnectResult True), (demo_env, SLoginRs 0 demo_result 1),
      (demo_env, STimer)]" demo_env "snd (startWithPassword demo_env ''a'' ''p'' (as_new (js_open None)))"]
  by (simp only: Let_def) auto

text \<open>
  A kicked session connects again. A connection attempt that was under way when the kick arrived, and
  succeeds afterwards, resets the reconnect policy, which also switches it on again; a reconnect timer
  that was already running then opens a connection.
\<close>

theorem kicked_session_reconnects:
  fixes e0 e1 :: "'s session_env" and s0 :: "'s account_session"
  defines "k \<equiv> as_onKicked e0 s0"
  shows "sm_state (as_sm k) = LoggedOutKicked \<and> \<not> rp_enabled (as_reconnect k) \<and>
    as_log (onReconnectFired (onConnectResult e1 True k)) = as_log k @ [OConnect]"
proof -
  obtain b tk where tk: "revokeFamily (en_ops e0) (as_tokens s0) = (b, tk)" by fastforce
  have k: "sm_state (as_sm k) = LoggedOutKicked" "\<not> rp_enabled (as_reconnect k)"
    by (simp_all add: k_def as_onKicked_def tk sm_unfold run_action_def out_def rp_disable_def)
  then show ?thesis
    by (simp add: onConnectResult_def onReconnectFired_def out_def rp_reset_def sm_unfold)
qed

section \<open>Results of requests\<close>

definition event :: "event_type \<Rightarrow> auth_machine \<Rightarrow> account_state \<Rightarrow> auth_error \<Rightarrow> int \<Rightarrow> session_out" where
  "event ty m st err user =
     OEvent \<lparr>ev_type = ty, ev_op = sm_op m, ev_state = st, ev_error = err, ev_user = user\<rparr>"

text \<open>
  C33: the result of a password login, on every branch. A result carries its generation, or 0 for the
  session's own. A result of another generation than the machine's changes nothing. While a login is
  in progress, success either stores the tokens and reports it, or, when the tokens cannot be stored,
  reports an internal error, keeps the old credentials and disconnects; a refusal reports the mapped
  error and disconnects, with the credentials untouched. When no login is in progress, a refusal
  changes nothing, and a success reports and sends nothing, but what \<open>adopt\<close> does to the tokens
  stays: the credentials of a login nobody waits for are stored.
\<close>

theorem login_result_correct:
  fixes s :: "'s account_session" and e :: "'s session_env" and r :: auth_result and res :: int and g :: u32
  defines "sess \<equiv> \<lparr>ts_access = ar_access r, ts_refresh = ar_refresh r, ts_accessExp = ar_accessExp r,
      ts_refreshExp = ar_refreshExp r, ts_sid = ar_sid r, ts_account = as_account s\<rparr>"
    and "own \<equiv> (if g = 0 then as_gen s else g) = sm_gen (as_sm s)"
    and "s' \<equiv> onLoginResult e res r g s"
  shows "(\<not> own \<longrightarrow> s' = s) \<and>
    (own \<and> sm_state (as_sm s) \<noteq> Authenticating \<longrightarrow>
       s' = (if res = LOGIN_SUCCESS then s\<lparr>as_tokens := snd (adopt (en_ops e) sess (as_tokens s))\<rparr> else s)) \<and>
    (own \<and> sm_state (as_sm s) = Authenticating \<and> res = LOGIN_SUCCESS \<and> fst (adopt (en_ops e) sess (as_tokens s)) \<longrightarrow>
       sm_state (as_sm s') = Authenticated \<and> tm_session (as_tokens s') = sess \<and>
       as_log s' = as_log s @ [event StateChanged (as_sm s) Authenticated NoError 0,
                               event LoginSucceeded (as_sm s) Authenticated NoError (ar_user r)]) \<and>
    (own \<and> sm_state (as_sm s) = Authenticating \<and> res = LOGIN_SUCCESS \<and> \<not> fst (adopt (en_ops e) sess (as_tokens s)) \<longrightarrow>
       sm_state (as_sm s') = LoggedOut \<and> tm_session (as_tokens s') = tm_session (as_tokens s) \<and>
       as_log s' = as_log s @ [event LoginFailed (as_sm s) Authenticating InternalError 0,
                               event StateChanged (as_sm s) LoggedOut NoError 0, ODisconnect]) \<and>
    (own \<and> sm_state (as_sm s) = Authenticating \<and> res \<noteq> LOGIN_SUCCESS \<longrightarrow>
       sm_state (as_sm s') = LoggedOut \<and> as_tokens s' = as_tokens s \<and>
       as_log s' = as_log s @ [event LoginFailed (as_sm s) Authenticating (mapLoginError res) 0,
                               event StateChanged (as_sm s) LoggedOut NoError 0, ODisconnect])"
proof -
  obtain ok tk where a: "adopt (en_ops e) sess (as_tokens s) = (ok, tk)" by fastforce
  have t: "tm_session tk = (if ok then sess else tm_session (as_tokens s))"
    using a by (auto simp: adopt_def Let_def split: prod.splits if_splits)
  have g: "callback_gen g s = sm_gen (as_sm s) \<longleftrightarrow> own" by (simp add: own_def callback_gen_def)
  have 1: "s' = s" if "\<not> own"
    using that g by (simp add: s'_def onLoginResult_def Let_def)
  have 2: "s' = (if res = LOGIN_SUCCESS then s\<lparr>as_tokens := tk\<rparr> else s)"
    if "own" "sm_state (as_sm s) \<noteq> Authenticating"
    using that g a by (auto simp: s'_def onLoginResult_def sess_def [symmetric] sm_unfold Let_def)
  have 3: "sm_state (as_sm s') = Authenticated \<and> tm_session (as_tokens s') = sess \<and>
      as_log s' = as_log s @ [event StateChanged (as_sm s) Authenticated NoError 0,
        event LoginSucceeded (as_sm s) Authenticated NoError (ar_user r)]"
    if "own" "sm_state (as_sm s) = Authenticating" "res = LOGIN_SUCCESS" "ok"
    using that a t g
    by (simp add: s'_def onLoginResult_def sess_def [symmetric] sm_unfold run_action_def out_def event_def)
  have 4: "sm_state (as_sm s') = LoggedOut \<and> tm_session (as_tokens s') = tm_session (as_tokens s) \<and>
      as_log s' = as_log s @ [event LoginFailed (as_sm s) Authenticating InternalError 0,
        event StateChanged (as_sm s) LoggedOut NoError 0, ODisconnect]"
    if "own" "sm_state (as_sm s) = Authenticating" "res = LOGIN_SUCCESS" "\<not> ok"
    using that a t g
    by (simp add: s'_def onLoginResult_def sess_def [symmetric] sm_unfold run_action_def out_def event_def)
  have 5: "sm_state (as_sm s') = LoggedOut \<and> as_tokens s' = as_tokens s \<and>
      as_log s' = as_log s @ [event LoginFailed (as_sm s) Authenticating (mapLoginError res) 0,
        event StateChanged (as_sm s) LoggedOut NoError 0, ODisconnect]"
    if "own" "sm_state (as_sm s) = Authenticating" "res \<noteq> LOGIN_SUCCESS"
    using that g by (simp add: s'_def onLoginResult_def sm_unfold run_action_def out_def event_def)
  show ?thesis
    using 1 2 3 4 5 a by auto
qed

text \<open>A session in the middle of its first login.\<close>

definition demo_login :: "jni_store account_session" where
  "demo_login = snd (startWithPassword demo_env ''a'' ''p'' (as_new (js_open None)))"

lemma demo_login_state:
  "sm_state (as_sm demo_login) = Authenticating \<and> sm_gen (as_sm demo_login) = 1 \<and>
   as_log demo_login = [event StateChanged (as_sm demo_login) Authenticating NoError 0, OConnect] \<and>
   as_tokens demo_login = tm_new 60 (js_open None) \<and> as_account demo_login = ''a'' \<and>
   as_password demo_login = ''p'' \<and> \<not> as_reauth demo_login"
  by (simp add: demo_login_def startWithPassword_def as_new_def sm_init_def sm_unfold run_action_def
      out_def event_def)

theorem login_result_correct_witness:
  "sm_state (as_sm (onLoginResult demo_env 2 demo_result 1 demo_login)) = LoggedOut \<and>
   sm_state (as_sm (onLoginResult demo_env 0 demo_result 1 demo_login)) = Authenticated"
proof -
  let ?sess = "\<lparr>ts_access = ''A'', ts_refresh = ''R'', ts_accessExp = 500, ts_refreshExp = 900,
    ts_sid = ''s'', ts_account = as_account demo_login\<rparr>"
  obtain t' where "adopt (jni_ops (\<lambda>_. True)) ?sess (as_tokens demo_login) = (True, t')"
    using adopt_total [of "\<lambda>_. True"] by blast
  then show ?thesis
    using login_result_correct [where s = demo_login and g = 1 and r = demo_result and e = demo_env and res = 2]
      login_result_correct [where s = demo_login and g = 1 and r = demo_result and e = demo_env and res = 0]
      demo_login_state
    by simp
qed

text \<open>
  A cancelled attempt has no late effects. Once the user cancels, every login, token
  login, refresh and logout result of the generation before the cancel is ignored: the session
  stays exactly as the cancel left it.
\<close>

theorem cancelled_results_ignored:
  fixes s :: "'s account_session" and e :: "'s session_env"
  assumes "g = sm_gen (as_sm s)" and "g \<noteq> 0"
  defines "s' \<equiv> as_cancel e s"
  shows "onLoginResult e' res r g s' = s' \<and> onTokenLoginResult e' res u g s' = s' \<and>
         onRefreshResult e' res r g s' = s' \<and> onLogoutResult e' g s' = s'"
proof -
  have gen: "sm_gen (as_sm s') = g + 1"
    using assms(1)
    by (simp add: s'_def as_cancel_def sm_unfold run_action_def out_def split: prod.split)
  then have "g \<noteq> sm_gen (as_sm s')" by simp
  then show ?thesis
    using assms(2) by (simp add: onLoginResult_def onTokenLoginResult_def onRefreshResult_def
        onLogoutResult_def callback_gen_def logout_done_def Let_def)
qed

theorem cancelled_results_ignored_witness:
  "onLoginResult demo_env 0 demo_result 1 (as_cancel demo_env demo_login) = as_cancel demo_env demo_login"
  using cancelled_results_ignored [where g = 1 and s = demo_login and e = demo_env and e' = demo_env
      and res = 0 and r = demo_result] demo_login_state
  by simp

text \<open>
  A password login after a lost connection can hang. When a signed-in session loses its
  connection, the flag that makes the next connection log in by token is set, and starting a
  password login does not clear it: the connection made for the password login uses the flag up,
  finds the machine not signed in, and sends nothing. The login stays in progress, with the
  password still in memory.
\<close>

theorem password_login_lost:
  fixes s :: "'s account_session" and e1 e2 e3 :: "'s session_env" and account password :: string
  assumes "sm_state (as_sm s) = Authenticated" and "sm_next (as_sm s) \<noteq> 0"
  defines "s1 \<equiv> as_onDisconnected e1 False s"
  defines "s2 \<equiv> snd (startWithPassword e2 account password s1)"
  defines "s3 \<equiv> onConnectResult e3 True s2"
  shows "sm_state (as_sm s3) = Authenticating \<and> as_log s3 = as_log s2 \<and> as_password s3 = password \<and>
         (\<forall>a p g. OPasswordLogin a p g \<in> set (as_log s3) \<longrightarrow> OPasswordLogin a p g \<in> set (as_log s))"
proof -
  have s1: "sm_state (as_sm s1) = Authenticated" "as_reauth s1"
    "as_sm s1 = as_sm s" "\<exists>l. as_log s1 = as_log s @ l \<and> (\<forall>a p g. OPasswordLogin a p g \<notin> set l)"
    using assms(1) by (auto simp: s1_def as_onDisconnected_def sm_unfold run_action_def out_def
        split: prod.splits)
  have s2: "sm_state (as_sm s2) = Authenticating \<and> as_reauth s2 \<and> as_password s2 = password \<and>
      (\<exists>l. as_log s2 = as_log s1 @ l \<and> (\<forall>a p g. OPasswordLogin a p g \<notin> set l))"
    using s1 assms(2)
    by (auto simp: s2_def startWithPassword_def sm_unfold run_action_def out_def)
  have s3: "s3 = s2\<lparr>as_reconnect := rp_reset (as_reconnect s2), as_reauth := False,
      as_gen := sm_gen (as_sm s2)\<rparr>"
    using s2 by (simp add: s3_def onConnectResult_def sm_unfold)
  show ?thesis
    using s1(4) s2 s3 by auto
qed

definition demo_online :: "jni_store account_session" where
  "demo_online = onLoginResult demo_env 0 demo_result 1 demo_login"

theorem password_login_lost_witness:
  "let s2 = snd (startWithPassword demo_env ''b'' ''q'' (as_onDisconnected demo_env False demo_online));
       s3 = onConnectResult demo_env True s2
   in sm_state (as_sm s3) = Authenticating \<and> as_log s3 = as_log s2 \<and> as_password s3 = ''q''"
proof -
  obtain t' where t': "adopt (jni_ops (\<lambda>_. True)) \<lparr>ts_access = ''A'', ts_refresh = ''R'', ts_accessExp = 500,
      ts_refreshExp = 900, ts_sid = ''s'', ts_account = ''a''\<rparr> (as_tokens demo_login) = (True, t')"
    using adopt_total [of "\<lambda>_. True"] by blast
  have n: "sm_next (as_sm demo_login) = 2"
    by (simp add: demo_login_def startWithPassword_def as_new_def sm_init_def sm_unfold run_action_def out_def)
  have "sm_state (as_sm demo_online) = Authenticated" "sm_next (as_sm demo_online) = 2"
    using demo_login_state t' n
    by (simp_all add: demo_online_def onLoginResult_def callback_gen_def sm_unfold run_action_def out_def)
  then show ?thesis
    using password_login_lost [where s = demo_online and ?e1.0 = demo_env and ?e2.0 = demo_env and ?e3.0 = demo_env
      and account = "''b''" and password = "''q''"]
    by (simp add: Let_def)
qed

text \<open>
  A late refresh result brings kicked credentials back. A kick does not start a new
  generation, so the result of a refresh that was in flight is still accepted by the token
  manager, although the state machine ignores it: the credentials the kick had erased are valid
  again, in memory and in the store.
\<close>

theorem late_refresh_revives_credentials:
  fixes s :: "'s account_session" and e e' :: "'s session_env" and r :: auth_result
  assumes "ar_access r \<noteq> []" and "ar_refresh r \<noteq> []" and "sm_gen (as_sm s) \<noteq> 0"
  defines "k \<equiv> as_onKicked e s"
  defines "s' \<equiv> onRefreshResult e' LOGIN_SUCCESS r (sm_gen (as_sm s)) k"
  assumes "fst (rotateTokens (en_ops e') (ar_access r) (ar_refresh r) (ar_accessExp r) (ar_refreshExp r)
      (ar_sid r) (as_tokens k))"
  shows "\<not> session_valid (tm_session (as_tokens k)) \<and> session_valid (tm_session (as_tokens s')) \<and>
         sm_state (as_sm k) = LoggedOutKicked \<and> ts_refresh (tm_session (as_tokens s')) = ar_refresh r"
proof -
  obtain b tk where tk: "revokeFamily (en_ops e) (as_tokens s) = (b, tk)" by fastforce
  then have inv: "\<not> session_valid (tm_session tk)"
    by (auto simp: revokeFamily_def clearMemory_def empty_session_def session_valid_def split: prod.splits)
  have k: "as_tokens k = tk" "sm_state (as_sm k) = LoggedOutKicked" "sm_gen (as_sm k) = sm_gen (as_sm s)"
    by (simp_all add: k_def as_onKicked_def tk sm_unfold run_action_def out_def)
  obtain tk' where r: "rotateTokens (en_ops e') (ar_access r) (ar_refresh r) (ar_accessExp r) (ar_refreshExp r)
      (ar_sid r) (as_tokens k) = (True, tk')"
    using assms(6) by (cases "rotateTokens (en_ops e') (ar_access r) (ar_refresh r) (ar_accessExp r)
        (ar_refreshExp r) (ar_sid r) (as_tokens k)") auto
  then have v: "ts_access (tm_session tk') = ar_access r" "ts_refresh (tm_session tk') = ar_refresh r"
    by (auto simp: rotateTokens_def Let_def split: prod.splits if_splits)
  have "as_tokens s' = tk'"
    using k r assms(3) by (auto simp: s'_def onRefreshResult_def callback_gen_def sm_unfold)
  then show ?thesis
    using inv k v assms(1,2) by (simp add: session_valid_def)
qed

lemma rotateTokens_total:
  assumes "ok (js_saves (tm_store t))"
  shows "fst (rotateTokens (jni_ops ok) a r ae re sid t)"
proof -
  let ?s = "if sid \<noteq> [] then (tm_session t)\<lparr>ts_access := a, ts_refresh := r, ts_accessExp := ae,
      ts_refreshExp := re\<rparr>\<lparr>ts_sid := sid\<rparr> else (tm_session t)\<lparr>ts_access := a, ts_refresh := r,
      ts_accessExp := ae, ts_refreshExp := re\<rparr>"
  obtain st where "tm_persist (jni_ops ok) True (t\<lparr>tm_session := ?s\<rparr>) = (True, st)"
    unfolding tm_persist_def Let_def jni_apply
    using js_apply_total [of ok "tm_store (t\<lparr>tm_session := ?s\<rparr>)"] assms by auto
  then show ?thesis by (simp add: rotateTokens_def Let_def)
qed

theorem late_refresh_revives_credentials_witness:
  "session_valid (tm_session (as_tokens
     (onRefreshResult demo_env 0 demo_result 1 (as_onKicked demo_env demo_login))))"
proof -
  have "fst (rotateTokens (en_ops demo_env) ''A'' ''R'' 500 900 ''s'' (as_tokens (as_onKicked demo_env demo_login)))"
    using rotateTokens_total [of "\<lambda>_. True"] by simp
  then show ?thesis
    using late_refresh_revives_credentials [where r = demo_result and s = demo_login and e = demo_env
      and e' = demo_env] demo_login_state
    by simp
qed

end
