(* ===== verification/RateLimit.thy ===== *)
theory RateLimit
  imports Prelude
begin

text \<open>
  The two limiters of the server: failed password logins
  (\<^verbatim>\<open>im_server/src/auth/LoginRateLimiter.cpp\<close>) and AI requests
  (\<^verbatim>\<open>im_server/src/ai/AiRequestLimiter.cpp\<close>).

  The clock is an \<open>int\<close> argument that never runs backwards (it is the steady clock), in the
  policy's unit. The login limiter is proved to decide exactly what the history of failures says,
  although it prunes its buckets on the way and drops stale ones every 256 failures.
\<close>

section \<open>LoginRateLimiter\<close>

record limit_policy =
  lp_pairLimit :: nat
  lp_ipLimit :: nat
  lp_window :: int
  lp_pairBlock :: int
  lp_ipBlock :: int

record bucket =
  bk_failures :: "int list"
  bk_until :: int
  bk_seen :: int

record login_limiter =
  ll_policy :: limit_policy
  ll_ip :: "string \<rightharpoonup> bucket"
  ll_pair :: "string \<rightharpoonup> bucket"
  ll_ops :: nat

definition default_policy :: limit_policy where
  "default_policy = \<lparr>lp_pairLimit = 5, lp_ipLimit = 30, lp_window = 300, lp_pairBlock = 60,
     lp_ipBlock = 300\<rparr>"

definition ll_new :: "limit_policy \<Rightarrow> login_limiter" where
  "ll_new p = \<lparr>ll_policy = p\<lparr>lp_pairLimit := max (lp_pairLimit p) 1, lp_ipLimit := max (lp_ipLimit p) 1\<rparr>,
     ll_ip = (\<lambda>_. None), ll_pair = (\<lambda>_. None), ll_ops = 0\<rparr>"

definition pairKey :: "string \<Rightarrow> string \<Rightarrow> string" where
  "pairKey ip account = ip @ [CHR 0x0A] @ account"

definition prune :: "limit_policy \<Rightarrow> int \<Rightarrow> bucket \<Rightarrow> bucket" where
  "prune p now b = b\<lparr>bk_failures := dropWhile (\<lambda>t. t < now - lp_window p) (bk_failures b)\<rparr>"

definition bk_blocked :: "bucket \<Rightarrow> int \<Rightarrow> bool" where
  "bk_blocked b now \<longleftrightarrow> bk_until b > now"

definition ll_allow :: "string \<Rightarrow> string \<Rightarrow> int \<Rightarrow> login_limiter \<Rightarrow> bool \<times> login_limiter" where
  "ll_allow ip account now l =
     (let p = ll_policy l;
          l1 = (case ll_ip l ip of None \<Rightarrow> l | Some b \<Rightarrow> l\<lparr>ll_ip := (ll_ip l)(ip \<mapsto> prune p now b)\<rparr>)
      in if (case ll_ip l1 ip of None \<Rightarrow> False | Some b \<Rightarrow> bk_blocked b now) then (False, l1)
         else if account = [] then (True, l1)
         else
           let k = pairKey ip account;
               l2 = (case ll_pair l1 k of None \<Rightarrow> l1
                     | Some b \<Rightarrow> l1\<lparr>ll_pair := (ll_pair l1)(k \<mapsto> prune p now b)\<rparr>)
           in (\<not> (case ll_pair l2 k of None \<Rightarrow> False | Some b \<Rightarrow> bk_blocked b now), l2))"

text \<open>\<open>operator[]\<close> default-constructs a missing bucket.\<close>

definition add_failure :: "limit_policy \<Rightarrow> nat \<Rightarrow> int \<Rightarrow> int \<Rightarrow> bucket option \<Rightarrow> bucket" where
  "add_failure p limit block now ob =
     (let b = (case ob of None \<Rightarrow> \<lparr>bk_failures = [], bk_until = 0, bk_seen = 0\<rparr> | Some b \<Rightarrow> b);
          b = prune p now b;
          b = b\<lparr>bk_failures := bk_failures b @ [now], bk_seen := now\<rparr>
      in if length (bk_failures b) \<ge> limit then b\<lparr>bk_until := max (bk_until b) (now + block)\<rparr> else b)"

definition keep_bucket :: "limit_policy \<Rightarrow> int \<Rightarrow> bucket \<Rightarrow> bool" where
  "keep_bucket p now b \<longleftrightarrow>
     (let stale = now - lp_window p - lp_ipBlock p in \<not> (bk_seen b < stale \<and> bk_until b \<le> stale))"

definition cleanupMaps :: "int \<Rightarrow> login_limiter \<Rightarrow> login_limiter" where
  "cleanupMaps now l =
     l\<lparr>ll_ip := map_keep (keep_bucket (ll_policy l) now) (ll_ip l),
       ll_pair := map_keep (keep_bucket (ll_policy l) now) (ll_pair l)\<rparr>"

definition recordFailure :: "string \<Rightarrow> string \<Rightarrow> int \<Rightarrow> login_limiter \<Rightarrow> login_limiter" where
  "recordFailure ip account now l =
     (let p = ll_policy l;
          l = l\<lparr>ll_ip := (ll_ip l)(ip \<mapsto> add_failure p (lp_ipLimit p) (lp_ipBlock p) now (ll_ip l ip))\<rparr>;
          l = (if account \<noteq> []
               then let k = pairKey ip account
                    in l\<lparr>ll_pair := (ll_pair l)(k \<mapsto>
                           add_failure p (lp_pairLimit p) (lp_pairBlock p) now (ll_pair l k))\<rparr>
               else l);
          l = l\<lparr>ll_ops := ll_ops l + 1\<rparr>
      in if ll_ops l mod 256 = 0 then cleanupMaps now l else l)"

definition recordSuccess :: "string \<Rightarrow> string \<Rightarrow> login_limiter \<Rightarrow> login_limiter" where
  "recordSuccess ip account l =
     (if account = [] then l else l\<lparr>ll_pair := (ll_pair l)(pairKey ip account := None)\<rparr>)"

section \<open>What the history says\<close>

text \<open>
  A key is blocked at \<open>now\<close> when some failure of its history had at least \<open>limit\<close> failures in
  the window that ends with it, and the block that failure started is still running.
\<close>

definition hist_blocked :: "nat \<Rightarrow> int \<Rightarrow> int \<Rightarrow> int list \<Rightarrow> int \<Rightarrow> bool" where
  "hist_blocked limit w block fs now \<longleftrightarrow>
     (\<exists>i < length fs. limit \<le> count_where (\<lambda>t. t \<ge> fs ! i - w) (take (Suc i) fs) \<and> fs ! i + block > now)"

datatype limit_op = Fail string string int | Success string string | Check string string int

fun op_time :: "limit_op \<Rightarrow> int option" where
  "op_time (Fail _ _ t) = Some t"
| "op_time (Success _ _) = None"
| "op_time (Check _ _ t) = Some t"

fun ll_step :: "limit_op \<Rightarrow> login_limiter \<Rightarrow> login_limiter" where
  "ll_step (Fail ip a t) l = recordFailure ip a t l"
| "ll_step (Success ip a) l = recordSuccess ip a l"
| "ll_step (Check ip a t) l = snd (ll_allow ip a t l)"

definition ll_run :: "limit_op list \<Rightarrow> login_limiter \<Rightarrow> login_limiter" where
  "ll_run ops l = fold ll_step ops l"

text \<open>The failures of an address, and of an address and account since their last success.\<close>

fun ip_history :: "string \<Rightarrow> limit_op list \<Rightarrow> int list" where
  "ip_history ip [] = []"
| "ip_history ip (op # ops) =
     (case op of Fail i a t \<Rightarrow> (if i = ip then [t] else []) | _ \<Rightarrow> []) @ ip_history ip ops"

definition hist_step :: "string \<Rightarrow> limit_op \<Rightarrow> int list \<Rightarrow> int list" where
  "hist_step k op fs =
     (case op of
        Fail i a t \<Rightarrow> if a \<noteq> [] \<and> pairKey i a = k then fs @ [t] else fs
      | Success i a \<Rightarrow> if a \<noteq> [] \<and> pairKey i a = k then [] else fs
      | Check _ _ _ \<Rightarrow> fs)"

definition pair_history :: "string \<Rightarrow> limit_op list \<Rightarrow> int list" where
  "pair_history k ops = fold (hist_step k) ops []"

definition times_ok :: "int list \<Rightarrow> bool" where
  "times_ok ts \<longleftrightarrow> sorted ts \<and> (\<forall>t \<in> set ts. 0 \<le> t)"

section \<open>One bucket\<close>

definition bucket_rel :: "nat \<Rightarrow> int \<Rightarrow> int \<Rightarrow> int \<Rightarrow> int list \<Rightarrow> bucket option \<Rightarrow> bool" where
  "bucket_rel limit w block T fs ob \<longleftrightarrow>
     sorted fs \<and> (\<forall>t \<in> set fs. t \<le> T) \<and>
     (case ob of
        None \<Rightarrow> (\<forall>t \<in> set fs. t < T - w) \<and> (\<forall>x \<ge> T. \<not> hist_blocked limit w block fs x)
      | Some b \<Rightarrow>
          (\<exists>c \<le> T - w. bk_failures b = filter (\<lambda>t. c \<le> t) fs) \<and>
          (\<forall>x \<ge> T. bk_until b > x \<longleftrightarrow> hist_blocked limit w block fs x) \<and>
          (\<forall>t \<in> set fs. t \<le> bk_seen b))"

lemma hist_blocked_Nil [simp]: "\<not> hist_blocked limit w block [] x"
  by (simp add: hist_blocked_def)

lemma hist_blocked_snoc:
  "hist_blocked limit w block (fs @ [t]) x \<longleftrightarrow>
   hist_blocked limit w block fs x \<or>
   (limit \<le> count_where (\<lambda>u. u \<ge> t - w) fs + (if 0 \<le> w then 1 else 0) \<and> t + block > x)"
proof -
  have c: "count_where (\<lambda>u. u \<ge> t - w) (fs @ [t]) =
      count_where (\<lambda>u. u \<ge> t - w) fs + (if 0 \<le> w then 1 else 0)"
    by (simp add: count_where_def)
  have old: "i < length fs \<Longrightarrow> (fs @ [t]) ! i = fs ! i \<and> take (Suc i) (fs @ [t]) = take (Suc i) fs" for i
    by (simp add: nth_append)
  show ?thesis
    unfolding hist_blocked_def using old c
    by (auto simp: less_Suc_eq)
qed

lemma dropWhile_filter:
  "sorted fs \<Longrightarrow> dropWhile (\<lambda>t. t < c') (filter (\<lambda>t. c \<le> t) fs) = filter (\<lambda>t. max c c' \<le> t) fs"
proof (induction fs)
  case (Cons x fs)
  show ?case
  proof (cases "c \<le> x \<and> c' \<le> x")
    case True
    then have "\<forall>t \<in> set fs. c \<le> t \<and> c' \<le> t"
      using Cons.prems by auto
    then have "filter (\<lambda>t. c \<le> t) fs = fs" "filter (\<lambda>t. max c c' \<le> t) fs = fs"
      by (simp_all add: filter_id_conv)
    moreover have "\<not> x < c'" using True by (simp add: not_less)
    ultimately show ?thesis using True by simp
  next
    case False
    then show ?thesis using Cons by auto
  qed
qed simp

lemma rel_advance:
  assumes r: "bucket_rel limit w block T fs ob" and "T \<le> T'"
  shows "bucket_rel limit w block T' fs ob"
proof (cases ob)
  case None
  then show ?thesis using assms by (fastforce simp: bucket_rel_def)
next
  case (Some b)
  then obtain c where c: "c \<le> T - w" "bk_failures b = filter (\<lambda>t. c \<le> t) fs"
    using r by (auto simp: bucket_rel_def)
  then have "\<exists>c \<le> T' - w. bk_failures b = filter (\<lambda>t. c \<le> t) fs"
    using assms(2) by (intro exI [of _ c]) auto
  then show ?thesis
    using assms Some by (auto simp: bucket_rel_def)
qed

lemma rel_prune:
  assumes "bucket_rel limit (lp_window p) block T fs (Some b)"
  shows "bucket_rel limit (lp_window p) block T fs (Some (prune p T b))"
proof -
  obtain c where "c \<le> T - lp_window p" "bk_failures b = filter (\<lambda>t. c \<le> t) fs" "sorted fs"
    using assms by (auto simp: bucket_rel_def)
  then have "bk_failures (prune p T b) = filter (\<lambda>t. max c (T - lp_window p) \<le> t) fs"
    by (simp add: prune_def dropWhile_filter del: max_def)
  then show ?thesis
    using assms \<open>c \<le> T - lp_window p\<close>
    by (auto simp: bucket_rel_def prune_def max_def intro!: exI [of _ "T - lp_window p"])
qed

lemma rel_prune_at:
  "\<forall>k. bucket_rel limit (lp_window p) block T (f k) (m k) \<Longrightarrow> m k = Some b \<Longrightarrow>
   bucket_rel limit (lp_window p) block T (f k) (Some (prune p T b))"
  using rel_prune by metis

lemma rel_add:
  assumes r: "bucket_rel limit (lp_window p) block T fs ob" and w: "0 \<le> lp_window p" and T: "0 \<le> T"
  shows "bucket_rel limit (lp_window p) block T (fs @ [T]) (Some (add_failure p limit block T ob))"
proof -
  let ?w = "lp_window p" and ?b = "add_failure p limit block T ob"
  have s: "sorted fs" "\<forall>t \<in> set fs. t \<le> T" using r by (auto simp: bucket_rel_def)
  define b0 where "b0 = (case ob of None \<Rightarrow> \<lparr>bk_failures = [], bk_until = 0, bk_seen = 0\<rparr> | Some b \<Rightarrow> b)"
  have f: "bk_failures (prune p T b0) = filter (\<lambda>t. T - ?w \<le> t) fs"
  proof (cases ob)
    case None
    then show ?thesis
      using r by (force simp: b0_def prune_def bucket_rel_def filter_empty_conv intro!: sym [of _ "[]"])
  next
    case (Some b)
    then obtain c where "c \<le> T - ?w" "bk_failures b = filter (\<lambda>t. c \<le> t) fs"
      using r by (auto simp: bucket_rel_def)
    then show ?thesis
      using Some s by (simp add: b0_def prune_def dropWhile_filter max_def)
  qed
  have u: "bk_until (prune p T b0) > x \<longleftrightarrow> hist_blocked limit ?w block fs x" if "x \<ge> T" for x
    using r that T by (auto simp: b0_def prune_def bucket_rel_def split: option.splits)
  have F: "bk_failures ?b = filter (\<lambda>t. T - ?w \<le> t) (fs @ [T])"
    using f w by (simp add: add_failure_def b0_def [symmetric] Let_def)
  have len: "length (bk_failures ?b) = count_where (\<lambda>t. t \<ge> T - ?w) fs + 1"
    using F w by (simp add: count_where_def)
  have U: "bk_until ?b = (if limit \<le> count_where (\<lambda>t. t \<ge> T - ?w) fs + 1
      then max (bk_until (prune p T b0)) (T + block) else bk_until (prune p T b0))"
    using f by (simp add: add_failure_def b0_def [symmetric] Let_def count_where_def)
  have "bk_until ?b > x \<longleftrightarrow> hist_blocked limit ?w block (fs @ [T]) x" if "x \<ge> T" for x
    using u [OF that] w unfolding hist_blocked_snoc U by auto
  moreover have "bk_seen ?b = T"
    by (simp add: add_failure_def Let_def)
  ultimately show ?thesis
    unfolding bucket_rel_def using s F w
    by (auto simp: sorted_append simp del: filter_append intro!: exI [of _ "T - ?w"])
qed

lemma rel_keep:
  assumes r: "bucket_rel limit (lp_window p) block T fs (Some b)" and "\<not> keep_bucket p T b"
    and "0 \<le> lp_ipBlock p" and "0 \<le> lp_window p"
  shows "bucket_rel limit (lp_window p) block T fs None"
proof -
  have "bk_seen b < T - lp_window p - lp_ipBlock p" "bk_until b \<le> T - lp_window p - lp_ipBlock p"
    using assms(2) by (auto simp: keep_bucket_def Let_def)
  then show ?thesis
    using r assms(3,4) by (fastforce simp: bucket_rel_def)
qed

lemma rel_None: "bucket_rel limit w block T [] None"
  by (simp add: bucket_rel_def)

section \<open>The limiter\<close>

definition policy_ok :: "limit_policy \<Rightarrow> bool" where
  "policy_ok p \<longleftrightarrow> 0 \<le> lp_window p \<and> 0 \<le> lp_ipBlock p"

text \<open>Both maps agree with their histories at time \<open>T\<close>.\<close>

definition ll_rel :: "int \<Rightarrow> (string \<Rightarrow> int list) \<Rightarrow> (string \<Rightarrow> int list) \<Rightarrow> login_limiter \<Rightarrow> bool" where
  "ll_rel T ih ph l \<longleftrightarrow>
     (\<forall>k. bucket_rel (lp_ipLimit (ll_policy l)) (lp_window (ll_policy l)) (lp_ipBlock (ll_policy l)) T
            (ih k) (ll_ip l k)) \<and>
     (\<forall>k. bucket_rel (lp_pairLimit (ll_policy l)) (lp_window (ll_policy l)) (lp_pairBlock (ll_policy l)) T
            (ph k) (ll_pair l k))"

lemma ll_relI:
  assumes "\<And>k. bucket_rel (lp_ipLimit (ll_policy l)) (lp_window (ll_policy l)) (lp_ipBlock (ll_policy l)) T
            (ih k) (ll_ip l k)"
    and "\<And>k. bucket_rel (lp_pairLimit (ll_policy l)) (lp_window (ll_policy l)) (lp_pairBlock (ll_policy l)) T
            (ph k) (ll_pair l k)"
  shows "ll_rel T ih ph l"
  using assms by (simp add: ll_rel_def)

lemma ll_rel_advance: "ll_rel T ih ph l \<Longrightarrow> T \<le> T' \<Longrightarrow> ll_rel T' ih ph l"
  unfolding ll_rel_def using rel_advance by blast

lemma rel_map_keep:
  assumes "bucket_rel limit (lp_window p) block T fs (m k)" and "policy_ok p"
  shows "bucket_rel limit (lp_window p) block T fs (map_keep (keep_bucket p T) m k)"
  using assms rel_keep [of limit p block T fs]
  by (cases "m k") (auto simp: map_keep_def policy_ok_def)

lemma ll_rel_cleanup:
  assumes "ll_rel T ih ph l" and "policy_ok (ll_policy l)"
  shows "ll_rel T ih ph (cleanupMaps T l)"
proof -
  have "bucket_rel n (lp_window (ll_policy l)) b T (f k) (m k) \<Longrightarrow>
      bucket_rel n (lp_window (ll_policy l)) b T (f k) (map_keep (keep_bucket (ll_policy l) T) m k)"
    for n b k f and m :: "string \<rightharpoonup> bucket"
    by (rule rel_map_keep [OF _ assms(2)])
  then show ?thesis
    using assms(1) unfolding ll_rel_def cleanupMaps_def by simp
qed

lemma ll_rel_failure:
  assumes r: "ll_rel T ih ph l" and p: "policy_ok (ll_policy l)" and T: "0 \<le> T"
  shows "ll_rel T (ih(ip := ih ip @ [T]))
    (if a = [] then ph else ph(pairKey ip a := ph (pairKey ip a) @ [T])) (recordFailure ip a T l)"
proof -
  let ?p = "ll_policy l"
  let ?l1 = "l\<lparr>ll_ip := (ll_ip l)(ip \<mapsto> add_failure ?p (lp_ipLimit ?p) (lp_ipBlock ?p) T (ll_ip l ip))\<rparr>"
  let ?l2 = "if a \<noteq> [] then ?l1\<lparr>ll_pair := (ll_pair ?l1)(pairKey ip a \<mapsto>
      add_failure ?p (lp_pairLimit ?p) (lp_pairBlock ?p) T (ll_pair ?l1 (pairKey ip a)))\<rparr> else ?l1"
  let ?l3 = "?l2\<lparr>ll_ops := ll_ops ?l2 + 1\<rparr>"
  have w: "0 \<le> lp_window ?p" using p by (simp add: policy_ok_def)
  have ip: "bucket_rel (lp_ipLimit ?p) (lp_window ?p) (lp_ipBlock ?p) T (ih ip @ [T])
      (Some (add_failure ?p (lp_ipLimit ?p) (lp_ipBlock ?p) T (ll_ip l ip)))"
    by (rule rel_add [OF _ w T]) (use r in \<open>simp add: ll_rel_def\<close>)
  have pr: "bucket_rel (lp_pairLimit ?p) (lp_window ?p) (lp_pairBlock ?p) T (ph k @ [T])
      (Some (add_failure ?p (lp_pairLimit ?p) (lp_pairBlock ?p) T (ll_pair l k)))" for k
    by (rule rel_add [OF _ w T]) (use r in \<open>simp add: ll_rel_def\<close>)
  have l3: "ll_rel T (ih(ip := ih ip @ [T]))
      (if a = [] then ph else ph(pairKey ip a := ph (pairKey ip a) @ [T])) ?l3"
    using r ip pr by (auto simp: ll_rel_def)
  have "recordFailure ip a T l = (if ll_ops ?l3 mod 256 = 0 then cleanupMaps T ?l3 else ?l3)"
    by (simp add: recordFailure_def Let_def)
  moreover have "policy_ok (ll_policy ?l3)" using p by simp
  ultimately show ?thesis
    using l3 ll_rel_cleanup [OF l3] by simp
qed

lemma ll_rel_success:
  assumes "ll_rel T ih ph l"
  shows "ll_rel T ih (if a = [] then ph else ph(pairKey ip a := [])) (recordSuccess ip a l)"
  using assms rel_None by (auto simp: ll_rel_def recordSuccess_def)

lemma ll_rel_prune_ip:
  "ll_rel T ih ph l \<Longrightarrow> ll_ip l k = Some b \<Longrightarrow>
   ll_rel T ih ph (l\<lparr>ll_ip := (ll_ip l)(k \<mapsto> prune (ll_policy l) T b)\<rparr>)"
  by (rule ll_relI) (auto simp: ll_rel_def intro: rel_prune_at)

lemma ll_rel_prune_pair:
  "ll_rel T ih ph l \<Longrightarrow> ll_pair l k = Some b \<Longrightarrow>
   ll_rel T ih ph (l\<lparr>ll_pair := (ll_pair l)(k \<mapsto> prune (ll_policy l) T b)\<rparr>)"
  by (rule ll_relI) (auto simp: ll_rel_def intro: rel_prune_at)

lemma rel_blocked:
  "bucket_rel limit w block T fs ob \<Longrightarrow>
   (case ob of None \<Rightarrow> False | Some b \<Rightarrow> bk_blocked b T) = hist_blocked limit w block fs T"
  by (auto simp: bucket_rel_def bk_blocked_def split: option.splits)

lemma ll_rel_blocked_ip:
  "ll_rel T ih ph l \<Longrightarrow> ll_policy l = p \<Longrightarrow>
   (case ll_ip l k of None \<Rightarrow> False | Some b \<Rightarrow> bk_blocked b T) =
   hist_blocked (lp_ipLimit p) (lp_window p) (lp_ipBlock p) (ih k) T"
  by (rule rel_blocked) (simp add: ll_rel_def)

lemma ll_rel_blocked_pair:
  "ll_rel T ih ph l \<Longrightarrow> ll_policy l = p \<Longrightarrow>
   (case ll_pair l k of None \<Rightarrow> False | Some b \<Rightarrow> bk_blocked b T) =
   hist_blocked (lp_pairLimit p) (lp_window p) (lp_pairBlock p) (ph k) T"
  by (rule rel_blocked) (simp add: ll_rel_def)

lemma ll_allow_correct:
  assumes r: "ll_rel T ih ph l"
  shows "ll_rel T ih ph (snd (ll_allow ip a T l)) \<and>
    (fst (ll_allow ip a T l) \<longleftrightarrow>
       \<not> hist_blocked (lp_ipLimit (ll_policy l)) (lp_window (ll_policy l)) (lp_ipBlock (ll_policy l)) (ih ip) T \<and>
       (a = [] \<or> \<not> hist_blocked (lp_pairLimit (ll_policy l)) (lp_window (ll_policy l))
          (lp_pairBlock (ll_policy l)) (ph (pairKey ip a)) T))"
proof -
  let ?p = "ll_policy l" and ?k = "pairKey ip a"
  let ?l1 = "case ll_ip l ip of None \<Rightarrow> l | Some b \<Rightarrow> l\<lparr>ll_ip := (ll_ip l)(ip \<mapsto> prune ?p T b)\<rparr>"
  let ?l2 = "case ll_pair ?l1 ?k of None \<Rightarrow> ?l1
      | Some b \<Rightarrow> ?l1\<lparr>ll_pair := (ll_pair ?l1)(?k \<mapsto> prune ?p T b)\<rparr>"
  have p1: "ll_policy ?l1 = ?p" by (simp split: option.splits)
  have r1: "ll_rel T ih ph ?l1"
    using r ll_rel_prune_ip [OF r] by (auto split: option.splits)
  have p2: "ll_policy ?l2 = ?p" using p1 by (simp split: option.splits)
  have r2: "ll_rel T ih ph ?l2"
    using r1 ll_rel_prune_pair [OF r1] p1 by (auto split: option.splits)
  have b1: "(case ll_ip ?l1 ip of None \<Rightarrow> False | Some b \<Rightarrow> bk_blocked b T) =
      hist_blocked (lp_ipLimit ?p) (lp_window ?p) (lp_ipBlock ?p) (ih ip) T"
    by (rule ll_rel_blocked_ip [OF r1 p1])
  have b2: "(case ll_pair ?l2 ?k of None \<Rightarrow> False | Some b \<Rightarrow> bk_blocked b T) =
      hist_blocked (lp_pairLimit ?p) (lp_window ?p) (lp_pairBlock ?p) (ph ?k) T"
    by (rule ll_rel_blocked_pair [OF r2 p2])
  show ?thesis
    unfolding ll_allow_def Let_def b1 b2 using r1 r2 by auto
qed

lemma ll_step_policy [simp]: "ll_policy (ll_step op l) = ll_policy l"
  by (cases op) (simp_all add: recordFailure_def recordSuccess_def ll_allow_def cleanupMaps_def Let_def
      split: option.split)

definition hist_ip_step :: "string \<Rightarrow> limit_op \<Rightarrow> int list \<Rightarrow> int list" where
  "hist_ip_step k op fs = (case op of Fail i a t \<Rightarrow> if i = k then fs @ [t] else fs | _ \<Rightarrow> fs)"

lemma ip_history_fold: "fold (hist_ip_step k) ops fs = fs @ ip_history k ops"
  by (induction ops arbitrary: fs) (auto simp: hist_ip_step_def split: limit_op.splits)

lemma ll_rel_step:
  assumes r: "ll_rel T ih ph l" and p: "policy_ok (ll_policy l)" and "0 \<le> T"
    and t: "\<forall>t. op_time op = Some t \<longrightarrow> T \<le> t"
  shows "ll_rel (case op_time op of None \<Rightarrow> T | Some t \<Rightarrow> t) (\<lambda>k. hist_ip_step k op (ih k))
    (\<lambda>k. hist_step k op (ph k)) (ll_step op l)"
proof (cases op)
  case (Fail ip a t)
  have r': "ll_rel t ih ph l" using r t Fail ll_rel_advance by simp
  have "(\<lambda>k. hist_ip_step k op (ih k)) = ih(ip := ih ip @ [t])"
    "(\<lambda>k. hist_step k op (ph k)) = (if a = [] then ph else ph(pairKey ip a := ph (pairKey ip a) @ [t]))"
    by (auto simp: hist_ip_step_def hist_step_def Fail fun_eq_iff)
  then show ?thesis
    using ll_rel_failure [OF r' p, of ip a] assms(3) t Fail by simp
next
  case (Success ip a)
  have "(\<lambda>k. hist_ip_step k op (ih k)) = ih"
    "(\<lambda>k. hist_step k op (ph k)) = (if a = [] then ph else ph(pairKey ip a := []))"
    by (auto simp: hist_ip_step_def hist_step_def Success fun_eq_iff)
  then show ?thesis using ll_rel_success [OF r, of a ip] Success by simp
next
  case (Check ip a t)
  have r': "ll_rel t ih ph l" using r t Check ll_rel_advance by simp
  have "(\<lambda>k. hist_ip_step k op (ih k)) = ih" "(\<lambda>k. hist_step k op (ph k)) = ph"
    by (auto simp: hist_ip_step_def hist_step_def Check fun_eq_iff)
  then show ?thesis using ll_allow_correct [OF r', of ip a] Check by simp
qed

lemma ll_rel_run:
  "ll_rel T ih ph l \<Longrightarrow> policy_ok (ll_policy l) \<Longrightarrow> 0 \<le> T \<Longrightarrow>
   sorted (T # List.map_filter op_time ops) \<Longrightarrow>
   \<forall>t \<in> set (T # List.map_filter op_time ops). t \<le> T' \<Longrightarrow>
   ll_rel T' (\<lambda>k. fold (hist_ip_step k) ops (ih k)) (\<lambda>k. fold (hist_step k) ops (ph k)) (ll_run ops l) \<and>
   ll_policy (ll_run ops l) = ll_policy l"
  unfolding ll_run_def
proof (induction ops arbitrary: T ih ph l)
  case Nil
  then show ?case by (auto simp: ll_rel_advance)
next
  case (Cons op ops)
  let ?T = "case op_time op of None \<Rightarrow> T | Some t \<Rightarrow> t"
  have "\<forall>t. op_time op = Some t \<longrightarrow> T \<le> t"
    using Cons.prems(4) by (auto simp: List.map_filter_simps)
  note st = ll_rel_step [OF Cons.prems(1-3) this]
  have "0 \<le> ?T" "sorted (?T # List.map_filter op_time ops)"
    "\<forall>t \<in> set (?T # List.map_filter op_time ops). t \<le> T'"
    using Cons.prems(3-5) by (auto simp: List.map_filter_simps split: option.splits)
  then show ?case
    using Cons.IH [OF st] Cons.prems(2) by simp
qed

text \<open>
  C32: the login limiter decides by the history. After any failures, successes and checks at times
  that never run backwards, a login is refused exactly when its address, or its address and
  account, is inside a block that enough failures within one window started; a success forgets the
  failures of its own pair only, and the pruning and the periodic clean-up never change an answer.
\<close>

theorem login_limiter_by_history:
  fixes ops :: "limit_op list" and p :: limit_policy and now :: int
  assumes "policy_ok p" and "times_ok (List.map_filter op_time ops @ [now])"
  defines "l \<equiv> ll_run ops (ll_new p)"
  shows "fst (ll_allow ip a now l) \<longleftrightarrow>
    \<not> hist_blocked (max (lp_ipLimit p) 1) (lp_window p) (lp_ipBlock p) (ip_history ip ops) now \<and>
    (a = [] \<or> \<not> hist_blocked (max (lp_pairLimit p) 1) (lp_window p) (lp_pairBlock p)
       (pair_history (pairKey ip a) ops) now)"
proof -
  let ?l0 = "ll_new p"
  have r0: "ll_rel 0 (\<lambda>_. []) (\<lambda>_. []) ?l0"
    by (simp add: ll_rel_def ll_new_def rel_None)
  have p0: "policy_ok (ll_policy ?l0)"
    using assms(1) by (simp add: ll_new_def policy_ok_def)
  have "sorted (0 # List.map_filter op_time ops)" "\<forall>t \<in> set (0 # List.map_filter op_time ops). t \<le> now"
    using assms(2) by (auto simp: times_ok_def sorted_append)
  note run = ll_rel_run [OF r0 p0 order_refl this]
  have ih: "(\<lambda>k. fold (hist_ip_step k) ops []) = (\<lambda>k. ip_history k ops)"
    by (simp add: ip_history_fold)
  have ph: "(\<lambda>k. fold (hist_step k) ops []) = (\<lambda>k. pair_history k ops)"
    by (simp add: pair_history_def)
  have pol: "ll_policy l = p\<lparr>lp_pairLimit := max (lp_pairLimit p) 1, lp_ipLimit := max (lp_ipLimit p) 1\<rparr>"
    using run by (simp add: l_def ll_new_def)
  have rel: "ll_rel now (\<lambda>k. ip_history k ops) (\<lambda>k. pair_history k ops) l"
    using run unfolding l_def ih ph by blast
  show ?thesis
    using ll_allow_correct [OF rel, of ip a] pol by simp
qed

theorem login_limiter_by_history_witness:
  "\<not> fst (ll_allow ''1.2.3.4'' ''bob'' 50
     (ll_run [Fail ''1.2.3.4'' ''bob'' 1, Fail ''1.2.3.4'' ''bob'' 2, Fail ''1.2.3.4'' ''bob'' 3,
              Fail ''1.2.3.4'' ''bob'' 4, Fail ''1.2.3.4'' ''bob'' 5] (ll_new default_policy)))"
proof -
  let ?ops = "[Fail ''1.2.3.4'' ''bob'' 1, Fail ''1.2.3.4'' ''bob'' 2, Fail ''1.2.3.4'' ''bob'' 3,
              Fail ''1.2.3.4'' ''bob'' 4, Fail ''1.2.3.4'' ''bob'' 5]"
  have "pair_history (pairKey ''1.2.3.4'' ''bob'') ?ops = [1, 2, 3, 4, 5]"
    by (simp add: pair_history_def hist_step_def)
  then have "hist_blocked 5 300 60 (pair_history (pairKey ''1.2.3.4'' ''bob'') ?ops) 50"
    unfolding hist_blocked_def by (intro exI [of _ 4]) simp
  then show ?thesis
    using login_limiter_by_history [of default_policy ?ops 50 "''1.2.3.4''" "''bob''"]
    by (simp add: default_policy_def policy_ok_def times_ok_def List.map_filter_simps)
qed

section \<open>AiRequestLimiter\<close>

text \<open>
  One request in flight per user, \<open>maxPending\<close> in all, \<open>perMinute\<close> accepted per user and minute,
  and no request id accepted again inside the replay window. The \<open>unordered_map\<close> of deques and the
  one of seen ids are created on first use, so a user without an entry reads as empty.
\<close>

datatype ai_result = AiAccepted | AiBusy | AiRateLimited | AiDuplicate | AiQueueFull

record ai_limiter =
  al_perMinute :: nat
  al_maxPending :: nat
  al_replay :: int
  al_inFlight :: "int set"
  al_recent :: "int \<Rightarrow> int list"
  al_seen :: "int \<Rightarrow> string \<rightharpoonup> int"

definition ai_new :: "int \<Rightarrow> int \<Rightarrow> int \<Rightarrow> ai_limiter" where
  "ai_new perMinute maxPending replay = \<lparr>al_perMinute = nat (max perMinute 1),
     al_maxPending = nat (max maxPending 1), al_replay = max replay 1,
     al_inFlight = {}, al_recent = (\<lambda>_. []), al_seen = (\<lambda>_. Map.empty)\<rparr>"

definition tryAcquire :: "int \<Rightarrow> string \<Rightarrow> int \<Rightarrow> ai_limiter \<Rightarrow> ai_result \<times> ai_limiter" where
  "tryAcquire u rid now l =
     (let seen = map_keep (\<lambda>t. \<not> t < now - al_replay l) (al_seen l u);
          l1 = l\<lparr>al_seen := (al_seen l)(u := seen)\<rparr>
      in if seen rid \<noteq> None then (AiDuplicate, l1)
         else if u \<in> al_inFlight l1 then (AiBusy, l1)
         else if card (al_inFlight l1) \<ge> al_maxPending l1 then (AiQueueFull, l1)
         else
           let recent = dropWhile (\<lambda>t. t < now - 60) (al_recent l1 u)
           in if length recent \<ge> al_perMinute l1
              then (AiRateLimited, l1\<lparr>al_recent := (al_recent l1)(u := recent)\<rparr>)
              else (AiAccepted, l1\<lparr>al_recent := (al_recent l1)(u := recent @ [now]),
                     al_seen := (al_seen l1)(u := seen(rid \<mapsto> now)),
                     al_inFlight := insert u (al_inFlight l1)\<rparr>))"

definition ai_release :: "int \<Rightarrow> ai_limiter \<Rightarrow> ai_limiter" where
  "ai_release u l = l\<lparr>al_inFlight := al_inFlight l - {u}\<rparr>"

text \<open>A run with the log of what it accepted: user, request id, time.\<close>

datatype ai_op = Acquire int string int | Release int

type_synonym ai_log = "(int \<times> string \<times> int) list"

fun ai_step :: "ai_op \<Rightarrow> ai_limiter \<times> ai_log \<Rightarrow> ai_limiter \<times> ai_log" where
  "ai_step (Acquire u rid t) (l, log) =
     (case tryAcquire u rid t l of (r, l') \<Rightarrow> (l', if r = AiAccepted then log @ [(u, rid, t)] else log))"
| "ai_step (Release u) (l, log) = (ai_release u l, log)"

fun ai_time :: "ai_op \<Rightarrow> int option" where
  "ai_time (Acquire _ _ t) = Some t"
| "ai_time (Release _) = None"

definition ai_run :: "ai_op list \<Rightarrow> ai_limiter \<Rightarrow> ai_limiter \<times> ai_log" where
  "ai_run ops l = fold ai_step ops (l, [])"

definition times_of :: "int \<Rightarrow> ai_log \<Rightarrow> int list" where
  "times_of u log = map (\<lambda>(_, _, t). t) (filter (\<lambda>(v, _, _). v = u) log)"

definition rate_respected :: "nat \<Rightarrow> ai_log \<Rightarrow> bool" where
  "rate_respected n log \<longleftrightarrow>
     (\<forall>u j. j < length (times_of u log) \<longrightarrow>
        count_where (\<lambda>t. t \<ge> times_of u log ! j - 60) (take (Suc j) (times_of u log)) \<le> n)"

definition replay_respected :: "int \<Rightarrow> ai_log \<Rightarrow> bool" where
  "replay_respected w log \<longleftrightarrow>
     (\<forall>i j u rid t t'. i < j \<longrightarrow> j < length log \<longrightarrow> log ! i = (u, rid, t) \<longrightarrow> log ! j = (u, rid, t') \<longrightarrow> t' - t > w)"

definition ai_inv :: "int \<Rightarrow> ai_limiter \<Rightarrow> ai_log \<Rightarrow> bool" where
  "ai_inv T l log \<longleftrightarrow>
     finite (al_inFlight l) \<and> card (al_inFlight l) \<le> al_maxPending l \<and>
     rate_respected (al_perMinute l) log \<and> replay_respected (al_replay l) log \<and>
     (\<forall>u. sorted (times_of u log) \<and> (\<forall>t \<in> set (times_of u log). t \<le> T) \<and>
        (\<exists>c \<le> T - 60. al_recent l u = filter (\<lambda>t. c \<le> t) (times_of u log))) \<and>
     (\<forall>(u, rid, t) \<in> set log. t < T - al_replay l \<or> (\<exists>t'. al_seen l u rid = Some t' \<and> t \<le> t' \<and> t' \<le> T))"

lemma times_of_snoc [simp]:
  "times_of u (log @ [(v, rid, t)]) = (if v = u then times_of u log @ [t] else times_of u log)"
  by (simp add: times_of_def)

lemma rate_respected_snoc:
  "rate_respected n log \<Longrightarrow> count_where (\<lambda>x. x \<ge> t - 60) (times_of u log) < n \<Longrightarrow>
   rate_respected n (log @ [(u, rid, t)])"
  unfolding rate_respected_def
  by (auto simp: nth_append less_Suc_eq count_where_def)

lemma replay_respected_snoc:
  "replay_respected w log \<Longrightarrow> \<forall>(v, r, t') \<in> set log. v = u \<longrightarrow> r = rid \<longrightarrow> t - t' > w \<Longrightarrow>
   replay_respected w (log @ [(u, rid, t)])"
  unfolding replay_respected_def
  by (auto simp: nth_append less_Suc_eq dest!: nth_mem) 

lemma ai_invI:
  assumes "finite (al_inFlight l) \<and> card (al_inFlight l) \<le> al_maxPending l"
    and "rate_respected (al_perMinute l) log" and "replay_respected (al_replay l) log"
    and "\<And>u. sorted (times_of u log) \<and> (\<forall>t \<in> set (times_of u log). t \<le> T) \<and>
        (\<exists>c \<le> T - 60. al_recent l u = filter (\<lambda>t. c \<le> t) (times_of u log))"
    and "\<And>u rid t. (u, rid, t) \<in> set log \<Longrightarrow>
        t < T - al_replay l \<or> (\<exists>t'. al_seen l u rid = Some t' \<and> t \<le> t' \<and> t' \<le> T)"
  shows "ai_inv T l log"
  unfolding ai_inv_def using assms by blast

lemma ai_inv_advance:
  assumes "ai_inv T l log" and "T \<le> T'"
  shows "ai_inv T' l log"
proof -
  have "\<exists>c \<le> T' - 60. al_recent l u = filter (\<lambda>t. c \<le> t) (times_of u log)" for u
    using assms unfolding ai_inv_def by (meson diff_right_mono order_trans)
  moreover have "t < T' - al_replay l \<or> (\<exists>t'. al_seen l u rid = Some t' \<and> t \<le> t' \<and> t' \<le> T')"
    if "(u, rid, t) \<in> set log" for u rid t
    using assms that unfolding ai_inv_def by fastforce
  ultimately show ?thesis
    using assms unfolding ai_inv_def by force
qed

lemma ai_inv_prune_seen:
  assumes "ai_inv T l log"
  shows "ai_inv T (l\<lparr>al_seen := (al_seen l)(u := map_keep (\<lambda>t. \<not> t < T - al_replay l) (al_seen l u))\<rparr>) log"
  using assms unfolding ai_inv_def
  by (fastforce simp: map_keep_def split: option.splits)

lemma ai_inv_prune_recent:
  assumes "ai_inv T l log"
  shows "ai_inv T (l\<lparr>al_recent := (al_recent l)(u := dropWhile (\<lambda>t. t < T - 60) (al_recent l u))\<rparr>) log"
proof -
  obtain c where "c \<le> T - 60" "al_recent l u = filter (\<lambda>t. c \<le> t) (times_of u log)" "sorted (times_of u log)"
    using assms unfolding ai_inv_def by blast
  then have "dropWhile (\<lambda>t. t < T - 60) (al_recent l u) = filter (\<lambda>t. T - 60 \<le> t) (times_of u log)"
    by (simp add: dropWhile_filter max_def)
  then show ?thesis
    using assms unfolding ai_inv_def by force
qed

lemma ai_inv_accept:
  assumes i: "ai_inv T l log" and u: "u \<notin> al_inFlight l" and m: "card (al_inFlight l) < al_maxPending l"
    and s: "map_keep (\<lambda>t. \<not> t < T - al_replay l) (al_seen l u) rid = None"
    and r: "length (dropWhile (\<lambda>t. t < T - 60) (al_recent l u)) < al_perMinute l"
  shows "ai_inv T (l\<lparr>al_recent := (al_recent l)(u := dropWhile (\<lambda>t. t < T - 60) (al_recent l u) @ [T]),
      al_seen := (al_seen l)(u := (map_keep (\<lambda>t. \<not> t < T - al_replay l) (al_seen l u))(rid \<mapsto> T)),
      al_inFlight := insert u (al_inFlight l)\<rparr>) (log @ [(u, rid, T)])"
    (is "ai_inv T ?l ?log")
proof -
  obtain c where c: "c \<le> T - 60" "al_recent l u = filter (\<lambda>t. c \<le> t) (times_of u log)" "sorted (times_of u log)"
    using i unfolding ai_inv_def by blast
  then have d: "dropWhile (\<lambda>t. t < T - 60) (al_recent l u) = filter (\<lambda>t. T - 60 \<le> t) (times_of u log)"
    by (simp add: dropWhile_filter max_def)
  have rate: "rate_respected (al_perMinute l) ?log"
    using i r unfolding d ai_inv_def by (intro rate_respected_snoc) (simp_all add: count_where_def)
  have old: "t' < T - al_replay l" if "(u, rid, t') \<in> set log" for t'
    using i s that unfolding ai_inv_def by (fastforce simp: map_keep_def split: option.splits if_splits)
  then have "\<forall>(v, r, t') \<in> set log. v = u \<longrightarrow> r = rid \<longrightarrow> T - t' > al_replay l"
    by fastforce
  then have rep: "replay_respected (al_replay l) ?log"
    using i unfolding ai_inv_def by (blast intro: replay_respected_snoc)
  have rec: "sorted (times_of v ?log) \<and> (\<forall>t \<in> set (times_of v ?log). t \<le> T) \<and>
      (\<exists>c \<le> T - 60. al_recent ?l v = filter (\<lambda>t. c \<le> t) (times_of v ?log))" for v
  proof (cases "v = u")
    case True
    have "al_recent ?l u = filter (\<lambda>t. T - 60 \<le> t) (times_of u ?log)" using d by simp
    moreover have "sorted (times_of u ?log)" "\<forall>t \<in> set (times_of u ?log). t \<le> T"
      using i unfolding ai_inv_def by (auto simp: sorted_append)
    ultimately show ?thesis using True by blast
  next
    case False
    then show ?thesis using i unfolding ai_inv_def by simp
  qed
  have seen: "t < T - al_replay l \<or> (\<exists>t'. al_seen ?l v r = Some t' \<and> t \<le> t' \<and> t' \<le> T)"
    if "(v, r, t) \<in> set ?log" for v r t
  proof (cases "(v, r, t) \<in> set log")
    case True
    then have a: "t < T - al_replay l \<or> (\<exists>t'. al_seen l v r = Some t' \<and> t \<le> t' \<and> t' \<le> T)"
      using i unfolding ai_inv_def by blast
    have b: "t \<le> T" if "v = u" using True i that unfolding ai_inv_def times_of_def by force
    show ?thesis using a b by (auto simp: map_keep_def)
  next
    case False
    then show ?thesis using that by simp
  qed
  have fin: "finite (al_inFlight ?l) \<and> card (al_inFlight ?l) \<le> al_maxPending ?l"
    using i m u unfolding ai_inv_def by simp
  have lim: "al_perMinute ?l = al_perMinute l" "al_replay ?l = al_replay l"
    by simp_all
  show ?thesis
    by (rule ai_invI [OF fin]; (unfold lim)?; (rule rate | rule rep | rule rec | erule seen))
qed

lemma ai_inv_acquire:
  assumes i: "ai_inv T l log" and res: "tryAcquire u rid T l = (r, l')"
  shows "ai_inv T l' (if r = AiAccepted then log @ [(u, rid, T)] else log)"
proof -
  let ?s = "map_keep (\<lambda>t. \<not> t < T - al_replay l) (al_seen l u)"
  let ?l1 = "l\<lparr>al_seen := (al_seen l)(u := ?s)\<rparr>"
  have i1: "ai_inv T ?l1 log" by (rule ai_inv_prune_seen [OF i])
  have s1: "map_keep (\<lambda>t. \<not> t < T - al_replay ?l1) (al_seen ?l1 u) = ?s"
    by (auto simp: map_keep_def fun_eq_iff split: option.splits)
  show ?thesis
    using res i1 ai_inv_prune_recent [OF i1, of u] ai_inv_accept [OF i1, of u rid] s1
    by (auto simp: tryAcquire_def Let_def not_le simp del: map_keep_Some split: if_splits)
qed

lemma ai_inv_release: "ai_inv T l log \<Longrightarrow> ai_inv T (ai_release u l) log"
  unfolding ai_inv_def ai_release_def
  by (auto intro: order_trans [OF card_mono])

lemma tryAcquire_limits [simp]:
  "al_perMinute (snd (tryAcquire u rid t l)) = al_perMinute l"
  "al_maxPending (snd (tryAcquire u rid t l)) = al_maxPending l"
  "al_replay (snd (tryAcquire u rid t l)) = al_replay l"
  by (simp_all add: tryAcquire_def Let_def)

lemma ai_inv_run:
  "ai_inv T l log \<Longrightarrow> sorted (T # List.map_filter ai_time ops) \<Longrightarrow>
   \<exists>T'. ai_inv T' (fst (fold ai_step ops (l, log))) (snd (fold ai_step ops (l, log)))"
proof (induction ops arbitrary: T l log)
  case (Cons op ops)
  show ?case
  proof (cases op)
    case (Acquire u rid t)
    obtain r l' where res: "tryAcquire u rid t l = (r, l')" by (cases "tryAcquire u rid t l")
    have "T \<le> t" "sorted (t # List.map_filter ai_time ops)"
      using Cons.prems(2) Acquire by (auto simp: List.map_filter_simps)
    then show ?thesis
      using Cons.IH [OF ai_inv_acquire [OF ai_inv_advance [OF Cons.prems(1)] res]] Acquire res by simp
  next
    case (Release u)
    then show ?thesis
      using Cons.IH [OF ai_inv_release [OF Cons.prems(1), of u]] Cons.prems(2)
      by (simp add: List.map_filter_simps)
  qed
qed auto

lemma tryAcquire_limit_fields:
  "tryAcquire u rid t l = (r, l') \<Longrightarrow> al_perMinute l' = al_perMinute l \<and>
     al_maxPending l' = al_maxPending l \<and> al_replay l' = al_replay l"
  using tryAcquire_limits [of u rid t l] by simp

lemma ai_run_limits:
  "al_perMinute (fst (fold ai_step ops (l, log))) = al_perMinute l \<and>
   al_maxPending (fst (fold ai_step ops (l, log))) = al_maxPending l \<and>
   al_replay (fst (fold ai_step ops (l, log))) = al_replay l"
proof (induction ops arbitrary: l log)
  case (Cons op ops)
  show ?case
    using Cons.IH by (cases op) (auto simp: ai_release_def dest!: tryAcquire_limit_fields split: prod.split)
qed simp

text \<open>
  AI requests stay within their limits. Over any acquisitions and releases at times that never
  run backwards, the accepted requests of a user are at most \<open>perMinute\<close> in any minute that ends
  with one of them, no request id of a user is accepted twice within the replay window, and at most
  \<open>maxPending\<close> users have a request in flight.
\<close>

theorem ai_limits_respected:
  fixes perMinute maxPending replay :: int
  assumes "times_ok (List.map_filter ai_time ops)"
  shows "case ai_run ops (ai_new perMinute maxPending replay) of (l, log) \<Rightarrow>
    rate_respected (nat (max perMinute 1)) log \<and> replay_respected (max replay 1) log \<and>
    card (al_inFlight l) \<le> nat (max maxPending 1)"
proof -
  let ?l = "ai_new perMinute maxPending replay"
  have "ai_inv 0 ?l []"
    by (auto simp: ai_inv_def ai_new_def rate_respected_def replay_respected_def times_of_def
        intro!: exI [of _ "-60"])
  then obtain T where "ai_inv T (fst (fold ai_step ops (?l, []))) (snd (fold ai_step ops (?l, [])))"
    using ai_inv_run [of 0 ?l "[]" ops] assms by (auto simp: times_ok_def)
  then show ?thesis
    using ai_run_limits [of ops ?l "[]"]
    by (auto simp: ai_run_def ai_inv_def ai_new_def split: prod.split)
qed

theorem ai_limits_respected_witness:
  "case ai_run [Acquire 7 ''a'' 0, Release 7, Acquire 7 ''b'' 1, Release 7, Acquire 7 ''c'' 2]
     (ai_new 2 3 300) of (l, log) \<Rightarrow>
    rate_respected 2 log \<and> replay_respected 300 log \<and> card (al_inFlight l) \<le> 3"
  using ai_limits_respected [of "[Acquire 7 ''a'' 0, Release 7, Acquire 7 ''b'' 1, Release 7, Acquire 7 ''c'' 2]" 2 300 3]
  by (simp add: times_ok_def List.map_filter_simps)

end
