(* ===== verification/Sql.thy ===== *)
theory Sql
  imports Prelude
begin

text \<open>
  What the server's stores use of SQLite (\<^verbatim>\<open>im_server/src/db/Database.cpp\<close> and the write
  connection of \<^verbatim>\<open>DbWriteQueue\<close>): a connection with the committed tables, the tables of an open
  transaction, and a script that says which of the next SQLite calls fail. The script is arbitrary,
  so every statement about an operation holds whatever fails; when it is used up, calls succeed.

  A statement is prepared and stepped. Preparing can fail; a step can fail, or be refused by a
  constraint (the table operation returns \<open>None\<close>). The code reads a failed step of a SELECT as "no
  row", which \<open>sq_query\<close> keeps. A write task is single-threaded (one write connection, one thread),
  so tasks are functions from connection to connection.
\<close>

record 'd conn =
  cn_db :: 'd
  cn_txn :: "'d option"
  cn_script :: "bool list"

definition tick :: "'d conn \<Rightarrow> bool \<times> 'd conn" where
  "tick c = (case cn_script c of [] \<Rightarrow> (True, c) | b # bs \<Rightarrow> (b, c\<lparr>cn_script := bs\<rparr>))"

text \<open>The tables a statement on this connection sees.\<close>

definition view :: "'d conn \<Rightarrow> 'd" where
  "view c = (case cn_txn c of None \<Rightarrow> cn_db c | Some d \<Rightarrow> d)"

definition set_view :: "'d \<Rightarrow> 'd conn \<Rightarrow> 'd conn" where
  "set_view d c = (case cn_txn c of None \<Rightarrow> c\<lparr>cn_db := d\<rparr> | Some _ \<Rightarrow> c\<lparr>cn_txn := Some d\<rparr>)"

text \<open>\<open>BEGIN\<close> inside a transaction and \<open>COMMIT\<close> outside one are errors.\<close>

definition sq_begin :: "'d conn \<Rightarrow> bool \<times> 'd conn" where
  "sq_begin c =
     (let (b, c) = tick c in
      if b \<and> cn_txn c = None then (True, c\<lparr>cn_txn := Some (cn_db c)\<rparr>) else (False, c))"

definition sq_commit :: "'d conn \<Rightarrow> bool \<times> 'd conn" where
  "sq_commit c =
     (let (b, c) = tick c in
      case cn_txn c of
        None \<Rightarrow> (False, c)
      | Some d \<Rightarrow> if b then (True, c\<lparr>cn_db := d, cn_txn := None\<rparr>) else (False, c))"

definition sq_rollback :: "'d conn \<Rightarrow> 'd conn" where
  "sq_rollback c = c\<lparr>cn_txn := None\<rparr>"

text \<open>One step of a prepared writing statement: the number of changed rows.\<close>

definition sq_step :: "('d \<Rightarrow> (nat \<times> 'd) option) \<Rightarrow> 'd conn \<Rightarrow> nat option \<times> 'd conn" where
  "sq_step f c =
     (let (b, c) = tick c in
      if \<not> b then (None, c)
      else case f (view c) of
        None \<Rightarrow> (None, c)
      | Some (n, d) \<Rightarrow> (Some n, set_view d c))"

definition sq_run :: "('d \<Rightarrow> (nat \<times> 'd) option) \<Rightarrow> 'd conn \<Rightarrow> nat option \<times> 'd conn" where
  "sq_run f c = (let (b, c) = tick c in if b then sq_step f c else (None, c))"

text \<open>A query for one row: \<open>None\<close> when it cannot be prepared, \<open>Some None\<close> when no row comes.\<close>

definition sq_query :: "('d \<Rightarrow> 'a option) \<Rightarrow> 'd conn \<Rightarrow> 'a option option \<times> 'd conn" where
  "sq_query q c =
     (let (b, c) = tick c in
      if \<not> b then (None, c)
      else let (b, c) = tick c in (Some (if b then q (view c) else None), c))"

text \<open>
  A query on a pooled read connection: whether it can be prepared, and after how many rows a step
  fails (\<open>None\<close> when none does). The loops of the code stop at the first step that is not a row.
\<close>

record read_io =
  rd_prepared :: bool
  rd_stop :: "nat option"

definition fetched :: "read_io \<Rightarrow> 'a list \<Rightarrow> 'a list" where
  "fetched io rows =
     (if \<not> rd_prepared io then [] else case rd_stop io of None \<Rightarrow> rows | Some n \<Rightarrow> take n rows)"

definition fetch_one :: "read_io \<Rightarrow> 'a list \<Rightarrow> 'a option" where
  "fetch_one io rows = (case fetched io rows of [] \<Rightarrow> None | r # _ \<Rightarrow> Some r)"

definition read_ok :: read_io where
  "read_ok = \<lparr>rd_prepared = True, rd_stop = None\<rparr>"

lemma fetched_ok [simp]: "fetched read_ok rows = rows"
  by (simp add: fetched_def read_ok_def)

lemma fetch_one_Nil [simp]: "fetch_one io [] = None"
  by (simp add: fetch_one_def fetched_def split: option.split)

lemma fetched_prefix: "\<exists>zs. rows = fetched io rows @ zs"
  by (auto simp: fetched_def split: option.split intro: append_take_drop_id [symmetric])

lemma set_fetched: "set (fetched io rows) \<subseteq> set rows"
  using fetched_prefix [of rows io] by (metis Un_upper1 set_append)

lemma fetch_one_in: "fetch_one io rows = Some r \<Longrightarrow> r \<in> set rows"
  using set_fetched [of io rows] by (auto simp: fetch_one_def split: list.splits)

text \<open>
  \<open>sqlite3_bind_text\<close> with length \<open>-1\<close> on \<open>c_str()\<close> binds up to the first NUL character.
\<close>

definition cstr :: "string \<Rightarrow> string" where
  "cstr s = takeWhile (\<lambda>c. c \<noteq> CHR 0x00) s"

lemma cstr_id: "CHR 0x00 \<notin> set s \<Longrightarrow> cstr s = s"
  unfolding cstr_def by (rule takeWhile_eq_all_conv [THEN iffD2]) auto

lemma cstr_cstr [simp]: "cstr (cstr s) = cstr s"
  by (simp add: cstr_def)

lemma cstr_Nil [simp]: "cstr [] = []"
  by (simp add: cstr_def)

section \<open>Invariants of the tables\<close>

text \<open>A property of the tables holds of what is committed and of what a transaction holds.\<close>

definition conn_ok :: "('d \<Rightarrow> bool) \<Rightarrow> 'd conn \<Rightarrow> bool" where
  "conn_ok P c \<longleftrightarrow> P (cn_db c) \<and> (\<forall>d. cn_txn c = Some d \<longrightarrow> P d)"

lemma tick_fields:
  "tick c = (b, c') \<Longrightarrow> cn_db c' = cn_db c \<and> cn_txn c' = cn_txn c"
  by (auto simp: tick_def split: list.splits)

lemma tick_view: "tick c = (b, c') \<Longrightarrow> view c' = view c"
  using tick_fields [of c b c'] by (simp add: view_def split: option.split)

lemma tick_same:
  "tick c = (b, c') \<Longrightarrow> cn_db c' = cn_db c \<and> cn_txn c' = cn_txn c \<and> view c' = view c"
  using tick_fields tick_view by metis

lemma conn_ok_view: "conn_ok P c \<Longrightarrow> P (view c)"
  by (simp add: conn_ok_def view_def split: option.split)

lemma conn_ok_tick: "tick c = (b, c') \<Longrightarrow> conn_ok P c \<Longrightarrow> conn_ok P c'"
  using tick_fields [of c b c'] by (simp add: conn_ok_def)

lemma conn_ok_begin: "sq_begin c = (b, c') \<Longrightarrow> conn_ok P c \<Longrightarrow> conn_ok P c'"
  by (auto simp: sq_begin_def conn_ok_def split: prod.splits if_splits dest!: tick_fields)

lemma conn_ok_commit: "sq_commit c = (b, c') \<Longrightarrow> conn_ok P c \<Longrightarrow> conn_ok P c'"
  by (auto simp: sq_commit_def conn_ok_def split: prod.splits if_splits option.splits dest!: tick_fields)

lemma conn_ok_rollback: "conn_ok P c \<Longrightarrow> conn_ok P (sq_rollback c)"
  by (simp add: conn_ok_def sq_rollback_def)

lemma conn_ok_set_view: "conn_ok P c \<Longrightarrow> P d \<Longrightarrow> conn_ok P (set_view d c)"
  by (simp add: conn_ok_def set_view_def split: option.split)

text \<open>A table operation keeps a property when it does so where it is not refused.\<close>

definition keeps :: "('d \<Rightarrow> bool) \<Rightarrow> ('d \<Rightarrow> (nat \<times> 'd) option) \<Rightarrow> bool" where
  "keeps P f \<longleftrightarrow> (\<forall>d n d'. P d \<longrightarrow> f d = Some (n, d') \<longrightarrow> P d')"

lemma keepsI: "(\<And>d n d'. P d \<Longrightarrow> f d = Some (n, d') \<Longrightarrow> P d') \<Longrightarrow> keeps P f"
  by (simp add: keeps_def)

lemma conn_ok_step:
  assumes "sq_step f c = (r, c')" and "conn_ok P c" and "keeps P f"
  shows "conn_ok P c'"
proof -
  obtain b c1 where t: "tick c = (b, c1)" by (cases "tick c")
  have c1: "conn_ok P c1" using conn_ok_tick [OF t] assms(2) .
  show ?thesis
    using assms(1,3) c1 conn_ok_view [OF c1] t
    by (auto simp: sq_step_def keeps_def intro!: conn_ok_set_view split: if_splits option.splits prod.splits)
qed

lemma conn_ok_run:
  assumes "sq_run f c = (r, c')" and "conn_ok P c" and "keeps P f"
  shows "conn_ok P c'"
proof -
  obtain b c1 where t: "tick c = (b, c1)" by (cases "tick c")
  have c1: "conn_ok P c1" using conn_ok_tick [OF t] assms(2) .
  show ?thesis
    using assms(1,3) c1 t conn_ok_step [of f c1 r c' P] by (auto simp: sq_run_def split: if_splits)
qed

lemma conn_ok_query: "sq_query q c = (r, c') \<Longrightarrow> conn_ok P c \<Longrightarrow> conn_ok P c'"
  by (auto simp: sq_query_def split: prod.splits if_splits dest: conn_ok_tick)

section \<open>Statements outside a transaction\<close>

lemma query_fields:
  assumes "sq_query q c = (r, c')"
  shows "cn_db c' = cn_db c \<and> cn_txn c' = cn_txn c \<and> (\<forall>x. r = Some (Some x) \<longrightarrow> q (view c) = Some x)"
  using assms
  by (auto simp: sq_query_def split: prod.splits if_splits dest!: tick_same)

lemma step_auto:
  assumes "sq_step f c = (r, c')" and "cn_txn c = None"
  shows "cn_txn c' = None \<and>
    (case r of None \<Rightarrow> cn_db c' = cn_db c | Some n \<Rightarrow> f (cn_db c) = Some (n, cn_db c'))"
  using assms
  by (auto simp: sq_step_def view_def set_view_def split: prod.splits if_splits option.splits dest!: tick_fields)

lemma run_auto:
  assumes "sq_run f c = (r, c')" and "cn_txn c = None"
  shows "cn_txn c' = None \<and>
    (case r of None \<Rightarrow> cn_db c' = cn_db c | Some n \<Rightarrow> f (cn_db c) = Some (n, cn_db c'))"
proof -
  obtain b c1 where t: "tick c = (b, c1)" by (cases "tick c")
  have c1: "cn_txn c1 = None" "cn_db c1 = cn_db c" using tick_fields [OF t] assms(2) by simp_all
  show ?thesis
    using assms(1) t step_auto [of f c1 r c'] c1 by (auto simp: sq_run_def split: if_splits option.splits)
qed

lemma run_idle: "sq_run f c = (r, c') \<Longrightarrow> cn_txn c = None \<Longrightarrow> cn_txn c' = None"
  using run_auto by blast

lemma query_idle: "sq_query q c = (r, c') \<Longrightarrow> cn_txn c = None \<Longrightarrow> cn_txn c' = None"
  using query_fields by metis

lemma idle_conn_ok: "cn_txn c = None \<Longrightarrow> conn_ok P c \<longleftrightarrow> P (cn_db c)"
  by (simp add: conn_ok_def)

text \<open>A connection on which nothing fails.\<close>

lemma no_failures [simp]:
  assumes "cn_script c = []"
  shows "tick c = (True, c)"
    and "sq_query q c = (Some (q (view c)), c)"
    and "sq_step f c = (case f (view c) of None \<Rightarrow> (None, c) | Some (n, d) \<Rightarrow> (Some n, set_view d c))"
    and "sq_run f c = sq_step f c"
  using assms by (simp_all add: tick_def sq_query_def sq_step_def sq_run_def)

lemma set_view_script [simp]: "cn_script (set_view d c) = cn_script c"
  by (simp add: set_view_def split: option.split)

lemma view_idle [simp]: "cn_txn c = None \<Longrightarrow> view c = cn_db c"
  by (simp add: view_def)

lemma set_view_idle [simp]: "cn_txn c = None \<Longrightarrow> set_view d c = c\<lparr>cn_db := d\<rparr>"
  by (simp add: set_view_def)

section \<open>Transactions\<close>

text \<open>
  The idiom of the transactional writers: \<open>BEGIN\<close>, the statements, \<open>ROLLBACK\<close> and \<open>false\<close> on the
  first that fails, \<open>COMMIT\<close>, and \<open>ROLLBACK\<close> when that fails.
\<close>

definition in_txn :: "('d conn \<Rightarrow> 'r option \<times> 'd conn) \<Rightarrow> 'd conn \<Rightarrow> 'r option \<times> 'd conn" where
  "in_txn body c =
     (let (b, c) = sq_begin c in
      if \<not> b then (None, c)
      else case body c of
        (None, c) \<Rightarrow> (None, sq_rollback c)
      | (Some r, c) \<Rightarrow>
          let (b, c) = sq_commit c in if b then (Some r, c) else (None, sq_rollback c))"

text \<open>
  A transaction body against its abstract effect: it never touches the committed tables, it stays in
  its transaction, and where it succeeds it has done exactly what the effect says.
\<close>

definition realizes :: "('d conn \<Rightarrow> 'r option \<times> 'd conn) \<Rightarrow> ('d \<Rightarrow> ('r \<times> 'd) option) \<Rightarrow> bool" where
  "realizes body eff \<longleftrightarrow>
     (\<forall>c d r c'. cn_txn c = Some d \<longrightarrow> body c = (r, c') \<longrightarrow>
        cn_db c' = cn_db c \<and> cn_txn c' \<noteq> None \<and>
        (\<forall>x. r = Some x \<longrightarrow> eff d = Some (x, the (cn_txn c'))))"

text \<open>And when nothing fails, the body does what its effect says.\<close>

definition exact :: "('d conn \<Rightarrow> 'r option \<times> 'd conn) \<Rightarrow> ('d \<Rightarrow> ('r \<times> 'd) option) \<Rightarrow> bool" where
  "exact body eff \<longleftrightarrow>
     (\<forall>c d x d'. cn_script c = [] \<longrightarrow> cn_txn c = Some d \<longrightarrow> eff d = Some (x, d') \<longrightarrow>
        body c = (Some x, c\<lparr>cn_txn := Some d'\<rparr>))"

locale transaction =
  fixes body :: "'d conn \<Rightarrow> 'r option \<times> 'd conn"
    and eff :: "'d \<Rightarrow> ('r \<times> 'd) option"
  assumes realizes: "realizes body eff" and exact: "exact body eff"
begin

lemma body_run:
  assumes "cn_txn c = Some d" and "body c = (r, c')"
  shows "cn_db c' = cn_db c \<and> cn_txn c' \<noteq> None \<and> (\<forall>x. r = Some x \<longrightarrow> eff d = Some (x, the (cn_txn c')))"
  using realizes assms unfolding realizes_def by blast

text \<open>All or nothing, and the connection is never left inside the transaction.\<close>

lemma atomic:
  assumes run: "in_txn body c = (r, c')" and idle: "cn_txn c = None"
  shows "cn_txn c' = None \<and>
    (case r of None \<Rightarrow> cn_db c' = cn_db c | Some x \<Rightarrow> eff (cn_db c) = Some (x, cn_db c'))"
proof -
  obtain b c1 where b: "sq_begin c = (b, c1)" by (cases "sq_begin c")
  show ?thesis
  proof (cases b)
    case False
    then show ?thesis
      using run b idle by (auto simp: in_txn_def sq_begin_def split: prod.splits if_splits dest!: tick_fields)
  next
    case True
    then have c1: "cn_txn c1 = Some (cn_db c)" "cn_db c1 = cn_db c"
      using b by (auto simp: sq_begin_def split: prod.splits if_splits dest!: tick_fields)
    obtain r2 c2 where body: "body c1 = (r2, c2)" by (cases "body c1")
    note c2 = body_run [OF c1(1) body]
    show ?thesis
      using run b True c1 body c2
      by (auto simp: in_txn_def sq_commit_def sq_rollback_def
          split: prod.splits option.splits if_splits dest!: tick_fields)
  qed
qed

lemma preserves:
  assumes "in_txn body c = (r, c')" and "cn_txn c = None" and "P (cn_db c)"
    and "\<And>d x d'. P d \<Longrightarrow> eff d = Some (x, d') \<Longrightarrow> P d'"
  shows "cn_txn c' = None \<and> P (cn_db c')"
  using atomic [OF assms(1,2)] assms(3) assms(4) [of "cn_db c"] by (auto split: option.splits)

text \<open>Whatever state the connection is in, an invariant that the effect keeps is kept.\<close>

lemma keeps_conn_ok:
  assumes run: "in_txn body c = (r, c')" and ok: "conn_ok P c"
    and closed: "\<And>d x d'. P d \<Longrightarrow> eff d = Some (x, d') \<Longrightarrow> P d'"
  shows "conn_ok P c'"
proof -
  obtain b c1 where b: "sq_begin c = (b, c1)" by (cases "sq_begin c")
  have ok1: "conn_ok P c1" using b ok by (rule conn_ok_begin)
  show ?thesis
  proof (cases b)
    case False
    then show ?thesis using run b ok1 by (simp add: in_txn_def)
  next
    case True
    then have c1: "cn_txn c1 = Some (cn_db c1)"
      using b by (auto simp: sq_begin_def split: prod.splits if_splits)
    obtain r2 c2 where body: "body c1 = (r2, c2)" by (cases "body c1")
    note c2 = body_run [OF c1 body]
    show ?thesis
    proof (cases r2)
      case None
      then have "c' = sq_rollback c2" using run b True body by (simp add: in_txn_def)
      then show ?thesis using c2 ok1 by (simp add: conn_ok_def sq_rollback_def)
    next
      case (Some x)
      then have "eff (cn_db c1) = Some (x, the (cn_txn c2))" using c2 by simp
      then have "P (the (cn_txn c2))" using closed [of "cn_db c1"] ok1 by (simp add: conn_ok_def)
      then have ok2: "conn_ok P c2" using c2 ok1 by (auto simp: conn_ok_def)
      obtain b3 c3 where b3: "sq_commit c2 = (b3, c3)" by (cases "sq_commit c2")
      have "conn_ok P c3" using b3 ok2 by (rule conn_ok_commit)
      then show ?thesis
        using run b True body Some b3 by (auto simp: in_txn_def conn_ok_rollback split: if_splits)
    qed
  qed
qed

lemma nothing_failed:
  assumes "cn_txn c = None" and "cn_script c = []" and "eff (cn_db c) = Some (x, d')"
  shows "in_txn body c = (Some x, c\<lparr>cn_db := d'\<rparr>)"
proof -
  have "body (c\<lparr>cn_txn := Some (cn_db c)\<rparr>) = (Some x, c\<lparr>cn_txn := Some d'\<rparr>)"
    using exact assms(2,3) unfolding exact_def by simp
  then show ?thesis
    using assms(1,2) by (simp add: in_txn_def sq_begin_def sq_commit_def)
qed

end

subsection \<open>Composing transaction bodies\<close>

definition sq_then :: "('d conn \<Rightarrow> 'a option \<times> 'd conn) \<Rightarrow> ('a \<Rightarrow> 'd conn \<Rightarrow> 'b option \<times> 'd conn) \<Rightarrow>
    'd conn \<Rightarrow> 'b option \<times> 'd conn" where
  "sq_then m k c = (case m c of (None, c) \<Rightarrow> (None, c) | (Some x, c) \<Rightarrow> k x c)"

definition sq_return :: "'a \<Rightarrow> 'd conn \<Rightarrow> 'a option \<times> 'd conn" where
  "sq_return x c = (Some x, c)"

text \<open>A guard on the number of changed rows.\<close>

definition sq_guard :: "bool \<Rightarrow> 'd conn \<Rightarrow> unit option \<times> 'd conn" where
  "sq_guard b c = (if b then Some () else None, c)"

definition eff_then :: "('d \<Rightarrow> ('a \<times> 'd) option) \<Rightarrow> ('a \<Rightarrow> 'd \<Rightarrow> ('b \<times> 'd) option) \<Rightarrow> 'd \<Rightarrow> ('b \<times> 'd) option" where
  "eff_then f g d = (case f d of None \<Rightarrow> None | Some (x, d) \<Rightarrow> g x d)"

named_theorems realizes_intros "transaction bodies realize their effects"

lemma realizes_then [realizes_intros]:
  assumes "realizes m f" and "\<And>x. realizes (k x) (g x)"
  shows "realizes (sq_then m k) (eff_then f g)"
  unfolding realizes_def
proof (intro allI impI)
  fix c d r c'
  assume d: "cn_txn c = Some d" and run: "sq_then m k c = (r, c')"
  obtain r1 c1 where m: "m c = (r1, c1)" by (cases "m c")
  have c1: "cn_db c1 = cn_db c \<and> cn_txn c1 \<noteq> None \<and> (\<forall>x. r1 = Some x \<longrightarrow> f d = Some (x, the (cn_txn c1)))"
    using assms(1) d m unfolding realizes_def by blast
  show "cn_db c' = cn_db c \<and> cn_txn c' \<noteq> None \<and> (\<forall>x. r = Some x \<longrightarrow> eff_then f g d = Some (x, the (cn_txn c')))"
  proof (cases r1)
    case None
    then show ?thesis using c1 m run by (simp add: sq_then_def)
  next
    case (Some x)
    then have k: "k x c1 = (r, c')" using m run by (simp add: sq_then_def)
    obtain d1 where d1: "cn_txn c1 = Some d1" using c1 by blast
    then have "cn_db c' = cn_db c1 \<and> cn_txn c' \<noteq> None \<and> (\<forall>y. r = Some y \<longrightarrow> g x d1 = Some (y, the (cn_txn c')))"
      using assms(2) [of x] k unfolding realizes_def by blast
    moreover have "f d = Some (x, d1)" using c1 Some d1 by simp
    ultimately show ?thesis using c1 by (simp add: eff_then_def)
  qed
qed

lemma realizes_return [realizes_intros]: "realizes (sq_return x) (\<lambda>d. Some (x, d))"
  by (auto simp: realizes_def sq_return_def)

lemma realizes_guard [realizes_intros]:
  "realizes (sq_guard b) (\<lambda>d. if b then Some ((), d) else None)"
  by (auto simp: realizes_def sq_guard_def)

lemma realizes_step [realizes_intros]: "realizes (sq_step f) f"
  unfolding realizes_def sq_step_def
  by (auto simp: view_def set_view_def split: prod.splits if_splits option.splits dest!: tick_fields)

lemma realizes_run [realizes_intros]: "realizes (sq_run f) f"
  unfolding realizes_def
proof (intro allI impI)
  fix c d r c'
  assume d: "cn_txn c = Some d" and run: "sq_run f c = (r, c')"
  obtain b c1 where t: "tick c = (b, c1)" by (cases "tick c")
  have c1: "cn_txn c1 = Some d" "cn_db c1 = cn_db c" using tick_fields [OF t] d by simp_all
  show "cn_db c' = cn_db c \<and> cn_txn c' \<noteq> None \<and> (\<forall>x. r = Some x \<longrightarrow> f d = Some (x, the (cn_txn c')))"
  proof (cases b)
    case True
    then have "sq_step f c1 = (r, c')" using run t by (simp add: sq_run_def)
    then show ?thesis
      using realizes_step [of f] c1 unfolding realizes_def by metis
  next
    case False
    then show ?thesis using run t c1 by (simp add: sq_run_def)
  qed
qed

lemma exact_then [realizes_intros]:
  fixes m :: "'d conn \<Rightarrow> 'a option \<times> 'd conn"
  assumes "exact m f" and "\<And>x. exact (k x) (g x)"
  shows "exact (sq_then m k) (eff_then f g)"
  unfolding exact_def
proof (intro allI impI)
  fix c :: "'d conn" and d x d'
  assume s: "cn_script c = []" and d: "cn_txn c = Some d" and e: "eff_then f g d = Some (x, d')"
  obtain y d1 where f: "f d = Some (y, d1)" and g: "g y d1 = Some (x, d')"
    using e by (auto simp: eff_then_def split: option.splits)
  have "m c = (Some y, c\<lparr>cn_txn := Some d1\<rparr>)"
    using assms(1) s d f unfolding exact_def by blast
  moreover have "k y (c\<lparr>cn_txn := Some d1\<rparr>) = (Some x, c\<lparr>cn_txn := Some d1\<rparr>\<lparr>cn_txn := Some d'\<rparr>)"
    using assms(2) [of y] s g unfolding exact_def by simp
  ultimately show "sq_then m k c = (Some x, c\<lparr>cn_txn := Some d'\<rparr>)"
    by (simp add: sq_then_def)
qed

lemma exact_return [realizes_intros]: "exact (sq_return x) (\<lambda>d. Some (x, d))"
  by (auto simp: exact_def sq_return_def)

lemma exact_guard [realizes_intros]: "exact (sq_guard b) (\<lambda>d. if b then Some ((), d) else None)"
  by (auto simp: exact_def sq_guard_def)

lemma exact_step [realizes_intros]: "exact (sq_step f) f"
  by (auto simp: exact_def view_def set_view_def)

lemma exact_run [realizes_intros]: "exact (sq_run f) f"
  by (auto simp: exact_def view_def set_view_def)

end
