(* ===== verification/ServerDb.thy ===== *)
theory ServerDb
  imports Sql Protocol
begin

text \<open>
  The tables of the server (\<^verbatim>\<open>im_server/src/db/Database.cpp\<close>, \<^verbatim>\<open>Database::open\<close>), one record per row
  and one list per table in the order of insertion, and the conversation id with the migration that
  recomputes it. A UNIQUE or PRIMARY KEY constraint is the refusal (\<open>None\<close>) of an insertion.
\<close>

record user_row =
  u_id :: int
  u_name :: string
  u_tel :: string
  u_passwd :: string
  u_salt :: string
  u_algo :: string
  u_feeling :: string
  u_icon :: int

record request_row =
  fr_requester :: int
  fr_target :: int
  fr_status :: int
  fr_created :: int
  fr_updated :: int

record stored_message =
  sm_msgId :: string
  sm_sender :: int
  sm_receiver :: int
  sm_type :: int
  sm_content :: string
  sm_mediaPath :: string
  sm_imgW :: int
  sm_imgH :: int
  sm_ts :: int
  sm_seq :: int
  sm_fileId :: string
  sm_fileSize :: int
  sm_contentType :: string
  sm_sha256 :: string
  sm_thumbFileId :: string
  sm_thumbPath :: string
  sm_thumbSize :: int
  sm_thumbSha256 :: string
  sm_thumbW :: int
  sm_thumbH :: int
  sm_largeFileId :: string
  sm_largePath :: string
  sm_largeSize :: int
  sm_largeSha256 :: string
  sm_largeW :: int
  sm_largeH :: int

text \<open>A row of \<open>messages\<close>: the message, its row id, its conversation and its delivery mark.\<close>

record msg_row =
  mr_id :: int
  mr_conv :: int
  mr_delivered :: bool
  mr_msg :: stored_message

record auth_row =
  ar_session :: string
  ar_family :: string
  ar_user :: int
  ar_device :: string
  ar_access :: string
  ar_accessExp :: int
  ar_refresh :: string
  ar_refreshExp :: int
  ar_generation :: int
  ar_revoked :: bool
  ar_lastUsed :: int

record history_row =
  hr_family :: string
  hr_token :: string
  hr_generation :: int
  hr_used :: int

record device_row =
  dv_user :: int
  dv_device :: string
  dv_key :: bytes

datatype upload_state = UpOpen | UpFinalized | UpCancelled

record upload_session =
  us_id :: string
  us_uploader :: int
  us_device :: string
  us_receiver :: int
  us_fileName :: string
  us_fileSize :: int
  us_sha256 :: string
  us_contentType :: string
  us_isImage :: bool
  us_chunkSize :: int
  us_chunkCount :: int
  us_expires :: int
  us_state :: upload_state
  us_fileId :: string
  us_tmpPath :: string
  us_created :: int

record chunk_row =
  ck_upload :: string
  ck_index :: int
  ck_size :: int
  ck_sha256 :: string

record media_row =
  mo_sha256 :: string
  mo_size :: int
  mo_path :: string
  mo_contentType :: string

record server_db =
  db_users :: "user_row list"
  db_nextUser :: int
  db_friends :: "(int \<times> int) list"
  db_requests :: "request_row list"
  db_messages :: "msg_row list"
  db_nextMsg :: int
  db_auth :: "auth_row list"
  db_history :: "history_row list"
  db_devices :: "device_row list"
  db_uploads :: "upload_session list"
  db_chunks :: "chunk_row list"
  db_media :: "media_row list"
  db_version :: int

definition empty_db :: server_db where
  "empty_db = \<lparr>db_users = [], db_nextUser = 1, db_friends = [], db_requests = [], db_messages = [],
     db_nextMsg = 1, db_auth = [], db_history = [], db_devices = [], db_uploads = [], db_chunks = [],
     db_media = [], db_version = 0\<rparr>"

type_synonym sconn = "server_db conn"

definition sconn_new :: "server_db \<Rightarrow> bool list \<Rightarrow> sconn" where
  "sconn_new d script = \<lparr>cn_db = d, cn_txn = None, cn_script = script\<rparr>"

section \<open>Conversation ids\<close>

definition makeConversationId :: "int \<Rightarrow> int \<Rightarrow> int" where
  "makeConversationId idA idB =
     (if idA \<le> 0 \<or> idB \<le> 0 then 0
      else let low = (word_of_int (if idA < idB then idA else idB) :: u32);
               high = (word_of_int (if idA > idB then idA else idB) :: u32);
               packed = (push_bit 32 (ucast low) OR ucast high :: u64)
           in sint packed)"

text \<open>The migration's SQL expression, on 64-bit integers.\<close>

definition sql_conversation_id :: "int \<Rightarrow> int \<Rightarrow> int" where
  "sql_conversation_id s r = (if s < r then s else r) * 4294967296 + (if s < r then r else s)"

text \<open>
  The UPDATE goes row by row; the unique index on conversation and sequence number refuses a row
  that collides with a row before or after it, and with it the whole statement.
\<close>

definition rekey :: "msg_row \<Rightarrow> msg_row" where
  "rekey r = r\<lparr>mr_conv := sql_conversation_id (sm_sender (mr_msg r)) (sm_receiver (mr_msg r))\<rparr>"

definition same_slot :: "msg_row \<Rightarrow> msg_row \<Rightarrow> bool" where
  "same_slot r x \<longleftrightarrow> mr_conv x = mr_conv r \<and> sm_seq (mr_msg x) = sm_seq (mr_msg r)"

fun migrate_rows :: "msg_row list \<Rightarrow> msg_row list \<Rightarrow> msg_row list option" where
  "migrate_rows done [] = Some done"
| "migrate_rows done (r # rs) =
     (if list_ex (same_slot (rekey r)) (done @ rs) then None else migrate_rows (done @ [rekey r]) rs)"

definition migrate_update :: "server_db \<Rightarrow> (nat \<times> server_db) option" where
  "migrate_update d =
     (case migrate_rows [] (db_messages d) of
        None \<Rightarrow> None
      | Some rs \<Rightarrow> Some (length rs, d\<lparr>db_messages := rs\<rparr>))"

definition set_version :: "server_db \<Rightarrow> (nat \<times> server_db) option" where
  "set_version d = Some (0, d\<lparr>db_version := 1\<rparr>)"

definition migrate_body :: "sconn \<Rightarrow> nat option \<times> sconn" where
  "migrate_body = sq_then (sq_step migrate_update) (\<lambda>_. sq_step set_version)"

definition migrateConversationIds :: "sconn \<Rightarrow> bool \<times> sconn" where
  "migrateConversationIds c = (case in_txn migrate_body c of (r, c) \<Rightarrow> (r \<noteq> None, c))"

lemma migrate_rows_Some:
  "migrate_rows done rs = Some out \<Longrightarrow> out = done @ map rekey rs"
  by (induction "done" rs rule: migrate_rows.induct) (auto split: if_splits)

interpretation migration: transaction migrate_body "eff_then migrate_update (\<lambda>_. set_version)"
  by unfold_locales (unfold migrate_body_def, (intro realizes_intros)+)

lemma migration_correct:
  assumes "migrateConversationIds c = (b, c')" and "cn_txn c = None"
  shows "cn_txn c' = None \<and>
    (if b then db_version (cn_db c') = 1 \<and> db_messages (cn_db c') = map rekey (db_messages (cn_db c))
     else cn_db c' = cn_db c)"
proof -
  obtain r where r: "in_txn migrate_body c = (r, c')" "b = (r \<noteq> None)"
    using assms(1) by (auto simp: migrateConversationIds_def split: prod.splits)
  show ?thesis
    using migration.atomic [OF r(1) assms(2)] r(2)
    by (auto simp: eff_then_def migrate_update_def set_version_def dest!: migrate_rows_Some
        split: option.splits) (drule sym [of _ "cn_db c'"], simp)+
qed

definition user_id_ok :: "int \<Rightarrow> bool" where
  "user_id_ok i \<longleftrightarrow> 0 < i \<and> i < 2 ^ 31"

lemma pack_sint:
  fixes a b :: int
  assumes "0 \<le> a" "a < 2 ^ 31" "0 \<le> b" "b < 2 ^ 32"
  shows "sint (push_bit 32 (ucast (word_of_int a :: u32)) OR ucast (word_of_int b :: u32) :: u64) =
    a * 4294967296 + b"
proof -
  have a: "uint (word_of_int a :: u32) = a" and b: "uint (word_of_int b :: u32) = b"
    using assms by (simp_all add: uint_word_of_int_eq take_bit_int_eq_self)
  have "uint (ucast (word_of_int a :: u32) :: u64) = a"
    using assms a by (simp add: unsigned_ucast_eq take_bit_int_eq_self)
  then have "(ucast (word_of_int a :: u32) :: u64) = word_of_int a"
    by (metis word_of_int_uint)
  then have "push_bit 32 (ucast (word_of_int a :: u32)) = (word_of_int (a * 2 ^ 32) :: u64)"
    by (simp add: push_bit_eq_mult)
  moreover have "uint (word_of_int (a * 2 ^ 32) :: u64) = a * 2 ^ 32"
    using assms by (subst uint_word_of_int_eq, intro take_bit_int_eq_self) simp_all
  ultimately have "uint (push_bit 32 (ucast (word_of_int a :: u32)) :: u64) = a * 2 ^ 32"
    by (simp only:)
  moreover have "uint (ucast (word_of_int b :: u32) :: u64) = b"
    using assms b by (simp add: unsigned_ucast_eq take_bit_int_eq_self)
  ultimately have u: "uint (push_bit 32 (ucast (word_of_int a :: u32)) OR ucast (word_of_int b :: u32) :: u64) =
      push_bit 32 a OR b"
    by (simp add: unsigned_or_eq push_bit_eq_mult)
  have "push_bit 32 a AND b = 0"
  proof (rule bit_eqI)
    fix n
    show "bit (push_bit 32 a AND b) n \<longleftrightarrow> bit (0 :: int) n"
    proof (cases "n < 32")
      case False
      then have "b < 2 ^ n"
        using assms(4) power_increasing [of 32 n "2 :: int"] by linarith
      then have "\<not> bit b n" using assms(3) by (simp add: bit_iff_odd)
      then show ?thesis by (simp add: bit_and_iff)
    qed (simp add: bit_and_iff bit_push_bit_iff)
  qed
  then have "push_bit 32 a OR b = push_bit 32 a + b"
    using plus_and_or [of "push_bit 32 a" b] by simp
  then have "push_bit 32 a OR b = a * 2 ^ 32 + b"
    by (simp add: push_bit_eq_mult)
  then have v: "uint (push_bit 32 (ucast (word_of_int a :: u32)) OR ucast (word_of_int b :: u32) :: u64) =
      a * 2 ^ 32 + b"
    using u by simp
  have "a * 2 ^ 32 + b < 2 ^ 63"
  proof -
    have "a * 2 ^ 32 \<le> (2 ^ 31 - 1) * 2 ^ 32" using assms by (intro mult_right_mono) auto
    then show ?thesis using assms by simp
  qed
  then have "sint (push_bit 32 (ucast (word_of_int a :: u32)) OR ucast (word_of_int b :: u32) :: u64) =
      a * 2 ^ 32 + b"
    using assms v by (simp add: sint_uint signed_take_bit_int_eq_self)
  then show ?thesis by simp
qed

lemma makeConversationId_eq:
  "user_id_ok a \<Longrightarrow> user_id_ok b \<Longrightarrow> makeConversationId a b = sql_conversation_id a b"
  unfolding makeConversationId_def sql_conversation_id_def user_id_ok_def Let_def
  by (auto simp: pack_sint)

lemma sql_conversation_id_inject:
  assumes "user_id_ok a" "user_id_ok b" "user_id_ok a'" "user_id_ok b'"
    and "sql_conversation_id a b = sql_conversation_id a' b'"
  shows "{a, b} = {a', b'}"
proof -
  have *: "x = x' \<and> y = y'"
    if "x * 4294967296 + y = x' * 4294967296 + y'" "0 < y" "y < 2 ^ 31" "0 < y'" "y' < 2 ^ 31"
    for x y x' y' :: int
  proof -
    have "x = (x * 4294967296 + y) div 4294967296" "x' = (x' * 4294967296 + y') div 4294967296"
      using that by simp_all
    then have "x = x'" using that(1) by simp
    then show ?thesis using that(1) by simp
  qed
  have c: "sql_conversation_id x y = min x y * 4294967296 + max x y" for x y
    by (simp add: sql_conversation_id_def min_def max_def)
  have "min a b = min a' b' \<and> max a b = max a' b'"
    using assms by (intro *) (auto simp: c user_id_ok_def)
  then show ?thesis
    by (auto simp: min_def max_def split: if_splits)
qed

text \<open>
  Conversation ids. Two users get one id whichever of them sends, two different pairs get
  different ids, an invalid user gets the reserved id 0, and the migration of old databases writes
  the id that new messages are stored under.
\<close>

theorem conversation_id_correct:
  assumes "user_id_ok a" "user_id_ok b" "user_id_ok a'" "user_id_ok b'"
  shows "makeConversationId a b = makeConversationId b a \<and>
    (makeConversationId a b = makeConversationId a' b' \<longleftrightarrow> {a, b} = {a', b'}) \<and>
    makeConversationId a b = sql_conversation_id a b \<and>
    0 < makeConversationId a b \<and>
    (\<forall>x \<le> 0. makeConversationId x b = 0 \<and> makeConversationId a x = 0)"
proof (intro conjI)
  have sym: "sql_conversation_id x y = sql_conversation_id y x" for x y
    by (simp add: sql_conversation_id_def)
  show "makeConversationId a b = makeConversationId b a"
    using assms sym by (simp add: makeConversationId_eq)
  show "makeConversationId a b = makeConversationId a' b' \<longleftrightarrow> {a, b} = {a', b'}"
    using assms sql_conversation_id_inject sym
    by (auto simp: makeConversationId_eq doubleton_eq_iff)
  show "makeConversationId a b = sql_conversation_id a b"
    using assms by (simp add: makeConversationId_eq)
  show "0 < makeConversationId a b"
    using assms by (simp add: makeConversationId_eq sql_conversation_id_def user_id_ok_def)
qed (auto simp: makeConversationId_def)

theorem conversation_id_correct_witness:
  "makeConversationId 7 3 = makeConversationId 3 7 \<and> makeConversationId 7 3 = sql_conversation_id 7 3"
  using conversation_id_correct [of 7 3 1 2] by (simp add: user_id_ok_def)

end
