(* ===== verification/UserStore.thy ===== *)
theory UserStore
  imports ServerDb Sha256
begin

text \<open>
  Accounts, device keys and friends (\<^verbatim>\<open>Database.cpp\<close>, registration and login, device keys,
  profile and friend methods).

  Argon2id is not under \<^verbatim>\<open>src/\<close>: the hash of the password (with its random salt) is an argument,
  \<open>None\<close> when the hashing throws, and verification is a parameter \<open>verify encoded secret\<close>.
\<close>

section \<open>Registration and login\<close>

definition default_feeling :: string where
  "default_feeling = [CHR 0xE5, CHR 0x8A, CHR 0xAA, CHR 0xE5, CHR 0x8A, CHR 0x9B, CHR 0xE5, CHR 0xAE,
     CHR 0x9E, CHR 0xE7, CHR 0x8E, CHR 0xB0, CHR 0xE8, CHR 0xB4, CHR 0xA2, CHR 0xE5, CHR 0xAF, CHR 0x8C,
     CHR 0xE8, CHR 0x87, CHR 0xAA, CHR 0xE7, CHR 0x94, CHR 0xB1]"

definition user_by_name :: "string \<Rightarrow> server_db \<Rightarrow> user_row option" where
  "user_by_name nick d = find (\<lambda>u. u_name u = cstr nick) (db_users d)"

definition user_by_tel :: "string \<Rightarrow> server_db \<Rightarrow> user_row option" where
  "user_by_tel tel d = find (\<lambda>u. u_tel u = cstr tel) (db_users d)"

definition insert_user :: "string \<Rightarrow> string \<Rightarrow> string \<Rightarrow> server_db \<Rightarrow> (nat \<times> server_db) option" where
  "insert_user nick tel stored d =
     (if list_ex (\<lambda>u. u_name u = cstr nick \<or> u_tel u = cstr tel) (db_users d) then None
      else Some (1, d\<lparr>db_users := db_users d @ [\<lparr>u_id = db_nextUser d, u_name = cstr nick, u_tel = cstr tel,
                          u_passwd = cstr stored, u_salt = [], u_algo = ''argon2id'',
                          u_feeling = default_feeling, u_icon = 3\<rparr>],
                      db_nextUser := db_nextUser d + 1\<rparr>))"

definition registerUser :: "string option \<Rightarrow> string \<Rightarrow> string \<Rightarrow> sconn \<Rightarrow> int \<times> sconn" where
  "registerUser hashed nick tel c =
     (case hashed of
        None \<Rightarrow> (-1, c)
      | Some stored \<Rightarrow>
          (case sq_query (user_by_name nick) c of
             (None, c) \<Rightarrow> (-1, sq_rollback c)
           | (Some (Some _), c) \<Rightarrow> (REGISTER_NICK_EXIT, c)
           | (Some None, c) \<Rightarrow>
               (case sq_query (user_by_tel tel) c of
                  (None, c) \<Rightarrow> (-1, sq_rollback c)
                | (Some (Some _), c) \<Rightarrow> (REGISTER_TEL_EXIT, c)
                | (Some None, c) \<Rightarrow>
                    (let (prepared, c) = tick c in
                     if \<not> prepared then (-1, sq_rollback c)
                     else case sq_step (insert_user nick tel stored) c of
                       (None, c) \<Rightarrow> (-1, c)
                     | (Some _, c) \<Rightarrow> (REGISTER_SUCC, c)))))"

text \<open>\<open>CRYPTO_memcmp\<close> is zero exactly on equal buffers.\<close>

definition constantTimeEqual :: "bytes \<Rightarrow> bytes \<Rightarrow> bool" where
  "constantTimeEqual left right \<longleftrightarrow> length left = length right \<and> (left = [] \<or> left = right)"

definition constantTimeStringEqual :: "string \<Rightarrow> string \<Rightarrow> bool" where
  "constantTimeStringEqual left right \<longleftrightarrow>
     length left = length right \<and> constantTimeEqual (bytes_of left) (bytes_of right)"

lemma constantTimeEqual_iff [simp]: "constantTimeEqual left right \<longleftrightarrow> left = right"
  by (auto simp: constantTimeEqual_def)

lemma constantTimeStringEqual_iff [simp]: "constantTimeStringEqual left right \<longleftrightarrow> left = right"
  by (auto simp: constantTimeStringEqual_def)

definition upgrade_password :: "int \<Rightarrow> string \<Rightarrow> server_db \<Rightarrow> (nat \<times> server_db) option" where
  "upgrade_password uid upgraded d =
     (let P = (\<lambda>u. u_id u = uid \<and> u_algo u = ''legacy_sha256'')
      in Some (count_where P (db_users d),
               d\<lparr>db_users := upd_where P (\<lambda>u. u\<lparr>u_passwd := cstr upgraded, u_salt := [], u_algo := ''argon2id''\<rparr>)
                                (db_users d)\<rparr>))"

text \<open>
  \<open>rehash\<close> is the Argon2id hash for the upgrade of an old account, \<open>None\<close> when it throws;
  \<open>junk\<close> is what the hash object's buffer held. The result is the code, the user and the state.
\<close>

definition loginUser ::
  "(string \<Rightarrow> string \<Rightarrow> bool) \<Rightarrow> string option \<Rightarrow> bytes \<Rightarrow> read_io \<Rightarrow> string \<Rightarrow> string \<Rightarrow> int \<Rightarrow> sconn \<Rightarrow> int \<times> int \<times> sconn" where
  "loginUser verify rehash junk io tel passHash uid0 c =
     (if \<not> rd_prepared io then (-1, uid0, c)
      else case fetch_one io (filter (\<lambda>u. u_tel u = cstr tel) (db_users (cn_db c))) of
        None \<Rightarrow> (LOGIN_NOTEXIT, uid0, c)
      | Some u \<Rightarrow>
          if u_algo u = ''argon2id'' then
            (if verify (u_passwd u) passHash then LOGIN_SUCCESS else LOGIN_PASSERROR, u_id u, c)
          else if \<not> constantTimeStringEqual (sha256Hex junk (u_salt u @ passHash)) (u_passwd u) then
            (LOGIN_PASSERROR, u_id u, c)
          else
            (LOGIN_SUCCESS, u_id u,
             case rehash of None \<Rightarrow> c | Some upgraded \<Rightarrow> snd (sq_run (upgrade_password (u_id u) upgraded) c)))"

section \<open>Device keys\<close>

definition insert_device :: "int \<Rightarrow> string \<Rightarrow> bytes \<Rightarrow> server_db \<Rightarrow> (nat \<times> server_db) option" where
  "insert_device uid dev key d =
     (if list_ex (\<lambda>v. dv_user v = uid \<and> dv_device v = cstr dev) (db_devices d) then Some (0, d)
      else Some (1, d\<lparr>db_devices := db_devices d @ [\<lparr>dv_user = uid, dv_device = cstr dev, dv_key = key\<rparr>]\<rparr>))"

definition device_key :: "int \<Rightarrow> string \<Rightarrow> server_db \<Rightarrow> bytes option" where
  "device_key uid dev d =
     map_option dv_key (find (\<lambda>v. dv_user v = uid \<and> dv_device v = cstr dev) (db_devices d))"

definition bindDevicePublicKey :: "int \<Rightarrow> string \<Rightarrow> bytes \<Rightarrow> sconn \<Rightarrow> bool \<times> sconn" where
  "bindDevicePublicKey uid dev key c =
     (if uid \<le> 0 \<or> dev = [] \<or> key = [] then (False, c)
      else case sq_run (insert_device uid dev key) c of
        (None, c) \<Rightarrow> (False, c)
      | (Some _, c) \<Rightarrow>
          (case sq_query (device_key uid dev) c of
             (Some (Some k), c) \<Rightarrow> (length k = length key \<and> k \<noteq> [] \<and> constantTimeEqual k key, c)
           | (_, c) \<Rightarrow> (False, c)))"

definition getDevicePublicKey :: "read_io \<Rightarrow> int \<Rightarrow> string \<Rightarrow> server_db \<Rightarrow> bytes option" where
  "getDevicePublicKey io uid dev d =
     (case fetch_one io (filter (\<lambda>v. dv_user v = uid \<and> dv_device v = cstr dev) (db_devices d)) of
        None \<Rightarrow> None
      | Some v \<Rightarrow> if dv_key v \<noteq> [] then Some (dv_key v) else None)"

section \<open>Profiles and friends\<close>

definition getUser :: "read_io \<Rightarrow> int \<Rightarrow> server_db \<Rightarrow> user_row option" where
  "getUser io uid d = fetch_one io (filter (\<lambda>u. u_id u = uid) (db_users d))"

definition isFriend :: "read_io \<Rightarrow> int \<Rightarrow> int \<Rightarrow> server_db \<Rightarrow> bool" where
  "isFriend io a b d \<longleftrightarrow> fetch_one io (filter (\<lambda>p. p = (a, b)) (db_friends d)) \<noteq> None"

definition friend_rows :: "int \<Rightarrow> server_db \<Rightarrow> user_row list" where
  "friend_rows a d =
     concat (map (\<lambda>(x, y). if x = a then filter (\<lambda>u. u_id u = y) (db_users d) else []) (db_friends d))"

definition getFriends :: "read_io \<Rightarrow> int \<Rightarrow> server_db \<Rightarrow> user_row list" where
  "getFriends io a d = fetched io (friend_rows a d)"

definition insert_friend :: "int \<times> int \<Rightarrow> server_db \<Rightarrow> (nat \<times> server_db) option" where
  "insert_friend p d =
     (if p \<in> set (db_friends d) then Some (0, d) else Some (1, d\<lparr>db_friends := db_friends d @ [p]\<rparr>))"

definition add_friend_body :: "int \<Rightarrow> int \<Rightarrow> sconn \<Rightarrow> nat option \<times> sconn" where
  "add_friend_body a b =
     sq_then (sq_run (insert_friend (a, b))) (\<lambda>_. sq_run (insert_friend (b, a)))"

definition addFriendBidirectional :: "int \<Rightarrow> int \<Rightarrow> sconn \<Rightarrow> bool \<times> sconn" where
  "addFriendBidirectional a b c = (case in_txn (add_friend_body a b) c of (r, c) \<Rightarrow> (r \<noteq> None, c))"

definition upsert_request :: "int \<Rightarrow> int \<Rightarrow> int \<Rightarrow> server_db \<Rightarrow> (nat \<times> server_db) option" where
  "upsert_request rq tg now d =
     (let P = (\<lambda>r. fr_requester r = rq \<and> fr_target r = tg) in
      if list_ex P (db_requests d)
      then Some (1, d\<lparr>db_requests := upd_where P
                        (\<lambda>r. r\<lparr>fr_status := 0, fr_created := now, fr_updated := now\<rparr>) (db_requests d)\<rparr>)
      else Some (1, d\<lparr>db_requests := db_requests d @
                        [\<lparr>fr_requester = rq, fr_target = tg, fr_status = 0, fr_created = now, fr_updated = now\<rparr>]\<rparr>))"

definition createFriendRequest :: "int \<Rightarrow> int \<Rightarrow> int \<Rightarrow> sconn \<Rightarrow> bool \<times> sconn" where
  "createFriendRequest rq tg now c =
     (if rq \<le> 0 \<or> tg \<le> 0 \<or> rq = tg then (False, c)
      else case sq_run (upsert_request rq tg now) c of (r, c) \<Rightarrow> (r \<noteq> None, c))"

record request_view =
  rv_requester :: int
  rv_target :: int
  rv_requesterNick :: string
  rv_targetNick :: string
  rv_created :: int

definition request_views :: "server_db \<Rightarrow> request_row \<Rightarrow> request_view list" where
  "request_views d r =
     concat (map (\<lambda>a. if u_id a = fr_requester r then
         map (\<lambda>b. \<lparr>rv_requester = fr_requester r, rv_target = fr_target r, rv_requesterNick = u_name a,
                   rv_targetNick = u_name b, rv_created = fr_created r\<rparr>)
             (filter (\<lambda>b. u_id b = fr_target r) (db_users d))
       else []) (db_users d))"

definition pendingFriendRequests :: "read_io \<Rightarrow> int \<Rightarrow> server_db \<Rightarrow> request_view list" where
  "pendingFriendRequests io uid d =
     (if uid \<le> 0 then []
      else fetched io (sort_key (\<lambda>v. - rv_created v)
        (concat (map (request_views d)
           (filter (\<lambda>r. fr_status r = 0 \<and> (fr_requester r = uid \<or> fr_target r = uid)) (db_requests d))))))"

definition set_request :: "int \<Rightarrow> int \<Rightarrow> int \<Rightarrow> int \<Rightarrow> server_db \<Rightarrow> (nat \<times> server_db) option" where
  "set_request rq tg status now d =
     (let P = (\<lambda>r. fr_requester r = rq \<and> fr_target r = tg \<and> fr_status r = 0)
      in Some (count_where P (db_requests d),
               d\<lparr>db_requests := upd_where P (\<lambda>r. r\<lparr>fr_status := status, fr_updated := now\<rparr>) (db_requests d)\<rparr>))"

text \<open>The two insertions of an acceptance share one prepared statement.\<close>

definition insert_both :: "int \<Rightarrow> int \<Rightarrow> sconn \<Rightarrow> nat option \<times> sconn" where
  "insert_both rq tg =
     sq_then (sq_run (insert_friend (rq, tg))) (\<lambda>_. sq_step (insert_friend (tg, rq)))"

definition resolve_body :: "int \<Rightarrow> int \<Rightarrow> bool \<Rightarrow> int \<Rightarrow> sconn \<Rightarrow> nat option \<times> sconn" where
  "resolve_body rq tg accept now =
     sq_then (sq_run (set_request rq tg (if accept then 1 else 2) now)) (\<lambda>n.
       sq_then (sq_guard (n = 1)) (\<lambda>_.
         if accept then
           sq_then (insert_both rq tg) (\<lambda>_. sq_run (set_request tg rq 1 now))
         else sq_return 0))"

definition resolveFriendRequest :: "int \<Rightarrow> int \<Rightarrow> bool \<Rightarrow> int \<Rightarrow> sconn \<Rightarrow> bool \<times> sconn" where
  "resolveFriendRequest rq tg accept now c =
     (case in_txn (resolve_body rq tg accept now) c of (r, c) \<Rightarrow> (r \<noteq> None, c))"

definition delete_friend :: "int \<Rightarrow> int \<Rightarrow> server_db \<Rightarrow> (nat \<times> server_db) option" where
  "delete_friend a b d =
     (let P = (\<lambda>p. p = (a, b) \<or> p = (b, a))
      in Some (count_where P (db_friends d), d\<lparr>db_friends := filter (\<lambda>p. \<not> P p) (db_friends d)\<rparr>))"

definition removeFriendBidirectional :: "int \<Rightarrow> int \<Rightarrow> sconn \<Rightarrow> bool \<times> sconn" where
  "removeFriendBidirectional a b c =
     (if a \<le> 0 \<or> b \<le> 0 \<or> a = b then (False, c)
      else case in_txn (sq_run (delete_friend a b)) c of (r, c) \<Rightarrow> (r \<noteq> None, c))"

definition getUserIdByNick :: "read_io \<Rightarrow> string \<Rightarrow> server_db \<Rightarrow> int" where
  "getUserIdByNick io nick d =
     (case fetch_one io (filter (\<lambda>u. u_name u = cstr nick) (db_users d)) of None \<Rightarrow> 0 | Some u \<Rightarrow> u_id u)"

definition getUserNickById :: "read_io \<Rightarrow> int \<Rightarrow> server_db \<Rightarrow> string" where
  "getUserNickById io uid d = (case getUser io uid d of None \<Rightarrow> [] | Some u \<Rightarrow> u_name u)"

section \<open>The account table\<close>

definition users_ok :: "server_db \<Rightarrow> bool" where
  "users_ok d \<longleftrightarrow> distinct (map u_name (db_users d)) \<and> distinct (map u_tel (db_users d)) \<and>
     distinct (map u_id (db_users d)) \<and> (\<forall>u \<in> set (db_users d). 0 < u_id u \<and> u_id u < db_nextUser d) \<and>
     0 < db_nextUser d"

lemma users_ok_empty: "users_ok empty_db"
  by (simp add: users_ok_def empty_db_def)

lemma keeps_insert_user: "keeps users_ok (insert_user nick tel stored)"
  by (rule keepsI) (fastforce simp: insert_user_def users_ok_def list_ex_iff split: if_splits)

lemma keeps_upgrade: "keeps users_ok (upgrade_password uid upgraded)"
  by (rule keepsI) (auto simp: upgrade_password_def users_ok_def map_upd_where_id Let_def set_upd_where)

lemma filter_unique:
  "distinct (map f xs) \<Longrightarrow> x \<in> set xs \<Longrightarrow> filter (\<lambda>y. f y = f x) xs = [x]"
  by (induction xs) (auto simp: filter_empty_conv image_iff)

lemma fetch_one_ok [simp]: "fetch_one read_ok rows = (case rows of [] \<Rightarrow> None | r # _ \<Rightarrow> Some r)"
  by (simp add: fetch_one_def)

lemma login_finds:
  assumes "users_ok d" and "u \<in> set (db_users d)" and "cstr tel = u_tel u"
    and "u_algo u = ''argon2id''" and "cn_db c = d"
  shows "loginUser verify rehash junk read_ok tel pass uid0 c =
    (if verify (u_passwd u) pass then LOGIN_SUCCESS else LOGIN_PASSERROR, u_id u, c)"
  using assms filter_unique [of u_tel "db_users d" u]
  by (simp add: loginUser_def users_ok_def read_ok_def [symmetric]) (simp add: read_ok_def)


lemma register_cases:
  assumes run: "registerUser (Some h) nick tel c = (r, c')" and idle: "cn_txn c = None"
  shows "cn_txn c' = None \<and>
    ((r = -1 \<or> (r = REGISTER_NICK_EXIT \<and> cstr nick \<in> u_name ` set (db_users (cn_db c)))
       \<or> (r = REGISTER_TEL_EXIT \<and> cstr tel \<in> u_tel ` set (db_users (cn_db c)))) \<and> cn_db c' = cn_db c
     \<or> r = REGISTER_SUCC \<and> insert_user nick tel h (cn_db c) = Some (1, cn_db c'))"
proof -
  obtain r1 c1 where q1: "sq_query (user_by_name nick) c = (r1, c1)" by (cases "sq_query (user_by_name nick) c")
  note f1 = query_fields [OF q1]
  show ?thesis
  proof (cases r1)
    case None
    then show ?thesis using run q1 f1 by (auto simp: registerUser_def sq_rollback_def)
  next
    case (Some o1)
    show ?thesis
    proof (cases o1)
      case (Some u)
      have "user_by_name nick (cn_db c) = Some u"
        using f1 idle \<open>r1 = Some o1\<close> Some by simp
      then have "cstr nick \<in> u_name ` set (db_users (cn_db c))"
        by (force simp: user_by_name_def dest!: find_SomeD)
      then show ?thesis
        using run q1 f1 idle \<open>r1 = Some o1\<close> Some by (auto simp: registerUser_def)
    next
      case None
      obtain r2 c2 where q2: "sq_query (user_by_tel tel) c1 = (r2, c2)"
        by (cases "sq_query (user_by_tel tel) c1")
      note f2 = query_fields [OF q2]
      obtain b c3 where t: "tick c2 = (b, c3)" by (cases "tick c2")
      note f3 = tick_fields [OF t]
      obtain r4 c4 where st: "sq_step (insert_user nick tel h) c3 = (r4, c4)"
        by (cases "sq_step (insert_user nick tel h) c3")
      note f4 = step_auto [OF st]
      have tel: "cstr tel \<in> u_tel ` set (db_users (cn_db c))" if "r2 = Some (Some u)" for u
        using f1 f2 idle that by (force simp: user_by_tel_def dest!: find_SomeD)
      have one: "insert_user nick tel h d = Some (n, d') \<Longrightarrow> n = 1" for n d d'
        by (auto simp: insert_user_def split: if_splits)
      show ?thesis
        using run q1 f1 \<open>r1 = Some o1\<close> None q2 f2 t f3 st f4 idle tel one
        by (auto simp: registerUser_def sq_rollback_def split: option.splits if_splits)
    qed
  qed
qed

lemma insert_user_row:
  "insert_user nick tel h d = Some (n, d') \<Longrightarrow>
   \<exists>u \<in> set (db_users d'). u_tel u = cstr tel \<and> u_algo u = ''argon2id'' \<and> u_passwd u = cstr h \<and> u_id u = db_nextUser d"
  by (auto simp: insert_user_def split: if_splits)

text \<open>
  Registration and login. Whatever SQLite calls fail, registering leaves the account table
  consistent (distinct names, numbers and ids), changes it only when it reports success, refuses a
  taken name or number, and a reported success is an account that logs in with the password it was
  registered with, under its own fresh id, and with no password the hash does not accept.
\<close>

theorem registration_correct:
  assumes "users_ok (cn_db c)" and "cn_txn c = None" and "registerUser (Some h) nick tel c = (r, c')"
    and "CHR 0x00 \<notin> set h"
  shows "users_ok (cn_db c') \<and> cn_txn c' = None \<and>
    r \<in> {-1, REGISTER_SUCC, REGISTER_NICK_EXIT, REGISTER_TEL_EXIT} \<and>
    (r \<noteq> REGISTER_SUCC \<longrightarrow> cn_db c' = cn_db c) \<and>
    (cstr nick \<in> u_name ` set (db_users (cn_db c)) \<or> cstr tel \<in> u_tel ` set (db_users (cn_db c))
       \<longrightarrow> r \<noteq> REGISTER_SUCC) \<and>
    (r = REGISTER_SUCC \<longrightarrow>
       db_nextUser (cn_db c) \<notin> u_id ` set (db_users (cn_db c)) \<and>
       (\<forall>verify rehash junk pass uid0.
          loginUser verify rehash junk read_ok tel pass uid0 c' =
            (if verify h pass then LOGIN_SUCCESS else LOGIN_PASSERROR, db_nextUser (cn_db c), c')))"
proof -
  note rc = register_cases [OF assms(3,2)]
  have ok: "users_ok (cn_db c')"
    using rc assms(1) keeps_insert_user [of nick tel h] unfolding keeps_def by metis
  have taken: "insert_user nick tel h (cn_db c) = None"
    if "cstr nick \<in> u_name ` set (db_users (cn_db c)) \<or> cstr tel \<in> u_tel ` set (db_users (cn_db c))"
    using that by (auto simp: insert_user_def list_ex_iff)
  have login: "loginUser verify rehash junk read_ok tel pass uid0 c' =
      (if verify h pass then LOGIN_SUCCESS else LOGIN_PASSERROR, db_nextUser (cn_db c), c')"
    if ins: "insert_user nick tel h (cn_db c) = Some (1, cn_db c')" for verify rehash junk pass uid0
  proof -
    obtain u where "u \<in> set (db_users (cn_db c'))" "u_tel u = cstr tel" "u_algo u = ''argon2id''"
      "u_passwd u = h" "u_id u = db_nextUser (cn_db c)"
      using insert_user_row [OF ins] cstr_id [OF assms(4)] by auto
    then show ?thesis
      using login_finds [OF ok, of u tel c' verify rehash junk pass uid0] by simp
  qed
  have fresh: "db_nextUser (cn_db c) \<notin> u_id ` set (db_users (cn_db c))"
    using assms(1) by (auto simp: users_ok_def)
  show ?thesis
    using rc ok taken login fresh by auto
qed

theorem registration_correct_witness:
  "fst (registerUser (Some ''$h'') ''ann'' ''138'' (sconn_new empty_db [])) = REGISTER_SUCC \<and>
   loginUser (\<lambda>h p. p = ''pw'') None [] read_ok ''138'' ''pw'' 0
     (snd (registerUser (Some ''$h'') ''ann'' ''138'' (sconn_new empty_db []))) =
   (LOGIN_SUCCESS, 1, snd (registerUser (Some ''$h'') ''ann'' ''138'' (sconn_new empty_db [])))"
proof -
  let ?c = "sconn_new empty_db []"
  obtain c' where r: "registerUser (Some ''$h'') ''ann'' ''138'' ?c = (REGISTER_SUCC, c')"
    by (simp add: registerUser_def sconn_new_def user_by_name_def user_by_tel_def insert_user_def empty_db_def)
  have c: "users_ok (cn_db ?c)" "cn_txn ?c = None" "db_nextUser (cn_db ?c) = 1"
    by (simp_all add: sconn_new_def users_ok_empty) (simp add: empty_db_def)
  have h: "CHR 0x00 \<notin> set ''$h''" by simp
  show ?thesis
    using registration_correct [OF c(1,2) r h] c(3) by (simp add: r)
qed

end
