(* ===== verification/FriendStore.thy ===== *)
theory FriendStore
  imports UserStore
begin

text \<open>
  What the friend operations of \<open>UserStore\<close> promise, whatever SQLite calls fail: friendship stays
  symmetric, an operation that reports failure changed nothing, and a request is answered once.
\<close>

definition fr_key :: "request_row \<Rightarrow> int \<times> int" where
  "fr_key r = (fr_requester r, fr_target r)"

definition friends_ok :: "server_db \<Rightarrow> bool" where
  "friends_ok d \<longleftrightarrow> sym (set (db_friends d)) \<and> distinct (db_friends d) \<and> distinct (map fr_key (db_requests d))"

definition pending :: "int \<Rightarrow> int \<Rightarrow> server_db \<Rightarrow> bool" where
  "pending rq tg d \<longleftrightarrow> (\<exists>r \<in> set (db_requests d). fr_key r = (rq, tg) \<and> fr_status r = 0)"

lemma insert_friend_set:
  "insert_friend p d = Some (n, d') \<Longrightarrow>
   set (db_friends d') = insert p (set (db_friends d)) \<and> (distinct (db_friends d) \<longrightarrow> distinct (db_friends d')) \<and>
   db_requests d' = db_requests d"
  by (auto simp: insert_friend_def split: if_splits)

lemma set_request_friends:
  "set_request rq tg s now d = Some (n, d') \<Longrightarrow> db_friends d' = db_friends d \<and>
   map fr_key (db_requests d') = map fr_key (db_requests d)"
  by (auto simp: set_request_def Let_def fr_key_def intro!: map_upd_where_id)

lemma set_request_pending:
  assumes "set_request rq tg s now d = Some (n, d')" and "s \<noteq> 0"
  shows "pending x y d' \<longleftrightarrow> pending x y d \<and> (x, y) \<noteq> (rq, tg)"
proof -
  let ?P = "\<lambda>r. fr_requester r = rq \<and> fr_target r = tg \<and> fr_status r = 0"
  let ?f = "\<lambda>r. r\<lparr>fr_status := s, fr_updated := now\<rparr>"
  have row: "fr_key (if ?P r then ?f r else r) = (x, y) \<and> fr_status (if ?P r then ?f r else r) = 0 \<longleftrightarrow>
      (fr_key r = (x, y) \<and> fr_status r = 0) \<and> (x, y) \<noteq> (rq, tg)" for r
    using assms(2) by (auto simp: fr_key_def)
  have "db_requests d' = upd_where ?P ?f (db_requests d)"
    using assms(1) by (auto simp: set_request_def Let_def)
  then show ?thesis
    unfolding pending_def by (simp only: bex_upd_where row) blast
qed

lemma set_request_count:
  assumes "set_request rq tg s now d = Some (n, d')" and "n \<noteq> 0"
  shows "pending rq tg d"
proof -
  let ?P = "\<lambda>r. fr_requester r = rq \<and> fr_target r = tg \<and> fr_status r = 0"
  have "count_where ?P (db_requests d) \<noteq> 0"
    using assms by (simp add: set_request_def Let_def)
  then have "\<not> (\<forall>x \<in> set (db_requests d). \<not> ?P x)"
    unfolding count_where_0 .
  then show ?thesis by (auto simp: pending_def fr_key_def)
qed

text \<open>The key is unique, so a pending request is one row.\<close>

lemma set_request_one:
  "distinct (map fr_key (db_requests d)) \<Longrightarrow> pending rq tg d \<Longrightarrow>
   \<exists>d'. set_request rq tg s now d = Some (1, d')"
  using count_unique [of fr_key "db_requests d"
      "\<lambda>r. fr_requester r = rq \<and> fr_target r = tg \<and> fr_status r = 0" "(rq, tg)"]
    count_where_0 [of "\<lambda>r. fr_requester r = rq \<and> fr_target r = tg \<and> fr_status r = 0" "db_requests d"]
  by (auto simp: set_request_def Let_def pending_def fr_key_def)

section \<open>The transactions\<close>

definition add_effect :: "int \<Rightarrow> int \<Rightarrow> server_db \<Rightarrow> (nat \<times> server_db) option" where
  "add_effect a b = eff_then (insert_friend (a, b)) (\<lambda>_. insert_friend (b, a))"

definition resolve_effect :: "int \<Rightarrow> int \<Rightarrow> bool \<Rightarrow> int \<Rightarrow> server_db \<Rightarrow> (nat \<times> server_db) option" where
  "resolve_effect rq tg accept now =
     eff_then (set_request rq tg (if accept then 1 else 2) now) (\<lambda>n.
       eff_then (\<lambda>d. if n = 1 then Some ((), d) else None) (\<lambda>_.
         if accept then eff_then (add_effect rq tg) (\<lambda>_. set_request tg rq 1 now)
         else (\<lambda>d. Some (0, d))))"

interpretation add_friend: transaction "add_friend_body a b" "add_effect a b" for a b
  by unfold_locales (unfold add_friend_body_def add_effect_def, (intro realizes_intros)+)

interpretation resolve: transaction "resolve_body rq tg accept now" "resolve_effect rq tg accept now"
  for rq tg accept now
proof
  have b: "realizes (insert_both rq tg) (add_effect rq tg)" "exact (insert_both rq tg) (add_effect rq tg)"
    unfolding insert_both_def add_effect_def by (intro realizes_intros)+
  show "realizes (resolve_body rq tg accept now) (resolve_effect rq tg accept now)"
    unfolding resolve_body_def resolve_effect_def
    by (cases accept) (simp_all, (intro realizes_intros b)+)
  show "exact (resolve_body rq tg accept now) (resolve_effect rq tg accept now)"
    unfolding resolve_body_def resolve_effect_def
    by (cases accept) (simp_all, (intro realizes_intros b)+)
qed

interpretation remove_friend: transaction "sq_run (delete_friend a b)" "delete_friend a b" for a b
  by unfold_locales (rule realizes_run exact_run)+

lemma add_effect_Some:
  "add_effect a b d = Some (n, d') \<Longrightarrow>
   set (db_friends d') = {(a, b), (b, a)} \<union> set (db_friends d) \<and>
   (distinct (db_friends d) \<longrightarrow> distinct (db_friends d')) \<and> db_requests d' = db_requests d"
  by (auto simp: add_effect_def eff_then_def split: option.splits dest!: insert_friend_set)

lemma resolve_effect_Some:
  assumes "resolve_effect rq tg accept now d = Some (n, d')"
  shows "pending rq tg d \<and> \<not> pending rq tg d' \<and>
    set (db_friends d') = (if accept then {(rq, tg), (tg, rq)} else {}) \<union> set (db_friends d) \<and>
    (distinct (db_friends d) \<longrightarrow> distinct (db_friends d')) \<and>
    map fr_key (db_requests d') = map fr_key (db_requests d) \<and>
    (\<forall>x y. pending x y d' \<longleftrightarrow> pending x y d \<and> (x, y) \<noteq> (rq, tg) \<and> (accept \<longrightarrow> (x, y) \<noteq> (tg, rq)))"
proof -
  obtain d1 where d1: "set_request rq tg (if accept then 1 else 2) now d = Some (1, d1)"
    and rest: "(if accept then eff_then (add_effect rq tg) (\<lambda>_. set_request tg rq 1 now)
         else (\<lambda>d. Some (0, d))) d1 = Some (n, d')"
    using assms by (auto simp: resolve_effect_def eff_then_def split: option.splits if_splits)
  note f1 = set_request_friends [OF d1] set_request_count [OF d1] set_request_pending [OF d1]
  show ?thesis
  proof (cases accept)
    case False
    then show ?thesis using rest f1 by simp
  next
    case True
    obtain n2 d2 where d2: "add_effect rq tg d1 = Some (n2, d2)" and d3: "set_request tg rq 1 now d2 = Some (n, d')"
      using rest True by (auto simp: eff_then_def split: option.splits)
    note f2 = add_effect_Some [OF d2] and f3 = set_request_friends [OF d3] set_request_pending [OF d3]
    have "pending x y d2 \<longleftrightarrow> pending x y d1" for x y
      using f2 by (simp add: pending_def)
    then show ?thesis using f1 f2 f3 True by auto
  qed
qed

lemma add_effect_ex: "\<exists>n d'. add_effect a b d = Some (n, d')"
proof -
  have f: "\<exists>n d'. insert_friend p x = Some (n, d')" for p x
    by (simp add: insert_friend_def)
  show ?thesis
    using f [of "(a, b)" d] f [of "(b, a)"] by (fastforce simp: add_effect_def eff_then_def)
qed

lemma resolve_effect_ex:
  assumes "friends_ok d" and "pending rq tg d"
  shows "\<exists>n d'. resolve_effect rq tg accept now d = Some (n, d')"
proof -
  obtain d1 where d1: "set_request rq tg (if accept then 1 else 2) now d = Some (1, d1)"
    using set_request_one assms unfolding friends_ok_def by blast
  have s: "\<exists>n d'. set_request tg rq 1 now x = Some (n, d')" for x
    by (simp add: set_request_def Let_def)
  show ?thesis
    using d1 add_effect_ex [of rq tg d1] s by (fastforce simp: resolve_effect_def eff_then_def)
qed

section \<open>Runs\<close>

datatype friend_op =
  OpAdd int int | OpRequest int int int | OpResolve int int bool int | OpRemove int int

fun friend_step :: "friend_op \<Rightarrow> sconn \<Rightarrow> bool \<times> sconn" where
  "friend_step (OpAdd a b) c = addFriendBidirectional a b c"
| "friend_step (OpRequest a b now) c = createFriendRequest a b now c"
| "friend_step (OpResolve a b acc now) c = resolveFriendRequest a b acc now c"
| "friend_step (OpRemove a b) c = removeFriendBidirectional a b c"

definition friend_run :: "friend_op list \<Rightarrow> sconn \<Rightarrow> sconn" where
  "friend_run ops c = fold (\<lambda>op c. snd (friend_step op c)) ops c"

lemma upsert_friends_ok:
  assumes "upsert_request rq tg now d = Some (n, d')" and "friends_ok d"
  shows "friends_ok d'"
proof -
  have "map fr_key (upd_where (\<lambda>r. fr_requester r = rq \<and> fr_target r = tg)
        (\<lambda>r. r\<lparr>fr_status := 0, fr_created := now, fr_updated := now\<rparr>) (db_requests d)) =
      map fr_key (db_requests d)"
    by (rule map_upd_where_id) (simp add: fr_key_def)
  then show ?thesis
    using assms by (auto simp: upsert_request_def friends_ok_def Let_def list_ex_iff fr_key_def split: if_splits)
qed

lemma delete_friends_ok: "delete_friend a b d = Some (n, d') \<Longrightarrow> friends_ok d \<Longrightarrow> friends_ok d'"
  by (auto simp: delete_friend_def Let_def friends_ok_def sym_def)

lemma add_friends_ok: "add_effect a b d = Some (n, d') \<Longrightarrow> friends_ok d \<Longrightarrow> friends_ok d'"
  by (auto simp: friends_ok_def sym_def dest!: add_effect_Some)

lemma resolve_friends_ok: "resolve_effect rq tg acc now d = Some (n, d') \<Longrightarrow> friends_ok d \<Longrightarrow> friends_ok d'"
  by (auto simp: friends_ok_def sym_def dest!: resolve_effect_Some split: if_splits)

text \<open>One operation: idle before and after, and a reported failure changed nothing.\<close>

lemma friend_step_ok:
  assumes "friend_step op c = (b, c')" and "cn_txn c = None" and "friends_ok (cn_db c)"
  shows "cn_txn c' = None \<and> friends_ok (cn_db c') \<and> (\<not> b \<longrightarrow> cn_db c' = cn_db c)"
proof (cases op)
  case (OpAdd x y)
  then obtain r where r: "in_txn (add_friend_body x y) c = (r, c')" "b = (r \<noteq> None)"
    using assms(1) by (auto simp: addFriendBidirectional_def split: prod.splits)
  show ?thesis
    using add_friend.atomic [OF r(1) assms(2)] r(2) assms(3)
    by (auto split: option.splits dest: add_friends_ok)
next
  case (OpRequest x y now)
  show ?thesis
  proof (cases "x \<le> 0 \<or> y \<le> 0 \<or> x = y")
    case False
    then obtain r where r: "sq_run (upsert_request x y now) c = (r, c')" "b = (r \<noteq> None)"
      using assms(1) OpRequest by (auto simp: createFriendRequest_def split: prod.splits)
    show ?thesis
      using run_auto [OF r(1) assms(2)] r(2) assms(3)
      by (auto split: option.splits dest: upsert_friends_ok)
  qed (use assms OpRequest in \<open>auto simp: createFriendRequest_def\<close>)
next
  case (OpResolve x y acc now)
  then obtain r where r: "in_txn (resolve_body x y acc now) c = (r, c')" "b = (r \<noteq> None)"
    using assms(1) by (auto simp: resolveFriendRequest_def split: prod.splits)
  show ?thesis
    using resolve.atomic [OF r(1) assms(2)] r(2) assms(3)
    by (auto split: option.splits dest: resolve_friends_ok)
next
  case (OpRemove x y)
  show ?thesis
  proof (cases "x \<le> 0 \<or> y \<le> 0 \<or> x = y")
    case False
    then obtain r where r: "in_txn (sq_run (delete_friend x y)) c = (r, c')" "b = (r \<noteq> None)"
      using assms(1) OpRemove by (auto simp: removeFriendBidirectional_def split: prod.splits)
    show ?thesis
      using remove_friend.atomic [OF r(1) assms(2)] r(2) assms(3)
      by (auto split: option.splits dest: delete_friends_ok)
  qed (use assms OpRemove in \<open>auto simp: removeFriendBidirectional_def\<close>)
qed

lemma friend_run_ok:
  "cn_txn c = None \<Longrightarrow> friends_ok (cn_db c) \<Longrightarrow>
   cn_txn (friend_run ops c) = None \<and> friends_ok (cn_db (friend_run ops c))"
  unfolding friend_run_def
proof (induction ops arbitrary: c)
  case (Cons op ops)
  obtain b c1 where s: "friend_step op c = (b, c1)" by (cases "friend_step op c")
  show ?case
    using Cons.IH [of c1] friend_step_ok [OF s Cons.prems] s by simp
qed simp

section \<open>The relation the tables implement\<close>

text \<open>The friendships, and the requests that wait for an answer.\<close>

record circle =
  ci_friends :: "(int \<times> int) set"
  ci_asked :: "(int \<times> int) set"

definition circle_of :: "server_db \<Rightarrow> circle" where
  "circle_of d = \<lparr>ci_friends = set (db_friends d), ci_asked = {(x, y). pending x y d}\<rparr>"

fun friend_allowed :: "friend_op \<Rightarrow> circle \<Rightarrow> bool" where
  "friend_allowed (OpAdd a b) C = True"
| "friend_allowed (OpRequest a b now) C = (0 < a \<and> 0 < b \<and> a \<noteq> b)"
| "friend_allowed (OpResolve a b accept now) C = ((a, b) \<in> ci_asked C)"
| "friend_allowed (OpRemove a b) C = (0 < a \<and> 0 < b \<and> a \<noteq> b)"

fun friend_effect :: "friend_op \<Rightarrow> circle \<Rightarrow> circle" where
  "friend_effect (OpAdd a b) C = C\<lparr>ci_friends := ci_friends C \<union> {(a, b), (b, a)}\<rparr>"
| "friend_effect (OpRequest a b now) C = C\<lparr>ci_asked := insert (a, b) (ci_asked C)\<rparr>"
| "friend_effect (OpResolve a b accept now) C =
     (if accept then \<lparr>ci_friends = ci_friends C \<union> {(a, b), (b, a)}, ci_asked = ci_asked C - {(a, b), (b, a)}\<rparr>
      else C\<lparr>ci_asked := ci_asked C - {(a, b)}\<rparr>)"
| "friend_effect (OpRemove a b) C = C\<lparr>ci_friends := ci_friends C - {(a, b), (b, a)}\<rparr>"

lemma add_circle:
  "add_effect a b d = Some (n, d') \<Longrightarrow> circle_of d' = friend_effect (OpAdd a b) (circle_of d)"
  using add_effect_Some [of a b d n d'] by (auto simp: circle_of_def pending_def)

lemma resolve_circle:
  "resolve_effect a b accept now d = Some (n, d') \<Longrightarrow>
   friend_allowed (OpResolve a b accept now) (circle_of d) \<and>
   circle_of d' = friend_effect (OpResolve a b accept now) (circle_of d)"
  using resolve_effect_Some [of a b accept now d n d'] by (auto simp: circle_of_def)

lemma remove_circle:
  "delete_friend a b d = Some (n, d') \<Longrightarrow> circle_of d' = friend_effect (OpRemove a b) (circle_of d)"
  by (auto simp: delete_friend_def Let_def circle_of_def pending_def)

lemma request_circle:
  assumes "upsert_request a b now d = Some (n, d')"
  shows "circle_of d' = friend_effect (OpRequest a b now) (circle_of d)"
proof -
  let ?P = "\<lambda>r. fr_requester r = a \<and> fr_target r = b"
  let ?f = "\<lambda>r. r\<lparr>fr_status := 0, fr_created := now, fr_updated := now\<rparr>"
  have f: "db_friends d' = db_friends d" using assms by (auto simp: upsert_request_def Let_def split: if_splits)
  have "pending x y d' \<longleftrightarrow> pending x y d \<or> (x, y) = (a, b)" for x y
  proof (cases "list_ex ?P (db_requests d)")
    case False
    then show ?thesis using assms by (auto simp: upsert_request_def Let_def pending_def fr_key_def)
  next
    case True
    then have us: "db_requests d' = upd_where ?P ?f (db_requests d)"
      using assms by (auto simp: upsert_request_def Let_def)
    have row: "fr_key (if ?P r then ?f r else r) = (x, y) \<and> fr_status (if ?P r then ?f r else r) = 0 \<longleftrightarrow>
        (fr_key r = (x, y) \<and> fr_status r = 0) \<or> ?P r \<and> (x, y) = (a, b)" for r
      by (auto simp: fr_key_def)
    show ?thesis
      using True unfolding pending_def us by (simp only: bex_upd_where row list_ex_iff) blast
  qed
  then show ?thesis using f by (auto simp: circle_of_def)
qed

text \<open>What an operation answers and does, in the order of the transaction it runs.\<close>

lemma friend_step_circle:
  assumes "friend_step op c = (b, c')" and "cn_txn c = None" and "friends_ok (cn_db c)"
  shows "(b \<longrightarrow> friend_allowed op (circle_of (cn_db c)) \<and> circle_of (cn_db c') = friend_effect op (circle_of (cn_db c))) \<and>
    (cn_script c = [] \<and> friend_allowed op (circle_of (cn_db c)) \<longrightarrow> b)"
proof (cases op)
  case (OpAdd x y)
  then obtain r where r: "in_txn (add_friend_body x y) c = (r, c')" "b = (r \<noteq> None)"
    using assms(1) by (auto simp: addFriendBidirectional_def split: prod.splits)
  obtain n d' where "add_effect x y (cn_db c) = Some (n, d')" using add_effect_ex by blast
  then have "cn_script c = [] \<Longrightarrow> b" using add_friend.nothing_failed [OF assms(2)] r by fastforce
  then show ?thesis
    using add_friend.atomic [OF r(1) assms(2)] r(2) OpAdd add_circle by (auto split: option.splits)
next
  case (OpRequest x y now)
  show ?thesis
  proof (cases "x \<le> 0 \<or> y \<le> 0 \<or> x = y")
    case False
    then obtain r where r: "sq_run (upsert_request x y now) c = (r, c')" "b = (r \<noteq> None)"
      using assms(1) OpRequest by (auto simp: createFriendRequest_def split: prod.splits)
    have "cn_script c = [] \<Longrightarrow> b"
      using r by (auto simp: sq_run_def tick_def sq_step_def upsert_request_def Let_def split: if_splits)
    then show ?thesis
      using run_auto [OF r(1) assms(2)] r(2) OpRequest False request_circle by (auto split: option.splits)
  qed (use assms OpRequest in \<open>auto simp: createFriendRequest_def\<close>)
next
  case (OpResolve x y acc now)
  then obtain r where r: "in_txn (resolve_body x y acc now) c = (r, c')" "b = (r \<noteq> None)"
    using assms(1) by (auto simp: resolveFriendRequest_def split: prod.splits)
  have "b" if "cn_script c = []" "pending x y (cn_db c)"
    using resolve_effect_ex [OF assms(3) that(2), of acc now] resolve.nothing_failed [OF assms(2) that(1)] r by fastforce
  moreover have "friend_allowed op (circle_of (cn_db c)) \<longleftrightarrow> pending x y (cn_db c)"
    by (simp add: OpResolve circle_of_def)
  moreover have "friend_allowed op (circle_of (cn_db c)) \<and>
      circle_of (cn_db c') = friend_effect op (circle_of (cn_db c))" if "b"
    using resolve.atomic [OF r(1) assms(2)] r(2) that resolve_circle unfolding OpResolve
    by (auto split: option.splits)
  ultimately show ?thesis by blast
next
  case (OpRemove x y)
  show ?thesis
  proof (cases "x \<le> 0 \<or> y \<le> 0 \<or> x = y")
    case False
    then obtain r where r: "in_txn (sq_run (delete_friend x y)) c = (r, c')" "b = (r \<noteq> None)"
      using assms(1) OpRemove by (auto simp: removeFriendBidirectional_def split: prod.splits)
    have "\<exists>n d'. delete_friend x y (cn_db c) = Some (n, d')" by (simp add: delete_friend_def Let_def)
    then have "cn_script c = [] \<Longrightarrow> b" using remove_friend.nothing_failed [OF assms(2)] r by fastforce
    then show ?thesis
      using remove_friend.atomic [OF r(1) assms(2)] r(2) OpRemove False remove_circle by (auto split: option.splits)
  qed (use assms OpRemove in \<open>auto simp: removeFriendBidirectional_def\<close>)
qed

text \<open>
  C28: the tables implement the relation. After any sequence of friend operations on a new database,
  with any SQLite calls failing, no transaction is open and friendship is symmetric; and every
  operation either reports success, and then it was allowed (a request that is answered was pending,
  the users asked for are two valid ones) and the friendships and pending requests are changed by
  exactly its effect (adding and accepting make the two friends and accepting settles the request of
  the other direction too, removing ends the friendship both ways, rejecting only settles the
  request), or it reports failure and the tables are as they were; and when no SQLite call fails, an
  operation that is allowed succeeds.
\<close>

theorem friendship_correct:
  fixes ops :: "friend_op list" and script :: "bool list"
  defines "c \<equiv> friend_run ops (sconn_new empty_db script)"
  shows "cn_txn c = None \<and> sym (ci_friends (circle_of (cn_db c))) \<and>
    (\<forall>op b c'. friend_step op c = (b, c') \<longrightarrow>
       (b \<longrightarrow> friend_allowed op (circle_of (cn_db c)) \<and> circle_of (cn_db c') = friend_effect op (circle_of (cn_db c))) \<and>
       (\<not> b \<longrightarrow> cn_db c' = cn_db c) \<and>
       (cn_script c = [] \<and> friend_allowed op (circle_of (cn_db c)) \<longrightarrow> b))"
proof -
  have "friends_ok empty_db" by (simp add: friends_ok_def empty_db_def sym_def)
  then have ok: "cn_txn c = None" "friends_ok (cn_db c)"
    using friend_run_ok [of "sconn_new empty_db script" ops] by (simp_all add: c_def sconn_new_def)
  moreover have "sym (ci_friends (circle_of (cn_db c)))" using ok(2) by (simp add: friends_ok_def circle_of_def)
  ultimately show ?thesis using friend_step_circle [OF _ ok] friend_step_ok [OF _ ok] by blast
qed

text \<open>Two users ask each other, one accepts, and they part again.\<close>

theorem friendship_correct_witness:
  "fst (friend_step (OpResolve 1 2 True 9) (friend_run [OpRequest 1 2 5, OpRequest 2 1 6] (sconn_new empty_db []))) \<and>
   circle_of (cn_db (snd (friend_step (OpResolve 1 2 True 9)
      (friend_run [OpRequest 1 2 5, OpRequest 2 1 6] (sconn_new empty_db []))))) =
   \<lparr>ci_friends = {(1, 2), (2, 1)}, ci_asked = {}\<rparr>"
proof -
  let ?c = "friend_run [OpRequest 1 2 5, OpRequest 2 1 6] (sconn_new empty_db [])"
  have c: "cn_script ?c = []" "circle_of (cn_db ?c) = \<lparr>ci_friends = {}, ci_asked = {(1, 2), (2, 1)}\<rparr>"
    by (auto simp: friend_run_def createFriendRequest_def sconn_new_def upsert_request_def empty_db_def
        circle_of_def pending_def fr_key_def Let_def)
  obtain b c' where r: "friend_step (OpResolve 1 2 True 9) ?c = (b, c')" by (rule prod.exhaust)
  from friendship_correct [of "[OpRequest 1 2 5, OpRequest 2 1 6]" "[]", THEN conjunct2, THEN conjunct2, rule_format, OF r]
  have "b" "circle_of (cn_db c') = friend_effect (OpResolve 1 2 True 9) (circle_of (cn_db ?c))"
    by (simp_all add: c)
  then show ?thesis unfolding r c(2) by auto
qed

end
