(* ===== verification/MessageStore.thy ===== *)
theory MessageStore
  imports ServerDb SyncTracker "HOL-Library.Multiset"
begin

text \<open>
  The message table (\<^verbatim>\<open>Database.cpp\<close>, \<^verbatim>\<open>saveMessage\<close> to \<^verbatim>\<open>getMessageByFileId\<close>): saving with a
  sequence number per conversation, the undelivered messages of a receiver, and the roaming queries.
\<close>

section \<open>Saving\<close>

definition conv_rows :: "int \<Rightarrow> server_db \<Rightarrow> msg_row list" where
  "conv_rows conv d = filter (\<lambda>r. mr_conv r = conv) (db_messages d)"

definition row_seq :: "msg_row \<Rightarrow> int" where
  "row_seq r = sm_seq (mr_msg r)"

text \<open>\<open>COALESCE(MAX(seq),0)+1\<close>.\<close>

definition next_seq :: "int \<Rightarrow> server_db \<Rightarrow> int" where
  "next_seq conv d =
     (case map row_seq (conv_rows conv d) of [] \<Rightarrow> 1 | s # ss \<Rightarrow> Max (set (s # ss)) + 1)"

text \<open>The strings of a message as they are bound.\<close>

definition bind_message :: "stored_message \<Rightarrow> stored_message" where
  "bind_message m = m\<lparr>sm_msgId := cstr (sm_msgId m), sm_content := cstr (sm_content m),
     sm_mediaPath := cstr (sm_mediaPath m), sm_fileId := cstr (sm_fileId m),
     sm_contentType := cstr (sm_contentType m), sm_sha256 := cstr (sm_sha256 m),
     sm_thumbFileId := cstr (sm_thumbFileId m), sm_thumbPath := cstr (sm_thumbPath m),
     sm_thumbSha256 := cstr (sm_thumbSha256 m), sm_largeFileId := cstr (sm_largeFileId m),
     sm_largePath := cstr (sm_largePath m), sm_largeSha256 := cstr (sm_largeSha256 m)\<rparr>"

definition insert_message :: "int \<Rightarrow> bool \<Rightarrow> stored_message \<Rightarrow> server_db \<Rightarrow> (nat \<times> server_db) option" where
  "insert_message conv delivered m d =
     (if list_ex (\<lambda>r. sm_msgId (mr_msg r) = cstr (sm_msgId m)
                    \<or> mr_conv r = conv \<and> row_seq r = sm_seq m) (db_messages d) then None
      else Some (1, d\<lparr>db_messages := db_messages d @
                        [\<lparr>mr_id = db_nextMsg d, mr_conv = conv, mr_delivered = delivered, mr_msg = bind_message m\<rparr>],
                      db_nextMsg := db_nextMsg d + 1\<rparr>))"

definition find_message :: "string \<Rightarrow> server_db \<Rightarrow> msg_row option" where
  "find_message mid d = find (\<lambda>r. sm_msgId (mr_msg r) = cstr mid) (db_messages d)"

definition saveMessage :: "stored_message \<Rightarrow> bool \<Rightarrow> sconn \<Rightarrow> bool \<times> stored_message \<times> sconn" where
  "saveMessage m delivered c =
     (let (begun, c) = sq_begin c in
      if \<not> begun then (False, m, c)
      else
        let conv = makeConversationId (sm_sender m) (sm_receiver m) in
        case sq_query (find_message (sm_msgId m)) c of
          (None, c) \<Rightarrow> (False, m, sq_rollback c)
        | (Some (Some r), c) \<Rightarrow> (True, m\<lparr>sm_seq := row_seq r\<rparr>, snd (sq_commit c))
        | (Some None, c) \<Rightarrow>
            (case sq_query (\<lambda>d. Some (next_seq conv d)) c of
               (None, c) \<Rightarrow> (False, m, sq_rollback c)
             | (Some o_seq, c) \<Rightarrow>
                 (let m = m\<lparr>sm_seq := (case o_seq of None \<Rightarrow> 1 | Some s \<Rightarrow> s)\<rparr> in
                  case sq_run (insert_message conv delivered m) c of
                    (None, c) \<Rightarrow> (False, m, sq_rollback c)
                  | (Some _, c) \<Rightarrow>
                      let (committed, c) = sq_commit c in
                      if committed then (True, m, c) else (False, m, sq_rollback c))))"

section \<open>Delivery\<close>

text \<open>\<open>ORDER BY ts ASC, id ASC\<close>; the rows are in the order of their ids and the sort is stable.\<close>

definition undelivered :: "int \<Rightarrow> server_db \<Rightarrow> msg_row list" where
  "undelivered uid d =
     sort_key (\<lambda>r. sm_ts (mr_msg r))
       (filter (\<lambda>r. sm_receiver (mr_msg r) = uid \<and> \<not> mr_delivered r) (db_messages d))"

definition pullUndelivered :: "read_io \<Rightarrow> int \<Rightarrow> server_db \<Rightarrow> stored_message list" where
  "pullUndelivered io uid d = map mr_msg (fetched io (undelivered uid d))"

definition set_delivered :: "string \<Rightarrow> server_db \<Rightarrow> (nat \<times> server_db) option" where
  "set_delivered mid d =
     (let P = (\<lambda>r. sm_msgId (mr_msg r) = cstr mid)
      in Some (count_where P (db_messages d),
               d\<lparr>db_messages := upd_where P (\<lambda>r. r\<lparr>mr_delivered := True\<rparr>) (db_messages d)\<rparr>))"

fun mark_steps :: "string list \<Rightarrow> sconn \<Rightarrow> sconn" where
  "mark_steps [] c = c"
| "mark_steps (mid # mids) c = mark_steps mids (snd (sq_step (set_delivered mid) c))"

definition markDelivered :: "string list \<Rightarrow> sconn \<Rightarrow> sconn" where
  "markDelivered mids c =
     (if mids = [] then c
      else let (prepared, c) = tick c in if prepared then mark_steps mids c else c)"

section \<open>Roaming\<close>

text \<open>The latest row of each conversation the user takes part in, newest first.\<close>

definition my_rows :: "int \<Rightarrow> server_db \<Rightarrow> msg_row list" where
  "my_rows uid d =
     filter (\<lambda>r. sm_sender (mr_msg r) = uid) (db_messages d) @
     filter (\<lambda>r. sm_receiver (mr_msg r) = uid) (db_messages d)"

definition last_ids :: "int \<Rightarrow> server_db \<Rightarrow> int list" where
  "last_ids uid d =
     map (\<lambda>conv. Max (set (map mr_id (filter (\<lambda>r. mr_conv r = conv) (my_rows uid d)))))
       (remdups (map mr_conv (my_rows uid d)))"

definition roamConversations :: "read_io \<Rightarrow> int \<Rightarrow> server_db \<Rightarrow> stored_message list" where
  "roamConversations io uid d =
     map mr_msg (fetched io
       (sort_key (\<lambda>r. - sm_ts (mr_msg r))
          (concat (map (\<lambda>i. filter (\<lambda>r. mr_id r = i) (db_messages d)) (last_ids uid d)))))"

text \<open>A negative \<open>LIMIT\<close> is no limit.\<close>

definition sql_limit :: "int \<Rightarrow> 'a list \<Rightarrow> 'a list" where
  "sql_limit n xs = (if n < 0 then xs else take (nat n) xs)"

definition roamMessages :: "read_io \<Rightarrow> int \<Rightarrow> int \<Rightarrow> int \<Rightarrow> int \<Rightarrow> server_db \<Rightarrow> stored_message list" where
  "roamMessages io uid peer before limit d =
     map mr_msg (fetched io (sql_limit limit
       (sort_key (\<lambda>r. - row_seq r)
          (filter (\<lambda>r. row_seq r < before) (conv_rows (makeConversationId uid peer) d)))))"

definition no_thumbs :: "stored_message \<Rightarrow> stored_message" where
  "no_thumbs m = m\<lparr>sm_thumbFileId := [], sm_thumbPath := [], sm_thumbSize := 0, sm_thumbSha256 := [],
     sm_thumbW := 0, sm_thumbH := 0, sm_largeFileId := [], sm_largePath := [], sm_largeSize := 0,
     sm_largeSha256 := [], sm_largeW := 0, sm_largeH := 0\<rparr>"

text \<open>
  \<open>getMessageByMsgId\<close> fills the caller's record up to the digest and leaves its thumbnail fields; its
  callers pass a fresh one.
\<close>

definition getMessageByMsgId :: "read_io \<Rightarrow> string \<Rightarrow> server_db \<Rightarrow> stored_message option" where
  "getMessageByMsgId io mid d =
     map_option (\<lambda>r. no_thumbs (mr_msg r))
       (fetch_one io (filter (\<lambda>r. sm_msgId (mr_msg r) = cstr mid) (db_messages d)))"

definition has_file :: "string \<Rightarrow> stored_message \<Rightarrow> bool" where
  "has_file fid m \<longleftrightarrow> sm_fileId m = cstr fid \<or> sm_thumbFileId m = cstr fid \<or> sm_largeFileId m = cstr fid"

text \<open>The path of the part that was asked for, in the order of the two assignments.\<close>

definition serve_part :: "string \<Rightarrow> stored_message \<Rightarrow> stored_message" where
  "serve_part fid m =
     (let m = (if fid = sm_thumbFileId m then m\<lparr>sm_mediaPath := sm_thumbPath m\<rparr> else m)
      in if fid = sm_largeFileId m then m\<lparr>sm_mediaPath := sm_largePath m\<rparr> else m)"

definition getMessageByFileId :: "read_io \<Rightarrow> string \<Rightarrow> server_db \<Rightarrow> stored_message option" where
  "getMessageByFileId io fid d =
     map_option (\<lambda>r. serve_part fid (mr_msg r))
       (fetch_one io (filter (\<lambda>r. has_file fid (mr_msg r)) (db_messages d)))"

section \<open>The log of a conversation\<close>

definition msgs_ok :: "server_db \<Rightarrow> bool" where
  "msgs_ok d \<longleftrightarrow> distinct (map (\<lambda>r. sm_msgId (mr_msg r)) (db_messages d)) \<and>
     sorted_wrt (<) (map mr_id (db_messages d)) \<and> (\<forall>r \<in> set (db_messages d). mr_id r < db_nextMsg d) \<and>
     (\<forall>r \<in> set (db_messages d). mr_conv r = makeConversationId (sm_sender (mr_msg r)) (sm_receiver (mr_msg r))) \<and>
     (\<forall>conv. map row_seq (conv_rows conv d) = [1..int (length (conv_rows conv d))])"

lemma msgs_ok_empty: "msgs_ok empty_db"
  by (simp add: msgs_ok_def empty_db_def conv_rows_def)

lemma next_seq_ok:
  assumes "msgs_ok d"
  shows "next_seq conv d = int (length (conv_rows conv d)) + 1"
proof -
  have m: "map row_seq (conv_rows conv d) = [1..int (length (conv_rows conv d))]"
    using assms by (simp add: msgs_ok_def)
  show ?thesis
  proof (cases "conv_rows conv d")
    case (Cons r rs)
    let ?n = "int (length (conv_rows conv d))"
    have "set (map row_seq (conv_rows conv d)) = {1..?n}" using m by simp
    moreover have "Max {1..?n} = ?n"
      by (rule Max_eqI) (use Cons in auto)
    ultimately show ?thesis
      using Cons by (simp add: next_seq_def)
  qed (simp add: next_seq_def)
qed

lemma upto_snoc: "[1..int n] @ [int n + 1] = [1..int n + 1]"
  by (simp add: upto_rec2)

lemma bind_message_fields [simp]:
  "sm_seq (bind_message m) = sm_seq m" "sm_sender (bind_message m) = sm_sender m"
  "sm_receiver (bind_message m) = sm_receiver m" "sm_msgId (bind_message m) = cstr (sm_msgId m)"
  "sm_ts (bind_message m) = sm_ts m"
  by (simp_all add: bind_message_def)

text \<open>A failed query for the number proposes 1, which the unique index accepts only when it is right.\<close>

lemma insert_message_ok:
  assumes ok: "msgs_ok d" and ins: "insert_message conv delivered m d = Some (n, d')"
    and conv: "conv = makeConversationId (sm_sender m) (sm_receiver m)"
    and seq: "sm_seq m = next_seq conv d \<or> sm_seq m = 1"
  shows "msgs_ok d' \<and> sm_seq m = int (length (conv_rows conv d)) + 1"
proof -
  let ?n = "length (conv_rows conv d)"
  let ?r = "\<lparr>mr_id = db_nextMsg d, mr_conv = conv, mr_delivered = delivered, mr_msg = bind_message m\<rparr>"
  have new: "\<forall>r \<in> set (db_messages d). sm_msgId (mr_msg r) \<noteq> cstr (sm_msgId m) \<and>
      (mr_conv r = conv \<longrightarrow> row_seq r \<noteq> sm_seq m)"
    and d': "d' = d\<lparr>db_messages := db_messages d @ [?r], db_nextMsg := db_nextMsg d + 1\<rparr>"
    using ins by (auto simp: insert_message_def list_ex_iff split: if_splits)
  have old: "map row_seq (conv_rows conv d) = [1..int ?n]" using ok by (simp add: msgs_ok_def)
  have s: "sm_seq m = int ?n + 1"
  proof (cases "sm_seq m = 1 \<and> 0 < ?n")
    case True
    then have "1 \<in> set (map row_seq (conv_rows conv d))" using old by (simp add: Suc_le_eq)
    then obtain r where "r \<in> set (db_messages d)" "mr_conv r = conv" "row_seq r = 1"
      by (auto simp: conv_rows_def)
    then show ?thesis using new True by auto
  next
    case False
    then show ?thesis using seq next_seq_ok [OF ok, of conv] by auto
  qed
  have rows: "conv_rows k d' = conv_rows k d @ (if k = conv then [?r] else [])" for k
    by (simp add: conv_rows_def d')
  have "map row_seq (conv_rows k d') = [1..int (length (conv_rows k d'))]" for k
  proof (cases "k = conv")
    case True
    have "map row_seq (conv_rows k d') = [1..int ?n] @ [int ?n + 1]"
      using True old s by (simp add: rows row_seq_def)
    then show ?thesis using True upto_snoc [of ?n] by (simp add: rows add.commute)
  next
    case False
    then show ?thesis using ok by (simp add: rows msgs_ok_def)
  qed
  moreover have "distinct (map (\<lambda>r. sm_msgId (mr_msg r)) (db_messages d'))"
    "sorted_wrt (<) (map mr_id (db_messages d'))"
    "\<forall>r \<in> set (db_messages d'). mr_id r < db_nextMsg d'"
    "\<forall>r \<in> set (db_messages d'). mr_conv r = makeConversationId (sm_sender (mr_msg r)) (sm_receiver (mr_msg r))"
    using ok new conv unfolding msgs_ok_def d' by (auto simp: sorted_wrt_append)
  ultimately show ?thesis using s unfolding msgs_ok_def by blast
qed

lemma set_delivered_ok: "set_delivered mid d = Some (n, d') \<Longrightarrow> msgs_ok d \<Longrightarrow> msgs_ok d'"
proof -
  assume sd: "set_delivered mid d = Some (n, d')" and ok: "msgs_ok d"
  let ?P = "\<lambda>r. sm_msgId (mr_msg r) = cstr mid" and ?f = "\<lambda>r. r\<lparr>mr_delivered := True\<rparr>"
  have d': "db_messages d' = upd_where ?P ?f (db_messages d)" "db_nextMsg d' = db_nextMsg d"
    using sd by (auto simp: set_delivered_def Let_def)
  have m: "map g (db_messages d') = map g (db_messages d)" if "\<And>r. g (?f r) = g r" for g :: "msg_row \<Rightarrow> 'z"
    unfolding d' by (rule map_upd_where_id) (rule that)
  have rows: "map g (conv_rows k d') = map g (conv_rows k d)" if "\<And>r. g (?f r) = g r" for g :: "msg_row \<Rightarrow> 'z" and k
    unfolding conv_rows_def d' by (rule map_filter_upd_where) (simp_all add: that)
  have seqs: "map row_seq (conv_rows k d') = map row_seq (conv_rows k d)" for k
    by (rule rows) (simp add: row_seq_def)
  have len: "length (conv_rows k d') = length (conv_rows k d)" for k
    using seqs [of k] by (metis length_map)
  define h :: "msg_row \<Rightarrow> int \<times> int \<times> int \<times> int" where "h = (\<lambda>r. (mr_id r, mr_conv r, sm_sender (mr_msg r), sm_receiver (mr_msg r)))"
  have "map h (db_messages d') = map h (db_messages d)"
    by (rule m) (simp add: h_def)
  then have "(\<forall>x \<in> set (map h (db_messages d')). Q x) \<longleftrightarrow> (\<forall>x \<in> set (map h (db_messages d)). Q x)" for Q
    by simp
  then have all: "(\<forall>r \<in> set (db_messages d'). Q (h r)) \<longleftrightarrow> (\<forall>r \<in> set (db_messages d). Q (h r))" for Q
    by simp
  from all [of "\<lambda>(i, c, s, r). i < db_nextMsg d"] all [of "\<lambda>(i, c, s, r). c = makeConversationId s r"]
  show "msgs_ok d'"
    using ok m [of "\<lambda>r. sm_msgId (mr_msg r)"] m [of mr_id] seqs len d'(2)
    unfolding msgs_ok_def h_def by simp
qed

lemma save_cases:
  assumes run: "saveMessage m delivered c = (b, m', c')" and idle: "cn_txn c = None"
  shows "(\<not> b \<and> cn_db c' = cn_db c \<and> cn_txn c' = None) \<or>
    (b \<and> cn_db c' = cn_db c \<and> (cn_txn c' = None \<or> cn_txn c' = Some (cn_db c)) \<and>
       (\<exists>r. find_message (sm_msgId m) (cn_db c) = Some r \<and> m' = m\<lparr>sm_seq := row_seq r\<rparr>)) \<or>
    (b \<and> cn_txn c' = None \<and>
       (\<exists>s. (s = next_seq (makeConversationId (sm_sender m) (sm_receiver m)) (cn_db c) \<or> s = 1) \<and>
          m' = m\<lparr>sm_seq := s\<rparr> \<and>
          (\<exists>n. insert_message (makeConversationId (sm_sender m) (sm_receiver m)) delivered m' (cn_db c) =
             Some (n, cn_db c'))))"
proof -
  let ?conv = "makeConversationId (sm_sender m) (sm_receiver m)" and ?d = "cn_db c"
  obtain b1 c1 where b1: "sq_begin c = (b1, c1)" by (cases "sq_begin c")
  show ?thesis
  proof (cases b1)
    case False
    then show ?thesis
      using run b1 idle by (auto simp: saveMessage_def sq_begin_def split: prod.splits if_splits dest!: tick_fields)
  next
    case True
    then have c1: "cn_txn c1 = Some ?d" "cn_db c1 = ?d"
      using b1 by (auto simp: sq_begin_def split: prod.splits if_splits dest!: tick_fields)
    obtain r2 c2 where q2: "sq_query (find_message (sm_msgId m)) c1 = (r2, c2)"
      by (cases "sq_query (find_message (sm_msgId m)) c1")
    note f2 = query_fields [OF q2]
    have v1: "view c1 = ?d" using c1 by (simp add: view_def)
    consider "r2 = None" | r where "r2 = Some (Some r)" | "r2 = Some None" by (cases r2) auto
    then show ?thesis
    proof cases
      case 1
      then show ?thesis
        using run b1 True q2 f2 c1 by (auto simp: saveMessage_def sq_rollback_def)
    next
      case (2 r)
      then have m': "b" "m' = m\<lparr>sm_seq := row_seq r\<rparr>" "c' = snd (sq_commit c2)"
        using run b1 True q2 by (auto simp: saveMessage_def)
      have "cn_db c' = ?d \<and> (cn_txn c' = None \<or> cn_txn c' = Some ?d)"
        using f2 c1 unfolding m'(3) by (auto simp: sq_commit_def split: prod.splits if_splits dest!: tick_fields)
      then show ?thesis using m' f2 2 v1 by auto
    next
      case 3
      obtain r3 c3 where q3: "sq_query (\<lambda>d. Some (next_seq ?conv d)) c2 = (r3, c3)"
        by (cases "sq_query (\<lambda>d. Some (next_seq ?conv d)) c2")
      note f3 = query_fields [OF q3]
      have v2: "view c2 = ?d" "cn_txn c3 = Some ?d" "cn_db c3 = ?d"
        using f2 f3 c1 by (simp_all add: view_def)
      show ?thesis
      proof (cases r3)
        case None
        then show ?thesis
          using run b1 True q2 3 q3 v2 by (auto simp: saveMessage_def sq_rollback_def)
      next
        case (Some o3)
        define s where "s = (case o3 of None \<Rightarrow> 1 | Some s \<Rightarrow> s)"
        have s: "s = next_seq ?conv ?d \<or> s = 1"
          using f3 Some v2 by (cases o3) (simp_all add: s_def)
        obtain r4 c4 where q4: "sq_run (insert_message ?conv delivered (m\<lparr>sm_seq := s\<rparr>)) c3 = (r4, c4)"
          by (cases "sq_run (insert_message ?conv delivered (m\<lparr>sm_seq := s\<rparr>)) c3")
        have f4: "cn_db c4 = ?d \<and> cn_txn c4 \<noteq> None \<and>
            (\<forall>n. r4 = Some n \<longrightarrow> insert_message ?conv delivered (m\<lparr>sm_seq := s\<rparr>) ?d = Some (n, the (cn_txn c4)))"
          using realizes_run [of "insert_message ?conv delivered (m\<lparr>sm_seq := s\<rparr>)"] q4 v2
          unfolding realizes_def by metis
        have out: "(b, m', c') = (case r4 of None \<Rightarrow> (False, m\<lparr>sm_seq := s\<rparr>, sq_rollback c4)
            | Some _ \<Rightarrow> (let (committed, c5) = sq_commit c4 in
                if committed then (True, m\<lparr>sm_seq := s\<rparr>, c5) else (False, m\<lparr>sm_seq := s\<rparr>, sq_rollback c5)))"
          unfolding run [symmetric]
          using b1 True q2 3 q3 Some q4 by (simp add: saveMessage_def Let_def s_def [symmetric])
        show ?thesis
        proof (cases r4)
          case None
          then show ?thesis using out f4 by (simp add: sq_rollback_def)
        next
          case (Some n)
          obtain b5 c5 where q5: "sq_commit c4 = (b5, c5)" by (cases "sq_commit c4")
          then have f5: "if b5 then cn_txn c5 = None \<and> cn_db c5 = the (cn_txn c4) else cn_db c5 = ?d"
            using f4 by (auto simp: sq_commit_def split: prod.splits option.splits if_splits dest!: tick_fields)
          show ?thesis
            using out Some q5 f4 f5 s by (cases b5) (auto simp: sq_rollback_def)
        qed
      qed
    qed
  qed
qed

section \<open>Runs\<close>

datatype msg_op = SaveOp stored_message bool | MarkOp "string list"

fun msg_step :: "msg_op \<Rightarrow> sconn \<Rightarrow> sconn" where
  "msg_step (SaveOp m delivered) c = snd (snd (saveMessage m delivered c))"
| "msg_step (MarkOp mids) c = markDelivered mids c"

definition msg_run :: "msg_op list \<Rightarrow> sconn \<Rightarrow> sconn" where
  "msg_run ops c = fold msg_step ops c"

lemma save_busy:
  assumes "saveMessage m delivered c = (b, m', c')" and "cn_txn c \<noteq> None"
  shows "\<not> b \<and> m' = m \<and> cn_db c' = cn_db c \<and> cn_txn c' = cn_txn c"
  using assms by (auto simp: saveMessage_def sq_begin_def split: prod.splits if_splits dest!: tick_fields)

lemma save_ok:
  assumes "saveMessage m delivered c = (b, m', c')" and "conn_ok msgs_ok c"
  shows "conn_ok msgs_ok c'"
proof (cases "cn_txn c = None")
  case True
  have ok: "msgs_ok (cn_db c)" using assms(2) by (simp add: conn_ok_def)
  show ?thesis
    using save_cases [OF assms(1) True] insert_message_ok [OF ok] ok
    by (fastforce simp: conn_ok_def)
next
  case False
  then show ?thesis using save_busy [OF assms(1)] assms(2) by (simp add: conn_ok_def)
qed

lemma mark_steps_ok: "conn_ok msgs_ok c \<Longrightarrow> conn_ok msgs_ok (mark_steps mids c)"
proof (induction mids arbitrary: c)
  case (Cons mid mids)
  obtain r c1 where s: "sq_step (set_delivered mid) c = (r, c1)" by (cases "sq_step (set_delivered mid) c")
  have "keeps msgs_ok (set_delivered mid)"
    using set_delivered_ok by (intro keepsI) blast
  then show ?case
    using Cons.IH [OF conn_ok_step [OF s Cons.prems]] s by simp
qed simp

lemma mark_ok: "conn_ok msgs_ok c \<Longrightarrow> conn_ok msgs_ok (markDelivered mids c)"
  by (auto simp: markDelivered_def split: prod.splits intro: mark_steps_ok dest: conn_ok_tick)

lemma msg_run_ok: "conn_ok msgs_ok c \<Longrightarrow> conn_ok msgs_ok (msg_run ops c)"
  unfolding msg_run_def
proof (induction ops arbitrary: c)
  case (Cons op ops)
  have "conn_ok msgs_ok (msg_step op c)"
  proof (cases op)
    case (SaveOp m delivered)
    obtain b m' c' where "saveMessage m delivered c = (b, m', c')" by (cases "saveMessage m delivered c")
    then show ?thesis using save_ok [of m delivered c b m' c'] Cons.prems SaveOp by simp
  qed (simp add: mark_ok Cons.prems)
  then show ?case using Cons.IH by simp
qed simp

lemma msg_run_new_ok: "msgs_ok (cn_db (msg_run ops (sconn_new empty_db script)))"
  using msg_run_ok [of "sconn_new empty_db script" ops] msgs_ok_empty
  by (simp add: conn_ok_def sconn_new_def)

lemma find_message_Some:
  "find_message mid d = Some r \<Longrightarrow> r \<in> set (db_messages d) \<and> sm_msgId (mr_msg r) = cstr mid"
  unfolding find_message_def by (drule find_SomeD) simp

text \<open>A saved message and the number it was given.\<close>

lemma save_result:
  assumes run: "saveMessage m delivered c = (b, m', c')" and ok: "msgs_ok (cn_db c)"
  shows "(\<not> b \<longrightarrow> cn_db c' = cn_db c) \<and>
    (b \<longrightarrow> (\<exists>r. find_message (sm_msgId m) (cn_db c') = Some r \<and> row_seq r = sm_seq m') \<and>
      (case find_message (sm_msgId m) (cn_db c) of
         Some r \<Rightarrow> m' = m\<lparr>sm_seq := row_seq r\<rparr> \<and> cn_db c' = cn_db c
       | None \<Rightarrow>
           sm_seq m' = int (length (conv_rows (makeConversationId (sm_sender m) (sm_receiver m)) (cn_db c))) + 1 \<and>
           m' = m\<lparr>sm_seq := sm_seq m'\<rparr> \<and>
           db_messages (cn_db c') = db_messages (cn_db c) @
             [\<lparr>mr_id = db_nextMsg (cn_db c), mr_conv = makeConversationId (sm_sender m) (sm_receiver m),
               mr_delivered = delivered, mr_msg = bind_message m'\<rparr>]))"
proof (cases "cn_txn c = None")
  case False
  then show ?thesis using save_busy [OF run] by simp
next
  case True
  let ?conv = "makeConversationId (sm_sender m) (sm_receiver m)"
  consider "\<not> b" "cn_db c' = cn_db c"
    | r where "b" "cn_db c' = cn_db c" "find_message (sm_msgId m) (cn_db c) = Some r" "m' = m\<lparr>sm_seq := row_seq r\<rparr>"
    | s n where "b" "s = next_seq ?conv (cn_db c) \<or> s = 1" "m' = m\<lparr>sm_seq := s\<rparr>"
        "insert_message ?conv delivered m' (cn_db c) = Some (n, cn_db c')"
    using save_cases [OF run True] by metis
  then show ?thesis
  proof cases
    case (3 s n)
    have none: "\<forall>r \<in> set (db_messages (cn_db c)). sm_msgId (mr_msg r) \<noteq> cstr (sm_msgId m)"
      and rows: "db_messages (cn_db c') = db_messages (cn_db c) @
             [\<lparr>mr_id = db_nextMsg (cn_db c), mr_conv = ?conv, mr_delivered = delivered, mr_msg = bind_message m'\<rparr>]"
      using 3(3,4) by (auto simp: insert_message_def list_ex_iff split: if_splits)
        (metis server_db.select_convs(5) server_db.surjective server_db.update_convs(5,6))
    have f: "find_message (sm_msgId m) (cn_db c) = None"
      using none by (simp add: find_message_def find_None_iff)
    have "find_message (sm_msgId m) (cn_db c') = Some
        \<lparr>mr_id = db_nextMsg (cn_db c), mr_conv = ?conv, mr_delivered = delivered, mr_msg = bind_message m'\<rparr>"
      using f 3(3) unfolding find_message_def rows by (simp add: find_append)
    moreover have "sm_seq m' = int (length (conv_rows ?conv (cn_db c))) + 1"
      using insert_message_ok [OF ok 3(4)] 3(2,3) by simp
    ultimately show ?thesis using 3(1,3) f rows by (simp add: row_seq_def)
  qed simp_all
qed

text \<open>
  C25: the message log. Over any saves and delivery marks on a new database, with any SQLite calls
  failing, the committed messages of every conversation are numbered 1, 2, 3 and on in the order
  they were stored, without a gap or a repetition, and message ids are unique. A save that fails
  changed nothing; a save that succeeds returns the number under which the id is stored: the next
  number of the conversation for a new id, the old number, with nothing written, for a known one.
\<close>

theorem message_log_correct:
  fixes ops :: "msg_op list" and script :: "bool list"
  defines "c \<equiv> msg_run ops (sconn_new empty_db script)"
  assumes "saveMessage m delivered c = (b, m', c')"
  shows "map row_seq (conv_rows conv (cn_db c)) = [1..int (length (conv_rows conv (cn_db c)))] \<and>
    distinct (map (\<lambda>r. sm_msgId (mr_msg r)) (db_messages (cn_db c))) \<and>
    (\<not> b \<longrightarrow> cn_db c' = cn_db c) \<and>
    (b \<longrightarrow> (\<exists>r. find_message (sm_msgId m) (cn_db c') = Some r \<and> row_seq r = sm_seq m') \<and>
      (case find_message (sm_msgId m) (cn_db c) of
         Some r \<Rightarrow> m' = m\<lparr>sm_seq := row_seq r\<rparr> \<and> cn_db c' = cn_db c
       | None \<Rightarrow>
           sm_seq m' = int (length (conv_rows (makeConversationId (sm_sender m) (sm_receiver m)) (cn_db c))) + 1 \<and>
           m' = m\<lparr>sm_seq := sm_seq m'\<rparr> \<and>
           db_messages (cn_db c') = db_messages (cn_db c) @
             [\<lparr>mr_id = db_nextMsg (cn_db c), mr_conv = makeConversationId (sm_sender m) (sm_receiver m),
               mr_delivered = delivered, mr_msg = bind_message m'\<rparr>]))"
proof -
  have ok: "msgs_ok (cn_db c)" unfolding c_def by (rule msg_run_new_ok)
  then show ?thesis
    using save_result [OF assms(2) ok] unfolding msgs_ok_def by blast
qed

definition text_message :: "string \<Rightarrow> int \<Rightarrow> int \<Rightarrow> string \<Rightarrow> int \<Rightarrow> stored_message" where
  "text_message mid from to txt ts = \<lparr>sm_msgId = mid, sm_sender = from, sm_receiver = to, sm_type = 0,
     sm_content = txt, sm_mediaPath = [], sm_imgW = 0, sm_imgH = 0, sm_ts = ts, sm_seq = 0, sm_fileId = [],
     sm_fileSize = 0, sm_contentType = [], sm_sha256 = [], sm_thumbFileId = [], sm_thumbPath = [],
     sm_thumbSize = 0, sm_thumbSha256 = [], sm_thumbW = 0, sm_thumbH = 0, sm_largeFileId = [],
     sm_largePath = [], sm_largeSize = 0, sm_largeSha256 = [], sm_largeW = 0, sm_largeH = 0\<rparr>"

theorem message_log_correct_witness:
  "fst (saveMessage (text_message ''a'' 1 2 ''hi'' 7) False (sconn_new empty_db [])) \<and>
   sm_seq (fst (snd (saveMessage (text_message ''a'' 1 2 ''hi'' 7) False (sconn_new empty_db [])))) = 1"
proof -
  let ?c = "sconn_new empty_db []" and ?m = "text_message ''a'' 1 2 ''hi'' 7"
  obtain b m' c' where r: "saveMessage ?m False ?c = (b, m', c')" by (cases "saveMessage ?m False ?c")
  have b: "b"
    using r by (simp add: saveMessage_def sconn_new_def sq_begin_def sq_commit_def empty_db_def view_def
        find_message_def next_seq_def conv_rows_def insert_message_def set_view_def Let_def split: prod.splits)
  have f: "find_message (sm_msgId ?m) (cn_db ?c) = None" and l: "conv_rows k (cn_db ?c) = []" for k
    by (simp_all add: find_message_def sconn_new_def empty_db_def conv_rows_def)
  have "sm_seq m' = 1"
    using message_log_correct [of ?m False "[]" "[]" b m' c'] r b f l by (simp add: msg_run_def)
  then show ?thesis using r b by simp
qed

section \<open>Paging through a history\<close>

text \<open>Asking page after page with the last number received as the next cursor.\<close>

fun read_pages :: "nat \<Rightarrow> int \<Rightarrow> int \<Rightarrow> int \<Rightarrow> int \<Rightarrow> server_db \<Rightarrow> stored_message list" where
  "read_pages 0 uid peer before limit d = []"
| "read_pages (Suc n) uid peer before limit d =
     (case roamMessages read_ok uid peer before limit d of
        [] \<Rightarrow> []
      | page \<Rightarrow> page @ read_pages n uid peer (sm_seq (last page)) limit d)"

lemma insort_key_last: "\<forall>y \<in> set ys. g y < (g x :: int) \<Longrightarrow> insort_key g x ys = ys @ [x]"
  by (induction ys) auto

lemma sort_key_rev: "sorted_wrt (<) (map f xs) \<Longrightarrow> sort_key (\<lambda>x. - f x :: int) xs = rev xs"
proof (induction xs)
  case (Cons x xs)
  have "insort_key (\<lambda>x. - f x) x (rev xs) = rev xs @ [x]"
    by (rule insort_key_last) (use Cons.prems in auto)
  then show ?case using Cons by simp
qed simp

text \<open>What is older than the cursor, newest first.\<close>

lemma conv_seq_sorted: "msgs_ok d \<Longrightarrow> sorted_wrt (<) (map row_seq (conv_rows conv d))"
  by (simp add: msgs_ok_def)

lemma filter_less_take:
  "map f rs = [k..k + int (length rs) - 1] \<Longrightarrow> filter (\<lambda>r. f r < b) rs = take (nat (b - k)) rs"
proof (induction rs arbitrary: k)
  case (Cons x xs)
  have k: "f x = k" and xs: "map f xs = [k + 1..(k + 1) + int (length xs) - 1]"
    using Cons.prems by (simp_all add: upto_rec1)
  note ih = Cons.IH [OF xs]
  show ?case
  proof (cases "k < b")
    case True
    then have "nat (b - k) = Suc (nat (b - (k + 1)))" by simp
    then show ?thesis using ih k True by simp
  next
    case False
    then have "nat (b - k) = 0" "nat (b - (k + 1)) = 0" by simp_all
    then show ?thesis using ih k False by simp
  qed
qed simp

lemma roam_take:
  assumes ok: "msgs_ok d" and "0 \<le> limit"
  shows "roamMessages read_ok uid peer before limit d =
    map mr_msg (take (nat limit) (rev (filter (\<lambda>r. row_seq r < before)
      (conv_rows (makeConversationId uid peer) d))))"
proof -
  let ?rs = "conv_rows (makeConversationId uid peer) d"
  have "sorted_wrt (<) (map row_seq (filter (\<lambda>r. row_seq r < before) ?rs))"
    using conv_seq_sorted [OF ok, of "makeConversationId uid peer"]
    by (simp add: sorted_wrt_map sorted_wrt_filter)
  then show ?thesis
    using assms(2) by (simp add: roamMessages_def sql_limit_def sort_key_rev)
qed

lemma read_pages_all:
  fixes uid peer :: int
  assumes ok: "msgs_ok d" and "1 \<le> limit"
  defines "rs \<equiv> conv_rows (makeConversationId uid peer) d"
  shows "m \<le> length rs \<Longrightarrow> m \<le> n \<Longrightarrow>
    read_pages n uid peer (int m + 1) limit d = map mr_msg (rev (take m rs))"
proof (induction n arbitrary: m)
  case (Suc n)
  have seqs: "map row_seq rs = [1..1 + int (length rs) - 1]"
    using ok by (simp add: rs_def msgs_ok_def)
  have page: "roamMessages read_ok uid peer (int m + 1) limit d = map mr_msg (take (nat limit) (rev (take m rs)))"
    using roam_take [OF ok, of limit uid peer "int m + 1"] assms(2) filter_less_take [OF seqs, of "int m + 1"]
    by (simp add: rs_def)
  show ?case
  proof (cases m)
    case 0
    then show ?thesis using page by simp
  next
    case (Suc m0)
    define p where "p = min (nat limit) m"
    have p: "1 \<le> p" "p \<le> m" using assms(2) Suc by (auto simp: p_def)
    let ?page = "take (nat limit) (rev (take m rs))"
    have pg: "?page = take p (rev (take m rs))" "length ?page = p"
      using Suc.prems(1) by (simp_all add: p_def min_def)
    then have ne: "?page \<noteq> []" using p by auto
    have "last ?page = rev (take m rs) ! (p - 1)"
      using pg p ne by (simp add: last_conv_nth)
    also have "\<dots> = rs ! (m - p)"
      using p Suc.prems(1) by (simp add: rev_nth)
    finally have lst: "last ?page = rs ! (m - p)" .
    have "row_seq (rs ! (m - p)) = map row_seq rs ! (m - p)"
      using p Suc.prems(1) by simp
    also have "\<dots> = int (m - p) + 1"
      unfolding seqs using p Suc.prems(1) by simp
    finally have cur: "sm_seq (last (map mr_msg ?page)) = int (m - p) + 1"
      using ne lst by (simp add: last_map row_seq_def)
    have "read_pages (Suc n) uid peer (int m + 1) limit d =
        map mr_msg ?page @ read_pages n uid peer (int (m - p) + 1) limit d"
    proof -
      obtain x xs where x: "map mr_msg ?page = x # xs" using ne by (cases "map mr_msg ?page") auto
      then have "sm_seq (last (x # xs)) = int (m - p) + 1" using cur by simp
      then show ?thesis unfolding read_pages.simps page x by simp
    qed
    also have "read_pages n uid peer (int (m - p) + 1) limit d = map mr_msg (rev (take (m - p) rs))"
      using Suc.IH [of "m - p"] Suc.prems p by simp
    also have "rev (take (m - p) rs) = drop p (rev (take m rs))"
      using Suc.prems(1) p by (simp add: drop_rev min_def)
    finally show ?thesis
      using pg(1) by (simp flip: map_append)
  qed
qed simp

text \<open>
  C27: roaming is complete. Reading a conversation page by page, each time with the last number
  received as the cursor, gives every message of the conversation exactly once, newest first,
  whatever the page size.
\<close>

theorem history_paging_complete:
  fixes ops :: "msg_op list" and script :: "bool list" and uid peer :: int
  defines "d \<equiv> cn_db (msg_run ops (sconn_new empty_db script))"
  defines "rs \<equiv> conv_rows (makeConversationId uid peer) d"
  assumes "1 \<le> limit" and "length rs \<le> n"
  shows "read_pages n uid peer (int (length rs) + 1) limit d = rev (map mr_msg rs)"
  using read_pages_all [OF msg_run_new_ok assms(3), of "length rs" uid peer ops script n] assms(4)
  by (simp add: d_def rs_def rev_map)

theorem history_paging_complete_witness:
  "read_pages 2 1 2 3 1 (cn_db (msg_run [SaveOp (text_message ''a'' 1 2 ''hi'' 7) False,
       SaveOp (text_message ''b'' 2 1 ''yo'' 8) True] (sconn_new empty_db []))) =
   [(text_message ''b'' 2 1 ''yo'' 8)\<lparr>sm_seq := 2\<rparr>, (text_message ''a'' 1 2 ''hi'' 7)\<lparr>sm_seq := 1\<rparr>]"
proof -
  let ?ops = "[SaveOp (text_message ''a'' 1 2 ''hi'' 7) False, SaveOp (text_message ''b'' 2 1 ''yo'' 8) True]"
  have conv: "makeConversationId 1 2 = 4294967298" "makeConversationId 2 1 = 4294967298"
    by (simp_all add: makeConversationId_eq user_id_ok_def sql_conversation_id_def)
  have rows: "map mr_msg (conv_rows (makeConversationId 1 2) (cn_db (msg_run ?ops (sconn_new empty_db [])))) =
      [(text_message ''a'' 1 2 ''hi'' 7)\<lparr>sm_seq := 1\<rparr>, (text_message ''b'' 2 1 ''yo'' 8)\<lparr>sm_seq := 2\<rparr>]"
    by (simp add: msg_run_def saveMessage_def sconn_new_def sq_begin_def sq_commit_def empty_db_def view_def
        find_message_def next_seq_def conv_rows_def insert_message_def set_view_def Let_def row_seq_def
        text_message_def bind_message_def conv cstr_def)
  then have "length (conv_rows (makeConversationId 1 2) (cn_db (msg_run ?ops (sconn_new empty_db [])))) = 2"
    by (metis length_map list.size(3,4) One_nat_def Suc_1 add.commute plus_1_eq_Suc)
  then show ?thesis
    using history_paging_complete [of 1 1 2 ?ops "[]" 2] rows by (simp add: rev_map [symmetric])
qed

section \<open>Delivery marks\<close>

definition mark_row :: "string set \<Rightarrow> msg_row \<Rightarrow> msg_row" where
  "mark_row ids r = (if sm_msgId (mr_msg r) \<in> cstr ` ids then r\<lparr>mr_delivered := True\<rparr> else r)"

lemma mark_row_mark_row: "mark_row T (mark_row S r) = mark_row (S \<union> T) r"
  by (auto simp: mark_row_def)

lemma mark_row_msg [simp]: "mr_msg (mark_row S r) = mr_msg r"
  by (simp add: mark_row_def)

lemma mark_row_empty [simp]: "mark_row {} r = r"
  by (simp add: mark_row_def)

lemma mark_steps_marks:
  "cn_txn c = None \<Longrightarrow>
   cn_txn (mark_steps mids c) = None \<and>
   (\<exists>ids \<subseteq> set mids. db_messages (cn_db (mark_steps mids c)) = map (mark_row ids) (db_messages (cn_db c)) \<and>
      (cn_script c = [] \<longrightarrow> ids = set mids))"
proof (induction mids arbitrary: c)
  case Nil
  then show ?case by (simp add: map_idI)
next
  case (Cons mid mids)
  obtain r c1 where s: "sq_step (set_delivered mid) c = (r, c1)" by (cases "sq_step (set_delivered mid) c")
  note s1 = step_auto [OF s Cons.prems]
  have sd: "\<exists>n d'. set_delivered mid d = Some (n, d') \<and> db_messages d' = map (mark_row {mid}) (db_messages d)" for d
    by (auto simp: set_delivered_def Let_def upd_where_def mark_row_def)
  define S where "S = (if r = None then {} else {mid})"
  have rows: "db_messages (cn_db c1) = map (mark_row S) (db_messages (cn_db c))"
    using s1 sd [of "cn_db c"] by (cases r) (auto simp: S_def map_idI)
  have ok: "S = {mid} \<and> cn_script c1 = []" if "cn_script c = []"
    using s that sd [of "cn_db c"] Cons.prems by (auto simp: S_def)
  have idle1: "cn_txn c1 = None" using s1 by simp
  obtain ids where ids: "ids \<subseteq> set mids" "cn_txn (mark_steps mids c1) = None"
      "db_messages (cn_db (mark_steps mids c1)) = map (mark_row ids) (db_messages (cn_db c1))"
      "cn_script c1 = [] \<longrightarrow> ids = set mids"
    using Cons.IH [OF idle1] by blast
  have "db_messages (cn_db (mark_steps (mid # mids) c)) = map (mark_row (S \<union> ids)) (db_messages (cn_db c))"
    using ids(3) s rows by (simp add: mark_row_mark_row comp_def)
  moreover have "S \<union> ids \<subseteq> set (mid # mids)"
    using ids(1) by (auto simp: S_def)
  moreover have "cn_script c = [] \<longrightarrow> S \<union> ids = set (mid # mids)"
    using ok ids(4) by auto
  moreover have "cn_txn (mark_steps (mid # mids) c) = None"
    using ids(2) s by simp
  ultimately show ?case by blast
qed

lemma mark_marks:
  assumes "cn_txn c = None"
  shows "cn_txn (markDelivered mids c) = None \<and>
   (\<exists>ids \<subseteq> set mids. db_messages (cn_db (markDelivered mids c)) = map (mark_row ids) (db_messages (cn_db c)) \<and>
      (cn_script c = [] \<longrightarrow> ids = set mids))"
proof -
  obtain b c1 where t: "tick c = (b, c1)" by (cases "tick c")
  have c1: "cn_txn c1 = None" "cn_db c1 = cn_db c" using tick_fields [OF t] assms by simp_all
  have s: "cn_script c = [] \<Longrightarrow> b \<and> cn_script c1 = []" using t by auto
  show ?thesis
  proof (cases "mids = [] \<or> \<not> b")
    case True
    then have "cn_txn (markDelivered mids c) = None"
      "db_messages (cn_db (markDelivered mids c)) = map (mark_row {}) (db_messages (cn_db c))"
      using t c1 assms by (auto simp: markDelivered_def map_idI)
    moreover have "cn_script c = [] \<longrightarrow> {} = set mids" using True s by auto
    ultimately show ?thesis by blast
  next
    case False
    then have "markDelivered mids c = mark_steps mids c1" using t by (simp add: markDelivered_def)
    then show ?thesis using mark_steps_marks [OF c1(1), of mids] c1(2) s by metis
  qed
qed

text \<open>
  Offline messages are delivered at least once. The receiver gets exactly its undelivered
  messages, oldest first. Marking messages delivered, whatever SQLite calls fail, changes no
  message and takes nothing from the receiver's list but messages whose id was marked; and when
  nothing fails, the marked ones are all gone from it.
\<close>

theorem offline_delivery_at_least_once:
  fixes c :: sconn and uid :: int and mids :: "string list"
  assumes "cn_txn c = None"
  defines "d' \<equiv> cn_db (markDelivered mids c)"
  shows "sorted (map sm_ts (pullUndelivered read_ok uid (cn_db c))) \<and>
    mset (pullUndelivered read_ok uid (cn_db c)) =
      mset (map mr_msg (filter (\<lambda>r. sm_receiver (mr_msg r) = uid \<and> \<not> mr_delivered r) (db_messages (cn_db c)))) \<and>
    map mr_msg (db_messages d') = map mr_msg (db_messages (cn_db c)) \<and>
    set (pullUndelivered read_ok uid d') \<subseteq> set (pullUndelivered read_ok uid (cn_db c)) \<and>
    (\<forall>m \<in> set (pullUndelivered read_ok uid (cn_db c)).
       (sm_msgId m \<notin> cstr ` set mids \<longrightarrow> m \<in> set (pullUndelivered read_ok uid d')) \<and>
       (cn_script c = [] \<and> sm_msgId m \<in> cstr ` set mids \<longrightarrow> m \<notin> set (pullUndelivered read_ok uid d')))"
proof -
  obtain ids where ids: "ids \<subseteq> set mids" "db_messages d' = map (mark_row ids) (db_messages (cn_db c))"
      "cn_script c = [] \<longrightarrow> ids = set mids"
    using mark_marks [OF assms(1), of mids] unfolding d'_def by blast
  have pull: "set (pullUndelivered read_ok uid d) =
      mr_msg ` {r \<in> set (db_messages d). sm_receiver (mr_msg r) = uid \<and> \<not> mr_delivered r}" for d
    by (auto simp: pullUndelivered_def undelivered_def)
  have left: "r' \<in> set (db_messages d') \<and> \<not> mr_delivered r' \<longleftrightarrow>
      r' \<in> set (db_messages (cn_db c)) \<and> \<not> mr_delivered r' \<and> sm_msgId (mr_msg r') \<notin> cstr ` ids" for r'
    by (auto simp: ids(2) mark_row_def image_iff) 
  have "map mr_msg (db_messages d') = map mr_msg (db_messages (cn_db c))"
    by (simp add: ids(2) comp_def)
  moreover have "sorted (map sm_ts (pullUndelivered read_ok uid (cn_db c)))"
    by (simp add: pullUndelivered_def undelivered_def comp_def)
  moreover have "mset (pullUndelivered read_ok uid (cn_db c)) =
      mset (map mr_msg (filter (\<lambda>r. sm_receiver (mr_msg r) = uid \<and> \<not> mr_delivered r) (db_messages (cn_db c))))"
    by (simp add: pullUndelivered_def undelivered_def)
  moreover have "set (pullUndelivered read_ok uid d') \<subseteq> set (pullUndelivered read_ok uid (cn_db c))"
    unfolding pull using left by auto
  moreover have "m \<in> set (pullUndelivered read_ok uid d')"
    if "m \<in> set (pullUndelivered read_ok uid (cn_db c))" "sm_msgId m \<notin> cstr ` set mids" for m
    using that ids(1) left unfolding pull by fast
  moreover have "m \<notin> set (pullUndelivered read_ok uid d')"
    if "cn_script c = []" "sm_msgId m \<in> cstr ` set mids" for m
    using that ids(3) left unfolding pull by auto
  ultimately show ?thesis by blast
qed

theorem offline_delivery_at_least_once_witness:
  "set (pullUndelivered read_ok 2 (cn_db (markDelivered [''a'']
      (msg_run [SaveOp (text_message ''a'' 1 2 ''hi'' 7) False] (sconn_new empty_db []))))) \<subseteq>
   set (pullUndelivered read_ok 2 (cn_db (msg_run [SaveOp (text_message ''a'' 1 2 ''hi'' 7) False]
      (sconn_new empty_db []))))"
proof -
  have "cn_txn (msg_run [SaveOp (text_message ''a'' 1 2 ''hi'' 7) False] (sconn_new empty_db [])) = None"
    by (simp add: msg_run_def saveMessage_def sconn_new_def sq_begin_def sq_commit_def empty_db_def view_def
        find_message_def next_seq_def conv_rows_def insert_message_def set_view_def Let_def)
  from offline_delivery_at_least_once [OF this] show ?thesis by blast
qed

end
