(* ===== verification/AuthStore.thy ===== *)
theory AuthStore
  imports ServerDb UserStore
begin

text \<open>
  The authentication sessions of the server (\<^verbatim>\<open>Database.cpp\<close>, \<^verbatim>\<open>createAuthSession\<close> to
  \<^verbatim>\<open>revokeAllUserSessions\<close>) and the token service on them (\<^verbatim>\<open>auth/TokenService.cpp\<close>). Random
  tokens are arguments, \<open>None\<close> when the random source fails and the code throws.
\<close>

section \<open>The tables\<close>

definition insert_auth :: "auth_row \<Rightarrow> server_db \<Rightarrow> (nat \<times> server_db) option" where
  "insert_auth r d =
     (if list_ex (\<lambda>x. ar_session x = ar_session r \<or> ar_access x = ar_access r \<or> ar_refresh x = ar_refresh r)
           (db_auth d) then None
      else Some (1, d\<lparr>db_auth := db_auth d @ [r]\<rparr>))"

definition createAuthSession ::
  "string \<Rightarrow> string \<Rightarrow> int \<Rightarrow> string \<Rightarrow> string \<Rightarrow> int \<Rightarrow> string \<Rightarrow> int \<Rightarrow> int \<Rightarrow> sconn \<Rightarrow> bool \<times> sconn" where
  "createAuthSession sid fam uid dev ah aexp rh rexp now c =
     (case sq_run (insert_auth \<lparr>ar_session = cstr sid, ar_family = cstr fam, ar_user = uid, ar_device = cstr dev,
             ar_access = cstr ah, ar_accessExp = aexp, ar_refresh = cstr rh, ar_refreshExp = rexp,
             ar_generation = 1, ar_revoked = False, ar_lastUsed = now\<rparr>) c of
        (r, c) \<Rightarrow> (r \<noteq> None, c))"

definition findByAccessHash :: "read_io \<Rightarrow> string \<Rightarrow> server_db \<Rightarrow> auth_row option" where
  "findByAccessHash io h d = fetch_one io (filter (\<lambda>r. ar_access r = cstr h) (db_auth d))"

definition findByRefreshHash :: "read_io \<Rightarrow> string \<Rightarrow> server_db \<Rightarrow> auth_row option" where
  "findByRefreshHash io h d = fetch_one io (filter (\<lambda>r. ar_refresh r = cstr h) (db_auth d))"

definition insert_history :: "auth_row \<Rightarrow> string \<Rightarrow> int \<Rightarrow> server_db \<Rightarrow> (nat \<times> server_db) option" where
  "insert_history old h now d =
     (if list_ex (\<lambda>x. hr_token x = cstr h) (db_history d) then None
      else Some (1, d\<lparr>db_history := db_history d @
             [\<lparr>hr_family = cstr (ar_family old), hr_token = cstr h, hr_generation = ar_generation old, hr_used = now\<rparr>]\<rparr>))"

definition auth_target :: "auth_row \<Rightarrow> string \<Rightarrow> auth_row \<Rightarrow> bool" where
  "auth_target old h x \<longleftrightarrow> ar_session x = cstr (ar_session old) \<and> ar_refresh x = cstr h \<and>
     ar_generation x = ar_generation old \<and> \<not> ar_revoked x"

text \<open>The UPDATE is refused when another row has one of the new hashes.\<close>

definition update_auth ::
  "auth_row \<Rightarrow> string \<Rightarrow> string \<Rightarrow> int \<Rightarrow> string \<Rightarrow> int \<Rightarrow> int \<Rightarrow> server_db \<Rightarrow> (nat \<times> server_db) option" where
  "update_auth old h nah naexp nrh nrexp now d =
     (if list_ex (auth_target old h) (db_auth d) \<and>
         list_ex (\<lambda>x. \<not> auth_target old h x \<and> (ar_access x = cstr nah \<or> ar_refresh x = cstr nrh)) (db_auth d)
      then None
      else Some (count_where (auth_target old h) (db_auth d),
             d\<lparr>db_auth := upd_where (auth_target old h)
                 (\<lambda>x. x\<lparr>ar_access := cstr nah, ar_accessExp := naexp, ar_refresh := cstr nrh, ar_refreshExp := nrexp,
                        ar_generation := ar_generation x + 1, ar_lastUsed := now\<rparr>) (db_auth d)\<rparr>))"

definition rotate_body ::
  "auth_row \<Rightarrow> string \<Rightarrow> string \<Rightarrow> int \<Rightarrow> string \<Rightarrow> int \<Rightarrow> int \<Rightarrow> sconn \<Rightarrow> unit option \<times> sconn" where
  "rotate_body old h nah naexp nrh nrexp now =
     sq_then (sq_run (insert_history old h now)) (\<lambda>_.
       sq_then (sq_run (update_auth old h nah naexp nrh nrexp now)) (\<lambda>n. sq_guard (n = 1)))"

definition rotateRefreshToken ::
  "auth_row \<Rightarrow> string \<Rightarrow> string \<Rightarrow> int \<Rightarrow> string \<Rightarrow> int \<Rightarrow> int \<Rightarrow> sconn \<Rightarrow> bool \<times> sconn" where
  "rotateRefreshToken old h nah naexp nrh nrexp now c =
     (case in_txn (rotate_body old h nah naexp nrh nrexp now) c of (r, c) \<Rightarrow> (r \<noteq> None, c))"

definition wasRefreshTokenUsed :: "read_io \<Rightarrow> string \<Rightarrow> server_db \<Rightarrow> string option" where
  "wasRefreshTokenUsed io h d =
     map_option hr_family (fetch_one io (filter (\<lambda>x. hr_token x = cstr h) (db_history d)))"

definition revoke_where :: "(auth_row \<Rightarrow> bool) \<Rightarrow> server_db \<Rightarrow> (nat \<times> server_db) option" where
  "revoke_where P d =
     Some (count_where P (db_auth d), d\<lparr>db_auth := upd_where P (\<lambda>x. x\<lparr>ar_revoked := True\<rparr>) (db_auth d)\<rparr>)"

definition revokeTokenFamily :: "string \<Rightarrow> sconn \<Rightarrow> int \<times> sconn" where
  "revokeTokenFamily fam c =
     (let (q, c) = sq_query (\<lambda>d. find (\<lambda>x. ar_family x = cstr fam) (db_auth d)) c;
          uid = (case q of Some (Some r) \<Rightarrow> ar_user r | _ \<Rightarrow> 0);
          (prepared, c) = tick c
      in if \<not> prepared then (0, c)
         else (uid, snd (sq_step (revoke_where (\<lambda>x. ar_family x = cstr fam)) c)))"

definition db_revokeSession :: "string \<Rightarrow> sconn \<Rightarrow> sconn" where
  "db_revokeSession sid c = snd (sq_run (revoke_where (\<lambda>x. ar_session x = cstr sid)) c)"

definition revokeAllUserSessions :: "int \<Rightarrow> sconn \<Rightarrow> sconn" where
  "revokeAllUserSessions uid c = snd (sq_run (revoke_where (\<lambda>x. ar_user x = uid)) c)"

section \<open>The token service\<close>

text \<open>
  OpenSSL's digest \<open>EVP_sha256\<close> is a parameter \<open>dg\<close>: the service relies on nothing of it but that it
  is a function. That it throws when memory runs out is left out.
\<close>

definition tokenHash :: "(bytes \<Rightarrow> bytes) \<Rightarrow> string \<Rightarrow> string" where
  "tokenHash dg t = hex_of (dg (bytes_of t))"

record token_pair =
  tp_session :: string
  tp_family :: string
  tp_access :: string
  tp_refresh :: string
  tp_accessExp :: int
  tp_refreshExp :: int

record cache_entry =
  ce_hash :: string
  ce_device :: string
  ce_pair :: token_pair
  ce_expires :: int

record token_service =
  ts_conn :: sconn
  ts_cache :: "(string \<times> cache_entry) list"

datatype issue_result = Issued token_pair | IssueThrows

text \<open>\<open>toks\<close> are the four random tokens: session, family, access, refresh.\<close>

definition issue :: "(bytes \<Rightarrow> bytes) \<Rightarrow> (string \<times> string \<times> string \<times> string) option \<Rightarrow> int \<Rightarrow> int \<Rightarrow> string \<Rightarrow> token_service \<Rightarrow>
    issue_result \<times> token_service" where
  "issue dg toks now uid dev s =
     (case toks of
        None \<Rightarrow> (IssueThrows, s)
      | Some (sid, fam, acc, ref) \<Rightarrow>
          let p = \<lparr>tp_session = sid, tp_family = fam, tp_access = acc, tp_refresh = ref,
                   tp_accessExp = now + 5 * 60, tp_refreshExp = now + 2 * 24 * 60 * 60\<rparr>;
              (saved, c) = createAuthSession sid fam uid dev (tokenHash dg acc) (tp_accessExp p)
                             (tokenHash dg ref) (tp_refreshExp p) now (ts_conn s)
          in (if saved then Issued p else IssueThrows, s\<lparr>ts_conn := c\<rparr>))"

definition validateAccess :: "(bytes \<Rightarrow> bytes) \<Rightarrow> read_io \<Rightarrow> int \<Rightarrow> string \<Rightarrow> string \<Rightarrow> string \<Rightarrow> server_db \<Rightarrow> auth_row option" where
  "validateAccess dg io now token sid dev d =
     (if token = [] \<or> dev = [] then None
      else case findByAccessHash io (tokenHash dg token) d of
        None \<Rightarrow> None
      | Some r \<Rightarrow>
          if ar_revoked r \<or> ar_accessExp r \<le> now \<or> ar_device r \<noteq> dev \<or> (sid \<noteq> [] \<and> ar_session r \<noteq> sid)
          then None else Some r)"

datatype rotate_result = Rotated token_pair | RotateFails | RotateThrows

text \<open>A token that was rotated away and comes again: its family is revoked and its user reported.\<close>

definition punish_replay :: "read_io \<Rightarrow> string \<Rightarrow> int \<Rightarrow> token_service \<Rightarrow> int \<times> token_service" where
  "punish_replay io h revoked0 s =
     (case wasRefreshTokenUsed io h (cn_db (ts_conn s)) of
        None \<Rightarrow> (revoked0, s)
      | Some fam \<Rightarrow>
          if fam = [] then (revoked0, s)
          else let (uid, c) = revokeTokenFamily fam (ts_conn s)
               in (if uid > 0 then uid else revoked0, s\<lparr>ts_conn := c\<rparr>))"

definition prune_cache :: "int \<Rightarrow> (string \<times> cache_entry) list \<Rightarrow> (string \<times> cache_entry) list" where
  "prune_cache now cache = filter (\<lambda>(_, e). \<not> ce_expires e \<le> now) cache"

text \<open>The cache is an unordered map: which entry is its first is an argument.\<close>

definition cache_put :: "nat \<Rightarrow> string \<Rightarrow> cache_entry \<Rightarrow> (string \<times> cache_entry) list \<Rightarrow> (string \<times> cache_entry) list" where
  "cache_put victim k e cache =
     (let cache = (if length cache \<ge> 1024 then take victim cache @ drop (Suc victim) cache else cache)
      in if map_of cache k \<noteq> None then cache else cache @ [(k, e)])"

definition rotateRefresh ::
  "(bytes \<Rightarrow> bytes) \<Rightarrow> (string \<times> string) option \<Rightarrow> nat \<Rightarrow> read_io \<Rightarrow> read_io \<Rightarrow> int \<Rightarrow> string \<Rightarrow> string \<Rightarrow> string \<Rightarrow> int \<Rightarrow> token_service \<Rightarrow>
    rotate_result \<times> int \<times> token_service" where
  "rotateRefresh dg toks victim io1 io2 now token dev rid revoked0 s =
     (if token = [] \<or> dev = [] \<or> rid = [] then (RotateFails, revoked0, s)
      else
        let h = tokenHash dg token;
            s = s\<lparr>ts_cache := prune_cache now (ts_cache s)\<rparr>
        in case map_of (ts_cache s) rid of
          Some e \<Rightarrow>
            (if ce_hash e \<noteq> h \<or> ce_device e \<noteq> dev then RotateFails else Rotated (ce_pair e), revoked0, s)
        | None \<Rightarrow>
            (case findByRefreshHash io1 h (cn_db (ts_conn s)) of
               None \<Rightarrow> (let (uid, s) = punish_replay io2 h revoked0 s in (RotateFails, uid, s))
             | Some old \<Rightarrow>
                 if ar_revoked old \<or> ar_refreshExp old \<le> now \<or> ar_device old \<noteq> dev then (RotateFails, revoked0, s)
                 else case toks of
                   None \<Rightarrow> (RotateThrows, revoked0, s)
                 | Some (acc, ref) \<Rightarrow>
                     let p = \<lparr>tp_session = ar_session old, tp_family = ar_family old, tp_access = acc,
                              tp_refresh = ref, tp_accessExp = now + 15 * 60,
                              tp_refreshExp = now + 30 * 24 * 60 * 60\<rparr>;
                         (ok, c) = rotateRefreshToken old h (tokenHash dg acc) (tp_accessExp p)
                                     (tokenHash dg ref) (tp_refreshExp p) now (ts_conn s);
                         s = s\<lparr>ts_conn := c\<rparr>
                     in if \<not> ok then (let (uid, s) = punish_replay io2 h revoked0 s in (RotateFails, uid, s))
                        else (Rotated p, revoked0,
                              s\<lparr>ts_cache := cache_put victim rid
                                  \<lparr>ce_hash = h, ce_device = dev, ce_pair = p, ce_expires = now + 120\<rparr> (ts_cache s)\<rparr>)))"

definition ts_revokeSession :: "string \<Rightarrow> token_service \<Rightarrow> token_service" where
  "ts_revokeSession sid s = (if sid \<noteq> [] then s\<lparr>ts_conn := db_revokeSession sid (ts_conn s)\<rparr> else s)"

definition revokeAllForUser :: "int \<Rightarrow> token_service \<Rightarrow> token_service" where
  "revokeAllForUser uid s = (if uid > 0 then s\<lparr>ts_conn := revokeAllUserSessions uid (ts_conn s)\<rparr> else s)"

section \<open>Rotation as a transaction\<close>

definition rotate_effect ::
  "auth_row \<Rightarrow> string \<Rightarrow> string \<Rightarrow> int \<Rightarrow> string \<Rightarrow> int \<Rightarrow> int \<Rightarrow> server_db \<Rightarrow> (unit \<times> server_db) option" where
  "rotate_effect old h nah naexp nrh nrexp now =
     eff_then (insert_history old h now) (\<lambda>_.
       eff_then (update_auth old h nah naexp nrh nrexp now) (\<lambda>n d. if n = 1 then Some ((), d) else None))"

interpretation rotation: transaction "rotate_body old h nah naexp nrh nrexp now"
    "rotate_effect old h nah naexp nrh nrexp now"
  for old h nah naexp nrh nrexp now
  by unfold_locales (unfold rotate_body_def rotate_effect_def, (intro realizes_intros)+)

lemma hex_of_no_nul: "CHR 0x00 \<notin> set (hex_of bs)"
  using set_hex_of [of bs] by auto

lemma cstr_tokenHash [simp]: "cstr (tokenHash dg t) = tokenHash dg t"
  unfolding tokenHash_def by (rule cstr_id) (rule hex_of_no_nul)

section \<open>Sequences of operations\<close>

datatype token_op =
  IssueOp "(string \<times> string \<times> string \<times> string) option" int int string
| RotateOp "(string \<times> string) option" nat read_io read_io int string string string
| RevokeSessionOp string
| RevokeUserOp int

fun token_step :: "(bytes \<Rightarrow> bytes) \<Rightarrow> token_op \<Rightarrow> token_service \<Rightarrow> token_service" where
  "token_step dg (IssueOp toks now uid dev) s = snd (issue dg toks now uid dev s)"
| "token_step dg (RotateOp toks victim io1 io2 now t dev rid) s =
     snd (snd (rotateRefresh dg toks victim io1 io2 now t dev rid 0 s))"
| "token_step dg (RevokeSessionOp sid) s = ts_revokeSession sid s"
| "token_step dg (RevokeUserOp uid) s = revokeAllForUser uid s"

definition token_run :: "(bytes \<Rightarrow> bytes) \<Rightarrow> token_op list \<Rightarrow> token_service \<Rightarrow> token_service" where
  "token_run dg ops s = fold (token_step dg) ops s"

definition ts_new :: "bool list \<Rightarrow> token_service" where
  "ts_new script = \<lparr>ts_conn = sconn_new empty_db script, ts_cache = []\<rparr>"

text \<open>The hash of the refresh token that an operation may write.\<close>

fun writes_refresh :: "(bytes \<Rightarrow> bytes) \<Rightarrow> token_op \<Rightarrow> string set" where
  "writes_refresh dg (IssueOp (Some (sid, fam, acc, ref)) now uid dev) = {tokenHash dg ref}"
| "writes_refresh dg (RotateOp (Some (acc, ref)) victim io1 io2 now t dev rid) = {tokenHash dg ref}"
| "writes_refresh dg op = {}"

text \<open>
  What is to hold of the write connection against the three table operations the service performs:
  \<open>fresh\<close> says which refresh hashes it lets in.
\<close>

locale token_connection =
  fixes good :: "sconn \<Rightarrow> bool" and fresh :: "string \<Rightarrow> bool"
  assumes insert_good: "sq_run (insert_auth row) c = (r, c') \<Longrightarrow> good c \<Longrightarrow> fresh (ar_refresh row) \<Longrightarrow> good c'"
    and revoke_run_good: "sq_run (revoke_where Q) c = (r, c') \<Longrightarrow> good c \<Longrightarrow> good c'"
    and revoke_step_good: "sq_step (revoke_where Q) c = (r, c') \<Longrightarrow> good c \<Longrightarrow> good c'"
    and rotation_good: "in_txn (rotate_body old h nah naexp nrh nrexp now) c = (u, c') \<Longrightarrow> good c \<Longrightarrow>
      fresh (cstr nrh) \<Longrightarrow> good c'"
    and query_good: "sq_query (q :: server_db \<Rightarrow> auth_row option) c = (a, c') \<Longrightarrow> good c \<Longrightarrow> good c'"
    and tick_good: "tick c = (b, c') \<Longrightarrow> good c \<Longrightarrow> good c'"
begin

lemma create_good:
  assumes "createAuthSession sid fam uid dev ah aexp rh rexp now c = (b, c')" and "good c" and "fresh (cstr rh)"
  shows "good c'"
proof -
  define row where "row = \<lparr>ar_session = cstr sid, ar_family = cstr fam, ar_user = uid, ar_device = cstr dev,
    ar_access = cstr ah, ar_accessExp = aexp, ar_refresh = cstr rh, ar_refreshExp = rexp,
    ar_generation = 1, ar_revoked = False, ar_lastUsed = now\<rparr>"
  obtain r where r: "sq_run (insert_auth row) c = (r, c')"
    using assms(1) unfolding createAuthSession_def row_def by (auto split: prod.splits)
  have "fresh (ar_refresh row)" using assms(3) by (simp add: row_def)
  then show ?thesis by (rule insert_good [OF r assms(2)])
qed

lemma rotate_good:
  assumes "rotateRefreshToken old h nah naexp nrh nrexp now c = (b, c')" and "good c" and "fresh (cstr nrh)"
  shows "good c'"
proof -
  obtain r where r: "in_txn (rotate_body old h nah naexp nrh nrexp now) c = (r, c')"
    using assms(1) unfolding rotateRefreshToken_def by (auto split: prod.splits)
  show ?thesis by (rule rotation_good [OF r assms(2,3)])
qed

lemma family_good:
  assumes "revokeTokenFamily fam c = (uid, c')" and "good c"
  shows "good c'"
proof -
  define q where "q = sq_query (\<lambda>d. find (\<lambda>x. ar_family x = cstr fam) (db_auth d)) c"
  obtain b c2 where c2: "tick (snd q) = (b, c2)" by (cases "tick (snd q)")
  have "good (snd q)" unfolding q_def using assms(2) by (metis query_good surjective_pairing)
  then have g: "good c2" using c2 by (rule tick_good [rotated])
  then have "good (snd (sq_step (revoke_where (\<lambda>x. ar_family x = cstr fam)) c2))"
    by (metis revoke_step_good surjective_pairing)
  then show ?thesis
    using assms(1) c2 g unfolding revokeTokenFamily_def q_def Let_def
    by (auto split: prod.splits if_splits)
qed

lemma punish_good: "punish_replay io h r s = (uid, s') \<Longrightarrow> good (ts_conn s) \<Longrightarrow> good (ts_conn s')"
  by (auto simp: punish_replay_def split: option.splits if_splits prod.splits dest: family_good)

lemma refresh_good:
  assumes "rotateRefresh dg toks victim io1 io2 now t dev rid r0 s = (res, uid, s')" and "good (ts_conn s)"
    and "\<And>acc ref. toks = Some (acc, ref) \<Longrightarrow> fresh (tokenHash dg ref)"
  shows "good (ts_conn s')"
proof -
  have p: "good (ts_conn s2)" if "punish_replay io2 h r1 s1 = (u, s2)" "good (ts_conn s1)" for h r1 s1 u s2
    using that by (rule punish_good)
  have r: "good c'" if "rotateRefreshToken old h (tokenHash dg acc) x (tokenHash dg ref) y now c = (b, c')"
      "toks = Some (acc, ref)" "good c" for old h acc x ref y c b c'
    using rotate_good [OF that(1,3)] assms(3) [OF that(2)] by simp
  show ?thesis
    using assms(1,2) unfolding rotateRefresh_def Let_def
    by (auto split: if_splits option.splits prod.splits dest!: p r)
qed

lemma step_good:
  assumes "good (ts_conn s)" and "\<forall>h \<in> writes_refresh dg op. fresh h"
  shows "good (ts_conn (token_step dg op s))"
proof (cases op)
  case (IssueOp toks now uid dev)
  show ?thesis
    using assms IssueOp
    by (cases toks) (auto simp: issue_def Let_def split: prod.splits dest!: create_good)
next
  case (RotateOp toks victim io1 io2 now t dev rid)
  obtain res uid s' where r: "rotateRefresh dg toks victim io1 io2 now t dev rid 0 s = (res, uid, s')"
    by (cases "rotateRefresh dg toks victim io1 io2 now t dev rid 0 s")
  have "good (ts_conn s')"
    by (rule refresh_good [OF r assms(1)]) (use assms(2) RotateOp in auto)
  then show ?thesis using r RotateOp by simp
next
  case (RevokeSessionOp sid)
  then show ?thesis
    using assms(1) by (auto simp: ts_revokeSession_def db_revokeSession_def) (metis revoke_run_good surjective_pairing)
next
  case (RevokeUserOp uid)
  then show ?thesis
    using assms(1) by (auto simp: revokeAllForUser_def revokeAllUserSessions_def) (metis revoke_run_good surjective_pairing)
qed

lemma run_good:
  assumes "good (ts_conn s)" and "\<forall>op \<in> set ops. \<forall>h \<in> writes_refresh dg op. fresh h"
  shows "good (ts_conn (token_run dg ops s))"
  using assms by (induction ops arbitrary: s) (auto simp: token_run_def step_good)

end

text \<open>
  An invariant of the tables that the operations keep holds of the connection between transactions,
  and of both copies of the tables in whatever state the connection is.
\<close>

locale token_invariant =
  fixes P :: "server_db \<Rightarrow> bool" and fresh :: "string \<Rightarrow> bool"
  assumes inserted: "P d \<Longrightarrow> fresh (ar_refresh r) \<Longrightarrow> insert_auth r d = Some (n, d') \<Longrightarrow> P d'"
    and rotated: "P d \<Longrightarrow> fresh (cstr nrh) \<Longrightarrow>
      rotate_effect old h nah naexp nrh nrexp now d = Some (u, d') \<Longrightarrow> P d'"
    and revoked: "P d \<Longrightarrow> revoke_where Q d = Some (n, d') \<Longrightarrow> P d'"

sublocale token_invariant \<subseteq> idle: token_connection "\<lambda>c. cn_txn c = None \<and> P (cn_db c)" fresh
proof
  show "cn_txn c' = None \<and> P (cn_db c')"
    if "sq_run (insert_auth row) c = (r, c')" "cn_txn c = None \<and> P (cn_db c)" "fresh (ar_refresh row)" for row c r c'
    using run_auto [OF that(1)] that(2,3) inserted by (auto split: option.splits)
  show "cn_txn c' = None \<and> P (cn_db c')"
    if "sq_run (revoke_where Q) c = (r, c')" "cn_txn c = None \<and> P (cn_db c)" for Q c r c'
    using run_auto [OF that(1)] that(2) revoked by (auto split: option.splits)
  show "cn_txn c' = None \<and> P (cn_db c')"
    if "sq_step (revoke_where Q) c = (r, c')" "cn_txn c = None \<and> P (cn_db c)" for Q c r c'
    using step_auto [OF that(1)] that(2) revoked by (auto split: option.splits)
  show "cn_txn c' = None \<and> P (cn_db c')"
    if "in_txn (rotate_body old h nah naexp nrh nrexp now) c = (u, c')" "cn_txn c = None \<and> P (cn_db c)"
      "fresh (cstr nrh)" for old h nah naexp nrh nrexp now c u c'
    using that rotated by (intro rotation.preserves [OF that(1)]) auto
  show "cn_txn c' = None \<and> P (cn_db c')"
    if "sq_query (q :: server_db \<Rightarrow> auth_row option) c = (a, c')" "cn_txn c = None \<and> P (cn_db c)" for q c a c'
    using query_fields [OF that(1)] that(2) by simp
  show "cn_txn c' = None \<and> P (cn_db c')" if "tick c = (b, c')" "cn_txn c = None \<and> P (cn_db c)" for c b c'
    using tick_fields [OF that(1)] that(2) by simp
qed

sublocale token_invariant \<subseteq> any: token_connection "conn_ok P" fresh
proof
  show "conn_ok P c'" if "sq_run (insert_auth row) c = (r, c')" "conn_ok P c" "fresh (ar_refresh row)" for row c r c'
    using that(1,2) by (rule conn_ok_run) (use inserted that(3) in \<open>auto intro: keepsI\<close>)
  show "conn_ok P c'" if "sq_run (revoke_where Q) c = (r, c')" "conn_ok P c" for Q c r c'
    using that by (rule conn_ok_run) (use revoked in \<open>auto intro: keepsI\<close>)
  show "conn_ok P c'" if "sq_step (revoke_where Q) c = (r, c')" "conn_ok P c" for Q c r c'
    using that by (rule conn_ok_step) (use revoked in \<open>auto intro: keepsI\<close>)
  show "conn_ok P c'" if "in_txn (rotate_body old h nah naexp nrh nrexp now) c = (u, c')" "conn_ok P c"
      "fresh (cstr nrh)" for old h nah naexp nrh nrexp now c u c'
    using that rotated by (intro rotation.keeps_conn_ok [OF that(1,2)]) auto
  show "conn_ok P c'" if "sq_query (q :: server_db \<Rightarrow> auth_row option) c = (a, c')" "conn_ok P c" for q c a c'
    using that by (rule conn_ok_query)
  show "conn_ok P c'" if "tick c = (b, c')" "conn_ok P c" for c b c'
    using that by (rule conn_ok_tick)
qed

section \<open>What the operations keep\<close>

definition auth_ok :: "server_db \<Rightarrow> bool" where
  "auth_ok d \<longleftrightarrow> distinct (map ar_session (db_auth d)) \<and> distinct (map ar_access (db_auth d)) \<and>
     distinct (map ar_refresh (db_auth d))"

definition rotated_row :: "string \<Rightarrow> int \<Rightarrow> string \<Rightarrow> int \<Rightarrow> int \<Rightarrow> auth_row \<Rightarrow> auth_row" where
  "rotated_row nah naexp nrh nrexp now x =
     x\<lparr>ar_access := cstr nah, ar_accessExp := naexp, ar_refresh := cstr nrh, ar_refreshExp := nrexp,
       ar_generation := ar_generation x + 1, ar_lastUsed := now\<rparr>"

definition history_of :: "auth_row \<Rightarrow> string \<Rightarrow> int \<Rightarrow> history_row" where
  "history_of old h now =
     \<lparr>hr_family = cstr (ar_family old), hr_token = cstr h, hr_generation = ar_generation old, hr_used = now\<rparr>"

lemma rotate_effect_Some:
  assumes "rotate_effect old h nah naexp nrh nrexp now d = Some (u, d')"
  shows "(\<forall>x \<in> set (db_history d). hr_token x \<noteq> cstr h) \<and>
    db_history d' = db_history d @ [history_of old h now] \<and>
    count_where (auth_target old h) (db_auth d) = 1 \<and>
    (\<forall>x \<in> set (db_auth d). \<not> auth_target old h x \<longrightarrow> ar_access x \<noteq> cstr nah \<and> ar_refresh x \<noteq> cstr nrh) \<and>
    db_auth d' = upd_where (auth_target old h) (rotated_row nah naexp nrh nrexp now) (db_auth d)"
proof -
  define d1 where "d1 = d\<lparr>db_history := db_history d @ [history_of old h now]\<rparr>"
  have h: "\<forall>x \<in> set (db_history d). hr_token x \<noteq> cstr h" and
    u: "eff_then (update_auth old h nah naexp nrh nrexp now) (\<lambda>n d. if n = 1 then Some ((), d) else None) d1 = Some (u, d')"
    using assms
    by (auto simp: rotate_effect_def eff_then_def insert_history_def history_of_def d1_def list_ex_iff split: if_splits option.splits)
  have c: "count_where (auth_target old h) (db_auth d) = 1"
    using u by (auto simp: eff_then_def update_auth_def d1_def split: option.splits if_splits)
  then have ex: "list_ex (auth_target old h) (db_auth d)"
    by (metis count_where_0 list_ex_iff zero_neq_one)
  have o: "\<forall>x \<in> set (db_auth d). \<not> auth_target old h x \<longrightarrow> ar_access x \<noteq> cstr nah \<and> ar_refresh x \<noteq> cstr nrh"
    using u ex by (auto simp: eff_then_def update_auth_def d1_def list_ex_iff split: option.splits if_splits)
  have r: "rotated_row nah naexp nrh nrexp now =
      (\<lambda>x. x\<lparr>ar_access := cstr nah, ar_accessExp := naexp, ar_refresh := cstr nrh, ar_refreshExp := nrexp,
             ar_generation := ar_generation x + 1, ar_lastUsed := now\<rparr>)"
    by (rule ext) (simp add: rotated_row_def)
  have "db_history d' = db_history d @ [history_of old h now] \<and>
      db_auth d' = upd_where (auth_target old h) (rotated_row nah naexp nrh nrexp now) (db_auth d)"
    using u unfolding r by (auto simp: eff_then_def update_auth_def d1_def split: option.splits if_splits)
  then show ?thesis using h c o by simp
qed

lemma auth_ok_revoke: "auth_ok d \<Longrightarrow> revoke_where Q d = Some (n, d') \<Longrightarrow> auth_ok d'"
  by (auto simp: auth_ok_def revoke_where_def map_upd_where_id)

lemma auth_ok_insert: "auth_ok d \<Longrightarrow> insert_auth r d = Some (n, d') \<Longrightarrow> auth_ok d'"
  by (fastforce simp: auth_ok_def insert_auth_def list_ex_iff split: if_splits)

lemma auth_ok_rotate:
  assumes "auth_ok d" and "rotate_effect old h nah naexp nrh nrexp now d = Some (u, d')"
  shows "auth_ok d'"
proof -
  note f = rotate_effect_Some [OF assms(2)]
  then have c: "count_where (auth_target old h) (db_auth d) \<le> 1" by simp
  have "map ar_session (db_auth d') = map ar_session (db_auth d)"
    using f by (simp add: map_upd_where_id rotated_row_def)
  moreover have "distinct (map ar_access (db_auth d'))"
    using f assms(1) c
    by (auto simp: auth_ok_def rotated_row_def intro!: distinct_upd_where_one [of _ _ "cstr nah"])
  moreover have "distinct (map ar_refresh (db_auth d'))"
    using f assms(1) c
    by (auto simp: auth_ok_def rotated_row_def intro!: distinct_upd_where_one [of _ _ "cstr nrh"])
  ultimately show ?thesis using assms(1) by (simp add: auth_ok_def)
qed

interpretation auth_tables: token_invariant auth_ok "\<lambda>_. True"
  by unfold_locales (auto dest: auth_ok_insert auth_ok_rotate auth_ok_revoke)

text \<open>A spent token: one history row has it and no session does.\<close>

definition spent :: "string \<Rightarrow> history_row \<Rightarrow> server_db \<Rightarrow> bool" where
  "spent h row d \<longleftrightarrow> filter (\<lambda>x. hr_token x = h) (db_history d) = [row] \<and>
     (\<forall>r \<in> set (db_auth d). ar_refresh r \<noteq> h)"

lemma spent_rotate:
  assumes "spent h row d" and "cstr nrh \<noteq> h" and "rotate_effect old h' nah naexp nrh nrexp now d = Some (u, d')"
  shows "spent h row d'"
proof -
  note f = rotate_effect_Some [OF assms(3)]
  have "row \<in> set (filter (\<lambda>x. hr_token x = h) (db_history d))"
    using assms(1) by (simp add: spent_def)
  then have "row \<in> set (db_history d)" "hr_token row = h" by simp_all
  then have "h \<noteq> cstr h'" using f by blast
  then have "filter (\<lambda>x. hr_token x = h) (db_history d') = [row]"
    using f assms(1) by (simp add: spent_def history_of_def)
  moreover have "\<forall>r \<in> set (db_auth d'). ar_refresh r \<noteq> h"
    using f assms(1,2) by (auto simp: spent_def set_upd_where rotated_row_def)
  ultimately show ?thesis by (simp add: spent_def)
qed

interpretation spent_token: token_invariant "spent h row" "\<lambda>r. r \<noteq> h" for h row
proof
  show "spent h row d'" if "spent h row d" "ar_refresh r \<noteq> h" "insert_auth r d = Some (n, d')" for d r n d'
    using that by (auto simp: spent_def insert_auth_def split: if_splits)
  show "spent h row d'" if "spent h row d" "revoke_where Q d = Some (n, d')" for d Q n d'
    using that by (fastforce simp: spent_def revoke_where_def set_upd_where)
qed (rule spent_rotate)

section \<open>A refresh token is used once\<close>

lemma rotated_cases:
  assumes "rotateRefresh dg toks victim io1 io2 now t dev rid r0 s = (Rotated p, r1, s1)"
    and "map_of (prune_cache now (ts_cache s)) rid = None"
  shows "\<exists>old acc ref c. findByRefreshHash io1 (tokenHash dg t) (cn_db (ts_conn s)) = Some old \<and>
    toks = Some (acc, ref) \<and> \<not> ar_revoked old \<and> ar_device old = dev \<and> now < ar_refreshExp old \<and>
    p = \<lparr>tp_session = ar_session old, tp_family = ar_family old, tp_access = acc, tp_refresh = ref,
         tp_accessExp = now + 15 * 60, tp_refreshExp = now + 30 * 24 * 60 * 60\<rparr> \<and>
    rotateRefreshToken old (tokenHash dg t) (tokenHash dg acc) (now + 15 * 60) (tokenHash dg ref)
      (now + 30 * 24 * 60 * 60) now (ts_conn s) = (True, c) \<and>
    s1 = \<lparr>ts_conn = c, ts_cache = cache_put victim rid
       \<lparr>ce_hash = tokenHash dg t, ce_device = dev, ce_pair = p, ce_expires = now + 120\<rparr>
       (prune_cache now (ts_cache s))\<rparr>"
  using assms unfolding rotateRefresh_def Let_def
  by (auto split: if_splits option.splits prod.splits)

lemma rotated_spends:
  assumes "rotateRefreshToken old (tokenHash dg t) nah nae (tokenHash dg ref) nre now c = (True, c')"
    and "cn_txn c = None" and "auth_ok (cn_db c)" and "tokenHash dg ref \<noteq> tokenHash dg t"
  shows "cn_txn c' = None \<and> spent (tokenHash dg t) (history_of old (tokenHash dg t) now) (cn_db c')"
proof -
  obtain u where r: "in_txn (rotate_body old (tokenHash dg t) nah nae (tokenHash dg ref) nre now) c = (Some u, c')"
    using assms(1) unfolding rotateRefreshToken_def by (auto split: prod.splits)
  have e: "rotate_effect old (tokenHash dg t) nah nae (tokenHash dg ref) nre now (cn_db c) = Some (u, cn_db c')"
    and idle: "cn_txn c' = None"
    using rotation.atomic [OF r assms(2)] by simp_all
  note f = rotate_effect_Some [OF e]
  obtain x where x: "x \<in> set (db_auth (cn_db c))" "auth_target old (tokenHash dg t) x"
    using f count_where_0 [of "auth_target old (tokenHash dg t)" "db_auth (cn_db c)"] by auto
  have "ar_refresh y \<noteq> tokenHash dg t" if "y \<in> set (db_auth (cn_db c))" "\<not> auth_target old (tokenHash dg t) y" for y
  proof
    assume "ar_refresh y = tokenHash dg t"
    then have "ar_refresh y = ar_refresh x" using x by (simp add: auth_target_def)
    then have "y = x" using assms(3) x(1) that(1) by (auto simp: auth_ok_def distinct_map dest: inj_onD)
    then show False using x that by simp
  qed
  then have "\<forall>r \<in> set (db_auth (cn_db c')). ar_refresh r \<noteq> tokenHash dg t"
    using f assms(4) by (auto simp: set_upd_where rotated_row_def)
  then show ?thesis
    using f idle by (simp add: spent_def history_of_def filter_empty_conv)
qed

lemma replay_fails:
  assumes "spent (tokenHash dg t) row (cn_db (ts_conn s))"
    and "map_of (prune_cache now (ts_cache s)) rid = None"
    and "rotateRefresh dg toks victim io1 io2 now t dev rid r0 s = (res, uid, s')"
  shows "res = RotateFails"
proof -
  have "findByRefreshHash io1 (tokenHash dg t) (cn_db (ts_conn s)) = None"
    using assms(1) by (auto simp: findByRefreshHash_def spent_def dest!: fetch_one_in split: option.splits)
  then show ?thesis
    using assms(2,3) unfolding rotateRefresh_def Let_def by (auto split: if_splits prod.splits)
qed

lemma replay_revokes:
  assumes "spent (tokenHash dg t) row (cn_db (ts_conn s))"
    and "map_of (prune_cache now (ts_cache s)) rid = None"
    and "rotateRefresh dg toks victim io1 read_ok now t dev rid r0 s = (res, uid, s')"
    and "t \<noteq> []" "dev \<noteq> []" "rid \<noteq> []"
    and "cn_script (ts_conn s) = []" and "cn_txn (ts_conn s) = None" and "hr_family row \<noteq> []"
  shows "\<forall>r \<in> set (db_auth (cn_db (ts_conn s'))). ar_family r = cstr (hr_family row) \<longrightarrow> ar_revoked r"
proof -
  have n: "findByRefreshHash io1 (tokenHash dg t) (cn_db (ts_conn s)) = None"
    using assms(1) by (auto simp: findByRefreshHash_def spent_def dest!: fetch_one_in split: option.splits)
  have u: "wasRefreshTokenUsed read_ok (tokenHash dg t) (cn_db (ts_conn s)) = Some (hr_family row)"
    using assms(1) by (simp add: wasRefreshTokenUsed_def spent_def fetch_one_def)
  show ?thesis
    using assms n u unfolding rotateRefresh_def Let_def punish_replay_def
    by (auto simp: revokeTokenFamily_def revoke_where_def set_upd_where split: prod.splits if_splits)
qed

text \<open>
  C26: a refresh token is used once. When a refresh has rotated a token, then whatever the service
  does next and whatever fails in the database, presenting the old token again never yields tokens
  (other than a retry of the same request within its two minutes), as long as no new token has
  the same hash. When the replay's queries succeed, every session of the token's family is revoked
  and no access token of the family validates any more.
\<close>

theorem refresh_single_use:
  assumes "s = token_run dg ops0 (ts_new script)"
    and "rotateRefresh dg toks victim io1 io2 now t dev rid r0 s = (Rotated p, r1, s1)"
    and "map_of (prune_cache now (ts_cache s)) rid = None"
    and "\<forall>op \<in> set (RotateOp toks victim io1 io2 now t dev rid # ops). tokenHash dg t \<notin> writes_refresh dg op"
    and "s2 = token_run dg ops s1"
    and "rotateRefresh dg toks' victim' io1' io2' now' t dev' rid' r0' s2 = (res, uid, s3)"
    and "map_of (prune_cache now' (ts_cache s2)) rid' = None"
  shows "res = RotateFails \<and>
    (io2' = read_ok \<and> cn_script (ts_conn s2) = [] \<and> dev' \<noteq> [] \<and> rid' \<noteq> [] \<and> cstr (tp_family p) \<noteq> [] \<longrightarrow>
      (\<forall>r \<in> set (db_auth (cn_db (ts_conn s3))). ar_family r = cstr (tp_family p) \<longrightarrow> ar_revoked r) \<and>
      (\<forall>io n token sid d r. validateAccess dg io n token sid d (cn_db (ts_conn s3)) = Some r \<longrightarrow>
         ar_family r \<noteq> cstr (tp_family p)))"
proof -
  have "cn_txn (ts_conn (ts_new script)) = None \<and> auth_ok (cn_db (ts_conn (ts_new script)))"
    by (simp add: ts_new_def sconn_new_def empty_db_def auth_ok_def)
  then have "cn_txn (ts_conn s) = None \<and> auth_ok (cn_db (ts_conn s))"
    unfolding assms(1) by (rule auth_tables.idle.run_good) simp
  then have ok: "auth_ok (cn_db (ts_conn s))" "cn_txn (ts_conn s) = None"
    by simp_all
  obtain old acc ref c where f: "toks = Some (acc, ref)" "tp_family p = ar_family old" "ts_conn s1 = c"
    and rot: "rotateRefreshToken old (tokenHash dg t) (tokenHash dg acc) (now + 15 * 60) (tokenHash dg ref)
      (now + 30 * 24 * 60 * 60) now (ts_conn s) = (True, c)"
    using rotated_cases [OF assms(2,3)] by auto
  have "tokenHash dg ref \<noteq> tokenHash dg t" using assms(4) f(1) by auto
  from rotated_spends [OF rot ok(2,1) this] f(3)
  have "cn_txn (ts_conn s1) = None \<and> spent (tokenHash dg t) (history_of old (tokenHash dg t) now) (cn_db (ts_conn s1))"
    by simp
  moreover have "\<forall>op \<in> set ops. \<forall>h \<in> writes_refresh dg op. h \<noteq> tokenHash dg t"
    using assms(4) by auto
  ultimately have "cn_txn (ts_conn s2) = None \<and> spent (tokenHash dg t) (history_of old (tokenHash dg t) now) (cn_db (ts_conn s2))"
    unfolding assms(5) by (rule spent_token.idle.run_good)
  then have sp: "spent (tokenHash dg t) (history_of old (tokenHash dg t) now) (cn_db (ts_conn s2))"
    and idle: "cn_txn (ts_conn s2) = None"
    by simp_all
  have ne: "t \<noteq> []" using assms(2) by (auto simp: rotateRefresh_def)
  have fam: "hr_family (history_of old (tokenHash dg t) now) = cstr (tp_family p)"
    using f(2) by (simp add: history_of_def)
  have "\<forall>r \<in> set (db_auth (cn_db (ts_conn s3))). ar_family r = cstr (tp_family p) \<longrightarrow> ar_revoked r"
    if h: "io2' = read_ok" "cn_script (ts_conn s2) = []" "dev' \<noteq> []" "rid' \<noteq> []" "cstr (tp_family p) \<noteq> []"
    using replay_revokes [OF sp assms(7) assms(6) [unfolded h(1)] ne h(3,4,2) idle] h(5) fam by simp
  moreover have "r \<in> set (db_auth d) \<and> \<not> ar_revoked r" if "validateAccess dg io n token sid dv d = Some r"
    for io n token sid dv d r
    using that by (auto simp: validateAccess_def findByAccessHash_def split: if_splits option.splits dest: fetch_one_in)
  ultimately show ?thesis
    using replay_fails [OF sp assms(7,6)] by blast
qed

text \<open>A service in which one session was issued, with the identity for a digest.\<close>

definition demo_tokens :: token_service where
  "demo_tokens = token_run (\<lambda>x. x) [IssueOp (Some (''s'', ''f'', ''a'', ''r'')) 100 1 ''d''] (ts_new [])"

definition demo_pair :: token_pair where
  "demo_pair = \<lparr>tp_session = ''s'', tp_family = ''f'', tp_access = ''a2'', tp_refresh = ''r2'',
     tp_accessExp = 1100, tp_refreshExp = 2592200\<rparr>"

definition demo_rotated :: token_service where
  "demo_rotated =
     snd (snd (rotateRefresh (\<lambda>x. x) (Some (''a2'', ''r2'')) 0 read_ok read_ok 200 ''r'' ''d'' ''q1'' 0 demo_tokens))"

lemma demo_rotation:
  "rotateRefresh (\<lambda>x. x) (Some (''a2'', ''r2'')) 0 read_ok read_ok 200 ''r'' ''d'' ''q1'' 0 demo_tokens =
     (Rotated demo_pair, 0, demo_rotated)"
proof -
  have "fst (rotateRefresh (\<lambda>x. x) (Some (''a2'', ''r2'')) 0 read_ok read_ok 200 ''r'' ''d'' ''q1'' 0 demo_tokens) =
      Rotated demo_pair"
    and "fst (snd (rotateRefresh (\<lambda>x. x) (Some (''a2'', ''r2'')) 0 read_ok read_ok 200 ''r'' ''d'' ''q1'' 0 demo_tokens)) = 0"
    by code_simp+
  then show ?thesis unfolding demo_rotated_def by (metis prod.collapse)
qed

lemma demo_uncached: "map_of (prune_cache 200 (ts_cache demo_tokens)) ''q1'' = None"
  by code_simp

theorem refresh_single_use_witness:
  "fst (rotateRefresh (\<lambda>x. x) None 0 read_ok read_ok 300 ''r'' ''d'' ''q2'' 0 demo_rotated) = RotateFails \<and>
   list_all ar_revoked (db_auth (cn_db (ts_conn (snd (snd
     (rotateRefresh (\<lambda>x. x) None 0 read_ok read_ok 300 ''r'' ''d'' ''q2'' 0 demo_rotated))))))"
proof -
  obtain res uid s3 where r: "rotateRefresh (\<lambda>x. x) None 0 read_ok read_ok 300 ''r'' ''d'' ''q2'' 0 demo_rotated = (res, uid, s3)"
    by (cases "rotateRefresh (\<lambda>x. x) None 0 read_ok read_ok 300 ''r'' ''d'' ''q2'' 0 demo_rotated")
  have u: "map_of (prune_cache 300 (ts_cache demo_rotated)) ''q2'' = None" by code_simp
  have f: "\<forall>op \<in> set [RotateOp (Some (''a2'', ''r2'')) 0 read_ok read_ok 200 ''r'' ''d'' ''q1''].
      tokenHash (\<lambda>x. x) ''r'' \<notin> writes_refresh (\<lambda>x. x) op"
    by code_simp
  have e: "demo_rotated = token_run (\<lambda>x. x) [] demo_rotated" by (simp add: token_run_def)
  have sc: "cn_script (ts_conn demo_rotated) = []" by code_simp
  have fam: "cstr (tp_family demo_pair) = ''f''" by code_simp
  have all: "map ar_family (db_auth (cn_db (ts_conn (snd (snd
      (rotateRefresh (\<lambda>x. x) None 0 read_ok read_ok 300 ''r'' ''d'' ''q2'' 0 demo_rotated)))))) = [''f'']"
    by code_simp
  note main = refresh_single_use [OF demo_tokens_def demo_rotation demo_uncached f e r u]
  show ?thesis using main all r sc fam by (auto simp: list_all_iff map_eq_Cons_conv)
qed

section \<open>Retrying a refresh\<close>

lemma map_of_filter_first:
  "map_of xs k = Some v \<Longrightarrow> P (k, v) \<Longrightarrow> map_of (filter P xs) k = Some v"
  by (induction xs) auto

lemma map_of_drop_one: "map_of xs k = None \<Longrightarrow> map_of (take i xs @ drop j xs) k = None"
  by (auto simp: map_of_eq_None_iff dest: in_set_takeD in_set_dropD)

lemma cache_put_new: "map_of cache k = None \<Longrightarrow> map_of (cache_put victim k e cache) k = Some e"
proof -
  assume none: "map_of cache k = None"
  define room where "room = (if length cache \<ge> 1024 then take victim cache @ drop (Suc victim) cache else cache)"
  have "map_of room k = None"
    using none map_of_drop_one [OF none] by (simp add: room_def)
  then show ?thesis
    by (simp add: cache_put_def Let_def map_add_def flip: room_def)
qed

lemma cache_put_length: "length (cache_put victim k e cache) \<le> length cache + 1"
proof -
  have "length (take victim cache @ drop (Suc victim) cache) \<le> length cache"
    by (cases "victim < length cache") auto
  then show ?thesis by (simp add: cache_put_def Let_def)
qed

lemma cache_put_other:
  "map_of cache k = Some e \<Longrightarrow> length cache < 1024 \<Longrightarrow> map_of (cache_put victim k' e' cache) k = Some e"
  by (auto simp: cache_put_def)

text \<open>A cached answer stays while the cache has room and its time has not come.\<close>

fun before :: "int \<Rightarrow> token_op \<Rightarrow> bool" where
  "before limit (RotateOp toks victim io1 io2 now t dev rid) \<longleftrightarrow> now < limit"
| "before limit op \<longleftrightarrow> True"

lemma punish_cache: "punish_replay io h r s = (uid, s') \<Longrightarrow> ts_cache s' = ts_cache s"
  by (auto simp: punish_replay_def split: option.splits if_splits prod.splits)

lemma refresh_cache:
  assumes "rotateRefresh dg toks victim io1 io2 now t dev rid r0 s = (res, uid, s')"
  shows "ts_cache s' = ts_cache s \<or> ts_cache s' = prune_cache now (ts_cache s) \<or>
    (\<exists>e. ts_cache s' = cache_put victim rid e (prune_cache now (ts_cache s)))"
  using assms unfolding rotateRefresh_def Let_def
  by (auto split: if_splits option.splits prod.splits dest!: punish_cache)

lemma prune_length: "length (prune_cache now cache) \<le> length cache"
  by (simp add: prune_cache_def)

lemma prune_keeps: "map_of cache k = Some e \<Longrightarrow> now < ce_expires e \<Longrightarrow> map_of (prune_cache now cache) k = Some e"
  unfolding prune_cache_def by (rule map_of_filter_first) simp_all

lemma cached_step:
  assumes "map_of (ts_cache s) k = Some e" and "length (ts_cache s) < 1024" and "before (ce_expires e) op"
  shows "map_of (ts_cache (token_step dg op s)) k = Some e \<and>
    length (ts_cache (token_step dg op s)) \<le> length (ts_cache s) + 1"
proof (cases op)
  case (RotateOp toks victim io1 io2 now t dev rid)
  obtain res uid s' where r: "rotateRefresh dg toks victim io1 io2 now t dev rid 0 s = (res, uid, s')"
    by (cases "rotateRefresh dg toks victim io1 io2 now t dev rid 0 s")
  have p: "map_of (prune_cache now (ts_cache s)) k = Some e" "length (prune_cache now (ts_cache s)) < 1024"
    using assms RotateOp prune_keeps prune_length [of now "ts_cache s"] by simp_all
  have "length (cache_put victim rid e' (prune_cache now (ts_cache s))) \<le> length (ts_cache s) + 1" for e'
    using cache_put_length [of victim rid e' "prune_cache now (ts_cache s)"] prune_length [of now "ts_cache s"] by linarith
  then show ?thesis
    using refresh_cache [OF r] r RotateOp assms(1) p prune_length [of now "ts_cache s"] cache_put_other [OF p]
    by (elim disjE exE) (simp_all add: le_SucI)
qed (use assms in \<open>auto simp: issue_def ts_revokeSession_def revokeAllForUser_def Let_def split: option.splits prod.splits\<close>)

lemma cached_run:
  "map_of (ts_cache s) k = Some e \<Longrightarrow> length (ts_cache s) + length ops \<le> 1024 \<Longrightarrow>
   list_all (before (ce_expires e)) ops \<Longrightarrow> map_of (ts_cache (token_run dg ops s)) k = Some e"
proof (induction ops arbitrary: s)
  case (Cons op ops)
  have "map_of (ts_cache (token_step dg op s)) k = Some e \<and>
    length (ts_cache (token_step dg op s)) \<le> length (ts_cache s) + 1"
    using Cons.prems by (intro cached_step) simp_all
  then show ?case using Cons.IH [of "token_step dg op s"] Cons.prems by (simp add: token_run_def)
qed (simp add: token_run_def)

text \<open>
  Retrying a refresh. A client that lost the answer of a successful refresh and sends the same
  request again within two minutes gets the same tokens again, whatever the service did in between
  (with fewer than 1024 answers remembered) and whatever would fail in the database, which is not
  asked and does not change. The same request id with another token or device gets nothing.
\<close>

theorem refresh_retry_same_tokens:
  assumes "rotateRefresh dg toks victim io1 io2 now t dev rid r0 s = (Rotated p, r1, s1)"
    and "map_of (prune_cache now (ts_cache s)) rid = None"
    and "length (ts_cache s1) + length ops \<le> 1024" and "list_all (before (now + 120)) ops"
    and "s2 = token_run dg ops s1" and "now' < now + 120"
  shows "rotateRefresh dg toks' victim' io1' io2' now' t dev rid r0' s2 =
      (Rotated p, r0', s2\<lparr>ts_cache := prune_cache now' (ts_cache s2)\<rparr>) \<and>
    (tokenHash dg t' \<noteq> tokenHash dg t \<or> dev' \<noteq> dev \<longrightarrow>
      fst (rotateRefresh dg toks' victim' io1' io2' now' t' dev' rid r0' s2) = RotateFails)"
proof -
  define e where "e = \<lparr>ce_hash = tokenHash dg t, ce_device = dev, ce_pair = p, ce_expires = now + 120\<rparr>"
  have "map_of (ts_cache s1) rid = Some e"
    using rotated_cases [OF assms(1,2)] cache_put_new [OF assms(2)] unfolding e_def by auto
  then have "map_of (ts_cache s2) rid = Some e"
    unfolding assms(5) using assms(3,4) by (intro cached_run) (simp_all add: e_def)
  then have c: "map_of (prune_cache now' (ts_cache s2)) rid = Some e"
    using assms(6) by (intro prune_keeps) (simp_all add: e_def)
  have ne: "t \<noteq> []" "dev \<noteq> []" "rid \<noteq> []" using assms(1) by (auto simp: rotateRefresh_def)
  show ?thesis
    using c ne by (auto simp: rotateRefresh_def Let_def e_def)
qed

theorem refresh_retry_same_tokens_witness:
  "fst (rotateRefresh (\<lambda>x. x) None 0 read_ok read_ok 250 ''r'' ''d'' ''q1'' 0
     (token_run (\<lambda>x. x) [RevokeUserOp 1] demo_rotated)) = Rotated demo_pair"
proof -
  have "length (ts_cache demo_rotated) + length [RevokeUserOp 1] \<le> 1024" by code_simp
  from refresh_retry_same_tokens [OF demo_rotation demo_uncached this _ refl, of 250 None 0 read_ok read_ok 0]
  show ?thesis by simp
qed

section \<open>Access tokens\<close>

text \<open>
  An issued access token is accepted, on its device and in its session only, for five minutes,
  and for the user it was issued to; once its session or its user has been revoked it never is.
\<close>

theorem issued_token_validates:
  assumes "issue dg toks now uid dev s = (Issued p, s1)" and "cn_txn (ts_conn s) = None"
    and "cn_script (ts_conn s1) = []"
  shows "(validateAccess dg read_ok now' (tp_access p) sid dev' (cn_db (ts_conn s1)) \<noteq> None \<longleftrightarrow>
      tp_access p \<noteq> [] \<and> dev' \<noteq> [] \<and> now' < now + 300 \<and> dev' = cstr dev \<and>
      (sid = [] \<or> sid = cstr (tp_session p))) \<and>
    (\<forall>r. validateAccess dg read_ok now' (tp_access p) sid dev' (cn_db (ts_conn s1)) = Some r \<longrightarrow>
      ar_user r = uid \<and> ar_session r = cstr (tp_session p) \<and> ar_accessExp r = tp_accessExp p) \<and>
    (tp_session p \<noteq> [] \<longrightarrow>
      validateAccess dg io n (tp_access p) sid dev' (cn_db (ts_conn (ts_revokeSession (tp_session p) s1))) = None) \<and>
    (0 < uid \<longrightarrow>
      validateAccess dg io n (tp_access p) sid dev' (cn_db (ts_conn (revokeAllForUser uid s1))) = None)"
proof -
  obtain ses fam acc ref c where toks: "toks = Some (ses, fam, acc, ref)"
    and p: "p = \<lparr>tp_session = ses, tp_family = fam, tp_access = acc, tp_refresh = ref,
      tp_accessExp = now + 300, tp_refreshExp = now + 172800\<rparr>"
    and cr: "createAuthSession ses fam uid dev (tokenHash dg acc) (now + 300) (tokenHash dg ref) (now + 172800) now
        (ts_conn s) = (True, c)" and s1: "ts_conn s1 = c"
    using assms(1) by (auto simp: issue_def Let_def split: option.splits prod.splits if_splits)
  define row where "row = \<lparr>ar_session = cstr ses, ar_family = cstr fam, ar_user = uid, ar_device = cstr dev,
    ar_access = tokenHash dg acc, ar_accessExp = now + 300, ar_refresh = tokenHash dg ref,
    ar_refreshExp = now + 172800, ar_generation = 1, ar_revoked = False, ar_lastUsed = now\<rparr>"
  obtain m where m: "sq_run (insert_auth row) (ts_conn s) = (Some m, c)"
    using cr unfolding createAuthSession_def row_def by (auto split: prod.splits)
  have i: "insert_auth row (cn_db (ts_conn s)) = Some (m, cn_db c)" and idle: "cn_txn c = None"
    using run_auto [OF m assms(2)] by simp_all
  define rest where "rest = db_auth (cn_db (ts_conn s))"
  have new: "\<forall>x \<in> set rest. ar_access x \<noteq> tokenHash dg acc"
    using i by (auto simp: insert_auth_def list_ex_iff row_def rest_def split: if_splits)
  have "cn_db c = (cn_db (ts_conn s))\<lparr>db_auth := rest @ [row]\<rparr>"
    using i by (simp add: insert_auth_def rest_def split: if_splits)
  then have db: "db_auth (cn_db c) = rest @ [row]" by simp
  have one: "filter (\<lambda>r. ar_access r = tokenHash dg acc) (db_auth (cn_db c)) = [row]"
    using new db by (simp add: filter_empty_conv) (simp add: row_def)
  have first: "validateAccess dg read_ok now' acc sid dev' (cn_db c) =
      (if acc \<noteq> [] \<and> dev' \<noteq> [] \<and> now' < now + 300 \<and> dev' = cstr dev \<and> (sid = [] \<or> sid = cstr ses)
       then Some row else None)"
    unfolding validateAccess_def findByAccessHash_def using one
    by (auto simp: fetch_one_def row_def)
  have gone: "validateAccess dg io n acc sid dev' d = None"
    if "db_auth d = upd_where Q (\<lambda>x. x\<lparr>ar_revoked := True\<rparr>) (rest @ [row])" "Q row" for d Q
  proof -
    have "filter (\<lambda>r. ar_access r = tokenHash dg acc) (db_auth d) = [row\<lparr>ar_revoked := True\<rparr>]"
      using new that by (auto simp: upd_where_def filter_empty_conv row_def)
    then show ?thesis
      unfolding validateAccess_def findByAccessHash_def
      by (auto dest!: fetch_one_in split: option.splits)
  qed
  have script: "cn_script c = []" using assms(3) s1 by simp
  have "validateAccess dg io n acc sid dev' (cn_db (db_revokeSession ses c)) = None"
    by (rule gone [of _ "\<lambda>x. ar_session x = cstr ses"])
       (simp_all add: db_revokeSession_def script idle revoke_where_def db row_def)
  moreover have "validateAccess dg io n acc sid dev' (cn_db (revokeAllUserSessions uid c)) = None"
    by (rule gone [of _ "\<lambda>x. ar_user x = uid"])
       (simp_all add: revokeAllUserSessions_def script idle revoke_where_def db row_def)
  ultimately show ?thesis
    using first p s1 by (auto simp: ts_revokeSession_def revokeAllForUser_def row_def)
qed

theorem issued_token_validates_witness:
  "validateAccess (\<lambda>x. x) read_ok 150 ''a'' ''s'' ''d'' (cn_db (ts_conn demo_tokens)) \<noteq> None"
proof -
  have i: "issue (\<lambda>x. x) (Some (''s'', ''f'', ''a'', ''r'')) 100 1 ''d'' (ts_new []) =
      (Issued \<lparr>tp_session = ''s'', tp_family = ''f'', tp_access = ''a'', tp_refresh = ''r'',
         tp_accessExp = 400, tp_refreshExp = 172900\<rparr>, demo_tokens)"
  proof -
    have "fst (issue (\<lambda>x. x) (Some (''s'', ''f'', ''a'', ''r'')) 100 1 ''d'' (ts_new [])) =
      Issued \<lparr>tp_session = ''s'', tp_family = ''f'', tp_access = ''a'', tp_refresh = ''r'',
         tp_accessExp = 400, tp_refreshExp = 172900\<rparr>" by code_simp
    then show ?thesis by (simp add: demo_tokens_def token_run_def prod_eq_iff)
  qed
  have "cn_txn (ts_conn (ts_new [])) = None" "cn_script (ts_conn demo_tokens) = []" by code_simp+
  from issued_token_validates [OF i this, of 150 "''s''" "''d''"] show ?thesis by (simp add: cstr_def)
qed

end
