(* ===== verification/UploadStore.thy ===== *)
theory UploadStore
  imports ServerDb
begin

text \<open>
  The resumable uploads and the media objects of the server (\<^verbatim>\<open>Database.cpp\<close>,
  \<^verbatim>\<open>findMediaObject\<close> and \<^verbatim>\<open>createUploadSession\<close> to \<^verbatim>\<open>registerMediaObject\<close>). Whether a file
  exists is a parameter. \<open>us_state\<close> is the text of the column: only the three values of
  \<open>upload_state\<close> are ever written.
\<close>

section \<open>Operations\<close>

definition upload_row :: "string \<Rightarrow> server_db \<Rightarrow> upload_session option" where
  "upload_row uid d = find (\<lambda>u. us_id u = cstr uid) (db_uploads d)"

definition insert_upload :: "upload_session \<Rightarrow> server_db \<Rightarrow> (nat \<times> server_db) option" where
  "insert_upload s d =
     (if list_ex (\<lambda>u. us_id u = cstr (us_id s)) (db_uploads d) then None
      else Some (1, d\<lparr>db_uploads := db_uploads d @
             [s\<lparr>us_id := cstr (us_id s), us_device := cstr (us_device s), us_fileName := cstr (us_fileName s),
                us_sha256 := cstr (us_sha256 s), us_contentType := cstr (us_contentType s),
                us_tmpPath := cstr (us_tmpPath s), us_state := UpOpen, us_fileId := []\<rparr>]\<rparr>))"

definition createUploadSession :: "upload_session \<Rightarrow> sconn \<Rightarrow> bool \<times> sconn" where
  "createUploadSession s c =
     (if us_id s = [] \<or> us_uploader s \<le> 0 \<or> us_receiver s \<le> 0 \<or> us_fileSize s \<le> 0 \<or>
         us_chunkSize s \<le> 0 \<or> us_chunkCount s \<le> 0 \<or> length (us_sha256 s) \<noteq> 64 then (False, c)
      else case sq_run (insert_upload s) c of (r, c) \<Rightarrow> (r \<noteq> None, c))"

definition findOpenUploadSession ::
  "read_io \<Rightarrow> int \<Rightarrow> string \<Rightarrow> int \<Rightarrow> string \<Rightarrow> int \<Rightarrow> server_db \<Rightarrow> upload_session option" where
  "findOpenUploadSession io up dev rcv sha sz d =
     (if up \<le> 0 \<or> rcv \<le> 0 \<or> length sha \<noteq> 64 \<or> sz \<le> 0 then None
      else fetch_one io (sort_key (\<lambda>u. - us_created u)
        (filter (\<lambda>u. us_uploader u = up \<and> us_device u = cstr dev \<and> us_receiver u = rcv \<and>
                     us_sha256 u = cstr sha \<and> us_fileSize u = sz \<and> us_state u = UpOpen) (db_uploads d))))"

definition getUploadSession :: "read_io \<Rightarrow> string \<Rightarrow> server_db \<Rightarrow> upload_session option" where
  "getUploadSession io uid d =
     (if uid = [] then None else fetch_one io (filter (\<lambda>u. us_id u = cstr uid) (db_uploads d)))"

datatype chunk_result = ChunkStored | ChunkDuplicate | ChunkConflict | ChunkRejected

definition chunk_digest :: "string \<Rightarrow> int \<Rightarrow> server_db \<Rightarrow> string option" where
  "chunk_digest uid i d =
     map_option ck_sha256 (find (\<lambda>k. ck_upload k = cstr uid \<and> ck_index k = i) (db_chunks d))"

definition insert_chunk :: "string \<Rightarrow> int \<Rightarrow> int \<Rightarrow> string \<Rightarrow> server_db \<Rightarrow> (nat \<times> server_db) option" where
  "insert_chunk uid i sz sha d =
     (if chunk_digest uid i d \<noteq> None then None
      else Some (1, d\<lparr>db_chunks := db_chunks d @
             [\<lparr>ck_upload = cstr uid, ck_index = i, ck_size = sz, ck_sha256 = cstr sha\<rparr>]\<rparr>))"

definition storeUploadChunk :: "int \<Rightarrow> string \<Rightarrow> int \<Rightarrow> int \<Rightarrow> string \<Rightarrow> sconn \<Rightarrow> chunk_result \<times> sconn" where
  "storeUploadChunk now uid i sz sha c =
     (if uid = [] \<or> i < 0 \<or> sz \<le> 0 \<or> length sha \<noteq> 64 then (ChunkRejected, c)
      else case sq_query (upload_row uid) c of
        (Some (Some u), c) \<Rightarrow>
          if us_state u \<noteq> UpOpen \<or> us_expires u < now then (ChunkRejected, c)
          else (case sq_query (chunk_digest uid i) c of
             (None, c) \<Rightarrow> (ChunkRejected, c)
           | (Some (Some e), c) \<Rightarrow> (if e = sha then ChunkDuplicate else ChunkConflict, c)
           | (Some None, c) \<Rightarrow>
               (case sq_run (insert_chunk uid i sz sha) c of
                  (None, c) \<Rightarrow> (ChunkRejected, c)
                | (Some _, c) \<Rightarrow> (ChunkStored, c)))
      | (_, c) \<Rightarrow> (ChunkRejected, c))"

text \<open>The result and the list that is filled in.\<close>

definition listUploadChunkIndices :: "read_io \<Rightarrow> string \<Rightarrow> server_db \<Rightarrow> bool \<times> int list" where
  "listUploadChunkIndices io uid d =
     (if uid = [] \<or> \<not> rd_prepared io then (False, [])
      else (True, fetched io (sort (map ck_index (filter (\<lambda>k. ck_upload k = cstr uid) (db_chunks d))))))"

definition set_upload_state :: "string \<Rightarrow> upload_state \<Rightarrow> string option \<Rightarrow> server_db \<Rightarrow> (nat \<times> server_db) option" where
  "set_upload_state uid st fid d =
     (let P = (\<lambda>u. us_id u = cstr uid \<and> us_state u = UpOpen)
      in Some (count_where P (db_uploads d),
               d\<lparr>db_uploads := upd_where P
                   (\<lambda>u. u\<lparr>us_state := st, us_fileId := (case fid of None \<Rightarrow> us_fileId u | Some f \<Rightarrow> cstr f)\<rparr>)
                   (db_uploads d)\<rparr>))"

text \<open>The result and the file id of an earlier finalization.\<close>

definition finalizeUploadSession :: "string \<Rightarrow> string \<Rightarrow> sconn \<Rightarrow> bool \<times> string \<times> sconn" where
  "finalizeUploadSession uid fid c =
     (if uid = [] \<or> fid = [] then (False, [], c)
      else case sq_query (upload_row uid) c of
        (Some (Some u), c) \<Rightarrow>
          if us_state u = UpFinalized then (True, us_fileId u, c)
          else if us_state u \<noteq> UpOpen then (False, [], c)
          else (case sq_run (set_upload_state uid UpFinalized (Some fid)) c of
             (r, c) \<Rightarrow> (r = Some 1, [], c))
      | (_, c) \<Rightarrow> (False, [], c))"

definition cancelUploadSession :: "string \<Rightarrow> sconn \<Rightarrow> bool \<times> sconn" where
  "cancelUploadSession uid c =
     (if uid = [] then (False, c)
      else case sq_query (upload_row uid) c of
        (Some (Some u), c) \<Rightarrow>
          if us_state u = UpCancelled then (True, c)
          else if us_state u \<noteq> UpOpen then (False, c)
          else (case sq_run (set_upload_state uid UpCancelled None) c of (r, c) \<Rightarrow> (r = Some 1, c))
      | (_, c) \<Rightarrow> (False, c))"

definition listExpiredUploadSessions :: "read_io \<Rightarrow> int \<Rightarrow> server_db \<Rightarrow> bool \<times> upload_session list" where
  "listExpiredUploadSessions io now d =
     (rd_prepared io,
      fetched io (filter (\<lambda>u. us_expires u < now \<and> (us_state u = UpOpen \<or> us_state u = UpCancelled)) (db_uploads d)))"

definition delete_chunks :: "string \<Rightarrow> server_db \<Rightarrow> (nat \<times> server_db) option" where
  "delete_chunks uid d =
     (let P = (\<lambda>k. ck_upload k = cstr uid)
      in Some (count_where P (db_chunks d), d\<lparr>db_chunks := filter (\<lambda>k. \<not> P k) (db_chunks d)\<rparr>))"

definition delete_upload :: "string \<Rightarrow> server_db \<Rightarrow> (nat \<times> server_db) option" where
  "delete_upload uid d =
     (let P = (\<lambda>u. us_id u = cstr uid)
      in Some (count_where P (db_uploads d), d\<lparr>db_uploads := filter (\<lambda>u. \<not> P u) (db_uploads d)\<rparr>))"

definition deleteUploadSession :: "string \<Rightarrow> sconn \<Rightarrow> bool \<times> sconn" where
  "deleteUploadSession uid c =
     (if uid = [] then (False, c)
      else case sq_run (delete_chunks uid) c of
        (None, c) \<Rightarrow> (False, c)
      | (Some _, c) \<Rightarrow> (case sq_run (delete_upload uid) c of (r, c) \<Rightarrow> (r \<noteq> None, c)))"

definition insert_media :: "string \<Rightarrow> int \<Rightarrow> string \<Rightarrow> string \<Rightarrow> server_db \<Rightarrow> (nat \<times> server_db) option" where
  "insert_media sha sz path ctype d =
     (if list_ex (\<lambda>m. mo_sha256 m = cstr sha \<and> mo_size m = sz) (db_media d) then Some (0, d)
      else Some (1, d\<lparr>db_media := db_media d @
             [\<lparr>mo_sha256 = cstr sha, mo_size = sz, mo_path = cstr path, mo_contentType = cstr ctype\<rparr>]\<rparr>))"

definition registerMediaObject :: "string \<Rightarrow> int \<Rightarrow> string \<Rightarrow> string \<Rightarrow> sconn \<Rightarrow> bool \<times> sconn" where
  "registerMediaObject sha sz path ctype c =
     (if length sha \<noteq> 64 \<or> sz \<le> 0 \<or> path = [] then (False, c)
      else case sq_run (insert_media sha sz path ctype) c of (r, c) \<Rightarrow> (r \<noteq> None, c))"

text \<open>What the fallback query selects of a message: the path and the content type.\<close>

definition media_match :: "string \<Rightarrow> int \<Rightarrow> stored_message \<Rightarrow> bool" where
  "media_match sha sz m \<longleftrightarrow>
     (sm_sha256 m = cstr sha \<and> sm_fileSize m = sz) \<or>
     (sm_thumbSha256 m = cstr sha \<and> sm_thumbSize m = sz) \<or>
     (sm_largeSha256 m = cstr sha \<and> sm_largeSize m = sz)"

definition media_columns :: "string \<Rightarrow> stored_message \<Rightarrow> string \<times> string" where
  "media_columns sha m =
     (if sm_sha256 m = cstr sha then sm_mediaPath m
      else if sm_thumbSha256 m = cstr sha then sm_thumbPath m else sm_largePath m,
      if sm_sha256 m = cstr sha then sm_contentType m else ''image/avif'')"

definition media_from_messages ::
  "(string \<Rightarrow> bool) \<Rightarrow> read_io \<Rightarrow> string \<Rightarrow> int \<Rightarrow> server_db \<Rightarrow> media_row option" where
  "media_from_messages exists io sha sz d =
     (case fetch_one io (filter (media_match sha sz) (map mr_msg (db_messages d))) of
        None \<Rightarrow> None
      | Some r \<Rightarrow>
          (case media_columns sha r of (path, ctype) \<Rightarrow>
             if path \<noteq> [] \<and> exists path
             then Some \<lparr>mo_sha256 = sha, mo_size = sz, mo_path = path, mo_contentType = ctype\<rparr>
             else None))"

definition findMediaObject ::
  "(string \<Rightarrow> bool) \<Rightarrow> read_io \<Rightarrow> read_io \<Rightarrow> string \<Rightarrow> int \<Rightarrow> server_db \<Rightarrow> media_row option" where
  "findMediaObject exists io1 io2 sha sz d =
     (if length sha \<noteq> 64 \<or> sz \<le> 0 then None
      else case fetch_one io1 (filter (\<lambda>m. mo_sha256 m = cstr sha \<and> mo_size m = sz) (db_media d)) of
          Some m \<Rightarrow>
            if mo_path m \<noteq> [] \<and> exists (mo_path m)
            then Some \<lparr>mo_sha256 = sha, mo_size = sz, mo_path = mo_path m, mo_contentType = mo_contentType m\<rparr>
            else media_from_messages exists io2 sha sz d
        | None \<Rightarrow> media_from_messages exists io2 sha sz d)"

section \<open>Sequences of operations\<close>

datatype upload_op =
  CreateUpload upload_session | StoreChunk int string int int string | FinalizeUpload string string
| CancelUpload string | DeleteUpload string | RegisterMedia string int string string

fun upload_step :: "upload_op \<Rightarrow> sconn \<Rightarrow> sconn" where
  "upload_step (CreateUpload s) c = snd (createUploadSession s c)"
| "upload_step (StoreChunk now uid i sz sha) c = snd (storeUploadChunk now uid i sz sha c)"
| "upload_step (FinalizeUpload uid fid) c = snd (snd (finalizeUploadSession uid fid c))"
| "upload_step (CancelUpload uid) c = snd (cancelUploadSession uid c)"
| "upload_step (DeleteUpload uid) c = snd (deleteUploadSession uid c)"
| "upload_step (RegisterMedia sha sz path ctype) c = snd (registerMediaObject sha sz path ctype c)"

definition upload_run :: "upload_op list \<Rightarrow> sconn \<Rightarrow> sconn" where
  "upload_run ops c = fold upload_step ops c"

text \<open>The table operations an operation can perform.\<close>

fun op_effects :: "upload_op \<Rightarrow> (server_db \<Rightarrow> (nat \<times> server_db) option) list" where
  "op_effects (CreateUpload s) = [insert_upload s]"
| "op_effects (StoreChunk now uid i sz sha) = [insert_chunk uid i sz sha]"
| "op_effects (FinalizeUpload uid fid) = [set_upload_state uid UpFinalized (Some fid)]"
| "op_effects (CancelUpload uid) = [set_upload_state uid UpCancelled None]"
| "op_effects (DeleteUpload uid) = [delete_chunks uid, delete_upload uid]"
| "op_effects (RegisterMedia sha sz path ctype) = [insert_media sha sz path ctype]"

lemma upload_step_keeps:
  assumes "conn_ok P c" and "\<forall>f \<in> set (op_effects op). keeps P f"
  shows "conn_ok P (upload_step op c)"
  using assms
  by (cases op)
     (auto simp: createUploadSession_def storeUploadChunk_def finalizeUploadSession_def cancelUploadSession_def
        deleteUploadSession_def registerMediaObject_def split: prod.split option.split
        dest: conn_ok_query conn_ok_run)

lemma upload_run_keeps:
  assumes "conn_ok P c" and "\<And>op. op \<in> set ops \<Longrightarrow> \<forall>f \<in> set (op_effects op). keeps P f"
  shows "conn_ok P (upload_run ops c)"
  using assms
  by (induction ops arbitrary: c) (auto simp: upload_run_def intro: upload_step_keeps)

lemma upload_step_idle: "cn_txn c = None \<Longrightarrow> cn_txn (upload_step op c) = None"
  by (cases op)
     (auto simp: createUploadSession_def storeUploadChunk_def finalizeUploadSession_def cancelUploadSession_def
        deleteUploadSession_def registerMediaObject_def split: prod.split option.split
        dest: query_idle run_idle)

lemma upload_run_idle: "cn_txn c = None \<Longrightarrow> cn_txn (upload_run ops c) = None"
  by (induction ops arbitrary: c) (simp_all add: upload_run_def upload_step_idle)

section \<open>What the operations keep\<close>

text \<open>One session per id, and one digest per chunk, as it was bound.\<close>

definition uploads_ok :: "server_db \<Rightarrow> bool" where
  "uploads_ok d \<longleftrightarrow> distinct (map us_id (db_uploads d)) \<and>
     distinct (map (\<lambda>k. (ck_upload k, ck_index k)) (db_chunks d)) \<and>
     (\<forall>k \<in> set (db_chunks d). cstr (ck_sha256 k) = ck_sha256 k)"

lemma chunk_digest_None:
  "chunk_digest uid i d = None \<longleftrightarrow> (cstr uid, i) \<notin> (\<lambda>k. (ck_upload k, ck_index k)) ` set (db_chunks d)"
  by (force simp: chunk_digest_def find_None_iff)

lemma uploads_ok_keeps: "\<forall>f \<in> set (op_effects op). keeps uploads_ok f"
  by (cases op)
     (auto simp: keeps_def uploads_ok_def insert_upload_def insert_chunk_def set_upload_state_def delete_chunks_def
        delete_upload_def insert_media_def Let_def list_ex_iff map_upd_where_id distinct_map_filter
        chunk_digest_None split: if_splits)

text \<open>Only a deletion of the same upload removes its rows.\<close>

definition no_deletion :: "string \<Rightarrow> upload_op list \<Rightarrow> bool" where
  "no_deletion uid ops \<longleftrightarrow> list_all (\<lambda>op. case op of DeleteUpload v \<Rightarrow> cstr v \<noteq> cstr uid | _ \<Rightarrow> True) ops"

lemma upload_row_state:
  assumes "set_upload_state uid' st fid d = Some (n, d')"
  shows "upload_row uid d' = map_option (\<lambda>u. if us_id u = cstr uid' \<and> us_state u = UpOpen
     then u\<lparr>us_state := st, us_fileId := (case fid of None \<Rightarrow> us_fileId u | Some f \<Rightarrow> cstr f)\<rparr> else u) (upload_row uid d)"
  using assms by (auto simp: set_upload_state_def upload_row_def Let_def find_upd_where)

text \<open>A row that is not open is frozen, and so is the digest of a chunk.\<close>

lemma frozen_state_keeps:
  "us_state u \<noteq> UpOpen \<Longrightarrow> keeps (\<lambda>d. upload_row uid d = Some u) (set_upload_state uid' st fid)"
  by (rule keepsI) (simp add: upload_row_state)

lemma frozen_keeps:
  assumes "us_state u \<noteq> UpOpen" and "case op of DeleteUpload v \<Rightarrow> cstr v \<noteq> cstr uid | _ \<Rightarrow> True"
  shows "\<forall>f \<in> set (op_effects op). keeps (\<lambda>d. upload_row uid d = Some u) f"
proof (cases op)
  case (DeleteUpload v)
  then have "find (\<lambda>u. us_id u = cstr uid) (filter (\<lambda>u. us_id u \<noteq> cstr v) xs) = find (\<lambda>u. us_id u = cstr uid) xs"
    for xs :: "upload_session list"
    using assms(2) by (intro find_filter_other) auto
  then show ?thesis
    using DeleteUpload by (auto simp: keeps_def upload_row_def delete_chunks_def delete_upload_def Let_def)
next
  case (FinalizeUpload v fid)
  then show ?thesis using assms(1) by (simp add: frozen_state_keeps)
next
  case (CancelUpload v)
  then show ?thesis using assms(1) by (simp add: frozen_state_keeps)
qed (auto simp: keeps_def upload_row_def insert_upload_def insert_chunk_def insert_media_def Let_def
       find_append split: if_splits)

lemma digest_keeps:
  assumes "case op of DeleteUpload v \<Rightarrow> cstr v \<noteq> cstr uid | _ \<Rightarrow> True"
  shows "\<forall>f \<in> set (op_effects op). keeps (\<lambda>d. chunk_digest uid i d = Some e) f"
proof (cases op)
  case (DeleteUpload v)
  then have "find (\<lambda>k. ck_upload k = cstr uid \<and> ck_index k = i) (filter (\<lambda>k. ck_upload k \<noteq> cstr v) xs) =
      find (\<lambda>k. ck_upload k = cstr uid \<and> ck_index k = i) xs" for xs :: "chunk_row list"
    using assms by (intro find_filter_other) auto
  then show ?thesis
    using DeleteUpload by (simp add: keeps_def chunk_digest_def delete_chunks_def delete_upload_def Let_def)
qed (auto simp: keeps_def set_upload_state_def insert_upload_def insert_chunk_def
        insert_media_def Let_def chunk_digest_def find_append split: if_splits)

lemma no_deletion_op:
  "no_deletion uid ops \<Longrightarrow> op \<in> set ops \<Longrightarrow> case op of DeleteUpload v \<Rightarrow> cstr v \<noteq> cstr uid | _ \<Rightarrow> True"
  by (auto simp: no_deletion_def list_all_iff)

lemma frozen_run:
  assumes "cn_txn c = None" and "upload_row uid (cn_db c) = Some u" and "us_state u \<noteq> UpOpen"
    and "no_deletion uid ops"
  shows "upload_row uid (cn_db (upload_run ops c)) = Some u"
proof -
  have "conn_ok (\<lambda>d. upload_row uid d = Some u) (upload_run ops c)"
    using assms(1,2)
    by (intro upload_run_keeps frozen_keeps [OF assms(3)] no_deletion_op [OF assms(4)]) (simp_all add: conn_ok_def)
  then show ?thesis by (simp add: conn_ok_def)
qed

lemma digest_run:
  assumes "cn_txn c = None" and "chunk_digest uid i (cn_db c) = Some e" and "no_deletion uid ops"
  shows "chunk_digest uid i (cn_db (upload_run ops c)) = Some e"
proof -
  have "conn_ok (\<lambda>d. chunk_digest uid i d = Some e) (upload_run ops c)"
    using assms(1,2)
    by (intro upload_run_keeps digest_keeps no_deletion_op [OF assms(3)]) (simp_all add: conn_ok_def)
  then show ?thesis by (simp add: conn_ok_def)
qed

section \<open>Results\<close>

lemma finalize_cases:
  assumes "finalizeUploadSession uid fid c = (True, old, c1)" and "cn_txn c = None"
  shows "\<exists>u0. upload_row uid (cn_db c) = Some u0 \<and>
    (us_state u0 = UpFinalized \<and> old = us_fileId u0 \<and> upload_row uid (cn_db c1) = Some u0 \<or>
     us_state u0 = UpOpen \<and> old = [] \<and>
     upload_row uid (cn_db c1) = Some (u0\<lparr>us_state := UpFinalized, us_fileId := cstr fid\<rparr>)) \<and>
    cn_txn c1 = None"
proof -
  obtain q c2 where q: "sq_query (upload_row uid) c = (q, c2)" by (cases "sq_query (upload_row uid) c")
  obtain u0 where u0: "q = Some (Some u0)"
    using assms(1) q by (auto simp: finalizeUploadSession_def split: if_splits option.splits)
  have c2: "upload_row uid (cn_db c) = Some u0" "cn_db c2 = cn_db c" "cn_txn c2 = None"
    using query_fields [OF q] assms(2) u0 by auto
  have id: "us_id u0 = cstr uid" using find_SomeD [OF c2(1) [unfolded upload_row_def]] by simp
  show ?thesis
  proof (cases "us_state u0 = UpFinalized")
    case True
    then show ?thesis using assms(1) q u0 c2 by (auto simp: finalizeUploadSession_def split: if_splits)
  next
    case False
    obtain r c3 where r: "sq_run (set_upload_state uid UpFinalized (Some fid)) c2 = (r, c3)"
      by (cases "sq_run (set_upload_state uid UpFinalized (Some fid)) c2")
    have o: "us_state u0 = UpOpen" "r = Some 1" "old = []" "c1 = c3"
      using assms(1) q u0 False r by (auto simp: finalizeUploadSession_def split: if_splits)
    have "set_upload_state uid UpFinalized (Some fid) (cn_db c2) = Some (1, cn_db c3)" "cn_txn c3 = None"
      using run_auto [OF r c2(3)] o(2) by simp_all
    then have "upload_row uid (cn_db c3) = Some (u0\<lparr>us_state := UpFinalized, us_fileId := cstr fid\<rparr>)"
      "cn_txn c3 = None"
      using upload_row_state [of uid UpFinalized "Some fid" "cn_db c2" 1 "cn_db c3"] c2 id o(1) by simp_all
    then show ?thesis using c2 o by simp
  qed
qed

text \<open>What the operations say of a finalized upload.\<close>

lemma finalized_results:
  assumes u: "upload_row uid (cn_db c) = Some u" "us_state u = UpFinalized" and idle: "cn_txn c = None"
  shows "finalizeUploadSession uid fid c = (b, old, c1) \<Longrightarrow> cn_db c1 = cn_db c \<and> (b \<longrightarrow> old = us_fileId u)"
    and "cancelUploadSession uid c = (b', c2) \<Longrightarrow> \<not> b' \<and> cn_db c2 = cn_db c"
    and "storeUploadChunk now uid i sz sha c = (r, c3) \<Longrightarrow> r = ChunkRejected \<and> cn_db c3 = cn_db c"
proof -
  have *: "sq_query (upload_row uid) c = (q, c') \<Longrightarrow> cn_db c' = cn_db c \<and> (q = None \<or> q = Some None \<or> q = Some (Some u))"
    for q c'
    using query_fields [of "upload_row uid" c q c'] u(1) idle by (cases q) (auto, metis not_None_eq)
  obtain q c' where q: "sq_query (upload_row uid) c = (q, c')" by (cases "sq_query (upload_row uid) c")
  note ** = * [OF q]
  show "finalizeUploadSession uid fid c = (b, old, c1) \<Longrightarrow> cn_db c1 = cn_db c \<and> (b \<longrightarrow> old = us_fileId u)"
    using ** q u(2) by (auto simp: finalizeUploadSession_def split: if_splits)
  show "cancelUploadSession uid c = (b', c2) \<Longrightarrow> \<not> b' \<and> cn_db c2 = cn_db c"
    using ** q u(2) by (auto simp: cancelUploadSession_def split: if_splits)
  show "storeUploadChunk now uid i sz sha c = (r, c3) \<Longrightarrow> r = ChunkRejected \<and> cn_db c3 = cn_db c"
    using ** q u(2) by (auto simp: storeUploadChunk_def split: if_splits)
qed

text \<open>
  An upload is finalized once. Once a finalization has reported success, the session stays
  finalized under its file id until it is deleted, whatever operations come and whatever fails:
  finalizing again reports that id and nothing else, it cannot be cancelled, and no chunk is accepted.
\<close>

theorem upload_finalized_once:
  assumes "finalizeUploadSession uid fid c = (True, old, c1)" and "cn_txn c = None"
    and "no_deletion uid ops" and "c2 = upload_run ops c1"
  shows "\<exists>u. upload_row uid (cn_db c2) = Some u \<and> us_state u = UpFinalized \<and>
    us_fileId u = (if map_option us_state (upload_row uid (cn_db c)) = Some UpFinalized then old else cstr fid) \<and>
    (\<forall>fid' b old' c3. finalizeUploadSession uid fid' c2 = (b, old', c3) \<longrightarrow>
        cn_db c3 = cn_db c2 \<and> (b \<longrightarrow> old' = us_fileId u)) \<and>
    (\<forall>b c3. cancelUploadSession uid c2 = (b, c3) \<longrightarrow> \<not> b \<and> cn_db c3 = cn_db c2) \<and>
    (\<forall>now i sz sha r c3. storeUploadChunk now uid i sz sha c2 = (r, c3) \<longrightarrow>
        r = ChunkRejected \<and> cn_db c3 = cn_db c2)"
proof -
  obtain u0 u where u0: "upload_row uid (cn_db c) = Some u0" and u: "upload_row uid (cn_db c1) = Some u"
    and st: "us_state u = UpFinalized" and idle: "cn_txn c1 = None"
    and f: "us_fileId u = (if us_state u0 = UpFinalized then old else cstr fid)"
    using finalize_cases [OF assms(1,2)] by auto
  have "upload_row uid (cn_db c2) = Some u" "cn_txn c2 = None"
    using frozen_run [OF idle u _ assms(3)] upload_run_idle [OF idle] st assms(4) by simp_all
  note c2 = this(1) st this(2)
  have f': "us_fileId u =
      (if map_option us_state (upload_row uid (cn_db c)) = Some UpFinalized then old else cstr fid)"
    using f u0 by simp
  show ?thesis
    using finalized_results [OF c2] c2(1) st f' by (intro exI [of _ u] conjI allI impI) (assumption | blast)+
qed

text \<open>A stored chunk against what a later store of the same chunk answers.\<close>

lemma store_result:
  assumes "storeUploadChunk now uid i sz sha c = (r, c1)" and "cn_txn c = None"
  shows "cn_txn c1 = None \<and>
    (case r of
       ChunkStored \<Rightarrow> chunk_digest uid i (cn_db c) = None \<and> chunk_digest uid i (cn_db c1) = Some (cstr sha)
     | ChunkDuplicate \<Rightarrow> cn_db c1 = cn_db c \<and> chunk_digest uid i (cn_db c) = Some sha
     | ChunkConflict \<Rightarrow> cn_db c1 = cn_db c \<and> chunk_digest uid i (cn_db c) \<noteq> None \<and> chunk_digest uid i (cn_db c) \<noteq> Some sha
     | ChunkRejected \<Rightarrow> cn_db c1 = cn_db c)"
proof -
  have new: "chunk_digest uid i d = None \<and> chunk_digest uid i d' = Some (cstr sha)"
    if "insert_chunk uid i sz sha d = Some (n, d')" for n d d'
    using that by (auto simp: insert_chunk_def chunk_digest_def find_append split: if_splits)
  show ?thesis
    using assms
    by (auto simp: storeUploadChunk_def split: if_splits prod.splits option.splits
        dest!: query_fields run_auto new)
qed

text \<open>
  Resuming an upload. In every state that operations reach from an empty database, the chunk
  list a client resumes from is sorted and without repetition. A chunk that was accepted stays
  listed with its digest until the session is deleted, and sending it again never stores it a second
  time: it is a duplicate with the same digest and a conflict with another one, or rejected.
\<close>

theorem upload_resume_correct:
  assumes "c = upload_run ops0 (sconn_new empty_db script)"
    and "storeUploadChunk now uid i sz sha c = (r, c1)" and "r \<in> {ChunkStored, ChunkDuplicate}"
    and "no_deletion uid ops" and "c2 = upload_run ops c1"
  shows "chunk_digest uid i (cn_db c2) = Some (cstr sha) \<and>
    i \<in> set (snd (listUploadChunkIndices read_ok uid (cn_db c2))) \<and>
    sorted (snd (listUploadChunkIndices read_ok uid (cn_db c2))) \<and>
    distinct (snd (listUploadChunkIndices read_ok uid (cn_db c2))) \<and>
    (\<forall>now' sz' sha' r' c3. storeUploadChunk now' uid i sz' sha' c2 = (r', c3) \<longrightarrow>
       cn_db c3 = cn_db c2 \<and> r' \<in> {ChunkRejected, if sha' = cstr sha then ChunkDuplicate else ChunkConflict})"
proof -
  have "conn_ok uploads_ok (sconn_new empty_db script)"
    by (simp add: conn_ok_def sconn_new_def uploads_ok_def empty_db_def)
  then have ok: "conn_ok uploads_ok c"
    unfolding assms(1) by (intro upload_run_keeps uploads_ok_keeps)
  have idle: "cn_txn c = None"
    unfolding assms(1) by (rule upload_run_idle) (simp add: sconn_new_def)
  have c1: "c1 = upload_step (StoreChunk now uid i sz sha) c" using assms(2) by simp
  have "conn_ok uploads_ok c2"
    unfolding assms(5) c1 using ok by (intro upload_run_keeps upload_step_keeps uploads_ok_keeps)
  then have ok2: "uploads_ok (cn_db c2)" by (simp add: conn_ok_def)
  have idle1: "cn_txn c1 = None" unfolding c1 using idle by (rule upload_step_idle)
  have "cstr e = e" if "chunk_digest uid i (cn_db c) = Some e" for e
    using that ok by (auto simp: chunk_digest_def conn_ok_def uploads_ok_def dest!: find_SomeD)
  then have d1: "chunk_digest uid i (cn_db c1) = Some (cstr sha)"
    using store_result [OF assms(2) idle] assms(3) by (auto split: chunk_result.splits)
  have ne: "uid \<noteq> []" using assms(2,3) by (auto simp: storeUploadChunk_def)
  have d: "chunk_digest uid i (cn_db c2) = Some (cstr sha)" and idle2: "cn_txn c2 = None"
    using digest_run [OF idle1 d1 assms(4)] upload_run_idle [OF idle1] assms(5) by simp_all
  define ks where "ks = filter (\<lambda>k. ck_upload k = cstr uid) (db_chunks (cn_db c2))"
  have l: "snd (listUploadChunkIndices read_ok uid (cn_db c2)) = sort (map ck_index ks)"
    using ne by (simp add: listUploadChunkIndices_def ks_def read_ok_def fetched_def)
  have "distinct (map (\<lambda>k. (ck_upload k, ck_index k)) ks)"
    using ok2 by (simp add: uploads_ok_def ks_def distinct_map_filter)
  then have "distinct (map ck_index ks)"
    by (auto simp: distinct_map inj_on_def ks_def)
  moreover have "i \<in> set (map ck_index ks)"
    using d by (auto simp: chunk_digest_def ks_def dest!: find_SomeD)
  moreover have "cn_db c3 = cn_db c2 \<and> r' \<in> {ChunkRejected, if sha' = cstr sha then ChunkDuplicate else ChunkConflict}"
    if "storeUploadChunk now' uid i sz' sha' c2 = (r', c3)" for now' sz' sha' r' c3
    using store_result [OF that idle2] d by (auto split: chunk_result.splits)
  ultimately show ?thesis using d l by auto
qed

definition photo_upload :: "string \<Rightarrow> upload_session" where
  "photo_upload uid = \<lparr>us_id = uid, us_uploader = 1, us_device = ''d'', us_receiver = 2, us_fileName = ''f'',
     us_fileSize = 8, us_sha256 = replicate 64 CHR ''a'', us_contentType = ''image/png'', us_isImage = True,
     us_chunkSize = 4, us_chunkCount = 2, us_expires = 100, us_state = UpOpen, us_fileId = [],
     us_tmpPath = ''t'', us_created = 1\<rparr>"

text \<open>Two uploads of one session: a chunk is stored, or the session is finalized.\<close>

definition demo_conn :: sconn where
  "demo_conn = upload_run [CreateUpload (photo_upload ''u'')] (sconn_new empty_db [])"

lemma demo_store:
  "storeUploadChunk 5 ''u'' 1 4 (replicate 64 CHR ''b'') demo_conn =
     (ChunkStored, demo_conn\<lparr>cn_db := (cn_db demo_conn)\<lparr>db_chunks :=
        [\<lparr>ck_upload = ''u'', ck_index = 1, ck_size = 4, ck_sha256 = replicate 64 CHR ''b''\<rparr>]\<rparr>\<rparr>)"
  by code_simp

theorem upload_resume_correct_witness:
  "1 \<in> set (snd (listUploadChunkIndices read_ok ''u''
     (cn_db (upload_run [StoreChunk 6 ''u'' 0 4 (replicate 64 CHR ''c'')]
        (snd (storeUploadChunk 5 ''u'' 1 4 (replicate 64 CHR ''b'') demo_conn))))))"
proof -
  have "no_deletion ''u'' [StoreChunk 6 ''u'' 0 4 (replicate 64 CHR ''c'')]"
    by (simp add: no_deletion_def)
  from upload_resume_correct [OF demo_conn_def demo_store _ this refl]
  show ?thesis by (simp add: demo_store)
qed

theorem upload_finalized_once_witness:
  "map_option us_state (upload_row ''u'' (cn_db (upload_run [CancelUpload ''u'']
     (snd (snd (finalizeUploadSession ''u'' ''f1'' demo_conn)))))) = Some UpFinalized"
proof -
  obtain c1 where c1: "finalizeUploadSession ''u'' ''f1'' demo_conn = (True, [], c1)"
  proof -
    have "fst (finalizeUploadSession ''u'' ''f1'' demo_conn) \<and>
      fst (snd (finalizeUploadSession ''u'' ''f1'' demo_conn)) = []" by code_simp
    then show thesis using that by (metis (full_types) prod.collapse)
  qed
  have idle: "cn_txn demo_conn = None" by code_simp
  have "no_deletion ''u'' [CancelUpload ''u'']" by (simp add: no_deletion_def)
  from upload_finalized_once [OF c1 idle this refl] show ?thesis using c1 by auto
qed

end
