(* ===== verification/ChannelCrypto.thy ===== *)
theory ChannelCrypto
  imports Protocol
begin

text \<open>
  What the application-layer channel is built from: the primitives of OpenSSL and the generated
  protobuf code, which are parameters, the server's own HKDF
  (\<^verbatim>\<open>im_server/src/crypto/AppCrypto.cpp\<close>, \<^verbatim>\<open>hkdfSha256\<close>) and the byte strings both ends build
  (transcripts, nonces, additional data). That a digest fails for want of memory is left out.
\<close>

section \<open>Parameters\<close>

record crypto =
  c_public :: "bytes \<Rightarrow> bytes option"
  c_derive :: "bytes \<Rightarrow> bytes \<Rightarrow> bytes option"
  c_sign :: "bytes \<Rightarrow> bytes \<Rightarrow> bytes option"
  c_verify :: "bytes \<Rightarrow> bytes \<Rightarrow> bytes \<Rightarrow> bool"
  c_hmac :: "bytes \<Rightarrow> bytes \<Rightarrow> bytes"
  c_sha :: "bytes \<Rightarrow> bytes"
  c_hkdf :: "bytes \<Rightarrow> bytes \<Rightarrow> bytes \<Rightarrow> nat \<Rightarrow> bytes option"
  c_seal :: "bytes \<Rightarrow> bytes \<Rightarrow> bytes \<Rightarrow> bytes \<Rightarrow> (bytes \<times> bytes) option"
  c_open :: "bytes \<Rightarrow> bytes \<Rightarrow> bytes \<Rightarrow> bytes \<Rightarrow> bytes \<Rightarrow> bytes option"

text \<open>
  The messages of \<^verbatim>\<open>protocol/im.proto\<close>. The code generated for them is a pair of functions per message.
\<close>

record client_hello =
  ch_version :: u32
  ch_public :: bytes
  ch_nonce :: bytes
  ch_randomId :: bytes
  ch_suite :: u32

record server_hello =
  sh_version :: u32
  sh_public :: bytes
  sh_nonce :: bytes
  sh_session :: bytes
  sh_keyId :: u32
  sh_signature :: bytes
  sh_suite :: u32

record enc_frame =
  ef_version :: u32
  ef_session :: bytes
  ef_sequence :: u64
  ef_ciphertext :: bytes
  ef_tag :: bytes

record wire =
  w_clientHello :: "client_hello \<Rightarrow> bytes"
  r_clientHello :: "bytes \<Rightarrow> client_hello option"
  w_serverHello :: "server_hello \<Rightarrow> bytes"
  r_serverHello :: "bytes \<Rightarrow> server_hello option"
  w_finished :: "bytes \<Rightarrow> bytes"
  r_finished :: "bytes \<Rightarrow> bytes option"
  w_frame :: "enc_frame \<Rightarrow> bytes"
  r_frame :: "bytes \<Rightarrow> enc_frame option"

section \<open>HKDF\<close>

text \<open>The counter is 16 bits wide and its low byte is hashed.\<close>

partial_function (option) hkdf_loop ::
  "(bytes \<Rightarrow> bytes \<Rightarrow> bytes) \<Rightarrow> bytes \<Rightarrow> bytes \<Rightarrow> nat \<Rightarrow> 16 word \<Rightarrow> bytes \<Rightarrow> bytes \<Rightarrow> bytes option" where
  "hkdf_loop hm prk info n counter previous output =
     (if length output < n then
        let block = hm prk (previous @ info @ [ucast counter]);
            needed = min (length block) (n - length output)
        in hkdf_loop hm prk info n (counter + 1) block (output @ take needed block)
      else Some output)"

definition hkdfSha256 :: "(bytes \<Rightarrow> bytes \<Rightarrow> bytes) \<Rightarrow> bytes \<Rightarrow> bytes \<Rightarrow> bytes \<Rightarrow> nat \<Rightarrow> bytes option" where
  "hkdfSha256 hm ikm salt info n =
     (if n > 255 * 32 then None
      else let effectiveSalt = (if salt = [] then replicate 32 0 else salt)
           in hkdf_loop hm (hm effectiveSalt ikm) info n 1 [] [])"

text \<open>RFC 5869: the blocks \<open>T(0), T(1), \<dots>\<close> and their concatenation, cut to the length asked for.\<close>

fun rfc_T :: "(bytes \<Rightarrow> bytes \<Rightarrow> bytes) \<Rightarrow> bytes \<Rightarrow> bytes \<Rightarrow> nat \<Rightarrow> bytes" where
  "rfc_T hm prk info 0 = []"
| "rfc_T hm prk info (Suc i) = hm prk (rfc_T hm prk info i @ info @ [of_nat (Suc i)])"

definition rfc_blocks :: "(bytes \<Rightarrow> bytes \<Rightarrow> bytes) \<Rightarrow> bytes \<Rightarrow> bytes \<Rightarrow> nat \<Rightarrow> bytes" where
  "rfc_blocks hm prk info k = concat (map (rfc_T hm prk info) [1..<Suc k])"

definition rfc_hkdf :: "(bytes \<Rightarrow> bytes \<Rightarrow> bytes) \<Rightarrow> bytes \<Rightarrow> bytes \<Rightarrow> bytes \<Rightarrow> nat \<Rightarrow> bytes" where
  "rfc_hkdf hm ikm salt info n =
     take n (rfc_blocks hm (hm (if salt = [] then replicate 32 0 else salt) ikm) info ((n + 31) div 32))"

definition hmac32 :: "(bytes \<Rightarrow> bytes \<Rightarrow> bytes) \<Rightarrow> bool" where
  "hmac32 hm \<longleftrightarrow> (\<forall>k d. length (hm k d) = 32)"

lemma rfc_blocks_Suc:
  "rfc_blocks hm prk info (Suc k) = rfc_blocks hm prk info k @ rfc_T hm prk info (Suc k)"
  by (simp add: rfc_blocks_def)

lemma length_rfc_blocks: "hmac32 hm \<Longrightarrow> length (rfc_blocks hm prk info k) = 32 * k"
  by (induction k) (simp_all add: rfc_blocks_Suc hmac32_def, simp add: rfc_blocks_def)

lemma rfc_blocks_prefix:
  "j \<le> k \<Longrightarrow> \<exists>r. rfc_blocks hm prk info k = rfc_blocks hm prk info j @ r"
  by (induction k) (auto simp: rfc_blocks_Suc le_Suc_eq)

lemma counter_byte: "(ucast (of_nat k :: 16 word) :: byte) = of_nat k"
  by (simp add: unsigned_of_nat word_of_nat_eq_iff)

lemma hkdf_loop_blocks:
  assumes hm: "hmac32 hm"
  shows "hkdf_loop hm prk info n (of_nat (Suc k)) (rfc_T hm prk info k) (take n (rfc_blocks hm prk info k)) =
    Some (take n (rfc_blocks hm prk info (max k ((n + 31) div 32))))"
proof (induction "n - 32 * k" arbitrary: k rule: less_induct)
  case less
  let ?out = "take n (rfc_blocks hm prk info k)"
  have len: "length ?out = min n (32 * k)" using length_rfc_blocks [OF hm] by simp
  show ?case
  proof (cases "32 * k < n")
    case False
    then have "max k ((n + 31) div 32) = k" by simp
    then show ?thesis using False len by (simp add: hkdf_loop.simps)
  next
    case True
    let ?T = "rfc_T hm prk info (Suc k)"
    have T: "hm prk (rfc_T hm prk info k @ info @ [ucast (of_nat (Suc k) :: 16 word)]) = ?T"
      by (simp only: counter_byte rfc_T.simps)
    have lT: "length ?T = 32" using hm by (simp add: hmac32_def)
    have o: "?out = rfc_blocks hm prk info k" using True length_rfc_blocks [OF hm] by simp
    have "?out @ take (min (length ?T) (n - length ?out)) ?T = take n (rfc_blocks hm prk info (Suc k))"
      using True o lT length_rfc_blocks [OF hm] by (simp add: rfc_blocks_Suc min_def del: rfc_T.simps)
    then have "hkdf_loop hm prk info n (of_nat (Suc k)) (rfc_T hm prk info k) ?out =
        hkdf_loop hm prk info n (of_nat (Suc (Suc k))) ?T (take n (rfc_blocks hm prk info (Suc k)))"
      using True T length_rfc_blocks [OF hm] by (subst hkdf_loop.simps) (simp add: Let_def add.commute del: rfc_T.simps)
    also have "\<dots> = Some (take n (rfc_blocks hm prk info (max (Suc k) ((n + 31) div 32))))"
      using True by (intro less.hyps) simp
    also have "max (Suc k) ((n + 31) div 32) = max k ((n + 31) div 32)" using True by simp
    finally show ?thesis .
  qed
qed

lemma length_rfc_hkdf: "hmac32 hm \<Longrightarrow> length (rfc_hkdf hm ikm salt info n) = n"
  using length_rfc_blocks by (simp add: rfc_hkdf_def)

lemma hkdf_returns:
  assumes "hmac32 hm" and "n \<le> 8160"
  shows "hkdfSha256 hm ikm salt info n = Some (rfc_hkdf hm ikm salt info n)"
  using hkdf_loop_blocks [OF assms(1), of "hm (if salt = [] then replicate 32 0 else salt) ikm" info n 0] assms(2)
  by (simp add: hkdfSha256_def rfc_hkdf_def rfc_blocks_def Let_def)

text \<open>
  C29: HKDF. The server's key derivation returns for every length up to the 8160 bytes that RFC 5869
  allows, with a result of exactly that length, and the result is the one the RFC defines; beyond
  that length it refuses.
\<close>

theorem hkdf_correct:
  assumes "hmac32 hm"
  shows "hkdfSha256 hm ikm salt info n =
      (if n \<le> 8160 then Some (rfc_hkdf hm ikm salt info n) else None) \<and>
    length (rfc_hkdf hm ikm salt info n) = n"
  using hkdf_returns [OF assms] length_rfc_hkdf [OF assms] by (simp add: hkdfSha256_def)

theorem hkdf_correct_witness:
  "hkdfSha256 (\<lambda>k d. replicate 32 (of_nat (length d))) [] [] [] 136 \<noteq> None"
  using hkdf_correct [of "\<lambda>k d. replicate 32 (of_nat (length d))" "[]" "[]" "[]" 136]
  by (simp add: hmac32_def)

end
