(* ===== verification/SecureChannel.thy ===== *)
theory SecureChannel
  imports ChannelCrypto
begin

text \<open>
  The application-layer secure channel inside TLS: the client's end
  (\<^verbatim>\<open>client_core/src/transport/ClientSecureChannel.cpp\<close>) and the server's end (the security half of
  \<^verbatim>\<open>im_server/src/session/Session.cpp\<close>). Both ends are state passing; what the server's end does to
  the world (frames queued for writing, packets dispatched, the connection closed) is a list of outputs.
  A task that \<^verbatim>\<open>Session\<close> posts to its own strand is an operation of its own, in the order of posting.
\<close>

section \<open>Byte strings of both ends\<close>

definition put_u32 :: "u32 \<Rightarrow> bytes" where
  "put_u32 v = [ucast (drop_bit 24 v AND 0xFF), ucast (drop_bit 16 v AND 0xFF),
                ucast (drop_bit 8 v AND 0xFF), ucast (v AND 0xFF)]"

definition put_u64 :: "u64 \<Rightarrow> bytes" where
  "put_u64 v = map (\<lambda>shift. ucast (drop_bit shift v AND 0xFF)) [56, 48, 40, 32, 24, 16, 8, 0]"

definition handshake_label :: bytes where
  "handshake_label = bytes_of ''jitong-app-handshake-v1''"

definition channel_label :: bytes where
  "channel_label = bytes_of ''jitong-app-channel-v1''"

definition frame_label :: bytes where
  "frame_label = bytes_of ''jitong-app-frame-v1''"

definition signingTranscript :: "bytes \<Rightarrow> u32 \<Rightarrow> bytes \<Rightarrow> bytes \<Rightarrow> bytes \<Rightarrow> u32 \<Rightarrow> u32 \<Rightarrow> bytes" where
  "signingTranscript clientPayload version serverPublic serverNonce sessionId keyId cipherSuite =
     handshake_label @ put_u32 (of_nat (length clientPayload)) @ clientPayload @ put_u32 version @
     serverPublic @ serverNonce @ sessionId @ put_u32 keyId @ put_u32 cipherSuite"

definition finishedTranscriptHash :: "crypto \<Rightarrow> bytes \<Rightarrow> bytes \<Rightarrow> bytes" where
  "finishedTranscriptHash cr clientPayload serverPayload =
     c_sha cr (put_u32 (of_nat (length clientPayload)) @ clientPayload @
               put_u32 (of_nat (length serverPayload)) @ serverPayload)"

definition frameAad :: "bytes \<Rightarrow> u64 \<Rightarrow> bytes" where
  "frameAad sessionId sequence = frame_label @ put_u32 APP_SECURITY_VERSION @ sessionId @ put_u64 sequence"

text \<open>The server refuses a wrong prefix; the client copies four bytes of a zeroed buffer.\<close>

definition frameNonce :: "bytes \<Rightarrow> u64 \<Rightarrow> bytes option" where
  "frameNonce prefix sequence =
     (if length prefix \<noteq> 4 \<or> sequence = 0 then None else Some (prefix @ put_u64 sequence))"

definition client_nonce :: "bytes \<Rightarrow> u64 \<Rightarrow> bytes" where
  "client_nonce prefix sequence = take 4 (prefix @ replicate 4 0) @ put_u64 sequence"

definition slice :: "bytes \<Rightarrow> nat \<Rightarrow> nat \<Rightarrow> bytes" where
  "slice input offset n = take n (drop offset input)"

text \<open>The six keys cut out of the 136 bytes of key material.\<close>

record keys =
  k_c2s :: bytes
  k_s2c :: bytes
  k_cprefix :: bytes
  k_sprefix :: bytes
  k_cfinished :: bytes
  k_sfinished :: bytes

definition no_keys :: keys where
  "no_keys = \<lparr>k_c2s = [], k_s2c = [], k_cprefix = [], k_sprefix = [], k_cfinished = [], k_sfinished = []\<rparr>"

definition cut_keys :: "bytes \<Rightarrow> keys" where
  "cut_keys material =
     \<lparr>k_c2s = slice material 0 32, k_s2c = slice material 32 32, k_cprefix = slice material 64 4,
      k_sprefix = slice material 68 4, k_cfinished = slice material 72 32, k_sfinished = slice material 104 32\<rparr>"

section \<open>The client's end\<close>

datatype channel_status = NotStarted | HelloSent | FinishedSent | ChEstablished | ChFailed

datatype channel_error =
  NoError | CryptoInit | BadVersion | BadCipherSuite | BadFieldLength | BadKeyId | BadSignature
| BadFinished | BadState | BadFrame | Authentication | BadSequence | Internal

record client_channel =
  cl_identityKeys :: "u32 \<rightharpoonup> bytes"
  cl_status :: channel_status
  cl_lastError :: channel_error
  cl_testPriv :: bytes
  cl_testNonce :: bytes
  cl_testRandomId :: bytes
  cl_priv :: bytes
  cl_pub :: bytes
  cl_nonce :: bytes
  cl_randomId :: bytes
  cl_clientPayload :: bytes
  cl_serverPub :: bytes
  cl_serverNonce :: bytes
  cl_sessionId :: bytes
  cl_serverPayload :: bytes
  cl_transcriptHash :: bytes
  cl_keys :: keys
  cl_keyId :: u32
  cl_sendSequence :: u64
  cl_receiveSequence :: u64

definition cl_new :: client_channel where
  "cl_new = \<lparr>cl_identityKeys = (\<lambda>_. None), cl_status = NotStarted, cl_lastError = NoError, cl_testPriv = [],
     cl_testNonce = [], cl_testRandomId = [], cl_priv = [], cl_pub = [], cl_nonce = [], cl_randomId = [],
     cl_clientPayload = [], cl_serverPub = [], cl_serverNonce = [], cl_sessionId = [], cl_serverPayload = [],
     cl_transcriptHash = [], cl_keys = no_keys, cl_keyId = 0, cl_sendSequence = 0, cl_receiveSequence = 0\<rparr>"

definition cl_reset :: "client_channel \<Rightarrow> client_channel" where
  "cl_reset c = c\<lparr>cl_priv := [], cl_pub := [], cl_nonce := [], cl_randomId := [], cl_clientPayload := [],
     cl_serverPub := [], cl_serverNonce := [], cl_sessionId := [], cl_serverPayload := [],
     cl_transcriptHash := [], cl_keys := no_keys, cl_keyId := 0, cl_sendSequence := 0,
     cl_receiveSequence := 0, cl_status := NotStarted, cl_lastError := NoError\<rparr>"

definition cl_fail :: "channel_error \<Rightarrow> client_channel \<Rightarrow> client_channel" where
  "cl_fail e c = c\<lparr>cl_lastError := e, cl_status := ChFailed\<rparr>"

definition setTrustedIdentityKeys :: "(u32 \<rightharpoonup> bytes) \<Rightarrow> client_channel \<Rightarrow> client_channel" where
  "setTrustedIdentityKeys ks c = c\<lparr>cl_identityKeys := ks\<rparr>"

definition setDeterministicTestVector :: "bytes \<Rightarrow> bytes \<Rightarrow> bytes \<Rightarrow> client_channel \<Rightarrow> client_channel" where
  "setDeterministicTestVector priv nonce rid c =
     c\<lparr>cl_testPriv := priv, cl_testNonce := nonce, cl_testRandomId := rid\<rparr>"

text \<open>
  \<open>pair\<close>, \<open>rnd32\<close> and \<open>rnd16\<close> are what the generators give, \<open>None\<close> when one fails. The result is the
  payload, \<open>None\<close> for \<open>false\<close>.
\<close>

definition buildClientHello ::
  "crypto \<Rightarrow> wire \<Rightarrow> (bytes \<times> bytes) option \<Rightarrow> bytes option \<Rightarrow> bytes option \<Rightarrow> client_channel \<Rightarrow>
    bytes option \<times> client_channel" where
  "buildClientHello cr w pair rnd32 rnd16 c0 =
     (let c = cl_reset c0 in
      case (if cl_testPriv c = [] then pair
            else map_option (\<lambda>pub. (cl_testPriv c, pub)) (c_public cr (cl_testPriv c))) of
        None \<Rightarrow> (None, cl_fail CryptoInit
                  (if cl_testPriv c = [] then c else c\<lparr>cl_priv := cl_testPriv c\<rparr>))
      | Some (priv, pub) \<Rightarrow>
          let c = c\<lparr>cl_priv := priv, cl_pub := pub\<rparr> in
          (case (if cl_testNonce c \<noteq> [] then Some (cl_testNonce c) else rnd32) of
             None \<Rightarrow> (None, cl_fail CryptoInit (c\<lparr>cl_nonce := replicate 32 0\<rparr>))
           | Some nonce \<Rightarrow>
               let c = c\<lparr>cl_nonce := nonce\<rparr> in
               (case (if cl_testRandomId c \<noteq> [] then Some (cl_testRandomId c) else rnd16) of
                  None \<Rightarrow> (None, cl_fail CryptoInit (c\<lparr>cl_randomId := replicate 16 0\<rparr>))
                | Some rid \<Rightarrow>
                    let payload = w_clientHello w \<lparr>ch_version = APP_SECURITY_VERSION, ch_public = pub,
                                    ch_nonce = nonce, ch_randomId = rid, ch_suite = APP_CIPHER_SUITE_V1\<rparr>
                    in (Some payload,
                        c\<lparr>cl_randomId := rid, cl_clientPayload := payload, cl_status := HelloSent\<rparr>))))"

text \<open>The key material from the shared secret on.\<close>

definition client_material :: "crypto \<Rightarrow> bytes \<Rightarrow> client_channel \<Rightarrow> bytes option" where
  "client_material cr secret c =
     c_hkdf cr secret (c_sha cr (cl_nonce c @ cl_serverNonce c))
       (channel_label @ cl_sessionId c @ cl_transcriptHash c) 136"

definition handleServerHello :: "crypto \<Rightarrow> wire \<Rightarrow> bytes \<Rightarrow> client_channel \<Rightarrow> bytes option \<times> client_channel" where
  "handleServerHello cr w serverPayload c =
     (if cl_status c \<noteq> HelloSent then (None, cl_fail BadState c)
      else let c = c\<lparr>cl_serverPayload := serverPayload\<rparr> in
      case r_serverHello w serverPayload of
        None \<Rightarrow> (None, cl_fail BadFieldLength c)
      | Some h \<Rightarrow>
          if sh_version h \<noteq> APP_SECURITY_VERSION then (None, cl_fail BadVersion c)
          else if sh_suite h \<noteq> APP_CIPHER_SUITE_V1 then (None, cl_fail BadCipherSuite c)
          else if length (sh_public h) \<noteq> 32 \<or> length (sh_nonce h) \<noteq> 32 \<or> length (sh_session h) \<noteq> 16 \<or>
                  length (sh_signature h) \<noteq> 64 then (None, cl_fail BadFieldLength c)
          else let c = c\<lparr>cl_serverPub := sh_public h, cl_serverNonce := sh_nonce h,
                         cl_sessionId := sh_session h, cl_keyId := sh_keyId h\<rparr> in
          case cl_identityKeys c (cl_keyId c) of
            None \<Rightarrow> (None, cl_fail BadKeyId c)
          | Some identity \<Rightarrow>
              if length identity \<noteq> 32 \<or> \<not> c_verify cr identity
                   (signingTranscript (cl_clientPayload c) APP_SECURITY_VERSION (cl_serverPub c)
                      (cl_serverNonce c) (cl_sessionId c) (cl_keyId c) APP_CIPHER_SUITE_V1) (sh_signature h)
              then (None, cl_fail BadSignature c)
              else let c = c\<lparr>cl_transcriptHash :=
                           finishedTranscriptHash cr (cl_clientPayload c) (cl_serverPayload c)\<rparr> in
              (case c_derive cr (cl_priv c) (cl_serverPub c) of
                 None \<Rightarrow> (None, cl_fail CryptoInit c)
               | Some secret \<Rightarrow>
                   if list_all (\<lambda>b. b = 0) secret then (None, cl_fail CryptoInit c)
                   else (case client_material cr secret c of
                      None \<Rightarrow> (None, cl_fail CryptoInit c)
                    | Some material \<Rightarrow>
                        let c = c\<lparr>cl_keys := cut_keys material\<rparr>
                        in (Some (w_finished w (c_hmac cr (k_cfinished (cl_keys c)) (cl_transcriptHash c))),
                            c\<lparr>cl_status := FinishedSent\<rparr>))))"

definition handleServerFinished :: "crypto \<Rightarrow> wire \<Rightarrow> bytes \<Rightarrow> client_channel \<Rightarrow> bool \<times> client_channel" where
  "handleServerFinished cr w payload c =
     (if cl_status c \<noteq> FinishedSent then (False, cl_fail BadState c)
      else case r_finished w payload of
        None \<Rightarrow> (False, cl_fail BadFinished c)
      | Some verify \<Rightarrow>
          if length verify \<noteq> 32 then (False, cl_fail BadFinished c)
          else let clientVerify = c_hmac cr (k_cfinished (cl_keys c)) (cl_transcriptHash c);
                   expected = c_hmac cr (k_sfinished (cl_keys c)) (cl_transcriptHash c @ clientVerify)
               in if expected \<noteq> verify then (False, cl_fail BadFinished c)
                  else (True, c\<lparr>cl_status := ChEstablished\<rparr>))"

definition encrypt :: "crypto \<Rightarrow> wire \<Rightarrow> u32 \<Rightarrow> bytes \<Rightarrow> client_channel \<Rightarrow> bytes option \<times> client_channel" where
  "encrypt cr w innerType payload c =
     (if cl_status c \<noteq> ChEstablished then (None, cl_fail BadState c)
      else if control_prot innerType then (None, cl_fail BadFrame c)
      else if cl_sendSequence c = - 1 then (None, cl_fail BadSequence c)
      else let sequence = cl_sendSequence c + 1;
               c = c\<lparr>cl_sendSequence := sequence\<rparr>
           in case c_seal cr (k_c2s (cl_keys c)) (client_nonce (k_cprefix (cl_keys c)) sequence)
                     (encodeType32 innerType @ payload) (frameAad (cl_sessionId c) sequence) of
                None \<Rightarrow> (None, cl_fail Internal c)
              | Some (ciphertext, tag) \<Rightarrow>
                  (Some (w_frame w \<lparr>ef_version = APP_SECURITY_VERSION, ef_session = cl_sessionId c,
                      ef_sequence = sequence, ef_ciphertext = ciphertext, ef_tag = tag\<rparr>), c))"

definition decrypt :: "crypto \<Rightarrow> wire \<Rightarrow> bytes \<Rightarrow> client_channel \<Rightarrow> (u32 \<times> bytes) option \<times> client_channel" where
  "decrypt cr w payload c =
     (if cl_status c \<noteq> ChEstablished then (None, cl_fail BadState c)
      else case r_frame w payload of
        None \<Rightarrow> (None, cl_fail BadFrame c)
      | Some f \<Rightarrow>
          if ef_version f \<noteq> APP_SECURITY_VERSION then (None, cl_fail BadFrame c)
          else if length (ef_session f) \<noteq> 16 \<or> ef_session f \<noteq> take 16 (cl_sessionId c)
            then (None, cl_fail BadFrame c)
          else if length (ef_tag f) \<noteq> 16 then (None, cl_fail BadFrame c)
          else if length (ef_ciphertext f) < 4 then (None, cl_fail BadFrame c)
          else if ef_sequence f = 0 \<or> cl_receiveSequence c = - 1 \<or>
                  ef_sequence f \<noteq> cl_receiveSequence c + 1 then (None, cl_fail BadSequence c)
          else case c_open cr (k_s2c (cl_keys c)) (client_nonce (k_sprefix (cl_keys c)) (ef_sequence f))
                      (ef_ciphertext f) (frameAad (cl_sessionId c) (ef_sequence f)) (ef_tag f) of
             None \<Rightarrow> (None, cl_fail Authentication c)
           | Some plaintext \<Rightarrow>
               let innerType = decodeType32 plaintext in
               if control_prot innerType then (None, cl_fail BadFrame c)
               else (Some (innerType, drop 4 plaintext), c\<lparr>cl_receiveSequence := ef_sequence f\<rparr>))"

section \<open>The server's end\<close>

datatype security_state = TlsHandshake | WaitClientHello | WaitClientFinished | SvEstablished | SvClosed

record server_channel =
  sv_state :: security_state
  sv_transcriptHash :: bytes
  sv_keys :: keys
  sv_sessionId :: bytes
  sv_sendSequence :: u64
  sv_receiveSequence :: u64
  sv_closedNotified :: bool

definition sv_new :: server_channel where
  "sv_new = \<lparr>sv_state = TlsHandshake, sv_transcriptHash = [], sv_keys = no_keys, sv_sessionId = [],
     sv_sendSequence = 0, sv_receiveSequence = 0, sv_closedNotified = False\<rparr>"

datatype sv_out = RawFrame u32 bytes | Dispatch u32 bytes | CloseConnection | SessionClosed

definition failApplicationHandshake :: "server_channel \<Rightarrow> server_channel \<times> sv_out list" where
  "failApplicationHandshake s =
     (if sv_state s = SvClosed then (s, []) else (s\<lparr>sv_state := SvClosed\<rparr>, [CloseConnection]))"

text \<open>The TLS handshake has ended, and the timer of the application handshake has fired.\<close>

definition sv_tlsDone :: "server_channel \<Rightarrow> server_channel" where
  "sv_tlsDone s = s\<lparr>sv_state := WaitClientHello\<rparr>"

definition sv_timeout :: "server_channel \<Rightarrow> server_channel \<times> sv_out list" where
  "sv_timeout s = (if sv_state s \<noteq> SvEstablished then failApplicationHandshake s else (s, []))"

definition sv_onClosed :: "server_channel \<Rightarrow> server_channel \<times> sv_out list" where
  "sv_onClosed s =
     (if sv_closedNotified s then (s, [])
      else (s\<lparr>sv_closedNotified := True, sv_state := SvClosed, sv_transcriptHash := [],
              sv_keys := (sv_keys s)\<lparr>k_c2s := [], k_s2c := [], k_cfinished := [], k_sfinished := []\<rparr>,
              sv_sendSequence := 0, sv_receiveSequence := 0\<rparr>, [SessionClosed]))"

definition x25519SharedSecret :: "crypto \<Rightarrow> bytes \<Rightarrow> bytes \<Rightarrow> bytes option" where
  "x25519SharedSecret cr privateKey peerPublicKey =
     (if length privateKey \<noteq> 32 \<or> length peerPublicKey \<noteq> 32 then None
      else case c_derive cr privateKey peerPublicKey of
        None \<Rightarrow> None
      | Some secret \<Rightarrow> if list_all (\<lambda>b. b = 0) secret then None else Some secret)"

definition ed25519Sign :: "crypto \<Rightarrow> bytes \<Rightarrow> bytes \<Rightarrow> bytes option" where
  "ed25519Sign cr privateKey message =
     (if length privateKey \<noteq> 32 then None else c_sign cr privateKey message)"

definition aes256GcmEncrypt :: "crypto \<Rightarrow> bytes \<Rightarrow> bytes \<Rightarrow> bytes \<Rightarrow> bytes \<Rightarrow> (bytes \<times> bytes) option" where
  "aes256GcmEncrypt cr key nonce plaintext aad =
     (if length key \<noteq> 32 \<or> length nonce \<noteq> 12 then None else c_seal cr key nonce plaintext aad)"

definition aes256GcmDecrypt :: "crypto \<Rightarrow> bytes \<Rightarrow> bytes \<Rightarrow> bytes \<Rightarrow> bytes \<Rightarrow> bytes \<Rightarrow> bytes option" where
  "aes256GcmDecrypt cr key nonce ciphertext aad tag =
     (if length key \<noteq> 32 \<or> length nonce \<noteq> 12 \<or> length tag \<noteq> 16 then None
      else c_open cr key nonce ciphertext aad tag)"

text \<open>
  \<open>eph\<close> is the generated key pair, \<open>rnd32\<close> and \<open>rnd16\<close> the random nonce and session id, \<open>None\<close> when
  the generator throws; \<open>identity\<close> is the private key and id of the server.
\<close>

definition handleClientHello ::
  "crypto \<Rightarrow> wire \<Rightarrow> bytes \<times> u32 \<Rightarrow> (bytes \<times> bytes) option \<Rightarrow> bytes option \<Rightarrow> bytes option \<Rightarrow> bytes \<Rightarrow>
    server_channel \<Rightarrow> server_channel \<times> sv_out list" where
  "handleClientHello cr w identity eph rnd32 rnd16 payload s =
     (case r_clientHello w payload of
        None \<Rightarrow> failApplicationHandshake s
      | Some hello \<Rightarrow>
          if ch_version hello \<noteq> APP_SECURITY_VERSION \<or> ch_suite hello \<noteq> APP_CIPHER_SUITE_V1 \<or>
             length (ch_public hello) \<noteq> APP_X25519_KEY_LEN \<or> length (ch_nonce hello) \<noteq> APP_NONCE_LEN \<or>
             length (ch_randomId hello) \<noteq> APP_RANDOM_ID_LEN then failApplicationHandshake s
          else (case (eph, rnd32, rnd16) of
             (Some (priv, pub), Some serverNonce, Some sessionId) \<Rightarrow>
               let s = s\<lparr>sv_sessionId := sessionId\<rparr>;
                   keyId = snd identity
               in (case ed25519Sign cr (fst identity)
                          (signingTranscript payload APP_SECURITY_VERSION pub serverNonce sessionId keyId
                             APP_CIPHER_SUITE_V1) of
                     None \<Rightarrow> failApplicationHandshake s
                   | Some signature \<Rightarrow>
                       let serverPayload = w_serverHello w \<lparr>sh_version = APP_SECURITY_VERSION, sh_public = pub,
                             sh_nonce = serverNonce, sh_session = sessionId, sh_keyId = keyId,
                             sh_signature = signature, sh_suite = APP_CIPHER_SUITE_V1\<rparr>;
                           s = s\<lparr>sv_transcriptHash := finishedTranscriptHash cr payload serverPayload\<rparr>
                       in (case x25519SharedSecret cr priv (ch_public hello) of
                             None \<Rightarrow> failApplicationHandshake s
                           | Some sharedSecret \<Rightarrow>
                               (case hkdfSha256 (c_hmac cr) sharedSecret
                                       (c_sha cr (ch_nonce hello @ serverNonce))
                                       (channel_label @ sessionId @ sv_transcriptHash s) 136 of
                                  None \<Rightarrow> failApplicationHandshake s
                                | Some material \<Rightarrow>
                                    (s\<lparr>sv_keys := cut_keys material, sv_state := WaitClientFinished\<rparr>,
                                     [RawFrame (prot_num APP_SERVER_HELLO) serverPayload]))))
           | _ \<Rightarrow> failApplicationHandshake s))"

definition handleClientFinished ::
  "crypto \<Rightarrow> wire \<Rightarrow> bytes \<Rightarrow> server_channel \<Rightarrow> server_channel \<times> sv_out list" where
  "handleClientFinished cr w payload s =
     (case r_finished w payload of
        None \<Rightarrow> failApplicationHandshake s
      | Some actual \<Rightarrow>
          if length actual \<noteq> APP_FINISHED_LEN then failApplicationHandshake s
          else if actual \<noteq> c_hmac cr (k_cfinished (sv_keys s)) (sv_transcriptHash s)
            then failApplicationHandshake s
          else (s\<lparr>sv_state := SvEstablished\<rparr>,
                [RawFrame (prot_num APP_SERVER_FINISHED)
                   (w_finished w (c_hmac cr (k_sfinished (sv_keys s)) (sv_transcriptHash s @ actual)))]))"

definition handleApplicationHandshake ::
  "crypto \<Rightarrow> wire \<Rightarrow> bytes \<times> u32 \<Rightarrow> (bytes \<times> bytes) option \<Rightarrow> bytes option \<Rightarrow> bytes option \<Rightarrow> u32 \<Rightarrow> bytes \<Rightarrow>
    server_channel \<Rightarrow> server_channel \<times> sv_out list" where
  "handleApplicationHandshake cr w identity eph rnd32 rnd16 type payload s =
     (if length payload > APP_MAX_HANDSHAKE_PAYLOAD then failApplicationHandshake s
      else if sv_state s = WaitClientHello \<and> type = prot_num APP_CLIENT_HELLO
        then handleClientHello cr w identity eph rnd32 rnd16 payload s
      else if sv_state s = WaitClientFinished \<and> type = prot_num APP_CLIENT_FINISHED
        then handleClientFinished cr w payload s
      else failApplicationHandshake s)"

definition handleEncryptedFrame ::
  "crypto \<Rightarrow> wire \<Rightarrow> bytes \<Rightarrow> server_channel \<Rightarrow> server_channel \<times> sv_out list" where
  "handleEncryptedFrame cr w payload s =
     (case r_frame w payload of
        None \<Rightarrow> failApplicationHandshake s
      | Some f \<Rightarrow>
          if ef_version f \<noteq> APP_SECURITY_VERSION \<or> ef_session f \<noteq> sv_sessionId s \<or>
             length (ef_tag f) \<noteq> APP_GCM_TAG_LEN \<or> length (ef_ciphertext f) < 4 \<or>
             ef_sequence f = 0 \<or> ef_sequence f \<noteq> sv_receiveSequence s + 1 then failApplicationHandshake s
          else (case frameNonce (k_cprefix (sv_keys s)) (ef_sequence f) of
             None \<Rightarrow> failApplicationHandshake s
           | Some nonce \<Rightarrow>
               (case aes256GcmDecrypt cr (k_c2s (sv_keys s)) nonce (ef_ciphertext f)
                       (frameAad (sv_sessionId s) (ef_sequence f)) (ef_tag f) of
                  None \<Rightarrow> failApplicationHandshake s
                | Some plaintext \<Rightarrow>
                    if length plaintext < 4 then failApplicationHandshake s
                    else let innerType = decodeType32 plaintext in
                      if control_prot innerType then failApplicationHandshake s
                      else (s\<lparr>sv_receiveSequence := ef_sequence f\<rparr>, [Dispatch innerType (drop 4 plaintext)]))))"

text \<open>What the server does with a frame it has read.\<close>

definition sv_read ::
  "crypto \<Rightarrow> wire \<Rightarrow> bytes \<times> u32 \<Rightarrow> (bytes \<times> bytes) option \<Rightarrow> bytes option \<Rightarrow> bytes option \<Rightarrow> u32 \<Rightarrow> bytes \<Rightarrow>
    server_channel \<Rightarrow> server_channel \<times> sv_out list" where
  "sv_read cr w identity eph rnd32 rnd16 type payload s =
     (if sv_state s \<noteq> SvEstablished
      then handleApplicationHandshake cr w identity eph rnd32 rnd16 type payload s
      else if type \<noteq> prot_num APP_ENCRYPTED_FRAME then failApplicationHandshake s
      else handleEncryptedFrame cr w payload s)"

definition encryptBusinessFrame ::
  "crypto \<Rightarrow> wire \<Rightarrow> u32 \<Rightarrow> bytes \<Rightarrow> server_channel \<Rightarrow> bytes option \<times> server_channel" where
  "encryptBusinessFrame cr w type payload s =
     (if sv_sendSequence s = - 1 then (None, s)
      else let sequence = sv_sendSequence s + 1;
               s = s\<lparr>sv_sendSequence := sequence\<rparr>
           in case frameNonce (k_sprefix (sv_keys s)) sequence of
                None \<Rightarrow> (None, s)
              | Some nonce \<Rightarrow>
                  (case aes256GcmEncrypt cr (k_s2c (sv_keys s)) nonce (encodeType32 type @ payload)
                          (frameAad (sv_sessionId s) sequence) of
                     None \<Rightarrow> (None, s)
                   | Some (ciphertext, tag) \<Rightarrow>
                       (Some (w_frame w \<lparr>ef_version = APP_SECURITY_VERSION, ef_session = sv_sessionId s,
                          ef_sequence = sequence, ef_ciphertext = ciphertext, ef_tag = tag\<rparr>), s)))"

text \<open>The task that \<^verbatim>\<open>Session::deliver\<close> posts.\<close>

definition sv_deliver :: "crypto \<Rightarrow> wire \<Rightarrow> u32 \<Rightarrow> bytes \<Rightarrow> server_channel \<Rightarrow> server_channel \<times> sv_out list" where
  "sv_deliver cr w type payload s =
     (if handshake_prot type then (s, [RawFrame type payload])
      else if sv_state s \<noteq> SvEstablished then failApplicationHandshake s
      else case encryptBusinessFrame cr w type payload s of
          (None, s) \<Rightarrow> failApplicationHandshake s
        | (Some frame, s) \<Rightarrow> (s, [RawFrame (prot_num APP_ENCRYPTED_FRAME) frame]))"

section \<open>The handshake of two honest ends\<close>

text \<open>
  What the code relies on of OpenSSL and protobuf, as documented: messages read back, digests have
  their length, OpenSSL's HKDF is RFC 5869, sealing is undone by opening, opening keeps the length,
  and X25519 commutes.
\<close>

definition wire_ok :: "wire \<Rightarrow> bool" where
  "wire_ok w \<longleftrightarrow> (\<forall>m. r_clientHello w (w_clientHello w m) = Some m) \<and>
     (\<forall>m. r_serverHello w (w_serverHello w m) = Some m) \<and> (\<forall>v. r_finished w (w_finished w v) = Some v) \<and>
     (\<forall>f. r_frame w (w_frame w f) = Some f) \<and> (\<forall>v. length v = 32 \<longrightarrow> length (w_finished w v) \<le> 1024)"

definition crypto_ok :: "crypto \<Rightarrow> bool" where
  "crypto_ok cr \<longleftrightarrow> hmac32 (c_hmac cr) \<and>
     (\<forall>ikm salt info n. n \<le> 8160 \<longrightarrow> c_hkdf cr ikm salt info n = Some (rfc_hkdf (c_hmac cr) ikm salt info n)) \<and>
     (\<forall>k n p a c t. c_seal cr k n p a = Some (c, t) \<longrightarrow> c_open cr k n c a t = Some p \<and> length c = length p \<and> length t = 16) \<and>
     (\<forall>k n c a t p. c_open cr k n c a t = Some p \<longrightarrow> length p = length c) \<and>
     (\<forall>a b A B. c_public cr a = Some A \<longrightarrow> c_public cr b = Some B \<longrightarrow> c_derive cr a B = c_derive cr b A)"

text \<open>An identity key pair: what one signs the other verifies.\<close>

definition identity_pair :: "crypto \<Rightarrow> bytes \<Rightarrow> bytes \<Rightarrow> bool" where
  "identity_pair cr priv pub \<longleftrightarrow> length pub = 32 \<and>
     (\<forall>m sig. c_sign cr priv m = Some sig \<longrightarrow> c_verify cr pub m sig \<and> length sig = 64)"

definition matched :: "client_channel \<Rightarrow> server_channel \<Rightarrow> bool" where
  "matched c s \<longleftrightarrow> cl_status c = ChEstablished \<and> sv_state s = SvEstablished \<and>
     cl_keys c = sv_keys s \<and> cl_sessionId c = sv_sessionId s \<and> cl_transcriptHash c = sv_transcriptHash s \<and>
     length (sv_sessionId s) = 16 \<and> length (k_c2s (sv_keys s)) = 32 \<and> length (k_s2c (sv_keys s)) = 32 \<and>
     length (k_cprefix (sv_keys s)) = 4 \<and> length (k_sprefix (sv_keys s)) = 4 \<and>
     cl_sendSequence c = 0 \<and> cl_receiveSequence c = 0 \<and> sv_sendSequence s = 0 \<and> sv_receiveSequence s = 0"

lemma cut_keys_lengths:
  "length m = 136 \<Longrightarrow> length (k_c2s (cut_keys m)) = 32 \<and> length (k_s2c (cut_keys m)) = 32 \<and>
   length (k_cprefix (cut_keys m)) = 4 \<and> length (k_sprefix (cut_keys m)) = 4"
  by (simp add: cut_keys_def slice_def)

lemma client_hello_sent:
  assumes "buildClientHello cr w (Some (priv, pub)) (Some nonce) (Some rid) c0 = (Some p, c)"
    and "cl_testPriv c0 = []" "cl_testNonce c0 = []" "cl_testRandomId c0 = []"
  shows "p = w_clientHello w \<lparr>ch_version = APP_SECURITY_VERSION, ch_public = pub, ch_nonce = nonce,
      ch_randomId = rid, ch_suite = APP_CIPHER_SUITE_V1\<rparr> \<and>
    c = (cl_reset c0)\<lparr>cl_priv := priv, cl_pub := pub, cl_nonce := nonce, cl_randomId := rid,
      cl_clientPayload := p, cl_status := HelloSent\<rparr>"
  using assms by (auto simp: buildClientHello_def Let_def cl_reset_def)

lemma server_hello_sent:
  assumes "sv_read cr w (idpriv, kid) eph rnd32 rnd16 (prot_num APP_CLIENT_HELLO) p (sv_tlsDone sv_new) =
      (s, [RawFrame t p2])" and "wire_ok w" and "hmac32 (c_hmac cr)"
    and "p = w_clientHello w \<lparr>ch_version = v, ch_public = pub, ch_nonce = nonce, ch_randomId = rid, ch_suite = su\<rparr>"
  shows "\<exists>spriv spub snonce sid sig secret.
    t = prot_num APP_SERVER_HELLO \<and> eph = Some (spriv, spub) \<and> rnd32 = Some snonce \<and> rnd16 = Some sid \<and> length pub = 32 \<and> length nonce = 32 \<and>
    c_sign cr idpriv (signingTranscript p APP_SECURITY_VERSION spub snonce sid kid APP_CIPHER_SUITE_V1) = Some sig \<and>
    p2 = w_serverHello w \<lparr>sh_version = APP_SECURITY_VERSION, sh_public = spub, sh_nonce = snonce,
      sh_session = sid, sh_keyId = kid, sh_signature = sig, sh_suite = APP_CIPHER_SUITE_V1\<rparr> \<and>
    c_derive cr spriv pub = Some secret \<and> \<not> list_all (\<lambda>b. b = 0) secret \<and>
    s = \<lparr>sv_state = WaitClientFinished, sv_transcriptHash = finishedTranscriptHash cr p p2,
      sv_keys = cut_keys (rfc_hkdf (c_hmac cr) secret (c_sha cr (nonce @ snonce))
        (channel_label @ sid @ finishedTranscriptHash cr p p2) 136),
      sv_sessionId = sid, sv_sendSequence = 0, sv_receiveSequence = 0, sv_closedNotified = False\<rparr>"
  using assms
  by (auto simp: sv_read_def handleApplicationHandshake_def handleClientHello_def sv_tlsDone_def sv_new_def
      failApplicationHandshake_def wire_ok_def ed25519Sign_def x25519SharedSecret_def app_lens hkdf_returns Let_def
      split: if_splits option.splits prod.splits)

lemma client_finished_sent:
  assumes "cl_status c = HelloSent" and "wire_ok w" and "crypto_ok cr"
    and "p2 = w_serverHello w \<lparr>sh_version = APP_SECURITY_VERSION, sh_public = spub, sh_nonce = snonce,
      sh_session = sid, sh_keyId = kid, sh_signature = sig, sh_suite = APP_CIPHER_SUITE_V1\<rparr>"
    and "length spub = 32" "length snonce = 32" "length sid = 16"
    and "cl_identityKeys c kid = Some idpub" and "identity_pair cr idpriv idpub"
    and "c_sign cr idpriv (signingTranscript (cl_clientPayload c) APP_SECURITY_VERSION spub snonce sid kid
      APP_CIPHER_SUITE_V1) = Some sig"
    and "c_derive cr (cl_priv c) spub = Some secret" and "\<not> list_all (\<lambda>b. b = 0) secret"
    and "th = finishedTranscriptHash cr (cl_clientPayload c) p2"
    and "ks = cut_keys (rfc_hkdf (c_hmac cr) secret (c_sha cr (cl_nonce c @ snonce)) (channel_label @ sid @ th) 136)"
  shows "handleServerHello cr w p2 c =
    (Some (w_finished w (c_hmac cr (k_cfinished ks) th)),
     c\<lparr>cl_serverPayload := p2, cl_serverPub := spub, cl_serverNonce := snonce, cl_sessionId := sid,
       cl_keyId := kid, cl_transcriptHash := th, cl_keys := ks, cl_status := FinishedSent\<rparr>)"
  using assms
  by (simp add: handleServerHello_def Let_def wire_ok_def crypto_ok_def identity_pair_def client_material_def)

text \<open>
  C3: the handshake. When the server answers a ClientHello of an honest client that trusts its
  identity key, the client accepts the answer, the server accepts the client's Finished and the client
  the server's: both ends are then established with the same session id, the same transcript and the same
  six keys, each of its length, and all four sequence numbers at zero.
\<close>

theorem handshake_agrees:
  assumes "wire_ok w" and "crypto_ok cr" and "identity_pair cr idpriv idpub"
    and "cl_identityKeys c0 kid = Some idpub"
    and "cl_testPriv c0 = []" "cl_testNonce c0 = []" "cl_testRandomId c0 = []"
    and "c_public cr priv = Some pub" and "c_public cr spriv = Some spub"
    and "length spub = 32" "length snonce = 32" "length sid = 16"
    and "buildClientHello cr w (Some (priv, pub)) (Some nonce) (Some rid) c0 = (Some p1, c1)"
    and "sv_read cr w (idpriv, kid) (Some (spriv, spub)) (Some snonce) (Some sid) (prot_num APP_CLIENT_HELLO) p1
      (sv_tlsDone sv_new) = (s1, [RawFrame t p2])"
  shows "\<exists>p3 c2 s2 p4 c3. t = prot_num APP_SERVER_HELLO \<and> handleServerHello cr w p2 c1 = (Some p3, c2) \<and>
    sv_read cr w (idpriv, kid) eph rnd32 rnd16 (prot_num APP_CLIENT_FINISHED) p3 s1 =
      (s2, [RawFrame (prot_num APP_SERVER_FINISHED) p4]) \<and>
    handleServerFinished cr w p4 c2 = (True, c3) \<and> matched c3 s2"
proof -
  note h = client_hello_sent [OF assms(13,5-7)]
  obtain sig secret where t: "t = prot_num APP_SERVER_HELLO" and
    sig: "c_sign cr idpriv (signingTranscript p1 APP_SECURITY_VERSION spub snonce sid kid APP_CIPHER_SUITE_V1) = Some sig"
    and p2: "p2 = w_serverHello w \<lparr>sh_version = APP_SECURITY_VERSION, sh_public = spub, sh_nonce = snonce,
      sh_session = sid, sh_keyId = kid, sh_signature = sig, sh_suite = APP_CIPHER_SUITE_V1\<rparr>"
    and secret: "c_derive cr spriv pub = Some secret" "\<not> list_all (\<lambda>b. b = 0) secret"
    and s1: "s1 = \<lparr>sv_state = WaitClientFinished, sv_transcriptHash = finishedTranscriptHash cr p1 p2,
      sv_keys = cut_keys (rfc_hkdf (c_hmac cr) secret (c_sha cr (nonce @ snonce))
        (channel_label @ sid @ finishedTranscriptHash cr p1 p2) 136),
      sv_sessionId = sid, sv_sendSequence = 0, sv_receiveSequence = 0, sv_closedNotified = False\<rparr>"
    using server_hello_sent [OF assms(14) assms(1)] assms(2) h unfolding crypto_ok_def by blast
  define th where "th = finishedTranscriptHash cr p1 p2"
  define ks where "ks = cut_keys (rfc_hkdf (c_hmac cr) secret (c_sha cr (nonce @ snonce)) (channel_label @ sid @ th) 136)"
  have c1: "cl_status c1 = HelloSent" "cl_identityKeys c1 kid = Some idpub" "cl_clientPayload c1 = p1"
    "cl_priv c1 = priv" "cl_nonce c1 = nonce" "cl_sendSequence c1 = 0" "cl_receiveSequence c1 = 0"
    using h assms(4) by (simp_all add: cl_reset_def)
  have "c_derive cr priv spub = Some secret"
    using assms(2,8,9) secret(1) unfolding crypto_ok_def by metis
  then have c2: "handleServerHello cr w p2 c1 = (Some (w_finished w (c_hmac cr (k_cfinished ks) th)),
     c1\<lparr>cl_serverPayload := p2, cl_serverPub := spub, cl_serverNonce := snonce, cl_sessionId := sid,
       cl_keyId := kid, cl_transcriptHash := th, cl_keys := ks, cl_status := FinishedSent\<rparr>)"
    using c1 sig secret(2) assms(10-12)
    by (intro client_finished_sent [OF c1(1) assms(1,2) p2 _ _ _ c1(2) assms(3)]) (simp_all add: th_def ks_def)
  have l32: "length (c_hmac cr k d) = 32" for k d using assms(2) by (simp add: crypto_ok_def hmac32_def)
  define p3 where "p3 = w_finished w (c_hmac cr (k_cfinished ks) th)"
  define p4 where "p4 = w_finished w (c_hmac cr (k_sfinished ks) (th @ c_hmac cr (k_cfinished ks) th))"
  have r3: "r_finished w p3 = Some (c_hmac cr (k_cfinished ks) th)" "length p3 \<le> 1024"
    using assms(1) l32 by (simp_all add: wire_ok_def p3_def)
  have s2: "sv_read cr w (idpriv, kid) eph rnd32 rnd16 (prot_num APP_CLIENT_FINISHED) p3 s1 =
      (s1\<lparr>sv_state := SvEstablished\<rparr>, [RawFrame (prot_num APP_SERVER_FINISHED) p4])"
    using r3 l32 unfolding s1 th_def [symmetric] ks_def [symmetric] p4_def
    by (simp add: sv_read_def handleApplicationHandshake_def handleClientFinished_def app_lens)
  have "hmac32 (c_hmac cr)" using assms(2) by (simp add: crypto_ok_def)
  then have "matched (c1\<lparr>cl_serverPayload := p2, cl_serverPub := spub, cl_serverNonce := snonce, cl_sessionId := sid,
       cl_keyId := kid, cl_transcriptHash := th, cl_keys := ks, cl_status := ChEstablished\<rparr>)
      (s1\<lparr>sv_state := SvEstablished\<rparr>)"
    using c1 assms(12) cut_keys_lengths length_rfc_hkdf unfolding s1 th_def [symmetric] ks_def [symmetric]
    by (simp add: matched_def) (simp add: ks_def cut_keys_lengths length_rfc_hkdf)
  moreover have "handleServerFinished cr w p4 (c1\<lparr>cl_serverPayload := p2, cl_serverPub := spub,
       cl_serverNonce := snonce, cl_sessionId := sid,
       cl_keyId := kid, cl_transcriptHash := th, cl_keys := ks, cl_status := FinishedSent\<rparr>) =
     (True, c1\<lparr>cl_serverPayload := p2, cl_serverPub := spub, cl_serverNonce := snonce, cl_sessionId := sid,
       cl_keyId := kid, cl_transcriptHash := th, cl_keys := ks, cl_status := ChEstablished\<rparr>)"
    using assms(1) l32 by (simp add: handleServerFinished_def wire_ok_def p4_def Let_def)
  ultimately show ?thesis using t c2 s2 unfolding p3_def by blast
qed

section \<open>Business frames\<close>

lemma byte_bits:
  fixes v w :: u64
  assumes "(ucast (drop_bit m v) :: byte) = ucast (drop_bit m w)" and "m \<le> n" "n < m + 8"
  shows "bit v n = bit w n"
proof -
  have "bit (ucast (drop_bit m v) :: byte) (n - m) = bit (ucast (drop_bit m w) :: byte) (n - m)"
    using assms(1) by simp
  moreover have "n - m < 8" using assms(2,3) by simp
  ultimately show ?thesis using assms(2) by (simp add: bit_ucast_iff bit_drop_bit_eq)
qed

lemma put_u64_inject: "put_u64 v = put_u64 w \<Longrightarrow> v = w"
proof (rule bit_word_eqI)
  fix n
  assume e: "put_u64 v = put_u64 w" and n: "n < LENGTH(64)"
  define m where "m = 8 * (n div 8)"
  have "n div 8 \<in> {0, 1, 2, 3, 4, 5, 6, 7}" using n by auto
  then have "(ucast (drop_bit m v) :: byte) = ucast (drop_bit m w)"
    using e unfolding put_u64_def m_def by auto
  moreover have "m \<le> n" "n < m + 8" unfolding m_def by simp_all
  ultimately show "bit v n = bit w n" by (rule byte_bits)
qed

text \<open>The client encrypts messages one after the other; the server reads raw frames.\<close>

fun client_send :: "crypto \<Rightarrow> wire \<Rightarrow> (u32 \<times> bytes) list \<Rightarrow> client_channel \<Rightarrow> bytes list" where
  "client_send cr w [] c = []"
| "client_send cr w (m # ms) c =
     (case encrypt cr w (fst m) (snd m) c of
        (None, c) \<Rightarrow> client_send cr w ms c
      | (Some f, c) \<Rightarrow> f # client_send cr w ms c)"

fun server_receive :: "crypto \<Rightarrow> wire \<Rightarrow> bytes \<times> u32 \<Rightarrow> (u32 \<times> bytes) list \<Rightarrow> server_channel \<Rightarrow> sv_out list" where
  "server_receive cr w idn [] s = []"
| "server_receive cr w idn (f # fs) s =
     (case sv_read cr w idn None None None (fst f) (snd f) s of
        (s, out) \<Rightarrow> out @ server_receive cr w idn fs s)"

fun dispatched :: "sv_out list \<Rightarrow> (u32 \<times> bytes) list" where
  "dispatched [] = []"
| "dispatched (Dispatch t p # xs) = (t, p) # dispatched xs"
| "dispatched (_ # xs) = dispatched xs"

lemma dispatched_append [simp]: "dispatched (xs @ ys) = dispatched xs @ dispatched ys"
  by (induction xs rule: dispatched.induct) simp_all

text \<open>
  The ideal reading of AES-GCM's authenticity: under the key, only what the client sealed opens, that is,
  the \<open>i\<close>-th message with the \<open>i\<close>-th nonce.
\<close>

definition authentic :: "crypto \<Rightarrow> bytes \<Rightarrow> bytes \<Rightarrow> (u32 \<times> bytes) list \<Rightarrow> bool" where
  "authentic cr key prefix ms \<longleftrightarrow>
     (\<forall>nonce ct aad tag pt. c_open cr key nonce ct aad tag = Some pt \<longrightarrow>
        (\<exists>i < length ms. nonce = client_nonce prefix (of_nat (Suc i)) \<and>
           pt = encodeType32 (fst (ms ! i)) @ snd (ms ! i)))"

lemma closed_reads_nothing: "sv_state s = SvClosed \<Longrightarrow> server_receive cr w idn fs s = []"
  by (induction fs arbitrary: s)
     (simp_all add: sv_read_def handleApplicationHandshake_def failApplicationHandshake_def)

lemma fail_closes:
  assumes "sv_state s = SvEstablished"
  shows "sv_state (fst (failApplicationHandshake s)) = SvClosed \<and> dispatched (snd (failApplicationHandshake s)) = []"
  using assms by (simp add: failApplicationHandshake_def)

text \<open>Reading one frame on an established channel: the next message comes out, or the channel closes.\<close>

lemma read_cases:
  assumes "sv_state s = SvEstablished" and "length (k_cprefix (sv_keys s)) = 4"
    and "authentic cr (k_c2s (sv_keys s)) (k_cprefix (sv_keys s)) ms" and "length ms < 2 ^ 64 - 1"
    and "sv_read cr w idn None None None t p s = (s', out)"
  shows "sv_state s' = SvClosed \<and> dispatched out = [] \<or>
    unat (sv_receiveSequence s) < length ms \<and> dispatched out = [ms ! unat (sv_receiveSequence s)] \<and>
    s' = s\<lparr>sv_receiveSequence := sv_receiveSequence s + 1\<rparr>"
proof (cases "\<exists>x y. out = [Dispatch x y]")
  case False
  then show ?thesis
    using assms(1,5) fail_closes [OF assms(1)]
    by (auto simp: sv_read_def handleEncryptedFrame_def Let_def split: if_splits option.splits)
next
  case True
  then obtain x y where out: "out = [Dispatch x y]" by blast
  obtain f nonce pt where f: "r_frame w p = Some f" "ef_sequence f = sv_receiveSequence s + 1" "ef_sequence f \<noteq> 0"
    and n: "frameNonce (k_cprefix (sv_keys s)) (ef_sequence f) = Some nonce"
    and pt: "c_open cr (k_c2s (sv_keys s)) nonce (ef_ciphertext f)
        (frameAad (sv_sessionId s) (ef_sequence f)) (ef_tag f) = Some pt"
    and xy: "x = decodeType32 pt" "y = drop 4 pt" and s': "s' = s\<lparr>sv_receiveSequence := ef_sequence f\<rparr>"
    using assms(1,5) out
    by (auto simp: sv_read_def handleEncryptedFrame_def aes256GcmDecrypt_def failApplicationHandshake_def Let_def
        split: if_splits option.splits)
  obtain i where i: "i < length ms" "nonce = client_nonce (k_cprefix (sv_keys s)) (of_nat (Suc i))"
    "pt = encodeType32 (fst (ms ! i)) @ snd (ms ! i)"
    using assms(3) pt unfolding authentic_def by blast
  have "put_u64 (ef_sequence f) = put_u64 (of_nat (Suc i))"
    using n i(2) assms(2) by (auto simp: frameNonce_def client_nonce_def split: if_splits)
  then have "sv_receiveSequence s + 1 = of_nat i + 1"
    using f(2) put_u64_inject by (metis add.commute of_nat_Suc)
  then have "sv_receiveSequence s = of_nat i" by simp
  moreover have "i < 2 ^ 64" using i(1) assms(4) by simp
  ultimately have "unat (sv_receiveSequence s) = i"
    by (simp add: unat_of_nat take_bit_nat_eq_self)
  moreover have "(x, y) = ms ! i"
    using xy i(3) decode_encode_Type32 by (simp add: prod_eq_iff)
  ultimately show ?thesis using out s' f(2) i(1) by simp
qed

lemma receive_prefix:
  assumes "sv_state s = SvEstablished" and "length (k_cprefix (sv_keys s)) = 4"
    and "authentic cr (k_c2s (sv_keys s)) (k_cprefix (sv_keys s)) ms" and "length ms < 2 ^ 64 - 1"
  shows "\<exists>n. dispatched (server_receive cr w idn fs s) = take n (drop (unat (sv_receiveSequence s)) ms)"
  using assms
proof (induction fs arbitrary: s)
  case Nil
  then show ?case by (auto intro: exI [of _ 0])
next
  case (Cons f fs)
  obtain s' out where r: "sv_read cr w idn None None None (fst f) (snd f) s = (s', out)"
    by (cases "sv_read cr w idn None None None (fst f) (snd f) s")
  from read_cases [OF Cons.prems r] show ?case
  proof (elim disjE conjE)
    assume "sv_state s' = SvClosed" "dispatched out = []"
    then show ?thesis using r closed_reads_nothing by (auto intro: exI [of _ 0])
  next
    assume lt: "unat (sv_receiveSequence s) < length ms" and d: "dispatched out = [ms ! unat (sv_receiveSequence s)]"
      and s': "s' = s\<lparr>sv_receiveSequence := sv_receiveSequence s + 1\<rparr>"
    obtain n where n: "dispatched (server_receive cr w idn fs s') = take n (drop (unat (sv_receiveSequence s')) ms)"
      using Cons.IH [of s'] Cons.prems s' by auto
    have "unat (sv_receiveSequence s + 1) = Suc (unat (sv_receiveSequence s))"
      using lt Cons.prems(4) by (simp add: unat_word_ariths)
    then show ?thesis
      using r n d s' lt by (intro exI [of _ "Suc n"]) (simp add: Cons_nth_drop_Suc [symmetric])
  qed
qed

text \<open>What an honest client's frame does to the server's end.\<close>

lemma honest_frame:
  assumes "wire_ok w" and "crypto_ok cr" and "encrypt cr w t p c = (Some f, c')"
    and "sv_state s = SvEstablished" and "cl_keys c = sv_keys s" and "cl_sessionId c = sv_sessionId s"
    and "length (k_c2s (sv_keys s)) = 32" and "length (k_cprefix (sv_keys s)) = 4"
    and "sv_receiveSequence s = cl_sendSequence c"
  shows "sv_read cr w idn None None None (prot_num APP_ENCRYPTED_FRAME) f s =
      (s\<lparr>sv_receiveSequence := cl_sendSequence c + 1\<rparr>, [Dispatch t p]) \<and>
    c' = c\<lparr>cl_sendSequence := cl_sendSequence c + 1\<rparr>"
proof -
  define sq where "sq = cl_sendSequence c + 1"
  obtain ct tag where e: "cl_status c = ChEstablished" "\<not> control_prot t" "cl_sendSequence c \<noteq> - 1"
    "c_seal cr (k_c2s (cl_keys c)) (client_nonce (k_cprefix (cl_keys c)) sq) (encodeType32 t @ p)
       (frameAad (cl_sessionId c) sq) = Some (ct, tag)"
    "f = w_frame w \<lparr>ef_version = APP_SECURITY_VERSION, ef_session = cl_sessionId c, ef_sequence = sq,
       ef_ciphertext = ct, ef_tag = tag\<rparr>"
    "c' = c\<lparr>cl_sendSequence := sq\<rparr>"
    using assms(3) by (auto simp: encrypt_def Let_def sq_def split: if_splits option.splits)
  have sq: "sq \<noteq> 0" using e(3) by (metis add.commute add_eq_0_iff sq_def)
  have o: "c_open cr (k_c2s (cl_keys c)) (client_nonce (k_cprefix (cl_keys c)) sq) ct (frameAad (cl_sessionId c) sq) tag =
      Some (encodeType32 t @ p)" "length ct = length (encodeType32 t @ p)" "length tag = 16"
    using assms(2) e(4) unfolding crypto_ok_def by blast+
  have n: "frameNonce (k_cprefix (sv_keys s)) sq = Some (client_nonce (k_cprefix (sv_keys s)) sq)"
    "length (client_nonce (k_cprefix (sv_keys s)) sq) = 12"
    using assms(8) sq by (simp_all add: frameNonce_def client_nonce_def put_u64_def)
  have "r_frame w f = Some \<lparr>ef_version = APP_SECURITY_VERSION, ef_session = cl_sessionId c, ef_sequence = sq,
       ef_ciphertext = ct, ef_tag = tag\<rparr>"
    using assms(1) e(5) by (simp add: wire_ok_def)
  then show ?thesis
    using e o n sq assms(4-9)
    by (simp add: sv_read_def handleEncryptedFrame_def aes256GcmDecrypt_def app_lens Let_def decode_encode_Type32
        flip: sq_def)
qed

lemma failed_sends_nothing: "cl_status c \<noteq> ChEstablished \<Longrightarrow> client_send cr w ms c = []"
  by (induction ms arbitrary: c) (simp_all add: encrypt_def cl_fail_def)

lemma encrypt_failure: "encrypt cr w t p c = (None, c') \<Longrightarrow> cl_status c' = ChFailed"
  by (auto simp: encrypt_def cl_fail_def Let_def split: if_splits option.splits prod.splits)

lemma honest_run:
  assumes "wire_ok w" and "crypto_ok cr"
  shows "sv_state s = SvEstablished \<Longrightarrow> cl_keys c = sv_keys s \<Longrightarrow> cl_sessionId c = sv_sessionId s \<Longrightarrow>
    length (k_c2s (sv_keys s)) = 32 \<Longrightarrow> length (k_cprefix (sv_keys s)) = 4 \<Longrightarrow>
    sv_receiveSequence s = cl_sendSequence c \<Longrightarrow> length (client_send cr w ms c) = length ms \<Longrightarrow>
    dispatched (server_receive cr w idn (map (Pair (prot_num APP_ENCRYPTED_FRAME)) (client_send cr w ms c)) s) = ms"
proof (induction ms arbitrary: c s)
  case (Cons m ms)
  obtain r c' where e: "encrypt cr w (fst m) (snd m) c = (r, c')" by (cases "encrypt cr w (fst m) (snd m) c")
  show ?case
  proof (cases r)
    case None
    then have "client_send cr w ms c' = []"
      using e encrypt_failure failed_sends_nothing by fastforce
    then show ?thesis using Cons.prems(7) e None by simp
  next
    case (Some f)
    note h = honest_frame [OF assms e [unfolded Some] Cons.prems(1-6), of idn]
    have "dispatched (server_receive cr w idn (map (Pair (prot_num APP_ENCRYPTED_FRAME)) (client_send cr w ms c'))
        (s\<lparr>sv_receiveSequence := cl_sendSequence c + 1\<rparr>)) = ms"
      using Cons.prems e Some h by (intro Cons.IH) simp_all
    then show ?thesis using e Some h by simp
  qed
qed simp

text \<open>
  C2: business frames. On two established ends, whatever frames reach the server, what it dispatches is
  a prefix of what the client sent: nothing is forged, replayed, reordered or skipped. And the frames of
  the client, arriving as they were sent, all come out.
\<close>

theorem channel_delivers_in_order:
  assumes "matched c s" and "wire_ok w" and "crypto_ok cr"
    and "authentic cr (k_c2s (sv_keys s)) (k_cprefix (sv_keys s)) ms" and "length ms < 2 ^ 64 - 1"
  shows "(\<exists>n. dispatched (server_receive cr w idn fs s) = take n ms) \<and>
    (length (client_send cr w ms c) = length ms \<longrightarrow>
      dispatched (server_receive cr w idn
        (map (Pair (prot_num APP_ENCRYPTED_FRAME)) (client_send cr w ms c)) s) = ms)"
proof -
  have "sv_state s = SvEstablished" "length (k_cprefix (sv_keys s)) = 4" "sv_receiveSequence s = 0"
    using assms(1) by (simp_all add: matched_def)
  then have "\<exists>n. dispatched (server_receive cr w idn fs s) = take n ms"
    using receive_prefix [of s cr ms w idn fs] assms(4,5) by simp
  moreover have "dispatched (server_receive cr w idn
        (map (Pair (prot_num APP_ENCRYPTED_FRAME)) (client_send cr w ms c)) s) = ms"
    if "length (client_send cr w ms c) = length ms"
    using assms(1) that by (intro honest_run [OF assms(2,3)]) (simp_all add: matched_def)
  ultimately show ?thesis by simp
qed

section \<open>A concrete channel\<close>

text \<open>
  Concrete functions for the parameters: fields written byte by byte behind a marker, numbers in unary,
  and primitives without secrets.
\<close>

fun put_field :: "bytes \<Rightarrow> bytes" where
  "put_field [] = [0]"
| "put_field (x # xs) = 1 # x # put_field xs"

fun get_field :: "bytes \<Rightarrow> (bytes \<times> bytes) option" where
  "get_field (m # r) =
     (if m = 0 then Some ([], r)
      else case r of [] \<Rightarrow> None | x # r \<Rightarrow> map_option (\<lambda>(xs, r). (x # xs, r)) (get_field r))"
| "get_field [] = None"

fun get_fields :: "nat \<Rightarrow> bytes \<Rightarrow> bytes list option" where
  "get_fields 0 r = Some []"
| "get_fields (Suc n) r =
     (case get_field r of None \<Rightarrow> None | Some (x, r) \<Rightarrow> map_option (Cons x) (get_fields n r))"

definition unary :: "'a::len word \<Rightarrow> bytes" where
  "unary v = replicate (unat v) 1"

definition from_unary :: "bytes \<Rightarrow> 'a::len word" where
  "from_unary b = of_nat (length b)"

lemma get_put_field [simp]: "get_field (put_field xs @ r) = Some (xs, r)"
  by (induction xs) simp_all

lemma get_put_fields: "get_fields (length xs) (concat (map put_field xs)) = Some xs"
  by (induction xs) simp_all

lemma from_unary [simp]: "from_unary (unary v) = v"
  by (simp add: from_unary_def unary_def)

definition demo_wire :: wire where
  "demo_wire =
     \<lparr>w_clientHello = (\<lambda>m. concat (map put_field [unary (ch_version m), ch_public m, ch_nonce m, ch_randomId m,
        unary (ch_suite m)])),
      r_clientHello = (\<lambda>b. map_option (\<lambda>xs. \<lparr>ch_version = from_unary (xs ! 0), ch_public = xs ! 1,
        ch_nonce = xs ! 2, ch_randomId = xs ! 3, ch_suite = from_unary (xs ! 4)\<rparr>) (get_fields 5 b)),
      w_serverHello = (\<lambda>m. concat (map put_field [unary (sh_version m), sh_public m, sh_nonce m, sh_session m,
        unary (sh_keyId m), sh_signature m, unary (sh_suite m)])),
      r_serverHello = (\<lambda>b. map_option (\<lambda>xs. \<lparr>sh_version = from_unary (xs ! 0), sh_public = xs ! 1,
        sh_nonce = xs ! 2, sh_session = xs ! 3, sh_keyId = from_unary (xs ! 4), sh_signature = xs ! 5,
        sh_suite = from_unary (xs ! 6)\<rparr>) (get_fields 7 b)),
      w_finished = put_field,
      r_finished = (\<lambda>b. map_option fst (get_field b)),
      w_frame = (\<lambda>f. concat (map put_field [unary (ef_version f), ef_session f, unary (ef_sequence f),
        ef_ciphertext f, ef_tag f])),
      r_frame = (\<lambda>b. map_option (\<lambda>xs. \<lparr>ef_version = from_unary (xs ! 0), ef_session = xs ! 1,
        ef_sequence = from_unary (xs ! 2), ef_ciphertext = xs ! 3, ef_tag = xs ! 4\<rparr>) (get_fields 5 b))\<rparr>"

lemma length_put_field: "length (put_field xs) = 2 * length xs + 1"
  by (induction xs) simp_all

lemma demo_wire_ok: "wire_ok demo_wire"
proof -
  have f5: "get_fields 5 (concat (map put_field [a, b, c, d, e])) = Some [a, b, c, d, e]" for a b c d e
  proof -
    have "length [a, b, c, d, e] = 5" by simp
    then show ?thesis using get_put_fields [of "[a, b, c, d, e]"] by (simp only:)
  qed
  have f7: "get_fields 7 (concat (map put_field [a, b, c, d, e, f, g])) = Some [a, b, c, d, e, f, g]" for a b c d e f g
  proof -
    have "length [a, b, c, d, e, f, g] = 7" by simp
    then show ?thesis using get_put_fields [of "[a, b, c, d, e, f, g]"] by (simp only:)
  qed
  have f1: "get_field (put_field v) = Some (v, [])" for v
    using get_put_field [of v "[]"] by simp
  show ?thesis
    unfolding wire_ok_def demo_wire_def using f5 f7 f1
    by (simp del: concat.simps list.map get_fields.simps add: length_put_field)
qed

definition demo_crypto :: "(bytes \<times> bytes) list \<Rightarrow> crypto" where
  "demo_crypto sealed =
     \<lparr>c_public = Some, c_derive = (\<lambda>a b. Some (map2 (XOR) a b)),
      c_sign = (\<lambda>k m. Some (replicate 64 (of_nat (length m)))),
      c_verify = (\<lambda>k m s. s = replicate 64 (of_nat (length m))),
      c_hmac = (\<lambda>k d. replicate 32 (of_nat (length k + length d))),
      c_sha = (\<lambda>d. replicate 32 (of_nat (length d))),
      c_hkdf = (\<lambda>ikm salt info n. Some (rfc_hkdf (\<lambda>k d. replicate 32 (of_nat (length k + length d))) ikm salt info n)),
      c_seal = (\<lambda>k n p a. if (n, p) \<in> set sealed then Some (p, replicate 16 0) else None),
      c_open = (\<lambda>k n c a t. if (n, c) \<in> set sealed \<and> t = replicate 16 0 then Some c else None)\<rparr>"

lemma demo_crypto_ok: "crypto_ok (demo_crypto sealed)"
proof -
  have "map2 (XOR) a b = map2 (XOR) b a" for a b :: bytes
    by (induction a b rule: list_induct2') (simp_all add: xor.commute)
  then show ?thesis
    unfolding crypto_ok_def demo_crypto_def hmac32_def by auto
qed

lemma demo_identity: "identity_pair (demo_crypto sealed) (replicate 32 7) (replicate 32 7)"
  by (simp add: identity_pair_def demo_crypto_def)

definition demo_client :: client_channel where
  "demo_client = setTrustedIdentityKeys [1 \<mapsto> replicate 32 7] cl_new"

definition demo_hello :: "bytes option \<times> client_channel" where
  "demo_hello = buildClientHello (demo_crypto []) demo_wire (Some (replicate 32 1, replicate 32 1))
     (Some (replicate 32 2)) (Some (replicate 16 3)) demo_client"

definition demo_answer :: "server_channel \<times> sv_out list" where
  "demo_answer = sv_read (demo_crypto []) demo_wire (replicate 32 7, 1) (Some (replicate 32 4, replicate 32 4))
     (Some (replicate 32 5)) (Some (replicate 16 6)) (prot_num APP_CLIENT_HELLO) (the (fst demo_hello))
     (sv_tlsDone sv_new)"

theorem handshake_agrees_witness:
  "fst (handleServerHello (demo_crypto []) demo_wire
     (case snd demo_answer of RawFrame t p # _ \<Rightarrow> p | _ \<Rightarrow> []) (snd demo_hello)) \<noteq> None"
proof -
  obtain p1 where p1: "fst demo_hello = Some p1"
    by (simp add: demo_hello_def buildClientHello_def demo_client_def setTrustedIdentityKeys_def cl_new_def
        cl_reset_def Let_def)
  define hello where "hello = \<lparr>ch_version = APP_SECURITY_VERSION, ch_public = replicate 32 1,
    ch_nonce = replicate 32 2, ch_randomId = replicate 16 3, ch_suite = APP_CIPHER_SUITE_V1\<rparr>"
  have w1: "p1 = w_clientHello demo_wire hello"
    using p1 by (simp add: demo_hello_def buildClientHello_def demo_client_def setTrustedIdentityKeys_def cl_new_def
        cl_reset_def Let_def hello_def)
  then have r1: "r_clientHello demo_wire p1 = Some hello" "length p1 \<le> 1024"
    using demo_wire_ok
    by (simp_all add: wire_ok_def)
       (simp add: demo_wire_def hello_def length_put_field unary_def APP_SECURITY_VERSION_def APP_CIPHER_SUITE_V1_def)
  have hm: "hmac32 (c_hmac (demo_crypto []))" by (simp add: hmac32_def demo_crypto_def)
  have sg: "ed25519Sign (demo_crypto []) (replicate 32 7) m = Some (replicate 64 (of_nat (length m)))" for m
    by (simp add: ed25519Sign_def demo_crypto_def)
  have dh: "x25519SharedSecret (demo_crypto []) (replicate 32 4) (replicate 32 1) = Some (replicate 32 5)"
    by code_simp
  obtain t p2 where p2: "snd demo_answer = [RawFrame t p2]"
    using p1 r1 unfolding demo_answer_def sv_read_def handleApplicationHandshake_def handleClientHello_def
    by (simp add: sv_tlsDone_def sv_new_def sg hello_def app_lens dh hkdf_returns [OF hm] Let_def)
  have h: "buildClientHello (demo_crypto []) demo_wire (Some (replicate 32 1, replicate 32 1))
      (Some (replicate 32 2)) (Some (replicate 16 3)) demo_client = (Some p1, snd demo_hello)"
    using p1 unfolding demo_hello_def by (simp add: prod_eq_iff)
  have a: "sv_read (demo_crypto []) demo_wire (replicate 32 7, 1) (Some (replicate 32 4, replicate 32 4))
     (Some (replicate 32 5)) (Some (replicate 16 6)) (prot_num APP_CLIENT_HELLO) p1
     (sv_tlsDone sv_new) = (fst demo_answer, [RawFrame t p2])"
    using p1 p2 unfolding demo_answer_def by (simp add: prod_eq_iff)
  have k: "cl_identityKeys demo_client 1 = Some (replicate 32 7)" "cl_testPriv demo_client = []"
    "cl_testNonce demo_client = []" "cl_testRandomId demo_client = []"
    by (simp_all add: demo_client_def setTrustedIdentityKeys_def cl_new_def)
  have pub: "c_public (demo_crypto []) x = Some x" for x by (simp add: demo_crypto_def)
  have l: "length (replicate 32 x) = 32" "length (replicate 16 x) = 16" for x :: byte by simp_all
  obtain p3 c2 where "handleServerHello (demo_crypto []) demo_wire p2 (snd demo_hello) = (Some p3, c2)"
    using handshake_agrees [OF demo_wire_ok demo_crypto_ok demo_identity k pub pub l(1) l(1) l(2) h a, of None None None]
    by blast
  then show ?thesis using p2 by simp
qed

definition demo_keys :: keys where
  "demo_keys = \<lparr>k_c2s = replicate 32 1, k_s2c = replicate 32 2, k_cprefix = [1, 2, 3, 4], k_sprefix = [5, 6, 7, 8],
     k_cfinished = replicate 32 3, k_sfinished = replicate 32 4\<rparr>"

definition demo_sealed :: "(bytes \<times> bytes) list" where
  "demo_sealed = [(client_nonce [1, 2, 3, 4] 1, encodeType32 (prot_num HEARTBEAT_RQ) @ [9])]"

theorem channel_delivers_in_order_witness:
  "(let c = cl_new\<lparr>cl_status := ChEstablished, cl_keys := demo_keys, cl_sessionId := replicate 16 9\<rparr>;
        s = sv_new\<lparr>sv_state := SvEstablished, sv_keys := demo_keys, sv_sessionId := replicate 16 9\<rparr>
    in dispatched (server_receive (demo_crypto demo_sealed) demo_wire ([], 0)
         (map (Pair (prot_num APP_ENCRYPTED_FRAME))
            (client_send (demo_crypto demo_sealed) demo_wire [(prot_num HEARTBEAT_RQ, [9])] c)) s)) =
   [(prot_num HEARTBEAT_RQ, [9])]"
proof -
  define c where "c = cl_new\<lparr>cl_status := ChEstablished, cl_keys := demo_keys, cl_sessionId := replicate 16 9\<rparr>"
  define s where "s = sv_new\<lparr>sv_state := SvEstablished, sv_keys := demo_keys, sv_sessionId := replicate 16 9\<rparr>"
  have m: "matched c s"
    by (simp add: matched_def c_def s_def demo_keys_def cl_new_def sv_new_def)
  have a: "authentic (demo_crypto demo_sealed) (k_c2s (sv_keys s)) (k_cprefix (sv_keys s)) [(prot_num HEARTBEAT_RQ, [9])]"
    by (auto simp: authentic_def demo_crypto_def demo_sealed_def s_def demo_keys_def split: if_splits)
  have l: "length [(prot_num HEARTBEAT_RQ, [9 :: byte])] < 2 ^ 64 - 1" by simp
  have "length (client_send (demo_crypto demo_sealed) demo_wire [(prot_num HEARTBEAT_RQ, [9])] c) =
      length [(prot_num HEARTBEAT_RQ, [9 :: byte])]"
    unfolding c_def by code_simp
  with channel_delivers_in_order [OF m demo_wire_ok demo_crypto_ok a l]
  show ?thesis unfolding c_def s_def Let_def by blast
qed

end
