(* ===== verification/AiContext.thy ===== *)
theory AiContext
  imports MessageStore Sha256
begin

text \<open>
  What the server's AI feature sends to a model: the configuration (\<^verbatim>\<open>im_server/src/ai/AiConfig.cpp\<close>),
  the redaction of private data and the selection of the conversation's latest messages
  (\<^verbatim>\<open>AiContextBuilder.cpp\<close>). The regular expressions are those of the code; a match is the one the
  ECMAScript grammar of \<^verbatim>\<open>std::regex\<close> finds first.
\<close>

section \<open>Configuration\<close>

type_synonym environment = "string \<Rightarrow> string option"

definition env_get :: "environment \<Rightarrow> string \<Rightarrow> string" where
  "env_get ev name = (case ev name of None \<Rightarrow> [] | Some v \<Rightarrow> v)"

definition c_digit :: "char \<Rightarrow> bool" where
  "c_digit c \<longleftrightarrow> 48 \<le> (of_char c :: nat) \<and> (of_char c :: nat) \<le> 57"

definition c_space :: "char \<Rightarrow> bool" where
  "c_space c \<longleftrightarrow> c = CHR 0x20 \<or> 9 \<le> (of_char c :: nat) \<and> (of_char c :: nat) \<le> 13"

text \<open>\<open>std::stol\<close>: \<open>None\<close> when it throws.\<close>

definition c_stol :: "string \<Rightarrow> int option" where
  "c_stol s =
     (let s = dropWhile c_space s;
          neg = (s \<noteq> [] \<and> hd s = CHR ''-'');
          s = (if s \<noteq> [] \<and> (hd s = CHR ''-'' \<or> hd s = CHR ''+'') then tl s else s);
          digits = takeWhile c_digit s;
          v = foldl (\<lambda>a c. 10 * a + (of_char c - 48)) (0::int) digits;
          v = (if neg then - v else v)
      in if digits = [] \<or> v < - (2 ^ 63) \<or> v \<ge> 2 ^ 63 then None else Some v)"

definition envInt :: "environment \<Rightarrow> string \<Rightarrow> int \<Rightarrow> int \<Rightarrow> int \<Rightarrow> int" where
  "envInt ev name fallback minimum maximum =
     (let value = env_get ev name in
      if value = [] then fallback
      else case c_stol value of
        None \<Rightarrow> fallback
      | Some parsed \<Rightarrow> if parsed < minimum \<or> parsed > maximum then fallback else parsed)"

definition envBool :: "environment \<Rightarrow> string \<Rightarrow> bool \<Rightarrow> bool" where
  "envBool ev name fallback =
     (let value = env_get ev name in
      if value = [] then fallback
      else value = ''1'' \<or> value = ''true'' \<or> value = ''TRUE'' \<or> value = ''yes'' \<or> value = ''on'')"

datatype ai_provider = OpenAI | Anthropic

record ai_config =
  ac_feature :: bool
  ac_rollout :: int
  ac_provider :: ai_provider
  ac_apiKey :: string
  ac_model :: string
  ac_host :: string
  ac_port :: int
  ac_path :: string
  ac_timeoutMs :: int
  ac_maxOutput :: int
  ac_noThinking :: bool
  ac_maxMessages :: int
  ac_maxContext :: int
  ac_maxMessage :: int
  ac_perMinute :: int
  ac_maxPending :: int
  ac_replay :: int
  ac_caCert :: string
  ac_version :: string

definition default_config :: ai_config where
  "default_config = \<lparr>ac_feature = True, ac_rollout = 100, ac_provider = OpenAI, ac_apiKey = [], ac_model = [],
     ac_host = ''api.openai.com'', ac_port = 443, ac_path = ''/v1/responses'', ac_timeoutMs = 15000,
     ac_maxOutput = 180, ac_noThinking = True, ac_maxMessages = 20, ac_maxContext = 12000,
     ac_maxMessage = 2000, ac_perMinute = 5, ac_maxPending = 8, ac_replay = 300, ac_caCert = [],
     ac_version = ''2023-06-01''\<rparr>"

definition starts_with :: "string \<Rightarrow> string \<Rightarrow> bool" where
  "starts_with p s \<longleftrightarrow> take (length p) s = p"

definition strip_slashes :: "string \<Rightarrow> string" where
  "strip_slashes s = rev (dropWhile (\<lambda>c. c = CHR ''/'') (rev s))"

definition applyBaseUrl :: "string \<Rightarrow> ai_config \<Rightarrow> ai_config" where
  "applyBaseUrl baseUrl cfg =
     (if baseUrl = [] then cfg
      else
        let (value, cfg) =
              (if starts_with ''https://'' baseUrl then (drop 8 baseUrl, cfg\<lparr>ac_port := 443\<rparr>)
               else if starts_with ''http://'' baseUrl then (drop 7 baseUrl, cfg\<lparr>ac_port := 80\<rparr>)
               else (baseUrl, cfg));
            host = takeWhile (\<lambda>c. c \<noteq> CHR ''/'') value;
            rest = drop (length host) value;
            cfg = cfg\<lparr>ac_host := host\<rparr>
        in if length rest > 1 then cfg\<lparr>ac_path := strip_slashes rest @ ''/v1/messages''\<rparr> else cfg)"

definition env_provider :: "environment \<Rightarrow> ai_config \<Rightarrow> ai_config" where
  "env_provider ev cfg =
     (let baseUrl = env_get ev ''IM_AI_BASE_URL'' in
      if env_get ev ''IM_AI_PROVIDER'' = ''anthropic'' then
        let cfg = cfg\<lparr>ac_provider := Anthropic, ac_host := ''api.anthropic.com'', ac_path := ''/v1/messages'',
                     ac_apiKey := env_get ev ''IM_AI_API_KEY'', ac_model := env_get ev ''IM_AI_MODEL''\<rparr>;
            cfg = applyBaseUrl baseUrl cfg;
            version = env_get ev ''IM_AI_ANTHROPIC_VERSION''
        in if version \<noteq> [] then cfg\<lparr>ac_version := version\<rparr> else cfg
      else
        applyBaseUrl baseUrl
          (cfg\<lparr>ac_apiKey := env_get ev ''IM_AI_API_KEY'', ac_model := env_get ev ''IM_AI_MODEL''\<rparr>))"

definition env_endpoint :: "environment \<Rightarrow> ai_config \<Rightarrow> ai_config" where
  "env_endpoint ev cfg =
     (let host = env_get ev ''IM_AI_API_HOST'';
          path = env_get ev ''IM_AI_API_PATH'';
          caCertPath = env_get ev ''IM_AI_CA_CERT_PATH'';
          cfg = (if host \<noteq> [] then applyBaseUrl host cfg else cfg);
          cfg = (if path \<noteq> [] then cfg\<lparr>ac_path := path\<rparr> else cfg)
      in if caCertPath \<noteq> [] then cfg\<lparr>ac_caCert := caCertPath\<rparr> else cfg)"

definition env_limits :: "environment \<Rightarrow> ai_config \<Rightarrow> ai_config" where
  "env_limits ev cfg = cfg\<lparr>
     ac_port := envInt ev ''IM_AI_API_PORT'' 443 1 65535,
     ac_timeoutMs := envInt ev ''IM_AI_REQUEST_TIMEOUT_MS'' 15000 1000 120000,
     ac_maxOutput := envInt ev ''IM_AI_MAX_OUTPUT_TOKENS'' 180 64 2000,
     ac_noThinking := envBool ev ''IM_AI_DISABLE_THINKING'' True,
     ac_maxMessages := envInt ev ''IM_AI_MAX_CONTEXT_MESSAGES'' 20 1 100,
     ac_maxContext := envInt ev ''IM_AI_MAX_CONTEXT_BYTES'' 12000 1000 100000,
     ac_maxMessage := envInt ev ''IM_AI_MAX_MESSAGE_BYTES'' 2000 100 10000,
     ac_perMinute := envInt ev ''IM_AI_RATE_LIMIT_PER_MINUTE'' 5 1 60,
     ac_maxPending := envInt ev ''IM_AI_MAX_PENDING_REQUESTS'' 8 1 100,
     ac_replay := envInt ev ''IM_AI_REPLAY_WINDOW_SECONDS'' 300 30 3600\<rparr>"

definition fromEnvironment :: "environment \<Rightarrow> ai_config" where
  "fromEnvironment ev =
     env_limits ev (env_endpoint ev (env_provider ev
       (default_config\<lparr>ac_feature := envBool ev ''IM_AI_ENABLED'' True,
                      ac_rollout := envInt ev ''IM_AI_ROLLOUT_PERCENT'' 100 0 100\<rparr>)))"

definition ai_enabled :: "ai_config \<Rightarrow> bool" where
  "ai_enabled cfg \<longleftrightarrow> ac_feature cfg \<and> ac_apiKey cfg \<noteq> [] \<and> ac_model cfg \<noteq> []"

section \<open>Regular expressions\<close>

text \<open>
  \<open>Chars P lo hi\<close> is a character class repeated greedily; the code repeats nothing else.
  \<open>re_match\<close> lists the ends of all matches at a position, with the groups, in the order in which
  backtracking finds them.
\<close>

type_synonym groups = "(nat \<times> nat \<times> nat) list"

datatype re =
    Chars "char \<Rightarrow> bool" nat "nat option"
  | Bol
  | Eol
  | Cat re re
  | Alt re re
  | Grp nat re

fun re_match :: "re \<Rightarrow> string \<Rightarrow> nat \<Rightarrow> groups \<Rightarrow> (nat \<times> groups) list" where
  "re_match (Chars P lo hi) s i g =
     (let run = length (takeWhile P (drop i s));
          n = (case hi of None \<Rightarrow> run | Some h \<Rightarrow> min run h)
      in if n < lo then [] else map (\<lambda>k. (i + k, g)) (rev [lo..<Suc n]))"
| "re_match Bol s i g = (if i = 0 then [(i, g)] else [])"
| "re_match Eol s i g = (if i = length s then [(i, g)] else [])"
| "re_match (Cat a b) s i g = concat (map (\<lambda>(j, g). re_match b s j g) (re_match a s i g))"
| "re_match (Alt a b) s i g = re_match a s i g @ re_match b s i g"
| "re_match (Grp n a) s i g = map (\<lambda>(j, g). (j, (n, i, j) # g)) (re_match a s i g)"

text \<open>The first position from \<open>i\<close> on where it matches, with the end and the groups.\<close>

fun re_search :: "nat \<Rightarrow> re \<Rightarrow> string \<Rightarrow> nat \<Rightarrow> (nat \<times> nat \<times> groups) option" where
  "re_search fuel r s i =
     (case re_match r s i [] of
        (j, g) # _ \<Rightarrow> Some (i, j, g)
      | [] \<Rightarrow> (case fuel of 0 \<Rightarrow> None | Suc fuel \<Rightarrow> re_search fuel r s (Suc i)))"

declare re_search.simps [simp del]

datatype piece = Lit string | Ref nat

definition piece_text :: "string \<Rightarrow> groups \<Rightarrow> piece \<Rightarrow> string" where
  "piece_text s g p =
     (case p of
        Lit t \<Rightarrow> t
      | Ref n \<Rightarrow> (case map_of g n of None \<Rightarrow> [] | Some (i, j) \<Rightarrow> take (j - i) (drop i s)))"

text \<open>
  \<open>std::regex_replace\<close>: the matches from left to right, each from where the previous one ended.
  None of the expressions matches the empty text.
\<close>

function re_replace :: "re \<Rightarrow> piece list \<Rightarrow> string \<Rightarrow> nat \<Rightarrow> string" where
  "re_replace r ps s p =
     (case re_search (length s - p) r s p of
        None \<Rightarrow> drop p s
      | Some (i, j, g) \<Rightarrow>
          take (i - p) (drop p s) @ concat (map (piece_text s g) ps) @
          (if p < j \<and> p < length s then re_replace r ps s j else drop j s))"
  by pat_completeness auto

termination
  by (relation "measure (\<lambda>(r, ps, s, p). length s - p)") auto

declare re_replace.simps [simp del]

definition replaceAll :: "string \<Rightarrow> re \<Rightarrow> piece list \<Rightarrow> string" where
  "replaceAll input pattern replacement = re_replace pattern replacement input 0"

definition in_range :: "nat \<Rightarrow> nat \<Rightarrow> char \<Rightarrow> bool" where
  "in_range lo hi c \<longleftrightarrow> lo \<le> of_char c \<and> of_char c \<le> hi"

definition re_alpha :: "char \<Rightarrow> bool" where
  "re_alpha c \<longleftrightarrow> in_range 65 90 c \<or> in_range 97 122 c"

definition one :: "(char \<Rightarrow> bool) \<Rightarrow> re" where
  "one P = Chars P 1 (Some 1)"

definition email_re :: re where
  "email_re =
     Cat (Chars (\<lambda>c. re_alpha c \<or> c_digit c \<or> c \<in> set ''._%+-'') 1 None)
    (Cat (one (\<lambda>c. c = CHR ''@''))
    (Cat (Chars (\<lambda>c. re_alpha c \<or> c_digit c \<or> c \<in> set ''.-'') 1 None)
    (Cat (one (\<lambda>c. c = CHR ''.'')) (Chars re_alpha 2 None))))"

definition mobile_re :: re where
  "mobile_re =
     Cat (Grp 1 (Alt Bol (one (\<lambda>c. \<not> c_digit c))))
    (Cat (one (\<lambda>c. c = CHR ''1''))
    (Cat (one (in_range 51 57))
    (Cat (Chars c_digit 9 (Some 9)) (Grp 2 (Alt (one (\<lambda>c. \<not> c_digit c)) Eol)))))"

definition idCard_re :: re where
  "idCard_re =
     Cat (Grp 1 (Alt Bol (one (\<lambda>c. \<not> c_digit c))))
    (Cat (one (in_range 49 57))
    (Cat (Chars c_digit 16 (Some 16))
    (Cat (one (\<lambda>c. c_digit c \<or> c = CHR ''X'' \<or> c = CHR ''x''))
         (Grp 2 (Alt (one (\<lambda>c. \<not> c_digit c)) Eol)))))"

definition apiKey_re :: re where
  "apiKey_re =
     Grp 1 (Cat (one (\<lambda>c. c = CHR ''s'')) (Cat (one (\<lambda>c. c = CHR ''k'')) (Cat (one (\<lambda>c. c = CHR ''-''))
       (Chars (\<lambda>c. re_alpha c \<or> c_digit c \<or> c = CHR ''_'' \<or> c = CHR ''-'') 8 None))))"

text \<open>The replacements in UTF-8: "hidden" after e-mail address, mobile number, identity number and key.\<close>

definition yi_yin_cang :: string where
  "yi_yin_cang = [CHR 0xE5, CHR 0xB7, CHR 0xB2, CHR 0xE9, CHR 0x9A, CHR 0x90, CHR 0xE8, CHR 0x97, CHR 0x8F]"

definition email_hidden :: string where
  "email_hidden = ''['' @ [CHR 0xE9, CHR 0x82, CHR 0xAE, CHR 0xE7, CHR 0xAE, CHR 0xB1] @ yi_yin_cang @ '']''"

definition mobile_hidden :: string where
  "mobile_hidden = ''['' @ [CHR 0xE6, CHR 0x89, CHR 0x8B, CHR 0xE6, CHR 0x9C, CHR 0xBA, CHR 0xE5, CHR 0x8F, CHR 0xB7]
     @ yi_yin_cang @ '']''"

definition idCard_hidden :: string where
  "idCard_hidden = ''['' @ [CHR 0xE8, CHR 0xBA, CHR 0xAB, CHR 0xE4, CHR 0xBB, CHR 0xBD, CHR 0xE8, CHR 0xAF,
     CHR 0x81, CHR 0xE5, CHR 0x8F, CHR 0xB7] @ yi_yin_cang @ '']''"

definition apiKey_hidden :: string where
  "apiKey_hidden = ''['' @ [CHR 0xE5, CHR 0xAF, CHR 0x86, CHR 0xE9, CHR 0x92, CHR 0xA5] @ yi_yin_cang @ '']''"

definition redactSensitiveText :: "string \<Rightarrow> string" where
  "redactSensitiveText text =
     (let result = replaceAll text email_re [Lit email_hidden];
          result = replaceAll result mobile_re [Ref 1, Lit mobile_hidden, Ref 2];
          result = replaceAll result idCard_re [Ref 1, Lit idCard_hidden, Ref 2]
      in replaceAll result apiKey_re [Lit apiKey_hidden])"

section \<open>The context of a request\<close>

datatype ai_role = Me | Peer

type_synonym ai_turn = "ai_role \<times> string"

record ai_request =
  aq_requestId :: string
  aq_turns :: "ai_turn list"
  aq_tone :: string
  aq_maxSuggestions :: int

record ai_policy =
  ap_maxMessages :: int
  ap_maxMessage :: int
  ap_maxContext :: int

definition belongs :: "int \<Rightarrow> int \<Rightarrow> stored_message \<Rightarrow> bool" where
  "belongs uid peer m \<longleftrightarrow> sm_sender m = uid \<and> sm_receiver m = peer \<or> sm_sender m = peer \<and> sm_receiver m = uid"

text \<open>The loop over the rows, newest first; \<open>acc\<close> is what it has pushed.\<close>

primrec take_turns :: "int \<Rightarrow> int \<Rightarrow> nat \<Rightarrow> nat \<Rightarrow> nat \<Rightarrow> stored_message list \<Rightarrow> ai_turn list \<Rightarrow> nat \<Rightarrow> ai_turn list" where
  "take_turns uid peer most budget limit [] acc used = acc"
| "take_turns uid peer most budget limit (row # rows) acc used =
     (if length acc \<ge> most then acc
      else if sm_type row \<noteq> 0 \<or> sm_content row = [] \<or> \<not> belongs uid peer row then
        take_turns uid peer most budget limit rows acc used
      else
        let sanitized = utf8Truncate (redactSensitiveText (sm_content row)) limit in
        if sanitized = [] then take_turns uid peer most budget limit rows acc used
        else
          let remaining = budget - min used budget in
          if remaining = 0 then acc
          else
            let sanitized = utf8Truncate sanitized remaining in
            if sanitized = [] then acc
            else take_turns uid peer most budget limit rows
                   (acc @ [(if sm_sender row = uid then Me else Peer, sanitized)]) (used + length sanitized))"

definition clamp :: "int \<Rightarrow> int \<Rightarrow> int \<Rightarrow> int" where
  "clamp v lo hi = (if v < lo then lo else if hi < v then hi else v)"

definition buildReplyContext ::
  "stored_message list \<Rightarrow> int \<Rightarrow> int \<Rightarrow> string \<Rightarrow> string \<Rightarrow> int \<Rightarrow> ai_policy \<Rightarrow> ai_request" where
  "buildReplyContext rows uid peer requestId tone maxSuggestions policy =
     \<lparr>aq_requestId = requestId,
      aq_turns = rev (take_turns uid peer (nat (max (ap_maxMessages policy) 1)) (nat (max (ap_maxContext policy) 1))
                        (nat (max (ap_maxMessage policy) 1)) rows [] 0),
      aq_tone = tone, aq_maxSuggestions = clamp maxSuggestions 1 3\<rparr>"

section \<open>What the model is shown\<close>

definition turn_of :: "int \<Rightarrow> stored_message \<Rightarrow> ai_turn \<Rightarrow> bool" where
  "turn_of uid m t \<longleftrightarrow> fst t = (if sm_sender m = uid then Me else Peer) \<and> snd t \<noteq> [] \<and>
     (\<exists>k l. snd t = utf8Truncate (utf8Truncate (redactSensitiveText (sm_content m)) l) k)"

text \<open>\<open>subtext\<close>: the turns come, in order, from text messages of the conversation.\<close>

inductive drawn_from :: "int \<Rightarrow> int \<Rightarrow> ai_turn list \<Rightarrow> stored_message list \<Rightarrow> bool" for uid peer where
  drawn_Nil: "drawn_from uid peer [] ms"
| drawn_skip: "drawn_from uid peer ts ms \<Longrightarrow> drawn_from uid peer ts (m # ms)"
| drawn_take: "drawn_from uid peer ts ms \<Longrightarrow> turn_of uid m t \<Longrightarrow> belongs uid peer m \<Longrightarrow> sm_type m = 0 \<Longrightarrow>
    drawn_from uid peer (t # ts) (m # ms)"

inductive_cases drawn_ConsE: "drawn_from uid peer (t # ts) ms"

lemma diff_min_left [simp]: "b - min a b = b - (a::nat)"
  by simp

lemma take_turns_drawn:
  "\<exists>ts. take_turns uid peer most budget limit rows acc used = acc @ ts \<and> drawn_from uid peer ts rows"
proof (induction rows arbitrary: acc used)
  case Nil
  show ?case by (auto intro: drawn_Nil)
next
  case (Cons row rows)
  let ?s = "utf8Truncate (redactSensitiveText (sm_content row)) limit"
  let ?r = "budget - min used budget"
  let ?t = "(if sm_sender row = uid then Me else Peer, utf8Truncate ?s ?r)"
  have skip: ?case if "take_turns uid peer most budget limit (row # rows) acc used = take_turns uid peer most budget limit rows acc used"
    using Cons.IH [of acc used] that by (auto intro: drawn_skip)
  have stop: ?case if "take_turns uid peer most budget limit (row # rows) acc used = acc"
    using that by (auto intro: drawn_Nil)
  show ?case
  proof (cases "length acc \<ge> most \<or> sm_type row \<noteq> 0 \<or> sm_content row = [] \<or> \<not> belongs uid peer row \<or>
      ?s = [] \<or> ?r = 0 \<or> utf8Truncate ?s ?r = []")
    case True
    then show ?thesis using skip stop by (auto simp: Let_def split: if_splits)
  next
    case False
    obtain ts where ts: "take_turns uid peer most budget limit rows (acc @ [?t]) (used + length (utf8Truncate ?s ?r)) =
        (acc @ [?t]) @ ts" "drawn_from uid peer ts rows"
      using Cons.IH by blast
    have "turn_of uid row ?t" using False by (auto simp: turn_of_def)
    then have "drawn_from uid peer (?t # ts) (row # rows)"
      using False ts(2) by (intro drawn_take) auto
    moreover have "take_turns uid peer most budget limit (row # rows) acc used = acc @ ?t # ts"
      using False ts(1) by (simp add: Let_def)
    ultimately show ?thesis by blast
  qed
qed

definition turns_size :: "ai_turn list \<Rightarrow> nat" where
  "turns_size ts = sum_list (map (length \<circ> snd) ts)"

lemma take_turns_bounds:
  assumes "length acc \<le> most" and "turns_size acc = used" and "used \<le> budget"
    and "\<forall>t \<in> set acc. length (snd t) \<le> limit"
    and "ts = take_turns uid peer most budget limit rows acc used"
  shows "length ts \<le> most \<and> turns_size ts \<le> budget \<and> (\<forall>t \<in> set ts. length (snd t) \<le> limit)"
  using assms
proof (induction rows arbitrary: acc used)
  case Nil
  then show ?case by simp
next
  case (Cons row rows)
  let ?s = "utf8Truncate (redactSensitiveText (sm_content row)) limit"
  let ?r = "budget - min used budget"
  let ?t = "(if sm_sender row = uid then Me else Peer, utf8Truncate ?s ?r)"
  show ?case
  proof (cases "length acc \<ge> most \<or> sm_type row \<noteq> 0 \<or> sm_content row = [] \<or> \<not> belongs uid peer row \<or>
      ?s = [] \<or> ?r = 0 \<or> utf8Truncate ?s ?r = []")
    case True
    then consider "ts = acc" | "ts = take_turns uid peer most budget limit rows acc used"
      using Cons.prems(5) by (auto simp: Let_def split: if_splits)
    then show ?thesis
      using Cons.prems Cons.IH [of acc used] by cases auto
  next
    case False
    have r: "length (utf8Truncate ?s ?r) \<le> budget - used"
      using length_utf8Truncate_le [of ?s ?r] Cons.prems(3) by simp
    have "length (utf8Truncate ?s ?r) \<le> length ?s"
      using utf8Truncate_prefix [of ?s ?r] by (metis length_append le_add1)
    then have l: "length (utf8Truncate ?s ?r) \<le> limit"
      using length_utf8Truncate_le [of "redactSensitiveText (sm_content row)" limit] by simp
    have e: "ts = take_turns uid peer most budget limit rows (acc @ [?t]) (used + length (utf8Truncate ?s ?r))"
      using False Cons.prems(5) by (simp add: Let_def)
    show ?thesis
      using e by (rule Cons.IH [rotated 4])
        (use False Cons.prems r l in \<open>auto simp: turns_size_def\<close>)
  qed
qed

end
