(* ===== verification/ServerCore.thy ===== *)
theory ServerCore
  imports AuthStore FriendStore RateLimit DeviceProof AiContext
begin

text \<open>
  The state the server's handlers share (\<^verbatim>\<open>im_server/src/core/Server.h\<close>): the stores, the login
  limiter, who is online (\<^verbatim>\<open>session/Presence.cpp\<close>), what \<^verbatim>\<open>session/Session.h\<close> keeps of a signed-in
  connection, the unclaimed uploads of \<^verbatim>\<open>media/HttpFileServer.h\<close>, and what the handlers sent.

  A session is a number. A weak pointer to it can be locked as long as the session object exists,
  that is, while its number is in \<open>sv_sessions\<close>. \<open>deliver\<close>, \<open>close\<close> and \<open>closeAfterWrite\<close> post
  to the session's strand; here they are the events of \<open>sv_out\<close>, in posting order, and what the strand
  does with them is \<open>strand_frames\<close>. A handler runs
  as one step: what it does to the tables and to the presence map goes through their locks.
\<close>

section \<open>Messages of the protocol\<close>

text \<open>The protobuf messages by their fields; encoding and parsing belong to the protobuf library.\<close>

record register_rq =
  rg_nick :: string
  rg_tel :: string
  rg_pass :: string

record login_rq =
  lq_tel :: string
  lq_pass :: string
  lq_device :: string
  lq_key :: bytes
  lq_sig :: bytes

record login_rs =
  lr_result :: int
  lr_user :: int
  lr_access :: string
  lr_refresh :: string
  lr_accessExp :: int
  lr_refreshExp :: int
  lr_session :: string

record token_login_rs =
  tr_result :: int
  tr_user :: int
  tr_exp :: int

record refresh_rs =
  rr_result :: int
  rr_access :: string
  rr_refresh :: string
  rr_accessExp :: int
  rr_refreshExp :: int
  rr_session :: string

record friend_info =
  fi_user :: int
  fi_icon :: int
  fi_status :: int
  fi_nick :: string
  fi_feeling :: string

text \<open>\<open>MsgType\<close> is an open enumeration: a parsed message can hold any number.\<close>

abbreviation "TYPE_TEXT \<equiv> (0::int)"
abbreviation "TYPE_IMAGE \<equiv> (1::int)"
abbreviation "TYPE_FILE \<equiv> (2::int)"

record chat_info =
  ci_my :: int
  ci_friend :: int
  ci_msg :: string
  ci_type :: int
  ci_imgW :: int
  ci_imgH :: int
  ci_msgId :: string
  ci_ts :: int
  ci_seq :: int
  ci_fileName :: string
  ci_fileSize :: int
  ci_fileId :: string
  ci_contentType :: string
  ci_sha256 :: string
  ci_thumbFileId :: string
  ci_thumbW :: int
  ci_thumbH :: int
  ci_thumbSize :: int
  ci_thumbSha256 :: string
  ci_largeFileId :: string
  ci_largeW :: int
  ci_largeH :: int
  ci_largeSize :: int
  ci_largeSha256 :: string

definition empty_chat :: chat_info where
  "empty_chat = \<lparr>ci_my = 0, ci_friend = 0, ci_msg = [], ci_type = TYPE_TEXT, ci_imgW = 0, ci_imgH = 0,
     ci_msgId = [], ci_ts = 0, ci_seq = 0, ci_fileName = [], ci_fileSize = 0, ci_fileId = [],
     ci_contentType = [], ci_sha256 = [], ci_thumbFileId = [], ci_thumbW = 0, ci_thumbH = 0,
     ci_thumbSize = 0, ci_thumbSha256 = [], ci_largeFileId = [], ci_largeW = 0, ci_largeH = 0,
     ci_largeSize = 0, ci_largeSha256 = []\<rparr>"

record chat_rs =
  cr_my :: int
  cr_friend :: int
  cr_result :: int
  cr_msgId :: string
  cr_seq :: int

record add_friend_rq =
  af_my :: int
  af_myNick :: string
  af_friendNick :: string

record add_friend_rs =
  as_result :: int
  as_dest :: int
  as_destNick :: string
  as_my :: int
  as_myNick :: string

record delete_friend_rs =
  df_result :: int
  df_friend :: int
  df_operator :: int
  df_operatorNick :: string

record roam_rq =
  rq_my :: int
  rq_peer :: int
  rq_before :: int
  rq_limit :: int

record roam_rs =
  rs_peer :: int
  rs_msgs :: "chat_info list"
  rs_more :: bool
  rs_minSeq :: int

record ai_rq =
  ai_requestId :: string
  ai_peer :: int
  ai_tone :: string
  ai_max :: int

datatype ai_status =
    AI_OK | AI_INVALID_REQUEST | AI_UNAUTHORIZED | AI_NOT_FRIEND | AI_RATE_LIMITED | AI_BUSY
  | AI_NOT_CONFIGURED | AI_UPSTREAM_ERROR

text \<open>The texts of \<open>error_message\<close>, one constructor for each literal of the code.\<close>

datatype ai_text =
    NoText | BadFormat | SignInFirst | BadParameters | FeatureClosed | FriendsOnly | NoService
  | DuplicateRequest | TooOften | ServiceBusy | AlreadyRunning | NoMessages | ServiceDown | BadAnswer

record ai_rs =
  ax_requestId :: string
  ax_status :: ai_status
  ax_error :: ai_text
  ax_suggestions :: "string list"

datatype server_msg =
    MsgRegisterRs int
  | MsgLoginRs login_rs
  | MsgTokenLoginRs token_login_rs
  | MsgRefreshRs refresh_rs
  | MsgLogoutRs int
  | MsgKicked
  | MsgFriendInfo friend_info
  | MsgChatRq chat_info
  | MsgChatRs chat_rs
  | MsgAddFriendRq add_friend_rq
  | MsgAddFriendRs add_friend_rs
  | MsgRequestList "request_view list"
  | MsgDeleteFriendRs delete_friend_rs
  | MsgFriendOffline int
  | MsgHeartbeatRs
  | MsgRoamConvs "chat_info list"
  | MsgRoamMsgs roam_rs
  | MsgAiRs ai_rs

text \<open>The protocol number under which a message is delivered.\<close>

fun msg_prot :: "server_msg \<Rightarrow> prot" where
  "msg_prot (MsgRegisterRs _) = REGISTER_RS"
| "msg_prot (MsgLoginRs _) = LOGIN_RS"
| "msg_prot (MsgTokenLoginRs _) = TOKEN_LOGIN_RS"
| "msg_prot (MsgRefreshRs _) = TOKEN_REFRESH_RS"
| "msg_prot (MsgLogoutRs _) = LOGOUT_RS"
| "msg_prot MsgKicked = KICKED_OFFLINE"
| "msg_prot (MsgFriendInfo _) = FRIEND_INFO"
| "msg_prot (MsgChatRq _) = CHAT_INFO_RQ"
| "msg_prot (MsgChatRs _) = CHAT_INFO_RS"
| "msg_prot (MsgAddFriendRq _) = ADD_FRIEND_RQ"
| "msg_prot (MsgAddFriendRs _) = ADD_FRIEND_RS"
| "msg_prot (MsgRequestList _) = FRIEND_REQUEST_LIST_RS"
| "msg_prot (MsgDeleteFriendRs _) = DELETE_FRIEND_RS"
| "msg_prot (MsgFriendOffline _) = FRIEND_OFFLINE"
| "msg_prot MsgHeartbeatRs = HEARTBEAT_RS"
| "msg_prot (MsgRoamConvs _) = ROAM_CONV_RS"
| "msg_prot (MsgRoamMsgs _) = ROAM_MSG_RS"
| "msg_prot (MsgAiRs _) = AI_REPLY_RS"

datatype server_event = Deliver nat server_msg | CloseAfterWrite nat | Close nat

section \<open>Presence\<close>

record presence_entry =
  pe_session :: nat
  pe_active :: int

type_synonym presence = "(int \<times> presence_entry) list"

text \<open>\<open>alive\<close> says which sessions a weak pointer can still be locked to.\<close>

definition pr_lock :: "(nat \<Rightarrow> bool) \<Rightarrow> presence_entry \<Rightarrow> nat option" where
  "pr_lock alive e = (if alive (pe_session e) then Some (pe_session e) else None)"

definition pr_online :: "int \<Rightarrow> nat \<Rightarrow> int \<Rightarrow> presence \<Rightarrow> presence" where
  "pr_online uid s now m = kv_put uid \<lparr>pe_session = s, pe_active = now\<rparr> m"

definition pr_replace :: "(nat \<Rightarrow> bool) \<Rightarrow> int \<Rightarrow> nat \<Rightarrow> int \<Rightarrow> presence \<Rightarrow> nat option \<times> presence" where
  "pr_replace alive uid s now m =
     (let old = (case map_of m uid of None \<Rightarrow> None | Some e \<Rightarrow> pr_lock alive e)
      in (old, kv_put uid \<lparr>pe_session = s, pe_active = now\<rparr> m))"

definition pr_offline :: "(nat \<Rightarrow> bool) \<Rightarrow> int \<Rightarrow> nat \<Rightarrow> presence \<Rightarrow> presence" where
  "pr_offline alive uid s m =
     (case map_of m uid of
        None \<Rightarrow> m
      | Some e \<Rightarrow> if pr_lock alive e = Some s then kv_erase uid m else m)"

definition pr_get :: "(nat \<Rightarrow> bool) \<Rightarrow> int \<Rightarrow> presence \<Rightarrow> nat option" where
  "pr_get alive uid m = (case map_of m uid of None \<Rightarrow> None | Some e \<Rightarrow> pr_lock alive e)"

definition pr_touch :: "int \<Rightarrow> int \<Rightarrow> presence \<Rightarrow> presence" where
  "pr_touch uid now m = map (\<lambda>(k, e). (k, if k = uid then e\<lparr>pe_active := now\<rparr> else e)) m"

text \<open>One entry of the scan: whether it is stale, and the entry with its period of grace started.\<close>

definition scan_entry :: "(nat \<Rightarrow> bool) \<Rightarrow> int \<Rightarrow> int \<Rightarrow> presence_entry \<Rightarrow> nat option \<times> presence_entry" where
  "scan_entry alive timeout now e =
     (case pr_lock alive e of
        None \<Rightarrow> (None, e)
      | Some s \<Rightarrow>
          if pe_active e = 0 then (None, e\<lparr>pe_active := now\<rparr>)
          else if now - pe_active e > timeout then (Some s, e) else (None, e))"

fun scanStale :: "(nat \<Rightarrow> bool) \<Rightarrow> int \<Rightarrow> int \<Rightarrow> presence \<Rightarrow> (int \<times> nat) list \<times> presence" where
  "scanStale alive timeout now [] = ([], [])"
| "scanStale alive timeout now ((uid, e) # m) =
     (let (hit, e') = scan_entry alive timeout now e;
          (stale, m') = scanStale alive timeout now m
      in ((case hit of None \<Rightarrow> stale | Some s \<Rightarrow> (uid, s) # stale), (uid, e') # m'))"

section \<open>The server\<close>

record session =
  se_user :: int
  se_auth :: string
  se_device :: string
  se_exp :: int
  se_app :: bytes
  se_peer :: string

definition new_session :: "bytes \<Rightarrow> string \<Rightarrow> session" where
  "new_session app peer = \<lparr>se_user = 0, se_auth = [], se_device = [], se_exp = 0, se_app = app, se_peer = peer\<rparr>"

record upload_record =
  ur_uploader :: int
  ur_receiver :: int
  ur_path :: string
  ur_sha256 :: string
  ur_size :: int
  ur_contentType :: string
  ur_at :: int

text \<open>The AI handler: its limiter, the active and the cancelled requests, the posted jobs and
  those that wait for the model service.\<close>

record ai_job =
  aj_session :: nat
  aj_user :: int
  aj_peer :: int
  aj_requestId :: string
  aj_tone :: string
  aj_max :: int

record ai_state =
  ah_limiter :: ai_limiter
  ah_active :: "string set"
  ah_cancelled :: "string set"
  ah_jobs :: "ai_job list"
  ah_calls :: "ai_job list"

record server =
  sv_tokens :: token_service
  sv_reads :: "read_io list"
  sv_limiter :: login_limiter
  sv_presence :: presence
  sv_sessions :: "nat \<Rightarrow> session option"
  sv_next :: nat
  sv_uploads :: "string \<Rightarrow> upload_record option"
  sv_counter :: u64
  sv_ai :: ai_state
  sv_out :: "server_event list"

definition ai_state_new :: "ai_config \<Rightarrow> ai_state" where
  "ai_state_new cfg = \<lparr>ah_limiter = ai_new (ac_perMinute cfg) (ac_maxPending cfg) (ac_replay cfg),
     ah_active = {}, ah_cancelled = {}, ah_jobs = [], ah_calls = []\<rparr>"

definition server_new :: "ai_config \<Rightarrow> server_db \<Rightarrow> bool list \<Rightarrow> read_io list \<Rightarrow> server" where
  "server_new cfg d script reads = \<lparr>sv_tokens = \<lparr>ts_conn = sconn_new d script, ts_cache = []\<rparr>, sv_reads = reads,
     sv_limiter = ll_new default_policy, sv_presence = [], sv_sessions = Map.empty, sv_next = 0, sv_uploads = Map.empty,
     sv_counter = 0, sv_ai = ai_state_new cfg, sv_out = []\<rparr>"

definition sv_db :: "server \<Rightarrow> server_db" where
  "sv_db st = cn_db (ts_conn (sv_tokens st))"

text \<open>Reads use the pooled connections, whose next outcome is scripted; writes use the write queue.\<close>

definition sv_read :: "(read_io \<Rightarrow> server_db \<Rightarrow> 'a) \<Rightarrow> server \<Rightarrow> 'a \<times> server" where
  "sv_read q st =
     (case sv_reads st of
        [] \<Rightarrow> (q read_ok (sv_db st), st)
      | io # ios \<Rightarrow> (q io (sv_db st), st\<lparr>sv_reads := ios\<rparr>))"

definition set_conn :: "sconn \<Rightarrow> server \<Rightarrow> server" where
  "set_conn c st = st\<lparr>sv_tokens := (sv_tokens st)\<lparr>ts_conn := c\<rparr>\<rparr>"

definition sv_write :: "(sconn \<Rightarrow> 'a \<times> sconn) \<Rightarrow> server \<Rightarrow> 'a \<times> server" where
  "sv_write w st = (let (r, c) = w (ts_conn (sv_tokens st)) in (r, set_conn c st))"

definition deliver :: "nat \<Rightarrow> server_msg \<Rightarrow> server \<Rightarrow> server" where
  "deliver s m st = st\<lparr>sv_out := sv_out st @ [Deliver s m]\<rparr>"

definition closeAfterWrite :: "nat \<Rightarrow> server \<Rightarrow> server" where
  "closeAfterWrite s st = st\<lparr>sv_out := sv_out st @ [CloseAfterWrite s]\<rparr>"

definition sv_close :: "nat \<Rightarrow> server \<Rightarrow> server" where
  "sv_close s st = st\<lparr>sv_out := sv_out st @ [Close s]\<rparr>"

text \<open>
  The strand of a session whose channel is established encrypts the frames posted to it and queues them
  for writing, until it comes to a close; frames posted later are dropped. After \<open>closeAfterWrite\<close> a
  frame is still queued while earlier ones are being written, which is up to the network, so only the
  frames before it are counted.
\<close>

fun strand_frames :: "nat \<Rightarrow> server_event list \<Rightarrow> server_msg list" where
  "strand_frames s [] = []"
| "strand_frames s (Deliver q m # es) = (if q = s then m # strand_frames s es else strand_frames s es)"
| "strand_frames s (CloseAfterWrite q # es) = (if q = s then [] else strand_frames s es)"
| "strand_frames s (Close q # es) = (if q = s then [] else strand_frames s es)"

definition alive :: "server \<Rightarrow> nat \<Rightarrow> bool" where
  "alive st s \<longleftrightarrow> sv_sessions st s \<noteq> None"

definition bindAuth :: "nat \<Rightarrow> int \<Rightarrow> string \<Rightarrow> string \<Rightarrow> int \<Rightarrow> server \<Rightarrow> server" where
  "bindAuth s uid sid dev ex st =
     (case sv_sessions st s of
        None \<Rightarrow> st
      | Some x \<Rightarrow> st\<lparr>sv_sessions := (sv_sessions st)(s \<mapsto> x\<lparr>se_user := uid, se_auth := sid, se_device := dev, se_exp := ex\<rparr>)\<rparr>)"

definition authenticated :: "session \<Rightarrow> bool" where
  "authenticated x \<longleftrightarrow> se_user x > 0"

definition presence_get :: "int \<Rightarrow> server \<Rightarrow> nat option" where
  "presence_get uid st = pr_get (alive st) uid (sv_presence st)"

definition isOnline :: "int \<Rightarrow> server \<Rightarrow> bool" where
  "isOnline uid st \<longleftrightarrow> presence_get uid st \<noteq> None"

text \<open>
  What the handlers take from libraries: the protobuf parsers (\<open>None\<close> when \<open>ParseFromArray\<close> fails),
  OpenSSL's digest and signature check, and the check of an Argon2id hash; and the configuration
  the AI handler was built with.
\<close>

record server_env =
  en_register :: "bytes \<Rightarrow> register_rq option"
  en_login :: "bytes \<Rightarrow> login_rq option"
  en_tokenLogin :: "bytes \<Rightarrow> token_login_rq option"
  en_refresh :: "bytes \<Rightarrow> refresh_rq option"
  en_logout :: "bytes \<Rightarrow> logout_rq option"
  en_chat :: "bytes \<Rightarrow> chat_info option"
  en_addFriend :: "bytes \<Rightarrow> add_friend_rq option"
  en_addReply :: "bytes \<Rightarrow> add_friend_rs option"
  en_requestList :: "bytes \<Rightarrow> unit option"
  en_deleteFriend :: "bytes \<Rightarrow> int option"
  en_roam :: "bytes \<Rightarrow> roam_rq option"
  en_offline :: "bytes \<Rightarrow> int option"
  en_aiReply :: "bytes \<Rightarrow> ai_rq option"
  en_aiCancel :: "bytes \<Rightarrow> string option"
  en_ai :: ai_config
  en_digest :: "bytes \<Rightarrow> bytes"
  en_signed :: "bytes \<Rightarrow> bytes \<Rightarrow> bytes \<Rightarrow> bool"
  en_argon :: "string \<Rightarrow> string \<Rightarrow> bool"

text \<open>
  What one packet meets: the wall clock and the steady clock, the Argon2id hash of a password
  (\<open>None\<close> when it throws), the contents of an uninitialised hash object, the random tokens, and
  which entry a full token cache drops.
\<close>

record packet_ctx =
  cx_now :: int
  cx_tick :: int
  cx_hash :: "string option"
  cx_junk :: bytes
  cx_issue :: "(string \<times> string \<times> string \<times> string) option"
  cx_rotate :: "(string \<times> string) option"
  cx_victim :: nat

section \<open>Utilities of the handlers\<close>

definition sendFriendInfo :: "nat \<Rightarrow> int \<Rightarrow> int \<Rightarrow> server \<Rightarrow> server" where
  "sendFriendInfo to uid status st =
     (let (r, st) = sv_read (\<lambda>io. getUser io uid) st
      in case r of
           None \<Rightarrow> st
         | Some u \<Rightarrow> deliver to (MsgFriendInfo \<lparr>fi_user = u_id u, fi_icon = u_icon u, fi_status = status,
                                  fi_nick = u_name u, fi_feeling = u_feeling u\<rparr>) st)"

text \<open>\<open>fillChatInfo\<close> fills a fresh message.\<close>

definition fillChatInfo :: "stored_message \<Rightarrow> chat_info" where
  "fillChatInfo m =
     (let out = empty_chat\<lparr>ci_my := sm_sender m, ci_friend := sm_receiver m, ci_msgId := sm_msgId m,
                          ci_ts := sm_ts m, ci_seq := sm_seq m\<rparr>
      in if sm_type m = 1 then
           out\<lparr>ci_type := TYPE_IMAGE, ci_imgW := sm_imgW m, ci_imgH := sm_imgH m, ci_fileId := sm_fileId m,
               ci_fileSize := sm_fileSize m, ci_contentType := sm_contentType m, ci_sha256 := sm_sha256 m,
               ci_thumbFileId := sm_thumbFileId m, ci_thumbSize := sm_thumbSize m,
               ci_thumbSha256 := sm_thumbSha256 m, ci_thumbW := sm_thumbW m, ci_thumbH := sm_thumbH m,
               ci_largeFileId := sm_largeFileId m, ci_largeSize := sm_largeSize m,
               ci_largeSha256 := sm_largeSha256 m, ci_largeW := sm_largeW m, ci_largeH := sm_largeH m\<rparr>
         else if sm_type m = 2 then
           out\<lparr>ci_type := TYPE_FILE, ci_fileId := sm_fileId m, ci_fileName := sm_content m,
               ci_fileSize := sm_fileSize m, ci_contentType := sm_contentType m, ci_sha256 := sm_sha256 m\<rparr>
         else out\<lparr>ci_type := TYPE_TEXT, ci_msg := sm_content m\<rparr>)"

section \<open>What a handler leaves alone\<close>

text \<open>The chat messages that a message shows to its receiver.\<close>

fun displays :: "server_msg \<Rightarrow> chat_info list" where
  "displays (MsgChatRq c) = [c]"
| "displays (MsgRoamConvs cs) = cs"
| "displays (MsgRoamMsgs r) = rs_msgs r"
| "displays _ = []"

lemma sv_readE:
  assumes "sv_read q st = (r, st')"
  obtains io ios where "r = q io (sv_db st)" and "st' = st\<lparr>sv_reads := ios\<rparr>"
proof (cases "sv_reads st")
  case Nil
  then have "r = q read_ok (sv_db st)" "st' = st" using assms by (auto simp: sv_read_def)
  moreover have "st\<lparr>sv_reads := []\<rparr> = st" using Nil by (cases st) simp
  ultimately show ?thesis using that by metis
next
  case (Cons io ios)
  then have "r = q io (sv_db st)" "st' = st\<lparr>sv_reads := ios\<rparr>" using assms by (auto simp: sv_read_def)
  then show ?thesis by (rule that)
qed

lemma sv_read_ok: "sv_reads st = [] \<Longrightarrow> sv_read q st = (q read_ok (sv_db st), st)"
  by (simp add: sv_read_def)

lemma sv_writeE:
  assumes "sv_write w st = (r, st')"
  obtains c where "w (ts_conn (sv_tokens st)) = (r, c)" and "st' = set_conn c st"
  using assms that by (auto simp: sv_write_def split: prod.splits)

lemma server_frames [simp]:
  "sv_tokens (deliver s m st) = sv_tokens st" "sv_reads (deliver s m st) = sv_reads st"
  "sv_presence (deliver s m st) = sv_presence st" "sv_sessions (deliver s m st) = sv_sessions st"
  "sv_uploads (deliver s m st) = sv_uploads st" "sv_ai (deliver s m st) = sv_ai st" "sv_next (deliver s m st) = sv_next st"
  "sv_tokens (sv_close s st) = sv_tokens st" "sv_presence (sv_close s st) = sv_presence st"
  "sv_sessions (sv_close s st) = sv_sessions st" "sv_next (sv_close s st) = sv_next st" "sv_ai (sv_close s st) = sv_ai st"
  "sv_tokens (closeAfterWrite s st) = sv_tokens st" "sv_presence (closeAfterWrite s st) = sv_presence st"
  "sv_sessions (closeAfterWrite s st) = sv_sessions st" "sv_next (closeAfterWrite s st) = sv_next st"
  "sv_ai (closeAfterWrite s st) = sv_ai st"
  "sv_sessions (set_conn c st) = sv_sessions st" "sv_presence (set_conn c st) = sv_presence st"
  "sv_out (set_conn c st) = sv_out st" "sv_next (set_conn c st) = sv_next st" "sv_reads (set_conn c st) = sv_reads st"
  "sv_uploads (set_conn c st) = sv_uploads st" "sv_ai (set_conn c st) = sv_ai st"
  "sv_limiter (set_conn c st) = sv_limiter st"
  "sv_tokens (bindAuth s u a d e st) = sv_tokens st" "sv_out (bindAuth s u a d e st) = sv_out st"
  "sv_presence (bindAuth s u a d e st) = sv_presence st" "sv_next (bindAuth s u a d e st) = sv_next st"
  "sv_reads (bindAuth s u a d e st) = sv_reads st" "sv_ai (bindAuth s u a d e st) = sv_ai st"
  by (simp_all add: deliver_def sv_close_def closeAfterWrite_def set_conn_def bindAuth_def split: option.split)

lemma server_outputs [simp]:
  "sv_out (deliver s m st) = sv_out st @ [Deliver s m]"
  "sv_out (sv_close s st) = sv_out st @ [Close s]"
  "sv_out (closeAfterWrite s st) = sv_out st @ [CloseAfterWrite s]"
  by (simp_all add: deliver_def sv_close_def closeAfterWrite_def)

lemma conn_set_conn [simp]: "ts_conn (sv_tokens (set_conn c st)) = c" "sv_db (set_conn c st) = cn_db c"
  by (simp_all add: set_conn_def sv_db_def)

lemma sv_db_frames [simp]:
  "sv_db (deliver s m st) = sv_db st" "sv_db (sv_close s st) = sv_db st" "sv_db (closeAfterWrite s st) = sv_db st"
  "sv_db (bindAuth s u a d e st) = sv_db st" "sv_db (st\<lparr>sv_reads := r\<rparr>) = sv_db st"
  "sv_db (st\<lparr>sv_limiter := l\<rparr>) = sv_db st" "sv_db (st\<lparr>sv_presence := p\<rparr>) = sv_db st"
  "sv_db (st\<lparr>sv_sessions := ss\<rparr>) = sv_db st" "sv_db (st\<lparr>sv_uploads := us\<rparr>) = sv_db st"
  "sv_db (st\<lparr>sv_ai := ai\<rparr>) = sv_db st" "sv_db (st\<lparr>sv_counter := k\<rparr>) = sv_db st"
  by (simp_all add: sv_db_def)

lemma presence_get_frames [simp]:
  "presence_get u (deliver s m st) = presence_get u st" "presence_get u (sv_close s st) = presence_get u st"
  "presence_get u (closeAfterWrite s st) = presence_get u st" "presence_get u (set_conn c st) = presence_get u st"
  "presence_get u (st\<lparr>sv_reads := r\<rparr>) = presence_get u st" "presence_get u (st\<lparr>sv_limiter := l\<rparr>) = presence_get u st"
  "presence_get u (st\<lparr>sv_tokens := ts\<rparr>) = presence_get u st" "presence_get u (st\<lparr>sv_uploads := us\<rparr>) = presence_get u st"
  "presence_get u (st\<lparr>sv_counter := k\<rparr>) = presence_get u st" "presence_get u (st\<lparr>sv_ai := ai\<rparr>) = presence_get u st"
  by (simp_all add: presence_get_def alive_def [abs_def])

text \<open>
  A relation between the states before and after, that chains and that holds across everything a
  handler does besides writing to the tables, binding a session, moving the presence map and showing
  chat messages.
\<close>

locale handler_relation =
  fixes R :: "server \<Rightarrow> server \<Rightarrow> bool"
  assumes keeps_refl: "R st st"
    and keeps_trans: "R st st1 \<Longrightarrow> R st1 st2 \<Longrightarrow> R st st2"
    and keeps_reads: "R st (st\<lparr>sv_reads := ios\<rparr>)"
    and keeps_limiter: "R st (st\<lparr>sv_limiter := l\<rparr>)"
    and keeps_ai: "R st (st\<lparr>sv_ai := a\<rparr>)"
    and keeps_notice: "displays m = [] \<Longrightarrow> R st (deliver s m st)"
    and keeps_close: "R st (sv_close s st)"
    and keeps_closeAfterWrite: "R st (closeAfterWrite s st)"
begin

lemma keeps_read: "sv_read q st = (r, st') \<Longrightarrow> R st st'"
  by (erule sv_readE) (simp add: keeps_reads)

lemma keeps_snd_read: "R st (snd (sv_read q st))"
  using keeps_read [of q st] by (metis surjective_pairing)

lemma keeps_fold: "(\<And>x st. R st (f x st)) \<Longrightarrow> R st (fold f xs st)"
  by (induction xs arbitrary: st) (auto intro: keeps_refl keeps_trans)

lemma keeps_sendFriendInfo: "R st (sendFriendInfo to u status st)"
  by (auto simp: sendFriendInfo_def split: prod.split option.split
      intro: keeps_read keeps_trans [OF keeps_read keeps_notice])

lemma keeps_notice_to: "displays m = [] \<Longrightarrow>
    R st (case presence_get u st of None \<Rightarrow> st | Some s \<Rightarrow> deliver s m st)"
  by (auto split: option.split intro: keeps_refl keeps_notice)

end

end
