(* ===== verification/AuthHandlers.thy ===== *)
theory AuthHandlers
  imports ServerCore
begin

text \<open>
  \<^verbatim>\<open>im_server/src/handlers/AuthHandler.cpp\<close>: registration, the three ways to sign in or stay signed
  in, signing out, and \<open>activateSession\<close>, which makes a signed-in session the user's only one and
  hands it what arrived while the user was away. \<open>parsePayload\<close> and the session's pointer are the
  arguments \<open>E\<close> and \<open>s\<close>; logging is left out.
\<close>

section \<open>Checks\<close>

definition ascii_digit :: "char \<Rightarrow> bool" where
  "ascii_digit c \<longleftrightarrow> 48 \<le> (of_char c :: nat) \<and> (of_char c :: nat) \<le> 57"

definition between :: "char \<Rightarrow> nat \<Rightarrow> nat \<Rightarrow> bool" where
  "between c lo hi \<longleftrightarrow> lo \<le> of_char c \<and> of_char c \<le> hi"

definition validMainlandMobile :: "string \<Rightarrow> bool" where
  "validMainlandMobile tel \<longleftrightarrow>
     length tel = 11 \<and> tel ! 0 = CHR ''1'' \<and> between (tel ! 1) 51 57 \<and> list_all ascii_digit tel"

definition validSha256Proof :: "string \<Rightarrow> bool" where
  "validSha256Proof proof \<longleftrightarrow>
     length proof = 64 \<and> list_all (\<lambda>c. ascii_digit c \<or> between c 97 102 \<or> between c 65 70) proof"

definition verifyDevice ::
  "server_env \<Rightarrow> session \<Rightarrow> string \<Rightarrow> string \<Rightarrow> bytes \<Rightarrow> bytes \<Rightarrow> bytes \<Rightarrow> bool \<Rightarrow> bool" where
  "verifyDevice E x operation dev credential key sig bindKey =
     verifyP256 (en_signed E) key
       (srv_message operation (se_app x) dev credential (if bindKey then key else [])) sig"

section \<open>Registration\<close>

definition onRegister :: "server_env \<Rightarrow> packet_ctx \<Rightarrow> nat \<Rightarrow> bytes \<Rightarrow> server \<Rightarrow> server" where
  "onRegister E cx s payload st =
     (case en_register E payload of
        None \<Rightarrow> st
      | Some rq \<Rightarrow>
          if rg_nick rq = [] \<or> length (rg_nick rq) \<ge> USER_NICK_LEN \<or>
             \<not> validMainlandMobile (rg_tel rq) \<or> \<not> validSha256Proof (rg_pass rq)
          then deliver s (MsgRegisterRs REGISTER_INVALID) st
          else
            let (result, st) = sv_write (registerUser (cx_hash cx) (rg_nick rq) (rg_tel rq)) st
            in deliver s (MsgRegisterRs result) st)"

section \<open>Taking over the user's presence\<close>

text \<open>One friend of the newcomer: each is told of the other.\<close>

definition announce_friend :: "nat \<Rightarrow> int \<Rightarrow> int \<Rightarrow> server \<Rightarrow> server" where
  "announce_friend s uid f st =
     (let st = sendFriendInfo s f (if isOnline f st then STATUS_ONLINE else STATUS_OFFLINE) st
      in case presence_get f st of
           None \<Rightarrow> st
         | Some fs \<Rightarrow> sendFriendInfo fs uid STATUS_ONLINE st)"

definition receipt :: "int \<Rightarrow> stored_message \<Rightarrow> chat_rs" where
  "receipt uid m = \<lparr>cr_my = uid, cr_friend = sm_sender m, cr_result = CHAT_RESULT_SUCC,
                    cr_msgId = sm_msgId m, cr_seq = sm_seq m\<rparr>"

definition hand_over :: "nat \<Rightarrow> int \<Rightarrow> stored_message \<Rightarrow> server \<Rightarrow> server" where
  "hand_over s uid m st =
     (let st = deliver s (MsgChatRq (fillChatInfo m)) st
      in case presence_get (sm_sender m) st of
           None \<Rightarrow> st
         | Some ss \<Rightarrow> deliver ss (MsgChatRs (receipt uid m)) st)"

definition take_over :: "packet_ctx \<Rightarrow> nat \<Rightarrow> int \<Rightarrow> server \<Rightarrow> server" where
  "take_over cx s uid st =
     (let (old, pres) = pr_replace (alive st) uid s (cx_now cx) (sv_presence st);
          st = st\<lparr>sv_presence := pres\<rparr>
      in case old of
           None \<Rightarrow> st
         | Some o_s \<Rightarrow> if o_s \<noteq> s then closeAfterWrite o_s (deliver o_s MsgKicked st) else st)"

definition deliver_pending :: "nat \<Rightarrow> int \<Rightarrow> server \<Rightarrow> server" where
  "deliver_pending s uid st =
     (let (missed, st) = sv_read (\<lambda>io. pullUndelivered io uid) st;
          st = fold (hand_over s uid) missed st
      in snd (sv_write (\<lambda>c. ((), markDelivered (map sm_msgId missed) c)) st))"

definition activateSession :: "packet_ctx \<Rightarrow> nat \<Rightarrow> int \<Rightarrow> server \<Rightarrow> server" where
  "activateSession cx s uid st =
     (let st = take_over cx s uid st;
          st = sendFriendInfo s uid STATUS_ONLINE st;
          (friends, st) = sv_read (\<lambda>io. getFriends io uid) st;
          st = fold (announce_friend s uid) (map u_id friends) st
      in deliver_pending s uid st)"

section \<open>Signing in\<close>

definition login_reject :: "int \<Rightarrow> login_rs" where
  "login_reject r = \<lparr>lr_result = r, lr_user = 0, lr_access = [], lr_refresh = [], lr_accessExp = 0,
                     lr_refreshExp = 0, lr_session = []\<rparr>"

definition login_accept :: "int \<Rightarrow> token_pair \<Rightarrow> login_rs" where
  "login_accept uid p = \<lparr>lr_result = LOGIN_SUCCESS, lr_user = uid, lr_access = tp_access p,
     lr_refresh = tp_refresh p, lr_accessExp = tp_accessExp p, lr_refreshExp = tp_refreshExp p,
     lr_session = tp_session p\<rparr>"

definition limit_failure :: "packet_ctx \<Rightarrow> session \<Rightarrow> string \<Rightarrow> server \<Rightarrow> server" where
  "limit_failure cx x account st =
     st\<lparr>sv_limiter := recordFailure (se_peer x) account (cx_tick cx) (sv_limiter st)\<rparr>"

definition limit_allows :: "packet_ctx \<Rightarrow> session \<Rightarrow> string \<Rightarrow> server \<Rightarrow> bool \<times> server" where
  "limit_allows cx x account st =
     (let (b, l) = ll_allow (se_peer x) account (cx_tick cx) (sv_limiter st) in (b, st\<lparr>sv_limiter := l\<rparr>))"

definition login_malformed :: "session \<Rightarrow> login_rq \<Rightarrow> bool" where
  "login_malformed x rq \<longleftrightarrow>
     \<not> validMainlandMobile (lq_tel rq) \<or> \<not> validSha256Proof (lq_pass rq) \<or>
     lq_device rq = [] \<or> length (lq_device rq) > 128 \<or> authenticated x \<or> lq_key rq = [] \<or> lq_sig rq = []"

definition password_proof :: "server_env \<Rightarrow> session \<Rightarrow> login_rq \<Rightarrow> bool" where
  "password_proof E x rq \<longleftrightarrow>
     verifyDevice E x ''password-login'' (lq_device rq)
       (bytes_of (lq_tel rq) @ [0] @ bytes_of (lq_pass rq)) (lq_key rq) (lq_sig rq) True"

text \<open>\<open>loginUser\<close> reads with a pooled connection and upgrades an old hash on the write connection.\<close>

definition check_password :: "server_env \<Rightarrow> packet_ctx \<Rightarrow> login_rq \<Rightarrow> server \<Rightarrow> (int \<times> int) \<times> server" where
  "check_password E cx rq st =
     (let (io, st) = sv_read (\<lambda>io _. io) st
      in sv_write (\<lambda>c. case loginUser (en_argon E) (cx_hash cx) (cx_junk cx) io (lq_tel rq) (lq_pass rq) 0 c of
                         (result, uid, c) \<Rightarrow> ((result, uid), c)) st)"

text \<open>From the password on: bind the device, issue the tokens, bind the session.\<close>

definition finish_login :: "server_env \<Rightarrow> packet_ctx \<Rightarrow> nat \<Rightarrow> session \<Rightarrow> login_rq \<Rightarrow> server \<Rightarrow> server" where
  "finish_login E cx s x rq st =
     (let ((result, uid), st) = check_password E cx rq st in
      if result \<noteq> LOGIN_SUCCESS then
        deliver s (MsgLoginRs (login_reject result)) (limit_failure cx x (lq_tel rq) st)
      else
        let (bound, st) = sv_write (bindDevicePublicKey uid (lq_device rq) (lq_key rq)) st in
        if \<not> bound then deliver s (MsgLoginRs (login_reject LOGIN_PASSERROR)) st
        else
          case issue (en_digest E) (cx_issue cx) (cx_now cx) uid (lq_device rq) (sv_tokens st) of
            (IssueThrows, ts) \<Rightarrow> deliver s (MsgLoginRs (login_reject LOGIN_PASSERROR)) (st\<lparr>sv_tokens := ts\<rparr>)
          | (Issued p, ts) \<Rightarrow>
              let st = bindAuth s uid (tp_session p) (lq_device rq) (tp_accessExp p) (st\<lparr>sv_tokens := ts\<rparr>);
                  st = deliver s (MsgLoginRs (login_accept uid p)) st;
                  st = st\<lparr>sv_limiter := recordSuccess (se_peer x) (lq_tel rq) (sv_limiter st)\<rparr>
              in activateSession cx s uid st)"

definition onLogin :: "server_env \<Rightarrow> packet_ctx \<Rightarrow> nat \<Rightarrow> session \<Rightarrow> bytes \<Rightarrow> server \<Rightarrow> server" where
  "onLogin E cx s x payload st =
     (case en_login E payload of
        None \<Rightarrow> st
      | Some rq \<Rightarrow>
          let (ip_ok, st) = limit_allows cx x [] st in
          if \<not> ip_ok then deliver s (MsgLoginRs (login_reject LOGIN_RATE_LIMITED)) st
          else if login_malformed x rq then
            deliver s (MsgLoginRs (login_reject LOGIN_INVALID)) (limit_failure cx x [] st)
          else if \<not> password_proof E x rq then
            deliver s (MsgLoginRs (login_reject LOGIN_PASSERROR)) (limit_failure cx x (lq_tel rq) st)
          else
            let (pair_ok, st) = limit_allows cx x (lq_tel rq) st in
            if \<not> pair_ok then deliver s (MsgLoginRs (login_reject LOGIN_RATE_LIMITED)) st
            else finish_login E cx s x rq st)"

text \<open>The token and the device key that a token login rests on.\<close>

definition token_login_row :: "server_env \<Rightarrow> packet_ctx \<Rightarrow> session \<Rightarrow> token_login_rq \<Rightarrow> server \<Rightarrow> auth_row option \<times> server" where
  "token_login_row E cx x rq st =
     (if length (tl_device rq) > 128 \<or> tl_sig rq = [] then (None, st)
      else
        let (row, st) = sv_read (\<lambda>io. validateAccess (en_digest E) io (cx_now cx) (tl_access rq) [] (tl_device rq)) st
        in case row of
             None \<Rightarrow> (None, st)
           | Some r \<Rightarrow>
               let (key, st) = sv_read (\<lambda>io. getDevicePublicKey io (ar_user r) (tl_device rq)) st
               in (case key of
                     None \<Rightarrow> None
                   | Some k \<Rightarrow>
                       if verifyDevice E x ''token-login'' (tl_device rq) (bytes_of (tl_access rq)) k (tl_sig rq) False
                       then Some r else None, st))"

definition onTokenLogin :: "server_env \<Rightarrow> packet_ctx \<Rightarrow> nat \<Rightarrow> session \<Rightarrow> bytes \<Rightarrow> server \<Rightarrow> server" where
  "onTokenLogin E cx s x payload st =
     (case en_tokenLogin E payload of
        None \<Rightarrow> st
      | Some rq \<Rightarrow>
          if authenticated x then
            deliver s (MsgTokenLoginRs \<lparr>tr_result = LOGIN_PASSERROR, tr_user = 0, tr_exp = 0\<rparr>) st
          else
            let (row, st) = token_login_row E cx x rq st
            in case row of
                 None \<Rightarrow> deliver s (MsgTokenLoginRs \<lparr>tr_result = LOGIN_PASSERROR, tr_user = 0, tr_exp = 0\<rparr>) st
               | Some r \<Rightarrow>
                   let st = bindAuth s (ar_user r) (ar_session r) (tl_device rq) (ar_accessExp r) st;
                       st = deliver s (MsgTokenLoginRs \<lparr>tr_result = LOGIN_SUCCESS, tr_user = ar_user r,
                                                         tr_exp = ar_accessExp r\<rparr>) st
                   in activateSession cx s (ar_user r) st)"

section \<open>Refreshing and signing out\<close>

text \<open>
  The check of the device before a refresh token is used: the token must be the current one of a
  session of this device that is not revoked, and the request signed with the device's key.
\<close>

definition device_of_refresh ::
  "server_env \<Rightarrow> session \<Rightarrow> string \<Rightarrow> string \<Rightarrow> string \<Rightarrow> bytes \<Rightarrow> bytes \<Rightarrow> server \<Rightarrow> auth_row option \<times> server" where
  "device_of_refresh E x operation token dev credential sig st =
     (let (row, st) = sv_read (\<lambda>io. findByRefreshHash io (tokenHash (en_digest E) token)) st
      in case row of
           None \<Rightarrow> (None, st)
         | Some r \<Rightarrow>
             if ar_revoked r \<or> ar_device r \<noteq> dev then (None, st)
             else
               let (key, st) = sv_read (\<lambda>io. getDevicePublicKey io (ar_user r) dev) st
               in (case key of
                     None \<Rightarrow> None
                   | Some k \<Rightarrow> if verifyDevice E x operation dev credential k sig False then Some r else None, st))"

definition refresh_proof :: "server_env \<Rightarrow> session \<Rightarrow> refresh_rq \<Rightarrow> server \<Rightarrow> auth_row option \<times> server" where
  "refresh_proof E x rq st =
     (if length (rf_device rq) > 128 \<or> length (rf_request rq) > 128 \<or> rf_sig rq = [] then (None, st)
      else device_of_refresh E x ''token-refresh'' (rf_refresh rq) (rf_device rq)
             (bytes_of (rf_refresh rq) @ [0] @ bytes_of (rf_request rq)) (rf_sig rq) st)"

definition refresh_reject :: refresh_rs where
  "refresh_reject = \<lparr>rr_result = 1, rr_access = [], rr_refresh = [], rr_accessExp = 0, rr_refreshExp = 0, rr_session = []\<rparr>"

definition refresh_accept :: "token_pair \<Rightarrow> refresh_rs" where
  "refresh_accept p = \<lparr>rr_result = 0, rr_access = tp_access p, rr_refresh = tp_refresh p,
     rr_accessExp = tp_accessExp p, rr_refreshExp = tp_refreshExp p, rr_session = tp_session p\<rparr>"

definition kick_user :: "int \<Rightarrow> server \<Rightarrow> server" where
  "kick_user uid st =
     (if uid > 0 then
        (case presence_get uid st of
           None \<Rightarrow> st
         | Some live \<Rightarrow> closeAfterWrite live (deliver live MsgKicked st))
      else st)"

text \<open>\<open>rotateRefresh\<close> reads twice and writes.\<close>

definition rotate_tokens :: "server_env \<Rightarrow> packet_ctx \<Rightarrow> refresh_rq \<Rightarrow> server \<Rightarrow> rotate_result \<times> int \<times> server" where
  "rotate_tokens E cx rq st =
     (let (io1, st) = sv_read (\<lambda>io _. io) st;
          (io2, st) = sv_read (\<lambda>io _. io) st
      in case rotateRefresh (en_digest E) (cx_rotate cx) (cx_victim cx) io1 io2 (cx_now cx)
                (rf_refresh rq) (rf_device rq) (rf_request rq) 0 (sv_tokens st) of
           (res, revoked, ts) \<Rightarrow> (res, revoked, st\<lparr>sv_tokens := ts\<rparr>))"

text \<open>
  When the random generator throws, the exception leaves the handler: the router logs it and closes
  the session.
\<close>

definition onTokenRefresh :: "server_env \<Rightarrow> packet_ctx \<Rightarrow> nat \<Rightarrow> session \<Rightarrow> bytes \<Rightarrow> server \<Rightarrow> server" where
  "onTokenRefresh E cx s x payload st =
     (case en_refresh E payload of
        None \<Rightarrow> st
      | Some rq \<Rightarrow>
          let (proof, st) = refresh_proof E x rq st in
          case proof of
            None \<Rightarrow> deliver s (MsgRefreshRs refresh_reject) st
          | Some _ \<Rightarrow>
              (case rotate_tokens E cx rq st of
                 (RotateThrows, _, st) \<Rightarrow> sv_close s st
               | (RotateFails, revoked, st) \<Rightarrow> deliver s (MsgRefreshRs refresh_reject) (kick_user revoked st)
               | (Rotated p, revoked, st) \<Rightarrow>
                   let st = kick_user revoked st;
                       st = (if authenticated x
                             then bindAuth s (se_user x) (tp_session p) (rf_device rq) (tp_accessExp p) st else st)
                   in deliver s (MsgRefreshRs (refresh_accept p)) st))"

definition logout_owner :: "server_env \<Rightarrow> session \<Rightarrow> logout_rq \<Rightarrow> server \<Rightarrow> auth_row option \<times> server" where
  "logout_owner E x rq st =
     (if lo_refresh rq = [] then (None, st)
      else
        let (row, st) = device_of_refresh E x ''logout'' (lo_refresh rq) (lo_device rq)
              (bytes_of (lo_refresh rq) @ [0] @ bytes_of (if lo_all rq then ''1'' else ''0'')) (lo_sig rq) st
        in (case row of
              None \<Rightarrow> None
            | Some r \<Rightarrow> if authenticated x \<and> se_user x = ar_user r \<and> se_device x = ar_device r \<and>
                          se_auth x = ar_session r then Some r else None, st))"

definition onLogout :: "server_env \<Rightarrow> packet_ctx \<Rightarrow> nat \<Rightarrow> session \<Rightarrow> bytes \<Rightarrow> server \<Rightarrow> server" where
  "onLogout E cx s x payload st =
     (case en_logout E payload of
        None \<Rightarrow> st
      | Some rq \<Rightarrow>
          let (row, st) = logout_owner E x rq st
          in case row of
               None \<Rightarrow> deliver s (MsgLogoutRs 1) st
             | Some r \<Rightarrow>
                 let st = st\<lparr>sv_tokens := (if lo_all rq then revokeAllForUser (ar_user r) (sv_tokens st)
                                           else ts_revokeSession (ar_session r) (sv_tokens st))\<rparr>
                 in closeAfterWrite s (deliver s (MsgLogoutRs 0) st))"

end
