(* ===== verification/ChatHandlers.thy ===== *)
theory ChatHandlers
  imports ServerCore Sha256
begin

text \<open>
  The handlers for friends (\<^verbatim>\<open>handlers/FriendHandler.cpp\<close>), messages (\<^verbatim>\<open>handlers/MessageHandler.cpp\<close>),
  history (\<^verbatim>\<open>handlers/RoamHandler.cpp\<close>) and the heartbeat (\<^verbatim>\<open>handlers/SystemHandler.cpp\<close>).
  \<open>x\<close> is the session the packet came on.
\<close>

section \<open>Friends\<close>

definition onAddFriend :: "server_env \<Rightarrow> packet_ctx \<Rightarrow> nat \<Rightarrow> session \<Rightarrow> bytes \<Rightarrow> server \<Rightarrow> server" where
  "onAddFriend E cx s x payload st =
     (case en_addFriend E payload of
        None \<Rightarrow> st
      | Some rq \<Rightarrow>
          if se_user x \<le> 0 then st
          else
            let uid = se_user x;
                rq = rq\<lparr>af_my := uid\<rparr>;
                (fid, st) = sv_read (\<lambda>io. getUserIdByNick io (utf8Truncate (af_friendNick rq) (USER_NICK_LEN - 1))) st;
                reply = \<lparr>as_result = 0, as_dest = 0, as_destNick = [], as_my = 0, as_myNick = af_friendNick rq\<rparr>
            in if fid = 0 then deliver s (MsgAddFriendRs (reply\<lparr>as_result := ADD_FRIEND_NOTEXIT\<rparr>)) st
               else if uid = fid then deliver s (MsgAddFriendRs (reply\<lparr>as_result := ADD_FRIEND_SELF\<rparr>)) st
               else
                 let (already, st) = sv_read (\<lambda>io. isFriend io uid fid) st in
                 if already then deliver s (MsgAddFriendRs (reply\<lparr>as_result := ADD_FRIEND_ALREADY\<rparr>)) st
                 else
                   let (created, st) = sv_write (createFriendRequest uid fid (cx_now cx)) st in
                   if \<not> created then deliver s (MsgAddFriendRs (reply\<lparr>as_result := ADD_FRIEND_DB_ERROR\<rparr>)) st
                   else
                     let (target, st) = sv_read (\<lambda>io. getUser io fid) st;
                         reply = reply\<lparr>as_result := ADD_FRIEND_PENDING, as_my := fid\<rparr>;
                         reply = (case target of None \<Rightarrow> reply | Some u \<Rightarrow> reply\<lparr>as_myNick := u_name u\<rparr>);
                         st = (case presence_get fid st of
                                 None \<Rightarrow> st | Some ts \<Rightarrow> deliver ts (MsgAddFriendRq rq) st)
                     in deliver s (MsgAddFriendRs reply) st)"

text \<open>The friend list of \<open>owner\<close>, sent to one session.\<close>

definition send_friend :: "nat \<Rightarrow> int \<Rightarrow> server \<Rightarrow> server" where
  "send_friend to f st = sendFriendInfo to f (if isOnline f st then STATUS_ONLINE else STATUS_OFFLINE) st"

definition send_friends :: "nat \<Rightarrow> int \<Rightarrow> server \<Rightarrow> server" where
  "send_friends to owner st =
     (let st = sendFriendInfo to owner STATUS_ONLINE st;
          (friends, st) = sv_read (\<lambda>io. getFriends io owner) st
      in fold (send_friend to) (map u_id friends) st)"

definition onAddFriendReply :: "server_env \<Rightarrow> packet_ctx \<Rightarrow> nat \<Rightarrow> session \<Rightarrow> bytes \<Rightarrow> server \<Rightarrow> server" where
  "onAddFriendReply E cx s x payload st =
     (case en_addReply E payload of
        None \<Rightarrow> st
      | Some rs \<Rightarrow>
          if se_user x \<le> 0 then st
          else
            let uid = se_user x;
                rs = rs\<lparr>as_my := uid\<rparr>;
                accepted = (as_result rs = ADD_FRIEND_AGREE)
            in if as_result rs \<noteq> ADD_FRIEND_AGREE \<and> as_result rs \<noteq> ADD_FRIEND_REJECT then st
               else
                 let (resolved, st) = sv_write (resolveFriendRequest (as_dest rs) uid accepted (cx_now cx)) st in
                 if \<not> resolved then st
                 else
                   let st = (if accepted then
                               (let st = send_friends s uid st
                                in case presence_get (as_dest rs) st of
                                     None \<Rightarrow> st
                                   | Some q \<Rightarrow> send_friends q (as_dest rs) st)
                             else st)
                   in case presence_get (as_dest rs) st of
                        None \<Rightarrow> st
                      | Some q \<Rightarrow> deliver q (MsgAddFriendRs rs) st)"

definition onFriendRequestList :: "server_env \<Rightarrow> nat \<Rightarrow> session \<Rightarrow> bytes \<Rightarrow> server \<Rightarrow> server" where
  "onFriendRequestList E s x payload st =
     (case en_requestList E payload of
        None \<Rightarrow> st
      | Some _ \<Rightarrow>
          if se_user x \<le> 0 then st
          else
            let (rows, st) = sv_read (\<lambda>io. pendingFriendRequests io (se_user x)) st
            in deliver s (MsgRequestList rows) st)"

definition onDeleteFriend :: "server_env \<Rightarrow> nat \<Rightarrow> session \<Rightarrow> bytes \<Rightarrow> server \<Rightarrow> server" where
  "onDeleteFriend E s x payload st =
     (case en_deleteFriend E payload of
        None \<Rightarrow> st
      | Some fid \<Rightarrow>
          let uid = se_user x;
              (nick, st) = sv_read (\<lambda>io. getUserNickById io uid) st;
              rs = \<lparr>df_result = 0, df_friend = fid, df_operator = uid, df_operatorNick = nick\<rparr>
          in if uid \<le> 0 \<or> fid \<le> 0 \<or> uid = fid then
               deliver s (MsgDeleteFriendRs (rs\<lparr>df_result := DELETE_FRIEND_INVALID\<rparr>)) st
             else
               let (friends, st) = sv_read (\<lambda>io. isFriend io uid fid) st in
               if \<not> friends then deliver s (MsgDeleteFriendRs (rs\<lparr>df_result := DELETE_FRIEND_NOT_FRIEND\<rparr>)) st
               else
                 let (removed, st) = sv_write (removeFriendBidirectional uid fid) st in
                 if \<not> removed then deliver s (MsgDeleteFriendRs (rs\<lparr>df_result := DELETE_FRIEND_DB_ERROR\<rparr>)) st
                 else
                   let st = deliver s (MsgDeleteFriendRs (rs\<lparr>df_result := DELETE_FRIEND_SUCCESS\<rparr>)) st
                   in case presence_get fid st of
                        None \<Rightarrow> st
                      | Some q \<Rightarrow> deliver q (MsgDeleteFriendRs (rs\<lparr>df_result := DELETE_FRIEND_SUCCESS, df_friend := uid\<rparr>)) st)"

section \<open>Messages\<close>

definition fallbackMsgId :: "int \<Rightarrow> packet_ctx \<Rightarrow> int \<Rightarrow> int \<Rightarrow> string \<Rightarrow> string" where
  "fallbackMsgId counter cx sender receiver content =
     sha256Hex (cx_junk cx) (int_str sender @ ''|'' @ int_str receiver @ ''|'' @ int_str (cx_now cx) @ ''|'' @
       int_str counter @ ''|'' @ content)"

definition deliverFailure :: "nat \<Rightarrow> chat_info \<Rightarrow> int \<Rightarrow> server \<Rightarrow> server" where
  "deliverFailure s rq result st =
     deliver s (MsgChatRs \<lparr>cr_my = ci_friend rq, cr_friend = ci_my rq, cr_result = result,
                           cr_msgId = ci_msgId rq, cr_seq = 0\<rparr>) st"

definition findUploadRecord :: "string \<Rightarrow> server \<Rightarrow> upload_record option" where
  "findUploadRecord fid st = sv_uploads st fid"

definition eraseUploadRecord :: "string \<Rightarrow> server \<Rightarrow> server" where
  "eraseUploadRecord fid st = st\<lparr>sv_uploads := (sv_uploads st)(fid := None)\<rparr>"

definition is_image :: "upload_record \<Rightarrow> bool" where
  "is_image r \<longleftrightarrow> take 6 (ur_contentType r) = ''image/''"

text \<open>An upload that the sender made for this receiver.\<close>

definition own_upload :: "int \<Rightarrow> int \<Rightarrow> string \<Rightarrow> server \<Rightarrow> upload_record option" where
  "own_upload uid rid fid st =
     (case findUploadRecord fid st of
        None \<Rightarrow> None
      | Some r \<Rightarrow> if ur_uploader r \<noteq> uid \<or> ur_receiver r \<noteq> rid then None else Some r)"

definition own_image :: "int \<Rightarrow> int \<Rightarrow> string \<Rightarrow> server \<Rightarrow> upload_record option" where
  "own_image uid rid fid st =
     (case own_upload uid rid fid st of
        None \<Rightarrow> None
      | Some r \<Rightarrow> if is_image r then Some r else None)"

record attachment =
  at_path :: string
  at_size :: int
  at_thumb :: "upload_record option"
  at_large :: "upload_record option"

text \<open>
  The files a message claims, checked in the order of the code; \<open>None\<close> when one is not the sender's.
  The request is returned with what the server knows of the files filled in.
\<close>

definition claim_thumb :: "chat_info \<Rightarrow> attachment \<Rightarrow> server \<Rightarrow> (chat_info \<times> attachment) option" where
  "claim_thumb rq a st =
     (if ci_type rq = TYPE_IMAGE \<and> ci_thumbFileId rq \<noteq> [] then
        (case own_image (ci_my rq) (ci_friend rq) (ci_thumbFileId rq) st of
           None \<Rightarrow> None
         | Some r \<Rightarrow> Some (rq\<lparr>ci_thumbSize := ur_size r, ci_thumbSha256 := ur_sha256 r\<rparr>, a\<lparr>at_thumb := Some r\<rparr>))
      else Some (rq, a))"

definition claim_large :: "chat_info \<Rightarrow> attachment \<Rightarrow> server \<Rightarrow> (chat_info \<times> attachment) option" where
  "claim_large rq a st =
     (if ci_type rq = TYPE_IMAGE \<and> ci_largeFileId rq \<noteq> [] then
        (case own_image (ci_my rq) (ci_friend rq) (ci_largeFileId rq) st of
           None \<Rightarrow> None
         | Some r \<Rightarrow> Some (rq\<lparr>ci_largeSize := ur_size r, ci_largeSha256 := ur_sha256 r\<rparr>, a\<lparr>at_large := Some r\<rparr>))
      else Some (rq, a))"

definition claim_files :: "chat_info \<Rightarrow> server \<Rightarrow> (chat_info \<times> attachment) option" where
  "claim_files rq st =
     (let a = \<lparr>at_path = [], at_size = 0, at_thumb = None, at_large = None\<rparr> in
      if ci_type rq = TYPE_IMAGE \<or> ci_type rq = TYPE_FILE then
        (case own_upload (ci_my rq) (ci_friend rq) (ci_fileId rq) st of
           None \<Rightarrow> None
         | Some r \<Rightarrow>
             (case claim_thumb (rq\<lparr>ci_fileSize := ur_size r, ci_contentType := ur_contentType r, ci_sha256 := ur_sha256 r\<rparr>)
                     (a\<lparr>at_path := ur_path r, at_size := ur_size r\<rparr>) st of
                None \<Rightarrow> None
              | Some (rq, a) \<Rightarrow> claim_large rq a st))
      else Some (rq, a))"

definition path_of :: "upload_record option \<Rightarrow> string" where
  "path_of r = (case r of None \<Rightarrow> [] | Some r \<Rightarrow> ur_path r)"

definition chat_message :: "packet_ctx \<Rightarrow> string \<Rightarrow> chat_info \<Rightarrow> attachment \<Rightarrow> stored_message" where
  "chat_message cx mid rq a =
     \<lparr>sm_msgId = mid, sm_sender = ci_my rq, sm_receiver = ci_friend rq,
      sm_type = (if ci_type rq = TYPE_IMAGE then 1 else if ci_type rq = TYPE_FILE then 2 else 0),
      sm_content = (if ci_type rq = TYPE_FILE then ci_fileName rq else ci_msg rq),
      sm_mediaPath = at_path a, sm_imgW = ci_imgW rq, sm_imgH = ci_imgH rq, sm_ts = cx_now cx, sm_seq = 0,
      sm_fileId = ci_fileId rq, sm_fileSize = at_size a, sm_contentType = ci_contentType rq,
      sm_sha256 = ci_sha256 rq, sm_thumbFileId = ci_thumbFileId rq, sm_thumbPath = path_of (at_thumb a),
      sm_thumbSize = ci_thumbSize rq, sm_thumbSha256 = ci_thumbSha256 rq, sm_thumbW = ci_thumbW rq,
      sm_thumbH = ci_thumbH rq, sm_largeFileId = ci_largeFileId rq, sm_largePath = path_of (at_large a),
      sm_largeSize = ci_largeSize rq, sm_largeSha256 = ci_largeSha256 rq, sm_largeW = ci_largeW rq,
      sm_largeH = ci_largeH rq\<rparr>"

text \<open>The uploads a stored message used up.\<close>

definition consume_uploads :: "stored_message \<Rightarrow> attachment \<Rightarrow> server \<Rightarrow> server" where
  "consume_uploads m a st =
     (if sm_type m = 1 \<or> sm_type m = 2 then
        let st = eraseUploadRecord (sm_fileId m) st;
            st = (if at_thumb a \<noteq> None then eraseUploadRecord (sm_thumbFileId m) st else st)
        in if at_large a \<noteq> None then eraseUploadRecord (sm_largeFileId m) st else st
      else st)"

definition take_msgId :: "packet_ctx \<Rightarrow> chat_info \<Rightarrow> server \<Rightarrow> string \<times> server" where
  "take_msgId cx rq st =
     (if ci_msgId rq = []
      then (fallbackMsgId (uint (sv_counter st)) cx (ci_my rq) (ci_friend rq) (ci_msg rq),
            st\<lparr>sv_counter := sv_counter st + 1\<rparr>)
      else (ci_msgId rq, st))"

definition forward_chat :: "nat \<Rightarrow> chat_info \<Rightarrow> stored_message \<Rightarrow> nat option \<Rightarrow> server \<Rightarrow> server" where
  "forward_chat s rq m target st =
     (let rq = rq\<lparr>ci_msgId := sm_msgId m, ci_ts := sm_ts m, ci_seq := sm_seq m\<rparr>;
          st = (case target of None \<Rightarrow> st | Some t \<Rightarrow> deliver t (MsgChatRq rq) st)
      in deliver s (MsgChatRs \<lparr>cr_my = ci_friend rq, cr_friend = ci_my rq,
           cr_result = (if target = None then CHAT_RESULT_FAIL else CHAT_RESULT_SUCC),
           cr_msgId = sm_msgId m, cr_seq = sm_seq m\<rparr>) st)"

definition store_chat :: "packet_ctx \<Rightarrow> nat \<Rightarrow> chat_info \<Rightarrow> attachment \<Rightarrow> server \<Rightarrow> server" where
  "store_chat cx s rq a st =
     (let (mid, st) = take_msgId cx rq st;
          target = presence_get (ci_friend rq) st;
          ((saved, m), st) = sv_write (\<lambda>c. case saveMessage (chat_message cx mid rq a) (target \<noteq> None) c of
                                             (saved, m, c) \<Rightarrow> ((saved, m), c)) st
      in if \<not> saved then deliverFailure s rq CHAT_RESULT_SERVER_ERROR st
         else forward_chat s rq m target (consume_uploads m a st))"

definition onChat :: "server_env \<Rightarrow> packet_ctx \<Rightarrow> nat \<Rightarrow> session \<Rightarrow> bytes \<Rightarrow> server \<Rightarrow> server" where
  "onChat E cx s x payload st =
     (case en_chat E payload of
        None \<Rightarrow> st
      | Some rq \<Rightarrow>
          if se_user x \<le> 0 then st
          else
            let rq = rq\<lparr>ci_my := se_user x\<rparr>;
                (friends, st) = sv_read (\<lambda>io. isFriend io (se_user x) (ci_friend rq)) st
            in if \<not> friends then deliverFailure s rq CHAT_RESULT_NOT_FRIEND st
               else case claim_files rq st of
                 None \<Rightarrow> deliverFailure s rq CHAT_RESULT_FILE_NOT_OWNED st
               | Some (rq, a) \<Rightarrow> store_chat cx s rq a st)"

end
