(* ===== verification/AiHandlers.thy ===== *)
theory AiHandlers
  imports ServerCore
begin

text \<open>
  \<^verbatim>\<open>im_server/src/handlers/AiHandler.cpp\<close>: admitting a request for suggested replies, cancelling it,
  and the job a worker runs for it. A job is two steps, before and after the call of the model
  service, since other packets are handled while the call lasts; the service's answer is an argument.
  Counters that are only logged are left out.
\<close>

section \<open>Requests\<close>

definition requestKey :: "int \<Rightarrow> string \<Rightarrow> string" where
  "requestKey uid rid = int_str uid @ '':'' @ rid"

definition sendResult :: "nat \<Rightarrow> string \<Rightarrow> ai_status \<Rightarrow> ai_text \<Rightarrow> string list \<Rightarrow> server \<Rightarrow> server" where
  "sendResult s rid status err suggestions st =
     deliver s (MsgAiRs \<lparr>ax_requestId = rid, ax_status = status, ax_error = err, ax_suggestions = suggestions\<rparr>) st"

definition on_ai :: "(ai_state \<Rightarrow> ai_state) \<Rightarrow> server \<Rightarrow> server" where
  "on_ai f st = st\<lparr>sv_ai := f (sv_ai st)\<rparr>"

definition markCancelled :: "int \<Rightarrow> string \<Rightarrow> ai_state \<Rightarrow> ai_state" where
  "markCancelled uid rid a =
     (if requestKey uid rid \<notin> ah_active a then a
      else a\<lparr>ah_cancelled := insert (requestKey uid rid) (ah_cancelled a)\<rparr>)"

definition isCancelled :: "int \<Rightarrow> string \<Rightarrow> ai_state \<Rightarrow> bool" where
  "isCancelled uid rid a \<longleftrightarrow> requestKey uid rid \<in> ah_cancelled a"

definition finishRequest :: "int \<Rightarrow> string \<Rightarrow> ai_state \<Rightarrow> ai_state" where
  "finishRequest uid rid a =
     a\<lparr>ah_active := ah_active a - {requestKey uid rid}, ah_cancelled := ah_cancelled a - {requestKey uid rid},
       ah_limiter := ai_release uid (ah_limiter a)\<rparr>"

definition onCancel :: "server_env \<Rightarrow> nat \<Rightarrow> session \<Rightarrow> bytes \<Rightarrow> server \<Rightarrow> server" where
  "onCancel E s x payload st =
     (if se_user x \<le> 0 then st
      else case en_aiCancel E payload of
        None \<Rightarrow> st
      | Some rid \<Rightarrow>
          if rid = [] \<or> length rid > 64 then st else on_ai (markCancelled (se_user x) rid) st)"

definition ai_malformed :: "int \<Rightarrow> ai_rq \<Rightarrow> bool" where
  "ai_malformed uid rq \<longleftrightarrow> ai_requestId rq = [] \<or> length (ai_requestId rq) > 64 \<or> ai_peer rq \<le> 0 \<or>
     ai_peer rq = uid \<or> length (ai_tone rq) > 32 \<or> ai_max rq < 0 \<or> ai_max rq > 3"

definition rolloutBucket :: "int \<Rightarrow> u32" where
  "rolloutBucket uid = (word_of_int uid * 2654435761) mod 100"

definition default_tone :: string where
  "default_tone = [CHR 0xE8, CHR 0x87, CHR 0xAA, CHR 0xE7, CHR 0x84, CHR 0xB6, CHR 0xE3, CHR 0x80, CHR 0x81,
     CHR 0xE7, CHR 0xAE, CHR 0x80, CHR 0xE6, CHR 0xB4, CHR 0x81]"

definition ai_job_of :: "nat \<Rightarrow> int \<Rightarrow> ai_rq \<Rightarrow> ai_job" where
  "ai_job_of s uid rq = \<lparr>aj_session = s, aj_user = uid, aj_peer = ai_peer rq, aj_requestId = ai_requestId rq,
     aj_tone = (if ai_tone rq = [] then default_tone else ai_tone rq),
     aj_max = (if ai_max rq = 0 then 3 else ai_max rq)\<rparr>"

definition admit :: "packet_ctx \<Rightarrow> nat \<Rightarrow> int \<Rightarrow> ai_rq \<Rightarrow> server \<Rightarrow> server" where
  "admit cx s uid rq st =
     (let (start, l) = tryAcquire uid (ai_requestId rq) (cx_tick cx) (ah_limiter (sv_ai st));
          st = on_ai (\<lambda>a. a\<lparr>ah_limiter := l\<rparr>) st
      in case start of
           AiDuplicate \<Rightarrow> sendResult s (ai_requestId rq) AI_INVALID_REQUEST DuplicateRequest [] st
         | AiRateLimited \<Rightarrow> sendResult s (ai_requestId rq) AI_RATE_LIMITED TooOften [] st
         | AiQueueFull \<Rightarrow> sendResult s (ai_requestId rq) AI_BUSY ServiceBusy [] st
         | AiBusy \<Rightarrow> sendResult s (ai_requestId rq) AI_BUSY AlreadyRunning [] st
         | AiAccepted \<Rightarrow>
             on_ai (\<lambda>a. a\<lparr>ah_active := insert (requestKey uid (ai_requestId rq)) (ah_active a),
                         ah_jobs := ah_jobs a @ [ai_job_of s uid rq]\<rparr>) st)"

definition onReply :: "server_env \<Rightarrow> packet_ctx \<Rightarrow> nat \<Rightarrow> session \<Rightarrow> bytes \<Rightarrow> server \<Rightarrow> server" where
  "onReply E cx s x payload st =
     (case en_aiReply E payload of
        None \<Rightarrow> sendResult s [] AI_INVALID_REQUEST BadFormat [] st
      | Some rq \<Rightarrow>
          let uid = se_user x; rid = ai_requestId rq in
          if uid \<le> 0 then sendResult s rid AI_UNAUTHORIZED SignInFirst [] st
          else if ai_malformed uid rq then sendResult s rid AI_INVALID_REQUEST BadParameters [] st
          else if \<not> ac_feature (en_ai E) \<or> rolloutBucket uid \<ge> word_of_int (ac_rollout (en_ai E)) then
            sendResult s rid AI_NOT_CONFIGURED FeatureClosed [] st
          else
            let (friends, st) = sv_read (\<lambda>io. isFriend io uid (ai_peer rq)) st in
            if \<not> friends then sendResult s rid AI_NOT_FRIEND FriendsOnly [] st
            else if \<not> ai_enabled (en_ai E) then sendResult s rid AI_NOT_CONFIGURED NoService [] st
            else admit cx s uid rq st)"

section \<open>The job\<close>

definition ai_policy_of :: "ai_config \<Rightarrow> ai_policy" where
  "ai_policy_of cfg = \<lparr>ap_maxMessages = ac_maxMessages cfg, ap_maxMessage = ac_maxMessage cfg,
                       ap_maxContext = ac_maxContext cfg\<rparr>"

text \<open>The session that asked, if it still exists and belongs to the same user.\<close>

definition asking :: "ai_job \<Rightarrow> server \<Rightarrow> nat option" where
  "asking job st =
     (case sv_sessions st (aj_session job) of
        None \<Rightarrow> None
      | Some x \<Rightarrow> if se_user x = aj_user job then Some (aj_session job) else None)"

definition job_done :: "ai_job \<Rightarrow> server \<Rightarrow> server" where
  "job_done job st = on_ai (finishRequest (aj_user job) (aj_requestId job)) st"

text \<open>The first half: \<open>Some\<close> request when the model service is called. The job leaves the queue, and
  joins the calls when there is one.\<close>

definition ai_begin :: "server_env \<Rightarrow> ai_job \<Rightarrow> server \<Rightarrow> ai_request option \<times> server" where
  "ai_begin E job st =
     (let st = on_ai (\<lambda>a. a\<lparr>ah_jobs := remove1 job (ah_jobs a)\<rparr>) st in
      if isCancelled (aj_user job) (aj_requestId job) (sv_ai st) then (None, job_done job st)
      else
        let (rows, st) = sv_read (\<lambda>io. roamMessages io (aj_user job) (aj_peer job) (2 ^ 63 - 1)
                                        (min 100 (ac_maxMessages (en_ai E) * 3))) st;
            q = buildReplyContext rows (aj_user job) (aj_peer job) (aj_requestId job) (aj_tone job) (aj_max job)
                  (ai_policy_of (en_ai E))
        in case asking job st of
             None \<Rightarrow> (None, job_done job st)
           | Some s \<Rightarrow>
               if aq_turns q = [] then
                 (None, job_done job (sendResult s (aj_requestId job) AI_INVALID_REQUEST NoMessages [] st))
               else (Some q, on_ai (\<lambda>a. a\<lparr>ah_calls := ah_calls a @ [job]\<rparr>) st))"

datatype ai_error =
    ErrNone | ErrNotConfigured | ErrNetwork | ErrTimeout | ErrUnauthorized | ErrRateLimited | ErrService
  | ErrInvalidResponse

fun mapError :: "ai_error \<Rightarrow> ai_status" where
  "mapError ErrNotConfigured = AI_NOT_CONFIGURED"
| "mapError ErrRateLimited = AI_RATE_LIMITED"
| "mapError ErrNone = AI_OK"
| "mapError _ = AI_UPSTREAM_ERROR"

definition safe_suggestions :: "string list \<Rightarrow> string list" where
  "safe_suggestions xs = take 3 (filter (\<lambda>t. t \<noteq> []) (map (\<lambda>t. utf8Truncate t 240) xs))"

text \<open>The second half, with the service's error and suggestions.\<close>

definition ai_end :: "ai_job \<Rightarrow> ai_error \<Rightarrow> string list \<Rightarrow> server \<Rightarrow> server" where
  "ai_end job err suggestions st =
     (let st = on_ai (\<lambda>a. a\<lparr>ah_calls := remove1 job (ah_calls a)\<rparr>) st in
      job_done job
       (if isCancelled (aj_user job) (aj_requestId job) (sv_ai st) then st
        else case asking job st of
          None \<Rightarrow> st
        | Some s \<Rightarrow>
            if err \<noteq> ErrNone then sendResult s (aj_requestId job) (mapError err) ServiceDown [] st
            else
              let safe = safe_suggestions suggestions in
              if safe = [] then sendResult s (aj_requestId job) AI_UPSTREAM_ERROR BadAnswer [] st
              else sendResult s (aj_requestId job) AI_OK NoText safe st))"

end
