(* ===== verification/ServerDispatch.thy ===== *)
theory ServerDispatch
  imports AuthHandlers ChatHandlers AiHandlers
begin

text \<open>
  History and heartbeat (\<^verbatim>\<open>handlers/RoamHandler.cpp\<close>, \<^verbatim>\<open>handlers/SystemHandler.cpp\<close>), the routing of
  packets (\<^verbatim>\<open>routing/ProtocolRouter.cpp\<close>, \<^verbatim>\<open>routing/Dispatcher.cpp\<close>) and the server's reactions to
  packets, closed connections and silence (\<^verbatim>\<open>core/Server.cpp\<close>), with the runs of the whole server.
\<close>

section \<open>History\<close>

definition onConversations :: "nat \<Rightarrow> session \<Rightarrow> server \<Rightarrow> server" where
  "onConversations s x st =
     (if se_user x \<le> 0 then st
      else let (rows, st) = sv_read (\<lambda>io. roamConversations io (se_user x)) st
           in deliver s (MsgRoamConvs (map fillChatInfo rows)) st)"

definition INT64_MAX :: int where "INT64_MAX = 2 ^ 63 - 1"

definition roam_before :: "roam_rq \<Rightarrow> int" where
  "roam_before rq = (if rq_before rq > 0 then rq_before rq else INT64_MAX)"

definition roam_limit :: "roam_rq \<Rightarrow> int" where
  "roam_limit rq = (let limit = (if rq_limit rq > 0 then rq_limit rq else 20) in if limit > 100 then 100 else limit)"

definition onMessages :: "server_env \<Rightarrow> nat \<Rightarrow> session \<Rightarrow> bytes \<Rightarrow> server \<Rightarrow> server" where
  "onMessages E s x payload st =
     (if se_user x \<le> 0 then st
      else case en_roam E payload of
        None \<Rightarrow> st
      | Some rq \<Rightarrow>
          let limit = roam_limit rq;
              (rows, st) = sv_read (\<lambda>io. roamMessages io (se_user x) (rq_peer rq) (roam_before rq) limit) st
          in deliver s (MsgRoamMsgs \<lparr>rs_peer = rq_peer rq, rs_msgs = map fillChatInfo rows,
               rs_more = (int (length rows) = limit),
               rs_minSeq = (if rows = [] then 0 else sm_seq (last rows))\<rparr>) st)"

section \<open>Heartbeat\<close>

definition onOffline :: "server_env \<Rightarrow> nat \<Rightarrow> session \<Rightarrow> bytes \<Rightarrow> server \<Rightarrow> server" where
  "onOffline E s x payload st =
     (case en_offline E payload of
        None \<Rightarrow> st
      | Some _ \<Rightarrow> sv_close s (st\<lparr>sv_presence := pr_offline (alive st) (se_user x) s (sv_presence st)\<rparr>))"

definition touch_user :: "packet_ctx \<Rightarrow> session \<Rightarrow> server \<Rightarrow> server" where
  "touch_user cx x st =
     (if se_user x > 0 then st\<lparr>sv_presence := pr_touch (se_user x) (cx_now cx) (sv_presence st)\<rparr> else st)"

definition onHeartbeat :: "packet_ctx \<Rightarrow> nat \<Rightarrow> session \<Rightarrow> server \<Rightarrow> server" where
  "onHeartbeat cx s x st = deliver s MsgHeartbeatRs (touch_user cx x st)"

section \<open>Routing\<close>

text \<open>The routes of \<open>Dispatcher\<close>.\<close>

type_synonym handler = "nat \<Rightarrow> session \<Rightarrow> bytes \<Rightarrow> server \<Rightarrow> server"

definition routes :: "server_env \<Rightarrow> packet_ctx \<Rightarrow> (prot \<times> handler) list" where
  "routes E cx =
     [(REGISTER_RQ, \<lambda>s x. onRegister E cx s),
      (LOGIN_RQ, onLogin E cx),
      (TOKEN_LOGIN_RQ, onTokenLogin E cx),
      (TOKEN_REFRESH_RQ, onTokenRefresh E cx),
      (LOGOUT_RQ, onLogout E cx),
      (AI_REPLY_RQ, onReply E cx),
      (AI_CANCEL_RQ, onCancel E),
      (CHAT_INFO_RQ, onChat E cx),
      (ADD_FRIEND_RQ, onAddFriend E cx),
      (ADD_FRIEND_RS, onAddFriendReply E cx),
      (FRIEND_REQUEST_LIST_RQ, onFriendRequestList E),
      (DELETE_FRIEND_RQ, onDeleteFriend E),
      (ROAM_CONV_RQ, \<lambda>s x payload. onConversations s x),
      (ROAM_MSG_RQ, onMessages E),
      (FRIEND_OFFLINE, onOffline E),
      (HEARTBEAT_RQ, \<lambda>s x payload. onHeartbeat cx s x)]"

text \<open>\<open>ProtocolRouter::add\<close> throws on a second route for one number.\<close>

definition router_add :: "u32 \<Rightarrow> 'h \<Rightarrow> (u32 \<times> 'h) list \<Rightarrow> (u32 \<times> 'h) list option" where
  "router_add t h m = (if map_of m t = None then Some ((t, h) # m) else None)"

fun router_build :: "(prot \<times> 'h) list \<Rightarrow> (u32 \<times> 'h) list \<Rightarrow> (u32 \<times> 'h) list option" where
  "router_build [] m = Some m"
| "router_build ((p, h) # rs) m =
     (case router_add (prot_num p) h m of None \<Rightarrow> None | Some m \<Rightarrow> router_build rs m)"

definition hasHandler :: "server_env \<Rightarrow> packet_ctx \<Rightarrow> u32 \<Rightarrow> bool" where
  "hasHandler E cx t \<longleftrightarrow> (case router_build (routes E cx) [] of None \<Rightarrow> False | Some m \<Rightarrow> map_of m t \<noteq> None)"

definition dispatch :: "server_env \<Rightarrow> packet_ctx \<Rightarrow> nat \<Rightarrow> session \<Rightarrow> u32 \<Rightarrow> bytes \<Rightarrow> server \<Rightarrow> server" where
  "dispatch E cx s x t payload st =
     (case router_build (routes E cx) [] of
        None \<Rightarrow> st
      | Some m \<Rightarrow> (case map_of m t of None \<Rightarrow> st | Some h \<Rightarrow> h s x payload st))"

section \<open>The server's reactions\<close>

definition maintenance :: "u32 \<Rightarrow> bool" where
  "maintenance t \<longleftrightarrow> t = prot_num TOKEN_REFRESH_RQ \<or> t = prot_num LOGOUT_RQ"

definition access_expired :: "packet_ctx \<Rightarrow> session \<Rightarrow> bool" where
  "access_expired cx x \<longleftrightarrow> authenticated x \<and> se_exp x > 0 \<and> se_exp x < cx_now cx"

definition dispatchPacket ::
  "server_env \<Rightarrow> packet_ctx \<Rightarrow> nat \<Rightarrow> session \<Rightarrow> u32 \<Rightarrow> bytes \<Rightarrow> server \<Rightarrow> server" where
  "dispatchPacket E cx s x t payload st =
     (let st = touch_user cx x st in
      if \<not> maintenance t \<and> access_expired cx x then sv_close s st
      else dispatch E cx s x t payload st)"

text \<open>\<open>onSessionClosed\<close> takes the session off the map and posts the announcement to a worker.\<close>

definition onSessionClosed :: "nat \<Rightarrow> session \<Rightarrow> server \<Rightarrow> server" where
  "onSessionClosed s x st =
     (if se_user x \<le> 0 then st
      else st\<lparr>sv_presence := pr_offline (alive st) (se_user x) s (sv_presence st)\<rparr>)"

definition tell_offline :: "int \<Rightarrow> int \<Rightarrow> server \<Rightarrow> server" where
  "tell_offline uid f st =
     (case presence_get f st of None \<Rightarrow> st | Some fs \<Rightarrow> deliver fs (MsgFriendOffline uid) st)"

definition announce_offline :: "int \<Rightarrow> server \<Rightarrow> server" where
  "announce_offline uid st =
     (let (friends, st) = sv_read (\<lambda>io. getFriends io uid) st
      in fold (tell_offline uid) (map u_id friends) st)"

definition hbScan :: "int \<Rightarrow> server \<Rightarrow> server" where
  "hbScan now st =
     (let (stale, m) = scanStale (alive st) 90 now (sv_presence st)
      in fold (\<lambda>(uid, s). sv_close s) stale (st\<lparr>sv_presence := m\<rparr>))"

end
