(* ===== verification/ServerWrites.thy ===== *)
theory ServerWrites
  imports ServerCore
begin

text \<open>
  Which tables the writes of the handlers can change: an invariant of the tables that the single
  table operations keep is kept by the writes built from them, whatever SQLite calls fail and also
  when the connection is stuck in a transaction.
\<close>

definition guarded :: "('d \<Rightarrow> bool) \<Rightarrow> ('d conn \<Rightarrow> 'r \<times> 'd conn) \<Rightarrow> bool" where
  "guarded P w \<longleftrightarrow> (\<forall>c r c'. w c = (r, c') \<longrightarrow> conn_ok P c \<longrightarrow> conn_ok P c')"

lemma guardedI: "(\<And>c r c'. w c = (r, c') \<Longrightarrow> conn_ok P c \<Longrightarrow> conn_ok P c') \<Longrightarrow> guarded P w"
  by (auto simp: guarded_def)

lemma guardedD: "guarded P w \<Longrightarrow> w c = (r, c') \<Longrightarrow> conn_ok P c \<Longrightarrow> conn_ok P c'"
  by (auto simp: guarded_def)

lemma run_guarded: "keeps P f \<Longrightarrow> guarded P (sq_run f)"
  by (rule guardedI) (rule conn_ok_run)

lemma step_guarded: "keeps P f \<Longrightarrow> guarded P (sq_step f)"
  by (rule guardedI) (rule conn_ok_step)

lemma query_guarded: "guarded P (sq_query q)"
  by (rule guardedI) (rule conn_ok_query)

lemma tick_guarded: "guarded P tick"
  by (rule guardedI) (rule conn_ok_tick)

section \<open>Accounts and device keys\<close>

lemma register_guarded:
  assumes "\<And>stored. keeps P (insert_user nick tel stored)"
  shows "guarded P (registerUser hashed nick tel)"
  by (rule guardedI)
    (auto simp: registerUser_def Let_def split: option.splits prod.splits if_splits
      intro: conn_ok_rollback
      dest: guardedD [OF query_guarded [of P]] guardedD [OF tick_guarded [of P]]
        guardedD [OF step_guarded [OF assms]])

lemma login_guarded:
  assumes "\<And>uid up. keeps P (upgrade_password uid up)"
    and "loginUser verify rehash junk io tel pass u0 c = (res, uid, c')" and "conn_ok P c"
  shows "conn_ok P c'"
proof -
  have "conn_ok P (snd (sq_run (upgrade_password u x) c))" for u x
    using guardedD [OF run_guarded [OF assms(1)], of _ _ c] assms(3) by (metis surjective_pairing)
  then show ?thesis
    using assms(2,3) by (auto simp: loginUser_def split: if_splits option.splits prod.splits)
qed

lemma bind_guarded:
  assumes "uid > 0 \<Longrightarrow> keeps P (insert_device uid dev key)"
  shows "guarded P (bindDevicePublicKey uid dev key)"
proof (cases "uid > 0")
  case True
  then show ?thesis
    by (intro guardedI)
      (auto simp: bindDevicePublicKey_def split: option.splits prod.splits if_splits
        dest: guardedD [OF query_guarded [of P]] guardedD [OF run_guarded [OF assms [OF True]]])
qed (auto simp: bindDevicePublicKey_def intro!: guardedI)

section \<open>Friends\<close>

lemma request_guarded:
  assumes "keeps P (upsert_request rq tg now)"
  shows "guarded P (createFriendRequest rq tg now)"
  by (rule guardedI)
    (auto simp: createFriendRequest_def split: prod.splits if_splits dest: guardedD [OF run_guarded [OF assms]])

lemma resolve_guarded:
  assumes "keeps P (resolve_effect rq tg accept now)"
  shows "guarded P (resolveFriendRequest rq tg accept now)"
  by (rule guardedI)
    (use assms in \<open>auto simp: resolveFriendRequest_def keeps_def split: prod.splits
      dest!: resolve.keeps_conn_ok [where P = P]\<close>)

lemma remove_guarded:
  assumes "keeps P (delete_friend a b)"
  shows "guarded P (removeFriendBidirectional a b)"
  by (rule guardedI)
    (use assms in \<open>auto simp: removeFriendBidirectional_def keeps_def split: prod.splits if_splits
      dest!: remove_friend.keeps_conn_ok [where P = P]\<close>)

section \<open>The message table\<close>

text \<open>
  Only \<open>saveMessage\<close> and \<open>markDelivered\<close> change it; and a device key is bound only for a proper user.
\<close>

definition steady :: "(msg_row list \<Rightarrow> int \<Rightarrow> bool) \<Rightarrow> server_db \<Rightarrow> bool" where
  "steady Q d \<longleftrightarrow> Q (db_messages d) (db_nextMsg d) \<and> (\<forall>v \<in> set (db_devices d). 0 < dv_user v)"

lemma steady_keeps [simp]:
  "keeps (steady Q) (insert_user nick tel stored)"
  "keeps (steady Q) (upgrade_password uid up)"
  "keeps (steady Q) (upsert_request rq tg now)"
  "keeps (steady Q) (delete_friend a b)"
  "keeps (steady Q) (insert_friend p)"
  "keeps (steady Q) (set_request rq tg status now)"
  by (auto intro!: keepsI split: if_splits
      simp: steady_def insert_user_def upgrade_password_def upsert_request_def
        delete_friend_def insert_friend_def set_request_def Let_def)

lemma steady_bind: "0 < uid \<Longrightarrow> keeps (steady Q) (insert_device uid dev key)"
  by (auto intro!: keepsI split: if_splits simp: steady_def insert_device_def)

lemma steady_resolve [simp]: "keeps (steady Q) (resolve_effect rq tg accept now)"
  by (auto intro!: keepsI split: if_splits option.splits
      simp: steady_def resolve_effect_def add_effect_def eff_then_def insert_friend_def set_request_def Let_def)

interpretation other_tables: token_invariant "steady Q" "\<lambda>_. True" for Q
  by unfold_locales
    (auto simp: steady_def insert_auth_def rotate_effect_def eff_then_def insert_history_def update_auth_def
      revoke_where_def Let_def split: if_splits option.splits)

end
