(* ===== verification/ServerSafety.thy ===== *)
theory ServerSafety
  imports ServerDispatch ServerWrites
begin

text \<open>
  Runs of the whole server and what holds in all of them: who is shown which message, that a message
  marked delivered was sent, and that the presence map names sessions of the right user.
\<close>

section \<open>Quiet steps\<close>

text \<open>
  Most handlers neither show chat messages nor store them, sign nobody in and put nobody on the
  presence map. \<open>quiet\<close> says so of the states before and after.
\<close>

definition conn_of :: "server \<Rightarrow> sconn" where
  "conn_of st = ts_conn (sv_tokens st)"

definition user_of :: "server \<Rightarrow> nat \<Rightarrow> int option" where
  "user_of st s = map_option se_user (sv_sessions st s)"

definition online_as :: "server \<Rightarrow> int \<Rightarrow> nat option" where
  "online_as st uid = map_option pe_session (map_of (sv_presence st) uid)"

definition is_quiet :: "server_event \<Rightarrow> bool" where
  "is_quiet e = (case e of Deliver s m \<Rightarrow> displays m = [] | _ \<Rightarrow> True)"

lemma is_quiet_simps [simp]:
  "is_quiet (Deliver s m) \<longleftrightarrow> displays m = []" "is_quiet (Close s)" "is_quiet (CloseAfterWrite s)"
  by (simp_all add: is_quiet_def)

definition quiet :: "server \<Rightarrow> server \<Rightarrow> bool" where
  "quiet st st' \<longleftrightarrow>
     user_of st' = user_of st \<and> sv_next st' = sv_next st \<and>
     (\<forall>uid s. online_as st' uid = Some s \<longrightarrow> online_as st uid = Some s) \<and>
     (\<forall>Q. conn_ok (steady Q) (conn_of st) \<longrightarrow> conn_ok (steady Q) (conn_of st')) \<and>
     (\<exists>ev. sv_out st' = sv_out st @ ev \<and> list_all is_quiet ev)"

lemma quietI:
  assumes "user_of st' = user_of st" and "sv_next st' = sv_next st"
    and "\<And>uid s. online_as st' uid = Some s \<Longrightarrow> online_as st uid = Some s"
    and "\<And>Q. conn_ok (steady Q) (conn_of st) \<Longrightarrow> conn_ok (steady Q) (conn_of st')"
    and "sv_out st' = sv_out st @ ev" and "list_all is_quiet ev"
  shows "quiet st st'"
  using assms unfolding quiet_def by blast

lemma user_of_cong:
  "sv_sessions st' = sv_sessions st \<Longrightarrow> user_of st' = user_of st"
  by (simp add: user_of_def fun_eq_iff)

lemma online_as_cong: "sv_presence st' = sv_presence st \<Longrightarrow> online_as st' = online_as st"
  by (simp add: online_as_def fun_eq_iff)

lemma quiet_same:
  assumes "sv_sessions st' = sv_sessions st" and "sv_next st' = sv_next st"
    and "sv_presence st' = sv_presence st" and "sv_tokens st' = sv_tokens st"
    and "sv_out st' = sv_out st @ ev" and "list_all is_quiet ev"
  shows "quiet st st'"
  using assms by (intro quietI) (simp_all add: online_as_cong [OF assms(3)] user_of_cong [OF assms(1)] conn_of_def)

lemma quiet_refl [simp]: "quiet st st"
  by (rule quiet_same [where ev = "[]"]) simp_all

lemma quiet_trans: "quiet st st1 \<Longrightarrow> quiet st1 st2 \<Longrightarrow> quiet st st2"
  unfolding quiet_def by (auto 4 4 simp: list_all_append)

interpretation quiet: handler_relation quiet
proof
  show "quiet st1 st3" if "quiet st1 st2" "quiet st2 st3" for st1 st2 st3
    using that by (rule quiet_trans)
  show "quiet st (deliver s m st)" if "displays m = []" for m st s
    using that by (intro quiet_same [where ev = "[Deliver s m]"]) simp_all
  show "quiet st (sv_close s st)" for st s
    by (rule quiet_same [where ev = "[Close s]"]) simp_all
  show "quiet st (closeAfterWrite s st)" for st s
    by (rule quiet_same [where ev = "[CloseAfterWrite s]"]) simp_all
qed (auto intro: quiet_same [where ev = "[]"])

lemma quiet_tokens:
  assumes "\<And>Q. conn_ok (steady Q) (ts_conn (sv_tokens st)) \<Longrightarrow> conn_ok (steady Q) (ts_conn ts)"
  shows "quiet st (st\<lparr>sv_tokens := ts\<rparr>)"
  using assms by (intro quietI [where ev = "[]"]) (auto simp: conn_of_def online_as_def user_of_def)

lemma quiet_write:
  assumes "sv_write w st = (r, st')" and "\<And>Q. guarded (steady Q) w"
  shows "quiet st st'"
proof -
  obtain c where c: "w (ts_conn (sv_tokens st)) = (r, c)" "st' = set_conn c st"
    using sv_writeE [OF assms(1)] .
  have "conn_ok (steady Q) c" if "conn_ok (steady Q) (ts_conn (sv_tokens st))" for Q
    using guardedD [OF assms(2) c(1)] that .
  then show ?thesis
    unfolding c(2) set_conn_def by (intro quiet_tokens) simp
qed

lemma quiet_presence:
  assumes "\<And>uid e. map_of p uid = Some e \<Longrightarrow> \<exists>e0. map_of (sv_presence st) uid = Some e0 \<and> pe_session e0 = pe_session e"
  shows "quiet st (st\<lparr>sv_presence := p\<rparr>)"
  using assms by (intro quietI [where ev = "[]"]) (fastforce simp: conn_of_def online_as_def user_of_def)+

section \<open>The quiet handlers\<close>

lemmas quiet_splits = option.splits prod.splits if_splits

lemma quiet_deliver: "quiet st st1 \<Longrightarrow> displays m = [] \<Longrightarrow> quiet st (deliver s m st1)"
  by (meson quiet_trans quiet.keeps_notice)

lemma quiet_caw: "quiet st st1 \<Longrightarrow> quiet st (closeAfterWrite s st1)"
  by (meson quiet_trans quiet.keeps_closeAfterWrite)

lemma quiet_sv_close: "quiet st st1 \<Longrightarrow> quiet st (sv_close s st1)"
  by (meson quiet_trans quiet.keeps_close)

lemma quiet_read: "sv_read q st1 = (r, st2) \<Longrightarrow> quiet st st1 \<Longrightarrow> quiet st st2"
  by (meson quiet_trans quiet.keeps_read)

lemma quiet_write_step:
  "sv_write w st1 = (r, st2) \<Longrightarrow> (\<And>Q. guarded (steady Q) w) \<Longrightarrow> quiet st st1 \<Longrightarrow> quiet st st2"
  by (meson quiet_trans quiet_write)

lemma quiet_info: "quiet st st1 \<Longrightarrow> quiet st (sendFriendInfo to u status st1)"
  by (meson quiet_trans quiet.keeps_sendFriendInfo)

lemmas quiet_intros = quiet_refl quiet_deliver quiet_caw quiet_sv_close quiet_info

lemmas quiet_writes =
  quiet_write_step [where w = "registerUser h n t" for h n t, OF _ register_guarded [OF steady_keeps(1)]]
  quiet_write_step [where w = "bindDevicePublicKey u d k" for u d k, OF _ bind_guarded [OF steady_bind]]
  quiet_write_step [where w = "createFriendRequest a b c" for a b c, OF _ request_guarded [OF steady_keeps(3)]]
  quiet_write_step [where w = "removeFriendBidirectional a b" for a b, OF _ remove_guarded [OF steady_keeps(4)]]
  quiet_write_step [where w = "resolveFriendRequest a b c d" for a b c d, OF _ resolve_guarded [OF steady_resolve]]

lemma register_quiet: "quiet st (onRegister E cx s payload st)"
  unfolding onRegister_def
  by (auto simp: Let_def split: quiet_splits intro!: quiet_intros
      intro: quiet_write [OF _ register_guarded])

lemma map_of_touch: "map_of (pr_touch uid now m) u = map_option (\<lambda>e. if u = uid then e\<lparr>pe_active := now\<rparr> else e) (map_of m u)"
  unfolding pr_touch_def by (induction m) auto

lemma touch_quiet: "quiet st (touch_user cx x st)"
  unfolding touch_user_def by (auto intro!: quiet_presence simp: map_of_touch)

lemma offline_quiet: "quiet st (st\<lparr>sv_presence := pr_offline al uid s (sv_presence st)\<rparr>)"
  by (rule quiet_presence) (auto simp: pr_offline_def map_of_kv_erase split: option.splits if_splits)

lemma onOffline_quiet: "quiet st (onOffline E s x payload st)"
  unfolding onOffline_def by (auto split: option.split intro!: quiet_intros offline_quiet)

lemma heartbeat_quiet: "quiet st (onHeartbeat cx s x st)"
  unfolding onHeartbeat_def by (auto intro!: quiet_intros touch_quiet)

lemma closed_quiet: "quiet st (onSessionClosed s x st)"
  unfolding onSessionClosed_def by (auto intro: offline_quiet)

lemma announce_offline_quiet: "quiet st (announce_offline uid st)"
proof -
  obtain friends st1 where r: "sv_read (\<lambda>io. getFriends io uid) st = (friends, st1)"
    by (cases "sv_read (\<lambda>io. getFriends io uid) st")
  have "quiet st1 (fold (tell_offline uid) (map u_id friends) st1)"
    by (rule quiet.keeps_fold) (auto simp: tell_offline_def split: option.split intro: quiet_intros)
  then show ?thesis
    using r quiet.keeps_read [OF r] unfolding announce_offline_def by (auto intro: quiet_trans)
qed

lemma scan_sessions: "scanStale al timeout now m = (stale, m') \<Longrightarrow> map_of m' u = Some e \<Longrightarrow>
    \<exists>e0. map_of m u = Some e0 \<and> pe_session e0 = pe_session e"
proof (induction al timeout now m arbitrary: stale m' rule: scanStale.induct)
  case (2 al timeout now uid e0 m)
  obtain stale1 m1 where r: "scanStale al timeout now m = (stale1, m1)" by (cases "scanStale al timeout now m")
  obtain hit e1 where e1: "scan_entry al timeout now e0 = (hit, e1)" by (cases "scan_entry al timeout now e0")
  have "pe_session e1 = pe_session e0"
    using e1 by (auto simp: scan_entry_def split: option.splits if_splits)
  then show ?case
    using 2 r e1 by (auto split: if_splits)
qed simp

lemma hbScan_quiet: "quiet st (hbScan now st)"
proof -
  obtain stale m where r: "scanStale (alive st) 90 now (sv_presence st) = (stale, m)"
    by (cases "scanStale (alive st) 90 now (sv_presence st)")
  have "quiet st (st\<lparr>sv_presence := m\<rparr>)"
    by (rule quiet_presence) (rule scan_sessions [OF r])
  moreover have "quiet st1 (fold (\<lambda>(uid, s). sv_close s) stale st1)" for st1
    by (rule quiet.keeps_fold) (auto intro: quiet.keeps_close)
  ultimately show ?thesis
    using r unfolding hbScan_def by (auto intro: quiet_trans)
qed

lemma limit_quiet: "quiet st (limit_failure cx x account st)"
  unfolding limit_failure_def by (rule quiet.keeps_limiter)

lemma limit_allows_quiet: "limit_allows cx x account st1 = (b, st2) \<Longrightarrow> quiet st st1 \<Longrightarrow> quiet st st2"
  unfolding limit_allows_def by (auto split: prod.splits intro: quiet_trans quiet.keeps_limiter)

text \<open>The friend handlers.\<close>

lemma quiet_to: "quiet st st1 \<Longrightarrow> displays m = [] \<Longrightarrow>
    quiet st (case presence_get u st1 of None \<Rightarrow> st1 | Some s \<Rightarrow> deliver s m st1)"
  by (auto split: option.split intro: quiet_deliver)

lemma send_friends_quiet:
  assumes "quiet st st1"
  shows "quiet st (send_friends to u st1)"
proof -
  let ?st = "sendFriendInfo to u STATUS_ONLINE st1"
  obtain friends st2 where r: "sv_read (\<lambda>io. getFriends io u) ?st = (friends, st2)"
    by (cases "sv_read (\<lambda>io. getFriends io u) ?st")
  have "quiet st st2" using r quiet_info [OF assms] by (rule quiet_read)
  moreover have "quiet st2 (fold (send_friend to) (map u_id friends) st2)"
    by (rule quiet.keeps_fold) (auto simp: send_friend_def intro: quiet.keeps_sendFriendInfo)
  ultimately show ?thesis
    using r unfolding send_friends_def Let_def by (auto intro: quiet_trans)
qed

lemma addFriend_quiet: "quiet st (onAddFriend E cx s x payload st)"
  unfolding onAddFriend_def Let_def
  by (auto split: option.split prod.split intro!: quiet_intros)
    ((erule quiet_read | erule quiet_writes | rule quiet_refl)+)

lemma addReply_quiet: "quiet st (onAddFriendReply E cx s x payload st)"
  unfolding onAddFriendReply_def Let_def
  by (auto split: option.split prod.split intro!: quiet_intros send_friends_quiet)
    ((erule quiet_read | erule quiet_writes | rule quiet_refl)+)

lemma requestList_quiet: "quiet st (onFriendRequestList E s x payload st)"
  unfolding onFriendRequestList_def
  by (auto simp: Let_def split: option.split prod.split intro!: quiet_intros intro: quiet_read)

lemma deleteFriend_quiet: "quiet st (onDeleteFriend E s x payload st)"
  unfolding onDeleteFriend_def Let_def
  by (auto split: option.split prod.split intro!: quiet_intros)
    ((erule quiet_read | erule quiet_writes | rule quiet_refl)+)

text \<open>Tokens and signing out.\<close>

lemma quiet_token_step: "quiet st st1 \<Longrightarrow> quiet st (st1\<lparr>sv_tokens := token_step dg op (sv_tokens st1)\<rparr>)"
  by (erule quiet_trans) (intro quiet_tokens other_tables.any.step_good, simp_all)

lemma quiet_issue:
  assumes "issue dg toks now uid dev (sv_tokens st1) = (r, ts)" and "quiet st st1"
  shows "quiet st (st1\<lparr>sv_tokens := ts\<rparr>)"
  using quiet_token_step [OF assms(2), where op = "IssueOp toks now uid dev" and dg = dg] assms(1) by simp

lemma device_of_refresh_quiet: "device_of_refresh E x op tok dev cred sig st1 = (r, st2) \<Longrightarrow> quiet st st1 \<Longrightarrow> quiet st st2"
  unfolding device_of_refresh_def Let_def
  by (auto split: option.splits prod.splits if_splits) ((erule (1) quiet_read | erule quiet_read)+)

lemma kick_quiet: "quiet st st1 \<Longrightarrow> quiet st (kick_user uid st1)"
  unfolding kick_user_def by (auto split: option.split intro!: quiet_intros)

lemma rotate_quiet:
  assumes "rotate_tokens E cx rq st1 = (res, revoked, st2)" and "quiet st st1"
  shows "quiet st st2"
proof -
  obtain io1 st3 where r1: "sv_read (\<lambda>io _. io) st1 = (io1, st3)" by (cases "sv_read (\<lambda>io _. io) st1")
  obtain io2 st4 where r2: "sv_read (\<lambda>io _. io) st3 = (io2, st4)" by (cases "sv_read (\<lambda>io _. io) st3")
  obtain ts where t: "rotateRefresh (en_digest E) (cx_rotate cx) (cx_victim cx) io1 io2 (cx_now cx)
      (rf_refresh rq) (rf_device rq) (rf_request rq) 0 (sv_tokens st4) = (res, revoked, ts)" "st2 = st4\<lparr>sv_tokens := ts\<rparr>"
    using assms(1) r1 r2 unfolding rotate_tokens_def Let_def by (auto split: prod.splits)
  have "quiet st st4" using quiet_read [OF r2 quiet_read [OF r1 assms(2)]] .
  moreover have "quiet st4 st2"
    unfolding t(2) by (rule quiet_tokens) (rule other_tables.any.refresh_good [OF t(1)], simp_all)
  ultimately show ?thesis by (rule quiet_trans)
qed

lemma user_of_bind: "user_of (bindAuth s uid a d e st) = (if sv_sessions st s = None then user_of st else (user_of st)(s \<mapsto> uid))"
  by (auto simp: user_of_def bindAuth_def fun_eq_iff split: option.split)

lemma rebind_quiet:
  assumes "quiet st st1" and "user_of st s = Some u"
  shows "quiet st (bindAuth s u a d e st1)"
proof -
  have "user_of st1 s = Some u" using assms by (simp add: quiet_def)
  then have "user_of (bindAuth s u a d e st1) = user_of st1"
    by (auto simp: user_of_bind fun_eq_iff)
  then have "quiet st1 (bindAuth s u a d e st1)"
    by (intro quietI [where ev = "[]"]) (simp_all add: online_as_def conn_of_def)
  with assms(1) show ?thesis by (rule quiet_trans)
qed

lemma refresh_proof_quiet: "refresh_proof E x rq st1 = (r, st2) \<Longrightarrow> quiet st st1 \<Longrightarrow> quiet st st2"
  unfolding refresh_proof_def by (auto split: if_splits dest: device_of_refresh_quiet)

lemma logout_owner_quiet: "logout_owner E x rq st1 = (r, st2) \<Longrightarrow> quiet st st1 \<Longrightarrow> quiet st st2"
  unfolding logout_owner_def Let_def by (auto split: if_splits prod.splits dest: device_of_refresh_quiet)

lemma refresh_quiet:
  assumes "sv_sessions st s = Some x"
  shows "quiet st (onTokenRefresh E cx s x payload st)"
proof -
  have u: "user_of st s = Some (se_user x)" using assms by (simp add: user_of_def)
  show ?thesis
    unfolding onTokenRefresh_def Let_def
    by (auto split: option.split prod.split rotate_result.split intro!: quiet_intros rebind_quiet [OF _ u] kick_quiet)
      ((erule rotate_quiet | erule refresh_proof_quiet | rule quiet_refl)+)
qed

lemma quiet_revoke:
  assumes "quiet st st1"
  shows "quiet st (st1\<lparr>sv_tokens := revokeAllForUser u (sv_tokens st1)\<rparr>)"
    and "quiet st (st1\<lparr>sv_tokens := ts_revokeSession sid (sv_tokens st1)\<rparr>)"
  using quiet_token_step [OF assms, of undefined "RevokeUserOp u"] quiet_token_step [OF assms, of undefined "RevokeSessionOp sid"]
  by simp_all

lemma logout_quiet: "quiet st (onLogout E cx s x payload st)"
  unfolding onLogout_def Let_def
  by (auto split: option.split prod.split intro!: quiet_intros quiet_revoke)
    ((erule logout_owner_quiet | rule quiet_refl)+)

text \<open>The AI handler and its jobs.\<close>

lemma on_ai_quiet: "quiet st st1 \<Longrightarrow> quiet st (on_ai f st1)"
  unfolding on_ai_def by (erule quiet_trans) (rule quiet.keeps_ai)

lemma sendResult_quiet: "quiet st st1 \<Longrightarrow> quiet st (sendResult s rid status err xs st1)"
  unfolding sendResult_def by (rule quiet_deliver) simp_all

lemma job_done_quiet: "quiet st st1 \<Longrightarrow> quiet st (job_done job st1)"
  unfolding job_done_def by (rule on_ai_quiet)

lemmas quiet_ai = quiet_refl on_ai_quiet sendResult_quiet job_done_quiet

lemma onReply_quiet: "quiet st (onReply E cx s x payload st)"
  unfolding onReply_def admit_def Let_def
  by (auto split: option.split prod.split ai_result.split intro!: quiet_ai)
    ((erule quiet_read | rule quiet_refl)+)

lemma onCancel_quiet: "quiet st (onCancel E s x payload st)"
  unfolding onCancel_def by (auto split: option.split intro!: quiet_ai)

lemma ai_begin_quiet: "ai_begin E job st = (q, st') \<Longrightarrow> quiet st st'"
  unfolding ai_begin_def Let_def
  by (auto split: option.splits prod.splits if_splits intro!: quiet_ai)
    ((erule quiet_read | rule quiet_refl on_ai_quiet)+)

lemma ai_end_quiet: "quiet st (ai_end job err xs st)"
  unfolding ai_end_def Let_def by (auto split: option.split intro!: quiet_ai)

end
