(* ===== verification/ServerRuns.thy ===== *)
theory ServerRuns
  imports ServerSafety
begin

text \<open>
  Runs of the whole server, one step per packet, accepted or closed connection, worker job and scan
  (\<^verbatim>\<open>core/Server.cpp\<close>, \<^verbatim>\<open>core/Server.h\<close>): who is shown which message, that every message marked
  delivered was posted to its receiver, and that the presence map leads to sessions of the right user.
\<close>

section \<open>What is shown to whom\<close>

text \<open>A user takes part in the conversation of a message; user ids of the tables fit 32 bits.\<close>

definition may_read :: "int \<Rightarrow> chat_info \<Rightarrow> bool" where
  "may_read u c \<longleftrightarrow>
     (user_id_ok u \<and> user_id_ok (ci_my c) \<and> user_id_ok (ci_friend c) \<longrightarrow> u = ci_my c \<or> u = ci_friend c)"

text \<open>
  A new message goes to a session of its receiver only, and history to a session of one of the two.
\<close>

definition event_ok :: "(nat \<Rightarrow> int option) \<Rightarrow> server_event \<Rightarrow> bool" where
  "event_ok users e =
     (case e of
        Deliver s (MsgChatRq c) \<Rightarrow> 0 < ci_friend c \<and> users s = Some (ci_friend c)
      | Deliver s m \<Rightarrow>
          displays m = [] \<or>
          (case users s of None \<Rightarrow> False | Some u \<Rightarrow> 0 < u \<and> list_all (may_read u) (displays m))
      | _ \<Rightarrow> True)"

lemma event_ok_quiet: "is_quiet e \<Longrightarrow> event_ok users e"
  by (auto simp: event_ok_def is_quiet_def split: server_event.splits server_msg.splits)

lemma event_ok_grow:
  assumes "event_ok users e" and "\<And>s u. users s = Some u \<Longrightarrow> 0 < u \<Longrightarrow> users' s = Some u"
  shows "event_ok users' e"
  using assms by (auto simp: event_ok_def split: server_event.splits server_msg.splits option.splits)

text \<open>The message of this id was sent to this receiver.\<close>

definition shown :: "server_event list \<Rightarrow> string \<Rightarrow> int \<Rightarrow> bool" where
  "shown out mid u \<longleftrightarrow>
     list_ex (\<lambda>e. case e of Deliver s (MsgChatRq c) \<Rightarrow> cstr (ci_msgId c) = mid \<and> ci_friend c = u | _ \<Rightarrow> False) out"

lemma shown_append [simp]: "shown (xs @ ys) mid u \<longleftrightarrow> shown xs mid u \<or> shown ys mid u"
  by (simp add: shown_def)

lemma shown_deliver [simp]: "shown [Deliver s (MsgChatRq c)] mid u \<longleftrightarrow> cstr (ci_msgId c) = mid \<and> ci_friend c = u"
  by (simp add: shown_def)

lemma shown_posted:
  assumes "shown out mid u"
  shows "\<exists>s c. Deliver s (MsgChatRq c) \<in> set out \<and> cstr (ci_msgId c) = mid \<and> ci_friend c = u"
proof -
  obtain e where e: "e \<in> set out"
      "case e of Deliver s (MsgChatRq c) \<Rightarrow> cstr (ci_msgId c) = mid \<and> ci_friend c = u | _ \<Rightarrow> False"
    using assms unfolding shown_def list_ex_iff by blast
  obtain s m where m: "e = Deliver s m" using e(2) by (cases e rule: server_event.exhaust) auto
  show ?thesis using e unfolding m by (cases m rule: server_msg.exhaust) auto
qed

section \<open>The message log\<close>

definition log_db :: "msg_row list \<Rightarrow> int \<Rightarrow> server_db" where
  "log_db ms n = empty_db\<lparr>db_messages := ms, db_nextMsg := n\<rparr>"

lemma msgs_ok_cong:
  "db_messages d = db_messages d' \<Longrightarrow> db_nextMsg d = db_nextMsg d' \<Longrightarrow> msgs_ok d \<longleftrightarrow> msgs_ok d'"
  by (simp add: msgs_ok_def conv_rows_def)

text \<open>
  The log holds these messages, in order and numbered; ids were cut at NUL when they were bound; and
  each row marked delivered was sent to its receiver.
\<close>

definition log_ok :: "stored_message list \<Rightarrow> server_event list \<Rightarrow> msg_row list \<Rightarrow> int \<Rightarrow> bool" where
  "log_ok L out ms n \<longleftrightarrow>
     map mr_msg ms = L \<and> msgs_ok (log_db ms n) \<and> (\<forall>m \<in> set L. cstr (sm_msgId m) = sm_msgId m) \<and>
     (\<forall>r \<in> set ms. mr_delivered r \<longrightarrow> shown out (sm_msgId (mr_msg r)) (sm_receiver (mr_msg r)))"

lemma steady_log:
  "steady (log_ok L out) d \<longleftrightarrow>
     map mr_msg (db_messages d) = L \<and> msgs_ok d \<and> (\<forall>m \<in> set L. cstr (sm_msgId m) = sm_msgId m) \<and>
     (\<forall>r \<in> set (db_messages d). mr_delivered r \<longrightarrow> shown out (sm_msgId (mr_msg r)) (sm_receiver (mr_msg r))) \<and>
     (\<forall>v \<in> set (db_devices d). 0 < dv_user v)"
  using msgs_ok_cong [of "log_db (db_messages d) (db_nextMsg d)" d]
  by (auto simp: steady_def log_ok_def log_db_def)

lemma conn_ok_mono: "conn_ok P c \<Longrightarrow> (\<And>d. P d \<Longrightarrow> Q d) \<Longrightarrow> conn_ok Q c"
  by (auto simp: conn_ok_def)

lemma log_grow: "conn_ok (steady (log_ok L out)) c \<Longrightarrow> conn_ok (steady (log_ok L (out @ ev))) c"
  by (erule conn_ok_mono) (auto simp: steady_log)

text \<open>Marking messages that were shown.\<close>

lemma mark_log:
  assumes seen: "\<forall>m \<in> set L. sm_msgId m = cstr mid \<longrightarrow> shown out (sm_msgId m) (sm_receiver m)"
  shows "keeps (steady (log_ok L out)) (set_delivered mid)"
proof (rule keepsI)
  fix d n d'
  assume ok: "steady (log_ok L out) d" and sd: "set_delivered mid d = Some (n, d')"
  let ?P = "\<lambda>r. sm_msgId (mr_msg r) = cstr mid" and ?f = "\<lambda>r. r\<lparr>mr_delivered := True\<rparr>"
  have d': "d' = d\<lparr>db_messages := upd_where ?P ?f (db_messages d)\<rparr>"
    using sd by (auto simp: set_delivered_def Let_def)
  have "msgs_ok d'" using ok set_delivered_ok [OF sd] by (simp add: steady_log)
  moreover have "map mr_msg (db_messages d') = L"
    using ok unfolding d' by (simp add: steady_log upd_where_def comp_def if_distrib cong: if_cong)
  moreover have "shown out (sm_msgId (mr_msg r)) (sm_receiver (mr_msg r))"
    if "r \<in> set (db_messages d')" "mr_delivered r" for r
  proof -
    have "r \<in> (\<lambda>r0. if ?P r0 then ?f r0 else r0) ` set (db_messages d)"
      using that(1) by (simp add: d' upd_where_def)
    then obtain r0 where r0: "r0 \<in> set (db_messages d)" "r = (if ?P r0 then ?f r0 else r0)"
      by (elim imageE) simp
    have "mr_msg r0 \<in> set L" using r0(1) ok by (auto simp: steady_log)
    then show ?thesis using r0 that(2) seen ok by (auto simp: steady_log split: if_splits)
  qed
  ultimately show "steady (log_ok L out) d'"
    using ok by (simp add: steady_log) (simp add: d')
qed

lemma mark_steps_guarded: "\<forall>mid \<in> set mids. keeps P (set_delivered mid) \<Longrightarrow> conn_ok P c \<Longrightarrow> conn_ok P (mark_steps mids c)"
proof (induction mids arbitrary: c)
  case (Cons mid mids)
  obtain r c1 where s: "sq_step (set_delivered mid) c = (r, c1)" by (cases "sq_step (set_delivered mid) c")
  have "conn_ok P c1" using conn_ok_step [OF s] Cons.prems by simp
  then show ?case using Cons.IH Cons.prems(1) s by simp
qed simp

lemma mark_guarded: "\<forall>mid \<in> set mids. keeps P (set_delivered mid) \<Longrightarrow> conn_ok P c \<Longrightarrow> conn_ok P (markDelivered mids c)"
  by (auto simp: markDelivered_def split: prod.splits intro: mark_steps_guarded dest: conn_ok_tick)

text \<open>Storing a message: the log grows by at most it, whatever SQLite calls fail.\<close>

lemma insert_log:
  assumes ins: "insert_message (makeConversationId (sm_sender m) (sm_receiver m)) delivered m d = Some (n, d')"
    and seq: "sm_seq m = next_seq (makeConversationId (sm_sender m) (sm_receiver m)) d \<or> sm_seq m = 1"
    and ok: "steady (log_ok L out) d"
    and seen: "delivered \<Longrightarrow> shown out (cstr (sm_msgId m)) (sm_receiver m)"
  shows "steady (log_ok (L @ [bind_message m]) out) d'"
proof -
  have "msgs_ok d" using ok by (simp add: steady_log)
  then have "msgs_ok d'" using insert_message_ok [OF _ ins refl seq] by simp
  moreover have d': "d' = d\<lparr>db_messages := db_messages d @
      [\<lparr>mr_id = db_nextMsg d, mr_conv = makeConversationId (sm_sender m) (sm_receiver m),
        mr_delivered = delivered, mr_msg = bind_message m\<rparr>], db_nextMsg := db_nextMsg d + 1\<rparr>"
    using ins by (auto simp: insert_message_def split: if_splits)
  ultimately show ?thesis
    using ok seen by (auto simp: steady_log d')
qed

lemma save_log:
  assumes run: "saveMessage m delivered c = (saved, m', c')"
    and ok: "conn_ok (steady (log_ok L out)) c"
    and seen: "saved \<Longrightarrow> delivered \<Longrightarrow> shown out (cstr (sm_msgId m)) (sm_receiver m)"
  shows "\<exists>L'. conn_ok (steady (log_ok L' out)) c'"
proof (cases "cn_txn c = None")
  case True
  have d: "steady (log_ok L out) (cn_db c)" using ok by (simp add: conn_ok_def)
  from save_cases [OF run True] consider "cn_db c' = cn_db c" "cn_txn c' = None \<or> cn_txn c' = Some (cn_db c)"
    | n s where "saved" "cn_txn c' = None" "s = next_seq (makeConversationId (sm_sender m) (sm_receiver m)) (cn_db c) \<or> s = 1"
        "insert_message (makeConversationId (sm_sender m) (sm_receiver m)) delivered (m\<lparr>sm_seq := s\<rparr>) (cn_db c) = Some (n, cn_db c')"
    by blast
  then show ?thesis
  proof cases
    case 1
    then show ?thesis using d by (auto simp: conn_ok_def)
  next
    case (2 n s)
    then have "steady (log_ok (L @ [bind_message (m\<lparr>sm_seq := s\<rparr>)]) out) (cn_db c')"
      using insert_log [of "m\<lparr>sm_seq := s\<rparr>" delivered "cn_db c" n "cn_db c'" L out] d seen by simp
    then show ?thesis using 2(2) by (auto simp: conn_ok_def)
  qed
next
  case False
  then show ?thesis using save_busy [OF run] ok by (auto simp: conn_ok_def)
qed

lemma save_msg:
  assumes "saveMessage m delivered c = (saved, m', c')"
  shows "m' = m\<lparr>sm_seq := sm_seq m'\<rparr>"
  using assms by (auto simp: saveMessage_def Let_def split: prod.splits if_splits option.splits)

section \<open>The invariant\<close>

text \<open>
  Sessions are numbered in the order they were accepted, and a user's entry of the presence map is a
  session of that user, unless the session is gone.
\<close>

definition presence_ok :: "server \<Rightarrow> bool" where
  "presence_ok st \<longleftrightarrow>
     (\<forall>s. user_of st s \<noteq> None \<longrightarrow> s < sv_next st) \<and>
     (\<forall>uid s. online_as st uid = Some s \<longrightarrow>
        0 < uid \<and> s < sv_next st \<and> (user_of st s = None \<or> user_of st s = Some uid))"

definition server_inv :: "server \<Rightarrow> bool" where
  "server_inv st \<longleftrightarrow> presence_ok st \<and> (\<exists>L. conn_ok (steady (log_ok L (sv_out st))) (conn_of st))"

definition users_grow :: "server \<Rightarrow> server \<Rightarrow> bool" where
  "users_grow st st' \<longleftrightarrow> (\<forall>s u. user_of st s = Some u \<longrightarrow> 0 < u \<longrightarrow> user_of st' s = Some u)"

text \<open>What every part of a handler does: it keeps the invariant, moves no session to another user,
  and shows messages only as it should.\<close>

definition lawful :: "server \<Rightarrow> server \<Rightarrow> bool" where
  "lawful st st' \<longleftrightarrow>
     (server_inv st \<longrightarrow> server_inv st' \<and> users_grow st st' \<and>
        (\<exists>ev. sv_out st' = sv_out st @ ev \<and> list_all (event_ok (user_of st')) ev))"

lemma lawfulI:
  assumes "server_inv st \<Longrightarrow> server_inv st'" and "server_inv st \<Longrightarrow> users_grow st st'"
    and "server_inv st \<Longrightarrow> sv_out st' = sv_out st @ ev" and "server_inv st \<Longrightarrow> list_all (event_ok (user_of st')) ev"
  shows "lawful st st'"
  using assms unfolding lawful_def by blast

lemma lawful_trans:
  assumes "lawful st st1" and "lawful st1 st2"
  shows "lawful st st2"
  unfolding lawful_def
proof
  assume "server_inv st"
  then obtain ev1 where 1: "server_inv st1" "users_grow st st1" "sv_out st1 = sv_out st @ ev1"
      "list_all (event_ok (user_of st1)) ev1"
    using assms(1) unfolding lawful_def by blast
  then obtain ev2 where 2: "server_inv st2" "users_grow st1 st2" "sv_out st2 = sv_out st1 @ ev2"
      "list_all (event_ok (user_of st2)) ev2"
    using assms(2) unfolding lawful_def by blast
  have "list_all (event_ok (user_of st2)) ev1"
    using 1(4) 2(2) by (auto simp: list_all_iff users_grow_def intro: event_ok_grow)
  moreover have "users_grow st st2" using 1(2) 2(2) by (auto simp: users_grow_def)
  ultimately show "server_inv st2 \<and> users_grow st st2 \<and>
      (\<exists>ev. sv_out st2 = sv_out st @ ev \<and> list_all (event_ok (user_of st2)) ev)"
    using 1(3) 2 by (intro conjI exI [of _ "ev1 @ ev2"]) simp_all
qed

lemma presence_less:
  assumes "presence_ok st" and "user_of st' = user_of st" and "sv_next st' = sv_next st"
    and "\<And>uid s. online_as st' uid = Some s \<Longrightarrow> online_as st uid = Some s"
  shows "presence_ok st'"
  using assms unfolding presence_ok_def by metis

lemma quiet_lawful: "quiet st st' \<Longrightarrow> lawful st st'"
proof -
  assume q: "quiet st st'"
  then obtain ev where ev: "sv_out st' = sv_out st @ ev" "list_all is_quiet ev" by (auto simp: quiet_def)
  show "lawful st st'"
  proof (rule lawfulI)
    show "server_inv st'" if "server_inv st"
    proof -
      from that obtain L where "presence_ok st" "conn_ok (steady (log_ok L (sv_out st))) (conn_of st)"
        by (auto simp: server_inv_def)
      moreover have "presence_ok st'"
        by (rule presence_less [OF \<open>presence_ok st\<close>]) (use q in \<open>auto simp: quiet_def\<close>)
      ultimately show ?thesis
        using q log_grow ev(1) unfolding server_inv_def quiet_def by metis
    qed
  qed (use q ev in \<open>auto simp: quiet_def users_grow_def list_all_iff intro: event_ok_quiet\<close>)
qed

interpretation lawful: handler_relation lawful
proof
  show "lawful st1 st3" if "lawful st1 st2" "lawful st2 st3" for st1 st2 st3
    using that by (rule lawful_trans)
qed (auto intro!: quiet_lawful intro: quiet.handler_relation_axioms [THEN handler_relation.keeps_reads]
    quiet.keeps_limiter quiet.keeps_ai quiet.keeps_notice quiet.keeps_close quiet.keeps_closeAfterWrite)

section \<open>History is shown to the two it belongs to\<close>

lemma fill_fields [simp]:
  "ci_my (fillChatInfo m) = sm_sender m" "ci_friend (fillChatInfo m) = sm_receiver m"
  "ci_msgId (fillChatInfo m) = sm_msgId m"
  by (simp_all add: fillChatInfo_def empty_chat_def Let_def)

text \<open>A valid user finds only its own conversations, whatever number it gives as the peer.\<close>

lemma conv_member:
  assumes u: "user_id_ok u" and a: "user_id_ok a" and b: "user_id_ok b"
    and same: "makeConversationId u p = makeConversationId a b"
  shows "u = a \<or> u = b"
proof -
  have pos: "0 < makeConversationId a b"
    using conversation_id_correct [OF a b a b] by simp
  consider "p \<le> 0" | "user_id_ok p" | "2 ^ 31 \<le> p" by (fastforce simp: user_id_ok_def)
  then show ?thesis
  proof cases
    case 1
    then have "makeConversationId u p = 0" by (simp add: makeConversationId_def)
    then show ?thesis using same pos by simp
  next
    case 2
    then show ?thesis
      using conversation_id_correct [OF u 2 a b] same by (simp add: doubleton_eq_iff) blast
  next
    case 3
    let ?q = "p mod 2 ^ 32"
    have w: "(word_of_int p :: u32) = word_of_int ?q"
      by (simp add: word_of_int_eq_iff take_bit_eq_mod)
    have "\<not> (u \<le> 0 \<or> p \<le> 0)" "(if u < p then u else p) = u" "(if u > p then u else p) = p"
      using u 3 by (auto simp: user_id_ok_def)
    then have "makeConversationId u p = sint (push_bit 32 (ucast (word_of_int u :: u32)) OR ucast (word_of_int ?q :: u32) :: u64)"
      by (simp only: makeConversationId_def Let_def if_False w)
    also have "\<dots> = u * 4294967296 + ?q"
      using u by (intro pack_sint) (auto simp: user_id_ok_def)
    finally have "makeConversationId u p = u * 4294967296 + ?q" .
    moreover have "makeConversationId a b = min a b * 4294967296 + max a b"
      using a b by (simp add: makeConversationId_eq sql_conversation_id_def min_def max_def)
    ultimately have "u * 4294967296 + ?q = min a b * 4294967296 + max a b" using same by simp
    then have "(u * 4294967296 + ?q) div 4294967296 = (min a b * 4294967296 + max a b) div 4294967296" by simp
    moreover have "max a b < 4294967296" "0 \<le> max a b" using a b by (auto simp: user_id_ok_def)
    ultimately have "u = min a b" by simp
    then show ?thesis by (auto simp: min_def split: if_splits)
  qed
qed

lemma conv_rows_may_read:
  assumes "msgs_ok d" and "r \<in> set (conv_rows (makeConversationId u p) d)"
  shows "may_read u (fillChatInfo (mr_msg r))"
proof -
  have "mr_conv r = makeConversationId u p" "mr_conv r = makeConversationId (sm_sender (mr_msg r)) (sm_receiver (mr_msg r))"
    using assms by (auto simp: conv_rows_def msgs_ok_def)
  then show ?thesis
    using conv_member [of u "sm_sender (mr_msg r)" "sm_receiver (mr_msg r)" p] by (auto simp: may_read_def)
qed

lemma sql_limit_set: "set (sql_limit n xs) \<subseteq> set xs"
  by (auto simp: sql_limit_def dest: in_set_takeD)

lemma roam_may_read:
  assumes "msgs_ok d"
  shows "list_all (may_read u) (map fillChatInfo (roamMessages io u p bound limit d))"
proof -
  let ?C = "conv_rows (makeConversationId u p) d"
  let ?rows = "sql_limit limit (sort_key (\<lambda>r. - row_seq r) (filter (\<lambda>r. row_seq r < bound) ?C))"
  have "set ?rows \<subseteq> set ?C" using sql_limit_set [of limit] by (rule subset_trans) auto
  then have "set (fetched io ?rows) \<subseteq> set ?C" using set_fetched [of io ?rows] by blast
  then have "\<forall>r \<in> set (fetched io ?rows). may_read u (fillChatInfo (mr_msg r))"
    using conv_rows_may_read [OF assms] by blast
  then show ?thesis
    unfolding roamMessages_def list_all_iff set_map ball_simps(9) .
qed

lemma conversations_may_read:
  assumes "msgs_ok d"
  shows "list_all (may_read u) (map fillChatInfo (roamConversations io u d))"
proof -
  have ids: "inj_on mr_id (set (db_messages d))"
    using assms by (simp add: msgs_ok_def strict_sorted_iff distinct_map)
  have mine: "may_read u (fillChatInfo (mr_msg r))" if "r \<in> set (my_rows u d)" for r
    using that by (auto simp: my_rows_def may_read_def)
  have own: "r \<in> set (my_rows u d)" if r: "r \<in> set (db_messages d)" "mr_id r \<in> set (last_ids u d)" for r
  proof -
    obtain conv where conv: "conv \<in> mr_conv ` set (my_rows u d)"
        "mr_id r = Max (mr_id ` {x \<in> set (my_rows u d). mr_conv x = conv})"
      using r(2) by (auto simp: last_ids_def)
    let ?I = "mr_id ` {x \<in> set (my_rows u d). mr_conv x = conv}"
    have "finite ?I" "?I \<noteq> {}" using conv(1) by auto
    then have "mr_id r \<in> ?I" unfolding conv(2) by (rule Max_in)
    then obtain x where x: "x \<in> set (my_rows u d)" "mr_id x = mr_id r" by auto
    then have "x = r" using ids r(1) by (auto simp: my_rows_def dest: inj_onD)
    then show ?thesis using x(1) by simp
  qed
  let ?rows = "sort_key (\<lambda>r. - sm_ts (mr_msg r))
      (concat (map (\<lambda>i. filter (\<lambda>r. mr_id r = i) (db_messages d)) (last_ids u d)))"
  have "r \<in> set (my_rows u d)" if "r \<in> set ?rows" for r
  proof (rule own)
    show "r \<in> set (db_messages d)" "mr_id r \<in> set (last_ids u d)" using that by auto
  qed
  then have "\<forall>r \<in> set (fetched io ?rows). may_read u (fillChatInfo (mr_msg r))"
    using mine set_fetched [of io ?rows] by blast
  then show ?thesis
    unfolding roamConversations_def list_all_iff set_map ball_simps(9) .
qed

section \<open>The steps that show messages\<close>

lemma lawful_deliver:
  assumes "server_inv st \<Longrightarrow> event_ok (user_of st) (Deliver s m)"
  shows "lawful st (deliver s m st)"
proof (rule lawfulI [where ev = "[Deliver s m]"])
  have same: "user_of (deliver s m st) = user_of st" "online_as (deliver s m st) = online_as st"
    "conn_of (deliver s m st) = conn_of st"
    by (rule user_of_cong, simp, rule online_as_cong, simp, simp add: conn_of_def)
  show "server_inv (deliver s m st)" if "server_inv st"
    using that unfolding server_inv_def presence_ok_def by (auto simp: same intro: log_grow)
  show "list_all (event_ok (user_of (deliver s m st))) [Deliver s m]" if "server_inv st"
    using assms that by (simp add: same)
  show "users_grow st (deliver s m st)" by (simp add: users_grow_def same)
qed simp

lemma lawful_history:
  assumes "user_of st s = Some u" and "0 < u" and "server_inv st \<Longrightarrow> list_all (may_read u) (displays m)"
    and "\<And>c. m \<noteq> MsgChatRq c"
  shows "lawful st (deliver s m st)"
  using assms by (intro lawful_deliver) (auto simp: event_ok_def split: server_msg.split)

lemma server_inv_log: "server_inv st \<Longrightarrow> msgs_ok (sv_db st)"
  by (auto simp: server_inv_def conn_ok_def steady_log sv_db_def conn_of_def)

lemma lawful_msgs:
  assumes "lawful st st1" and "server_inv st"
  shows "msgs_ok (sv_db st1)"
  using assms server_inv_log by (auto simp: lawful_def)

lemma onConversations_lawful:
  assumes "sv_sessions st s = Some x"
  shows "lawful st (onConversations s x st)"
proof (cases "0 < se_user x")
  case True
  obtain rows st1 where r: "sv_read (\<lambda>io. roamConversations io (se_user x)) st = (rows, st1)"
    by (cases "sv_read (\<lambda>io. roamConversations io (se_user x)) st")
  obtain io ios where rows: "rows = roamConversations io (se_user x) (sv_db st)" "st1 = st\<lparr>sv_reads := ios\<rparr>"
    using sv_readE [OF r] .
  have "lawful st1 (deliver s (MsgRoamConvs (map fillChatInfo rows)) st1)"
  proof (rule lawful_history)
    show "user_of st1 s = Some (se_user x)" using assms by (simp add: rows user_of_def)
    show "list_all (may_read (se_user x)) (displays (MsgRoamConvs (map fillChatInfo rows)))" if "server_inv st1"
      using server_inv_log [OF that] conversations_may_read by (simp add: rows)
  qed (use True in simp_all)
  then show ?thesis
    using r True lawful_trans [OF lawful.keeps_read [OF r]] unfolding onConversations_def by simp
qed (simp add: onConversations_def lawful.keeps_refl)

lemma onMessages_lawful:
  assumes "sv_sessions st s = Some x"
  shows "lawful st (onMessages E s x payload st)"
proof (cases "0 < se_user x \<and> en_roam E payload \<noteq> None")
  case True
  then obtain rq where rq: "en_roam E payload = Some rq" by auto
  let ?q = "\<lambda>io. roamMessages io (se_user x) (rq_peer rq) (roam_before rq) (roam_limit rq)"
  obtain rows st1 where r: "sv_read ?q st = (rows, st1)" by (cases "sv_read ?q st")
  obtain io ios where rows: "rows = ?q io (sv_db st)" "st1 = st\<lparr>sv_reads := ios\<rparr>"
    using sv_readE [OF r] .
  have "lawful st1 (deliver s (MsgRoamMsgs p) st1)" if "rs_msgs p = map fillChatInfo rows" for p
  proof (rule lawful_history)
    show "user_of st1 s = Some (se_user x)" using assms by (simp add: rows user_of_def)
    show "list_all (may_read (se_user x)) (displays (MsgRoamMsgs p))" if "server_inv st1"
      using server_inv_log [OF that] roam_may_read \<open>rs_msgs p = map fillChatInfo rows\<close> by (simp add: rows)
  qed (use True in simp_all)
  then show ?thesis
    using r rq True lawful_trans [OF lawful.keeps_read [OF r]] unfolding onMessages_def Let_def by simp
qed (auto simp: onMessages_def lawful.keeps_refl split: option.split)

section \<open>Signing in\<close>

lemma lawful_same:
  assumes "user_of st' = user_of st" and "sv_next st' = sv_next st" and "conn_of st' = conn_of st"
    and "sv_out st' = sv_out st" and "presence_ok st \<Longrightarrow> presence_ok st'"
  shows "lawful st st'"
  using assms by (intro lawfulI [where ev = "[]"]) (auto simp: server_inv_def users_grow_def)

text \<open>A session that belongs to nobody may be given to a user.\<close>

lemma bind_lawful:
  assumes s: "user_of st s = Some u0" and "u0 \<le> 0" and "0 < u"
  shows "lawful st (bindAuth s u a d e st)"
proof -
  have new: "user_of (bindAuth s u a d e st) = (user_of st)(s \<mapsto> u)"
    using s by (auto simp: user_of_bind user_of_def)
  have same: "online_as (bindAuth s u a d e st) = online_as st" by (rule online_as_cong) simp
  show ?thesis
  proof (rule lawfulI [where ev = "[]"])
    show "server_inv (bindAuth s u a d e st)" if inv: "server_inv st"
    proof -
      have "s < sv_next st" and entry: "0 < uid \<and> q < sv_next st \<and> (user_of st q = None \<or> user_of st q = Some uid)"
        if "online_as st uid = Some q" for uid q
        using inv s that unfolding server_inv_def presence_ok_def by auto
      moreover have "s < sv_next st" "user_of st q \<noteq> None \<Longrightarrow> q < sv_next st" for q
        using inv s unfolding server_inv_def presence_ok_def by auto
      moreover have "q \<noteq> s" if "online_as st uid = Some q" for uid q
        using entry [OF that] s assms(2) by auto
      ultimately have "presence_ok (bindAuth s u a d e st)"
        unfolding presence_ok_def new same by simp
      then show ?thesis using inv by (simp add: server_inv_def conn_of_def)
    qed
    show "users_grow st (bindAuth s u a d e st)"
      using s assms(2) by (simp add: users_grow_def new)
  qed simp_all
qed

lemma online_put: "online_as (st\<lparr>sv_presence := kv_put u \<lparr>pe_session = s, pe_active = t\<rparr> m\<rparr>) uid =
    (if uid = u then Some s else map_option pe_session (map_of m uid))"
  by (simp add: online_as_def map_of_kv_put)

lemma lawful_online:
  assumes "user_of st s = Some u" and "0 < u"
  shows "lawful st (st\<lparr>sv_presence := kv_put u \<lparr>pe_session = s, pe_active = t\<rparr> (sv_presence st)\<rparr>)"
proof (rule lawful_same)
  let ?st = "st\<lparr>sv_presence := kv_put u \<lparr>pe_session = s, pe_active = t\<rparr> (sv_presence st)\<rparr>"
  show users: "user_of ?st = user_of st" by (rule user_of_cong) simp
  show "presence_ok ?st" if "presence_ok st"
    using that assms unfolding presence_ok_def users online_put
    by (auto simp: online_as_def)
qed (simp_all add: conn_of_def)

lemma take_over_lawful:
  assumes "user_of st s = Some u" and "0 < u"
  shows "lawful st (take_over cx s u st)"
proof -
  let ?st = "st\<lparr>sv_presence := kv_put u \<lparr>pe_session = s, pe_active = cx_now cx\<rparr> (sv_presence st)\<rparr>"
  have on: "lawful st ?st" by (rule lawful_online [OF assms])
  have "quiet ?st (closeAfterWrite o_s (deliver o_s MsgKicked ?st))" for o_s
    by (intro quiet_caw quiet_deliver) simp_all
  then have "lawful st (closeAfterWrite o_s (deliver o_s MsgKicked ?st))" for o_s
    by (intro lawful_trans [OF on] quiet_lawful)
  with on show ?thesis
    unfolding take_over_def pr_replace_def Let_def by (auto split: option.split)
qed

text \<open>Handing over what was missed. The sessions' users do not change meanwhile.\<close>

definition same_users :: "server \<Rightarrow> server \<Rightarrow> bool" where
  "same_users st st' \<longleftrightarrow> sv_sessions st' = sv_sessions st \<and> sv_tokens st' = sv_tokens st"

interpretation same: handler_relation same_users
  by unfold_locales (auto simp: same_users_def)

lemma same_user_of: "same_users st st' \<Longrightarrow> user_of st' = user_of st"
  by (simp add: same_users_def user_of_def fun_eq_iff)

lemma hand_over_same: "same_users st (hand_over s u m st)"
  by (auto simp: hand_over_def same_users_def Let_def split: option.split)

lemma hand_over_lawful:
  assumes "user_of st s = Some u" and "0 < u" and "sm_receiver m = u"
  shows "lawful st (hand_over s u m st)"
proof -
  let ?st = "deliver s (MsgChatRq (fillChatInfo m)) st"
  have 1: "lawful st ?st"
    using assms by (intro lawful_deliver) (simp add: event_ok_def)
  have "lawful st (deliver q (MsgChatRs (receipt u m)) ?st)" for q
    by (rule lawful_trans [OF 1 lawful.keeps_notice]) simp
  with 1 show ?thesis
    by (simp add: hand_over_def Let_def split: option.split)
qed

lemma hand_over_shown: "shown (sv_out (hand_over s u m st)) (cstr (sm_msgId m)) (sm_receiver m)"
  by (auto simp: hand_over_def shown_def Let_def split: option.split)

lemma hand_over_out: "\<exists>ev. sv_out (hand_over s u m st) = sv_out st @ ev"
  by (auto simp: hand_over_def Let_def split: option.split)

lemma hand_all:
  assumes "user_of st s = Some u" and "0 < u" and "\<forall>m \<in> set ms. sm_receiver m = u"
  defines "st' \<equiv> fold (hand_over s u) ms st"
  shows "lawful st st' \<and> same_users st st' \<and> (\<exists>ev. sv_out st' = sv_out st @ ev) \<and>
    (\<forall>m \<in> set ms. shown (sv_out st') (cstr (sm_msgId m)) u)"
  using assms(1,3) unfolding st'_def
proof (induction ms arbitrary: st)
  case Nil
  then show ?case by (simp add: lawful.keeps_refl same.keeps_refl)
next
  case (Cons m ms)
  let ?st1 = "hand_over s u m st"
  have u1: "user_of ?st1 s = Some u" using same_user_of [OF hand_over_same] Cons.prems(1) by simp
  have ms: "\<forall>m \<in> set ms. sm_receiver m = u" using Cons.prems(2) by simp
  note ih = Cons.IH [OF u1 ms]
  obtain ev0 where ev0: "sv_out ?st1 = sv_out st @ ev0" using hand_over_out by blast
  obtain ev1 where ev1: "sv_out (fold (hand_over s u) ms ?st1) = sv_out ?st1 @ ev1" using ih by blast
  have "lawful st ?st1" using Cons.prems assms(2) by (intro hand_over_lawful) simp_all
  moreover have "shown (sv_out (fold (hand_over s u) ms ?st1)) (cstr (sm_msgId m)) u"
    using hand_over_shown [of s u m st] Cons.prems(2) unfolding ev1 by simp
  ultimately show ?case
    using ih ev0 ev1 hand_over_same [of st s u m] by (auto intro: lawful_trans same.keeps_trans)
qed

lemma pull_set: "set (pullUndelivered io u d) \<subseteq> {m \<in> mr_msg ` set (db_messages d). sm_receiver m = u}"
proof -
  have "set (fetched io (undelivered u d)) \<subseteq> {r \<in> set (db_messages d). sm_receiver (mr_msg r) = u}"
    using set_fetched [of io "undelivered u d"] by (auto simp: undelivered_def)
  then show ?thesis unfolding pullUndelivered_def by auto
qed

lemma log_of: "conn_ok (steady (log_ok L out)) c \<Longrightarrow> L = map mr_msg (db_messages (cn_db c))"
  by (auto simp: conn_ok_def steady_log)

text \<open>Marking what was handed over is safe.\<close>

lemma mark_missed_lawful:
  assumes seen: "\<forall>m \<in> set ms. shown (sv_out st) (cstr (sm_msgId m)) u"
    and ms: "set ms \<subseteq> {m \<in> mr_msg ` set (db_messages (sv_db st)). sm_receiver m = u}"
  shows "lawful st (snd (sv_write (\<lambda>c. ((), markDelivered (map sm_msgId ms) c)) st))"
proof -
  let ?c = "markDelivered (map sm_msgId ms) (conn_of st)"
  have st': "snd (sv_write (\<lambda>c. ((), markDelivered (map sm_msgId ms) c)) st) = set_conn ?c st"
    by (simp add: sv_write_def conn_of_def)
  have same: "user_of (set_conn ?c st) = user_of st" "online_as (set_conn ?c st) = online_as st"
    by (rule user_of_cong, simp, rule online_as_cong, simp)
  show ?thesis
    unfolding st'
  proof (rule lawfulI [where ev = "[]"])
    show "server_inv (set_conn ?c st)" if inv: "server_inv st"
    proof -
      obtain L where L: "conn_ok (steady (log_ok L (sv_out st))) (conn_of st)" and p: "presence_ok st"
        using inv by (auto simp: server_inv_def)
      have rows: "L = map mr_msg (db_messages (sv_db st))"
        using log_of [OF L] by (simp add: sv_db_def conn_of_def)
      have ok: "msgs_ok (sv_db st)" "\<forall>m \<in> set L. cstr (sm_msgId m) = sm_msgId m"
        using server_inv_log [OF inv] L by (auto simp: conn_ok_def steady_log)
      then have "distinct (map sm_msgId L)" unfolding rows by (simp add: msgs_ok_def comp_def)
      then have inj: "inj_on sm_msgId (set L)" by (simp add: distinct_map)
      have "keeps (steady (log_ok L (sv_out st))) (set_delivered (sm_msgId m))" if "m \<in> set ms" for m
      proof (rule mark_log, intro ballI impI)
        fix m1 assume m1: "m1 \<in> set L" "sm_msgId m1 = cstr (sm_msgId m)"
        have m: "m \<in> set L" "sm_receiver m = u" using that ms unfolding rows by auto
        then have "m1 = m" using m1 ok(2) inj by (simp add: inj_on_eq_iff)
        then show "shown (sv_out st) (sm_msgId m1) (sm_receiver m1)"
          using seen that m m1(2) by metis
      qed
      then have "conn_ok (steady (log_ok L (sv_out st))) ?c"
        by (intro mark_guarded L) simp
      moreover have "presence_ok (set_conn ?c st)"
        by (rule presence_less [OF p]) (simp_all add: same)
      ultimately show ?thesis by (auto simp: server_inv_def conn_of_def)
    qed
    show "users_grow st (set_conn ?c st)" by (simp add: users_grow_def same)
  qed simp_all
qed

lemma deliver_pending_lawful:
  assumes s: "user_of st s = Some u" and u: "0 < u"
  shows "lawful st (deliver_pending s u st)"
proof -
  obtain ms st1 where r: "sv_read (\<lambda>io. pullUndelivered io u) st = (ms, st1)"
    by (cases "sv_read (\<lambda>io. pullUndelivered io u) st")
  obtain io ios where rd: "ms = pullUndelivered io u (sv_db st)" "st1 = st\<lparr>sv_reads := ios\<rparr>"
    using sv_readE [OF r] .
  have ms: "set ms \<subseteq> {m \<in> mr_msg ` set (db_messages (sv_db st)). sm_receiver m = u}"
    unfolding rd using pull_set .
  let ?st2 = "fold (hand_over s u) ms st1"
  have "user_of st1 s = Some u" using s by (simp add: rd user_of_def)
  moreover have "\<forall>m \<in> set ms. sm_receiver m = u" using ms by auto
  ultimately have h: "lawful st1 ?st2" "same_users st1 ?st2"
      "\<forall>m \<in> set ms. shown (sv_out ?st2) (cstr (sm_msgId m)) u"
    using hand_all [of st1 s u ms] u by blast+
  have "sv_db ?st2 = sv_db st" using h(2) by (simp add: same_users_def sv_db_def rd)
  then have "lawful ?st2 (snd (sv_write (\<lambda>c. ((), markDelivered (map sm_msgId ms) c)) ?st2))"
    using h(3) ms by (intro mark_missed_lawful) simp_all
  moreover have "lawful st ?st2" using lawful.keeps_read [OF r] h(1) by (rule lawful_trans)
  ultimately show ?thesis
    using r by (auto simp: deliver_pending_def intro: lawful_trans)
qed

lemma announce_friend_same: "same_users st (announce_friend s u f st)"
  unfolding announce_friend_def Let_def
  by (auto split: option.split intro: same.keeps_trans same.keeps_sendFriendInfo)

lemma announce_friend_quiet: "quiet st (announce_friend s u f st)"
  unfolding announce_friend_def Let_def by (auto split: option.split intro!: quiet_intros)

lemma activate_lawful:
  assumes s: "user_of st s = Some u" and u: "0 < u"
  shows "lawful st (activateSession cx s u st)"
proof -
  let ?st1 = "sendFriendInfo s u STATUS_ONLINE (take_over cx s u st)"
  obtain friends st2 where r: "sv_read (\<lambda>io. getFriends io u) ?st1 = (friends, st2)"
    by (cases "sv_read (\<lambda>io. getFriends io u) ?st1")
  let ?st3 = "fold (announce_friend s u) (map u_id friends) st2"
  have "sv_sessions (take_over cx s u st) = sv_sessions st"
    by (simp add: take_over_def Let_def split: prod.split option.split)
  moreover have "same_users (take_over cx s u st) ?st1" by (rule same.keeps_sendFriendInfo)
  moreover have "same_users ?st1 st2" using r by (rule same.keeps_read)
  moreover have "same_users st2 ?st3" by (rule same.keeps_fold) (rule announce_friend_same)
  ultimately have "user_of ?st3 s = Some u" using s by (simp add: same_users_def user_of_def)
  then have "lawful ?st3 (deliver_pending s u ?st3)" using u by (rule deliver_pending_lawful)
  moreover have "lawful st ?st1"
    using take_over_lawful [OF assms] lawful.keeps_sendFriendInfo by (rule lawful_trans)
  moreover have "lawful ?st1 st2" using r by (rule lawful.keeps_read)
  moreover have "lawful st2 ?st3"
    by (rule lawful.keeps_fold) (intro quiet_lawful announce_friend_quiet)
  ultimately have "lawful st (deliver_pending s u ?st3)" by (blast intro: lawful_trans)
  then show ?thesis using r by (simp add: activateSession_def Let_def)
qed

text \<open>Both ways to sign in end by giving a session that belongs to nobody to a user.\<close>

lemma sign_in_lawful:
  assumes q: "quiet st st1" and s: "user_of st s = Some u0" "u0 \<le> 0"
    and u: "server_inv st \<Longrightarrow> 0 < u" and m: "quiet (bindAuth s u a d e st1) st2"
  shows "lawful st (activateSession cx s u st2)"
proof (cases "server_inv st")
  case True
  then have pos: "0 < u" by (rule u)
  have s1: "user_of st1 s = Some u0" using q s by (simp add: quiet_def)
  let ?b = "bindAuth s u a d e st1"
  have "user_of st2 s = Some u"
    using m s1 by (auto simp: quiet_def user_of_bind user_of_def)
  with m have "lawful ?b (activateSession cx s u st2)"
    using activate_lawful [OF _ pos] by (blast intro: lawful_trans quiet_lawful)
  moreover have "lawful st1 ?b" using s1 s(2) pos by (rule bind_lawful)
  ultimately show ?thesis using q by (blast intro: lawful_trans quiet_lawful)
qed (simp add: lawful_def)

lemma check_password_quiet:
  assumes "check_password E cx rq st1 = (r, st2)" and "quiet st st1"
  shows "quiet st st2"
proof -
  obtain io st0 where r: "sv_read (\<lambda>io _. io) st1 = (io, st0)" by (metis surj_pair)
  let ?w = "\<lambda>c. case loginUser (en_argon E) (cx_hash cx) (cx_junk cx) io (lq_tel rq) (lq_pass rq) 0 c of
      (result, uid, c) \<Rightarrow> ((result, uid), c)"
  have g: "guarded (steady Q) ?w" for Q
    by (rule guardedI) (auto split: prod.splits elim: login_guarded [OF steady_keeps(2)])
  have "sv_write ?w st0 = (r, st2)" using assms(1) r by (simp add: check_password_def)
  then show ?thesis using g quiet_read [OF r assms(2)] by (rule quiet_write_step)
qed

lemma bind_positive: "bindDevicePublicKey uid dev key c = (True, c') \<Longrightarrow> 0 < uid"
  by (auto simp: bindDevicePublicKey_def split: if_splits)

lemma finish_login_lawful:
  assumes q: "quiet st st1" and s: "user_of st s = Some u0" "u0 \<le> 0"
  shows "lawful st (finish_login E cx s x rq st1)"
proof -
  obtain result uid st2 where c: "check_password E cx rq st1 = ((result, uid), st2)"
    by (metis surj_pair)
  have q2: "quiet st st2" using check_password_quiet [OF c q] .
  obtain bound st3 where b: "sv_write (bindDevicePublicKey uid (lq_device rq) (lq_key rq)) st2 = (bound, st3)"
    by (metis surj_pair)
  have q3: "quiet st st3" using quiet_write_step [OF b bind_guarded [OF steady_bind] q2] .
  obtain res ts where i: "issue (en_digest E) (cx_issue cx) (cx_now cx) uid (lq_device rq) (sv_tokens st3) = (res, ts)"
    by (metis surj_pair)
  have q4: "quiet st (st3\<lparr>sv_tokens := ts\<rparr>)" using quiet_issue [OF i q3] .
  show ?thesis
  proof (cases "result = LOGIN_SUCCESS \<and> bound")
    case False
    then have "quiet st (finish_login E cx s x rq st1)"
      using c b q2 q3 by (auto simp: finish_login_def intro!: quiet_deliver quiet_trans [OF q2 limit_quiet])
    then show ?thesis by (rule quiet_lawful)
  next
    case True
    then have pos: "0 < uid" using b bind_positive by (auto elim!: sv_writeE)
    show ?thesis
    proof (cases res)
      case IssueThrows
      then have "quiet st (finish_login E cx s x rq st1)"
        using c b i True q4 by (auto simp: finish_login_def intro!: quiet_deliver)
      then show ?thesis by (rule quiet_lawful)
    next
      case (Issued p)
      then show ?thesis
        using c b i True
        by (auto simp: finish_login_def Let_def intro!: sign_in_lawful [OF q4 s pos]
            quiet_trans [OF quiet.keeps_notice quiet.keeps_limiter])
    qed
  qed
qed

lemma onLogin_lawful:
  assumes x: "sv_sessions st s = Some x"
  shows "lawful st (onLogin E cx s x payload st)"
proof (cases "en_login E payload")
  case (Some rq)
  obtain ip st1 where l1: "limit_allows cx x [] st = (ip, st1)" by (metis surj_pair)
  have q1: "quiet st st1" using limit_allows_quiet [OF l1 quiet_refl] .
  obtain pair st2 where l2: "limit_allows cx x (lq_tel rq) st1 = (pair, st2)" by (metis surj_pair)
  have q2: "quiet st st2" using limit_allows_quiet [OF l2 q1] .
  show ?thesis
  proof (cases "ip \<and> \<not> login_malformed x rq \<and> password_proof E x rq \<and> pair")
    case True
    then have "se_user x \<le> 0" by (simp add: login_malformed_def authenticated_def)
    moreover have "user_of st s = Some (se_user x)" using x by (simp add: user_of_def)
    ultimately show ?thesis
      using True Some l1 l2 finish_login_lawful [OF q2] by (simp add: onLogin_def)
  next
    case False
    then have "quiet st (onLogin E cx s x payload st)"
      using Some l1 l2 q1 q2 by (auto simp: onLogin_def intro!: quiet_deliver quiet_trans [OF q1 limit_quiet])
    then show ?thesis by (rule quiet_lawful)
  qed
qed (simp add: onLogin_def lawful.keeps_refl)

lemma token_row_quiet: "token_login_row E cx x rq st = (r, st') \<Longrightarrow> quiet st st'"
  unfolding token_login_row_def
  by (auto split: if_splits prod.splits option.splits intro: quiet_trans dest: quiet.keeps_read)

lemma device_key_positive:
  assumes "getDevicePublicKey io uid dev d = Some k" and "steady Q d"
  shows "0 < uid"
  using assms by (auto simp: getDevicePublicKey_def steady_def dest!: fetch_one_in split: option.splits)

lemma token_row_positive:
  assumes "token_login_row E cx x rq st = (Some r, st')" and "steady Q (sv_db st)"
  shows "0 < ar_user r"
proof -
  obtain k io where "getDevicePublicKey io (ar_user r) (tl_device rq) (sv_db st) = Some k"
    using assms(1) unfolding token_login_row_def
    by (auto split: if_splits prod.splits option.splits elim!: sv_readE) metis
  then show ?thesis using assms(2) by (rule device_key_positive)
qed

lemma onTokenLogin_lawful:
  assumes x: "sv_sessions st s = Some x"
  shows "lawful st (onTokenLogin E cx s x payload st)"
proof (cases "en_tokenLogin E payload")
  case (Some rq)
  obtain row st1 where t: "token_login_row E cx x rq st = (row, st1)" by (metis surj_pair)
  have q: "quiet st st1" using token_row_quiet [OF t] .
  show ?thesis
  proof (cases "authenticated x \<or> row = None")
    case True
    then have "quiet st (onTokenLogin E cx s x payload st)"
      using Some t q by (auto simp: onTokenLogin_def intro!: quiet_deliver)
    then show ?thesis by (rule quiet_lawful)
  next
    case False
    then obtain r where r: "row = Some r" by auto
    have pos: "0 < ar_user r" if "server_inv st"
      using that token_row_positive [OF t [unfolded r]]
      by (auto simp: server_inv_def conn_ok_def sv_db_def conn_of_def)
    have "user_of st s = Some (se_user x)" "se_user x \<le> 0"
      using x False by (simp_all add: user_of_def authenticated_def)
    then show ?thesis
      using False Some t r
      by (auto simp: onTokenLogin_def Let_def intro!: sign_in_lawful [OF q _ _ pos] quiet.keeps_notice)
  qed
qed (simp add: onTokenLogin_def lawful.keeps_refl)

section \<open>Messages\<close>

lemma presence_user:
  assumes "presence_ok st" and "presence_get u st = Some t"
  shows "0 < u \<and> user_of st t = Some u"
proof -
  have "online_as st u = Some t" "user_of st t \<noteq> None"
    using assms(2)
    by (auto simp: presence_get_def pr_get_def pr_lock_def alive_def online_as_def user_of_def split: option.splits if_splits)
  then show ?thesis using assms(1) unfolding presence_ok_def by metis
qed

text \<open>A step that changes the tables and then sends: the log may rest on what is sent.\<close>

lemma lawful_send:
  assumes "user_of st' = user_of st" and "online_as st' = online_as st" and "sv_next st' = sv_next st"
    and out: "sv_out st' = sv_out st @ ev"
    and ev: "server_inv st \<Longrightarrow> list_all (event_ok (user_of st)) ev"
    and log: "\<And>L. conn_ok (steady (log_ok L (sv_out st @ ev))) (conn_of st) \<Longrightarrow>
      \<exists>L'. conn_ok (steady (log_ok L' (sv_out st @ ev))) (conn_of st')"
  shows "lawful st st'"
proof (rule lawfulI [where ev = ev])
  show "server_inv st'" if inv: "server_inv st"
  proof -
    obtain L where L: "conn_ok (steady (log_ok L (sv_out st))) (conn_of st)" and p: "presence_ok st"
      using inv by (auto simp: server_inv_def)
    have "presence_ok st'" by (rule presence_less [OF p]) (simp_all add: assms)
    then show ?thesis using log [OF log_grow [OF L]] by (simp add: server_inv_def out)
  qed
qed (use assms in \<open>simp_all add: users_grow_def\<close>)

lemma consume_frames [simp]:
  "sv_sessions (consume_uploads m a st) = sv_sessions st" "sv_presence (consume_uploads m a st) = sv_presence st"
  "sv_next (consume_uploads m a st) = sv_next st" "sv_out (consume_uploads m a st) = sv_out st"
  "sv_tokens (consume_uploads m a st) = sv_tokens st"
  by (simp_all add: consume_uploads_def eraseUploadRecord_def Let_def)

lemma forward_frames [simp]:
  "sv_sessions (forward_chat s rq m t st) = sv_sessions st" "sv_presence (forward_chat s rq m t st) = sv_presence st"
  "sv_next (forward_chat s rq m t st) = sv_next st" "sv_tokens (forward_chat s rq m t st) = sv_tokens st"
  by (simp_all add: forward_chat_def Let_def split: option.split)

definition forwarded :: "chat_info \<Rightarrow> stored_message \<Rightarrow> chat_info" where
  "forwarded rq m = rq\<lparr>ci_msgId := sm_msgId m, ci_ts := sm_ts m, ci_seq := sm_seq m\<rparr>"

lemma forward_out:
  "\<exists>r. sv_out (forward_chat s rq m t st) =
    sv_out st @ (case t of None \<Rightarrow> [] | Some q \<Rightarrow> [Deliver q (MsgChatRq (forwarded rq m))]) @ [Deliver s (MsgChatRs r)]"
  by (auto simp: forward_chat_def forwarded_def Let_def split: option.split)

lemma take_msgId_frames:
  "take_msgId cx rq st = (mid, st') \<Longrightarrow> quiet st st' \<and> presence_get u st' = presence_get u st"
  unfolding take_msgId_def by (auto split: if_splits intro: quiet_same [where ev = "[]"])

lemma chat_message_fields [simp]:
  "sm_msgId (chat_message cx mid rq a) = mid" "sm_receiver (chat_message cx mid rq a) = ci_friend rq"
  "sm_sender (chat_message cx mid rq a) = ci_my rq"
  by (simp_all add: chat_message_def)

lemma store_chat_lawful: "lawful st (store_chat cx s rq a st)"
proof -
  obtain mid st1 where t: "take_msgId cx rq st = (mid, st1)" by (metis surj_pair)
  define target where "target = presence_get (ci_friend rq) st1"
  let ?m = "chat_message cx mid rq a"
  obtain saved m c where w: "saveMessage ?m (target \<noteq> None) (conn_of st1) = (saved, m, c)" by (metis prod_cases3)
  have m: "sm_msgId m = mid" using arg_cong [OF save_msg [OF w], of sm_msgId] by simp
  define st' where "st' = (if \<not> saved then deliverFailure s rq CHAT_RESULT_SERVER_ERROR (set_conn c st1)
      else forward_chat s rq m target (consume_uploads m a (set_conn c st1)))"
  have run: "store_chat cx s rq a st = st'"
    using t w by (simp add: store_chat_def st'_def target_def sv_write_def conn_of_def Let_def split: prod.split)
  obtain r where r: "sv_out (forward_chat s rq m target (consume_uploads m a (set_conn c st1))) = sv_out st1 @
      (case target of None \<Rightarrow> [] | Some q \<Rightarrow> [Deliver q (MsgChatRq (forwarded rq m))]) @ [Deliver s (MsgChatRs r)]"
    using forward_out [of s rq m target "consume_uploads m a (set_conn c st1)"] by auto
  define ev where "ev = (if \<not> saved then [Deliver s (MsgChatRs \<lparr>cr_my = ci_friend rq, cr_friend = ci_my rq,
        cr_result = CHAT_RESULT_SERVER_ERROR, cr_msgId = ci_msgId rq, cr_seq = 0\<rparr>)]
      else (case target of None \<Rightarrow> [] | Some q \<Rightarrow> [Deliver q (MsgChatRq (forwarded rq m))]) @ [Deliver s (MsgChatRs r)])"
  have fw: "ci_friend (forwarded rq m) = ci_friend rq" "ci_msgId (forwarded rq m) = mid"
    by (simp_all add: forwarded_def m)
  have "lawful st1 st'"
  proof (rule lawful_send [where ev = ev])
    show "sv_out st' = sv_out st1 @ ev"
      using r by (simp add: st'_def ev_def deliverFailure_def)
    show "user_of st' = user_of st1" by (rule user_of_cong) (simp add: st'_def deliverFailure_def)
    show "online_as st' = online_as st1" by (rule online_as_cong) (simp add: st'_def deliverFailure_def)
    show "list_all (event_ok (user_of st1)) ev" if inv: "server_inv st1"
    proof -
      have p: "presence_ok st1" using inv by (simp add: server_inv_def)
      show ?thesis
        using presence_user [OF p, of "ci_friend rq"] fw
        by (cases target) (simp_all add: ev_def event_ok_def target_def)
    qed
    have c: "conn_of st' = c" by (simp add: st'_def conn_of_def deliverFailure_def)
    have "shown (sv_out st1 @ ev) (cstr mid) (ci_friend rq)" if "saved" "target \<noteq> None"
      using that fw by (auto simp: ev_def shown_def)
    then show "\<exists>L'. conn_ok (steady (log_ok L' (sv_out st1 @ ev))) (conn_of st')"
      if "conn_ok (steady (log_ok L (sv_out st1 @ ev))) (conn_of st1)" for L
      unfolding c using save_log [OF w that] by simp
  qed (simp add: st'_def deliverFailure_def)
  then show ?thesis
    unfolding run using take_msgId_frames [OF t] by (blast intro: lawful_trans quiet_lawful)
qed

lemma onChat_lawful: "lawful st (onChat E cx s x payload st)"
proof (cases "en_chat E payload")
  case (Some rq)
  obtain friends st1 where r: "sv_read (\<lambda>io. isFriend io (se_user x) (ci_friend (rq\<lparr>ci_my := se_user x\<rparr>))) st = (friends, st1)"
    by (metis surj_pair)
  have 1: "lawful st st1" using r by (rule lawful.keeps_read)
  have "lawful st (deliverFailure s q res st1)" for q res
    unfolding deliverFailure_def by (rule lawful_trans [OF 1 lawful.keeps_notice]) simp
  moreover have "lawful st (store_chat cx s q a st1)" for q a
    using 1 store_chat_lawful by (rule lawful_trans)
  ultimately show ?thesis
    using Some r by (auto simp: onChat_def Let_def lawful.keeps_refl split: option.split)
qed (simp add: onChat_def lawful.keeps_refl)

section \<open>Runs\<close>

text \<open>
  A connection is accepted; a packet is handled; a closed connection leaves the map and its friends
  are told; a session object goes away; silence is scanned for; the two AI workers begin and end
  their jobs; the file server records or forgets an upload; and the process is started anew on the
  committed tables. \<open>sv_out\<close> and the session numbers go on over a restart.
\<close>

definition accept_session :: "bytes \<Rightarrow> string \<Rightarrow> server \<Rightarrow> server" where
  "accept_session app peer st =
     st\<lparr>sv_sessions := (sv_sessions st)(sv_next st \<mapsto> new_session app peer), sv_next := sv_next st + 1\<rparr>"

definition destroy_session :: "nat \<Rightarrow> server \<Rightarrow> server" where
  "destroy_session s st = st\<lparr>sv_sessions := (sv_sessions st)(s := None)\<rparr>"

definition restart :: "ai_config \<Rightarrow> bool list \<Rightarrow> read_io list \<Rightarrow> server \<Rightarrow> server" where
  "restart cfg script reads st =
     (server_new cfg (sv_db st) script reads)\<lparr>sv_out := sv_out st, sv_next := sv_next st\<rparr>"

inductive server_step :: "server_env \<Rightarrow> server \<Rightarrow> server \<Rightarrow> bool" for E where
  Accepted: "server_step E st (accept_session app peer st)"
| Packet: "sv_sessions st s = Some x \<Longrightarrow> server_step E st (dispatchPacket E cx s x t payload st)"
| Closed: "sv_sessions st s = Some x \<Longrightarrow> server_step E st (onSessionClosed s x st)"
| Announced: "server_step E st (announce_offline uid st)"
| Destroyed: "server_step E st (destroy_session s st)"
| Scanned: "server_step E st (hbScan now st)"
| AiBegins: "job \<in> set (ah_jobs (sv_ai st)) \<Longrightarrow> length (ah_calls (sv_ai st)) < 2 \<Longrightarrow>
    server_step E st (snd (ai_begin E job st))"
| AiEnds: "job \<in> set (ah_calls (sv_ai st)) \<Longrightarrow> server_step E st (ai_end job err suggestions st)"
| Uploaded: "server_step E st (st\<lparr>sv_uploads := (sv_uploads st)(fid := r)\<rparr>)"
| Restarted: "server_step E st (restart cfg script reads st)"

text \<open>A run may start on any tables that are in order and in which no message is marked delivered.\<close>

definition db_ready :: "server_db \<Rightarrow> bool" where
  "db_ready d \<longleftrightarrow> msgs_ok d \<and>
     (\<forall>r \<in> set (db_messages d). \<not> mr_delivered r \<and> cstr (sm_msgId (mr_msg r)) = sm_msgId (mr_msg r)) \<and>
     (\<forall>v \<in> set (db_devices d). 0 < dv_user v)"

inductive server_reach :: "server_env \<Rightarrow> ai_config \<Rightarrow> server \<Rightarrow> bool" for E cfg where
  Start: "db_ready d \<Longrightarrow> server_reach E cfg (server_new cfg d script reads)"
| Step: "server_reach E cfg st \<Longrightarrow> server_step E st st' \<Longrightarrow> server_reach E cfg st'"

inductive_cases server_stepE: "server_step E st st'"

lemma handler_lawful:
  assumes x: "sv_sessions st s = Some x" and h: "(p, h) \<in> set (routes E cx)"
  shows "lawful st (h s x payload st)"
  using h unfolding routes_def
  by (auto intro: x onLogin_lawful onTokenLogin_lawful onConversations_lawful onMessages_lawful onChat_lawful
      quiet_lawful register_quiet onOffline_quiet heartbeat_quiet addFriend_quiet addReply_quiet
      requestList_quiet deleteFriend_quiet refresh_quiet logout_quiet onReply_quiet onCancel_quiet)

lemma router_build_routes:
  "router_build rs m = Some m' \<Longrightarrow> map_of m' t = Some h \<Longrightarrow> map_of m t = Some h \<or> (\<exists>p. (p, h) \<in> set rs \<and> prot_num p = t)"
  by (induction rs m rule: router_build.induct) (fastforce simp: router_add_def split: option.splits if_splits)+

lemma touch_sessions [simp]: "sv_sessions (touch_user cx x st) = sv_sessions st"
  by (simp add: touch_user_def)

lemma packet_lawful:
  assumes x: "sv_sessions st s = Some x"
  shows "lawful st (dispatchPacket E cx s x t payload st)"
proof -
  let ?st = "touch_user cx x st"
  have route: "lawful ?st (h s x payload ?st)"
    if "router_build (routes E cx) [] = Some m" "map_of m t = Some h" for m h
    using router_build_routes [OF that] handler_lawful [of ?st s x] x by auto
  have "lawful ?st (dispatch E cx s x t payload ?st)"
    by (auto simp: dispatch_def lawful.keeps_refl split: option.split intro: route)
  moreover have "lawful ?st (sv_close s ?st)" by (rule lawful.keeps_close)
  moreover have "lawful st ?st" by (intro quiet_lawful touch_quiet)
  ultimately show ?thesis by (auto simp: dispatchPacket_def Let_def intro: lawful_trans)
qed

lemma log_conn_new:
  "conn_ok (steady (log_ok L out)) c \<Longrightarrow> conn_ok (steady (log_ok L out)) (sconn_new (cn_db c) script)"
  by (simp add: conn_ok_def sconn_new_def)

lemma accept_users: "user_of (accept_session app peer st) = (user_of st)(sv_next st \<mapsto> 0)"
  by (auto simp: user_of_def accept_session_def new_session_def)

lemma accept_inv: "server_inv st \<Longrightarrow> server_inv (accept_session app peer st)"
proof -
  assume inv: "server_inv st"
  have "online_as (accept_session app peer st) = online_as st" by (rule online_as_cong) (simp add: accept_session_def)
  moreover have "q \<noteq> sv_next st" if "online_as st u = Some q" for u q
    using inv that by (auto simp: server_inv_def presence_ok_def)
  moreover have "sv_next (accept_session app peer st) = sv_next st + 1" by (simp add: accept_session_def)
  ultimately have "presence_ok (accept_session app peer st)"
    using inv unfolding server_inv_def presence_ok_def accept_users by (auto simp: less_SucI)
  then show ?thesis using inv by (simp add: server_inv_def accept_session_def conn_of_def)
qed

lemma destroy_inv: "server_inv st \<Longrightarrow> server_inv (destroy_session s st)"
proof -
  assume inv: "server_inv st"
  have "online_as (destroy_session s st) = online_as st" by (rule online_as_cong) (simp add: destroy_session_def)
  moreover have "user_of (destroy_session s st) = (user_of st)(s := None)"
    by (auto simp: user_of_def destroy_session_def)
  ultimately have "presence_ok (destroy_session s st)"
    using inv unfolding server_inv_def presence_ok_def by (auto simp: destroy_session_def)
  then show ?thesis using inv by (simp add: server_inv_def destroy_session_def conn_of_def)
qed

lemma restart_inv: "server_inv st \<Longrightarrow> server_inv (restart cfg script reads st)"
  by (auto simp: server_inv_def restart_def server_new_def presence_ok_def user_of_def online_as_def
      conn_of_def sv_db_def intro: log_conn_new)

text \<open>Every step keeps the invariant, and shows messages only as it should.\<close>

lemma step_ok:
  assumes "server_step E st st'" and inv: "server_inv st"
  shows "server_inv st' \<and> (\<exists>ev. sv_out st' = sv_out st @ ev \<and> list_all (event_ok (user_of st')) ev)"
proof -
  have lawful: ?thesis if "lawful st st'" using that inv by (auto simp: lawful_def)
  from assms(1) show ?thesis
  proof cases
    case (Accepted app peer)
    then show ?thesis using accept_inv [OF inv] by (simp add: accept_session_def)
  next
    case (Destroyed s)
    then show ?thesis using destroy_inv [OF inv] by (simp add: destroy_session_def)
  next
    case (Restarted cfg script reads)
    then show ?thesis using restart_inv [OF inv] by (simp add: restart_def)
  next
    case (AiBegins job)
    then show ?thesis by (metis lawful quiet_lawful ai_begin_quiet surjective_pairing)
  next
    case (Uploaded fid r)
    then have "quiet st st'" by (intro quiet_same [where ev = "[]"]) simp_all
    then show ?thesis by (intro lawful quiet_lawful)
  next
    case (Packet s x cx t payload)
    then show ?thesis using packet_lawful [of st s x] lawful by blast
  next
    case (Closed s x)
    then show ?thesis using lawful quiet_lawful [OF closed_quiet] by blast
  next
    case (Announced uid)
    then show ?thesis using lawful quiet_lawful [OF announce_offline_quiet] by blast
  next
    case (Scanned now)
    then show ?thesis using lawful quiet_lawful [OF hbScan_quiet] by blast
  next
    case (AiEnds job err suggestions)
    then show ?thesis using lawful quiet_lawful [OF ai_end_quiet] by blast
  qed
qed

lemma start_inv:
  assumes "db_ready d"
  shows "server_inv (server_new cfg d script reads)"
proof -
  have "steady (log_ok (map mr_msg (db_messages d)) []) d"
    using assms by (auto simp: steady_log db_ready_def)
  then show ?thesis
    by (auto simp: server_inv_def server_new_def presence_ok_def user_of_def online_as_def
        conn_of_def conn_ok_def sconn_new_def)
qed

lemma db_ready_empty: "db_ready empty_db"
  using msgs_ok_empty by (simp add: db_ready_def) (simp add: empty_db_def)

lemma reach_inv: "server_reach E cfg st \<Longrightarrow> server_inv st"
  by (induction rule: server_reach.induct) (use start_inv step_ok in blast)+

section \<open>Who the events went to\<close>

text \<open>
  The history of a run: every event with the user its session was signed in as at the end of the step
  that posted it.
\<close>

definition addressed :: "server \<Rightarrow> server_event \<Rightarrow> int option \<times> server_event" where
  "addressed st e = (case e of Deliver s m \<Rightarrow> user_of st s | _ \<Rightarrow> None, e)"

inductive server_hist :: "server_env \<Rightarrow> ai_config \<Rightarrow> server \<Rightarrow> (int option \<times> server_event) list \<Rightarrow> bool" for E cfg where
  Start: "db_ready d \<Longrightarrow> server_hist E cfg (server_new cfg d script reads) []"
| Step: "server_hist E cfg st h \<Longrightarrow> server_step E st st' \<Longrightarrow> sv_out st' = sv_out st @ ev \<Longrightarrow>
    server_hist E cfg st' (h @ map (addressed st') ev)"

lemma hist_reach: "server_hist E cfg st h \<Longrightarrow> server_reach E cfg st"
  by (induction rule: server_hist.induct) (auto intro: server_reach.intros)

text \<open>Every run has one.\<close>

lemma reach_hist: "server_reach E cfg st \<Longrightarrow> \<exists>h. server_hist E cfg st h"
proof (induction rule: server_reach.induct)
  case (Step st st')
  then show ?case using step_ok [OF Step(2) reach_inv [OF Step(1)]] by (blast intro: server_hist.Step)
qed (blast intro: server_hist.Start)

lemma hist_out: "server_hist E cfg st h \<Longrightarrow> map snd h = sv_out st"
  by (induction rule: server_hist.induct) (simp_all add: server_new_def addressed_def comp_def)

lemma hist_chat:
  "server_hist E cfg st h \<Longrightarrow> (u, Deliver s (MsgChatRq c)) \<in> set h \<Longrightarrow> u = Some (ci_friend c)"
proof (induction rule: server_hist.induct)
  case (Step st h st' ev)
  then obtain ev' where "sv_out st' = sv_out st @ ev'" "list_all (event_ok (user_of st')) ev'"
    using step_ok [OF Step.hyps(2) reach_inv [OF hist_reach [OF Step.hyps(1)]]] by blast
  then have "list_all (event_ok (user_of st')) ev" using Step.hyps(3) by simp
  then show ?case using Step.IH Step.prems by (auto simp: addressed_def list_all_iff event_ok_def)
qed simp

lemma frame_queued:
  "Close s \<notin> set xs \<Longrightarrow> CloseAfterWrite s \<notin> set xs \<Longrightarrow> m \<in> set (strand_frames s (xs @ Deliver s m # ys))"
  by (induction s xs rule: strand_frames.induct) auto

end
