(* ===== verification/ServerDemo.thy ===== *)
theory ServerDemo
  imports ServerRuns
begin

text \<open>
  A concrete run of the server, evaluated by rewriting, on which the properties of
  \<open>ServerProperties\<close> are tried.
\<close>

section \<open>A sign-in with a message waiting\<close>

text \<open>
  A small server whose parsers read fixed requests. Two users, one message waiting for the second;
  she connects and signs in with her password.
\<close>

definition demo_login :: login_rq where
  "demo_login = \<lparr>lq_tel = ''13800000002'', lq_pass = replicate 64 (CHR ''a''), lq_device = ''d'',
     lq_key = [1], lq_sig = [1]\<rparr>"

definition demo_env :: server_env where
  "demo_env = \<lparr>en_register = (\<lambda>_. None), en_login = (\<lambda>p. if p = [7] then Some demo_login else None),
     en_tokenLogin = (\<lambda>_. None), en_refresh = (\<lambda>_. None), en_logout = (\<lambda>_. None), en_chat = (\<lambda>_. None),
     en_addFriend = (\<lambda>_. None), en_addReply = (\<lambda>_. None), en_requestList = (\<lambda>_. None),
     en_deleteFriend = (\<lambda>_. None), en_roam = (\<lambda>_. None), en_offline = (\<lambda>_. None), en_aiReply = (\<lambda>_. None),
     en_aiCancel = (\<lambda>_. None), en_ai = default_config, en_digest = (\<lambda>b. b), en_signed = (\<lambda>_ _ _. True),
     en_argon = (\<lambda>_ _. True)\<rparr>"

definition demo_ctx :: packet_ctx where
  "demo_ctx = \<lparr>cx_now = 100, cx_tick = 100, cx_hash = None, cx_junk = [], cx_issue = Some (''s'', ''f'', ''a'', ''r''),
     cx_rotate = None, cx_victim = 0\<rparr>"

definition demo_user :: "int \<Rightarrow> string \<Rightarrow> string \<Rightarrow> user_row" where
  "demo_user uid nick tel = \<lparr>u_id = uid, u_name = nick, u_tel = tel, u_passwd = ''h'', u_salt = [],
     u_algo = ''argon2id'', u_feeling = [], u_icon = 0\<rparr>"

definition demo_db :: server_db where
  "demo_db = empty_db\<lparr>db_users := [demo_user 1 ''ann'' ''13800000001'', demo_user 2 ''bob'' ''13800000002''],
     db_nextUser := 3,
     db_messages := [\<lparr>mr_id = 1, mr_conv = 4294967298, mr_delivered = False,
                       mr_msg = (text_message ''m1'' 1 2 ''hi'' 50)\<lparr>sm_seq := 1\<rparr>\<rparr>],
     db_nextMsg := 2\<rparr>"

definition demo_start :: server where
  "demo_start = accept_session [1] ''10.0.0.1'' (server_new default_config demo_db [] [])"

definition demo_session :: session where
  "demo_session = new_session [1] ''10.0.0.1''"

definition demo_end :: server where
  "demo_end = dispatchPacket demo_env demo_ctx 0 demo_session (prot_num LOGIN_RQ) [7] demo_start"

lemma demo_ready: "db_ready demo_db"
proof -
  let ?m = "(text_message ''m1'' 1 2 ''hi'' 50)\<lparr>sm_seq := 1\<rparr>"
  let ?r = "\<lparr>mr_id = 1, mr_conv = 4294967298, mr_delivered = False, mr_msg = ?m\<rparr>"
  have m: "sm_sender ?m = 1" "sm_receiver ?m = 2" "sm_seq ?m = 1" "cstr (sm_msgId ?m) = sm_msgId ?m"
    by (simp_all add: text_message_def cstr_def)
  have d: "db_messages demo_db = [?r]" "db_nextMsg demo_db = 2" "db_devices demo_db = []"
    by (simp_all add: demo_db_def empty_db_def)
  have "makeConversationId 1 2 = 4294967298"
    by (simp add: makeConversationId_eq user_id_ok_def sql_conversation_id_def)
  then have "msgs_ok demo_db"
    unfolding msgs_ok_def conv_rows_def d by (simp add: row_seq_def m)
  then show ?thesis using m(4) by (simp add: db_ready_def d)
qed

lemma demo_start_reach: "server_reach demo_env default_config demo_start"
  unfolding demo_start_def
  by (rule server_reach.Step [OF server_reach.Start [OF demo_ready] server_step.Accepted])

lemma demo_login_step: "server_step demo_env demo_start demo_end"
  unfolding demo_end_def
  by (rule server_step.Packet)
    (simp add: demo_start_def demo_session_def accept_session_def server_new_def)

lemma demo_reach: "server_reach demo_env default_config demo_end"
  using demo_start_reach demo_login_step by (rule server_reach.Step)

definition demo_observed :: "(string \<times> bool) list \<times> chat_info list \<times> nat option \<times> int option" where
  "demo_observed = (map (\<lambda>r. (sm_msgId (mr_msg r), mr_delivered r)) (db_messages (sv_db demo_end)),
     concat (map (\<lambda>e. case e of Deliver s m \<Rightarrow> displays m | _ \<Rightarrow> []) (sv_out demo_end)),
     presence_get 2 demo_end, user_of demo_end 0)"

lemma demo_result:
  "demo_observed = ([(''m1'', True)], [fillChatInfo ((text_message ''m1'' 1 2 ''hi'' 50)\<lparr>sm_seq := 1\<rparr>)], Some 0, Some 2)"
  by code_simp

lemma demo_facts:
  "map (\<lambda>r. (sm_msgId (mr_msg r), mr_delivered r)) (db_messages (sv_db demo_end)) = [(''m1'', True)]"
  "presence_get 2 demo_end = Some 0" "user_of demo_end 0 = Some 2"
  using demo_result by (simp_all add: demo_observed_def)

end
