(* ===== verification/ServerSignIn.thy ===== *)
theory ServerSignIn
  imports ServerRuns
begin

text \<open>
  What it takes to sign in: when a step gives a session to a user, the packet of that step carried a
  proof, a password with the signature of the device, or an access token with it.
\<close>

section \<open>Who changes the sessions\<close>

definition same_sessions :: "server \<Rightarrow> server \<Rightarrow> bool" where
  "same_sessions st st' \<longleftrightarrow> sv_sessions st' = sv_sessions st"

interpretation sess: handler_relation same_sessions
  by unfold_locales (auto simp: same_sessions_def)

lemma sess_user_of: "same_sessions st st' \<Longrightarrow> user_of st' = user_of st"
  unfolding same_sessions_def by (rule user_of_cong)

lemma activate_sessions: "same_sessions st (activateSession cx s u st)"
proof -
  let ?st1 = "sendFriendInfo s u STATUS_ONLINE (take_over cx s u st)"
  obtain friends st2 where r: "sv_read (\<lambda>io. getFriends io u) ?st1 = (friends, st2)" by (metis surj_pair)
  let ?st3 = "fold (announce_friend s u) (map u_id friends) st2"
  obtain ms st4 where p: "sv_read (\<lambda>io. pullUndelivered io u) ?st3 = (ms, st4)" by (metis surj_pair)
  have "same_sessions st (take_over cx s u st)"
    by (simp add: same_sessions_def take_over_def Let_def split: prod.split option.split)
  moreover have "same_sessions (take_over cx s u st) ?st1" by (rule sess.keeps_sendFriendInfo)
  moreover have "same_sessions ?st1 st2" using r by (rule sess.keeps_read)
  moreover have "same_sessions st2 ?st3"
    by (rule sess.keeps_fold) (use announce_friend_same in \<open>auto simp: same_users_def same_sessions_def\<close>)
  moreover have "same_sessions ?st3 st4" using p by (rule sess.keeps_read)
  moreover have "same_sessions st4 (fold (hand_over s u) ms st4)"
    by (rule sess.keeps_fold) (use hand_over_same in \<open>auto simp: same_users_def same_sessions_def\<close>)
  moreover have "same_sessions st5 (snd (sv_write w st5))" for w :: "sconn \<Rightarrow> unit \<times> sconn" and st5
    by (simp add: same_sessions_def sv_write_def split: prod.split)
  ultimately have "same_sessions st (deliver_pending s u ?st3)"
    using p unfolding deliver_pending_def Let_def by (auto simp: same_sessions_def)
  then show ?thesis using r by (simp add: activateSession_def Let_def)
qed

lemma chat_sessions: "same_sessions st (onChat E cx s x payload st)"
proof -
  have store: "same_sessions st1 (store_chat cx s rq a st1)" for rq a st1
    unfolding store_chat_def take_msgId_def Let_def
    by (auto simp: same_sessions_def deliverFailure_def sv_write_def split: prod.split)
  have "same_sessions st st'" if "sv_read q st = (b, st')" for q :: "read_io \<Rightarrow> server_db \<Rightarrow> bool" and b st'
    using that by (rule sess.keeps_read)
  then show ?thesis
    using store unfolding onChat_def
    by (auto simp: Let_def same_sessions_def deliverFailure_def split: option.split prod.split)
qed

lemma history_sessions:
  "same_sessions st (onConversations s x st)" "same_sessions st (onMessages E s x payload st)"
  unfolding onConversations_def onMessages_def
  by (auto simp: Let_def same_sessions_def split: option.split prod.split dest: sess.keeps_read [unfolded same_sessions_def])

text \<open>Only the two handlers for signing in change whose a session is.\<close>

lemma handler_users:
  assumes x: "sv_sessions st s = Some x" and h: "(p, h) \<in> set (routes E cx)"
  shows "user_of (h s x payload st) = user_of st \<or> h = onLogin E cx \<or> h = onTokenLogin E cx"
proof -
  have quiet: "user_of st' = user_of st" if "quiet st st'" for st'
    using that by (simp add: quiet_def)
  show ?thesis
    using h unfolding routes_def
    by (auto intro: quiet sess_user_of x chat_sessions history_sessions
        register_quiet onOffline_quiet heartbeat_quiet addFriend_quiet addReply_quiet
        requestList_quiet deleteFriend_quiet refresh_quiet logout_quiet onReply_quiet onCancel_quiet)
qed

section \<open>Passwords\<close>

definition password_fits :: "server_env \<Rightarrow> packet_ctx \<Rightarrow> user_row \<Rightarrow> string \<Rightarrow> bool" where
  "password_fits E cx u pass \<longleftrightarrow>
     (if u_algo u = ''argon2id'' then en_argon E (u_passwd u) pass
      else constantTimeStringEqual (sha256Hex (cx_junk cx) (u_salt u @ pass)) (u_passwd u))"

text \<open>
  The packet is a well-formed login request for an account whose password it has, signed with the
  key it names; and that device of the account had no key before, or this one.
\<close>

definition password_sign_in :: "server_env \<Rightarrow> packet_ctx \<Rightarrow> session \<Rightarrow> bytes \<Rightarrow> server \<Rightarrow> int \<Rightarrow> bool" where
  "password_sign_in E cx x payload st uid \<longleftrightarrow>
     (\<exists>rq u. en_login E payload = Some rq \<and> \<not> login_malformed x rq \<and> password_proof E x rq \<and>
        u \<in> set (db_users (sv_db st)) \<and> u_id u = uid \<and> u_tel u = cstr (lq_tel rq) \<and>
        password_fits E cx u (lq_pass rq) \<and>
        device_key uid (lq_device rq) (view (conn_of st)) \<in> {None, Some (lq_key rq)})"

lemma run_view:
  assumes "sq_run f c = (r, c')"
  shows "(r = None \<longrightarrow> view c' = view c) \<and> (\<forall>n. r = Some n \<longrightarrow> f (view c) = Some (n, view c'))"
proof -
  have sv: "view (set_view d c0) = d" for d and c0 :: "'a conn"
    by (simp add: view_def set_view_def split: option.split)
  show ?thesis
    using assms by (auto simp: sq_run_def sq_step_def sv split: prod.splits if_splits option.splits dest!: tick_view)
qed

lemma upgrade_devices:
  assumes "sq_run (upgrade_password uid up) c = (r, c')"
  shows "db_devices (view c') = db_devices (view c)"
proof -
  have "db_devices d' = db_devices d" if "upgrade_password uid up d = Some (n, d')" for d n d'
    using that by (auto simp: upgrade_password_def Let_def split: if_splits)
  then show ?thesis using run_view [OF assms] by (cases r) auto
qed

lemma login_success:
  assumes "loginUser (en_argon E) rehash (cx_junk cx) io tel pass u0 c = (LOGIN_SUCCESS, uid, c')"
  shows "\<exists>u \<in> set (db_users (cn_db c)). u_id u = uid \<and> u_tel u = cstr tel \<and> password_fits E cx u pass"
    and "db_devices (view c') = db_devices (view c)"
proof -
  show "\<exists>u \<in> set (db_users (cn_db c)). u_id u = uid \<and> u_tel u = cstr tel \<and> password_fits E cx u pass"
    using assms
    by (auto simp: loginUser_def password_fits_def split: if_splits option.splits dest!: fetch_one_in)
  have "db_devices (view (snd (sq_run (upgrade_password u up) c))) = db_devices (view c)" for u up
    using upgrade_devices [of u up c] by (metis surjective_pairing)
  then show "db_devices (view c') = db_devices (view c)"
    using assms by (auto simp: loginUser_def split: if_splits option.splits)
qed

lemma bind_key:
  assumes "bindDevicePublicKey uid dev key c = (True, c')"
  shows "device_key uid dev (view c) \<in> {None, Some key}"
proof -
  obtain n c1 k where r: "sq_run (insert_device uid dev key) c = (Some n, c1)"
      and q: "sq_query (device_key uid dev) c1 = (Some (Some k), c')"
      and k: "length k = length key" "constantTimeEqual k key"
    using assms by (auto simp: bindDevicePublicKey_def split: if_splits option.splits prod.splits)
  have ins: "insert_device uid dev key (view c) = Some (n, view c1)" using run_view [OF r] by simp
  have "device_key uid dev (view c1) = Some k" using query_fields [OF q] by simp
  moreover have "k = key" using k constantTimeEqual_iff by blast
  moreover have "view c1 = view c" if "device_key uid dev (view c) \<noteq> None"
    using ins that by (auto simp: insert_device_def device_key_def list_ex_iff find_None_iff split: if_splits)
  ultimately show ?thesis by (cases "device_key uid dev (view c)") auto
qed

lemma limit_allows_frame: "limit_allows cx x a st = (b, st') \<Longrightarrow> st' = st\<lparr>sv_limiter := sv_limiter st'\<rparr>"
  by (auto simp: limit_allows_def split: prod.splits)

text \<open>What \<open>finish_login\<close> does to the sessions.\<close>

lemma finish_login_users:
  assumes "user_of (finish_login E cx s x rq st) \<noteq> user_of st"
  shows "\<exists>uid u. user_of (finish_login E cx s x rq st) = (user_of st)(s \<mapsto> uid) \<and>
    u \<in> set (db_users (sv_db st)) \<and> u_id u = uid \<and> u_tel u = cstr (lq_tel rq) \<and>
    password_fits E cx u (lq_pass rq) \<and> device_key uid (lq_device rq) (view (conn_of st)) \<in> {None, Some (lq_key rq)}"
proof -
  obtain io st1 where r: "sv_read (\<lambda>io _. io) st = (io, st1)" by (metis surj_pair)
  obtain result uid c where l: "loginUser (en_argon E) (cx_hash cx) (cx_junk cx) io (lq_tel rq) (lq_pass rq) 0 (conn_of st1) = (result, uid, c)"
    by (metis prod_cases3)
  obtain ios where "st1 = st\<lparr>sv_reads := ios\<rparr>" using sv_readE [OF r] .
  then have st1: "conn_of st1 = conn_of st" "sv_db st1 = sv_db st" "user_of st1 = user_of st"
    by (simp_all add: conn_of_def user_of_def fun_eq_iff)
  have cp: "check_password E cx rq st = ((result, uid), set_conn c st1)"
    using r l by (simp add: check_password_def sv_write_def conn_of_def)
  obtain bound c2 where b: "bindDevicePublicKey uid (lq_device rq) (lq_key rq) c = (bound, c2)" by (metis surj_pair)
  obtain res ts where i: "issue (en_digest E) (cx_issue cx) (cx_now cx) uid (lq_device rq)
      (sv_tokens (set_conn c2 (set_conn c st1))) = (res, ts)" by (metis surj_pair)
  have same [simp]: "user_of (deliver q m st2) = user_of st2" "user_of (st2\<lparr>sv_tokens := t\<rparr>) = user_of st2"
    "user_of (st2\<lparr>sv_limiter := li\<rparr>) = user_of st2" "user_of (set_conn c0 st2) = user_of st2"
    "user_of (activateSession cx s0 u st2) = user_of st2" for q m st2 t li c0 s0 u
    using sess_user_of [OF activate_sessions] by (simp_all add: user_of_def fun_eq_iff)
  have ok: "result = LOGIN_SUCCESS \<and> bound \<and> (\<exists>p. res = Issued p)"
  proof (rule ccontr)
    assume "\<not> ?thesis"
    then have "user_of (finish_login E cx s x rq st) = user_of st1"
      using cp b i by (auto simp: finish_login_def sv_write_def limit_failure_def Let_def
          split: issue_result.split prod.splits)
    then show False using assms st1 by simp
  qed
  then have "user_of (finish_login E cx s x rq st) = (if sv_sessions st1 s = None then user_of st else (user_of st)(s \<mapsto> uid))"
    using cp b i by (auto simp: finish_login_def sv_write_def Let_def user_of_bind st1)
  then have "user_of (finish_login E cx s x rq st) = (user_of st)(s \<mapsto> uid)"
    using assms by (simp split: if_splits)
  moreover have "device_key uid (lq_device rq) (view c) = device_key uid (lq_device rq) (view (conn_of st))"
    using login_success(2) [of E "cx_hash cx" cx io _ _ _ "conn_of st1" uid c] l ok st1(1) by (simp add: device_key_def)
  ultimately show ?thesis
    using ok login_success(1) [of E "cx_hash cx" cx io "lq_tel rq" "lq_pass rq" 0 "conn_of st1" uid c] l st1
      bind_key [of uid "lq_device rq" "lq_key rq" c c2] b
    by (auto simp: conn_of_def sv_db_def)
qed

lemma login_needs_password:
  assumes "user_of (onLogin E cx s x payload st) \<noteq> user_of st"
  shows "\<exists>uid. user_of (onLogin E cx s x payload st) = (user_of st)(s \<mapsto> uid) \<and>
    se_user x \<le> 0 \<and> password_sign_in E cx x payload st uid"
proof -
  obtain rq where rq: "en_login E payload = Some rq"
    using assms by (cases "en_login E payload") (simp_all add: onLogin_def)
  obtain ip st1 where l1: "limit_allows cx x [] st = (ip, st1)" by (metis surj_pair)
  obtain pair st2 where l2: "limit_allows cx x (lq_tel rq) st1 = (pair, st2)" by (metis surj_pair)
  have same: "user_of st1 = user_of st" "user_of st2 = user_of st" "sv_db st2 = sv_db st" "conn_of st2 = conn_of st"
    "user_of (limit_failure cx x a st1) = user_of st" "user_of (deliver q m st3) = user_of st3" for a q m st3
    using limit_allows_frame [OF l1] limit_allows_frame [OF l2]
    by (metis conn_of_def limit_failure_def sess.keeps_limiter sess.keeps_notice sess_user_of server.surjective
        server.update_convs server.select_convs user_of_cong server_frames sv_db_frames)+
  have go: "onLogin E cx s x payload st = finish_login E cx s x rq st2 \<and> \<not> login_malformed x rq \<and> password_proof E x rq"
  proof (rule ccontr)
    assume "\<not> ?thesis"
    then have "user_of (onLogin E cx s x payload st) = user_of st"
      using rq l1 l2 by (auto simp: onLogin_def same)
    then show False using assms by simp
  qed
  then have "user_of (finish_login E cx s x rq st2) \<noteq> user_of st2" using assms same by simp
  from finish_login_users [OF this] show ?thesis
    using go rq same unfolding password_sign_in_def
    by (auto simp: login_malformed_def authenticated_def)
qed

section \<open>Tokens\<close>

text \<open>
  The packet has the access token of a session that is neither revoked nor expired, for the device it
  names, and is signed with the key stored for that device of the account.
\<close>

definition token_sign_in :: "server_env \<Rightarrow> packet_ctx \<Rightarrow> session \<Rightarrow> bytes \<Rightarrow> server \<Rightarrow> int \<Rightarrow> bool" where
  "token_sign_in E cx x payload st uid \<longleftrightarrow>
     (\<exists>rq r v. en_tokenLogin E payload = Some rq \<and> r \<in> set (db_auth (sv_db st)) \<and> ar_user r = uid \<and>
        ar_access r = tokenHash (en_digest E) (tl_access rq) \<and> \<not> ar_revoked r \<and> cx_now cx < ar_accessExp r \<and>
        ar_device r = tl_device rq \<and>
        v \<in> set (db_devices (sv_db st)) \<and> dv_user v = uid \<and> dv_device v = cstr (tl_device rq) \<and>
        verifyDevice E x ''token-login'' (tl_device rq) (bytes_of (tl_access rq)) (dv_key v) (tl_sig rq) False)"

lemma validate_row:
  assumes "validateAccess dg io now tok sid dev d = Some r"
  shows "r \<in> set (db_auth d) \<and> ar_access r = tokenHash dg tok \<and> \<not> ar_revoked r \<and> now < ar_accessExp r \<and> ar_device r = dev"
  using assms
  by (auto simp: validateAccess_def findByAccessHash_def dest!: fetch_one_in split: if_splits option.splits)

lemma device_row:
  assumes "getDevicePublicKey io uid dev d = Some k"
  shows "\<exists>v \<in> set (db_devices d). dv_user v = uid \<and> dv_device v = cstr dev \<and> dv_key v = k"
  using assms
  by (auto simp: getDevicePublicKey_def dest!: fetch_one_in split: if_splits option.splits)

lemma token_row_sign_in:
  assumes rq: "en_tokenLogin E payload = Some rq" and t: "token_login_row E cx x rq st = (Some r, st')"
  shows "token_sign_in E cx x payload st (ar_user r)"
proof -
  obtain io1 io2 k where v: "validateAccess (en_digest E) io1 (cx_now cx) (tl_access rq) [] (tl_device rq) (sv_db st) = Some r"
      and k: "getDevicePublicKey io2 (ar_user r) (tl_device rq) (sv_db st) = Some k"
      and s: "verifyDevice E x ''token-login'' (tl_device rq) (bytes_of (tl_access rq)) k (tl_sig rq) False"
    using t unfolding token_login_row_def
    by (auto split: if_splits prod.splits option.splits elim!: sv_readE) metis
  show ?thesis
    unfolding token_sign_in_def using rq validate_row [OF v] device_row [OF k] s by blast
qed

lemma token_login_needs_token:
  assumes x: "user_of (onTokenLogin E cx s x payload st) \<noteq> user_of st"
  shows "\<exists>uid. user_of (onTokenLogin E cx s x payload st) = (user_of st)(s \<mapsto> uid) \<and>
    se_user x \<le> 0 \<and> token_sign_in E cx x payload st uid"
proof -
  obtain rq where rq: "en_tokenLogin E payload = Some rq"
    using assms by (cases "en_tokenLogin E payload") (simp_all add: onTokenLogin_def)
  obtain row st1 where t: "token_login_row E cx x rq st = (row, st1)" by (metis surj_pair)
  have st1: "user_of st1 = user_of st" using token_row_quiet [OF t] by (simp add: quiet_def)
  have same [simp]: "user_of (deliver q m st2) = user_of st2" "user_of (activateSession cx s0 u st2) = user_of st2" for q m st2 s0 u
    using sess_user_of [OF activate_sessions] by (simp_all add: user_of_def fun_eq_iff)
  have "\<not> authenticated x" using assms rq by (auto simp: onTokenLogin_def)
  moreover obtain r where r: "row = Some r"
    using assms rq t st1 by (cases row) (auto simp: onTokenLogin_def)
  ultimately have "user_of (onTokenLogin E cx s x payload st) =
      (if sv_sessions st1 s = None then user_of st else (user_of st)(s \<mapsto> ar_user r))"
    using rq t by (simp add: onTokenLogin_def user_of_bind st1 Let_def)
  then have "user_of (onTokenLogin E cx s x payload st) = (user_of st)(s \<mapsto> ar_user r)"
    using assms by (simp split: if_splits)
  then show ?thesis
    using token_row_sign_in [OF rq t [unfolded r]] \<open>\<not> authenticated x\<close> by (auto simp: authenticated_def)
qed

section \<open>Steps\<close>

lemma proofs_touch [simp]:
  "password_sign_in E cx x payload (touch_user cx x st) uid \<longleftrightarrow> password_sign_in E cx x payload st uid"
  "token_sign_in E cx x payload (touch_user cx x st) uid \<longleftrightarrow> token_sign_in E cx x payload st uid"
  by (simp_all add: password_sign_in_def token_sign_in_def touch_user_def conn_of_def)

lemma packet_sign_in:
  assumes x: "sv_sessions st s = Some x" and new: "user_of (dispatchPacket E cx s x t payload st) \<noteq> user_of st"
  shows "\<exists>uid. user_of (dispatchPacket E cx s x t payload st) = (user_of st)(s \<mapsto> uid) \<and> se_user x \<le> 0 \<and>
    (password_sign_in E cx x payload st uid \<or> token_sign_in E cx x payload st uid)"
proof -
  let ?st = "touch_user cx x st"
  have same: "user_of ?st = user_of st" "user_of (sv_close s ?st) = user_of st"
    by (simp_all add: user_of_def fun_eq_iff)
  have d: "dispatchPacket E cx s x t payload st = dispatch E cx s x t payload ?st"
    using new same by (auto simp: dispatchPacket_def Let_def)
  then obtain m h where m: "router_build (routes E cx) [] = Some m" "map_of m t = Some h"
      and run: "dispatchPacket E cx s x t payload st = h s x payload ?st"
    using new same by (auto simp: dispatch_def split: option.splits)
  obtain p where p: "(p, h) \<in> set (routes E cx)" using router_build_routes [OF m] by auto
  have x': "sv_sessions ?st s = Some x" using x by simp
  have ne: "user_of (h s x payload ?st) \<noteq> user_of ?st" using new run same by simp
  then consider "h = onLogin E cx" | "h = onTokenLogin E cx" using handler_users [OF x' p] by blast
  then show ?thesis
  proof cases
    case 1
    then show ?thesis using login_needs_password [of E cx s x payload ?st] ne run same by auto
  next
    case 2
    then show ?thesis using token_login_needs_token [of E cx s x payload ?st] ne run same by auto
  qed
qed

end
