(* ===== verification/ServerProperties.thy ===== *)
theory ServerProperties
  imports ServerDemo ServerSignIn
begin

text \<open>
  What holds of the server as a whole, over the runs of \<open>ServerRuns\<close>: the well-formedness of its
  state, who is shown which message, that marked messages were handed over, and what it takes to sign in.
\<close>

section \<open>The state\<close>

text \<open>
  C8: the state is well-formed in every reachable state, whatever packets came and whatever SQLite
  calls failed: the message table is numbered per conversation without gaps or duplicates, device
  keys belong to users, session numbers are below the next one, and looking a user up in the presence
  map gives a live session that is signed in as that very user.
\<close>

theorem server_state_well_formed:
  assumes "server_reach E cfg st"
  shows "msgs_ok (sv_db st) \<and> (\<forall>v \<in> set (db_devices (sv_db st)). 0 < dv_user v) \<and>
    (\<forall>s. user_of st s \<noteq> None \<longrightarrow> s < sv_next st) \<and>
    (\<forall>u s. presence_get u st = Some s \<longrightarrow> 0 < u \<and> user_of st s = Some u)"
proof -
  have inv: "server_inv st" using assms by (rule reach_inv)
  then obtain L where "conn_ok (steady (log_ok L (sv_out st))) (conn_of st)" and p: "presence_ok st"
    by (auto simp: server_inv_def)
  then have "steady (log_ok L (sv_out st)) (sv_db st)" by (simp add: conn_ok_def conn_of_def sv_db_def)
  then show ?thesis
    using p presence_user [OF p] by (simp add: steady_log presence_ok_def)
qed

theorem server_state_well_formed_witness:
  "msgs_ok (sv_db demo_end) \<and> user_of demo_end 0 = Some 2 \<and> 0 < sv_next demo_end"
  using server_state_well_formed [OF demo_reach] demo_facts by fastforce

section \<open>Messages\<close>

text \<open>
  C4: messages are shown to those they belong to. Whatever step the server takes in a reachable
  state, a new message is sent only to a session that is signed in as its receiver, and history
  only to a session of one of the two users of the conversation, even when a client asks with a peer
  number of its own making.
\<close>

theorem chat_confidential:
  assumes "server_reach E cfg st" and "server_step E st st'"
  shows "\<exists>ev. sv_out st' = sv_out st @ ev \<and> list_all (event_ok (user_of st')) ev"
  using step_ok [OF assms(2) reach_inv [OF assms(1)]] by blast

theorem chat_confidential_witness:
  "list_all (event_ok (user_of demo_end)) (sv_out demo_end)"
proof -
  have "sv_out demo_start = []" by (simp add: demo_start_def accept_session_def server_new_def)
  then show ?thesis using chat_confidential [OF demo_start_reach demo_login_step] by simp
qed



text \<open>
  A session that was told to close is still given messages: they are marked delivered, and its strand
  drops them. Here a client says it goes offline and, on the same connection, signs in: the first
  packet closes the session, and the second, which the server had read before, hands the waiting
  message over to it.
\<close>

definition parting_env :: server_env where
  "parting_env = demo_env\<lparr>en_offline := (\<lambda>p. Some 2)\<rparr>"

definition demo_closed :: server where
  "demo_closed = dispatchPacket parting_env demo_ctx 0 demo_session (prot_num LOGIN_RQ) [7]
     (dispatchPacket parting_env demo_ctx 0 demo_session (prot_num FRIEND_OFFLINE) [] demo_start)"

theorem closed_session_takes_messages:
  "server_reach parting_env default_config demo_closed \<and>
   map (\<lambda>r. (sm_msgId (mr_msg r), mr_delivered r)) (db_messages (sv_db demo_closed)) = [(''m1'', True)] \<and>
   strand_frames 0 (sv_out demo_closed) = []"
proof -
  have "sv_sessions demo_start 0 = Some demo_session"
    by (simp add: demo_start_def demo_session_def accept_session_def server_new_def)
  moreover have "sv_sessions (dispatchPacket parting_env demo_ctx 0 demo_session (prot_num FRIEND_OFFLINE) [] demo_start) 0 =
      Some demo_session"
    by code_simp
  moreover have "server_reach parting_env default_config demo_start"
    unfolding demo_start_def
    by (rule server_reach.Step [OF server_reach.Start [OF demo_ready] server_step.Accepted])
  ultimately have "server_reach parting_env default_config demo_closed"
    unfolding demo_closed_def by (meson server_reach.Step server_step.Packet)
  moreover have "(map (\<lambda>r. (sm_msgId (mr_msg r), mr_delivered r)) (db_messages (sv_db demo_closed)),
      strand_frames 0 (sv_out demo_closed)) = ([(''m1'', True)], [])"
    by code_simp
  ultimately show ?thesis by simp
qed

definition shown_to :: "nat \<Rightarrow> server_event list \<Rightarrow> chat_info list" where
  "shown_to s ev = concat (map (\<lambda>e. case e of Deliver q m \<Rightarrow> if q = s then displays m else [] | _ \<Rightarrow> []) ev)"

lemma shown_to_append [simp]: "shown_to s (xs @ ys) = shown_to s xs @ shown_to s ys"
  by (simp add: shown_to_def)

lemma shown_to_Nil [simp]: "shown_to s [] = []"
  by (simp add: shown_to_def)

lemma shown_to_quiet: "list_all is_quiet ev \<Longrightarrow> shown_to s ev = []"
  by (induction ev) (auto simp: shown_to_def is_quiet_def split: server_event.splits)

lemma hand_over_shows:
  "\<exists>ev. sv_out (hand_over s u m st) = sv_out st @ ev \<and> shown_to q ev = (if q = s then [fillChatInfo m] else [])"
  by (auto simp: hand_over_def shown_to_def Let_def split: option.split)

lemma hand_all_shows:
  "\<exists>ev. sv_out (fold (hand_over s u) ms st) = sv_out st @ ev \<and> shown_to q ev = (if q = s then map fillChatInfo ms else [])"
proof (induction ms arbitrary: st)
  case (Cons m ms)
  obtain ev1 where 1: "sv_out (hand_over s u m st) = sv_out st @ ev1" "shown_to q ev1 = (if q = s then [fillChatInfo m] else [])"
    using hand_over_shows by blast
  obtain ev2 where "sv_out (fold (hand_over s u) ms (hand_over s u m st)) = sv_out (hand_over s u m st) @ ev2"
      "shown_to q ev2 = (if q = s then map fillChatInfo ms else [])"
    using Cons.IH by blast
  then show ?case using 1 by (intro exI [of _ "ev1 @ ev2"]) simp
qed simp

text \<open>Reads that do not fail.\<close>

lemma info_reads: "sv_reads st = [] \<Longrightarrow> sv_reads (sendFriendInfo to u status st) = []"
  by (simp add: sendFriendInfo_def sv_read_ok split: option.split)

lemma announce_reads: "sv_reads st = [] \<Longrightarrow> sv_reads (fold (announce_friend s u) fs st) = []"
  by (induction fs arbitrary: st) (auto simp: announce_friend_def Let_def info_reads split: option.split)

lemma deliver_pending_all:
  fixes s :: nat and u :: int
  assumes reads: "sv_reads st = []"
  defines "ms \<equiv> pullUndelivered read_ok u (sv_db st)" and "st' \<equiv> deliver_pending s u st"
  shows "\<exists>ev. sv_out st' = sv_out st @ ev \<and> shown_to q ev = (if q = s then map fillChatInfo ms else [])"
    and "conn_of st' = markDelivered (map sm_msgId ms) (conn_of st)"
proof -
  let ?st1 = "fold (hand_over s u) ms st"
  have st': "st' = set_conn (markDelivered (map sm_msgId ms) (conn_of ?st1)) ?st1"
    using reads by (simp add: st'_def ms_def deliver_pending_def sv_read_ok sv_write_def conn_of_def Let_def)
  have "same_users st ?st1"
    by (rule same.keeps_fold) (rule hand_over_same)
  then have "conn_of ?st1 = conn_of st" by (simp add: same_users_def conn_of_def)
  then show "conn_of st' = markDelivered (map sm_msgId ms) (conn_of st)"
    by (simp add: st' conn_of_def)
  show "\<exists>ev. sv_out st' = sv_out st @ ev \<and> shown_to q ev = (if q = s then map fillChatInfo ms else [])"
    using hand_all_shows by (simp add: st')
qed

lemma mark_all_gone:
  fixes u :: int
  assumes idle: "cn_txn c = None" "cn_script c = []"
    and cut: "list_all (\<lambda>r. cstr (sm_msgId (mr_msg r)) = sm_msgId (mr_msg r)) (db_messages (cn_db c))"
  defines "ms \<equiv> pullUndelivered read_ok u (cn_db c)"
  shows "pullUndelivered read_ok u (cn_db (markDelivered (map sm_msgId ms) c)) = []"
proof -
  let ?d = "cn_db (markDelivered (map sm_msgId ms) c)"
  have rows: "db_messages ?d = map (mark_row (set (map sm_msgId ms))) (db_messages (cn_db c))"
    using mark_marks [OF idle(1), of "map sm_msgId ms"] idle(2) by auto
  have gone: "mr_delivered (mark_row (set (map sm_msgId ms)) r)"
    if "r \<in> set (db_messages (cn_db c))" "sm_receiver (mr_msg r) = u" for r
  proof (cases "mr_delivered r")
    case False
    then have "mr_msg r \<in> set ms"
      using that by (auto simp: ms_def pullUndelivered_def undelivered_def)
    moreover have "cstr (sm_msgId (mr_msg r)) = sm_msgId (mr_msg r)"
      using cut that(1) by (simp add: list_all_iff)
    ultimately have "sm_msgId (mr_msg r) \<in> cstr ` set (map sm_msgId ms)"
      by (metis image_eqI list.set_map)
    then show ?thesis by (simp add: mark_row_def)
  qed (simp add: mark_row_def)
  then have "filter (\<lambda>r. sm_receiver (mr_msg r) = u \<and> \<not> mr_delivered r) (db_messages ?d) = []"
    unfolding rows filter_empty_conv set_map by simp
  then show ?thesis by (simp add: pullUndelivered_def undelivered_def)
qed

text \<open>
  C9: signing in hands over everything that waited. When no call of SQLite fails, the session that
  signs in is sent exactly the user's undelivered messages, oldest first; nothing is shown to
  anybody else; and none of the user's messages is left undelivered.
\<close>

theorem sign_in_hands_over:
  fixes s :: nat and u :: int and cx :: packet_ctx
  assumes "sv_reads st = []" and "cn_txn (conn_of st) = None" and "cn_script (conn_of st) = []"
    and "list_all (\<lambda>r. cstr (sm_msgId (mr_msg r)) = sm_msgId (mr_msg r)) (db_messages (sv_db st))"
  defines "st' \<equiv> activateSession cx s u st"
  shows "\<exists>ev. sv_out st' = sv_out st @ ev \<and>
    shown_to q ev = (if q = s then map fillChatInfo (pullUndelivered read_ok u (sv_db st)) else []) \<and>
    pullUndelivered read_ok u (sv_db st') = []"
proof -
  let ?st0 = "take_over cx s u st" and ?friends = "getFriends read_ok u (sv_db st)"
  let ?st1 = "sendFriendInfo s u STATUS_ONLINE ?st0"
  let ?st2 = "fold (announce_friend s u) (map u_id ?friends) ?st1"
  have t0: "sv_reads ?st0 = []" "sv_tokens ?st0 = sv_tokens st"
    using assms(1) by (simp_all add: take_over_def Let_def closeAfterWrite_def split: prod.split option.split)
  have r1: "sv_reads ?st1 = []" using t0(1) by (rule info_reads)
  have s1: "same_users ?st0 ?st1" by (rule same.keeps_sendFriendInfo)
  have s2: "same_users ?st1 ?st2" by (rule same.keeps_fold) (rule announce_friend_same)
  have tok: "sv_tokens ?st1 = sv_tokens st" "sv_tokens ?st2 = sv_tokens st"
    using s1 s2 t0 by (simp_all add: same_users_def)
  have st': "st' = deliver_pending s u ?st2"
    using r1 tok(1) by (simp add: st'_def activateSession_def Let_def sv_read_ok sv_db_def)
  have same: "conn_of ?st2 = conn_of st" "sv_db ?st2 = sv_db st"
    using tok by (simp_all add: conn_of_def sv_db_def)
  have q0: "quiet (st\<lparr>sv_presence := sv_presence ?st0\<rparr>) ?st0"
    by (auto simp: take_over_def Let_def split: prod.split option.split intro!: quiet_caw quiet_deliver)
  have "quiet ?st1 ?st2" by (rule quiet.keeps_fold) (rule announce_friend_quiet)
  then have "quiet (st\<lparr>sv_presence := sv_presence ?st0\<rparr>) ?st2"
    by (rule quiet_trans [OF quiet_info [OF q0]])
  then obtain ev0 where ev0: "sv_out ?st2 = sv_out st @ ev0" "list_all is_quiet ev0"
    unfolding quiet_def by auto
  have "sv_reads ?st2 = []" using r1 by (rule announce_reads)
  note pend = deliver_pending_all [OF this, where u = u and s = s]
  obtain ev1 where ev1: "sv_out st' = sv_out ?st2 @ ev1"
      "shown_to q ev1 = (if q = s then map fillChatInfo (pullUndelivered read_ok u (sv_db st)) else [])"
    using pend(1) [where q = q] unfolding st' same by blast
  have "pullUndelivered read_ok u (sv_db st') = []"
    using pend(2) mark_all_gone [of "conn_of st" u] assms(2-4) unfolding st' same
    by (simp add: sv_db_def conn_of_def)
  then show ?thesis
    using ev0 ev1 by (intro exI [of _ "ev0 @ ev1"]) (simp add: shown_to_quiet)
qed

theorem sign_in_hands_over_witness:
  "\<exists>ev. sv_out (activateSession demo_ctx 0 2 demo_start) = ev \<and>
     shown_to 0 ev = [fillChatInfo ((text_message ''m1'' 1 2 ''hi'' 50)\<lparr>sm_seq := 1\<rparr>)]"
proof -
  let ?m = "(text_message ''m1'' 1 2 ''hi'' 50)\<lparr>sm_seq := 1\<rparr>"
  have d: "sv_db demo_start = demo_db" "sv_out demo_start = []"
    by (simp_all add: demo_start_def accept_session_def server_new_def sconn_new_def sv_db_def)
  have m: "map mr_msg (db_messages demo_db) = [?m]" "pullUndelivered read_ok 2 demo_db = [?m]"
    by (simp_all add: demo_db_def empty_db_def pullUndelivered_def undelivered_def text_message_def)
  have "list_all (\<lambda>r. cstr (sm_msgId (mr_msg r)) = sm_msgId (mr_msg r)) (db_messages demo_db)"
    by (simp add: demo_db_def empty_db_def text_message_def cstr_def)
  then show ?thesis
    using sign_in_hands_over [of demo_start demo_ctx 0 2 0] d m
    by (simp add: demo_start_def accept_session_def server_new_def sconn_new_def conn_of_def)
qed

section \<open>Signing in\<close>

text \<open>
  C7: nobody becomes a user without proof. When a step of the server in a reachable state changes
  whose a session is, the session belonged to nobody, and the step handled a packet of that very
  session with a password login or a token login: the account's password and a signature with the
  key in the request, which is the one its device is bound to if the device was bound before; or a
  valid access token and a signature with the key bound to that device.
\<close>

theorem authentication_sound:
  assumes "server_reach E cfg st" and step: "server_step E st st'"
    and old: "user_of st s = Some u0" and new: "user_of st' s = Some u" and "u \<noteq> u0"
  shows "u0 \<le> 0 \<and> (\<exists>cx x t payload. sv_sessions st s = Some x \<and> st' = dispatchPacket E cx s x t payload st \<and>
    (password_sign_in E cx x payload st u \<or> token_sign_in E cx x payload st u))"
proof -
  have quiet: False if "quiet st st'" using that assms(3-5) by (simp add: quiet_def)
  from step show ?thesis
  proof cases
    case (Accepted app peer)
    have "s < sv_next st" using reach_inv [OF assms(1)] old by (auto simp: server_inv_def presence_ok_def)
    then show ?thesis using assms(3-5) Accepted by (simp add: accept_users)
  next
    case (Packet q x cx t payload)
    then obtain uid where p: "user_of st' = (user_of st)(q \<mapsto> uid)" "se_user x \<le> 0"
        "password_sign_in E cx x payload st uid \<or> token_sign_in E cx x payload st uid"
      using packet_sign_in [of st q x E cx t payload] assms(3-5) by fastforce
    then have "q = s" "uid = u" using assms(3-5) by (auto split: if_splits)
    then show ?thesis using p Packet old by (auto simp: user_of_def)
  next
    case (Destroyed q)
    then show ?thesis using assms(3-5) by (auto simp: destroy_session_def user_of_def split: if_splits)
  next
    case (Restarted cfg script reads)
    then show ?thesis using new by (simp add: restart_def server_new_def user_of_def)
  next
    case (AiBegins job)
    then show ?thesis using quiet ai_begin_quiet by (metis surjective_pairing)
  next
    case (Uploaded fid r)
    then show ?thesis using quiet quiet_same [of st' st "[]"] by simp
  qed (use quiet closed_quiet announce_offline_quiet hbScan_quiet ai_end_quiet in blast)+
qed

theorem authentication_sound_witness:
  "\<exists>cx x t payload. demo_end = dispatchPacket demo_env cx 0 x t payload demo_start \<and>
     password_sign_in demo_env cx x payload demo_start 2"
proof -
  have old: "user_of demo_start 0 = Some 0"
    by (simp add: demo_start_def accept_users server_new_def)
  have no_token: "\<not> token_sign_in demo_env cx x payload demo_start 2" for cx x payload
    by (simp add: token_sign_in_def demo_env_def)
  show ?thesis
    using authentication_sound [OF demo_start_reach demo_login_step old demo_facts(3)] no_token by auto
qed

text \<open>
  C38: a refresh token that is not the current one of any session is refused before anything else
  happens: nothing is written, nobody is signed out, and no answer of the token cache is given. So
  neither the revocation of the family of a replayed token nor the idempotent retry, which
  \<open>rotateRefresh\<close> implements, is reached through the handler.
\<close>

theorem spent_refresh_only_refused:
  assumes "en_refresh E payload = Some rq"
    and "list_all (\<lambda>r. ar_refresh r \<noteq> tokenHash (en_digest E) (rf_refresh rq)) (db_auth (sv_db st))"
  shows "\<exists>ios. onTokenRefresh E cx s x payload st = deliver s (MsgRefreshRs refresh_reject) (st\<lparr>sv_reads := ios\<rparr>)"
proof -
  obtain row st1 where r: "sv_read (\<lambda>io. findByRefreshHash io (tokenHash (en_digest E) (rf_refresh rq))) st = (row, st1)"
    by (metis surj_pair)
  obtain io ios where rd: "row = findByRefreshHash io (tokenHash (en_digest E) (rf_refresh rq)) (sv_db st)"
      "st1 = st\<lparr>sv_reads := ios\<rparr>"
    using sv_readE [OF r] .
  have "filter (\<lambda>r. ar_refresh r = tokenHash (en_digest E) (rf_refresh rq)) (db_auth (sv_db st)) = []"
    using assms(2) by (simp add: filter_empty_conv list_all_iff)
  then have "row = None" by (simp add: rd findByRefreshHash_def)
  then have "device_of_refresh E x op (rf_refresh rq) dev cred sig st = (None, st\<lparr>sv_reads := ios\<rparr>)" for op dev cred sig
    using r rd(2) by (simp add: device_of_refresh_def)
  then have "refresh_proof E x rq st = (None, st\<lparr>sv_reads := sv_reads st\<rparr>) \<or>
      refresh_proof E x rq st = (None, st\<lparr>sv_reads := ios\<rparr>)"
    by (simp add: refresh_proof_def)
  then obtain ios' where "refresh_proof E x rq st = (None, st\<lparr>sv_reads := ios'\<rparr>)" by blast
  then show ?thesis using assms(1) by (auto simp: onTokenRefresh_def)
qed

theorem spent_refresh_only_refused_witness:
  "\<exists>ios. onTokenRefresh (demo_env\<lparr>en_refresh := (\<lambda>_. Some \<lparr>rf_refresh = ''old'', rf_device = ''d'', rf_request = ''q'', rf_sig = [1]\<rparr>)\<rparr>)
      demo_ctx 0 demo_session [] demo_start = deliver 0 (MsgRefreshRs refresh_reject) (demo_start\<lparr>sv_reads := ios\<rparr>)"
proof -
  have "db_auth (sv_db demo_start) = []"
    by (simp add: demo_start_def accept_session_def server_new_def sv_db_def sconn_new_def demo_db_def empty_db_def)
  then show ?thesis by (intro spent_refresh_only_refused) simp_all
qed

definition open_to_all :: "prot list" where
  "open_to_all = [REGISTER_RQ, LOGIN_RQ, TOKEN_LOGIN_RQ, TOKEN_REFRESH_RQ, LOGOUT_RQ, FRIEND_OFFLINE]"

text \<open>Nothing but the scripts of the reads moves, and nothing is shown.\<close>

definition calm :: "server \<Rightarrow> server \<Rightarrow> bool" where
  "calm st st' \<longleftrightarrow> sv_tokens st' = sv_tokens st \<and> sv_sessions st' = sv_sessions st \<and>
     sv_presence st' = sv_presence st \<and> sv_ai st' = sv_ai st \<and>
     (\<exists>ev. sv_out st' = sv_out st @ ev \<and> list_all is_quiet ev)"

lemma calm_refl: "calm st st"
  by (simp add: calm_def)

lemma calm_deliver: "displays m = [] \<Longrightarrow> calm st (deliver s m st)"
  by (simp add: calm_def)

lemma outsider_calm:
  assumes "(p, h) \<in> set (routes E cx)" and "p \<notin> set open_to_all" and x: "se_user x \<le> 0"
  shows "calm st (h s x payload st)"
proof -
  have "calm st (onDeleteFriend E s x payload st)"
    using x unfolding onDeleteFriend_def Let_def
    by (auto split: option.split prod.split intro: calm_refl elim!: sv_readE) (auto simp: calm_def)
  then show ?thesis
    using assms unfolding routes_def open_to_all_def
    by (auto simp: onReply_def onCancel_def onChat_def onAddFriend_def onAddFriendReply_def onFriendRequestList_def
        onConversations_def onMessages_def onHeartbeat_def touch_user_def sendResult_def
        split: option.split intro!: calm_deliver calm_refl)
qed

text \<open>
  C22: a connection that nobody has signed in on can do no more than register, sign in, and refresh
  or sign out with a token. Every other packet leaves the tables, the tokens, the sessions, the
  presence map and the AI queue as they were, and shows no message to anybody.
\<close>

theorem unauthenticated_refused:
  fixes x :: session and st :: server
  assumes "se_user x \<le> 0" and "t \<notin> set (map prot_num open_to_all)"
  shows "calm st (dispatchPacket E cx s x t payload st)"
proof -
  have "calm st (h s x payload st)" if m: "router_build (routes E cx) [] = Some m" "map_of m t = Some h" for m h
  proof -
    obtain p where p: "(p, h) \<in> set (routes E cx)" "prot_num p = t" using router_build_routes [OF m] by auto
    then have "p \<notin> set open_to_all" using assms(2) by auto
    then show ?thesis using outsider_calm [OF p(1)] assms(1) by blast
  qed
  then show ?thesis
    using assms(1)
    by (auto simp: dispatchPacket_def dispatch_def touch_user_def access_expired_def authenticated_def
        split: option.split intro: calm_refl)
qed

theorem unauthenticated_refused_witness:
  "calm demo_start (dispatchPacket demo_env demo_ctx 0 demo_session (prot_num CHAT_INFO_RQ) [7] demo_start)"
  by (rule unauthenticated_refused)
    (simp_all add: demo_session_def new_session_def open_to_all_def prot_num_inject)

section \<open>Who writes messages\<close>

lemma insert_rows:
  "insert_message conv delivered m d = Some (n, d') \<Longrightarrow>
   map mr_msg (db_messages d') = map mr_msg (db_messages d) @ [bind_message m]"
  by (auto simp: insert_message_def split: if_splits)

lemma save_rows:
  assumes "saveMessage m delivered c = (b, m', c')"
  shows "map mr_msg (db_messages (cn_db c')) = map mr_msg (db_messages (cn_db c)) \<or>
    (\<exists>s. map mr_msg (db_messages (cn_db c')) = map mr_msg (db_messages (cn_db c)) @ [bind_message (m\<lparr>sm_seq := s\<rparr>)])"
proof (cases "cn_txn c = None")
  case True
  from save_cases [OF assms True] show ?thesis using insert_rows by fastforce
next
  case False
  then show ?thesis using save_busy [OF assms] by simp
qed

definition upload_of :: "int \<Rightarrow> stored_message \<Rightarrow> server \<Rightarrow> bool" where
  "upload_of u m st \<longleftrightarrow>
     (\<exists>fid r. sv_uploads st fid = Some r \<and> ur_uploader r = u \<and> ur_receiver r = sm_receiver m \<and>
        sm_mediaPath m = cstr (ur_path r) \<and> sm_fileSize m = ur_size r)"

lemma own_upload_Some:
  "own_upload u rid fid st = Some r \<Longrightarrow> sv_uploads st fid = Some r \<and> ur_uploader r = u \<and> ur_receiver r = rid"
  by (auto simp: own_upload_def findUploadRecord_def split: option.splits if_splits)

lemma claim_thumb_fields:
  "claim_thumb rq a st = Some (rq', a') \<Longrightarrow> ci_my rq' = ci_my rq \<and> ci_friend rq' = ci_friend rq \<and>
     ci_type rq' = ci_type rq \<and> at_path a' = at_path a \<and> at_size a' = at_size a"
  by (auto simp: claim_thumb_def split: option.splits if_splits)

lemma claim_large_fields:
  "claim_large rq a st = Some (rq', a') \<Longrightarrow> ci_my rq' = ci_my rq \<and> ci_friend rq' = ci_friend rq \<and>
     ci_type rq' = ci_type rq \<and> at_path a' = at_path a \<and> at_size a' = at_size a"
  by (auto simp: claim_large_def split: option.splits if_splits)

lemma claim_files_fields:
  assumes "claim_files rq st = Some (rq', a)"
  shows "ci_my rq' = ci_my rq \<and> ci_friend rq' = ci_friend rq \<and>
    (if ci_type rq' = TYPE_IMAGE \<or> ci_type rq' = TYPE_FILE
     then \<exists>fid r. own_upload (ci_my rq) (ci_friend rq) fid st = Some r \<and> at_path a = ur_path r \<and> at_size a = ur_size r
     else at_path a = [])"
  using assms
  by (auto simp: claim_files_def Let_def split: option.splits if_splits
      dest!: claim_thumb_fields claim_large_fields) blast+

text \<open>
  C10: a chat packet stores at most one message, only under the name of the user of its session and
  only to a friend of that user; a message that is not text keeps the path and the size of an upload
  which this user made for this friend. It holds whatever the client puts into the packet and
  whatever SQLite calls fail.
\<close>

theorem chat_sender_authentic:
  "\<exists>new. map mr_msg (db_messages (sv_db (onChat E cx s x payload st))) = map mr_msg (db_messages (sv_db st)) @ new \<and>
     length new \<le> 1 \<and>
     list_all (\<lambda>m. sm_sender m = se_user x \<and> 0 < se_user x \<and> (se_user x, sm_receiver m) \<in> set (db_friends (sv_db st)) \<and>
       (if sm_type m = 0 then sm_mediaPath m = [] else upload_of (se_user x) m st)) new"
proof -
  let ?ok = "\<lambda>m. sm_sender m = se_user x \<and> 0 < se_user x \<and> (se_user x, sm_receiver m) \<in> set (db_friends (sv_db st)) \<and>
       (if sm_type m = 0 then sm_mediaPath m = [] else upload_of (se_user x) m st)"
  have none: ?thesis if "sv_db (onChat E cx s x payload st) = sv_db st"
    using that by (intro exI [of _ "[]"]) simp
  show ?thesis
  proof (cases "en_chat E payload = None \<or> se_user x \<le> 0")
    case True
    then show ?thesis by (intro none) (auto simp: onChat_def split: option.split)
  next
    case False
    then obtain rq0 where rq0: "en_chat E payload = Some rq0" by auto
    define rq where "rq = rq0\<lparr>ci_my := se_user x\<rparr>"
    obtain b st1 where r: "sv_read (\<lambda>io. isFriend io (se_user x) (ci_friend rq)) st = (b, st1)" by (metis surj_pair)
    obtain io ios where rd: "b = isFriend io (se_user x) (ci_friend rq) (sv_db st)" "st1 = st\<lparr>sv_reads := ios\<rparr>"
      using sv_readE [OF r] .
    have run: "onChat E cx s x payload st = (if \<not> b then deliverFailure s rq CHAT_RESULT_NOT_FRIEND st1
        else case claim_files rq st1 of None \<Rightarrow> deliverFailure s rq CHAT_RESULT_FILE_NOT_OWNED st1
          | Some (rq, a) \<Rightarrow> store_chat cx s rq a st1)"
      using False rq0 r by (simp add: onChat_def Let_def flip: rq_def)
    show ?thesis
    proof (cases "b \<and> claim_files rq st1 \<noteq> None")
      case True
      then obtain rq1 a where c: "claim_files rq st1 = Some (rq1, a)" by auto
      note f = claim_files_fields [OF c]
      obtain mid st2 where t: "take_msgId cx rq1 st1 = (mid, st2)" by (metis surj_pair)
      let ?m = "chat_message cx mid rq1 a" and ?on = "presence_get (ci_friend rq1) st2 \<noteq> None"
      obtain saved m c where w: "saveMessage ?m ?on (conn_of st2) = (saved, m, c)" by (metis prod_cases3)
      have st2: "conn_of st2 = conn_of st"
        using t by (auto simp: take_msgId_def rd conn_of_def split: if_splits)
      have db: "sv_db (onChat E cx s x payload st) = cn_db c"
        using t w True c unfolding run by (simp add: store_chat_def sv_write_def conn_of_def Let_def deliverFailure_def
            forward_chat_def sv_db_def split: prod.split option.split)
      have friend: "(se_user x, ci_friend rq) \<in> set (db_friends (sv_db st))"
        using True unfolding rd isFriend_def by (auto dest!: fetch_one_in)
      have ok: "?ok (bind_message (?m\<lparr>sm_seq := q\<rparr>))" for q
      proof (cases "ci_type rq1 = TYPE_IMAGE \<or> ci_type rq1 = TYPE_FILE")
        case True
        then obtain fid u where "own_upload (ci_my rq) (ci_friend rq) fid st1 = Some u" "at_path a = ur_path u" "at_size a = ur_size u"
          using f by auto
        then have "upload_of (se_user x) (bind_message (?m\<lparr>sm_seq := q\<rparr>)) st"
          using f own_upload_Some [of _ _ fid st1 u]
          by (auto simp: upload_of_def rd rq_def chat_message_def bind_message_def)
        moreover have "sm_type (bind_message (?m\<lparr>sm_seq := q\<rparr>)) \<noteq> 0"
          using True by (auto simp: chat_message_def bind_message_def)
        ultimately show ?thesis using f friend False by (simp add: rq_def)
      next
        case no: False
        then have "sm_type (bind_message (?m\<lparr>sm_seq := q\<rparr>)) = 0" "sm_mediaPath (bind_message (?m\<lparr>sm_seq := q\<rparr>)) = []"
          using f by (simp_all add: chat_message_def bind_message_def)
        then show ?thesis using f friend False by (simp add: rq_def)
      qed
      from save_rows [OF w] consider "map mr_msg (db_messages (cn_db c)) = map mr_msg (db_messages (sv_db st))"
        | q where "map mr_msg (db_messages (cn_db c)) = map mr_msg (db_messages (sv_db st)) @ [bind_message (?m\<lparr>sm_seq := q\<rparr>)]"
        unfolding st2 by (auto simp: conn_of_def sv_db_def)
      then show ?thesis
      proof cases
        case 1
        then show ?thesis unfolding db by (intro exI [of _ "[]"]) simp
      next
        case (2 q)
        then show ?thesis
          unfolding db using ok [of q] by (intro exI [of _ "[bind_message (?m\<lparr>sm_seq := q\<rparr>)]"]) simp
      qed
    qed (use run in \<open>auto intro!: none simp: deliverFailure_def rd split: option.splits\<close>)
  qed
qed

end
