(* ===== verification/ServerAi.thy ===== *)
theory ServerAi
  imports ServerRuns
begin

text \<open>
  The places of the AI handler (\<^verbatim>\<open>handlers/AiHandler.cpp\<close>) over the runs of the server: every place taken
  belongs to a job that is queued or waits for the model service, one per user, and is given back
  when the job ends, however it ends.
\<close>

section \<open>The other handlers leave the AI queue alone\<close>

lemma read_ai: "sv_read q st = (r, st') \<Longrightarrow> sv_ai st' = sv_ai st"
  by (erule sv_readE) simp

lemma write_ai: "sv_write w st = (r, st') \<Longrightarrow> sv_ai st' = sv_ai st"
  by (erule sv_writeE) simp

lemma snd_write_ai [simp]: "sv_ai (snd (sv_write w st)) = sv_ai st"
  by (simp add: sv_write_def split: prod.split)

lemma fold_ai: "(\<And>x st. sv_ai (f x st) = sv_ai st) \<Longrightarrow> sv_ai (fold f xs st) = sv_ai st"
  by (induction xs arbitrary: st) auto

lemma info_ai [simp]: "sv_ai (sendFriendInfo to u status st) = sv_ai st"
  by (auto simp: sendFriendInfo_def split: prod.split option.split dest: read_ai)

lemmas ai_frames = read_ai write_ai

lemma small_ai [simp]:
  "sv_ai (announce_friend s u f st) = sv_ai st" "sv_ai (hand_over s u m st) = sv_ai st"
  "sv_ai (take_over cx s u st) = sv_ai st" "sv_ai (touch_user cx x st) = sv_ai st"
  "sv_ai (send_friend s f st) = sv_ai st" "sv_ai (tell_offline u f st) = sv_ai st"
  "sv_ai (kick_user u st) = sv_ai st" "sv_ai (limit_failure cx x a st) = sv_ai st"
  "sv_ai (deliverFailure s rq res st) = sv_ai st" "sv_ai (consume_uploads m att st) = sv_ai st"
  "sv_ai (forward_chat s rq m t st) = sv_ai st"
  by (auto simp: announce_friend_def hand_over_def take_over_def touch_user_def send_friend_def tell_offline_def
      kick_user_def limit_failure_def deliverFailure_def consume_uploads_def eraseUploadRecord_def forward_chat_def
      Let_def split: option.split prod.split)

lemma pending_ai [simp]: "sv_ai (deliver_pending s u st) = sv_ai st"
  by (auto simp: deliver_pending_def Let_def fold_ai split: prod.split dest: ai_frames)

lemma activate_ai [simp]: "sv_ai (activateSession cx s u st) = sv_ai st"
  by (auto simp: activateSession_def Let_def fold_ai split: prod.split dest: ai_frames)

lemma allows_ai: "limit_allows cx x a st = (b, st') \<Longrightarrow> sv_ai st' = sv_ai st"
  by (auto simp: limit_allows_def split: prod.splits)

lemma password_ai: "check_password E cx rq st = (r, st') \<Longrightarrow> sv_ai st' = sv_ai st"
  by (auto simp: check_password_def split: prod.splits dest!: ai_frames)

lemma row_ai: "token_login_row E cx x rq st = (r, st') \<Longrightarrow> sv_ai st' = sv_ai st"
  by (auto simp: token_login_row_def split: prod.splits option.splits if_splits dest!: ai_frames)

lemma refresh_device_ai: "device_of_refresh E x op tok dev cred sig st = (r, st') \<Longrightarrow> sv_ai st' = sv_ai st"
  by (auto simp: device_of_refresh_def split: prod.splits option.splits if_splits dest!: ai_frames)

lemma refresh_proof_ai: "refresh_proof E x rq st = (r, st') \<Longrightarrow> sv_ai st' = sv_ai st"
  by (auto simp: refresh_proof_def split: if_splits dest: refresh_device_ai)

lemma rotate_ai: "rotate_tokens E cx rq st = (res, revoked, st') \<Longrightarrow> sv_ai st' = sv_ai st"
  by (auto simp: rotate_tokens_def split: prod.splits dest!: ai_frames)

lemma owner_ai: "logout_owner E x rq st = (r, st') \<Longrightarrow> sv_ai st' = sv_ai st"
  by (auto simp: logout_owner_def split: prod.splits if_splits dest: refresh_device_ai)

lemma take_id_ai: "take_msgId cx rq st = (mid, st') \<Longrightarrow> sv_ai st' = sv_ai st"
  by (auto simp: take_msgId_def split: if_splits)

lemma friends_ai [simp]: "sv_ai (send_friends s u st) = sv_ai st"
  by (auto simp: send_friends_def Let_def fold_ai split: prod.split dest: ai_frames)

lemma sign_in_ai [simp]:
  "sv_ai (finish_login E cx s x rq st) = sv_ai st" "sv_ai (onLogin E cx s x payload st) = sv_ai st"
  "sv_ai (onTokenLogin E cx s x payload st) = sv_ai st"
proof -
  show f: "sv_ai (finish_login E cx s x rq st) = sv_ai st" for rq st
    by (auto simp: finish_login_def Let_def split: prod.split issue_result.split dest!: ai_frames password_ai)
  show "sv_ai (onLogin E cx s x payload st) = sv_ai st"
    by (auto simp: onLogin_def f Let_def split: option.split prod.split dest!: allows_ai)
  show "sv_ai (onTokenLogin E cx s x payload st) = sv_ai st"
    by (auto simp: onTokenLogin_def Let_def split: option.split prod.split dest!: row_ai)
qed

lemma token_ai [simp]:
  "sv_ai (onTokenRefresh E cx s x payload st) = sv_ai st" "sv_ai (onLogout E cx s x payload st) = sv_ai st"
  by (auto simp: onTokenRefresh_def onLogout_def Let_def split: option.split prod.split rotate_result.split
      dest!: refresh_proof_ai rotate_ai owner_ai)

lemma chat_ai [simp]: "sv_ai (store_chat cx s rq a st) = sv_ai st" "sv_ai (onChat E cx s x payload st) = sv_ai st"
proof -
  show f: "sv_ai (store_chat cx s rq a st) = sv_ai st" for rq a st
    by (auto simp: store_chat_def Let_def split: prod.split dest!: ai_frames take_id_ai)
  show "sv_ai (onChat E cx s x payload st) = sv_ai st"
    by (auto simp: onChat_def f Let_def split: option.split prod.split dest!: ai_frames)
qed

lemma friend_ai [simp]:
  "sv_ai (onAddFriend E cx s x payload st) = sv_ai st" "sv_ai (onAddFriendReply E cx s x payload st) = sv_ai st"
  "sv_ai (onFriendRequestList E s x payload st) = sv_ai st" "sv_ai (onDeleteFriend E s x payload st) = sv_ai st"
  by (auto simp: onAddFriend_def onAddFriendReply_def onFriendRequestList_def onDeleteFriend_def Let_def
      split: option.split prod.split dest!: ai_frames)

lemma rest_ai [simp]:
  "sv_ai (onRegister E cx s payload st) = sv_ai st" "sv_ai (onConversations s x st) = sv_ai st"
  "sv_ai (onMessages E s x payload st) = sv_ai st" "sv_ai (onOffline E s x payload st) = sv_ai st"
  "sv_ai (onHeartbeat cx s x st) = sv_ai st" "sv_ai (onSessionClosed s x st) = sv_ai st"
  "sv_ai (announce_offline uid st) = sv_ai st" "sv_ai (hbScan now st) = sv_ai st"
  by (auto simp: onRegister_def onConversations_def onMessages_def onOffline_def onHeartbeat_def onSessionClosed_def
      announce_offline_def hbScan_def Let_def fold_ai split: option.split prod.split dest!: ai_frames)

section \<open>Places and jobs\<close>

lemma int_str_no_colon: "CHR '':'' \<notin> set (int_str i)"
proof -
  have "CHR '':'' \<notin> set (nat_str n)" for n
  proof
    assume "CHR '':'' \<in> set (nat_str n)"
    then have "Prelude.is_digit (CHR '':'')" using nat_str_digits [of n] by blast
    then show False by (simp add: Prelude.is_digit_def)
  qed
  then show ?thesis by (simp add: int_str_def)
qed

lemma requestKey_user: "requestKey u r = requestKey v q \<Longrightarrow> u = v"
proof -
  assume "requestKey u r = requestKey v q"
  then have "takeWhile (\<lambda>c. c \<noteq> CHR '':'') (requestKey u r) = takeWhile (\<lambda>c. c \<noteq> CHR '':'') (requestKey v q)" by simp
  moreover have "takeWhile (\<lambda>c. c \<noteq> CHR '':'') (int_str i @ '':'' @ r) = int_str i" for i r
    using int_str_no_colon [of i] by (subst takeWhile_append2) auto
  ultimately show "u = v" by (simp add: requestKey_def)
qed

definition job_key :: "ai_job \<Rightarrow> string" where
  "job_key j = requestKey (aj_user j) (aj_requestId j)"

definition open_jobs :: "ai_state \<Rightarrow> ai_job list" where
  "open_jobs a = ah_jobs a @ ah_calls a"

text \<open>
  The users with a place are those of the open jobs, one job each; the active requests are theirs;
  only active requests are marked cancelled; and the queue and the two workers are within bounds.
\<close>

definition ai_ok :: "ai_state \<Rightarrow> bool" where
  "ai_ok a \<longleftrightarrow> distinct (map aj_user (open_jobs a)) \<and>
     al_inFlight (ah_limiter a) = aj_user ` set (open_jobs a) \<and> ah_active a = job_key ` set (open_jobs a) \<and>
     ah_cancelled a \<subseteq> ah_active a \<and> length (ah_calls a) \<le> 2 \<and>
     length (open_jobs a) \<le> al_maxPending (ah_limiter a)"

lemma ai_ok_new: "ai_ok (ai_state_new cfg)"
  by (simp add: ai_ok_def ai_state_new_def ai_new_def open_jobs_def)

text \<open>A job that ends gives back its own place and no other.\<close>

lemma ai_ok_finish:
  assumes jobs: "set (open_jobs a) = insert j (set js)" "distinct (map aj_user (j # js))"
    and a: "al_inFlight (ah_limiter a) = aj_user ` set (open_jobs a)" "ah_active a = job_key ` set (open_jobs a)"
      "ah_cancelled a \<subseteq> ah_active a"
    and b: "open_jobs b = js" "length (ah_calls b) \<le> 2" "length js \<le> al_maxPending (ah_limiter a)"
      "b = finishRequest (aj_user j) (aj_requestId j) a\<lparr>ah_jobs := ah_jobs b, ah_calls := ah_calls b\<rparr>"
  shows "ai_ok b"
proof -
  have key: "job_key i \<noteq> job_key j" if "i \<in> set js" for i
  proof
    assume "job_key i = job_key j"
    then have "aj_user i = aj_user j" unfolding job_key_def by (rule requestKey_user)
    then have "aj_user j \<in> aj_user ` set js" using that by (metis image_eqI)
    then show False using jobs(2) by simp
  qed
  have "al_inFlight (ah_limiter b) = aj_user ` set js"
    using a(1) jobs by (subst b(4)) (auto simp: finishRequest_def ai_release_def)
  moreover have act: "ah_active b = job_key ` set js"
    using a(2) jobs key by (subst b(4)) (auto simp: finishRequest_def job_key_def [symmetric])
  moreover have "ah_cancelled b \<subseteq> ah_active b"
    using a(2,3) jobs unfolding act by (subst b(4)) (auto simp: finishRequest_def job_key_def [symmetric])
  moreover have "al_maxPending (ah_limiter b) = al_maxPending (ah_limiter a)"
    by (subst b(4)) (simp add: finishRequest_def ai_release_def)
  ultimately show ?thesis using jobs(2) b(1-3) by (simp add: ai_ok_def)
qed

lemma admit_ok:
  assumes "ai_ok (sv_ai st)"
  shows "ai_ok (sv_ai (admit cx s uid rq st))"
proof -
  let ?a = "sv_ai st" and ?job = "ai_job_of s uid rq"
  obtain res l where t: "tryAcquire uid (ai_requestId rq) (cx_tick cx) (ah_limiter ?a) = (res, l)" by (metis surj_pair)
  have "card (al_inFlight (ah_limiter ?a)) = length (open_jobs ?a)"
    using assms distinct_card [of "map aj_user (open_jobs ?a)"] by (simp add: ai_ok_def)
  then have acc: "uid \<notin> aj_user ` set (open_jobs ?a)" "length (open_jobs ?a) < al_maxPending (ah_limiter ?a)"
      "al_inFlight l = insert uid (al_inFlight (ah_limiter ?a))" if "res = AiAccepted"
    using t that assms by (auto simp: tryAcquire_def Let_def ai_ok_def split: if_splits)
  have rej: "al_inFlight l = al_inFlight (ah_limiter ?a)" if "res \<noteq> AiAccepted"
    using t that by (auto simp: tryAcquire_def Let_def split: if_splits)
  have max: "al_maxPending l = al_maxPending (ah_limiter ?a)"
    using t by (auto simp: tryAcquire_def Let_def split: if_splits)
  have job: "aj_user ?job = uid" "job_key ?job = requestKey uid (ai_requestId rq)"
    by (simp_all add: ai_job_of_def job_key_def)
  show ?thesis
  proof (cases "res = AiAccepted")
    case True
    then have "sv_ai (admit cx s uid rq st) = ?a\<lparr>ah_limiter := l, ah_active := insert (job_key ?job) (ah_active ?a),
        ah_jobs := ah_jobs ?a @ [?job]\<rparr>"
      using t by (simp add: admit_def on_ai_def job)
    then show ?thesis
      using assms acc True max job by (auto simp: ai_ok_def open_jobs_def)
  next
    case False
    then have "sv_ai (admit cx s uid rq st) = ?a\<lparr>ah_limiter := l\<rparr>"
      using t by (cases res) (simp_all add: admit_def on_ai_def sendResult_def)
    then show ?thesis using assms rej max False by (auto simp: ai_ok_def open_jobs_def)
  qed
qed

lemma sendResult_ai [simp]: "sv_ai (sendResult s rid status err xs st) = sv_ai st"
  by (simp add: sendResult_def)

lemma onReply_ok: "ai_ok (sv_ai st) \<Longrightarrow> ai_ok (sv_ai (onReply E cx s x payload st))"
  unfolding onReply_def Let_def
  by (auto split: option.split prod.split dest!: read_ai intro!: admit_ok)

lemma onCancel_ok: "ai_ok (sv_ai st) \<Longrightarrow> ai_ok (sv_ai (onCancel E s x payload st))"
  unfolding onCancel_def by (auto simp: on_ai_def markCancelled_def ai_ok_def open_jobs_def split: option.split)

lemma ai_begin_cases:
  assumes "ai_begin E job st = (q, st')"
  shows "sv_ai st' = finishRequest (aj_user job) (aj_requestId job) (sv_ai st\<lparr>ah_jobs := remove1 job (ah_jobs (sv_ai st))\<rparr>) \<or>
    sv_ai st' = sv_ai st\<lparr>ah_jobs := remove1 job (ah_jobs (sv_ai st)), ah_calls := ah_calls (sv_ai st) @ [job]\<rparr>"
  using assms unfolding ai_begin_def Let_def job_done_def
  by (auto simp: on_ai_def split: if_splits prod.splits option.splits dest!: read_ai)

lemma ai_end_state:
  "sv_ai (ai_end job err xs st) =
     finishRequest (aj_user job) (aj_requestId job) (sv_ai st\<lparr>ah_calls := remove1 job (ah_calls (sv_ai st))\<rparr>)"
  unfolding ai_end_def Let_def job_done_def
  by (auto simp: on_ai_def split: option.split)

lemma ai_begin_ok:
  assumes ok: "ai_ok (sv_ai st)" and job: "job \<in> set (ah_jobs (sv_ai st))" and free: "length (ah_calls (sv_ai st)) < 2"
    and run: "ai_begin E job st = (q, st')"
  shows "ai_ok (sv_ai st')"
proof -
  let ?a = "sv_ai st"
  let ?js = "remove1 job (ah_jobs ?a) @ ah_calls ?a"
  have d: "distinct (map aj_user (ah_jobs ?a @ ah_calls ?a))" using ok by (simp add: ai_ok_def open_jobs_def)
  have m: "mset (open_jobs ?a) = add_mset job (mset ?js)" using job by (simp add: open_jobs_def)
  then have jobs: "set (open_jobs ?a) = insert job (set ?js)" "length (open_jobs ?a) = Suc (length ?js)"
    by (metis set_mset_add_mset_insert set_mset_mset, metis size_add_mset size_mset)
  have "mset (map aj_user (open_jobs ?a)) = mset (map aj_user (job # ?js))" using m by simp
  then have dj: "distinct (map aj_user (job # ?js))"
    using d mset_eq_imp_distinct_iff unfolding open_jobs_def by blast
  from ai_begin_cases [OF run] show ?thesis
  proof
    assume f: "sv_ai st' = finishRequest (aj_user job) (aj_requestId job) (?a\<lparr>ah_jobs := remove1 job (ah_jobs ?a)\<rparr>)"
    show ?thesis
      by (rule ai_ok_finish [OF jobs(1) dj, of "sv_ai st'"])
        (use ok jobs(2) in \<open>auto simp: ai_ok_def f finishRequest_def open_jobs_def\<close>)
  next
    assume c: "sv_ai st' = ?a\<lparr>ah_jobs := remove1 job (ah_jobs ?a), ah_calls := ah_calls ?a @ [job]\<rparr>"
    have "set (open_jobs (sv_ai st')) = set (open_jobs ?a)" "length (open_jobs (sv_ai st')) = length (open_jobs ?a)"
      using jobs by (auto simp: c open_jobs_def)
    moreover have "distinct (map aj_user (open_jobs (sv_ai st')))"
      using dj by (auto simp: c open_jobs_def)
    ultimately show ?thesis using ok free by (auto simp: ai_ok_def c)
  qed
qed

lemma ai_end_ok:
  assumes ok: "ai_ok (sv_ai st)" and job: "job \<in> set (ah_calls (sv_ai st))"
  shows "ai_ok (sv_ai (ai_end job err xs st))"
proof -
  let ?a = "sv_ai st" and ?b = "sv_ai (ai_end job err xs st)"
  let ?js = "ah_jobs ?a @ remove1 job (ah_calls ?a)"
  have d: "distinct (map aj_user (ah_jobs ?a @ ah_calls ?a))" using ok by (simp add: ai_ok_def open_jobs_def)
  have m: "mset (open_jobs ?a) = add_mset job (mset ?js)" using job by (simp add: open_jobs_def)
  then have jobs: "set (open_jobs ?a) = insert job (set ?js)" "length (open_jobs ?a) = Suc (length ?js)"
    by (metis set_mset_add_mset_insert set_mset_mset, metis size_add_mset size_mset)
  have "mset (map aj_user (open_jobs ?a)) = mset (map aj_user (job # ?js))" using m by simp
  then have dj: "distinct (map aj_user (job # ?js))"
    using d mset_eq_imp_distinct_iff unfolding open_jobs_def by blast
  show ?thesis
    by (rule ai_ok_finish [OF jobs(1) dj, of ?b])
      (use ok jobs(2) in \<open>auto simp: ai_ok_def ai_end_state finishRequest_def open_jobs_def length_remove1\<close>)
qed

lemma packet_ai_ok:
  assumes "ai_ok (sv_ai st)"
  shows "ai_ok (sv_ai (dispatchPacket E cx s x t payload st))"
proof -
  have h: "ai_ok (sv_ai (h s x payload st1))" if "(p, h) \<in> set (routes E cx)" "sv_ai st1 = sv_ai st" for p h st1
    using that assms unfolding routes_def by (auto intro: onReply_ok onCancel_ok)
  have "ai_ok (sv_ai (h s x payload (touch_user cx x st)))"
    if m: "router_build (routes E cx) [] = Some m" "map_of m t = Some h" for m h
  proof -
    obtain p where "(p, h) \<in> set (routes E cx)" using router_build_routes [OF m] by auto
    then show ?thesis by (rule h) simp
  qed
  then show ?thesis
    using assms by (auto simp: dispatchPacket_def dispatch_def Let_def split: option.split)
qed

lemma step_ai_ok:
  assumes "server_step E st st'" and "ai_ok (sv_ai st)"
  shows "ai_ok (sv_ai st')"
  using assms(1)
proof cases
  case (AiBegins job)
  then show ?thesis using ai_begin_ok [OF assms(2), of job E] by (metis surjective_pairing)
qed (use assms(2) in \<open>auto simp: accept_session_def destroy_session_def restart_def server_new_def ai_ok_new
    intro: packet_ai_ok ai_end_ok\<close>)

text \<open>
  C21: the places of the AI handler never leak. In every reachable state of the server, whatever
  requests, cancellations, failures and closed connections there were, the users that occupy a place
  are exactly those with a queued or running job, and each has one; only such requests count as active
  or can be marked as cancelled; and queue and workers stay within their bounds.
\<close>

theorem ai_places_never_leak:
  assumes "server_reach E cfg st"
  shows "ai_ok (sv_ai st)"
  using assms
  by (induction rule: server_reach.induct) (simp add: server_new_def ai_ok_new, blast intro: step_ai_ok)

theorem ai_places_never_leak_witness:
  "ai_ok (sv_ai (accept_session [1] ''10.0.0.1'' (server_new default_config empty_db [] [])))"
  by (rule ai_places_never_leak [where E = undefined and cfg = default_config])
    (rule server_reach.Step [OF server_reach.Start [OF db_ready_empty] server_step.Accepted])

end
