(* ===== verification/HttpFiles.thy ===== *)
theory HttpFiles
  imports AuthHandlers ChatHandlers UploadStore
begin

text \<open>
  The file service (\<^verbatim>\<open>im_server/src/media/HttpFileServer.cpp\<close>, \<^verbatim>\<open>MediaUtil.h\<close>): whole uploads, uploads
  in chunks that can be resumed, instant uploads by proof of possession, downloads, and the collector of
  what was left behind. A handler is one step and reads the clock once. The files are a map from paths
  to contents; which operations of the file system fail is an argument. httplib finds the handler by
  the path; its captures, the headers and the body are the request. The text of a JSON reply is
  given by its fields.
\<close>

section \<open>State\<close>

record challenge =
  pc_uploader :: int
  pc_receiver :: int
  pc_path :: string
  pc_sha256 :: string
  pc_size :: int
  pc_contentType :: string
  pc_offset :: int
  pc_length :: int
  pc_at :: int

record file_service =
  fs_server :: server
  fs_files :: "string \<Rightarrow> bytes option"
  fs_challenges :: "string \<Rightarrow> challenge option"
  fs_sessions :: u64
  fs_uploads :: u64
  fs_proofs :: u64

text \<open>
  A request: \<open>get_header_value\<close>, the captures, the body, and for a streamed body the pieces in
  which it comes and whether it comes to its end.
\<close>

record http_rq =
  hq_header :: "string \<Rightarrow> string"
  hq_match1 :: string
  hq_match2 :: string
  hq_body :: bytes
  hq_parts :: "bytes list"
  hq_whole :: bool

datatype http_body =
    NoBody
  | InstantOffer string int int
  | SessionOpened string int int int "int list"
  | SessionStatus string upload_state int int int string "int list"
  | ChunkSaved
  | MissingChunks int int
  | SizeMismatch
  | ShaMismatch
  | FileReady string string int string
  | InstantReady string string int string
  | AlreadyFinalized string
  | UploadGone
  | PreflightMiss
  | PreflightHit string int int
  | FileContent string string "string option"

type_synonym http_rs = "int \<times> http_body"

text \<open>
  What a request meets: the clock, an uninitialised hash object, the upload directory, and which
  operations on files fail; \<open>hi_written\<close> is how much of a write reaches the file when it fails.
\<close>

record http_io =
  hi_now :: int
  hi_junk :: bytes
  hi_dir :: string
  hi_open :: bool
  hi_create :: bool
  hi_written :: "nat option"
  hi_rename :: bool
  hi_copy :: bool

definition fs_read :: "(read_io \<Rightarrow> server_db \<Rightarrow> 'a) \<Rightarrow> file_service \<Rightarrow> 'a \<times> file_service" where
  "fs_read q F = (let (r, st) = sv_read q (fs_server F) in (r, F\<lparr>fs_server := st\<rparr>))"

definition fs_write :: "(sconn \<Rightarrow> 'a \<times> sconn) \<Rightarrow> file_service \<Rightarrow> 'a \<times> file_service" where
  "fs_write w F = (let (r, st) = sv_write w (fs_server F) in (r, F\<lparr>fs_server := st\<rparr>))"

definition set_file :: "string \<Rightarrow> bytes option \<Rightarrow> file_service \<Rightarrow> file_service" where
  "set_file p c F = F\<lparr>fs_files := (fs_files F)(p := c)\<rparr>"

definition file_exists :: "file_service \<Rightarrow> string \<Rightarrow> bool" where
  "file_exists F p \<longleftrightarrow> fs_files F p \<noteq> None"

definition add_upload :: "string \<Rightarrow> upload_record \<Rightarrow> file_service \<Rightarrow> file_service" where
  "add_upload fid r F =
     F\<lparr>fs_server := (fs_server F)\<lparr>sv_uploads := (sv_uploads (fs_server F))(fid \<mapsto> r)\<rparr>\<rparr>"

section \<open>Names and numbers\<close>

text \<open>\<open>std::stoi\<close> and \<open>std::stoll\<close>.\<close>

definition c_stoi :: "string \<Rightarrow> int option" where
  "c_stoi s = (case c_stol s of None \<Rightarrow> None | Some v \<Rightarrow> if v < - (2 ^ 31) \<or> v \<ge> 2 ^ 31 then None else Some v)"

text \<open>\<open>path::filename\<close> and \<open>path::extension\<close> of a POSIX path.\<close>

definition path_filename :: "string \<Rightarrow> string" where
  "path_filename s = rev (takeWhile (\<lambda>c. c \<noteq> CHR ''/'') (rev s))"

definition path_extension :: "string \<Rightarrow> string" where
  "path_extension s =
     (let f = path_filename s;
          e = takeWhile (\<lambda>c. c \<noteq> CHR ''.'') (rev f)
      in if f = ''.'' \<or> f = ''..'' \<or> length e + 1 \<ge> length f then [] else CHR ''.'' # rev e)"

definition guessContentType :: "string \<Rightarrow> string" where
  "guessContentType path =
     (let ext = path_extension path in
      if ext = ''.png'' then ''image/png''
      else if ext = ''.jpg'' \<or> ext = ''.jpeg'' then ''image/jpeg''
      else if ext = ''.gif'' then ''image/gif''
      else if ext = ''.bmp'' then ''image/bmp''
      else if ext = ''.webp'' then ''image/webp''
      else if ext = ''.avif'' then ''image/avif''
      else ''application/octet-stream'')"

definition alnum :: "char \<Rightarrow> bool" where
  "alnum c \<longleftrightarrow> between c 48 57 \<or> between c 65 90 \<or> between c 97 122"

fun has_dots :: "string \<Rightarrow> bool" where
  "has_dots (a # b # s) \<longleftrightarrow> a = CHR ''.'' \<and> b = CHR ''.'' \<or> has_dots (b # s)"
| "has_dots _ \<longleftrightarrow> False"

definition isSafeFileId :: "string \<Rightarrow> bool" where
  "isSafeFileId fid \<longleftrightarrow> fid \<noteq> [] \<and> list_all (\<lambda>c. alnum c \<or> c \<in> set ''._-'') fid \<and> \<not> has_dots fid"

section \<open>Who asks\<close>

definition authenticate :: "server_env \<Rightarrow> http_io \<Rightarrow> http_rq \<Rightarrow> file_service \<Rightarrow> (int \<times> string) option \<times> file_service" where
  "authenticate E io rq F =
     (let h = hq_header rq ''Authorization''; dev = hq_header rq ''X-Device-Id'' in
      if length h \<le> 7 \<or> take 7 h \<noteq> ''Bearer '' then (None, F)
      else if dev = [] \<or> length dev > 128 then (None, F)
      else
        let (row, F) = fs_read (\<lambda>r. validateAccess (en_digest E) r (hi_now io) (drop 7 h) [] dev) F
        in (map_option (\<lambda>r. (ar_user r, dev)) row, F))"

text \<open>The upload session of the path, if it is the caller's; or the status that refuses it.\<close>

definition own_session ::
  "server_env \<Rightarrow> http_io \<Rightarrow> http_rq \<Rightarrow> file_service \<Rightarrow> (int + int \<times> upload_session) \<times> file_service" where
  "own_session E io rq F =
     (let (who, F) = authenticate E io rq F in
      case who of
        None \<Rightarrow> (Inl 401, F)
      | Some (uid, dev) \<Rightarrow>
          let (s, F) = fs_read (\<lambda>r. getUploadSession r (hq_match1 rq)) F in
          (case s of
             None \<Rightarrow> Inl 404
           | Some s \<Rightarrow> if us_uploader s \<noteq> uid \<or> us_device s \<noteq> dev then Inl 403 else Inr (uid, s), F))"

section \<open>Instant uploads\<close>

definition hex_val :: "char \<Rightarrow> int" where
  "hex_val c = (if between c 48 57 then of_char c - 48 else of_char c - 87)"

definition hex_num :: "string \<Rightarrow> int" where
  "hex_num s = foldl (\<lambda>a c. 16 * a + hex_val c) 0 s"

definition find_media :: "string \<Rightarrow> int \<Rightarrow> file_service \<Rightarrow> media_row option \<times> file_service" where
  "find_media sha sz F =
     (let (r1, F) = fs_read (\<lambda>r _. r) F;
          (r2, F) = fs_read (\<lambda>r _. r) F
      in (findMediaObject (file_exists F) r1 r2 sha sz (sv_db (fs_server F)), F))"

text \<open>A challenge: a slice of the file, at a place that the caller does not choose.\<close>

definition make_challenge ::
  "http_io \<Rightarrow> int \<Rightarrow> int \<Rightarrow> media_row \<Rightarrow> string \<Rightarrow> int \<Rightarrow> file_service \<Rightarrow> (string \<times> int \<times> int) \<times> file_service" where
  "make_challenge io uid rid m sha sz F =
     (let len = min (64 * 1024) sz;
          seed = sha256Hex (hi_junk io) (int_str uid @ ''|'' @ sha @ ''|'' @ int_str (hi_now io));
          n = hex_num (take 16 seed);
          off = (if sz > len then n mod (sz - len + 1) else 0);
          cid = sha256Hex (hi_junk io) (seed @ ''|'' @ int_str off)
      in ((cid, off, len),
          F\<lparr>fs_challenges := (fs_challenges F)(cid \<mapsto>
             \<lparr>pc_uploader = uid, pc_receiver = rid, pc_path = mo_path m, pc_sha256 = sha, pc_size = sz,
              pc_contentType = mo_contentType m, pc_offset = off, pc_length = len, pc_at = hi_now io\<rparr>)\<rparr>))"

definition issueInstantChallenge ::
  "http_io \<Rightarrow> int \<Rightarrow> int \<Rightarrow> string \<Rightarrow> int \<Rightarrow> file_service \<Rightarrow> (string \<times> int \<times> int) option \<times> file_service" where
  "issueInstantChallenge io uid rid sha sz F =
     (let (m, F) = find_media sha sz F in
      case m of
        None \<Rightarrow> (None, F)
      | Some m \<Rightarrow> (let (c, F) = make_challenge io uid rid m sha sz F in (Some c, F)))"

definition friends_now :: "int \<Rightarrow> int \<Rightarrow> file_service \<Rightarrow> bool \<times> file_service" where
  "friends_now a b F = fs_read (\<lambda>r. isFriend r a b) F"

definition handlePreflight :: "server_env \<Rightarrow> http_io \<Rightarrow> http_rq \<Rightarrow> file_service \<Rightarrow> http_rs \<times> file_service" where
  "handlePreflight E io rq F =
     (let (who, F) = authenticate E io rq F in
      case who of
        None \<Rightarrow> ((401, NoBody), F)
      | Some (uid, dev) \<Rightarrow>
          (case (c_stoi (hq_header rq ''X-Receiver-Id''), c_stol (hq_header rq ''X-File-Size'')) of
             (Some rid, Some sz) \<Rightarrow>
               let sha = hq_header rq ''X-File-Sha256'';
                   (friends, F) = friends_now uid rid F
               in if \<not> friends then ((403, NoBody), F)
                  else
                    let (c, F) = issueInstantChallenge io uid rid sha sz F in
                    (case c of
                       None \<Rightarrow> ((200, PreflightMiss), F)
                     | Some (cid, off, len) \<Rightarrow> ((200, PreflightHit cid off len), F))
           | _ \<Rightarrow> ((400, NoBody), F)))"

text \<open>The slice of a file, if it has that many bytes.\<close>

definition file_slice :: "file_service \<Rightarrow> string \<Rightarrow> int \<Rightarrow> int \<Rightarrow> bytes option" where
  "file_slice F p off len =
     (case fs_files F p of
        None \<Rightarrow> None
      | Some c \<Rightarrow> if int (length c) < off + len then None else Some (take (nat len) (drop (nat off) c)))"

definition handleProof :: "server_env \<Rightarrow> http_io \<Rightarrow> http_rq \<Rightarrow> file_service \<Rightarrow> http_rs \<times> file_service" where
  "handleProof E io rq F =
     (let (who, F) = authenticate E io rq F in
      case who of
        None \<Rightarrow> ((401, NoBody), F)
      | Some (uid, dev) \<Rightarrow>
          (case fs_challenges F (hq_match1 rq) of
             None \<Rightarrow> ((404, NoBody), F)
           | Some c \<Rightarrow>
               let F = F\<lparr>fs_challenges := (fs_challenges F)(hq_match1 rq := None)\<rparr> in
               if pc_uploader c \<noteq> uid \<or> hi_now io - pc_at c > 300 \<or> int (length (hq_body rq)) \<noteq> pc_length c
               then ((403, NoBody), F)
               else if file_slice F (pc_path c) (pc_offset c) (pc_length c) \<noteq> Some (hq_body rq) then ((409, NoBody), F)
               else
                 let fid = sha256Hex (hi_junk io) (hq_match1 rq @ ''|'' @ int_str (uint (fs_proofs F)));
                     F = F\<lparr>fs_proofs := fs_proofs F + 1\<rparr>
                 in ((200, InstantReady fid (pc_sha256 c) (pc_size c) (pc_contentType c)),
                     add_upload fid \<lparr>ur_uploader = uid, ur_receiver = pc_receiver c, ur_path = pc_path c,
                       ur_sha256 = pc_sha256 c, ur_size = pc_size c, ur_contentType = pc_contentType c,
                       ur_at = hi_now io\<rparr> F)))"

section \<open>Uploads in chunks\<close>

definition CHUNK_SIZE :: int where "CHUNK_SIZE = 1024 * 1024"

definition new_upload :: "http_io \<Rightarrow> http_rq \<Rightarrow> int \<Rightarrow> string \<Rightarrow> int \<Rightarrow> string \<Rightarrow> int \<Rightarrow> string \<Rightarrow> u64 \<Rightarrow> upload_session" where
  "new_upload io rq uid dev rid sha sz name k =
     (let i = sha256Hex (hi_junk io) (int_str uid @ ''|'' @ dev @ ''|'' @ int_str rid @ ''|'' @ sha @ ''|'' @
                int_str sz @ ''|'' @ int_str (hi_now io) @ ''|'' @ int_str (uint k));
          ctype = hq_header rq ''Content-Type''
      in \<lparr>us_id = i, us_uploader = uid, us_device = dev, us_receiver = rid, us_fileName = name, us_fileSize = sz,
          us_sha256 = sha, us_contentType = ctype, us_isImage = (take 6 ctype = ''image/''),
          us_chunkSize = CHUNK_SIZE, us_chunkCount = (sz + CHUNK_SIZE - 1) div CHUNK_SIZE,
          us_expires = hi_now io + 24 * 3600, us_state = UpOpen, us_fileId = [],
          us_tmpPath = hi_dir io @ ''/chunks/'' @ i @ ''.part'', us_created = hi_now io\<rparr>)"

text \<open>The open session of this upload, or a new one; \<open>None\<close> when it cannot be stored.\<close>

definition open_upload ::
  "http_io \<Rightarrow> http_rq \<Rightarrow> int \<Rightarrow> string \<Rightarrow> int \<Rightarrow> string \<Rightarrow> int \<Rightarrow> string \<Rightarrow> file_service \<Rightarrow> upload_session option \<times> file_service" where
  "open_upload io rq uid dev rid sha sz name F =
     (let (old, F) = fs_read (\<lambda>r. findOpenUploadSession r uid dev rid sha sz) F in
      case old of
        Some s \<Rightarrow> (Some s, F)
      | None \<Rightarrow>
          let s = new_upload io rq uid dev rid sha sz name (fs_sessions F);
              F = F\<lparr>fs_sessions := fs_sessions F + 1\<rparr>;
              (ok, F) = fs_write (createUploadSession s) F
          in (if ok then Some s else None, F))"

definition received_chunks :: "string \<Rightarrow> file_service \<Rightarrow> int list \<times> file_service" where
  "received_chunks i F = (let (r, F) = fs_read (\<lambda>r. listUploadChunkIndices r i) F in (snd r, F))"

definition handleCreateUpload :: "server_env \<Rightarrow> http_io \<Rightarrow> http_rq \<Rightarrow> file_service \<Rightarrow> http_rs \<times> file_service" where
  "handleCreateUpload E io rq F =
     (let (who, F) = authenticate E io rq F in
      case who of
        None \<Rightarrow> ((401, NoBody), F)
      | Some (uid, dev) \<Rightarrow>
          (case (c_stoi (hq_header rq ''X-Receiver-Id''), c_stol (hq_header rq ''X-File-Size'')) of
             (Some rid, Some sz) \<Rightarrow>
               let sha = hq_header rq ''X-File-Sha256'';
                   name = path_filename (hq_header rq ''X-File-Name'')
               in if name = [] \<or> length name > 255 \<or> length sha \<noteq> 64 \<or> sz \<le> 0 \<or> sz > FILE_MAX_SIZE
                  then ((400, NoBody), F)
                  else
                    let (friends, F) = friends_now uid rid F in
                    if \<not> friends then ((403, NoBody), F)
                    else
                      let (c, F) = issueInstantChallenge io uid rid sha sz F in
                      (case c of
                         Some (cid, off, len) \<Rightarrow> ((200, InstantOffer cid off len), F)
                       | None \<Rightarrow>
                           let (s, F) = open_upload io rq uid dev rid sha sz name F in
                           (case s of
                              None \<Rightarrow> ((500, NoBody), F)
                            | Some s \<Rightarrow>
                                let (got, F) = received_chunks (us_id s) F
                                in ((200, SessionOpened (us_id s) (us_chunkSize s) (us_chunkCount s) (us_expires s) got), F)))
           | _ \<Rightarrow> ((400, NoBody), F)))"

text \<open>The pieces of the body as long as they fit; false when one does not or the connection breaks.\<close>

fun read_pieces :: "nat \<Rightarrow> bytes list \<Rightarrow> bytes \<Rightarrow> bool \<times> bytes" where
  "read_pieces lim [] body = (True, body)"
| "read_pieces lim (p # ps) body =
     (if length body + length p > lim then (False, body) else read_pieces lim ps (body @ p))"

definition hash_hex :: "bytes \<Rightarrow> bytes \<Rightarrow> string" where
  "hash_hex junk content = hex_of (sha_final (sha_update content (sha_new junk)))"

text \<open>Writing at an offset; a gap before it reads as zeros.\<close>

definition write_at :: "nat \<Rightarrow> bytes \<Rightarrow> bytes \<Rightarrow> bytes" where
  "write_at off data content =
     take off content @ replicate (off - length content) 0 @ data @ drop (off + length data) content"

definition chunk_size_of :: "upload_session \<Rightarrow> int \<Rightarrow> int" where
  "chunk_size_of s i = min (us_chunkSize s) (us_fileSize s - i * us_chunkSize s)"

text \<open>Writing a chunk: the file is opened, or created empty when that fails.\<close>

definition write_chunk :: "http_io \<Rightarrow> upload_session \<Rightarrow> int \<Rightarrow> bytes \<Rightarrow> file_service \<Rightarrow> bool \<times> file_service" where
  "write_chunk io s i body F =
     (let p = us_tmpPath s;
          opened = (if hi_open io \<and> file_exists F p then Some (the (fs_files F p))
                    else if hi_create io then Some [] else None)
      in case opened of
           None \<Rightarrow> (False, F)
         | Some c \<Rightarrow>
             let off = nat (i * us_chunkSize s) in
             (case hi_written io of
                None \<Rightarrow> (True, set_file p (Some (write_at off body c)) F)
              | Some n \<Rightarrow> (False, set_file p (Some (if n = 0 then c else write_at off (take n body) c)) F)))"

definition chunk_refused :: "http_io \<Rightarrow> http_rq \<Rightarrow> upload_session \<Rightarrow> int \<Rightarrow> int option" where
  "chunk_refused io rq s i =
     (if us_state s = UpCancelled then Some 410
      else if us_state s \<noteq> UpOpen then Some 409
      else if us_expires s < hi_now io then Some 410
      else if i < 0 \<or> i \<ge> us_chunkCount s then Some 400
      else if c_stol (hq_header rq ''Content-Length'') \<noteq> Some (chunk_size_of s i) then Some 400
      else if length (hq_header rq ''X-Chunk-Sha256'') \<noteq> 64 then Some 400
      else None)"

definition chunk_body :: "http_rq \<Rightarrow> upload_session \<Rightarrow> int \<Rightarrow> bytes option" where
  "chunk_body rq s i =
     (case read_pieces (nat (chunk_size_of s i)) (hq_parts rq) [] of
        (ok, body) \<Rightarrow> if ok \<and> hq_whole rq \<and> int (length body) = chunk_size_of s i then Some body else None)"

text \<open>The chunk is recorded first and written then.\<close>

definition accept_chunk :: "http_io \<Rightarrow> http_rq \<Rightarrow> upload_session \<Rightarrow> int \<Rightarrow> bytes \<Rightarrow> file_service \<Rightarrow> http_rs \<times> file_service" where
  "accept_chunk io rq s i body F =
     (let sha = hq_header rq ''X-Chunk-Sha256'' in
      if hash_hex (hi_junk io) body \<noteq> sha then ((400, NoBody), F)
      else
        let (r, F) = fs_write (storeUploadChunk (hi_now io) (hq_match1 rq) i (chunk_size_of s i) sha) F in
        case r of
          ChunkConflict \<Rightarrow> ((409, NoBody), F)
        | ChunkRejected \<Rightarrow> ((409, NoBody), F)
        | ChunkDuplicate \<Rightarrow> ((200, ChunkSaved), F)
        | ChunkStored \<Rightarrow>
            let (ok, F) = write_chunk io s i body F
            in if ok then ((200, ChunkSaved), F) else ((500, NoBody), F))"

definition handleUploadChunk :: "server_env \<Rightarrow> http_io \<Rightarrow> http_rq \<Rightarrow> file_service \<Rightarrow> http_rs \<times> file_service" where
  "handleUploadChunk E io rq F =
     (let (who, F1) = authenticate E io rq F in
      case who of
        None \<Rightarrow> ((401, NoBody), F1)
      | Some (uid, dev) \<Rightarrow>
          (case c_stoi (hq_match2 rq) of
             None \<Rightarrow> ((400, NoBody), F1)
           | Some i \<Rightarrow>
               let (s, F) = fs_read (\<lambda>r. getUploadSession r (hq_match1 rq)) F1 in
               case s of
                 None \<Rightarrow> ((404, NoBody), F)
               | Some s \<Rightarrow>
                   if us_uploader s \<noteq> uid \<or> us_device s \<noteq> dev then ((403, NoBody), F)
                   else case chunk_refused io rq s i of
                     Some code \<Rightarrow> ((code, NoBody), F)
                   | None \<Rightarrow>
                       (case chunk_body rq s i of
                          None \<Rightarrow> ((400, NoBody), F)
                        | Some body \<Rightarrow> accept_chunk io rq s i body F)))"

definition handleGetUpload :: "server_env \<Rightarrow> http_io \<Rightarrow> http_rq \<Rightarrow> file_service \<Rightarrow> http_rs \<times> file_service" where
  "handleGetUpload E io rq F =
     (let (own, F) = own_session E io rq F in
      case own of
        Inl code \<Rightarrow> ((code, NoBody), F)
      | Inr (uid, s) \<Rightarrow>
          let (got, F) = received_chunks (hq_match1 rq) F
          in ((200, SessionStatus (us_id s) (us_state s) (us_chunkSize s) (us_chunkCount s) (us_expires s)
                      (us_fileId s) got), F))"

section \<open>Finishing an upload\<close>

text \<open>Rename, or copy and remove; that the copy fails is not noticed.\<close>

definition move_file :: "http_io \<Rightarrow> string \<Rightarrow> string \<Rightarrow> file_service \<Rightarrow> file_service" where
  "move_file io src dst F =
     (if hi_rename io \<or> hi_copy io then set_file src None (set_file dst (fs_files F src) F)
      else set_file src None F)"

text \<open>Images are kept under their digest, and a copy that is already there is kept.\<close>

definition place_image :: "http_io \<Rightarrow> string \<Rightarrow> string \<Rightarrow> file_service \<Rightarrow> file_service" where
  "place_image io tmp final F = (if file_exists F final then set_file tmp None F else move_file io tmp final F)"

definition place_upload :: "http_io \<Rightarrow> upload_session \<Rightarrow> string \<Rightarrow> bytes \<Rightarrow> file_service \<Rightarrow> string \<times> file_service" where
  "place_upload io s fid content F =
     (if us_isImage s then
        let final = hi_dir io @ ''/img/'' @ us_sha256 s @ imageExtForBytes (take 16 (content @ replicate 16 0))
        in (final, place_image io (us_tmpPath s) final F)
      else
        let final = hi_dir io @ ''/file/'' @ fid @ ''_'' @ us_fileName s
        in (final, move_file io (us_tmpPath s) final F))"

text \<open>The checks before a file is accepted: all chunks, the size, the digest of the whole.\<close>

definition verify_upload :: "http_io \<Rightarrow> http_rq \<Rightarrow> upload_session \<Rightarrow> file_service \<Rightarrow> (http_rs + bytes) \<times> file_service" where
  "verify_upload io rq s F =
     (let (got, F) = received_chunks (hq_match1 rq) F in
      if int (length got) \<noteq> us_chunkCount s then (Inl (409, MissingChunks (int (length got)) (us_chunkCount s)), F)
      else case fs_files F (us_tmpPath s) of
        None \<Rightarrow> (Inl (409, SizeMismatch), F)
      | Some content \<Rightarrow>
          (if int (length content) \<noteq> us_fileSize s then Inl (409, SizeMismatch)
           else if hash_hex (hi_junk io) content \<noteq> us_sha256 s then Inl (409, ShaMismatch)
           else Inr content, F))"

definition finish_upload :: "http_io \<Rightarrow> http_rq \<Rightarrow> int \<Rightarrow> upload_session \<Rightarrow> bytes \<Rightarrow> file_service \<Rightarrow> http_rs \<times> file_service" where
  "finish_upload io rq uid s content F =
     (let fid = sha256Hex (hi_junk io) (hq_match1 rq @ ''|finalize'');
          (path, F) = place_upload io s fid content F;
          ((ok, old), F) = fs_write (\<lambda>c. case finalizeUploadSession (hq_match1 rq) fid c of (ok, old, c) \<Rightarrow> ((ok, old), c)) F
      in if \<not> ok then ((409, NoBody), F)
         else if old \<noteq> [] then ((200, FileReady old (us_sha256 s) (us_fileSize s) (us_contentType s)), F)
         else
           let (done, F) = fs_write (registerMediaObject (us_sha256 s) (us_fileSize s) path (us_contentType s)) F
           in ((200, FileReady fid (us_sha256 s) (us_fileSize s) (us_contentType s)),
               add_upload fid \<lparr>ur_uploader = uid, ur_receiver = us_receiver s, ur_path = path, ur_sha256 = us_sha256 s,
                 ur_size = us_fileSize s, ur_contentType = us_contentType s, ur_at = hi_now io\<rparr> F))"

definition handleFinalizeUpload :: "server_env \<Rightarrow> http_io \<Rightarrow> http_rq \<Rightarrow> file_service \<Rightarrow> http_rs \<times> file_service" where
  "handleFinalizeUpload E io rq F =
     (let (own, F) = own_session E io rq F in
      case own of
        Inl code \<Rightarrow> ((code, NoBody), F)
      | Inr (uid, s) \<Rightarrow>
          if us_state s = UpCancelled then ((410, NoBody), F)
          else if us_state s = UpFinalized then
            ((200, FileReady (us_fileId s) (us_sha256 s) (us_fileSize s) (us_contentType s)), F)
          else
            let (v, F) = verify_upload io rq s F in
            (case v of Inl rs \<Rightarrow> (rs, F) | Inr content \<Rightarrow> finish_upload io rq uid s content F))"

definition handleCancelUpload :: "server_env \<Rightarrow> http_io \<Rightarrow> http_rq \<Rightarrow> file_service \<Rightarrow> http_rs \<times> file_service" where
  "handleCancelUpload E io rq F =
     (let (own, F) = own_session E io rq F in
      case own of
        Inl code \<Rightarrow> ((code, NoBody), F)
      | Inr (uid, s) \<Rightarrow>
          if us_state s = UpFinalized then ((409, AlreadyFinalized (us_fileId s)), F)
          else
            let (ok, F) = fs_write (cancelUploadSession (hq_match1 rq)) F
            in if \<not> ok then ((409, NoBody), F) else ((200, UploadGone), set_file (us_tmpPath s) None F))"

section \<open>Whole uploads\<close>

text \<open>The pieces of the body that are written and hashed; false when it is too long or breaks off.\<close>

fun take_pieces :: "int \<Rightarrow> bytes list \<Rightarrow> bytes \<Rightarrow> bool \<times> bytes" where
  "take_pieces lim [] body = (True, body)"
| "take_pieces lim (p # ps) body =
     (if int (length body + length p) > lim then (False, body) else take_pieces lim ps (body @ p))"

definition upload_refused :: "http_rq \<Rightarrow> string \<Rightarrow> bool" where
  "upload_refused rq name \<longleftrightarrow> name = [] \<or> length name > 255"

definition declared_size :: "http_rq \<Rightarrow> int" where
  "declared_size rq = (case c_stol (hq_header rq ''Content-Length'') of None \<Rightarrow> -1 | Some v \<Rightarrow> v)"

text \<open>The stream is not checked: a failed write leaves a shorter file.\<close>

definition receive_upload :: "http_io \<Rightarrow> http_rq \<Rightarrow> int \<Rightarrow> int \<Rightarrow> string \<Rightarrow> string \<Rightarrow> file_service \<Rightarrow> http_rs \<times> file_service" where
  "receive_upload io rq uid rid name fid F =
     (let ctype = hq_header rq ''Content-Type'';
          image = (take 6 ctype = ''image/'');
          tmp = hi_dir io @ (if image then ''/img/tmp'' else ''/file/tmp'') @ ''/'' @ fid @ ''.part''
      in if \<not> hi_create io then ((500, NoBody), F)
         else
           let (ok, body) = take_pieces FILE_MAX_SIZE (hq_parts rq) [];
               F = set_file tmp (Some (case hi_written io of None \<Rightarrow> body | Some n \<Rightarrow> take n body)) F
           in if \<not> ok \<or> \<not> hq_whole rq \<or> int (length body) \<noteq> declared_size rq
              then ((400, NoBody), set_file tmp None F)
              else
                let sha = hash_hex (hi_junk io) body;
                    path = (if image then hi_dir io @ ''/img/'' @ sha @ imageExtForBytes (take 16 body)
                            else hi_dir io @ ''/file/'' @ fid @ ''_'' @ name);
                    F = (if image then place_image io tmp path F else move_file io tmp path F)
                in ((200, FileReady fid sha (int (length body)) ctype),
                    add_upload fid \<lparr>ur_uploader = uid, ur_receiver = rid, ur_path = path, ur_sha256 = sha,
                      ur_size = int (length body), ur_contentType = ctype, ur_at = hi_now io\<rparr> F))"

definition handleUpload :: "server_env \<Rightarrow> http_io \<Rightarrow> http_rq \<Rightarrow> file_service \<Rightarrow> http_rs \<times> file_service" where
  "handleUpload E io rq F =
     (let (who, F) = authenticate E io rq F in
      case who of
        None \<Rightarrow> ((401, NoBody), F)
      | Some (uid, dev) \<Rightarrow>
          let name = path_filename (hq_header rq ''X-File-Name'') in
          if upload_refused rq name then ((400, NoBody), F)
          else case c_stoi (hq_header rq ''X-Receiver-Id'') of
            None \<Rightarrow> ((400, NoBody), F)
          | Some rid \<Rightarrow>
              let (friends, F) = friends_now uid rid F in
              if \<not> friends then ((403, NoBody), F)
              else if declared_size rq < 0 \<or> declared_size rq > FILE_MAX_SIZE then ((413, NoBody), F)
              else
                let fid = sha256Hex (hi_junk io) (int_str uid @ ''|'' @ int_str rid @ ''|'' @ name @ ''|'' @
                            int_str (hi_now io) @ ''|'' @ int_str (uint (fs_uploads F)))
                in receive_upload io rq uid rid name fid (F\<lparr>fs_uploads := fs_uploads F + 1\<rparr>))"

section \<open>Downloads\<close>

definition handleDownload :: "server_env \<Rightarrow> http_io \<Rightarrow> http_rq \<Rightarrow> file_service \<Rightarrow> http_rs \<times> file_service" where
  "handleDownload E io rq F =
     (let (who, F1) = authenticate E io rq F in
      case who of
        None \<Rightarrow> ((401, NoBody), F1)
      | Some (uid, dev) \<Rightarrow>
          if \<not> isSafeFileId (hq_match1 rq) then ((400, NoBody), F1)
          else
            let (m, F) = fs_read (\<lambda>r. getMessageByFileId r (hq_match1 rq)) F1 in
            (case m of
               None \<Rightarrow> ((404, NoBody), F)
             | Some m \<Rightarrow>
                 if sm_mediaPath m = [] then ((404, NoBody), F)
                 else if uid \<noteq> sm_sender m \<and> uid \<noteq> sm_receiver m then ((403, NoBody), F)
                 else if \<not> file_exists F (sm_mediaPath m) then ((404, NoBody), F)
                 else ((200, FileContent (sm_mediaPath m) (guessContentType (sm_mediaPath m))
                              (if sm_type m = 2 then Some (sm_content m) else None)), F)))"

section \<open>What was left behind\<close>

text \<open>The collector; the uploads are an unordered map, its ids are given as a list.\<close>

definition stale_uploads :: "int \<Rightarrow> string list \<Rightarrow> file_service \<Rightarrow> (string \<times> string) list" where
  "stale_uploads now ids F =
     concat (map (\<lambda>i. case sv_uploads (fs_server F) i of
                        None \<Rightarrow> []
                      | Some r \<Rightarrow> if now - ur_at r > 24 * 3600 then [(i, ur_path r)] else []) ids)"

definition drop_upload :: "string \<Rightarrow> file_service \<Rightarrow> file_service" where
  "drop_upload i F = F\<lparr>fs_server := eraseUploadRecord i (fs_server F)\<rparr>"

definition drop_session :: "upload_session \<Rightarrow> file_service \<Rightarrow> file_service" where
  "drop_session s F = snd (fs_write (deleteUploadSession (us_id s)) (set_file (us_tmpPath s) None F))"

definition gc_round :: "int \<Rightarrow> string list \<Rightarrow> file_service \<Rightarrow> file_service" where
  "gc_round now ids F =
     (let stale = stale_uploads now ids F;
          F = fold drop_upload (map fst stale) F;
          F = F\<lparr>fs_challenges := (\<lambda>i. case fs_challenges F i of
                 None \<Rightarrow> None | Some c \<Rightarrow> if now - pc_at c > 300 then None else Some c)\<rparr>;
          F = fold (\<lambda>p. set_file p None) (map snd stale) F;
          ((ok, expired), F) = fs_read (\<lambda>r. listExpiredUploadSessions r now) F
      in if ok then fold drop_session expired F else F)"

end
