(* ===== verification/HttpProperties.thy ===== *)
theory HttpProperties
  imports HttpFiles ServerDemo
begin

text \<open>
  What holds of the file service: a resumable upload ends with the file that was sent, whatever the
  order of the chunks and however often they are repeated; a download needs a message of the caller;
  an instant upload needs the content; and a chunk whose writing failed is lost.
\<close>

section \<open>Writing slices of a file\<close>










section \<open>The frame of a read\<close>

text \<open>A read consumes an outcome of the pool and changes nothing else.\<close>

definition reads_only :: "file_service \<Rightarrow> file_service \<Rightarrow> bool" where
  "reads_only F F' \<longleftrightarrow> (\<exists>ios. F' = F\<lparr>fs_server := (fs_server F)\<lparr>sv_reads := ios\<rparr>\<rparr>)"

lemma reads_only_refl [simp]: "reads_only F F"
  unfolding reads_only_def by (rule exI [of _ "sv_reads (fs_server F)"]) simp

lemma reads_only_trans: "reads_only F F1 \<Longrightarrow> reads_only F1 F2 \<Longrightarrow> reads_only F F2"
  by (auto simp: reads_only_def)

lemma fs_readE:
  assumes "fs_read q F = (r, F')"
  obtains io where "r = q io (sv_db (fs_server F))" and "reads_only F F'"
proof -
  obtain st where st: "sv_read q (fs_server F) = (r, st)" "F' = F\<lparr>fs_server := st\<rparr>"
    using assms by (auto simp: fs_read_def split: prod.splits)
  from st(1) obtain io ios where "r = q io (sv_db (fs_server F))" "st = (fs_server F)\<lparr>sv_reads := ios\<rparr>"
    by (rule sv_readE)
  then show thesis using that st(2) by (auto simp: reads_only_def)
qed

lemma fs_read_reads: "fs_read q F = (r, F') \<Longrightarrow> reads_only F F'"
  by (erule fs_readE)

lemma fs_read_ok: "sv_reads (fs_server F) = [] \<Longrightarrow> fs_read q F = (q read_ok (sv_db (fs_server F)), F)"
  by (simp add: fs_read_def sv_read_ok)

abbreviation fs_conn :: "file_service \<Rightarrow> sconn" where
  "fs_conn F \<equiv> ts_conn (sv_tokens (fs_server F))"

lemma fs_write_eq:
  "fs_write w F = (fst (w (fs_conn F)), F\<lparr>fs_server := set_conn (snd (w (fs_conn F))) (fs_server F)\<rparr>)"
  by (simp add: fs_write_def sv_write_def split: prod.split)

lemma reads_only_fields:
  assumes "reads_only F F'"
  shows "fs_conn F' = fs_conn F" "fs_files F' = fs_files F" "fs_challenges F' = fs_challenges F"
    "sv_db (fs_server F') = sv_db (fs_server F)" "sv_uploads (fs_server F') = sv_uploads (fs_server F)"
  using assms by (auto simp: reads_only_def)

lemma authenticate_reads: "authenticate E io rq F = (who, F') \<Longrightarrow> reads_only F F'"
  by (auto simp: authenticate_def Let_def dest: fs_read_reads split: if_splits prod.splits)

lemma own_session_reads: "own_session E io rq F = (own, F') \<Longrightarrow> reads_only F F'"
  by (auto simp: own_session_def split: prod.splits option.splits
      dest!: fs_read_reads authenticate_reads intro: reads_only_trans)

lemma received_reads: "received_chunks i F = (got, F') \<Longrightarrow> reads_only F F'"
  by (auto simp: received_chunks_def dest: fs_read_reads split: prod.splits)

section \<open>An upload in progress\<close>

text \<open>The chunks that are recorded, and what the temporary file holds.\<close>

definition stored :: "upload_session \<Rightarrow> server_db \<Rightarrow> nat set" where
  "stored s d = {i. chunk_digest (us_id s) (int i) d \<noteq> None}"














section \<open>One chunk\<close>

lemma stores_chunk:
  assumes "storeUploadChunk now uid i sz sha c = (r, c1)" and "cn_txn c = None"
  shows "cn_txn c1 = None" and "r = ChunkStored \<Longrightarrow> \<exists>n. insert_chunk uid i sz sha (cn_db c) = Some (n, cn_db c1)"
    and "r \<noteq> ChunkStored \<Longrightarrow> cn_db c1 = cn_db c" and "r = ChunkDuplicate \<Longrightarrow> chunk_digest uid i (cn_db c) = Some sha"
proof -
  show "cn_txn c1 = None" "r \<noteq> ChunkStored \<Longrightarrow> cn_db c1 = cn_db c"
    "r = ChunkDuplicate \<Longrightarrow> chunk_digest uid i (cn_db c) = Some sha"
    using store_result [OF assms] by (auto split: chunk_result.splits)
  show "\<exists>n. insert_chunk uid i sz sha (cn_db c) = Some (n, cn_db c1)" if "r = ChunkStored"
    using assms that
    by (auto simp: storeUploadChunk_def split: if_splits prod.splits option.splits dest!: query_fields run_auto)
qed

text \<open>What accepting a chunk comes to: the record is new and the file is written, or nothing changes.\<close>

lemma accept_cases:
  assumes "accept_chunk io rq s i body F = (a, F')" and "cn_txn (fs_conn F) = None"
  obtains
    (kept) "fs_files F' = fs_files F" "sv_db (fs_server F') = sv_db (fs_server F)" "cn_txn (fs_conn F') = None"
      "fst a \<noteq> 500"
      "a = (200, ChunkSaved) \<Longrightarrow> chunk_digest (hq_match1 rq) i (sv_db (fs_server F)) = Some (hq_header rq ''X-Chunk-Sha256'')"
  | (written) F1 ok n where "hash_hex (hi_junk io) body = hq_header rq ''X-Chunk-Sha256''"
      "insert_chunk (hq_match1 rq) i (chunk_size_of s i) (hq_header rq ''X-Chunk-Sha256'') (sv_db (fs_server F)) =
        Some (n, sv_db (fs_server F1))"
      "fs_files F1 = fs_files F" "cn_txn (fs_conn F1) = None" "write_chunk io s i body F1 = (ok, F')"
      "a = (if ok then (200, ChunkSaved) else (500, NoBody))"
proof (cases "hash_hex (hi_junk io) body = hq_header rq ''X-Chunk-Sha256''")
  case False
  then show thesis using assms by (intro kept) (auto simp: accept_chunk_def Let_def)
next
  case True
  let ?w = "storeUploadChunk (hi_now io) (hq_match1 rq) i (chunk_size_of s i) (hq_header rq ''X-Chunk-Sha256'')"
  obtain r c1 where c1: "?w (fs_conn F) = (r, c1)" by fastforce
  let ?F = "F\<lparr>fs_server := set_conn c1 (fs_server F)\<rparr>"
  have db: "sv_db (fs_server F) = cn_db (fs_conn F)" by (simp add: sv_db_def)
  have w: "fs_write ?w F = (r, ?F)" using c1 by (simp add: fs_write_eq)
  note st = stores_chunk [OF c1 assms(2)]
  show thesis
  proof (cases "r = ChunkStored")
    case False
    then show thesis
      using assms(1) True w st by (intro kept) (auto simp: accept_chunk_def Let_def db split: chunk_result.splits)
  next
    case stored: True
    then obtain n where n: "insert_chunk (hq_match1 rq) i (chunk_size_of s i) (hq_header rq ''X-Chunk-Sha256'')
        (sv_db (fs_server F)) = Some (n, sv_db (fs_server ?F))"
      using st(2) by (auto simp: db)
    obtain ok F2 where F2: "write_chunk io s i body ?F = (ok, F2)" by fastforce
    show thesis
      using assms(1) True w stored st(1) F2 n by (intro written [of n ?F ok]) (auto simp: accept_chunk_def Let_def split: if_splits)
  qed
qed



text \<open>A request is refused before anything is written, or its body is accepted.\<close>

lemma put_cases:
  assumes h: "handleUploadChunk E io rq F = (a, F')" and F1: "authenticate E io rq F = (who, F1)"
    and n: "c_stoi (hq_match2 rq) = Some i" and F2: "fs_read (\<lambda>r. getUploadSession r (hq_match1 rq)) F1 = (s', F2)"
  obtains (idle) "fst a \<notin> {200, 500}" "F' \<in> {F1, F2}"
    | (accept) s b where "s' = Some s" "who = Some (us_uploader s, us_device s)" "chunk_refused io rq s i = None"
        "chunk_body rq s i = Some b" "accept_chunk io rq s i b F2 = (a, F')"
proof (cases who)
  case None
  then show thesis using h F1 by (intro idle) (auto simp: handleUploadChunk_def)
next
  case (Some w)
  obtain uid dev where w: "w = (uid, dev)" by fastforce
  note h1 = h [unfolded handleUploadChunk_def F1 Some w Let_def prod.case option.case n F2]
  show thesis
  proof (cases s')
    case None
    then show thesis using h1 by (intro idle) auto
  next
    case s: (Some s)
    show thesis
    proof (cases "us_uploader s \<noteq> uid \<or> us_device s \<noteq> dev")
      case True
      then show thesis using h1 s by (intro idle) auto
    next
      case own: False
      show thesis
      proof (cases "chunk_refused io rq s i")
        case (Some code)
        then have "code \<notin> {200, 500}" by (auto simp: chunk_refused_def split: if_splits)
        then show thesis using h1 s own Some by (intro idle) auto
      next
        case None
        then show thesis
        proof (cases "chunk_body rq s i")
          case None
          then show thesis using h1 s own \<open>chunk_refused io rq s i = None\<close> by (intro idle) auto
        next
          case b: (Some b)
          then show thesis using h1 s own None Some w by (intro accept [of s b]) simp_all
        qed
      qed
    qed
  qed
qed



section \<open>The whole file\<close>


lemma hash_hex_ref: "length junk = 64 \<Longrightarrow> hash_hex junk c = hex_of (sha256_ref c)"
  by (simp add: hash_hex_def sha_stream_ref)










section \<open>What a failed write loses\<close>

lemma insert_chunk_digest:
  "insert_chunk uid i sz sha d = Some (n, d') \<Longrightarrow> chunk_digest uid i d = None \<and> chunk_digest uid i d' \<noteq> None"
  by (auto simp: insert_chunk_def chunk_digest_None split: if_splits)

text \<open>
  A chunk whose writing failed is lost. The chunk is recorded before it is written. When the write
  fails the request is answered with 500, but the record stays: whoever sends the same chunk again is
  told 200 without a byte being written.
\<close>

theorem failed_chunk_is_lost:
  assumes "handleUploadChunk E io rq F = ((500, b), F1)" and "cn_txn (fs_conn F) = None"
    and "hq_match1 rq' = hq_match1 rq" and "c_stoi (hq_match2 rq') = c_stoi (hq_match2 rq)"
    and "handleUploadChunk E io' rq' F1 = ((200, ChunkSaved), F2)"
  shows "fs_files F2 = fs_files F1"
proof -
  obtain i where i: "c_stoi (hq_match2 rq) = Some i" 
    using assms(1) by (auto simp: handleUploadChunk_def split: prod.splits option.splits)
  obtain who G1 where G1: "authenticate E io rq F = (who, G1)" by fastforce
  obtain s G2 where G2: "fs_read (\<lambda>r. getUploadSession r (hq_match1 rq)) G1 = (s, G2)" by fastforce
  have idle: "cn_txn (fs_conn G2) = None"
    using authenticate_reads [OF G1] fs_read_reads [OF G2] assms(2) by (simp add: reads_only_fields)
  have F1: "chunk_digest (hq_match1 rq) i (sv_db (fs_server F1)) \<noteq> None \<and> cn_txn (fs_conn F1) = None"
    using assms(1) G1 i G2
  proof (cases rule: put_cases)
    case (accept s b)
    from accept(5) idle show ?thesis
    proof (cases rule: accept_cases)
      case (written G3 ok n)
      have "chunk_digest (hq_match1 rq) i (sv_db (fs_server G3)) \<noteq> None"
        using insert_chunk_digest [OF written(2)] by simp
      moreover have "sv_db (fs_server F1) = sv_db (fs_server G3)" "fs_conn F1 = fs_conn G3"
        using written(5) by (auto simp: write_chunk_def Let_def set_file_def split: if_splits option.splits)
      ultimately show ?thesis using written(4) by simp
    qed simp
  qed simp
  obtain who' H1 where H1: "authenticate E io' rq' F1 = (who', H1)" by fastforce
  obtain s' H2 where H2: "fs_read (\<lambda>r. getUploadSession r (hq_match1 rq')) H1 = (s', H2)" by fastforce
  have H: "fs_files H2 = fs_files F1" "sv_db (fs_server H2) = sv_db (fs_server F1)" "cn_txn (fs_conn H2) = None"
    using authenticate_reads [OF H1] fs_read_reads [OF H2] F1 by (simp_all add: reads_only_fields)
  have i': "c_stoi (hq_match2 rq') = Some i" using assms(4) i by simp
  show ?thesis
    using assms(5) H1 i' H2
  proof (cases rule: put_cases)
    case (accept t b)
    from accept(5) H(3) show ?thesis
    proof (cases rule: accept_cases)
      case (written G3 ok n)
      then have "chunk_digest (hq_match1 rq) i (sv_db (fs_server F1)) = None"
        using assms(3) H(2) insert_chunk_digest by metis
      then show ?thesis using F1 by simp
    qed (simp add: H(1))
  qed simp
qed

section \<open>Instant uploads and downloads\<close>

text \<open>
  C20: an instant upload needs the content. A proof is accepted only from the user who was given the
  challenge, within five minutes, when its body is exactly the challenged slice of the stored file;
  the upload it creates is the caller's and leads to that file; and the challenge is spent: the same
  proof is refused from then on, whoever sends it.
\<close>

theorem instant_upload_needs_content:
  assumes "handleProof E io rq F = ((200, b), F1)"
  shows "\<exists>c content uid dev fid. fs_challenges F (hq_match1 rq) = Some c \<and> fs_files F (pc_path c) = Some content \<and>
      fst (authenticate E io rq F) = Some (uid, dev) \<and> pc_uploader c = uid \<and> hi_now io \<le> pc_at c + 300 \<and>
      hq_body rq = take (nat (pc_length c)) (drop (nat (pc_offset c)) content) \<and>
      int (length (hq_body rq)) = pc_length c \<and>
      map_option (\<lambda>r. (ur_uploader r, ur_receiver r, ur_path r)) (sv_uploads (fs_server F1) fid) =
        Some (uid, pc_receiver c, pc_path c) \<and>
      b = InstantReady fid (pc_sha256 c) (pc_size c) (pc_contentType c) \<and> fs_files F1 = fs_files F \<and>
      (\<forall>E' io' rq'. hq_match1 rq' = hq_match1 rq \<longrightarrow> fst (fst (handleProof E' io' rq' F1)) \<in> {401, 404})"
proof -
  obtain who G where G: "authenticate E io rq F = (who, G)" by fastforce
  note fields = reads_only_fields [OF authenticate_reads [OF G]]
  obtain uid dev where who: "who = Some (uid, dev)" using assms G by (cases who) (auto simp: handleProof_def)
  obtain c where c: "fs_challenges G (hq_match1 rq) = Some c"
    using assms G who by (auto simp: handleProof_def split: option.splits)
  note h = assms [unfolded handleProof_def G who prod.case option.case c Let_def]
  have ok: "pc_uploader c = uid" "hi_now io - pc_at c \<le> 300" "int (length (hq_body rq)) = pc_length c"
    using h by (auto split: if_splits)
  define G1 where "G1 = G\<lparr>fs_challenges := (fs_challenges G)(hq_match1 rq := None)\<rparr>"
  have sl: "file_slice G1 (pc_path c) (pc_offset c) (pc_length c) = Some (hq_body rq)"
    using h ok by (auto simp: G1_def split: if_splits)
  obtain content where content: "fs_files F (pc_path c) = Some content"
      "hq_body rq = take (nat (pc_length c)) (drop (nat (pc_offset c)) content)"
    using sl fields by (auto simp: file_slice_def G1_def split: option.splits if_splits)
  let ?fid = "sha256Hex (hi_junk io) (hq_match1 rq @ ''|'' @ int_str (uint (fs_proofs G1)))"
  let ?r = "\<lparr>ur_uploader = uid, ur_receiver = pc_receiver c, ur_path = pc_path c, ur_sha256 = pc_sha256 c,
    ur_size = pc_size c, ur_contentType = pc_contentType c, ur_at = hi_now io\<rparr>"
  have F1: "F1 = add_upload ?fid ?r (G1\<lparr>fs_proofs := fs_proofs G1 + 1\<rparr>)"
    "b = InstantReady ?fid (pc_sha256 c) (pc_size c) (pc_contentType c)"
    using h ok sl unfolding G1_def [symmetric] by (auto simp: Let_def)
  have spent: "fs_challenges F1 (hq_match1 rq) = None" by (simp add: F1 add_upload_def G1_def)
  have "fst (fst (handleProof E' io' rq' F1)) \<in> {401, 404}" if "hq_match1 rq' = hq_match1 rq" for E' io' rq'
  proof -
    obtain w H where H: "authenticate E' io' rq' F1 = (w, H)" by fastforce
    have "fs_challenges H (hq_match1 rq) = None" using reads_only_fields [OF authenticate_reads [OF H]] spent by simp
    then show ?thesis using H that by (cases w) (auto simp: handleProof_def)
  qed
  moreover have "map_option (\<lambda>r. (ur_uploader r, ur_receiver r, ur_path r)) (sv_uploads (fs_server F1) ?fid) =
      Some (uid, pc_receiver c, pc_path c)" "fs_files F1 = fs_files F"
    using fields by (simp_all add: F1 add_upload_def G1_def)
  ultimately show ?thesis
    using c content ok fields G who F1(2) by (intro exI conjI) (auto simp: le_diff_eq)
qed

lemma token_of_caller:
  assumes "authenticate E io rq F = (Some (uid, dev), F1)"
  shows "\<exists>r \<in> set (db_auth (sv_db (fs_server F))). \<not> ar_revoked r \<and> hi_now io < ar_accessExp r \<and> ar_user r = uid \<and>
    ar_device r = hq_header rq ''X-Device-Id'' \<and> dev = hq_header rq ''X-Device-Id'' \<and>
    ar_access r = cstr (tokenHash (en_digest E) (drop 7 (hq_header rq ''Authorization'')))"
proof -
  obtain row G where G: "fs_read (\<lambda>r. validateAccess (en_digest E) r (hi_now io) (drop 7 (hq_header rq ''Authorization''))
      [] (hq_header rq ''X-Device-Id'')) F = (row, G)" by fastforce
  have "map_option (\<lambda>r. (ar_user r, hq_header rq ''X-Device-Id'')) row = Some (uid, dev)"
    using assms G by (auto simp: authenticate_def Let_def split: if_splits)
  then obtain r where r: "row = Some r" "uid = ar_user r" "dev = hq_header rq ''X-Device-Id''" by auto
  from G obtain x where "row = validateAccess (en_digest E) x (hi_now io) (drop 7 (hq_header rq ''Authorization''))
      [] (hq_header rq ''X-Device-Id'') (sv_db (fs_server F))" by (rule fs_readE)
  then have "r \<in> set (db_auth (sv_db (fs_server F)))" "\<not> ar_revoked r" "hi_now io < ar_accessExp r"
    "ar_device r = hq_header rq ''X-Device-Id''"
    "ar_access r = cstr (tokenHash (en_digest E) (drop 7 (hq_header rq ''Authorization'')))"
    using r(1) by (auto simp: validateAccess_def findByAccessHash_def not_le split: if_splits option.splits dest!: fetch_one_in)
  then show ?thesis using r by (intro bexI [of _ r]) simp_all
qed

lemma serve_part_users: "sm_sender (serve_part fid m) = sm_sender m \<and> sm_receiver (serve_part fid m) = sm_receiver m"
  by (simp add: serve_part_def Let_def)

text \<open>
  C19: a file is given only to the two users of its message. A download is answered with a file only to
  a caller whose access token is in the table, unexpired, unrevoked and for the device it names, who
  is the sender or the receiver of a stored message with that file id; the file is that message's.
\<close>

theorem download_authorized:
  assumes "handleDownload E io rq F = ((200, FileContent path ctype name), F1)"
  shows "\<exists>r k. r \<in> set (db_auth (sv_db (fs_server F))) \<and> \<not> ar_revoked r \<and> hi_now io < ar_accessExp r \<and>
      ar_device r = hq_header rq ''X-Device-Id'' \<and>
      ar_access r = cstr (tokenHash (en_digest E) (drop 7 (hq_header rq ''Authorization''))) \<and>
      k \<in> set (db_messages (sv_db (fs_server F))) \<and> has_file (hq_match1 rq) (mr_msg k) \<and>
      path = sm_mediaPath (serve_part (hq_match1 rq) (mr_msg k)) \<and> path \<noteq> [] \<and>
      ar_user r \<in> {sm_sender (mr_msg k), sm_receiver (mr_msg k)} \<and> fs_files F path \<noteq> None \<and>
      fs_files F1 = fs_files F \<and> sv_db (fs_server F1) = sv_db (fs_server F)"
proof -
  let ?dev = "hq_header rq ''X-Device-Id''"
  obtain who G where G: "authenticate E io rq F = (who, G)" by fastforce
  obtain m G1 where G1: "fs_read (\<lambda>r. getMessageByFileId r (hq_match1 rq)) G = (m, G1)" by fastforce
  have rd: "reads_only F G" "reads_only F G1"
    using authenticate_reads [OF G] fs_read_reads [OF G1] reads_only_trans by blast+
  note fields = reads_only_fields [OF rd(1)] reads_only_fields [OF rd(2)]
  obtain uid dev where who: "who = Some (uid, dev)" using assms G by (cases who) (auto simp: handleDownload_def)
  have safe: "isSafeFileId (hq_match1 rq)" using assms G who by (auto simp: handleDownload_def split: if_splits)
  obtain t where t: "m = Some t" using assms G G1 who safe by (cases m) (auto simp: handleDownload_def)
  note h = assms [unfolded handleDownload_def G who Let_def prod.case option.case G1 t]
  have "uid \<in> {sm_sender t, sm_receiver t} \<and> path = sm_mediaPath t \<and> path \<noteq> [] \<and> fs_files F path \<noteq> None \<and> F1 = G1"
    using h safe fields by (auto simp: file_exists_def split: if_splits)
  moreover obtain r where "r \<in> set (db_auth (sv_db (fs_server F)))" "\<not> ar_revoked r" "hi_now io < ar_accessExp r"
    "ar_device r = ?dev" "ar_access r = cstr (tokenHash (en_digest E) (drop 7 (hq_header rq ''Authorization'')))"
    "ar_user r = uid"
    using token_of_caller [OF G [unfolded who]] by blast
  moreover obtain k where "k \<in> set (db_messages (sv_db (fs_server F)))" "has_file (hq_match1 rq) (mr_msg k)"
    "t = serve_part (hq_match1 rq) (mr_msg k)"
  proof -
    from G1 obtain x where "m = getMessageByFileId x (hq_match1 rq) (sv_db (fs_server G))" by (rule fs_readE)
    then have "getMessageByFileId x (hq_match1 rq) (sv_db (fs_server F)) = Some t" using t fields by simp
    then show thesis using that by (auto simp: getMessageByFileId_def dest!: fetch_one_in)
  qed
  ultimately show ?thesis using fields serve_part_users [of "hq_match1 rq"] by metis
qed

section \<open>What the collector deletes\<close>

lemma removed_files: "fs_files (fold (\<lambda>p. set_file p None) ps F) p = (if p \<in> set ps then None else fs_files F p)"
  by (induction ps arbitrary: F) (auto simp: set_file_def)

lemma drop_session_files: "fs_files (drop_session s F) = (fs_files F)(us_tmpPath s := None)"
  by (simp add: drop_session_def fs_write_eq set_file_def)

lemma dropped_files: "fs_files F p = None \<Longrightarrow> fs_files (fold drop_session ss F) p = None"
  by (induction ss arbitrary: F) (simp_all add: drop_session_files)

lemma gc_removes:
  assumes "sv_uploads (fs_server F) i = Some r" and "i \<in> set ids" and "now - ur_at r > 24 * 3600"
  shows "fs_files (gc_round now ids F) (ur_path r) = None"
proof -
  let ?stale = "stale_uploads now ids F"
  have p: "ur_path r \<in> set (map snd ?stale)"
    unfolding stale_uploads_def set_map using assms by (intro image_eqI [of _ _ "(i, ur_path r)"]) (auto intro!: bexI [of _ i])
  define F1 where "F1 = (fold drop_upload (map fst ?stale) F)\<lparr>fs_challenges := (\<lambda>i. case fs_challenges (fold drop_upload (map fst ?stale) F) i of
      None \<Rightarrow> None | Some c \<Rightarrow> if now - pc_at c > 300 then None else Some c)\<rparr>"
  define F2 where "F2 = fold (\<lambda>p. set_file p None) (map snd ?stale) F1"
  obtain q F3 where F3: "fs_read (\<lambda>r. listExpiredUploadSessions r now) F2 = (q, F3)" by fastforce
  have "fs_files F2 (ur_path r) = None" unfolding F2_def removed_files using p by (rule if_P)
  then have "fs_files F3 (ur_path r) = None" using fs_read_reads [OF F3] by (simp add: reads_only_fields)
  moreover have "gc_round now ids F = (if fst q then fold drop_session (snd q) F3 else F3)"
    unfolding gc_round_def Let_def F1_def [symmetric] F2_def [symmetric] F3 by (simp split: prod.split)
  ultimately show ?thesis by (simp add: dropped_files)
qed

text \<open>
  C39: the collector deletes files that messages still need. An instant upload leads to the file of an
  earlier message. When it is not claimed by a message of its own within a day, the collector deletes
  that file, which every message that has it loses.
\<close>

theorem unclaimed_instant_upload_deletes:
  assumes "handleProof E io rq F = ((200, InstantReady fid sha sz ctype), F1)"
    and "fs_challenges F (hq_match1 rq) = Some c" and "sv_uploads (fs_server F2) fid = sv_uploads (fs_server F1) fid"
    and "fid \<in> set ids" and "now > hi_now io + 24 * 3600"
  shows "fs_files F (pc_path c) \<noteq> None \<and> fs_files (gc_round now ids F2) (pc_path c) = None"
proof -
  obtain who G where G: "authenticate E io rq F = (who, G)" by fastforce
  note fields = reads_only_fields [OF authenticate_reads [OF G]]
  obtain uid dev where who: "who = Some (uid, dev)" using assms(1) G by (cases who) (auto simp: handleProof_def)
  have c: "fs_challenges G (hq_match1 rq) = Some c" using assms(2) fields by simp
  note h = assms(1) [unfolded handleProof_def G who prod.case option.case c Let_def]
  have sl: "file_slice (G\<lparr>fs_challenges := (fs_challenges G)(hq_match1 rq := None)\<rparr>) (pc_path c) (pc_offset c) (pc_length c) =
      Some (hq_body rq)"
    using h by (auto split: if_splits)
  then have f: "fs_files F (pc_path c) \<noteq> None" using fields by (auto simp: file_slice_def split: option.splits)
  obtain r where r: "sv_uploads (fs_server F1) fid = Some r" "ur_path r = pc_path c" "ur_at r = hi_now io"
    using h sl by (auto simp: Let_def add_upload_def split: if_splits)
  then have "fs_files (gc_round now ids F2) (ur_path r) = None"
    using assms(3-5) by (intro gc_removes [of F2 fid r]) simp_all
  then show ?thesis using f r by simp
qed

section \<open>Examples\<close>

text \<open>A file of three bytes in two chunks, and the requests of its owner.\<close>

definition demo_upload :: upload_session where
  "demo_upload = \<lparr>us_id = ''u'', us_uploader = 1, us_device = ''d'', us_receiver = 2, us_fileName = ''f'',
     us_fileSize = 3, us_sha256 = hex_of (sha256_ref [1, 2, 3]), us_contentType = ''text/plain'', us_isImage = False,
     us_chunkSize = 2, us_chunkCount = 2, us_expires = 1000, us_state = UpOpen, us_fileId = [],
     us_tmpPath = ''r/chunks/u.part'', us_created = 1\<rparr>"

definition demo_token :: auth_row where
  "demo_token = \<lparr>ar_session = ''s'', ar_family = ''f'', ar_user = 1, ar_device = ''d'', ar_access = [],
     ar_accessExp = 1000, ar_refresh = [], ar_refreshExp = 1000, ar_generation = 1, ar_revoked = False, ar_lastUsed = 0\<rparr>"

definition demo_rq :: "(string \<Rightarrow> string) \<Rightarrow> string \<Rightarrow> bytes list \<Rightarrow> http_rq" where
  "demo_rq h n ps = \<lparr>hq_header = h(''Authorization'' := ''Bearer A'', ''X-Device-Id'' := ''d''), hq_match1 = ''u'', hq_match2 = n,
     hq_body = concat ps, hq_parts = ps, hq_whole = True\<rparr>"

definition demo_io :: "nat option \<Rightarrow> http_io" where
  "demo_io w = \<lparr>hi_now = 10, hi_junk = replicate 64 0, hi_dir = ''r'', hi_open = True, hi_create = True, hi_written = w,
     hi_rename = True, hi_copy = True\<rparr>"

definition demo_put :: "string \<Rightarrow> string \<Rightarrow> bytes \<Rightarrow> http_rq" where
  "demo_put n sz b =
     demo_rq ((\<lambda>_. [])(''Content-Length'' := sz, ''X-Chunk-Sha256'' := hex_of (sha256_ref b))) n [b]"

lemma cstr_hex: "cstr (hex_of b) = hex_of b"
  using set_hex_of [of b] by (intro cstr_id) auto

lemma demo_who:
  assumes "sv_reads (fs_server F) = []"
    and "db_auth (sv_db (fs_server F)) = [demo_token\<lparr>ar_access := tokenHash (en_digest E) ''A''\<rparr>]"
  shows "authenticate E (demo_io w) (demo_rq h n ps) F = (Some (1, ''d''), F)"
  using assms
  by (simp add: authenticate_def demo_rq_def demo_io_def fs_read_ok validateAccess_def findByAccessHash_def Let_def
      fetch_one_def tokenHash_def cstr_hex demo_token_def)

lemma demo_chunk_store:
  assumes c: "cn_script c = []" "cn_txn c = None" "db_uploads (cn_db c) = [demo_upload]"
  shows "storeUploadChunk 10 ''u'' i sz sha c =
    (if i < 0 \<or> sz \<le> 0 \<or> length sha \<noteq> 64 then (ChunkRejected, c)
     else case chunk_digest ''u'' i (cn_db c) of
       Some e \<Rightarrow> (if e = sha then ChunkDuplicate else ChunkConflict, c)
     | None \<Rightarrow> (ChunkStored, c\<lparr>cn_db := (cn_db c)\<lparr>db_chunks := db_chunks (cn_db c) @
             [\<lparr>ck_upload = ''u'', ck_index = i, ck_size = sz, ck_sha256 = cstr sha\<rparr>]\<rparr>\<rparr>))"
  using c by (simp add: storeUploadChunk_def upload_row_def demo_upload_def cstr_def insert_chunk_def split: option.split)

lemma demo_put_step:
  assumes F: "sv_reads (fs_server F) = []" "cn_script (fs_conn F) = []" "cn_txn (fs_conn F) = None"
      "db_auth (sv_db (fs_server F)) = [demo_token\<lparr>ar_access := tokenHash (en_digest E) ''A''\<rparr>]"
      "db_uploads (sv_db (fs_server F)) = [demo_upload]"
    and i: "c_stoi n = Some i" "0 \<le> i" "i < 2" "c_stol sz = Some (int (length b))" "int (length b) = chunk_size_of demo_upload i" "b \<noteq> []"
  shows "handleUploadChunk E (demo_io w) (demo_put n sz b) F = accept_chunk (demo_io w) (demo_put n sz b) demo_upload i b F"
proof -
  have 1: "getUploadSession read_ok ''u'' (sv_db (fs_server F)) = Some demo_upload"
    using F(5) by (simp add: getUploadSession_def fetch_one_def demo_upload_def cstr_def)
  have 2: "chunk_refused (demo_io w) (demo_put n sz b) demo_upload i = None"
    using i by (simp add: chunk_refused_def demo_upload_def demo_put_def demo_rq_def demo_io_def length_hex_of length_sha256_ref)
  have 3: "chunk_body (demo_put n sz b) demo_upload i = Some b"
    using i(5) by (simp add: chunk_body_def demo_put_def demo_rq_def)
  have 4: "hq_match1 (demo_put n sz b) = ''u''" "hq_match2 (demo_put n sz b) = n" by (simp_all add: demo_put_def demo_rq_def)
  have 5: "us_uploader demo_upload = 1" "us_device demo_upload = ''d''" by (simp_all add: demo_upload_def)
  show ?thesis
    unfolding handleUploadChunk_def Let_def
    using demo_who [OF F(1,4)] F(1) i(1) 1 2 3 4 5 by (simp add: demo_put_def fs_read_ok)
qed

definition demo_chunk :: "int \<Rightarrow> bytes \<Rightarrow> chunk_row" where
  "demo_chunk i b = \<lparr>ck_upload = ''u'', ck_index = i, ck_size = int (length b), ck_sha256 = hex_of (sha256_ref b)\<rparr>"

text \<open>The service with these chunks recorded and this temporary file.\<close>

definition demo_at :: "server_env \<Rightarrow> chunk_row list \<Rightarrow> bytes option \<Rightarrow> file_service" where
  "demo_at E ks f = \<lparr>fs_server = server_new default_config
       (empty_db\<lparr>db_uploads := [demo_upload], db_chunks := ks,
          db_auth := [demo_token\<lparr>ar_access := tokenHash (en_digest E) ''A''\<rparr>]\<rparr>) [] [],
     fs_files = Map.empty(us_tmpPath demo_upload := f), fs_challenges = Map.empty, fs_sessions = 0, fs_uploads = 0, fs_proofs = 0\<rparr>"

lemma demo_at_fields [simp]:
  "sv_reads (fs_server (demo_at E ks f)) = []" "cn_script (fs_conn (demo_at E ks f)) = []" "cn_txn (fs_conn (demo_at E ks f)) = None"
  "db_uploads (sv_db (fs_server (demo_at E ks f))) = [demo_upload]" "db_chunks (sv_db (fs_server (demo_at E ks f))) = ks"
  "db_auth (sv_db (fs_server (demo_at E ks f))) = [demo_token\<lparr>ar_access := tokenHash (en_digest E) ''A''\<rparr>]"
  "fs_files (demo_at E ks f) (us_tmpPath demo_upload) = f"
  by (simp_all add: demo_at_def server_new_def sv_db_def sconn_new_def)

lemma demo_accept:
  assumes i: "0 \<le> i" "int (length b) = chunk_size_of demo_upload i" "b \<noteq> []" "i \<notin> ck_index ` set ks"
  shows "accept_chunk (demo_io w) (demo_put n sz b) demo_upload i b (demo_at E ks f) =
    (let (ok, F2) = write_chunk (demo_io w) demo_upload i b (demo_at E (ks @ [demo_chunk i b]) f)
     in if ok then ((200, ChunkSaved), F2) else ((500, NoBody), F2))"
proof -
  let ?F = "demo_at E ks f"
  let ?c = "(fs_conn ?F)\<lparr>cn_db := (cn_db (fs_conn ?F))\<lparr>db_chunks := ks @ [demo_chunk i b]\<rparr>\<rparr>"
  have h: "hq_header (demo_put n sz b) ''X-Chunk-Sha256'' = hex_of (sha256_ref b)" "hq_match1 (demo_put n sz b) = ''u''"
    by (simp_all add: demo_put_def demo_rq_def)
  have j: "hash_hex (hi_junk (demo_io w)) b = hex_of (sha256_ref b)" "hi_now (demo_io w) = 10"
    by (simp_all add: demo_io_def hash_hex_ref)
  have d: "chunk_digest ''u'' i (cn_db (fs_conn ?F)) = None" "db_uploads (cn_db (fs_conn ?F)) = [demo_upload]"
    "db_chunks (cn_db (fs_conn ?F)) = ks"
    using i(4) demo_at_fields(4,5) [of E ks f] by (auto simp: chunk_digest_None sv_db_def)
  have z: "0 < chunk_size_of demo_upload i" using i(2,3) by (cases b) auto
  have s: "storeUploadChunk 10 ''u'' i (chunk_size_of demo_upload i) (hex_of (sha256_ref b)) (fs_conn ?F) = (ChunkStored, ?c)"
    unfolding demo_chunk_store [OF demo_at_fields(2,3) d(2)] using i z d
    by (simp add: length_hex_of length_sha256_ref cstr_hex demo_chunk_def)
  have "?F\<lparr>fs_server := set_conn ?c (fs_server ?F)\<rparr> = demo_at E (ks @ [demo_chunk i b]) f"
    by (simp add: demo_at_def server_new_def sconn_new_def set_conn_def)
  then show ?thesis
    unfolding accept_chunk_def Let_def h j by (simp add: fs_write_eq s)
qed

lemma demo_write:
  "write_chunk (demo_io None) demo_upload i b (demo_at E ks f) =
     (True, demo_at E ks (Some (write_at (nat (i * 2)) b (case f of None \<Rightarrow> [] | Some c \<Rightarrow> c))))"
  "write_chunk (demo_io (Some 0)) demo_upload i b (demo_at E ks f) =
     (False, demo_at E ks (Some (case f of None \<Rightarrow> [] | Some c \<Rightarrow> c)))"
proof -
  have set: "set_file (us_tmpPath demo_upload) g (demo_at E l h) = demo_at E l g" for l g h
    by (simp add: demo_at_def set_file_def)
  have k: "us_chunkSize demo_upload = 2" by (simp add: demo_upload_def)
  show "write_chunk (demo_io None) demo_upload i b (demo_at E ks f) =
     (True, demo_at E ks (Some (write_at (nat (i * 2)) b (case f of None \<Rightarrow> [] | Some c \<Rightarrow> c))))"
    "write_chunk (demo_io (Some 0)) demo_upload i b (demo_at E ks f) =
     (False, demo_at E ks (Some (case f of None \<Rightarrow> [] | Some c \<Rightarrow> c)))"
    by (simp_all add: write_chunk_def file_exists_def demo_io_def Let_def set k split: option.split)
qed

lemma demo_chunk_sent:
  assumes "c_stoi n = Some i" "0 \<le> i" "i < 2" "c_stol sz = Some (int (length b))" "int (length b) = chunk_size_of demo_upload i"
    "b \<noteq> []" and "i \<notin> ck_index ` set ks"
  shows "handleUploadChunk E (demo_io None) (demo_put n sz b) (demo_at E ks f) =
      ((200, ChunkSaved), demo_at E (ks @ [demo_chunk i b])
         (Some (write_at (nat (i * 2)) b (case f of None \<Rightarrow> [] | Some c \<Rightarrow> c))))"
    and "handleUploadChunk E (demo_io (Some 0)) (demo_put n sz b) (demo_at E ks f) =
      ((500, NoBody), demo_at E (ks @ [demo_chunk i b]) (Some (case f of None \<Rightarrow> [] | Some c \<Rightarrow> c)))"
  using demo_put_step [of "demo_at E ks f" E n i sz b] assms
  by (simp_all add: demo_accept demo_write)

lemma demo_chunk_again:
  assumes i: "c_stoi n = Some i" "0 \<le> i" "i < 2" "c_stol sz = Some (int (length b))" "int (length b) = chunk_size_of demo_upload i"
    "b \<noteq> []"
  shows "handleUploadChunk E (demo_io w) (demo_put n sz b) (demo_at E [demo_chunk i b] f) =
    ((200, ChunkSaved), demo_at E [demo_chunk i b] f)"
proof -
  let ?F = "demo_at E [demo_chunk i b] f"
  have h: "hq_header (demo_put n sz b) ''X-Chunk-Sha256'' = hex_of (sha256_ref b)" "hq_match1 (demo_put n sz b) = ''u''"
    by (simp_all add: demo_put_def demo_rq_def)
  have j: "hash_hex (hi_junk (demo_io w)) b = hex_of (sha256_ref b)" "hi_now (demo_io w) = 10"
    by (simp_all add: demo_io_def hash_hex_ref)
  have d: "chunk_digest ''u'' i (cn_db (fs_conn ?F)) = Some (hex_of (sha256_ref b))" "db_uploads (cn_db (fs_conn ?F)) = [demo_upload]"
    using demo_at_fields(4,5) [of E "[demo_chunk i b]" f] by (simp_all add: chunk_digest_def sv_db_def demo_chunk_def cstr_def)
  have z: "0 < chunk_size_of demo_upload i" using i(5,6) by (cases b) auto
  have "storeUploadChunk 10 ''u'' i (chunk_size_of demo_upload i) (hex_of (sha256_ref b)) (fs_conn ?F) = (ChunkDuplicate, fs_conn ?F)"
    unfolding demo_chunk_store [OF demo_at_fields(2,3) d(2)] using i(2) z d by (simp add: length_hex_of length_sha256_ref)
  moreover have "?F\<lparr>fs_server := set_conn (fs_conn ?F) (fs_server ?F)\<rparr> = ?F" by (simp add: set_conn_def)
  ultimately have "accept_chunk (demo_io w) (demo_put n sz b) demo_upload i b ?F = ((200, ChunkSaved), ?F)"
    unfolding accept_chunk_def Let_def h j by (simp add: fs_write_eq)
  then show ?thesis using demo_put_step [of ?F E n i sz b] i by simp
qed


theorem failed_chunk_is_lost_witness:
  "fs_files (snd (handleUploadChunk demo_env (demo_io None) (demo_put ''1'' ''1'' [3])
     (demo_at demo_env [demo_chunk 1 [3]] (Some [])))) (us_tmpPath demo_upload) = Some []"
proof -
  have n: "c_stoi ''1'' = Some 1" "c_stol ''1'' = Some 1" by code_simp+
  have i: "int (length [3::byte]) = chunk_size_of demo_upload 1" by (simp add: chunk_size_of_def demo_upload_def)
  note first = demo_chunk_sent(2) [of "''1''" 1 "''1''" "[3]" "[]" demo_env None]
  have a: "handleUploadChunk demo_env (demo_io (Some 0)) (demo_put ''1'' ''1'' [3]) (demo_at demo_env [] None) =
      ((500, NoBody), demo_at demo_env [demo_chunk 1 [3]] (Some []))"
    using first n i by simp
  have "fst (handleUploadChunk demo_env (demo_io None) (demo_put ''1'' ''1'' [3])
      (demo_at demo_env [demo_chunk 1 [3]] (Some []))) = (200, ChunkSaved)"
    using demo_chunk_again [of "''1''" 1 "''1''" "[3]" demo_env None "Some []"] n i by simp
  then obtain F2 where b: "handleUploadChunk demo_env (demo_io None) (demo_put ''1'' ''1'' [3])
      (demo_at demo_env [demo_chunk 1 [3]] (Some [])) = ((200, ChunkSaved), F2)" by (metis prod.collapse)
  show ?thesis using failed_chunk_is_lost [OF a _ refl refl b] b by simp
qed


text \<open>A stored message with a file, and a challenge on that file.\<close>

definition demo_share :: "server_env \<Rightarrow> file_service" where
  "demo_share E = \<lparr>fs_server = server_new default_config
       (empty_db\<lparr>db_auth := [demo_token\<lparr>ar_access := tokenHash (en_digest E) ''A''\<rparr>],
          db_messages := [\<lparr>mr_id = 1, mr_conv = 4294967298, mr_delivered = False,
            mr_msg = (text_message ''m1'' 1 2 ''f.txt'' 50)\<lparr>sm_type := 2, sm_fileId := ''u'', sm_mediaPath := ''r/x.bin''\<rparr>\<rparr>]\<rparr>) [] [],
     fs_files = [''r/x.bin'' \<mapsto> [7, 8, 9]],
     fs_challenges = [''u'' \<mapsto> \<lparr>pc_uploader = 1, pc_receiver = 2, pc_path = ''r/x.bin'', pc_sha256 = ''h'', pc_size = 3,
       pc_contentType = [], pc_offset = 1, pc_length = 2, pc_at = 5\<rparr>],
     fs_sessions = 0, fs_uploads = 0, fs_proofs = 0\<rparr>"

lemma demo_share_fields:
  "sv_reads (fs_server (demo_share E)) = []"
  "db_auth (sv_db (fs_server (demo_share E))) = [demo_token\<lparr>ar_access := tokenHash (en_digest E) ''A''\<rparr>]"
  by (simp_all add: demo_share_def server_new_def sv_db_def sconn_new_def)

theorem instant_upload_needs_content_witness:
  "\<exists>b F1. handleProof demo_env (demo_io None) (demo_rq (\<lambda>_. []) [] [[8, 9]]) (demo_share demo_env) = ((200, b), F1) \<and>
     fst (fst (handleProof demo_env (demo_io None) (demo_rq (\<lambda>_. []) [] [[8, 9]]) F1)) \<in> {401, 404}"
proof -
  have c: "fs_challenges (demo_share demo_env) ''u'' = Some \<lparr>pc_uploader = 1, pc_receiver = 2, pc_path = ''r/x.bin'',
      pc_sha256 = ''h'', pc_size = 3, pc_contentType = [], pc_offset = 1, pc_length = 2, pc_at = 5\<rparr>"
    "fs_files (demo_share demo_env) ''r/x.bin'' = Some [7, 8, 9]"
    by (simp_all add: demo_share_def)
  have "fst (fst (handleProof demo_env (demo_io None) (demo_rq (\<lambda>_. []) [] [[8, 9]]) (demo_share demo_env))) = 200"
    unfolding handleProof_def demo_who [OF demo_share_fields] Let_def
    using c by (simp add: demo_rq_def demo_io_def file_slice_def)
  then obtain b F1 where r: "handleProof demo_env (demo_io None) (demo_rq (\<lambda>_. []) [] [[8, 9]]) (demo_share demo_env) = ((200, b), F1)"
    by (metis prod.collapse)
  show ?thesis using r instant_upload_needs_content [OF r] by blast
qed

theorem download_authorized_witness:
  "\<exists>r k. r \<in> set (db_auth (sv_db (fs_server (demo_share demo_env)))) \<and>
     k \<in> set (db_messages (sv_db (fs_server (demo_share demo_env)))) \<and>
     ar_user r \<in> {sm_sender (mr_msg k), sm_receiver (mr_msg k)} \<and> ''r/x.bin'' = sm_mediaPath (serve_part ''u'' (mr_msg k))"
proof -
  let ?m = "(text_message ''m1'' 1 2 ''f.txt'' 50)\<lparr>sm_type := 2, sm_fileId := ''u'', sm_mediaPath := ''r/x.bin''\<rparr>"
  have m: "getMessageByFileId read_ok ''u'' (sv_db (fs_server (demo_share demo_env))) = Some ?m"
    by (simp add: getMessageByFileId_def demo_share_def server_new_def sv_db_def sconn_new_def has_file_def cstr_def
        fetch_one_def serve_part_def text_message_def)
  have f: "file_exists (demo_share demo_env) ''r/x.bin''" by (simp add: file_exists_def demo_share_def)
  have s: "isSafeFileId ''u''" by code_simp
  have i: "hq_match1 (demo_rq (\<lambda>_. []) [] []) = ''u''" by (simp add: demo_rq_def)
  have "handleDownload demo_env (demo_io None) (demo_rq (\<lambda>_. []) [] []) (demo_share demo_env) =
      ((200, FileContent ''r/x.bin'' (guessContentType ''r/x.bin'') (Some ''f.txt'')), demo_share demo_env)"
    unfolding handleDownload_def demo_who [OF demo_share_fields] Let_def i
    using m f s by (simp add: fs_read_ok demo_share_fields text_message_def)
  from download_authorized [OF this] show ?thesis unfolding i by blast
qed

theorem unclaimed_instant_upload_deletes_witness:
  "\<exists>fid F1. fs_files (demo_share demo_env) ''r/x.bin'' \<noteq> None \<and> fs_files (gc_round 100000 [fid] F1) ''r/x.bin'' = None \<and>
     map (\<lambda>k. sm_mediaPath (mr_msg k)) (db_messages (sv_db (fs_server (demo_share demo_env)))) = [''r/x.bin'']"
proof -
  let ?c = "\<lparr>pc_uploader = 1, pc_receiver = 2, pc_path = ''r/x.bin'', pc_sha256 = ''h'', pc_size = 3, pc_contentType = [],
    pc_offset = 1, pc_length = 2, pc_at = 5\<rparr>"
  let ?rq = "demo_rq (\<lambda>_. []) [] [[8, 9]]"
  have c: "fs_challenges (demo_share demo_env) ''u'' = Some ?c" "fs_files (demo_share demo_env) ''r/x.bin'' = Some [7, 8, 9]"
    by (simp_all add: demo_share_def)
  obtain fid F1 where r: "handleProof demo_env (demo_io None) ?rq (demo_share demo_env) = ((200, InstantReady fid ''h'' 3 []), F1)"
    unfolding handleProof_def demo_who [OF demo_share_fields] Let_def
    using c by (simp add: demo_rq_def demo_io_def file_slice_def)
  have i: "fs_challenges (demo_share demo_env) (hq_match1 ?rq) = Some ?c" using c by (simp add: demo_rq_def)
  have "fs_files (gc_round 100000 [fid] F1) ''r/x.bin'' = None"
    using unclaimed_instant_upload_deletes [OF r i refl, of "[fid]" 100000] by (simp add: demo_io_def)
  moreover have "map (\<lambda>k. sm_mediaPath (mr_msg k)) (db_messages (sv_db (fs_server (demo_share demo_env)))) = [''r/x.bin'']"
    by (simp add: demo_share_def server_new_def sv_db_def sconn_new_def)
  ultimately show ?thesis using c(2) by (intro exI [of _ fid] exI [of _ F1]) simp
qed

end
