(* ===== verification/ClientDb.thy ===== *)
theory ClientDb
  imports Protocol ServerCore "HOL-Library.List_Lexorder" "HOL-Library.Char_ord" "HOL-Library.Product_Lexorder"
begin

text \<open>
  The tables of the client's encrypted store that hold messages, conversations, the outbox and the
  bookkeeping around them (\<^verbatim>\<open>client_core/src/storage/migrations/*.sql\<close>), the transfer objects the
  repository is called with (\<^verbatim>\<open>client_core/dto/Dtos.h\<close>, \<^verbatim>\<open>NativeRepository.h\<close>), and the way
  a write reaches the database: one writer thread that runs each operation in one transaction
  (\<^verbatim>\<open>DbCommandQueue::writerLoop\<close>), behind the gate of the migration journal
  (\<^verbatim>\<open>NativeDatabase::submitBusinessSync\<close>). A text column that is NULL is read as the empty
  string everywhere, so the two are one value here. Numbers are unbounded.
\<close>

section \<open>Messages\<close>

text \<open>\<open>IM_MEDIA_COLUMNS\<close>: the columns that describe a file of the message.\<close>

record media_cols =
  mc_mediaPath :: string
  mc_imgW :: int
  mc_imgH :: int
  mc_fileId :: string
  mc_fileName :: string
  mc_fileSize :: int
  mc_contentType :: string
  mc_sha256 :: string
  mc_thumbFileId :: string
  mc_thumbPath :: string
  mc_thumbSize :: int
  mc_thumbSha256 :: string
  mc_thumbW :: int
  mc_thumbH :: int
  mc_largeFileId :: string
  mc_largePath :: string
  mc_largeSize :: int
  mc_largeSha256 :: string
  mc_largeW :: int
  mc_largeH :: int
  mc_localPath :: string
  mc_transferred :: int

definition no_media :: media_cols where
  "no_media = \<lparr>mc_mediaPath = [], mc_imgW = 0, mc_imgH = 0, mc_fileId = [], mc_fileName = [], mc_fileSize = 0,
     mc_contentType = [], mc_sha256 = [], mc_thumbFileId = [], mc_thumbPath = [], mc_thumbSize = 0,
     mc_thumbSha256 = [], mc_thumbW = 0, mc_thumbH = 0, mc_largeFileId = [], mc_largePath = [],
     mc_largeSize = 0, mc_largeSha256 = [], mc_largeW = 0, mc_largeH = 0, mc_localPath = [],
     mc_transferred = 0\<rparr>"

text \<open>A row of \<open>messages\<close>, and the transfer object, which carries the search columns too.\<close>

record local_msg =
  lm_owner :: int
  lm_id :: string
  lm_conv :: int
  lm_peer :: int
  lm_seq :: int
  lm_ts :: int
  lm_order :: int
  lm_mine :: bool
  lm_type :: int
  lm_content :: string
  lm_status :: int
  lm_media :: media_cols

record msg_dto = local_msg +
  md_pinyin :: string
  md_initials :: string

text \<open>\<open>fillMissingMedia\<close>: a known value is never replaced.\<close>

definition fill_text :: "string \<Rightarrow> string \<Rightarrow> string" where
  "fill_text old new = (if old = [] then new else old)"

definition fill_num :: "int \<Rightarrow> int \<Rightarrow> int" where
  "fill_num old new = (if old = 0 then new else old)"

definition fill_media :: "media_cols \<Rightarrow> media_cols \<Rightarrow> media_cols" where
  "fill_media n o' =
     \<lparr>mc_mediaPath = fill_text (mc_mediaPath o') (mc_mediaPath n), mc_imgW = fill_num (mc_imgW o') (mc_imgW n),
      mc_imgH = fill_num (mc_imgH o') (mc_imgH n), mc_fileId = fill_text (mc_fileId o') (mc_fileId n),
      mc_fileName = fill_text (mc_fileName o') (mc_fileName n),
      mc_fileSize = fill_num (mc_fileSize o') (mc_fileSize n),
      mc_contentType = fill_text (mc_contentType o') (mc_contentType n),
      mc_sha256 = fill_text (mc_sha256 o') (mc_sha256 n),
      mc_thumbFileId = fill_text (mc_thumbFileId o') (mc_thumbFileId n),
      mc_thumbPath = fill_text (mc_thumbPath o') (mc_thumbPath n),
      mc_thumbSize = fill_num (mc_thumbSize o') (mc_thumbSize n),
      mc_thumbSha256 = fill_text (mc_thumbSha256 o') (mc_thumbSha256 n),
      mc_thumbW = fill_num (mc_thumbW o') (mc_thumbW n), mc_thumbH = fill_num (mc_thumbH o') (mc_thumbH n),
      mc_largeFileId = fill_text (mc_largeFileId o') (mc_largeFileId n),
      mc_largePath = fill_text (mc_largePath o') (mc_largePath n),
      mc_largeSize = fill_num (mc_largeSize o') (mc_largeSize n),
      mc_largeSha256 = fill_text (mc_largeSha256 o') (mc_largeSha256 n),
      mc_largeW = fill_num (mc_largeW o') (mc_largeW n), mc_largeH = fill_num (mc_largeH o') (mc_largeH n),
      mc_localPath = fill_text (mc_localPath o') (mc_localPath n),
      mc_transferred = fill_num (mc_transferred o') (mc_transferred n)\<rparr>"

lemma fill_media_fileId [simp]: "mc_fileId o' \<noteq> [] \<Longrightarrow> mc_fileId (fill_media n o') = mc_fileId o'"
  by (simp add: fill_media_def fill_text_def)

text \<open>The request that carries a message to the server; the identifiers are 32 bits wide there.\<close>

definition narrow32 :: "int \<Rightarrow> int" where
  "narrow32 i = signed_take_bit 31 i"

lemma narrow32_id: "- (2 ^ 31) \<le> i \<Longrightarrow> i < 2 ^ 31 \<Longrightarrow> narrow32 i = i"
  by (simp add: narrow32_def signed_take_bit_int_eq_self)

definition outgoingPayload :: "'a local_msg_scheme \<Rightarrow> chat_info" where
  "outgoingPayload m =
     (let f = lm_media m in
      empty_chat\<lparr>ci_my := narrow32 (lm_owner m), ci_friend := narrow32 (lm_peer m), ci_msgId := lm_id m,
        ci_msg := lm_content m, ci_type := lm_type m, ci_imgW := mc_imgW f, ci_imgH := mc_imgH f,
        ci_fileName := mc_fileName f, ci_fileSize := mc_fileSize f, ci_fileId := mc_fileId f,
        ci_contentType := mc_contentType f, ci_sha256 := mc_sha256 f,
        ci_thumbFileId := mc_thumbFileId f, ci_thumbW := mc_thumbW f, ci_thumbH := mc_thumbH f,
        ci_thumbSize := mc_thumbSize f, ci_thumbSha256 := mc_thumbSha256 f,
        ci_largeFileId := mc_largeFileId f, ci_largeW := mc_largeW f, ci_largeH := mc_largeH f,
        ci_largeSize := mc_largeSize f, ci_largeSha256 := mc_largeSha256 f\<rparr>)"

section \<open>The tables\<close>

record conv_row =
  cv_id :: int
  cv_owner :: int
  cv_peer :: int
  cv_last :: string
  cv_time :: int
  cv_unread :: int
  cv_read :: int
  cv_lastId :: string

record outbox_row =
  ob_order :: int
  ob_owner :: int
  ob_id :: string
  ob_packet :: u32
  ob_payload :: chat_info
  ob_retry :: int
  ob_next :: int
  ob_error :: string
  ob_version :: int
  ob_finished :: int

record fts_row =
  ft_content :: string
  ft_pinyin :: string
  ft_initials :: string

record transfer_row =
  tk_id :: string
  tk_owner :: int
  tk_msg :: string
  tk_file :: string
  tk_path :: string
  tk_transferred :: int
  tk_offset :: int
  tk_state :: int
  tk_generation :: int
  tk_terminal :: bool
  tk_updated :: int

record variant_row =
  va_mime :: string
  va_width :: int
  va_height :: int
  va_size :: int
  va_hash :: string
  va_path :: string
  va_ready :: bool

text \<open>\<open>FriendDto\<close> without its presence, \<open>FriendRequestDto\<close> and \<open>AiSuggestionDto\<close>, with their owners.\<close>

record friend_dto =
  fd_id :: int
  fd_nick :: string
  fd_tel :: string
  fd_avatar :: string
  fd_signature :: string
  fd_sex :: int

datatype request_state = RqPending | RqAccepted | RqRejected

record request_dto =
  fq_id :: string
  fq_from :: int
  fq_to :: int
  fq_outgoing :: bool
  fq_state :: request_state
  fq_message :: string
  fq_created :: int

datatype suggestion_status = SgPending | SgSuccess | SgError | SgAborted

record suggestion_row =
  ag_id :: string
  ag_conv :: int
  ag_peer :: int
  ag_tone :: string
  ag_status :: suggestion_status
  ag_text :: string
  ag_error :: int
  ag_time :: int
  ag_context :: string

text \<open>The draft of an upload: one file of a message that is being sent.\<close>

datatype media_variant = Origin | LargeThumbnail | SmallThumbnail

datatype draft_state = UpPending | UpUploading | UpFinal | UpSent | UpDropped | UpFailed

record draft_row =
  up_id :: string
  up_variant :: media_variant
  up_conv :: int
  up_peer :: int
  up_path :: string
  up_name :: string
  up_size :: int
  up_sha :: string
  up_type :: string
  up_w :: int
  up_h :: int
  up_upload :: string
  up_chunkSize :: int
  up_chunkCount :: int
  up_chunks :: string
  up_file :: string
  up_state :: draft_state
  up_error :: int
  up_created :: int
  up_updated :: int

datatype journal_state = LegacyActive | Prepared | CommittedNoWrite | CommittedDirty

record journal_row =
  jr_epoch :: int
  jr_state :: journal_state
  jr_updated :: int

text \<open>
  The rows of a table with a primary key that other code looks up by that key are a partial function;
  the other tables are lists in the order of insertion, with the owner in front where the row has no
  column for it here, and the inserts check the unique indexes. A row of \<open>friend_requests\<close> also has the
  time of its last change.
\<close>

record client_db =
  cd_messages :: "local_msg list"
  cd_convs :: "conv_row list"
  cd_outbox :: "outbox_row list"
  cd_fts :: "(fts_row \<times> string) list"
  cd_identity :: "int \<times> string \<Rightarrow> fts_row option"
  cd_marks :: "int \<times> string \<times> int \<Rightarrow> (int \<times> int) option"
  cd_sequence :: "int \<Rightarrow> int option"
  cd_journal :: "journal_row list"
  cd_tasks :: "transfer_row list"
  cd_variants :: "string \<times> int \<Rightarrow> variant_row option"
  cd_refs :: "(int \<times> string \<times> string \<times> int) set"
  cd_friends :: "(int \<times> friend_dto) list"
  cd_requests :: "(int \<times> request_dto \<times> int) list"
  cd_suggestions :: "(int \<times> suggestion_row) list"
  cd_uploads :: "(int \<times> draft_row) list"

type_synonym cconn = "client_db conn"

definition empty_client :: client_db where
  "empty_client = \<lparr>cd_messages = [], cd_convs = [], cd_outbox = [], cd_fts = [], cd_identity = (\<lambda>_. None),
     cd_marks = (\<lambda>_. None), cd_sequence = (\<lambda>_. None), cd_journal = [], cd_tasks = [],
     cd_variants = (\<lambda>_. None), cd_refs = {}, cd_friends = [], cd_requests = [], cd_suggestions = [], cd_uploads = []\<rparr>"

section \<open>Transaction bodies and what they ensure\<close>

text \<open>
  A SELECT that is prepared and stepped, where the code gives up on a failure of either.
\<close>

definition sq_select :: "('d \<Rightarrow> 'a) \<Rightarrow> 'd conn \<Rightarrow> 'a option \<times> 'd conn" where
  "sq_select q c =
     (let (b, c) = tick c in
      if \<not> b then (None, c)
      else let (b, c) = tick c in (if b then Some (q (view c)) else None, c))"

text \<open>
  \<open>ensures m Q d\<close>: in a transaction on the tables \<open>d\<close>, whatever fails, the body leaves the committed
  tables alone and stays in its transaction, and where it succeeds its result and its tables are in \<open>Q\<close>.
\<close>

definition ensures :: "('d conn \<Rightarrow> 'a option \<times> 'd conn) \<Rightarrow> ('a \<Rightarrow> 'd \<Rightarrow> bool) \<Rightarrow> 'd \<Rightarrow> bool" where
  "ensures m Q d \<longleftrightarrow>
     (\<forall>c. cn_txn c = Some d \<longrightarrow>
        (\<exists>d'. cn_txn (snd (m c)) = Some d' \<and> cn_db (snd (m c)) = cn_db c \<and>
           (\<forall>x. fst (m c) = Some x \<longrightarrow> Q x d')))"

named_theorems ensures_intros "what a transaction body ensures"

lemma ensuresI:
  assumes "\<And>c r c'. cn_txn c = Some d \<Longrightarrow> m c = (r, c') \<Longrightarrow>
    \<exists>d'. cn_txn c' = Some d' \<and> cn_db c' = cn_db c \<and> (\<forall>x. r = Some x \<longrightarrow> Q x d')"
  shows "ensures m Q d"
  unfolding ensures_def by (metis assms prod.collapse)

lemma ensuresD:
  assumes "ensures m Q d" and "cn_txn c = Some d" and "m c = (r, c')"
  obtains d' where "cn_txn c' = Some d'" and "cn_db c' = cn_db c" and "\<And>x. r = Some x \<Longrightarrow> Q x d'"
  using assms unfolding ensures_def by (metis fst_conv snd_conv)

lemma ensures_weaken:
  assumes "ensures m P d" and "\<And>x d'. P x d' \<Longrightarrow> Q x d'"
  shows "ensures m Q d"
  using assms unfolding ensures_def by meson

lemma ensures_then [ensures_intros]:
  assumes "ensures m (\<lambda>x. ensures (k x) Q) d"
  shows "ensures (sq_then m k) Q d"
proof (rule ensuresI)
  fix c r c'
  assume c: "cn_txn c = Some d" and run: "sq_then m k c = (r, c')"
  obtain r1 c1 where m: "m c = (r1, c1)" by (cases "m c")
  obtain d1 where d1: "cn_txn c1 = Some d1" "cn_db c1 = cn_db c" "\<And>x. r1 = Some x \<Longrightarrow> ensures (k x) Q d1"
    using ensuresD [OF assms c m] by metis
  show "\<exists>d'. cn_txn c' = Some d' \<and> cn_db c' = cn_db c \<and> (\<forall>x. r = Some x \<longrightarrow> Q x d')"
  proof (cases r1)
    case None
    then show ?thesis using run m d1 by (simp add: sq_then_def)
  next
    case (Some x)
    then have "k x c1 = (r, c')" using run m by (simp add: sq_then_def)
    then show ?thesis using ensuresD [OF d1(3) [OF Some] d1(1)] d1(2) by metis
  qed
qed

lemma ensures_return [ensures_intros]: "Q x d \<Longrightarrow> ensures (sq_return x) Q d"
  by (rule ensuresI) (auto simp: sq_return_def)

lemma ensures_guard [ensures_intros]: "(b \<Longrightarrow> Q () d) \<Longrightarrow> ensures (sq_guard b) Q d"
  by (rule ensuresI) (auto simp: sq_guard_def split: if_splits)

lemma ensures_run [ensures_intros]: "(\<And>n d'. f d = Some (n, d') \<Longrightarrow> Q n d') \<Longrightarrow> ensures (sq_run f) Q d"
  by (rule ensuresI)
    (auto simp: sq_run_def sq_step_def view_def set_view_def split: prod.splits if_splits option.splits
      dest!: tick_fields)

lemma ensures_select [ensures_intros]: "Q (q d) d \<Longrightarrow> ensures (sq_select q) Q d"
  by (rule ensuresI)
    (auto simp: sq_select_def view_def split: prod.splits if_splits option.splits dest!: tick_fields)

text \<open>A query whose failing step the code reads as no row.\<close>

lemma ensures_query [ensures_intros]: "Q None d \<Longrightarrow> Q (q d) d \<Longrightarrow> ensures (sq_query q) Q d"
  by (rule ensuresI)
    (auto simp: sq_query_def view_def split: prod.splits if_splits option.splits dest!: tick_fields)

lemma ensures_if [ensures_intros]:
  "(b \<Longrightarrow> ensures m Q d) \<Longrightarrow> (\<not> b \<Longrightarrow> ensures k Q d) \<Longrightarrow> ensures (if b then m else k) Q d"
  by simp

lemma ensures_case_option [ensures_intros]:
  "(x = None \<Longrightarrow> ensures m Q d) \<Longrightarrow> (\<And>y. x = Some y \<Longrightarrow> ensures (k y) Q d) \<Longrightarrow>
     ensures (case x of None \<Rightarrow> m | Some y \<Rightarrow> k y) Q d"
  by (cases x) simp_all

text \<open>What a whole transaction comes to: nothing, or what its body ensures.\<close>

lemma in_txn_ensures:
  assumes run: "in_txn body c = (r, c')" and idle: "cn_txn c = None"
    and body: "ensures body Q (cn_db c)"
  shows "cn_txn c' = None \<and> (case r of None \<Rightarrow> cn_db c' = cn_db c | Some x \<Rightarrow> Q x (cn_db c'))"
proof -
  obtain b c1 where b: "sq_begin c = (b, c1)" by (cases "sq_begin c")
  show ?thesis
  proof (cases b)
    case False
    then show ?thesis
      using run b idle by (auto simp: in_txn_def sq_begin_def split: prod.splits if_splits dest!: tick_fields)
  next
    case True
    then have c1: "cn_txn c1 = Some (cn_db c)" "cn_db c1 = cn_db c"
      using b by (auto simp: sq_begin_def split: prod.splits if_splits dest!: tick_fields)
    obtain r2 c2 where b2: "body c1 = (r2, c2)" by (cases "body c1")
    obtain d2 where d2: "cn_txn c2 = Some d2" "cn_db c2 = cn_db c" "\<And>x. r2 = Some x \<Longrightarrow> Q x d2"
      using ensuresD [OF body c1(1) b2] c1(2) by metis
    show ?thesis
      using run b True b2 d2
      by (auto simp: in_txn_def sq_commit_def sq_rollback_def
          split: prod.splits option.splits if_splits dest!: tick_fields)
  qed
qed

section \<open>The writer\<close>

text \<open>
  \<open>submitBusinessSync\<close>: the newest row of the migration journal decides whether the Native store may
  write. A failing step of the query is read as "no journal".
\<close>

definition newest :: "journal_row list \<Rightarrow> journal_row option" where
  "newest js = (case sort_key (\<lambda>j. - jr_epoch j) js of [] \<Rightarrow> None | j # _ \<Rightarrow> Some j)"

definition mark_dirty :: "int \<Rightarrow> int \<Rightarrow> client_db \<Rightarrow> (nat \<times> client_db) option" where
  "mark_dirty now epoch d =
     (let P = (\<lambda>j. jr_epoch j = epoch \<and> jr_state j = CommittedNoWrite)
      in Some (count_where P (cd_journal d),
               d\<lparr>cd_journal := upd_where P
                   (\<lambda>j. j\<lparr>jr_state := CommittedDirty, jr_updated := max (jr_updated j + 1) now\<rparr>) (cd_journal d)\<rparr>))"

definition gate :: "int \<Rightarrow> (cconn \<Rightarrow> 'a option \<times> cconn) \<Rightarrow> cconn \<Rightarrow> 'a option \<times> cconn" where
  "gate now body =
     sq_then (sq_query (\<lambda>d. newest (cd_journal d))) (\<lambda>j.
       case j of
         None \<Rightarrow> body
       | Some r \<Rightarrow>
           if jr_state r = LegacyActive \<or> jr_state r = Prepared then sq_then (sq_guard False) (\<lambda>_. body)
           else if jr_state r = CommittedNoWrite
             then sq_then (sq_run (mark_dirty now (jr_epoch r))) (\<lambda>n. sq_then (sq_guard (n = 1)) (\<lambda>_. body))
             else body)"

text \<open>
  \<open>runTx\<close>: the writer runs the command in its turn (\<open>Ran\<close>); the caller stops waiting after a minute and
  is told it failed, and the writer runs it all the same (\<open>Late\<close>; commands run in the order they
  were taken); or the command is not taken: no
  database, a full or closed queue, cancelled when the queue closes (\<open>Refused\<close>).
\<close>

datatype turn = Ran | Late | Refused

record write_io =
  wi_turn :: turn
  wi_clock :: int

definition runTx :: "write_io \<Rightarrow> (cconn \<Rightarrow> 'a option \<times> cconn) \<Rightarrow> cconn \<Rightarrow> 'a option \<times> cconn" where
  "runTx w body c =
     (case wi_turn w of
        Ran \<Rightarrow> in_txn (gate (wi_clock w) body) c
      | Late \<Rightarrow> (None, snd (in_txn (gate (wi_clock w) body) c))
      | Refused \<Rightarrow> (None, c))"

text \<open>The tables without the journal, which only the gate writes.\<close>

lemma ensures_gate:
  assumes "\<And>js. ensures body Q (d\<lparr>cd_journal := js\<rparr>)"
  shows "ensures (gate now body) Q d"
proof -
  have body: "ensures body Q d"
    using assms [of "cd_journal d"] by simp
  show ?thesis
    unfolding gate_def
    by (intro ensures_intros impI) (auto simp: mark_dirty_def Let_def intro: body assms)
qed

lemma runTx_ensures:
  assumes run: "runTx w body c = (r, c')" and idle: "cn_txn c = None"
    and body: "\<And>js. ensures body Q (cn_db c\<lparr>cd_journal := js\<rparr>)"
  shows "cn_txn c' = None \<and> (cn_db c' = cn_db c \<or> (\<exists>x. Q x (cn_db c'))) \<and> (\<forall>x. r = Some x \<longrightarrow> Q x (cn_db c'))"
proof (cases "wi_turn w")
  case Refused
  then show ?thesis using run idle by (simp add: runTx_def)
next
  case Ran
  then have "in_txn (gate (wi_clock w) body) c = (r, c')" using run by (simp add: runTx_def)
  then show ?thesis
    using in_txn_ensures [OF _ idle ensures_gate [OF body]] by (fastforce split: option.splits)
next
  case Late
  obtain r1 where "in_txn (gate (wi_clock w) body) c = (r1, c')" and "r = None"
    using run Late by (metis (no_types, lifting) prod.collapse prod.inject runTx_def turn.simps(8))
  then show ?thesis
    using in_txn_ensures [OF _ idle ensures_gate [OF body]] by (fastforce split: option.splits)
qed

end
