(* ===== verification/ClientStore.thy ===== *)
theory ClientStore
  imports ClientDb
begin

text \<open>
  The message operations of the client's repository (\<^verbatim>\<open>client_core/src/storage/NativeRepository.cpp\<close>,
  \<^verbatim>\<open>MessageMediaColumns.h\<close>): each is one transaction of the writer, given by its body; a body gives
  up where the code returns \<open>false\<close>.
\<close>

abbreviation "MAX_I64 \<equiv> (9223372036854775807::int)"
abbreviation "MAX_I32 \<equiv> (2147483647::int)"

section \<open>Messages\<close>

definition lm_is :: "int \<Rightarrow> string \<Rightarrow> local_msg \<Rightarrow> bool" where
  "lm_is owner mid r \<longleftrightarrow> lm_owner r = owner \<and> lm_id r = mid"

definition local_of :: "int \<Rightarrow> string \<Rightarrow> client_db \<Rightarrow> local_msg option" where
  "local_of owner mid d = find (lm_is owner mid) (cd_messages d)"

definition dto_of :: "client_db \<Rightarrow> local_msg \<Rightarrow> msg_dto" where
  "dto_of d r =
     (let f = (case cd_identity d (lm_owner r, lm_id r) of None \<Rightarrow> \<lparr>ft_content = [], ft_pinyin = [], ft_initials = []\<rparr> | Some f \<Rightarrow> f)
      in local_msg.extend r (msg_dto.fields (ft_pinyin f) (ft_initials f)))"

definition readMessage :: "int \<Rightarrow> string \<Rightarrow> client_db \<Rightarrow> msg_dto option" where
  "readMessage owner mid d = map_option (dto_of d) (local_of owner mid d)"

definition compatible :: "msg_dto \<Rightarrow> client_db \<Rightarrow> bool" where
  "compatible m d \<longleftrightarrow>
     (case local_of (lm_owner m) (lm_id m) d of
        None \<Rightarrow> True
      | Some r \<Rightarrow> lm_conv r = lm_conv m \<and> lm_peer r = lm_peer m \<and> lm_mine r = lm_mine m \<and> lm_type r = lm_type m \<and>
          (lm_seq m = 0 \<or> lm_seq r = 0 \<or> lm_seq r = lm_seq m))"

definition compatibleIdentity :: "msg_dto \<Rightarrow> cconn \<Rightarrow> unit option \<times> cconn" where
  "compatibleIdentity m = sq_then (sq_select (compatible m)) sq_guard"

text \<open>The unique index on \<open>(owner_id, peer_id, conversation_seq)\<close>, which leaves sequence 0 out.\<close>

definition seq_unique :: "local_msg list \<Rightarrow> bool" where
  "seq_unique rs \<longleftrightarrow>
     distinct (map (\<lambda>r. (lm_owner r, lm_peer r, lm_seq r)) (filter (\<lambda>r. 0 < lm_seq r) rs))"

text \<open>\<open>INSERT ... ON CONFLICT(owner_id,msg_id) DO NOTHING\<close>; the file columns get their defaults.\<close>

definition new_row :: "msg_dto \<Rightarrow> local_msg" where
  "new_row m = (local_msg.truncate m)\<lparr>lm_media := no_media\<rparr>"

definition insert_local :: "msg_dto \<Rightarrow> client_db \<Rightarrow> (nat \<times> client_db) option" where
  "insert_local m d =
     (if local_of (lm_owner m) (lm_id m) d \<noteq> None then Some (0, d)
      else let rs = cd_messages d @ [new_row m] in
        if seq_unique rs then Some (1, d\<lparr>cd_messages := rs\<rparr>) else None)"

definition fillMissingMedia :: "msg_dto \<Rightarrow> client_db \<Rightarrow> (nat \<times> client_db) option" where
  "fillMissingMedia m d =
     (let P = lm_is (lm_owner m) (lm_id m)
      in Some (count_where P (cd_messages d),
               d\<lparr>cd_messages := upd_where P (\<lambda>r. r\<lparr>lm_media := fill_media (lm_media m) (lm_media r)\<rparr>) (cd_messages d)\<rparr>))"

text \<open>Completing a stored message: only what is still zero is filled in.\<close>

definition settle :: "int \<Rightarrow> int \<Rightarrow> int \<Rightarrow> local_msg \<Rightarrow> local_msg" where
  "settle sq ts st r =
     r\<lparr>lm_seq := (if lm_seq r = 0 \<and> sq > 0 then sq else lm_seq r),
       lm_ts := (if lm_ts r = 0 \<and> ts > 0 then ts else lm_ts r),
       lm_status := (if lm_status r = 0 \<and> st > 0 then st else lm_status r)\<rparr>"

definition settle_where ::
    "(local_msg \<Rightarrow> bool) \<Rightarrow> int \<Rightarrow> int \<Rightarrow> int \<Rightarrow> client_db \<Rightarrow> (nat \<times> client_db) option" where
  "settle_where P sq ts st d =
     (let rs = upd_where P (settle sq ts st) (cd_messages d) in
      if seq_unique rs then Some (count_where P (cd_messages d), d\<lparr>cd_messages := rs\<rparr>) else None)"

section \<open>Conversations and search\<close>

record incoming_ctx =
  ic_roaming :: bool
  ic_active :: int

definition no_ctx :: incoming_ctx where
  "no_ctx = \<lparr>ic_roaming = False, ic_active = 0\<rparr>"

definition takes_preview :: "bool \<Rightarrow> msg_dto \<Rightarrow> int \<Rightarrow> client_db \<Rightarrow> conv_row \<Rightarrow> bool" where
  "takes_preview draft m t d cv \<longleftrightarrow>
     draft \<or> cv_lastId cv = [] \<and> t \<ge> cv_time cv \<or> cv_lastId cv = lm_id m \<or> t > cv_time cv \<or>
     t = cv_time cv \<and>
       (let (s, k) = (case local_of (lm_owner m) (cv_lastId cv) d of None \<Rightarrow> (0, 0) | Some r \<Rightarrow> (lm_seq r, lm_order r))
        in (s, k, cv_lastId cv) < (lm_seq m, lm_order m, lm_id m))"

definition project :: "bool \<Rightarrow> msg_dto \<Rightarrow> int \<Rightarrow> client_db \<Rightarrow> (nat \<times> client_db) option" where
  "project draft m t d =
     (let P = (\<lambda>cv. cv_owner cv = lm_owner m \<and> cv_id cv = lm_conv m \<and> takes_preview draft m t d cv)
      in Some (count_where P (cd_convs d),
               d\<lparr>cd_convs := upd_where P
                   (\<lambda>cv. cv\<lparr>cv_lastId := lm_id m, cv_last := lm_content m, cv_time := max (cv_time cv) t\<rparr>) (cd_convs d)\<rparr>))"

text \<open>The incoming messages of a conversation beyond a sequence number.\<close>

definition unread_beyond :: "int \<Rightarrow> int \<Rightarrow> int \<Rightarrow> client_db \<Rightarrow> int" where
  "unread_beyond owner conv sq d =
     int (count_where (\<lambda>r. lm_owner r = owner \<and> lm_conv r = conv \<and> \<not> lm_mine r \<and> lm_seq r > sq) (cd_messages d))"

definition read_active :: "msg_dto \<Rightarrow> client_db \<Rightarrow> (nat \<times> client_db) option" where
  "read_active m d =
     (let P = (\<lambda>cv. cv_owner cv = lm_owner m \<and> cv_id cv = lm_conv m)
      in Some (count_where P (cd_convs d),
               d\<lparr>cd_convs := upd_where P
                   (\<lambda>cv. let k = max (cv_read cv) (lm_seq m)
                         in cv\<lparr>cv_read := k, cv_unread := unread_beyond (lm_owner m) (lm_conv m) k d\<rparr>) (cd_convs d)\<rparr>))"

definition finishProjection :: "int \<Rightarrow> msg_dto \<Rightarrow> bool \<Rightarrow> incoming_ctx \<Rightarrow> cconn \<Rightarrow> nat option \<times> cconn" where
  "finishProjection now m draft ctx =
     sq_then (sq_run (project draft m (if draft then now else lm_ts m))) (\<lambda>n.
       if \<not> lm_mine m \<and> \<not> ic_roaming ctx \<and> ic_active ctx = lm_conv m \<and> lm_seq m > 0
       then sq_run (read_active m) else sq_return n)"

definition bumpMaxSeen :: "int \<Rightarrow> int \<Rightarrow> int \<Rightarrow> int \<Rightarrow> client_db \<Rightarrow> (nat \<times> client_db) option" where
  "bumpMaxSeen owner peer sq ts d =
     (let k = (owner, ''maxseen'', peer);
          s = (case cd_marks d k of None \<Rightarrow> sq | Some (old, _) \<Rightarrow> max old sq)
      in Some (1, d\<lparr>cd_marks := (cd_marks d)(k \<mapsto> (s, ts))\<rparr>))"

definition fts_of :: "msg_dto \<Rightarrow> fts_row" where
  "fts_of m = \<lparr>ft_content = lm_content m, ft_pinyin = md_pinyin m, ft_initials = md_initials m\<rparr>"

definition upsertFts :: "msg_dto \<Rightarrow> cconn \<Rightarrow> nat option \<times> cconn" where
  "upsertFts m =
     sq_then (sq_run (\<lambda>d. Some (1, d\<lparr>cd_fts := cd_fts d @ [(fts_of m, lm_id m)]\<rparr>))) (\<lambda>_.
       sq_run (\<lambda>d. Some (1, d\<lparr>cd_identity := (cd_identity d)((lm_owner m, lm_id m) \<mapsto> fts_of m)\<rparr>)))"

text \<open>\<open>INSERT INTO conversations ... ON CONFLICT(conversation_id) DO UPDATE\<close>; \<open>(owner_id, peer_id)\<close> is unique.\<close>

definition upsert_conv :: "msg_dto \<Rightarrow> int \<Rightarrow> (conv_row \<Rightarrow> conv_row) \<Rightarrow> client_db \<Rightarrow> (nat \<times> client_db) option" where
  "upsert_conv m unread f d =
     (if list_ex (\<lambda>cv. cv_id cv = lm_conv m) (cd_convs d)
      then Some (1, d\<lparr>cd_convs := upd_where (\<lambda>cv. cv_id cv = lm_conv m) f (cd_convs d)\<rparr>)
      else if list_ex (\<lambda>cv. cv_owner cv = lm_owner m \<and> cv_peer cv = lm_peer m) (cd_convs d) then None
      else Some (1, d\<lparr>cd_convs := cd_convs d @
             [\<lparr>cv_id = lm_conv m, cv_owner = lm_owner m, cv_peer = lm_peer m, cv_last = lm_content m,
               cv_time = lm_ts m, cv_unread = unread, cv_read = 0, cv_lastId = []\<rparr>]\<rparr>))"

definition count_one :: "bool \<Rightarrow> int \<Rightarrow> conv_row \<Rightarrow> conv_row" where
  "count_one counted sq cv =
     cv\<lparr>cv_unread := cv_unread cv + (if counted \<and> sq > cv_read cv then 1 else 0)\<rparr>"

section \<open>Receiving\<close>

definition remove_outbox :: "int \<Rightarrow> string \<Rightarrow> client_db \<Rightarrow> (nat \<times> client_db) option" where
  "remove_outbox owner mid d =
     (let P = (\<lambda>o'. ob_owner o' = owner \<and> ob_id o' = mid)
      in Some (count_where P (cd_outbox d), d\<lparr>cd_outbox := filter (\<lambda>o'. \<not> P o') (cd_outbox d)\<rparr>))"

definition merge_known :: "int \<Rightarrow> msg_dto \<Rightarrow> incoming_ctx \<Rightarrow> cconn \<Rightarrow> bool option \<times> cconn" where
  "merge_known now m ctx =
     sq_then (sq_run (settle_where (lm_is (lm_owner m) (lm_id m)) (lm_seq m) (lm_ts m) (lm_status m))) (\<lambda>_.
     sq_then (finishProjection now m False ctx) (\<lambda>_.
     sq_then (if lm_mine m \<and> lm_seq m > 0 \<and> lm_status m > 0
              then sq_run (remove_outbox (lm_owner m) (lm_id m)) else sq_return 0) (\<lambda>_.
     sq_then (sq_run (bumpMaxSeen (lm_owner m) (lm_peer m) (lm_seq m) (lm_ts m))) (\<lambda>_.
     sq_return False))))"

definition merge_new :: "int \<Rightarrow> msg_dto \<Rightarrow> incoming_ctx \<Rightarrow> cconn \<Rightarrow> bool option \<times> cconn" where
  "merge_new now m ctx =
     (let counted = \<not> lm_mine m \<and> \<not> ic_roaming ctx \<and> ic_active ctx \<noteq> lm_conv m in
      sq_then (upsertFts m) (\<lambda>_.
      sq_then (sq_run (upsert_conv m (if counted then 1 else 0) (count_one counted (lm_seq m)))) (\<lambda>_.
      sq_then (finishProjection now m False ctx) (\<lambda>_.
      sq_then (sq_run (bumpMaxSeen (lm_owner m) (lm_peer m) (lm_seq m) (lm_ts m))) (\<lambda>_.
      sq_return True)))))"

definition mergeIncoming :: "int \<Rightarrow> msg_dto \<Rightarrow> incoming_ctx \<Rightarrow> cconn \<Rightarrow> bool option \<times> cconn" where
  "mergeIncoming now m ctx =
     sq_then (sq_guard (0 < lm_owner m \<and> lm_id m \<noteq> [] \<and> 0 < lm_peer m \<and> 0 < lm_conv m)) (\<lambda>_.
     sq_then (compatibleIdentity m) (\<lambda>_.
     sq_then (sq_run (insert_local m)) (\<lambda>n.
     sq_then (sq_run (fillMissingMedia m)) (\<lambda>_.
     if n = 0 then merge_known now m ctx else merge_new now m ctx))))"

definition commitIncomingMessage ::
    "write_io \<Rightarrow> msg_dto \<Rightarrow> incoming_ctx \<Rightarrow> cconn \<Rightarrow> bool option \<times> cconn" where
  "commitIncomingMessage w m ctx c =
     (if lm_owner m \<le> 0 \<or> lm_id m = [] \<or> lm_conv m \<le> 0 \<or> lm_peer m \<le> 0 then (None, c)
      else runTx w (mergeIncoming (wi_clock w) m ctx) c)"

section \<open>Sending\<close>

definition max_order :: "('a \<Rightarrow> int) \<Rightarrow> 'a list \<Rightarrow> int" where
  "max_order f xs = (if xs = [] then 0 else Max (set (map f xs)))"

definition alloc_order :: "int \<Rightarrow> int \<Rightarrow> client_db \<Rightarrow> (nat \<times> client_db) option" where
  "alloc_order owner wanted d =
     (let k = max wanted (max (max_order lm_order (cd_messages d)) (max_order ob_order (cd_outbox d)) + 1) in
      if k < 0 then None
      else case cd_sequence d owner of
        None \<Rightarrow> Some (1, d\<lparr>cd_sequence := (cd_sequence d)(owner \<mapsto> k)\<rparr>)
      | Some l \<Rightarrow>
          if l < MAX_I64 then Some (1, d\<lparr>cd_sequence := (cd_sequence d)(owner \<mapsto> max (l + 1) k)\<rparr>)
          else Some (0, d))"

definition enqueue :: "msg_dto \<Rightarrow> client_db \<Rightarrow> (nat \<times> client_db) option" where
  "enqueue m d =
     (if list_ex (\<lambda>o'. ob_order o' = lm_order m \<or> ob_owner o' = lm_owner m \<and> ob_id o' = lm_id m) (cd_outbox d)
      then None
      else Some (1, d\<lparr>cd_outbox := cd_outbox d @
             [\<lparr>ob_order = lm_order m, ob_owner = lm_owner m, ob_id = lm_id m,
               ob_packet = prot_num CHAT_INFO_RQ, ob_payload = outgoingPayload m, ob_retry = 0, ob_next = 0,
               ob_error = [], ob_version = 1, ob_finished = 0\<rparr>]\<rparr>))"

definition write_draft :: "int \<Rightarrow> msg_dto \<Rightarrow> cconn \<Rightarrow> int option \<times> cconn" where
  "write_draft now m =
     sq_then (sq_run (insert_local m)) (\<lambda>n.
     sq_then (sq_run (fillMissingMedia m)) (\<lambda>_.
     if n = 0 then sq_return (lm_order m)
     else
       sq_then (sq_run (enqueue m)) (\<lambda>_.
       sq_then (upsertFts m) (\<lambda>_.
       sq_then (sq_run (upsert_conv m 0 (\<lambda>cv. cv\<lparr>cv_last := lm_content m\<rparr>))) (\<lambda>_.
       sq_then (finishProjection now m True no_ctx) (\<lambda>_.
       sq_return (lm_order m)))))))"

definition draft_body :: "int \<Rightarrow> msg_dto \<Rightarrow> cconn \<Rightarrow> int option \<times> cconn" where
  "draft_body now m =
     sq_then (compatibleIdentity m) (\<lambda>_.
     sq_then (sq_select (local_of (lm_owner m) (lm_id m))) (\<lambda>known.
     case known of
       Some r \<Rightarrow> sq_return (lm_order r)
     | None \<Rightarrow>
         sq_then (sq_run (alloc_order (lm_owner m) (lm_order m))) (\<lambda>n.
         sq_then (sq_guard (n = 1)) (\<lambda>_.
         sq_then (sq_select (\<lambda>d. cd_sequence d (lm_owner m))) (\<lambda>got.
         case got of
           None \<Rightarrow> sq_then (sq_guard False) (\<lambda>_. sq_return 0)
         | Some k \<Rightarrow> sq_then (sq_guard (0 < k)) (\<lambda>_. write_draft now (m\<lparr>lm_order := k\<rparr>)))))))"

definition commitOutgoingDraft :: "write_io \<Rightarrow> msg_dto \<Rightarrow> cconn \<Rightarrow> int option \<times> cconn" where
  "commitOutgoingDraft w m c =
     (if lm_owner m \<le> 0 \<or> lm_id m = [] then (None, c) else runTx w (draft_body (wi_clock w) m) c)"

section \<open>Acknowledging\<close>

definition touch_preview :: "int \<Rightarrow> string \<Rightarrow> int \<Rightarrow> client_db \<Rightarrow> (nat \<times> client_db) option" where
  "touch_preview owner mid ts d =
     (let P = (\<lambda>cv. cv_owner cv = owner \<and> cv_lastId cv = mid)
      in Some (count_where P (cd_convs d),
               d\<lparr>cd_convs := upd_where P (\<lambda>cv. cv\<lparr>cv_time := max (cv_time cv) ts\<rparr>) (cd_convs d)\<rparr>))"

definition note_retryable :: "int \<Rightarrow> string \<Rightarrow> client_db \<Rightarrow> (nat \<times> client_db) option" where
  "note_retryable owner mid d =
     (let P = (\<lambda>o'. ob_owner o' = owner \<and> ob_id o' = mid)
      in Some (count_where P (cd_outbox d),
               d\<lparr>cd_outbox := upd_where P (\<lambda>o'. o'\<lparr>ob_error := ''retryable''\<rparr>) (cd_outbox d)\<rparr>))"

definition ack_changes :: "int \<Rightarrow> string \<Rightarrow> int \<Rightarrow> int \<Rightarrow> int \<Rightarrow> local_msg \<Rightarrow> bool" where
  "ack_changes owner mid ts sq st r \<longleftrightarrow>
     lm_is owner mid r \<and> (lm_seq r = 0 \<and> sq > 0 \<or> lm_ts r = 0 \<and> ts > 0 \<or> lm_status r = 0 \<and> st > 0)"

definition ack_body :: "int \<Rightarrow> string \<Rightarrow> int \<Rightarrow> int \<Rightarrow> int \<Rightarrow> cconn \<Rightarrow> bool option \<times> cconn" where
  "ack_body owner mid ts sq st =
     sq_then (sq_select (local_of owner mid)) (\<lambda>known.
     case known of
       None \<Rightarrow> sq_return False
     | Some r \<Rightarrow>
         sq_then (sq_guard (\<not> (lm_seq r > 0 \<and> sq > 0 \<and> lm_seq r \<noteq> sq))) (\<lambda>_.
         sq_then (sq_run (settle_where (ack_changes owner mid ts sq st) sq ts st)) (\<lambda>n.
         if st > 0
         then sq_then (sq_run (touch_preview owner mid ts)) (\<lambda>_.
              sq_then (sq_run (remove_outbox owner mid)) (\<lambda>_. sq_return (n > 0)))
         else sq_then (sq_run (note_retryable owner mid)) (\<lambda>_. sq_return (n > 0)))))"

definition commitAck ::
    "write_io \<Rightarrow> int \<Rightarrow> string \<Rightarrow> int \<Rightarrow> int \<Rightarrow> int \<Rightarrow> cconn \<Rightarrow> bool option \<times> cconn" where
  "commitAck w owner mid ts sq st c =
     (if st < 0 \<or> st > 3 \<or> sq < 0 then (None, c) else runTx w (ack_body owner mid ts sq st) c)"

section \<open>The outbox\<close>

record outbox_attempt =
  oa_id :: string
  oa_payload :: chat_info
  oa_packet :: u32
  oa_attempt :: int
  oa_order :: int

definition due :: "int \<Rightarrow> int \<Rightarrow> int \<Rightarrow> client_db \<Rightarrow> outbox_row list" where
  "due owner now limit d =
     take (nat limit) (sort_key ob_order
       (filter (\<lambda>o'. ob_owner o' = owner \<and> ob_next o' \<le> now \<and> ob_retry o' < MAX_I32) (cd_outbox d)))"

definition lease_row :: "int \<Rightarrow> string \<Rightarrow> int \<Rightarrow> int \<Rightarrow> chat_info \<Rightarrow> client_db \<Rightarrow> (nat \<times> client_db) option" where
  "lease_row owner mid attempt until p d =
     (let P = (\<lambda>o'. ob_owner o' = owner \<and> ob_id o' = mid)
      in Some (count_where P (cd_outbox d),
               d\<lparr>cd_outbox := upd_where P
                   (\<lambda>o'. o'\<lparr>ob_retry := attempt, ob_next := until, ob_version := 1,
                          ob_packet := prot_num CHAT_INFO_RQ, ob_payload := p\<rparr>) (cd_outbox d)\<rparr>))"

fun claim_rows :: "int \<Rightarrow> int \<Rightarrow> outbox_row list \<Rightarrow> cconn \<Rightarrow> outbox_attempt list option \<times> cconn" where
  "claim_rows owner until [] = sq_return []"
| "claim_rows owner until (o' # os) =
     sq_then (sq_select (readMessage owner (ob_id o'))) (\<lambda>found.
     case found of
       None \<Rightarrow> sq_then (sq_guard False) (\<lambda>_. sq_return [])
     | Some m \<Rightarrow>
         sq_then (sq_guard (lm_mine m)) (\<lambda>_.
         sq_then (sq_run (lease_row owner (ob_id o') (ob_retry o' + 1) until (outgoingPayload m))) (\<lambda>_.
         sq_then (claim_rows owner until os) (\<lambda>as.
         sq_return (\<lparr>oa_id = ob_id o', oa_payload = outgoingPayload m, oa_packet = prot_num CHAT_INFO_RQ,
                      oa_attempt = ob_retry o' + 1, oa_order = ob_order o'\<rparr> # as)))))"

definition claim_body :: "int \<Rightarrow> int \<Rightarrow> int \<Rightarrow> int \<Rightarrow> cconn \<Rightarrow> outbox_attempt list option \<times> cconn" where
  "claim_body owner now lease limit =
     sq_then (sq_select (due owner now limit)) (\<lambda>rows.
     sq_then (sq_guard (list_all (\<lambda>o'. ob_version o' \<le> 1) rows)) (\<lambda>_.
     claim_rows owner (now + lease) rows))"

definition claimOutbox ::
    "write_io \<Rightarrow> int \<Rightarrow> int \<Rightarrow> int \<Rightarrow> int \<Rightarrow> cconn \<Rightarrow> outbox_attempt list option \<times> cconn" where
  "claimOutbox w owner now lease limit c =
     (if owner \<le> 0 \<or> now < 0 \<or> lease \<le> 0 \<or> lease > 3600 \<or> limit \<le> 0 \<or> limit > 64 \<or> now > MAX_I64 - lease
      then (None, c) else runTx w (claim_body owner now lease limit) c)"

definition finish_row :: "int \<Rightarrow> string \<Rightarrow> int \<Rightarrow> bool \<Rightarrow> int \<Rightarrow> string \<Rightarrow> client_db \<Rightarrow> (nat \<times> client_db) option" where
  "finish_row owner mid attempt terminal retryAt err d =
     (let P = (\<lambda>o'. ob_owner o' = owner \<and> ob_id o' = mid \<and> ob_retry o' = attempt \<and> ob_finished o' < attempt \<and>
                    ob_next o' \<noteq> MAX_I64)
      in Some (count_where P (cd_outbox d),
               d\<lparr>cd_outbox := upd_where P
                   (\<lambda>o'. o'\<lparr>ob_error := take 1024 err, ob_next := (if terminal then MAX_I64 else retryAt),
                          ob_finished := attempt\<rparr>) (cd_outbox d)\<rparr>))"

definition finishOutboxAttempt ::
    "write_io \<Rightarrow> int \<Rightarrow> string \<Rightarrow> int \<Rightarrow> bool \<Rightarrow> int \<Rightarrow> string \<Rightarrow> cconn \<Rightarrow> nat option \<times> cconn" where
  "finishOutboxAttempt w owner mid attempt terminal retryAt err c =
     (if owner \<le> 0 \<or> mid = [] \<or> attempt \<le> 0 \<or> retryAt < 0 then (None, c)
      else runTx w (sq_run (finish_row owner mid attempt terminal retryAt err)) c)"

definition cancel_row :: "int \<Rightarrow> string \<Rightarrow> client_db \<Rightarrow> (nat \<times> client_db) option" where
  "cancel_row owner mid d =
     (let P = (\<lambda>o'. ob_owner o' = owner \<and> ob_id o' = mid)
      in Some (count_where P (cd_outbox d),
               d\<lparr>cd_outbox := upd_where P (\<lambda>o'. o'\<lparr>ob_next := MAX_I64, ob_error := ''cancelled''\<rparr>) (cd_outbox d)\<rparr>))"

definition cancelOutbox :: "write_io \<Rightarrow> int \<Rightarrow> string \<Rightarrow> cconn \<Rightarrow> nat option \<times> cconn" where
  "cancelOutbox w owner mid c = runTx w (sq_run (cancel_row owner mid)) c"

section \<open>Files of a message\<close>

text \<open>\<open>MediaTaskDto\<close>, the part that is stored.\<close>

record media_task =
  me_hash :: string
  me_variant :: int
  me_mime :: string
  me_width :: int
  me_height :: int
  me_total :: int
  me_path :: string
  me_success :: bool

definition put_variant :: "media_task \<Rightarrow> client_db \<Rightarrow> (nat \<times> client_db) option" where
  "put_variant t d =
     (let v = \<lparr>va_mime = me_mime t, va_width = me_width t, va_height = me_height t, va_size = me_total t,
               va_hash = me_hash t, va_path = me_path t, va_ready = me_success t\<rparr>;
          k = (me_hash t, me_variant t)
      in case cd_variants d k of
           None \<Rightarrow> Some (1, d\<lparr>cd_variants := (cd_variants d)(k \<mapsto> v)\<rparr>)
         | Some old \<Rightarrow>
             if \<not> va_ready old \<and> me_success t then Some (1, d\<lparr>cd_variants := (cd_variants d)(k \<mapsto> v)\<rparr>)
             else Some (0, d))"

definition put_ref :: "int \<Rightarrow> string \<Rightarrow> media_task \<Rightarrow> client_db \<Rightarrow> (nat \<times> client_db) option" where
  "put_ref owner mid t d =
     Some (1, d\<lparr>cd_refs := insert (owner, mid, me_hash t, me_variant t) (cd_refs d)\<rparr>)"

fun put_variants :: "int \<Rightarrow> string \<Rightarrow> media_task list \<Rightarrow> cconn \<Rightarrow> unit option \<times> cconn" where
  "put_variants owner mid [] = sq_return ()"
| "put_variants owner mid (t # ts) =
     sq_then (sq_run (put_variant t)) (\<lambda>_.
     sq_then (sq_run (put_ref owner mid t)) (\<lambda>_. put_variants owner mid ts))"

definition media_body :: "int \<Rightarrow> media_task list \<Rightarrow> msg_dto \<Rightarrow> cconn \<Rightarrow> unit option \<times> cconn" where
  "media_body now ts m =
     sq_then (compatibleIdentity m) (\<lambda>_.
     sq_then (mergeIncoming now m no_ctx) (\<lambda>_. put_variants (lm_owner m) (lm_id m) ts))"

definition upsertMediaAndMessage :: "write_io \<Rightarrow> media_task list \<Rightarrow> msg_dto \<Rightarrow> cconn \<Rightarrow> unit option \<times> cconn" where
  "upsertMediaAndMessage w ts m c = runTx w (media_body (wi_clock w) ts m) c"

text \<open>Downloads: a task for a file that a stored message names, with its digest.\<close>

definition is_xdigit :: "char \<Rightarrow> bool" where
  "is_xdigit c \<longleftrightarrow> c \<in> set ''0123456789abcdefABCDEF''"

definition file_digest :: "string \<Rightarrow> media_cols \<Rightarrow> string" where
  "file_digest f m =
     (if f = mc_fileId m then mc_sha256 m
      else if f = mc_thumbFileId m then mc_thumbSha256 m
      else if f = mc_largeFileId m then mc_largeSha256 m else [])"

definition supersede :: "int \<Rightarrow> string \<Rightarrow> int \<Rightarrow> client_db \<Rightarrow> (nat \<times> client_db) option" where
  "supersede owner f now d =
     (let P = (\<lambda>t. tk_owner t = owner \<and> tk_file t = f \<and> \<not> tk_terminal t)
      in Some (count_where P (cd_tasks d),
               d\<lparr>cd_tasks := upd_where P (\<lambda>t. t\<lparr>tk_state := 5, tk_terminal := True, tk_updated := now\<rparr>) (cd_tasks d)\<rparr>))"

definition add_task ::
    "int \<Rightarrow> string \<Rightarrow> string \<Rightarrow> string \<Rightarrow> string \<Rightarrow> int \<Rightarrow> int \<Rightarrow> client_db \<Rightarrow> (nat \<times> client_db) option" where
  "add_task owner tid mid f path gen now d =
     (if list_ex (\<lambda>t. tk_id t = tid) (cd_tasks d) then None
      else Some (1, d\<lparr>cd_tasks := cd_tasks d @
             [\<lparr>tk_id = tid, tk_owner = owner, tk_msg = mid, tk_file = f, tk_path = path, tk_transferred = 0,
               tk_offset = 0, tk_state = 0, tk_generation = gen, tk_terminal = False, tk_updated = now\<rparr>]\<rparr>))"

definition download_body ::
    "int \<Rightarrow> string \<Rightarrow> string \<Rightarrow> string \<Rightarrow> string \<Rightarrow> int \<Rightarrow> int \<Rightarrow> cconn \<Rightarrow> nat option \<times> cconn" where
  "download_body owner tid mid f path gen now =
     sq_then (sq_select (\<lambda>d. map_option (\<lambda>r. file_digest f (lm_media r)) (local_of owner mid d))) (\<lambda>got.
     sq_then (sq_guard (case got of None \<Rightarrow> False | Some h \<Rightarrow> length h = 64 \<and> list_all is_xdigit h)) (\<lambda>_.
     sq_then (sq_run (supersede owner f now)) (\<lambda>_.
     sq_run (add_task owner tid mid f path gen now))))"

definition beginDownloadTask ::
    "write_io \<Rightarrow> int \<Rightarrow> string \<Rightarrow> string \<Rightarrow> string \<Rightarrow> string \<Rightarrow> int \<Rightarrow> cconn \<Rightarrow> nat option \<times> cconn" where
  "beginDownloadTask w owner tid mid f path gen c =
     (if owner \<le> 0 \<or> gen \<le> 0 \<or> tid = [] \<or> mid = [] \<or> f = [] \<or> path = [] \<or> length tid > 128 \<or> length f > 128
      then (None, c) else runTx w (download_body owner tid mid f path gen (wi_clock w)) c)"

definition finish_task :: "int \<Rightarrow> string \<Rightarrow> int \<Rightarrow> int \<Rightarrow> int \<Rightarrow> int \<Rightarrow> client_db \<Rightarrow> (nat \<times> client_db) option" where
  "finish_task owner tid gen st n now d =
     (let P = (\<lambda>t. tk_id t = tid \<and> tk_owner t = owner \<and> tk_generation t = gen \<and> \<not> tk_terminal t)
      in Some (count_where P (cd_tasks d),
               d\<lparr>cd_tasks := upd_where P
                   (\<lambda>t. t\<lparr>tk_state := st, tk_transferred := n, tk_offset := n, tk_terminal := st \<ge> 3,
                         tk_updated := now\<rparr>) (cd_tasks d)\<rparr>))"

definition finish_task_body :: "int \<Rightarrow> string \<Rightarrow> int \<Rightarrow> int \<Rightarrow> int \<Rightarrow> int \<Rightarrow> cconn \<Rightarrow> unit option \<times> cconn" where
  "finish_task_body owner tid gen st n now =
     sq_then (sq_run (finish_task owner tid gen st n now)) (\<lambda>k. sq_guard (k = 1))"

definition finishDownloadTask ::
    "write_io \<Rightarrow> int \<Rightarrow> string \<Rightarrow> int \<Rightarrow> int \<Rightarrow> int \<Rightarrow> cconn \<Rightarrow> unit option \<times> cconn" where
  "finishDownloadTask w owner tid gen st n c =
     (if owner \<le> 0 \<or> tid = [] \<or> gen \<le> 0 \<or> n < 0 \<or> st \<notin> {1, 2, 3, 4, 5} then (None, c)
      else runTx w (finish_task_body owner tid gen st n (wi_clock w)) c)"

section \<open>Friends\<close>

definition friend_of :: "int \<Rightarrow> int \<Rightarrow> client_db \<Rightarrow> friend_dto option" where
  "friend_of owner i d = map_option snd (find (\<lambda>(o', f). o' = owner \<and> fd_id f = i) (cd_friends d))"

definition put_friend :: "int \<Rightarrow> friend_dto \<Rightarrow> client_db \<Rightarrow> (nat \<times> client_db) option" where
  "put_friend owner f d =
     Some (1, d\<lparr>cd_friends :=
       (if friend_of owner (fd_id f) d = None then cd_friends d @ [(owner, f)]
        else upd_where (\<lambda>(o', g). o' = owner \<and> fd_id g = fd_id f) (\<lambda>_. (owner, f)) (cd_friends d))\<rparr>)"

definition upsertFriend :: "write_io \<Rightarrow> int \<Rightarrow> friend_dto \<Rightarrow> cconn \<Rightarrow> nat option \<times> cconn" where
  "upsertFriend w owner f c =
     (if owner \<le> 0 \<or> fd_id f \<le> 0 then (None, c) else runTx w (sq_run (put_friend owner f)) c)"

definition remove_friend :: "int \<Rightarrow> int \<Rightarrow> client_db \<Rightarrow> (nat \<times> client_db) option" where
  "remove_friend owner i d =
     (let P = (\<lambda>(o', f). o' = owner \<and> fd_id f = i)
      in Some (count_where P (cd_friends d), d\<lparr>cd_friends := filter (\<lambda>x. \<not> P x) (cd_friends d)\<rparr>))"

text \<open>Whether a row was deleted.\<close>

definition cl_deleteFriend :: "write_io \<Rightarrow> int \<Rightarrow> int \<Rightarrow> cconn \<Rightarrow> bool option \<times> cconn" where
  "cl_deleteFriend w owner i c =
     (if owner \<le> 0 \<or> i \<le> 0 then (None, c)
      else runTx w (sq_then (sq_run (remove_friend owner i)) (\<lambda>n. sq_return (n > 0))) c)"

definition is_request :: "int \<Rightarrow> string \<Rightarrow> int \<times> request_dto \<times> int \<Rightarrow> bool" where
  "is_request owner i = (\<lambda>(o', r, _). o' = owner \<and> fq_id r = i)"

definition insert_request :: "int \<Rightarrow> request_dto \<Rightarrow> client_db \<Rightarrow> (nat \<times> client_db) option" where
  "insert_request owner r d =
     (if list_ex (is_request owner (fq_id r)) (cd_requests d) then Some (0, d)
      else Some (1, d\<lparr>cd_requests := cd_requests d @ [(owner, r, fq_created r)]\<rparr>))"

definition refresh_request :: "int \<Rightarrow> request_dto \<Rightarrow> client_db \<Rightarrow> (nat \<times> client_db) option" where
  "refresh_request owner r d =
     (let P = is_request owner (fq_id r)
      in Some (count_where P (cd_requests d),
               d\<lparr>cd_requests := upd_where P
                   (\<lambda>(o', q, _). (o', q\<lparr>fq_state := fq_state r, fq_message := fq_message r\<rparr>, fq_created r))
                   (cd_requests d)\<rparr>))"

definition request_body :: "int \<Rightarrow> request_dto \<Rightarrow> cconn \<Rightarrow> bool option \<times> cconn" where
  "request_body owner r =
     sq_then (sq_run (insert_request owner r)) (\<lambda>n.
       if n = 0 then sq_then (sq_run (refresh_request owner r)) (\<lambda>_. sq_return False) else sq_return True)"

definition upsertFriendRequest :: "write_io \<Rightarrow> int \<Rightarrow> request_dto \<Rightarrow> cconn \<Rightarrow> bool option \<times> cconn" where
  "upsertFriendRequest w owner r c =
     (if owner \<le> 0 \<or> fq_id r = [] then (None, c) else runTx w (request_body owner r) c)"

definition put_state ::
    "(int \<times> request_dto \<times> int \<Rightarrow> bool) \<Rightarrow> request_state \<Rightarrow> client_db \<Rightarrow> (nat \<times> client_db) option" where
  "put_state P st d =
     Some (count_where P (cd_requests d),
           d\<lparr>cd_requests := upd_where P (\<lambda>(o', q, t). (o', q\<lparr>fq_state := st\<rparr>, t)) (cd_requests d)\<rparr>)"

definition setFriendRequestState :: "write_io \<Rightarrow> int \<Rightarrow> string \<Rightarrow> request_state \<Rightarrow> cconn \<Rightarrow> nat option \<times> cconn" where
  "setFriendRequestState w owner i st c =
     (if owner \<le> 0 \<or> i = [] then (None, c) else runTx w (sq_run (put_state (is_request owner i) st)) c)"

definition is_pending :: "int \<Rightarrow> string \<Rightarrow> int \<times> request_dto \<times> int \<Rightarrow> bool" where
  "is_pending owner i x \<longleftrightarrow> is_request owner i x \<and> fq_state (fst (snd x)) = RqPending"

definition accept_body :: "int \<Rightarrow> string \<Rightarrow> friend_dto \<Rightarrow> cconn \<Rightarrow> bool option \<times> cconn" where
  "accept_body owner i f =
     sq_then (sq_run (put_state (is_pending owner i) RqAccepted)) (\<lambda>n.
       if n = 0 then sq_return False else sq_then (sq_run (put_friend owner f)) (\<lambda>_. sq_return True))"

text \<open>The result says whether a pending request was accepted; the code does not report it.\<close>

definition acceptFriendRequest :: "write_io \<Rightarrow> int \<Rightarrow> string \<Rightarrow> friend_dto \<Rightarrow> cconn \<Rightarrow> bool option \<times> cconn" where
  "acceptFriendRequest w owner i f c =
     (if owner \<le> 0 \<or> i = [] \<or> fd_id f \<le> 0 then (None, c) else runTx w (accept_body owner i f) c)"

section \<open>Suggestions\<close>

text \<open>The candidates of a suggestion in one column, separated by the control character US.\<close>

definition joinSuggestions :: "string list \<Rightarrow> string" where
  "joinSuggestions items = foldl (\<lambda>out it. (if out = [] then out else out @ [CHR 0x1F]) @ it) [] items"

function split_us :: "string \<Rightarrow> string list" where
  "split_us s =
     (case dropWhile (\<lambda>c. c \<noteq> CHR 0x1F) s of
        [] \<Rightarrow> [s]
      | _ # rest \<Rightarrow> takeWhile (\<lambda>c. c \<noteq> CHR 0x1F) s # split_us rest)"
  by pat_completeness auto

termination split_us
proof (relation "measure length")
  fix s :: string and x xs
  assume "dropWhile (\<lambda>c. c \<noteq> CHR 0x1F) s = x # xs"
  then show "(xs, s) \<in> measure length"
    using length_dropWhile_le [of "\<lambda>c. c \<noteq> CHR 0x1F" s] by simp
qed simp

declare split_us.simps [simp del]

definition splitSuggestions :: "string \<Rightarrow> string list" where
  "splitSuggestions s = (if s = [] then [] else split_us s)"

text \<open>\<open>ON CONFLICT(owner_id,request_id) DO UPDATE\<close> leaves the conversation, the peer and the tone.\<close>

definition put_suggestion :: "int \<Rightarrow> suggestion_row \<Rightarrow> client_db \<Rightarrow> (nat \<times> client_db) option" where
  "put_suggestion owner s d =
     (let P = (\<lambda>(o', r). o' = owner \<and> ag_id r = ag_id s)
      in Some (1, d\<lparr>cd_suggestions :=
           (if list_ex P (cd_suggestions d)
            then upd_where P (\<lambda>(o', r). (o', r\<lparr>ag_status := ag_status s, ag_text := ag_text s, ag_error := ag_error s,
                   ag_time := ag_time s, ag_context := ag_context s\<rparr>)) (cd_suggestions d)
            else cd_suggestions d @ [(owner, s)])\<rparr>))"

definition upsertAiSuggestion :: "write_io \<Rightarrow> int \<Rightarrow> suggestion_row \<Rightarrow> cconn \<Rightarrow> nat option \<times> cconn" where
  "upsertAiSuggestion w owner s c =
     (if owner \<le> 0 \<or> ag_id s = [] then (None, c) else runTx w (sq_run (put_suggestion owner s)) c)"

section \<open>Reading\<close>

definition set_read :: "int \<Rightarrow> int \<Rightarrow> int \<Rightarrow> client_db \<Rightarrow> (nat \<times> client_db) option" where
  "set_read owner conv k d =
     (let P = (\<lambda>cv. cv_owner cv = owner \<and> cv_id cv = conv)
      in Some (count_where P (cd_convs d),
               d\<lparr>cd_convs := upd_where P
                   (\<lambda>cv. cv\<lparr>cv_read := k, cv_unread := unread_beyond owner conv k d\<rparr>) (cd_convs d)\<rparr>))"

definition mark_read :: "int \<Rightarrow> int \<Rightarrow> int \<Rightarrow> client_db \<Rightarrow> (nat \<times> client_db) option" where
  "mark_read owner conv k d =
     (let key = (owner, ''read'', conv);
          v = (case cd_marks d key of None \<Rightarrow> (k, 0) | Some (old, ts) \<Rightarrow> (max old k, ts))
      in Some (1, d\<lparr>cd_marks := (cd_marks d)(key \<mapsto> v)\<rparr>))"

definition conv_of :: "int \<Rightarrow> int \<Rightarrow> client_db \<Rightarrow> conv_row option" where
  "conv_of owner conv d = find (\<lambda>cv. cv_owner cv = owner \<and> cv_id cv = conv) (cd_convs d)"

definition read_body :: "int \<Rightarrow> int \<Rightarrow> int \<Rightarrow> cconn \<Rightarrow> nat option \<times> cconn" where
  "read_body owner conv sq =
     sq_then (sq_query (\<lambda>d. map_option cv_read (conv_of owner conv d))) (\<lambda>got.
       let old = (case got of None \<Rightarrow> 0 | Some k \<Rightarrow> k);
           k = (if sq > old then sq else old)
       in sq_then (sq_run (set_read owner conv k)) (\<lambda>_. sq_run (mark_read owner conv k)))"

definition markConversationRead :: "write_io \<Rightarrow> int \<Rightarrow> int \<Rightarrow> int \<Rightarrow> cconn \<Rightarrow> nat option \<times> cconn" where
  "markConversationRead w owner conv sq c = runTx w (read_body owner conv sq) c"

text \<open>
  A query on a pooled read connection that keeps every row, or reports that the store is unavailable:
  the pool is closing, the query cannot be prepared or a step fails.
\<close>

definition fetch_all :: "read_io \<Rightarrow> 'a list \<Rightarrow> 'a list option" where
  "fetch_all io rows = (if rd_prepared io \<and> rd_stop io = None then Some rows else None)"

lemma fetch_all_ok [simp]: "fetch_all read_ok rows = Some rows"
  by (simp add: fetch_all_def read_ok_def)

lemma fetch_allD: "fetch_all io rows = Some x \<Longrightarrow> x = rows"
  by (simp add: fetch_all_def split: if_splits)

definition findMessage :: "read_io \<Rightarrow> int \<Rightarrow> string \<Rightarrow> client_db \<Rightarrow> msg_dto option" where
  "findMessage io owner mid d =
     fetch_one io (case readMessage owner mid d of None \<Rightarrow> [] | Some m \<Rightarrow> [m])"

type_synonym msg_key = "int \<times> int \<times> int \<times> string"

definition lm_key :: "'a local_msg_scheme \<Rightarrow> msg_key" where
  "lm_key r = (lm_ts r, lm_seq r, lm_order r, lm_id r)"

record msg_page =
  mp_messages :: "msg_dto list"
  mp_more :: bool
  mp_next :: msg_key

definition history_rows :: "int \<Rightarrow> int \<Rightarrow> msg_key option \<Rightarrow> client_db \<Rightarrow> local_msg list" where
  "history_rows owner conv cursor d =
     rev (sort_key lm_key
       (filter (\<lambda>r. lm_owner r = owner \<and> lm_conv r = conv \<and>
                    (case cursor of None \<Rightarrow> True | Some k \<Rightarrow> lm_key r < k)) (cd_messages d)))"

definition listConversation ::
    "read_io \<Rightarrow> int \<Rightarrow> int \<Rightarrow> msg_key option \<Rightarrow> int \<Rightarrow> client_db \<Rightarrow> msg_page option" where
  "listConversation io owner conv cursor limit d =
     (if owner \<le> 0 \<or> conv \<le> 0 \<or> limit \<le> 0 \<or> limit > 200 \<or>
         (case cursor of None \<Rightarrow> False | Some (_, _, _, mid) \<Rightarrow> mid = []) then None
      else case fetch_all io (take (nat limit + 1) (history_rows owner conv cursor d)) of
        None \<Rightarrow> None
      | Some rows \<Rightarrow>
          let page = take (nat limit) rows in
          Some \<lparr>mp_messages = map (dto_of d) page, mp_more = length rows > nat limit,
                mp_next = (if page = [] then (0, 0, 0, []) else lm_key (last page))\<rparr>)"

definition loadConversations :: "read_io \<Rightarrow> int \<Rightarrow> client_db \<Rightarrow> conv_row list option" where
  "loadConversations io owner d =
     (if owner \<le> 0 then None
      else fetch_all io (rev (sort_key (\<lambda>cv. (cv_time cv, cv_id cv))
             (filter (\<lambda>cv. cv_owner cv = owner) (cd_convs d)))))"

text \<open>The downloads to resume: of files the message still names, oldest first.\<close>

record download_row =
  dr_task :: string
  dr_msg :: string
  dr_file :: string
  dr_path :: string
  dr_transferred :: int
  dr_generation :: int
  dr_sha256 :: string
  dr_total :: int

definition named_by :: "string \<Rightarrow> media_cols \<Rightarrow> bool" where
  "named_by f m \<longleftrightarrow> f = mc_fileId m \<or> f = mc_thumbFileId m \<or> f = mc_largeFileId m"

definition download_of :: "transfer_row \<times> local_msg \<Rightarrow> download_row" where
  "download_of = (\<lambda>(t, r).
     let f = tk_file t; m = lm_media r in
     \<lparr>dr_task = tk_id t, dr_msg = tk_msg t, dr_file = f, dr_path = tk_path t,
      dr_transferred = tk_transferred t, dr_generation = tk_generation t,
      dr_sha256 = (if f = mc_fileId m then mc_sha256 m
                   else if f = mc_thumbFileId m then mc_thumbSha256 m else mc_largeSha256 m),
      dr_total = (if f = mc_fileId m then mc_fileSize m
                  else if f = mc_thumbFileId m then mc_thumbSize m else mc_largeSize m)\<rparr>)"

definition listRecoverableDownloads :: "read_io \<Rightarrow> int \<Rightarrow> client_db \<Rightarrow> download_row list option" where
  "listRecoverableDownloads io owner d =
     (if owner \<le> 0 then None
      else map_option (map download_of) (fetch_all io (take 128
        (sort_key (\<lambda>(t, r). tk_updated t)
          (filter (\<lambda>(t, r). lm_owner r = tk_owner t \<and> lm_id r = tk_msg t \<and> tk_owner t = owner \<and>
                            \<not> tk_terminal t \<and> tk_state t \<in> {0, 1, 2} \<and> named_by (tk_file t) (lm_media r))
            (List.product (cd_tasks d) (cd_messages d)))))))"


definition cl_loadFriends :: "read_io \<Rightarrow> int \<Rightarrow> client_db \<Rightarrow> friend_dto list option" where
  "cl_loadFriends io owner d =
     (if owner \<le> 0 then None
      else fetch_all io (sort_key fd_id (map snd (filter (\<lambda>(o', f). o' = owner) (cd_friends d)))))"

definition cl_loadFriendRequests :: "read_io \<Rightarrow> int \<Rightarrow> client_db \<Rightarrow> request_dto list option" where
  "cl_loadFriendRequests io owner d =
     (if owner \<le> 0 then None
      else fetch_all io (sort_key (\<lambda>r. (- fq_created r, fq_id r))
             (map (\<lambda>(o', r, t). r) (filter (\<lambda>(o', r, t). o' = owner) (cd_requests d)))))"

definition loadAiSuggestions :: "read_io \<Rightarrow> int \<Rightarrow> int \<Rightarrow> client_db \<Rightarrow> (suggestion_row \<times> string list) list option" where
  "loadAiSuggestions io owner conv d =
     (if owner \<le> 0 then None
      else map_option (map (\<lambda>s. (s, splitSuggestions (ag_text s))))
             (fetch_all io (sort_key (\<lambda>s. (ag_time s, ag_id s))
               (map snd (filter (\<lambda>(o', s). o' = owner \<and> ag_conv s = conv) (cd_suggestions d))))))"

end
