(* ===== verification/ClientRuns.thy ===== *)
theory ClientRuns
  imports ClientStore
begin

text \<open>
  Runs of the client's message store: any sequence of its operations, each run late or refused by the
  writer or failing at any statement. What a stored message keeps, what keeps a draft from being
  lost, and how the unread counter relates to the stored messages.
\<close>

section \<open>Runs of operations\<close>

datatype store_op =
    Incoming msg_dto incoming_ctx
  | Draft msg_dto
  | Ack int string int int int
  | Claim int int int int
  | FinishAttempt int string int bool int string
  | CancelSend int string
  | MarkRead int int int
  | MediaMessage "media_task list" msg_dto
  | BeginDownload int string string string string int
  | FinishDownload int string int int int
  | PutFriend int friend_dto
  | DropFriend int int
  | PutRequest int request_dto
  | SetRequest int string request_state
  | AcceptRequest int string friend_dto
  | PutSuggestion int suggestion_row

fun store_step :: "write_io \<Rightarrow> store_op \<Rightarrow> cconn \<Rightarrow> cconn" where
  "store_step w (Incoming m ctx) c = snd (commitIncomingMessage w m ctx c)"
| "store_step w (Draft m) c = snd (commitOutgoingDraft w m c)"
| "store_step w (Ack owner mid ts sq st) c = snd (commitAck w owner mid ts sq st c)"
| "store_step w (Claim owner now lease limit) c = snd (claimOutbox w owner now lease limit c)"
| "store_step w (FinishAttempt owner mid k terminal retryAt err) c =
     snd (finishOutboxAttempt w owner mid k terminal retryAt err c)"
| "store_step w (CancelSend owner mid) c = snd (cancelOutbox w owner mid c)"
| "store_step w (MarkRead owner conv sq) c = snd (markConversationRead w owner conv sq c)"
| "store_step w (MediaMessage ts m) c = snd (upsertMediaAndMessage w ts m c)"
| "store_step w (BeginDownload owner tid mid f path gen) c = snd (beginDownloadTask w owner tid mid f path gen c)"
| "store_step w (FinishDownload owner tid gen st n) c = snd (finishDownloadTask w owner tid gen st n c)"
| "store_step w (PutFriend owner f) c = snd (upsertFriend w owner f c)"
| "store_step w (DropFriend owner i) c = snd (cl_deleteFriend w owner i c)"
| "store_step w (PutRequest owner r) c = snd (upsertFriendRequest w owner r c)"
| "store_step w (SetRequest owner i st) c = snd (setFriendRequestState w owner i st c)"
| "store_step w (AcceptRequest owner i f) c = snd (acceptFriendRequest w owner i f c)"
| "store_step w (PutSuggestion owner s) c = snd (upsertAiSuggestion w owner s c)"

fun store_run :: "(write_io \<times> store_op) list \<Rightarrow> cconn \<Rightarrow> cconn" where
  "store_run [] c = c"
| "store_run ((w, op) # ops) c = store_run ops (store_step w op c)"

text \<open>
  An invariant of the messages, conversations and outbox that the body of every operation on them
  keeps. The other tables do not matter to it.
\<close>

definition same_core :: "client_db \<Rightarrow> client_db \<Rightarrow> bool" where
  "same_core d d' \<longleftrightarrow> cd_messages d' = cd_messages d \<and> cd_convs d' = cd_convs d \<and> cd_outbox d' = cd_outbox d \<and>
     cd_sequence d' = cd_sequence d"

lemma side_frames:
  "put_variant t d = Some (n, d') \<Longrightarrow> same_core d d'"
  "put_ref owner mid t d = Some (n, d') \<Longrightarrow> same_core d d'"
  "supersede owner f now d = Some (n, d') \<Longrightarrow> same_core d d'"
  "add_task owner tid mid f path gen now d = Some (n, d') \<Longrightarrow> same_core d d'"
  "finish_task owner tid gen st k now d = Some (n, d') \<Longrightarrow> same_core d d'"
  "put_friend owner f1 d = Some (n, d') \<Longrightarrow> same_core d d'"
  "remove_friend owner i d = Some (n, d') \<Longrightarrow> same_core d d'"
  "insert_request owner r d = Some (n, d') \<Longrightarrow> same_core d d'"
  "refresh_request owner r d = Some (n, d') \<Longrightarrow> same_core d d'"
  "put_state R rs d = Some (n, d') \<Longrightarrow> same_core d d'"
  "put_suggestion owner s d = Some (n, d') \<Longrightarrow> same_core d d'"
  by (auto simp: same_core_def put_variant_def put_ref_def supersede_def add_task_def finish_task_def Let_def
      put_friend_def remove_friend_def insert_request_def refresh_request_def put_state_def put_suggestion_def
      split: if_splits option.splits)

lemma ensures_always:
  assumes "ensures m (\<lambda>_. P) d" and "\<And>x d. P d \<Longrightarrow> ensures (k x) (\<lambda>_. P) d"
  shows "ensures (sq_then m k) (\<lambda>_. P) d"
  by (rule ensures_then, rule ensures_weaken [OF assms(1)], rule assms(2))

lemma ensures_keeps: "keeps P f \<Longrightarrow> P d \<Longrightarrow> ensures (sq_run f) (\<lambda>_. P) d"
  by (rule ensures_run) (simp add: keeps_def)

locale store_invariant =
  fixes P :: "client_db \<Rightarrow> bool"
  assumes core: "same_core d d' \<Longrightarrow> P d \<Longrightarrow> P d'"
    and merge: "P d \<Longrightarrow> ensures (mergeIncoming now m ctx) (\<lambda>_. P) d"
    and draft: "P d \<Longrightarrow> ensures (draft_body now m) (\<lambda>_. P) d"
    and ack: "P d \<Longrightarrow> ensures (ack_body owner mid ts sq st) (\<lambda>_. P) d"
    and claim: "P d \<Longrightarrow> 0 < lease \<Longrightarrow> ensures (claim_body owner now lease limit) (\<lambda>_. P) d"
    and finish: "keeps P (finish_row owner mid attempt terminal retryAt err)"
    and cancel: "keeps P (cancel_row owner mid)"
    and read: "P d \<Longrightarrow> ensures (read_body owner conv sq) (\<lambda>_. P) d"
begin

lemma side: "(\<And>d n d'. f d = Some (n, d') \<Longrightarrow> same_core d d') \<Longrightarrow> P d \<Longrightarrow> ensures (sq_run f) (\<lambda>_. P) d"
  by (rule ensures_run) (rule core)

lemma side_runs:
  "P d \<Longrightarrow> ensures (sq_run (put_variant t)) (\<lambda>_. P) d"
  "P d \<Longrightarrow> ensures (sq_run (put_ref owner mid t)) (\<lambda>_. P) d"
  "P d \<Longrightarrow> ensures (sq_run (supersede owner f now)) (\<lambda>_. P) d"
  "P d \<Longrightarrow> ensures (sq_run (add_task owner tid mid f path gen now)) (\<lambda>_. P) d"
  "P d \<Longrightarrow> ensures (sq_run (finish_task owner tid gen st k now)) (\<lambda>_. P) d"
  "P d \<Longrightarrow> ensures (sq_run (put_friend owner f1)) (\<lambda>_. P) d"
  "P d \<Longrightarrow> ensures (sq_run (remove_friend owner i)) (\<lambda>_. P) d"
  "P d \<Longrightarrow> ensures (sq_run (insert_request owner r)) (\<lambda>_. P) d"
  "P d \<Longrightarrow> ensures (sq_run (refresh_request owner r)) (\<lambda>_. P) d"
  "P d \<Longrightarrow> ensures (sq_run (put_state R rs)) (\<lambda>_. P) d"
  "P d \<Longrightarrow> ensures (sq_run (put_suggestion owner s)) (\<lambda>_. P) d"
  by (rule side, erule side_frames, assumption)+

lemma variants: "P d \<Longrightarrow> ensures (put_variants owner mid ts) (\<lambda>_. P) d"
  by (induction ts arbitrary: d)
    (auto intro!: ensures_always side_runs ensures_return)

lemma media: "P d \<Longrightarrow> ensures (media_body now ts m) (\<lambda>_. P) d"
  unfolding media_body_def compatibleIdentity_def
  by (intro ensures_always merge variants ensures_select ensures_guard)

lemma download: "P d \<Longrightarrow> ensures (download_body owner tid mid f path gen now) (\<lambda>_. P) d"
  unfolding download_body_def
  by (intro ensures_always side_runs ensures_select ensures_guard)

lemma finish_download: "P d \<Longrightarrow> ensures (finish_task_body owner tid gen st n now) (\<lambda>_. P) d"
  unfolding finish_task_body_def by (intro ensures_always side_runs ensures_guard)

lemma friend_bodies:
  "P d \<Longrightarrow> ensures (sq_then (sq_run (remove_friend owner i)) (\<lambda>n. sq_return (n > 0))) (\<lambda>_. P) d"
  "P d \<Longrightarrow> ensures (request_body owner r) (\<lambda>_. P) d"
  "P d \<Longrightarrow> ensures (accept_body owner mid f) (\<lambda>_. P) d"
  unfolding request_body_def accept_body_def
  by (intro ensures_always side_runs ensures_if ensures_return; assumption)+

lemma runTx_keeps:
  assumes "cn_txn c = None" and "P (cn_db c)" and "\<And>d. P d \<Longrightarrow> ensures body (\<lambda>_. P) d"
  shows "cn_txn (snd (runTx w body c)) = None \<and> P (cn_db (snd (runTx w body c)))"
proof -
  obtain r c' where run: "runTx w body c = (r, c')" by (cases "runTx w body c")
  have "P (cn_db c\<lparr>cd_journal := js\<rparr>)" for js
    using assms(2) by (rule core [rotated]) (simp add: same_core_def)
  then show ?thesis
    using runTx_ensures [OF run assms(1), of "\<lambda>_. P"] assms(2,3) run by auto
qed

lemma step:
  assumes "cn_txn c = None" and "P (cn_db c)"
  shows "cn_txn (store_step w op c) = None \<and> P (cn_db (store_step w op c))"
proof -
  note R = runTx_keeps [OF assms]
  have C: "cn_txn (snd (runTx w (claim_body owner now lease limit) c)) = None \<and>
      P (cn_db (snd (runTx w (claim_body owner now lease limit) c)))" if "0 < lease" for owner now lease limit
    by (rule R) (rule claim [OF _ that])
  show ?thesis
    using assms
    by (cases op)
      (simp_all add: R [OF merge] R [OF draft] R [OF ack] C R [OF read] R [OF media] R [OF download]
        R [OF finish_download] R [OF ensures_keeps [OF finish]] R [OF ensures_keeps [OF cancel]]
        R [OF friend_bodies(1)] R [OF friend_bodies(2)] R [OF friend_bodies(3)] R [OF side_runs(6)] R [OF side_runs(10)]
        R [OF side_runs(11)] upsertFriend_def cl_deleteFriend_def upsertFriendRequest_def setFriendRequestState_def
        acceptFriendRequest_def upsertAiSuggestion_def
        commitIncomingMessage_def commitOutgoingDraft_def commitAck_def claimOutbox_def finishOutboxAttempt_def
        cancelOutbox_def markConversationRead_def upsertMediaAndMessage_def beginDownloadTask_def
        finishDownloadTask_def)
qed

lemma run:
  assumes "cn_txn c = None" and "P (cn_db c)"
  shows "cn_txn (store_run ops c) = None \<and> P (cn_db (store_run ops c))"
  using assms
proof (induction ops arbitrary: c)
  case (Cons wo ops)
  then show ?case using step [of c "fst wo" "snd wo"] by (cases wo) simp
qed simp

end

section \<open>What statements do to a stored message\<close>

lemma local_of_append:
  "local_of owner mid (d\<lparr>cd_messages := cd_messages d @ [r]\<rparr>) =
     (case local_of owner mid d of Some x \<Rightarrow> Some x | None \<Rightarrow> if lm_is owner mid r then Some r else None)"
  by (simp add: local_of_def find_append split: option.split)

lemma find_upd_same:
  assumes "\<And>r. Q (f r) = Q r"
  shows "find Q (upd_where P f xs) = map_option (\<lambda>r. if P r then f r else r) (find Q xs)"
  by (induction xs) (auto simp: upd_where_def assms)

lemma local_of_upd:
  assumes "\<And>r. lm_owner (f r) = lm_owner r \<and> lm_id (f r) = lm_id r"
  shows "local_of owner mid (d\<lparr>cd_messages := upd_where P f (cd_messages d)\<rparr>) =
     map_option (\<lambda>r. if P r then f r else r) (local_of owner mid d)"
  unfolding local_of_def using assms by (simp add: find_upd_same lm_is_def)

lemma settle_fields [simp]:
  "lm_owner (settle sq ts st r) = lm_owner r" "lm_id (settle sq ts st r) = lm_id r"
  "lm_conv (settle sq ts st r) = lm_conv r" "lm_peer (settle sq ts st r) = lm_peer r"
  "lm_order (settle sq ts st r) = lm_order r" "lm_mine (settle sq ts st r) = lm_mine r"
  "lm_type (settle sq ts st r) = lm_type r" "lm_content (settle sq ts st r) = lm_content r"
  "lm_media (settle sq ts st r) = lm_media r"
  by (simp_all add: settle_def)

lemma local_of_frame [simp]:
  "local_of owner mid (d\<lparr>cd_convs := x1\<rparr>) = local_of owner mid d"
  "local_of owner mid (d\<lparr>cd_outbox := x2\<rparr>) = local_of owner mid d"
  "local_of owner mid (d\<lparr>cd_fts := x3\<rparr>) = local_of owner mid d"
  "local_of owner mid (d\<lparr>cd_identity := x4\<rparr>) = local_of owner mid d"
  "local_of owner mid (d\<lparr>cd_marks := x5\<rparr>) = local_of owner mid d"
  "local_of owner mid (d\<lparr>cd_sequence := x6\<rparr>) = local_of owner mid d"
  "local_of owner mid (d\<lparr>cd_journal := x7\<rparr>) = local_of owner mid d"
  "local_of owner mid (d\<lparr>cd_tasks := x8\<rparr>) = local_of owner mid d"
  "local_of owner mid (d\<lparr>cd_variants := x9\<rparr>) = local_of owner mid d"
  "local_of owner mid (d\<lparr>cd_refs := x10\<rparr>) = local_of owner mid d"
  by (simp_all add: local_of_def)

lemma local_of_settle:
  assumes "settle_where P sq ts st d = Some (n, d')"
  shows "local_of owner mid d' = map_option (\<lambda>r. if P r then settle sq ts st r else r) (local_of owner mid d)"
proof -
  have "d' = d\<lparr>cd_messages := upd_where P (settle sq ts st) (cd_messages d)\<rparr>"
    using assms by (simp add: settle_where_def Let_def split: if_splits)
  then show ?thesis by (simp add: local_of_upd)
qed

lemma local_of_fill:
  assumes "fillMissingMedia m d = Some (n, d')"
  shows "local_of owner mid d' =
    map_option (\<lambda>r. if lm_is (lm_owner m) (lm_id m) r
                    then r\<lparr>lm_media := fill_media (lm_media m) (lm_media r)\<rparr> else r) (local_of owner mid d)"
proof -
  have "d' = d\<lparr>cd_messages := upd_where (lm_is (lm_owner m) (lm_id m))
      (\<lambda>r. r\<lparr>lm_media := fill_media (lm_media m) (lm_media r)\<rparr>) (cd_messages d)\<rparr>"
    using assms by (simp add: fillMissingMedia_def Let_def)
  then show ?thesis by (simp add: local_of_upd)
qed

lemma new_row_fields [simp]:
  "lm_owner (new_row m) = lm_owner m" "lm_id (new_row m) = lm_id m" "lm_conv (new_row m) = lm_conv m"
  "lm_peer (new_row m) = lm_peer m" "lm_seq (new_row m) = lm_seq m" "lm_ts (new_row m) = lm_ts m"
  "lm_order (new_row m) = lm_order m" "lm_mine (new_row m) = lm_mine m" "lm_type (new_row m) = lm_type m"
  "lm_content (new_row m) = lm_content m" "lm_status (new_row m) = lm_status m"
  "lm_media (new_row m) = no_media"
  by (simp_all add: new_row_def local_msg.truncate_def)

lemma local_of_insert:
  assumes "insert_local m d = Some (n, d')"
  shows "local_of owner mid d' =
      (case local_of owner mid d of Some r \<Rightarrow> Some r
       | None \<Rightarrow> if owner = lm_owner m \<and> mid = lm_id m then Some (new_row m) else None)
    \<and> (n = 0 \<longleftrightarrow> local_of (lm_owner m) (lm_id m) d \<noteq> None) \<and> (n = 0 \<longrightarrow> d' = d)"
proof (cases "local_of (lm_owner m) (lm_id m) d")
  case None
  then have d': "d' = d\<lparr>cd_messages := cd_messages d @ [new_row m]\<rparr>" "n = 1"
    using assms by (auto simp: insert_local_def Let_def split: if_splits)
  show ?thesis
    unfolding d' local_of_append using None by (auto simp: lm_is_def split: option.split)
next
  case (Some r)
  then have "d' = d" "n = 0" using assms by (auto simp: insert_local_def)
  then show ?thesis using Some by (auto split: option.split)
qed

text \<open>What each statement leaves alone.\<close>

lemma frames [frame_simps]:
  "insert_local m d = Some (n, d') \<Longrightarrow> cd_outbox d' = cd_outbox d \<and> cd_convs d' = cd_convs d \<and> cd_sequence d' = cd_sequence d"
  "fillMissingMedia m d = Some (n, d') \<Longrightarrow> cd_outbox d' = cd_outbox d \<and> cd_convs d' = cd_convs d \<and> cd_sequence d' = cd_sequence d"
  "settle_where P sq ts st d = Some (n, d') \<Longrightarrow> cd_outbox d' = cd_outbox d \<and> cd_convs d' = cd_convs d \<and> cd_sequence d' = cd_sequence d"
  "project draft m t d = Some (n, d') \<Longrightarrow> cd_outbox d' = cd_outbox d \<and> cd_messages d' = cd_messages d \<and> cd_sequence d' = cd_sequence d"
  "read_active m d = Some (n, d') \<Longrightarrow> cd_outbox d' = cd_outbox d \<and> cd_messages d' = cd_messages d \<and> cd_sequence d' = cd_sequence d"
  "upsert_conv m u f d = Some (n, d') \<Longrightarrow> cd_outbox d' = cd_outbox d \<and> cd_messages d' = cd_messages d \<and> cd_sequence d' = cd_sequence d"
  "touch_preview owner mid ts d = Some (n, d') \<Longrightarrow> cd_outbox d' = cd_outbox d \<and> cd_messages d' = cd_messages d \<and> cd_sequence d' = cd_sequence d"
  "set_read owner conv k d = Some (n, d') \<Longrightarrow> cd_outbox d' = cd_outbox d \<and> cd_messages d' = cd_messages d \<and> cd_sequence d' = cd_sequence d"
  "bumpMaxSeen owner peer k ts d = Some (n, d') \<Longrightarrow> cd_outbox d' = cd_outbox d \<and> cd_messages d' = cd_messages d \<and> cd_convs d' = cd_convs d \<and> cd_sequence d' = cd_sequence d"
  "mark_read owner conv k d = Some (n, d') \<Longrightarrow> cd_outbox d' = cd_outbox d \<and> cd_messages d' = cd_messages d \<and> cd_convs d' = cd_convs d \<and> cd_sequence d' = cd_sequence d"
  "remove_outbox owner mid d = Some (n, d') \<Longrightarrow> cd_messages d' = cd_messages d \<and> cd_convs d' = cd_convs d \<and> cd_sequence d' = cd_sequence d"
  "note_retryable owner mid d = Some (n, d') \<Longrightarrow> cd_messages d' = cd_messages d \<and> cd_convs d' = cd_convs d \<and> cd_sequence d' = cd_sequence d"
  "lease_row owner mid k until p d = Some (n, d') \<Longrightarrow> cd_messages d' = cd_messages d \<and> cd_convs d' = cd_convs d \<and> cd_sequence d' = cd_sequence d"
  "finish_row owner mid k terminal t err d = Some (n, d') \<Longrightarrow> cd_messages d' = cd_messages d \<and> cd_convs d' = cd_convs d \<and> cd_sequence d' = cd_sequence d"
  "cancel_row owner mid d = Some (n, d') \<Longrightarrow> cd_messages d' = cd_messages d \<and> cd_convs d' = cd_convs d \<and> cd_sequence d' = cd_sequence d"
  "enqueue m d = Some (n, d') \<Longrightarrow> cd_messages d' = cd_messages d \<and> cd_convs d' = cd_convs d \<and> cd_sequence d' = cd_sequence d"
  "alloc_order owner k d = Some (n, d') \<Longrightarrow> cd_outbox d' = cd_outbox d \<and> cd_messages d' = cd_messages d \<and> cd_convs d' = cd_convs d"
  by (auto simp: insert_local_def fillMissingMedia_def settle_where_def project_def read_active_def upsert_conv_def
      touch_preview_def set_read_def bumpMaxSeen_def mark_read_def remove_outbox_def note_retryable_def
      lease_row_def finish_row_def cancel_row_def enqueue_def alloc_order_def Let_def split: if_splits option.splits)


lemma local_of_cong: "cd_messages d' = cd_messages d \<Longrightarrow> local_of owner mid d' = local_of owner mid d"
  by (simp add: local_of_def)

text \<open>
  An invariant that every single statement keeps; the statement that takes a message off the outbox
  stands apart.
\<close>

locale statement_base =
  fixes P :: "client_db \<Rightarrow> bool"
  assumes same: "same_core d d' \<Longrightarrow> P d \<Longrightarrow> P d'"
    and insert: "keeps P (insert_local m)"
    and fill: "keeps P (fillMissingMedia m)"
    and settle: "keeps P (settle_where Q sq ts st)"
    and convs: "cd_messages d' = cd_messages d \<Longrightarrow> cd_outbox d' = cd_outbox d \<Longrightarrow>
      cd_sequence d' = cd_sequence d \<Longrightarrow> P d \<Longrightarrow> P d'"
    and alloc: "keeps P (alloc_order owner k)"
    and enqueue: "keeps P (enqueue m)"
    and note_error: "keeps P (note_retryable owner mid)"
    and lease: "keeps P (lease_row owner mid attempt until p)"
    and finish_st: "keeps P (finish_row owner mid attempt terminal retryAt err)"
    and cancel_st: "keeps P (cancel_row owner mid)"
begin

lemma conv_steps:
  "P d \<Longrightarrow> ensures (sq_run (project draft m t)) (\<lambda>_. P) d"
  "P d \<Longrightarrow> ensures (sq_run (read_active m)) (\<lambda>_. P) d"
  "P d \<Longrightarrow> ensures (sq_run (upsert_conv m u f)) (\<lambda>_. P) d"
  "P d \<Longrightarrow> ensures (sq_run (touch_preview owner mid ts)) (\<lambda>_. P) d"
  "P d \<Longrightarrow> ensures (sq_run (set_read owner conv k)) (\<lambda>_. P) d"
  "P d \<Longrightarrow> ensures (sq_run (bumpMaxSeen owner peer k ts)) (\<lambda>_. P) d"
  "P d \<Longrightarrow> ensures (sq_run (mark_read owner conv k)) (\<lambda>_. P) d"
  by (rule ensures_run, frule frames, simp add: convs)+

lemma fts: "P d \<Longrightarrow> ensures (upsertFts m) (\<lambda>_. P) d"
  unfolding upsertFts_def by (intro ensures_always ensures_run) (auto intro: convs)

lemma identity: "P d \<Longrightarrow> ensures (compatibleIdentity m) (\<lambda>_. P) d"
  unfolding compatibleIdentity_def by (intro ensures_always ensures_select ensures_guard)

lemma projection: "P d \<Longrightarrow> ensures (finishProjection now m b ctx) (\<lambda>_. P) d"
  unfolding finishProjection_def by (intro ensures_always ensures_if conv_steps ensures_return)

lemmas statement_rules = ensures_keeps [OF insert] ensures_keeps [OF fill] ensures_keeps [OF settle]
  ensures_keeps [OF alloc] ensures_keeps [OF enqueue] ensures_keeps [OF note_error]
  ensures_keeps [OF lease] conv_steps fts identity projection ensures_return ensures_guard ensures_select
  ensures_query ensures_if ensures_case_option

lemma new: "P d \<Longrightarrow> ensures (merge_new now m ctx) (\<lambda>_. P) d"
  unfolding merge_new_def Let_def by (intro ensures_always statement_rules)

lemma merged_if:
  assumes "P d" and "\<And>d. P d \<Longrightarrow> ensures (merge_known now m ctx) (\<lambda>_. P) d"
  shows "ensures (mergeIncoming now m ctx) (\<lambda>_. P) d"
  using assms unfolding mergeIncoming_def by (intro ensures_always statement_rules new) auto

lemma written: "P d \<Longrightarrow> ensures (write_draft now m) (\<lambda>_. P) d"
  unfolding write_draft_def by (intro ensures_always statement_rules)

lemma drafted: "P d \<Longrightarrow> ensures (draft_body now m) (\<lambda>_. P) d"
  unfolding draft_body_def by (intro ensures_always statement_rules written)

lemma claimed: "P d \<Longrightarrow> ensures (claim_rows owner until os) (\<lambda>_. P) d"
proof (induction os arbitrary: d)
  case (Cons o' os)
  show ?case
    unfolding claim_rows.simps by (intro ensures_always statement_rules Cons)
qed (simp add: ensures_return)

lemma claim_all: "P d \<Longrightarrow> ensures (claim_body owner now lease limit) (\<lambda>_. P) d"
  unfolding claim_body_def by (intro ensures_always statement_rules claimed)

lemma marked: "P d \<Longrightarrow> ensures (read_body owner conv sq) (\<lambda>_. P) d"
  unfolding read_body_def Let_def by (intro ensures_always statement_rules)

end

locale statement_invariant = statement_base +
  assumes remove: "keeps P (remove_outbox owner mid)"
begin

lemma known: "P d \<Longrightarrow> ensures (merge_known now m ctx) (\<lambda>_. P) d"
  unfolding merge_known_def by (intro ensures_always statement_rules ensures_keeps [OF remove])

lemma merged: "P d \<Longrightarrow> ensures (mergeIncoming now m ctx) (\<lambda>_. P) d"
  by (rule merged_if) (auto intro: known)

lemma acked: "P d \<Longrightarrow> ensures (ack_body owner mid ts sq st) (\<lambda>_. P) d"
  unfolding ack_body_def by (intro ensures_always statement_rules ensures_keeps [OF remove])

end

sublocale statement_invariant \<subseteq> store_invariant P
  by unfold_locales (rule same merged drafted acked claim_all finish_st cancel_st marked; assumption)+

section \<open>A stored message\<close>

text \<open>
  What happens to a stored message: who it is from, to whom, and what it says never changes; a sequence
  number, a time, a delivery status or a file column is set once and never changes after that.
\<close>

definition grown :: "local_msg \<Rightarrow> local_msg \<Rightarrow> bool" where
  "grown r r' \<longleftrightarrow>
     lm_owner r' = lm_owner r \<and> lm_id r' = lm_id r \<and> lm_conv r' = lm_conv r \<and> lm_peer r' = lm_peer r \<and>
     lm_order r' = lm_order r \<and> lm_mine r' = lm_mine r \<and> lm_type r' = lm_type r \<and>
     lm_content r' = lm_content r \<and>
     (lm_seq r \<noteq> 0 \<longrightarrow> lm_seq r' = lm_seq r) \<and> (lm_ts r \<noteq> 0 \<longrightarrow> lm_ts r' = lm_ts r) \<and>
     (lm_status r \<noteq> 0 \<longrightarrow> lm_status r' = lm_status r) \<and>
     fill_media (lm_media r') (lm_media r) = lm_media r'"

lemma fill_media_self: "fill_media f f = f"
  by (simp add: fill_media_def fill_text_def fill_num_def)

lemma fill_media_kept: "fill_media (fill_media n f) f = fill_media n f"
  by (simp add: fill_media_def fill_text_def fill_num_def)

lemma fill_media_trans:
  assumes "fill_media g f = g" and "fill_media h g = h"
  shows "fill_media h f = h"
proof -
  have "fill_text (fill_text a b) c = fill_text a (fill_text b c)" for a b c
    by (simp add: fill_text_def)
  moreover have "fill_num (fill_num a b) c = fill_num a (fill_num b c)" for a b c
    by (simp add: fill_num_def)
  ultimately have "fill_media h (fill_media g f) = fill_media (fill_media h g) f"
    by (simp add: fill_media_def fill_text_def fill_num_def)
  then show ?thesis using assms by simp
qed

lemma grown_refl [simp]: "grown r r"
  by (simp add: grown_def fill_media_self)

lemma grown_trans: "grown r s \<Longrightarrow> grown s t \<Longrightarrow> grown r t"
  unfolding grown_def using fill_media_trans [of "lm_media s" "lm_media r" "lm_media t"] by auto

lemma grown_settle: "grown r (settle sq ts st r)"
  by (simp add: grown_def fill_media_self) (simp add: settle_def)

lemma grown_fill: "grown r (r\<lparr>lm_media := fill_media n (lm_media r)\<rparr>)"
  by (simp add: grown_def fill_media_kept)

definition evolved :: "client_db \<Rightarrow> client_db \<Rightarrow> bool" where
  "evolved d d' \<longleftrightarrow>
     (\<forall>owner mid r. local_of owner mid d = Some r \<longrightarrow> (\<exists>r'. local_of owner mid d' = Some r' \<and> grown r r'))"

lemma evolved_refl: "cd_messages d' = cd_messages d \<Longrightarrow> evolved d d'"
  by (auto simp: evolved_def local_of_def)

lemma evolved_trans: "evolved d e \<Longrightarrow> evolved e f \<Longrightarrow> evolved d f"
  unfolding evolved_def using grown_trans by meson

lemma evolved_insert: "insert_local m d = Some (n, d') \<Longrightarrow> evolved d d'"
  unfolding evolved_def by (auto simp: local_of_insert)

lemma evolved_fill: "fillMissingMedia m d = Some (n, d') \<Longrightarrow> evolved d d'"
  unfolding evolved_def by (auto simp: local_of_fill grown_fill)

lemma evolved_settle: "settle_where Q sq ts st d = Some (n, d') \<Longrightarrow> evolved d d'"
  unfolding evolved_def by (auto simp: local_of_settle grown_settle)

interpretation evolving: statement_invariant "evolved d0" for d0
proof unfold_locales
  show "evolved d0 d'" if "same_core d d'" "evolved d0 d" for d d'
    using evolved_trans [OF that(2) evolved_refl] that(1) by (simp add: same_core_def)
  show "evolved d0 d'" if "cd_messages d' = cd_messages d" "evolved d0 d" for d d'
    using evolved_trans [OF that(2) evolved_refl] that(1) by simp
qed (rule keepsI; erule evolved_trans; erule evolved_insert evolved_fill evolved_settle |
     rule keepsI; erule evolved_trans; drule frames; simp add: evolved_refl)+


section \<open>A message that waits to be sent\<close>

definition queued :: "int \<Rightarrow> string \<Rightarrow> int \<Rightarrow> client_db \<Rightarrow> bool" where
  "queued owner mid k d \<longleftrightarrow> (\<exists>o' \<in> set (cd_outbox d). ob_owner o' = owner \<and> ob_id o' = mid \<and> ob_order o' = k)"

definition settled :: "int \<Rightarrow> string \<Rightarrow> client_db \<Rightarrow> bool" where
  "settled owner mid d \<longleftrightarrow> (\<exists>r. local_of owner mid d = Some r \<and> lm_status r \<noteq> 0)"

text \<open>The message has a delivery status, or it is in the outbox under its local order.\<close>

definition secured :: "int \<Rightarrow> string \<Rightarrow> int \<Rightarrow> client_db \<Rightarrow> bool" where
  "secured owner mid k d \<longleftrightarrow> local_of owner mid d \<noteq> None \<and> (settled owner mid d \<or> queued owner mid k d)"

lemma settled_secured: "settled owner mid d \<Longrightarrow> secured owner mid k d"
  by (auto simp: settled_def secured_def)

lemma settled_evolved: "evolved d d' \<Longrightarrow> settled owner mid d \<Longrightarrow> settled owner mid d'"
  unfolding settled_def evolved_def grown_def by metis

lemma known_evolved: "evolved d d' \<Longrightarrow> local_of owner mid d \<noteq> None \<Longrightarrow> local_of owner mid d' \<noteq> None"
  unfolding evolved_def by fastforce

interpretation settling: statement_invariant "settled owner mid" for owner mid
proof unfold_locales
  show "settled owner mid d'" if "same_core d d'" "settled owner mid d" for d d'
    using settled_evolved [OF evolved_refl that(2)] that(1) by (simp add: same_core_def)
  show "settled owner mid d'" if "cd_messages d' = cd_messages d" "settled owner mid d" for d d'
    using settled_evolved [OF evolved_refl that(2)] that(1) by simp
qed (rule keepsI; erule settled_evolved [rotated]; erule evolved_insert evolved_fill evolved_settle |
     rule keepsI; erule settled_evolved [rotated]; drule frames; simp add: evolved_refl)+

lemma secured_evolved:
  assumes "evolved d d'" and "cd_outbox d' = cd_outbox d" and "secured owner mid k d"
  shows "secured owner mid k d'"
  using assms settled_evolved known_evolved unfolding secured_def queued_def by metis

lemma secured_queue:
  assumes "cd_messages d' = cd_messages d" and "queued owner mid k d \<Longrightarrow> queued owner mid k d'"
    and "secured owner mid k d"
  shows "secured owner mid k d'"
  using assms settled_evolved [OF evolved_refl] known_evolved [OF evolved_refl] unfolding secured_def by metis

lemma queued_upd:
  assumes "\<And>o'. ob_owner (f o') = ob_owner o' \<and> ob_id (f o') = ob_id o' \<and> ob_order (f o') = ob_order o'"
    and "queued owner mid k d"
  shows "queued owner mid k (d\<lparr>cd_outbox := upd_where P f (cd_outbox d)\<rparr>)"
proof -
  obtain x where x: "x \<in> set (cd_outbox d)" "ob_owner x = owner" "ob_id x = mid" "ob_order x = k"
    using assms(2) unfolding queued_def by blast
  show ?thesis
    unfolding queued_def by (rule bexI [of _ "if P x then f x else x"]) (use x assms(1) in \<open>auto simp: upd_where_def\<close>)
qed

interpretation securing: statement_base "secured owner mid k" for owner mid k
proof unfold_locales
  show "secured owner mid k d'" if "same_core d d'" "secured owner mid k d" for d d'
    using secured_evolved [OF evolved_refl _ that(2)] that(1) by (simp add: same_core_def)
  show "secured owner mid k d'"
    if "cd_messages d' = cd_messages d" "cd_outbox d' = cd_outbox d" "secured owner mid k d" for d d'
    using secured_evolved [OF evolved_refl _ that(3)] that(1,2) by simp
  show "keeps (secured owner mid k) (insert_local m)" for m
    by (rule keepsI) (metis secured_evolved evolved_insert frames(1))
  show "keeps (secured owner mid k) (fillMissingMedia m)" for m
    by (rule keepsI) (metis secured_evolved evolved_fill frames(2))
  show "keeps (secured owner mid k) (settle_where Q sq ts st)" for Q sq ts st
    by (rule keepsI) (metis secured_evolved evolved_settle frames(3))
  show "keeps (secured owner mid k) (alloc_order o' n)" for o' n
    by (rule keepsI) (metis secured_evolved evolved_refl frames(17))
  show "keeps (secured owner mid k) (enqueue m)" for m
    by (rule keepsI, erule secured_queue [rotated 2])
      (auto simp: enqueue_def queued_def split: if_splits)
qed ((rule keepsI, erule secured_queue [rotated 2],
      force simp: note_retryable_def lease_row_def finish_row_def cancel_row_def Let_def,
      force simp: note_retryable_def lease_row_def finish_row_def cancel_row_def Let_def intro!: queued_upd)+)

lemma secured_remove:
  assumes "remove_outbox o' i d = Some (n, d')" and "secured owner mid k d"
    and "(o', i) \<noteq> (owner, mid) \<or> settled owner mid d"
  shows "secured owner mid k d'"
  using assms(3)
proof
  assume "settled owner mid d"
  then have "settled owner mid d'"
    using settling.remove assms(1) unfolding keeps_def by blast
  then show ?thesis by (rule settled_secured)
next
  assume "(o', i) \<noteq> (owner, mid)"
  then show ?thesis
    using assms(1,2) by (intro secured_queue [of d' d]) (auto simp: remove_outbox_def queued_def Let_def)
qed

text \<open>A completed message has its status.\<close>

lemma settle_settles:
  assumes "settle_where P sq ts st d = Some (n, d')" and "local_of owner mid d = Some r"
    and "0 < st" and "\<And>r. lm_owner r = owner \<Longrightarrow> lm_id r = mid \<Longrightarrow> lm_status r = 0 \<Longrightarrow> P r"
  shows "settled owner mid d'"
proof -
  have r: "lm_owner r = owner" "lm_id r = mid"
    using assms(2) unfolding local_of_def lm_is_def by (auto dest: find_Some_iff [THEN iffD1])
  show ?thesis
    using assms(2-4) r unfolding settled_def local_of_settle [OF assms(1)] by (auto simp: settle_def)
qed


lemma secured_known:
  assumes "secured owner mid k d"
  shows "ensures (merge_known now m ctx) (\<lambda>_. secured owner mid k) d"
proof (cases "(lm_owner m, lm_id m) = (owner, mid) \<and> 0 < lm_status m")
  case False
  then show ?thesis
    unfolding merge_known_def using assms
    by (intro ensures_always securing.statement_rules ensures_run) (auto intro: secured_remove)
next
  case True
  obtain r where r: "local_of owner mid d = Some r" using assms by (auto simp: secured_def)
  have "ensures (sq_run (settle_where (lm_is (lm_owner m) (lm_id m)) (lm_seq m) (lm_ts m) (lm_status m)))
      (\<lambda>_. settled owner mid) d"
    by (rule ensures_run, erule settle_settles [OF _ r]) (use True in \<open>auto simp: lm_is_def\<close>)
  then have "ensures (merge_known now m ctx) (\<lambda>_. settled owner mid) d"
    unfolding merge_known_def
    by (rule ensures_always) (intro ensures_always settling.statement_rules ensures_keeps [OF settling.remove])
  then show ?thesis by (rule ensures_weaken) (rule settled_secured)
qed

lemma secured_ack:
  assumes "secured owner mid k d"
  shows "ensures (ack_body o' i ts sq st) (\<lambda>_. secured owner mid k) d"
proof (cases "(o', i) = (owner, mid) \<and> 0 < st")
  case False
  then show ?thesis
    unfolding ack_body_def using assms
    by (intro ensures_always securing.statement_rules ensures_run) (auto intro: secured_remove)
next
  case True
  obtain r where r: "local_of owner mid d = Some r" using assms by (auto simp: secured_def)
  have "ensures (sq_run (settle_where (ack_changes o' i ts sq st) sq ts st)) (\<lambda>_. settled owner mid) d"
    by (rule ensures_run, erule settle_settles [OF _ r]) (use True in \<open>auto simp: lm_is_def ack_changes_def\<close>)
  then have "ensures (ack_body o' i ts sq st) (\<lambda>_. settled owner mid) d"
    unfolding ack_body_def using r True
    by (intro ensures_then [OF ensures_select]) (auto intro!: ensures_then [OF ensures_guard] ensures_always
        settling.statement_rules ensures_keeps [OF settling.remove])
  then show ?thesis by (rule ensures_weaken) (rule settled_secured)
qed

interpretation secure: store_invariant "secured owner mid k" for owner mid k
proof unfold_locales
  show "ensures (mergeIncoming now m ctx) (\<lambda>_. secured owner mid k) d" if "secured owner mid k d" for d now m ctx
    using that by (rule securing.merged_if) (rule secured_known)
qed (rule securing.same securing.drafted secured_ack securing.claim_all securing.finish_st securing.cancel_st
       securing.marked; assumption)+

text \<open>A new draft that is reported committed is in the outbox, under the order it was given.\<close>

lemma ensures_conj:
  assumes "ensures m P d" and "ensures m Q d"
  shows "ensures m (\<lambda>x d'. P x d' \<and> Q x d') d"
  using assms unfolding ensures_def by (metis option.inject)

definition draft_kept :: "msg_dto \<Rightarrow> client_db \<Rightarrow> bool" where
  "draft_kept m d \<longleftrightarrow> secured (lm_owner m) (lm_id m) (lm_order m) d \<and>
     (\<exists>r. local_of (lm_owner m) (lm_id m) d = Some r \<and> grown (new_row m) r)"

lemma draft_kept_step:
  assumes "draft_kept m d" and "evolved d d'" and "secured (lm_owner m) (lm_id m) (lm_order m) d'"
  shows "draft_kept m d'"
  using assms grown_trans unfolding draft_kept_def evolved_def by meson

lemma write_draft_keeps:
  assumes "local_of (lm_owner m) (lm_id m) d = None"
  shows "ensures (write_draft now m) (\<lambda>k d'. k = lm_order m \<and> draft_kept m d') d"
proof -
  have tail: "ensures (sq_then (upsertFts m) (\<lambda>_.
       sq_then (sq_run (upsert_conv m 0 (\<lambda>cv. cv\<lparr>cv_last := lm_content m\<rparr>))) (\<lambda>_.
       sq_then (finishProjection now m True no_ctx) (\<lambda>_.
       sq_return (lm_order m))))) (\<lambda>k d'. k = lm_order m \<and> draft_kept m d') e" (is "ensures ?t _ e")
    if e: "draft_kept m e" for e
  proof -
    have "ensures ?t (\<lambda>_. secured (lm_owner m) (lm_id m) (lm_order m)) e"
      using e by (intro ensures_always securing.statement_rules) (simp add: draft_kept_def)
    moreover have "ensures ?t (\<lambda>_. evolved e) e"
      by (intro ensures_always evolving.statement_rules) (simp add: evolved_refl)
    moreover have "ensures ?t (\<lambda>k _. k = lm_order m) e"
      unfolding upsertFts_def finishProjection_def by (intro ensures_intros refl)
    ultimately have "ensures ?t (\<lambda>k d'. (secured (lm_owner m) (lm_id m) (lm_order m) d' \<and> evolved e d') \<and> k = lm_order m) e"
      by (intro ensures_conj)
    then show ?thesis by (rule ensures_weaken) (use e draft_kept_step in blast)
  qed
  have wrote: "draft_kept m d3"
    if i: "insert_local m d = Some (n, d1)" and f: "fillMissingMedia m d1 = Some (n2, d2)"
      and q: "enqueue m d2 = Some (n3, d3)" for n d1 n2 d2 n3 d3
  proof -
    have "local_of (lm_owner m) (lm_id m) d1 = Some (new_row m)"
      using local_of_insert [OF i] assms by simp
    then obtain r where r: "local_of (lm_owner m) (lm_id m) d2 = Some r" "grown (new_row m) r"
      using evolved_fill [OF f] unfolding evolved_def by blast
    have "local_of (lm_owner m) (lm_id m) d3 = Some r" "queued (lm_owner m) (lm_id m) (lm_order m) d3"
      using q r(1) by (auto simp: enqueue_def queued_def split: if_splits)
    then show ?thesis using r(2) by (simp add: draft_kept_def secured_def)
  qed
  show ?thesis
    unfolding write_draft_def
    by (rule ensures_then, rule ensures_run, rule ensures_then, rule ensures_run, rule ensures_if)
      (use local_of_insert [of m d] assms in \<open>auto intro!: ensures_then [OF ensures_run] tail wrote\<close>)
qed

lemma draft_body_keeps:
  assumes "local_of (lm_owner m) (lm_id m) d = None"
  shows "ensures (draft_body now m) (\<lambda>k d'. draft_kept (m\<lparr>lm_order := k\<rparr>) d' \<and> 0 < k) d"
  unfolding draft_body_def compatibleIdentity_def
proof (intro ensures_intros)
  fix n d1 and k :: int
  assume "alloc_order (lm_owner m) (lm_order m) d = Some (n, d1)" "0 < k"
  then have "local_of (lm_owner m) (lm_id m) d1 = None"
    using assms frames(17) local_of_cong by metis
  then have "ensures (write_draft now (m\<lparr>lm_order := k\<rparr>))
      (\<lambda>k' d'. k' = k \<and> draft_kept (m\<lparr>lm_order := k\<rparr>) d') d1"
    using write_draft_keeps [of "m\<lparr>lm_order := k\<rparr>"] by simp
  then show "ensures (write_draft now (m\<lparr>lm_order := k\<rparr>)) (\<lambda>k d'. draft_kept (m\<lparr>lm_order := k\<rparr>) d' \<and> 0 < k) d1"
    by (rule ensures_weaken) (use \<open>0 < k\<close> in auto)
qed (use assms in auto)

end
