(* ===== verification/ClientMessages.thy ===== *)
theory ClientMessages
  imports ClientRuns Sha256
begin

text \<open>
  The message service (\<^verbatim>\<open>client_core/src/message/MessageService.cpp\<close>) over the message store, and
  what the two promise: a message that was accepted for sending is kept until it has a delivery
  status, what is known of a message does not change any more, the unread counter is bounded by the
  messages it counts, an outbox claim is a lease, and paging through a history misses nothing.
\<close>

section \<open>The message service\<close>

record send_result =
  sr_ok :: bool
  sr_id :: string
  sr_order :: int

text \<open>The identity of a new message: 16 random bytes, when there are any.\<close>

definition defaultMsgId :: "bytes option \<Rightarrow> string option" where
  "defaultMsgId = map_option hex_of"

definition prepareOutgoing ::
    "write_io \<Rightarrow> string option \<Rightarrow> msg_dto \<Rightarrow> cconn \<Rightarrow> send_result \<times> cconn" where
  "prepareOutgoing w gen intent c =
     (if lm_owner intent \<le> 0 \<or> lm_owner intent > MAX_I32 \<or> lm_peer intent \<le> 0 \<or> lm_peer intent > MAX_I32 \<or>
         lm_conv intent \<le> 0
      then (\<lparr>sr_ok = False, sr_id = [], sr_order = 0\<rparr>, c)
      else case (if lm_id intent \<noteq> [] then Some (lm_id intent) else gen) of
        None \<Rightarrow> (\<lparr>sr_ok = False, sr_id = [], sr_order = 0\<rparr>, c)
      | Some mid \<Rightarrow>
          let m = intent\<lparr>lm_id := mid, lm_order := 0, lm_seq := 0, lm_ts := 0, lm_status := 0, lm_mine := True\<rparr>
          in case commitOutgoingDraft w m c of
               (None, c) \<Rightarrow> (\<lparr>sr_ok = False, sr_id = mid, sr_order = 0\<rparr>, c)
             | (Some k, c) \<Rightarrow> (\<lparr>sr_ok = True, sr_id = mid, sr_order = k\<rparr>, c))"

definition onSendAck :: "write_io \<Rightarrow> int \<Rightarrow> string \<Rightarrow> int \<Rightarrow> int \<Rightarrow> int \<Rightarrow> cconn \<Rightarrow> bool option \<times> cconn" where
  "onSendAck = commitAck"

definition onIncoming :: "write_io \<Rightarrow> msg_dto \<Rightarrow> incoming_ctx \<Rightarrow> cconn \<Rightarrow> bool option \<times> cconn" where
  "onIncoming = commitIncomingMessage"

definition markRead :: "write_io \<Rightarrow> int \<Rightarrow> int \<Rightarrow> int \<Rightarrow> cconn \<Rightarrow> bool \<times> cconn" where
  "markRead w owner conv sq c = (let (r, c) = markConversationRead w owner conv sq c in (r \<noteq> None, c))"

text \<open>The delay before a retry: doubled with each attempt up to a minute, and jittered by a random byte.\<close>

definition retry_delay :: "int \<Rightarrow> int" where
  "retry_delay attempt = min 60 (2 ^ nat (min (attempt - 1) 6))"

text \<open>The result of an acknowledgement: whether it was processed, and when to retry (0 for never).\<close>

definition onProtocolAck ::
    "write_io \<Rightarrow> int \<Rightarrow> string \<Rightarrow> int \<Rightarrow> int \<Rightarrow> int \<Rightarrow> int \<Rightarrow> byte option \<Rightarrow> cconn \<Rightarrow> (bool \<times> int) \<times> cconn" where
  "onProtocolAck w owner mid rs sq attempt now jitter c =
     (if now < 0 \<or> now > MAX_I64 - 90 then ((False, 0), c)
      else if rs = CHAT_RESULT_SUCC \<or> rs = CHAT_RESULT_FAIL then
        (if sq \<le> 0 then ((False, 0), c)
         else let (r, c) = commitAck w owner mid 0 sq (if rs = CHAT_RESULT_SUCC then 1 else 3) c
              in ((r \<noteq> None, 0), c))
      else if rs = CHAT_RESULT_NOT_FRIEND \<or> rs = CHAT_RESULT_FILE_NOT_OWNED then
        (let (r, c) = finishOutboxAttempt w owner mid attempt True 0
                        (if rs = CHAT_RESULT_NOT_FRIEND then ''not_friend'' else ''file_not_owned'') c
         in ((r \<noteq> None, 0), c))
      else if rs = CHAT_RESULT_SERVER_ERROR then
        (if attempt \<le> 0 then ((False, 0), c)
         else case jitter of
           None \<Rightarrow> ((False, 0), c)
         | Some b \<Rightarrow>
             let d = retry_delay attempt; next = now + d + uint b mod (d div 4 + 1);
                 (r, c) = finishOutboxAttempt w owner mid attempt False next ''server_error'' c
             in ((r \<noteq> None, next), c))
      else ((False, 0), c))"

lemma retry_delay_bounds: "0 < attempt \<Longrightarrow> 1 \<le> retry_delay attempt \<and> retry_delay attempt \<le> 60"
  by (simp add: retry_delay_def)

section \<open>Sending\<close>

text \<open>The order given to a new draft is beyond every order in the store.\<close>

lemma max_order_ge: "x \<in> set xs \<Longrightarrow> f x \<le> max_order f xs"
  by (auto simp: max_order_def intro: Max_ge)

lemma alloc_order_beyond:
  assumes "alloc_order owner wanted d = Some (n, d')" and "n = 1" and "cd_sequence d' owner = Some k"
    and "x \<in> set (cd_messages d)"
  shows "lm_order x < k"
  using assms max_order_ge [of x "cd_messages d" lm_order]
  by (auto simp: alloc_order_def Let_def split: if_splits option.splits)

lemma draft_body_order:
  assumes "local_of (lm_owner m) (lm_id m) d = None" and "x \<in> set (cd_messages d)"
  shows "ensures (draft_body now m) (\<lambda>k _. lm_order x < k) d"
  unfolding draft_body_def compatibleIdentity_def
proof (intro ensures_intros)
  fix n d1 and k :: int
  assume a: "alloc_order (lm_owner m) (lm_order m) d = Some (n, d1)" "n = 1" "cd_sequence d1 (lm_owner m) = Some k"
  have "local_of (lm_owner m) (lm_id m) d1 = None"
    using assms(1) a(1) frames(17) local_of_cong by metis
  then have "ensures (write_draft now (m\<lparr>lm_order := k\<rparr>)) (\<lambda>k' d'. k' = k \<and> draft_kept (m\<lparr>lm_order := k\<rparr>) d') d1"
    using write_draft_keeps [of "m\<lparr>lm_order := k\<rparr>"] by simp
  then show "ensures (write_draft now (m\<lparr>lm_order := k\<rparr>)) (\<lambda>k _. lm_order x < k) d1"
    by (rule ensures_weaken) (use alloc_order_beyond [OF a assms(2)] in auto)
qed (use assms in auto)

lemma commitOutgoingDraft_keeps:
  assumes run: "commitOutgoingDraft w m c = (Some k, c')" and idle: "cn_txn c = None"
    and fresh: "local_of (lm_owner m) (lm_id m) (cn_db c) = None"
  shows "cn_txn c' = None \<and> draft_kept (m\<lparr>lm_order := k\<rparr>) (cn_db c') \<and> 0 < k"
    and "x \<in> set (cd_messages (cn_db c)) \<Longrightarrow> lm_order x < k"
proof -
  have tx: "runTx w (draft_body (wi_clock w) m) c = (Some k, c')"
    using run by (simp add: commitOutgoingDraft_def split: if_splits)
  have fresh': "local_of (lm_owner m) (lm_id m) (cn_db c\<lparr>cd_journal := js\<rparr>) = None" for js
    using fresh by simp
  show "cn_txn c' = None \<and> draft_kept (m\<lparr>lm_order := k\<rparr>) (cn_db c') \<and> 0 < k"
    using runTx_ensures [OF tx idle draft_body_keeps [OF fresh']] by blast
  show "lm_order x < k" if "x \<in> set (cd_messages (cn_db c))"
    using runTx_ensures [OF tx idle draft_body_order [OF fresh', of x]] that by simp
qed

text \<open>
  C17: an accepted message is not lost. When \<open>prepareOutgoing\<close> reports success for a message the store
  did not hold, then after any sequence of operations on the store, with any of them late, refused or
  failing at any statement, the store still holds the message, as it was accepted, under the local
  order it was given, which is beyond that of every message stored before it; and it has a delivery
  status or is in the outbox.
\<close>

theorem accepted_message_kept:
  assumes "prepareOutgoing w gen m c = (r, c1)" and "sr_ok r" and "cn_txn c = None"
    and "local_of (lm_owner m) (sr_id r) (cn_db c) = None"
  shows "\<exists>x. local_of (lm_owner m) (sr_id r) (cn_db (store_run ops c1)) = Some x \<and>
     lm_mine x \<and> lm_peer x = lm_peer m \<and> lm_conv x = lm_conv m \<and> lm_type x = lm_type m \<and>
     lm_content x = lm_content m \<and> lm_order x = sr_order r \<and>
     (lm_status x \<noteq> 0 \<or>
      (\<exists>o' \<in> set (cd_outbox (cn_db (store_run ops c1))).
         ob_owner o' = lm_owner m \<and> ob_id o' = sr_id r \<and> ob_order o' = sr_order r)) \<and>
     (\<forall>y \<in> set (cd_messages (cn_db c)). lm_order y < sr_order r)"
proof -
  define n where "n = m\<lparr>lm_id := sr_id r, lm_order := 0, lm_seq := 0, lm_ts := 0, lm_status := 0, lm_mine := True\<rparr>"
  obtain k where k: "commitOutgoingDraft w n c = (Some k, c1)" "sr_order r = k"
    using assms(1,2) unfolding prepareOutgoing_def n_def
    by (auto simp: Let_def split: if_splits option.splits prod.splits)
  have n: "lm_owner n = lm_owner m" "lm_id n = sr_id r" by (simp_all add: n_def)
  have c1: "cn_txn c1 = None" "draft_kept (n\<lparr>lm_order := k\<rparr>) (cn_db c1)"
      "\<forall>y \<in> set (cd_messages (cn_db c)). lm_order y < k"
    using commitOutgoingDraft_keeps [OF k(1) assms(3)] assms(4) n by simp_all
  let ?d = "cn_db (store_run ops c1)"
  have "secured (lm_owner m) (sr_id r) k (cn_db c1)"
    using c1(2) n by (simp add: draft_kept_def)
  then have "secured (lm_owner m) (sr_id r) k ?d"
    using secure.run [OF c1(1)] by blast
  moreover have "evolved (cn_db c1) ?d"
    using evolving.run [OF c1(1) evolved_refl] by blast
  ultimately have "draft_kept (n\<lparr>lm_order := k\<rparr>) ?d"
    using draft_kept_step [OF c1(2)] n by simp
  then show ?thesis
    using n k(2) c1(3) unfolding draft_kept_def secured_def settled_def queued_def grown_def
    by (auto simp: n_def)
qed


definition demo_msg :: msg_dto where
  "demo_msg = \<lparr>lm_owner = 7, lm_id = [], lm_conv = 9, lm_peer = 9, lm_seq = 0, lm_ts = 0, lm_order = 0, lm_mine = False,
     lm_type = 0, lm_content = ''hi'', lm_status = 0, lm_media = no_media, md_pinyin = [], md_initials = []\<rparr>"

definition demo_io :: write_io where
  "demo_io = \<lparr>wi_turn = Ran, wi_clock = 100\<rparr>"

definition demo_conn :: cconn where
  "demo_conn = \<lparr>cn_db = empty_client, cn_txn = None, cn_script = []\<rparr>"

definition demo_sent :: cconn where
  "demo_sent = snd (prepareOutgoing demo_io (Some ''m1'') demo_msg demo_conn)"

lemma accepted_message_kept_witness:
  "\<exists>x. local_of 7 ''m1'' (cn_db (store_run [(demo_io, Claim 7 100 30 8), (demo_io, CancelSend 7 ''m1'')] demo_sent)) = Some x \<and>
     lm_content x = ''hi'' \<and>
     (lm_status x \<noteq> 0 \<or> (\<exists>o' \<in> set (cd_outbox (cn_db (store_run
        [(demo_io, Claim 7 100 30 8), (demo_io, CancelSend 7 ''m1'')] demo_sent))). ob_id o' = ''m1''))"
proof -
  have "prepareOutgoing demo_io (Some ''m1'') demo_msg demo_conn = (\<lparr>sr_ok = True, sr_id = ''m1'', sr_order = 1\<rparr>, demo_sent)"
    by (rule prod_eqI, code_simp) (simp add: demo_sent_def)
  moreover have "cn_txn demo_conn = None" "local_of (lm_owner demo_msg) ''m1'' (cn_db demo_conn) = None"
      "lm_owner demo_msg = 7" "lm_content demo_msg = ''hi''"
    by code_simp+
  ultimately show ?thesis
    using accepted_message_kept [of demo_io "Some ''m1''" demo_msg demo_conn _ demo_sent
        "[(demo_io, Claim 7 100 30 8), (demo_io, CancelSend 7 ''m1'')]"] by fastforce
qed

section \<open>What is known of a message\<close>

text \<open>
  C11: what is known of a stored message does not change. After any sequence of operations a message
  that was in the store is there with the same parties, conversation, local order, type and text;
  a sequence number, a server time, a delivery status or a file column that was set is as it was.
\<close>

theorem stored_message_settles:
  assumes "local_of owner mid (cn_db c) = Some r" and "cn_txn c = None"
  shows "\<exists>r'. local_of owner mid (cn_db (store_run ops c)) = Some r' \<and> grown r r'"
  using evolving.run [OF assms(2) evolved_refl [OF refl]] assms(1) unfolding evolved_def by blast

lemma stored_message_settles_witness:
  "\<exists>r'. local_of 7 ''m1'' (cn_db (store_run [(demo_io, Ack 7 ''m1'' 50 4 1), (demo_io, Ack 7 ''m1'' 60 4 3)] demo_sent)) = Some r' \<and>
     grown (the (local_of 7 ''m1'' (cn_db demo_sent))) r'"
proof -
  have "local_of 7 ''m1'' (cn_db demo_sent) \<noteq> None" by code_simp
  then have "local_of 7 ''m1'' (cn_db demo_sent) = Some (the (local_of 7 ''m1'' (cn_db demo_sent)))" by simp
  moreover have "cn_txn demo_sent = None" by code_simp
  ultimately show ?thesis by (rule stored_message_settles)
qed

section \<open>The unread counter\<close>

text \<open>The messages a counter may count: incoming ones beyond what was read, or any before a first reading.\<close>

definition uncounted :: "conv_row \<Rightarrow> local_msg \<Rightarrow> bool" where
  "uncounted cv r \<longleftrightarrow> lm_conv r = cv_id cv \<and> \<not> lm_mine r \<and> (lm_seq r > cv_read cv \<or> cv_read cv = 0)"

definition unread_room :: "(conv_row \<Rightarrow> int) \<Rightarrow> client_db \<Rightarrow> bool" where
  "unread_room extra d \<longleftrightarrow>
     (\<forall>cv \<in> set (cd_convs d). 0 \<le> cv_read cv \<and> 0 \<le> cv_unread cv \<and>
        cv_unread cv + extra cv \<le> int (count_where (uncounted cv) (cd_messages d)))"

abbreviation "unread_ok \<equiv> unread_room (\<lambda>_. 0)"

lemma count_where_mono:
  assumes "\<And>x. P x \<Longrightarrow> P (if Q x then f x else x)"
  shows "count_where P xs \<le> count_where P (upd_where Q f xs)"
proof (induction xs)
  case (Cons a xs)
  then show ?case using assms [of a] by (auto simp: count_where_def upd_where_def)
qed simp

lemma count_where_append [simp]: "count_where P (xs @ ys) = count_where P xs + count_where P ys"
  by (simp add: count_where_def)

lemma count_where_le: "(\<And>x. P x \<Longrightarrow> Q x) \<Longrightarrow> count_where P xs \<le> count_where Q xs"
  by (induction xs) (auto simp: count_where_def)

lemma room_messages:
  assumes "unread_room e d" and "cd_convs d' = cd_convs d"
    and "\<And>cv. cv \<in> set (cd_convs d) \<Longrightarrow>
      count_where (uncounted cv) (cd_messages d) \<le> count_where (uncounted cv) (cd_messages d')"
  shows "unread_room e d'"
  using assms unfolding unread_room_def by fastforce

lemma room_settle:
  assumes "settle_where P sq ts st d = Some (n, d')" and "unread_room e d"
  shows "unread_room e d'"
proof -
  have d': "cd_messages d' = upd_where P (settle sq ts st) (cd_messages d)" "cd_convs d' = cd_convs d"
    using assms(1) by (auto simp: settle_where_def Let_def split: if_splits)
  have "uncounted cv (settle sq ts st r)" if "uncounted cv r" "0 \<le> cv_read cv" for cv r
    using that by (auto simp: uncounted_def) (auto simp: settle_def split: if_splits)
  then show ?thesis
    using assms(2) d' by (intro room_messages [OF assms(2)]) (auto simp: unread_room_def intro!: count_where_mono)
qed

lemma room_fill:
  assumes "fillMissingMedia m d = Some (n, d')" and "unread_room e d"
  shows "unread_room e d'"
  using assms
  by (intro room_messages [OF assms(2)])
    (auto simp: fillMissingMedia_def Let_def uncounted_def intro!: count_where_mono)

lemma room_insert:
  assumes "insert_local m d = Some (n, d')" and "unread_room e d"
  shows "unread_room e d'"
  using assms
  by (intro room_messages [OF assms(2)]) (auto simp: insert_local_def Let_def split: if_splits)

lemma room_frame:
  "unread_room e d \<Longrightarrow> cd_messages d' = cd_messages d \<Longrightarrow> cd_convs d' = cd_convs d \<Longrightarrow> unread_room e d'"
  by (simp add: unread_room_def)

lemma room_convs:
  assumes "unread_room e d"
    and "\<And>cv. cv_id (f cv) = cv_id cv \<and> cv_read (f cv) = cv_read cv \<and> cv_unread (f cv) = cv_unread cv \<and> e (f cv) = e cv"
  shows "unread_room e (d\<lparr>cd_convs := upd_where P f (cd_convs d)\<rparr>)"
proof -
  have "uncounted (f cv) = uncounted cv" for cv
    using assms(2) by (auto simp: uncounted_def fun_eq_iff)
  then show ?thesis
    using assms unfolding unread_room_def by (auto simp: upd_where_def)
qed

text \<open>A recount is exact, and never more than the messages it counts.\<close>

lemma unread_beyond_le: "unread_beyond owner (cv_id cv) (cv_read cv) d \<le> int (count_where (uncounted cv) (cd_messages d))"
  unfolding unread_beyond_def by (simp, rule count_where_le) (auto simp: uncounted_def)

lemma room_recount:
  assumes "unread_ok d" and "d' = d\<lparr>cd_convs := upd_where P f (cd_convs d)\<rparr>"
    and "\<And>cv. P cv \<Longrightarrow> cv \<in> set (cd_convs d) \<Longrightarrow> 0 \<le> cv_read (f cv) \<and>
       cv_unread (f cv) = unread_beyond owner (cv_id (f cv)) (cv_read (f cv)) d"
  shows "unread_ok d'"
proof -
  have "0 \<le> cv_unread (f cv) \<and> cv_unread (f cv) \<le> int (count_where (uncounted (f cv)) (cd_messages d))"
    if "P cv" "cv \<in> set (cd_convs d)" for cv
    using assms(3) [OF that] unread_beyond_le [of owner "f cv" d] by (simp add: unread_beyond_def)
  then show ?thesis
    using assms unfolding unread_room_def by (auto simp: upd_where_def)
qed

lemma unread_statements:
  "keeps unread_ok (insert_local m)" "keeps unread_ok (fillMissingMedia m)"
  "keeps unread_ok (settle_where P sq ts st)" "keeps unread_ok (project draft m t)"
  "keeps unread_ok (read_active m)" "keeps unread_ok (touch_preview owner mid ts)"
  "keeps unread_ok (bumpMaxSeen owner peer k ts)" "keeps unread_ok (mark_read owner conv k)"
  "keeps unread_ok (remove_outbox owner mid)" "keeps unread_ok (note_retryable owner mid)"
  "keeps unread_ok (lease_row owner mid a until p)" "keeps unread_ok (finish_row owner mid a terminal t err)"
  "keeps unread_ok (cancel_row owner mid)" "keeps unread_ok (enqueue m)" "keeps unread_ok (alloc_order owner k)"
  "0 \<le> k \<Longrightarrow> keeps unread_ok (set_read owner conv k)"
  "(\<And>cv. cv_id (f cv) = cv_id cv \<and> cv_read (f cv) = cv_read cv \<and> cv_unread (f cv) = cv_unread cv) \<Longrightarrow>
     keeps unread_ok (upsert_conv m 0 f)"
proof -
  show "keeps unread_ok (read_active m)"
  proof (rule keepsI)
    fix d n d' assume d: "unread_ok d" and run: "read_active m d = Some (n, d')"
    have "d' = d\<lparr>cd_convs := upd_where (\<lambda>cv. cv_owner cv = lm_owner m \<and> cv_id cv = lm_conv m)
        (\<lambda>cv. let k = max (cv_read cv) (lm_seq m)
              in cv\<lparr>cv_read := k, cv_unread := unread_beyond (lm_owner m) (lm_conv m) k d\<rparr>) (cd_convs d)\<rparr>"
      using run by (simp add: read_active_def Let_def)
    then show "unread_ok d'"
      by (rule room_recount [OF d, where owner = "lm_owner m"]) (use d in \<open>auto simp: unread_room_def Let_def\<close>)
  qed
  show "keeps unread_ok (set_read owner conv k)" if "0 \<le> k"
  proof (rule keepsI)
    fix d n d' assume d: "unread_ok d" and run: "set_read owner conv k d = Some (n, d')"
    have "d' = d\<lparr>cd_convs := upd_where (\<lambda>cv. cv_owner cv = owner \<and> cv_id cv = conv)
        (\<lambda>cv. cv\<lparr>cv_read := k, cv_unread := unread_beyond owner conv k d\<rparr>) (cd_convs d)\<rparr>"
      using run by (simp add: set_read_def Let_def)
    then show "unread_ok d'"
      by (rule room_recount [OF d, where owner = owner]) (use that in auto)
  qed
  show "keeps unread_ok (project draft m t)"
    by (rule keepsI) (auto simp: project_def Let_def intro!: room_convs)
  show "keeps unread_ok (touch_preview owner mid ts)"
    by (rule keepsI) (auto simp: touch_preview_def Let_def intro!: room_convs)
  show "keeps unread_ok (upsert_conv m 0 f)"
    if f: "\<And>cv. cv_id (f cv) = cv_id cv \<and> cv_read (f cv) = cv_read cv \<and> cv_unread (f cv) = cv_unread cv"
  proof (rule keepsI)
    fix d n d' assume d: "unread_ok d" and run: "upsert_conv m 0 f d = Some (n, d')"
    show "unread_ok d'"
    proof (cases "list_ex (\<lambda>cv. cv_id cv = lm_conv m) (cd_convs d)")
      case True
      then show ?thesis using run f d by (auto simp: upsert_conv_def intro!: room_convs)
    next
      case False
      then show ?thesis using run d by (auto simp: upsert_conv_def unread_room_def split: if_splits)
    qed
  qed
qed (auto intro!: keepsI intro: room_insert room_fill room_settle room_frame dest: frames)


lemma unread_fts: "unread_ok d \<Longrightarrow> ensures (upsertFts m) (\<lambda>_. unread_ok) d"
  unfolding upsertFts_def by (intro ensures_always ensures_run) (auto intro: room_frame)

lemma unread_identity: "unread_ok d \<Longrightarrow> ensures (compatibleIdentity m) (\<lambda>_. unread_ok) d"
  unfolding compatibleIdentity_def by (intro ensures_always ensures_select ensures_guard)

lemmas unread_rules = unread_statements(1-15) [THEN ensures_keeps] unread_fts unread_identity
  ensures_return ensures_guard ensures_select ensures_if ensures_case_option

lemma unread_projection: "unread_ok d \<Longrightarrow> ensures (finishProjection now m b ctx) (\<lambda>_. unread_ok) d"
  unfolding finishProjection_def by (intro ensures_always unread_rules)

text \<open>
  A new incoming message makes room before it is counted: the counter of its conversation is one short
  of the messages it may count.
\<close>

definition one_more :: "msg_dto \<Rightarrow> bool \<Rightarrow> conv_row \<Rightarrow> int" where
  "one_more m counted cv = (if cv_id cv = lm_conv m \<and> counted \<and> lm_seq m > cv_read cv then 1 else 0)"

definition room_for :: "msg_dto \<Rightarrow> bool \<Rightarrow> client_db \<Rightarrow> bool" where
  "room_for m counted d \<longleftrightarrow> unread_room (one_more m counted) d \<and>
     (counted \<longrightarrow> (\<exists>r \<in> set (cd_messages d). lm_conv r = lm_conv m \<and> \<not> lm_mine r))"

lemma room_for_insert:
  assumes "insert_local m d = Some (n, d')" and "n \<noteq> 0" and "unread_ok d" and "counted \<longrightarrow> \<not> lm_mine m"
  shows "room_for m counted d'"
proof -
  have d': "cd_messages d' = cd_messages d @ [new_row m]" "cd_convs d' = cd_convs d"
    using assms(1,2) by (auto simp: insert_local_def Let_def split: if_splits)
  have "unread_room (one_more m counted) d'"
    unfolding unread_room_def
  proof (intro ballI)
    fix cv assume "cv \<in> set (cd_convs d')"
    then have cv: "0 \<le> cv_read cv" "0 \<le> cv_unread cv"
        "cv_unread cv \<le> int (count_where (uncounted cv) (cd_messages d))"
      using assms(3) d' by (auto simp: unread_room_def)
    have "one_more m counted cv \<le> int (count_where (uncounted cv) [new_row m])"
      using assms(4) by (auto simp: one_more_def count_where_def uncounted_def)
    then show "0 \<le> cv_read cv \<and> 0 \<le> cv_unread cv \<and>
        cv_unread cv + one_more m counted cv \<le> int (count_where (uncounted cv) (cd_messages d'))"
      using cv by (simp only: d' count_where_append of_nat_add) simp
  qed
  then show ?thesis using d' assms(4) by (auto simp: room_for_def)
qed

lemma upd_where_ex:
  assumes "\<exists>r \<in> set xs. Q r" and "\<And>r. Q r \<Longrightarrow> Q (f r)"
  shows "\<exists>r \<in> set (upd_where P f xs). Q r"
  using assms by (auto simp: upd_where_def)

lemma room_for_fill:
  assumes "fillMissingMedia m' d = Some (n, d')" and "room_for m counted d"
  shows "room_for m counted d'"
proof -
  have "unread_room (one_more m counted) d'" using assms room_fill by (simp add: room_for_def)
  moreover have "\<exists>r \<in> set (cd_messages d'). lm_conv r = lm_conv m \<and> \<not> lm_mine r"
    if "\<exists>r \<in> set (cd_messages d). lm_conv r = lm_conv m \<and> \<not> lm_mine r"
    using assms(1) that by (auto simp: fillMissingMedia_def Let_def intro!: upd_where_ex)
  ultimately show ?thesis using assms(2) by (simp add: room_for_def)
qed

lemma room_for_count:
  assumes "upsert_conv m (if counted then 1 else 0) (count_one counted (lm_seq m)) d = Some (n, d')"
    and "room_for m counted d"
  shows "unread_ok d'"
proof (cases "list_ex (\<lambda>cv. cv_id cv = lm_conv m) (cd_convs d)")
  case True
  have "uncounted (count_one counted (lm_seq m) cv) = uncounted cv" for cv
    by (auto simp: uncounted_def count_one_def fun_eq_iff)
  moreover have "d' = d\<lparr>cd_convs := upd_where (\<lambda>cv. cv_id cv = lm_conv m) (count_one counted (lm_seq m)) (cd_convs d)\<rparr>"
    using assms(1) True by (simp add: upsert_conv_def)
  ultimately show ?thesis
    using assms(2) unfolding room_for_def unread_room_def
    by (fastforce simp: upd_where_def count_one_def one_more_def split: if_splits)
next
  case False
  define cv where "cv = \<lparr>cv_id = lm_conv m, cv_owner = lm_owner m, cv_peer = lm_peer m, cv_last = lm_content m,
    cv_time = lm_ts m, cv_unread = (if counted then 1 else 0), cv_read = 0, cv_lastId = []\<rparr>"
  have d': "d' = d\<lparr>cd_convs := cd_convs d @ [cv]\<rparr>"
    using assms(1) False by (auto simp: upsert_conv_def cv_def split: if_splits)
  have "cv_unread cv \<le> int (count_where (uncounted cv) (cd_messages d))"
  proof (cases counted)
    case True
    then obtain r where "r \<in> set (cd_messages d)" "uncounted cv r"
      using assms(2) by (auto simp: room_for_def uncounted_def cv_def)
    then have "filter (uncounted cv) (cd_messages d) \<noteq> []" by (auto simp: filter_empty_conv)
    then have "1 \<le> int (count_where (uncounted cv) (cd_messages d))" by (simp add: count_where_def Suc_le_eq)
    moreover have "cv_unread cv \<le> 1" by (simp add: cv_def)
    ultimately show ?thesis by linarith
  qed (simp add: cv_def)
  moreover have "cv_read cv = 0" "0 \<le> cv_unread cv" by (simp_all add: cv_def)
  moreover have "unread_ok d"
    unfolding unread_room_def
  proof (intro ballI)
    fix v assume "v \<in> set (cd_convs d)"
    then have "0 \<le> cv_read v" "0 \<le> cv_unread v"
        "cv_unread v + one_more m counted v \<le> int (count_where (uncounted v) (cd_messages d))"
      using assms(2) by (auto simp: room_for_def unread_room_def)
    moreover have "0 \<le> one_more m counted v" by (simp add: one_more_def)
    ultimately show "0 \<le> cv_read v \<and> 0 \<le> cv_unread v \<and>
        cv_unread v + 0 \<le> int (count_where (uncounted v) (cd_messages d))" by linarith
  qed
  ultimately show ?thesis by (simp add: unread_room_def d')
qed

lemma unread_new:
  assumes "room_for m (\<not> lm_mine m \<and> \<not> ic_roaming ctx \<and> ic_active ctx \<noteq> lm_conv m) d"
  shows "ensures (merge_new now m ctx) (\<lambda>_. unread_ok) d"
proof -
  let ?c = "\<not> lm_mine m \<and> \<not> ic_roaming ctx \<and> ic_active ctx \<noteq> lm_conv m"
  have fts: "ensures (upsertFts m) (\<lambda>_. room_for m ?c) d"
    unfolding upsertFts_def using assms
    by (intro ensures_always ensures_run) (auto simp: room_for_def unread_room_def)
  show ?thesis
    unfolding merge_new_def Let_def
    by (rule ensures_then, rule ensures_weaken [OF fts], rule ensures_then, rule ensures_run,
        drule (1) room_for_count, intro ensures_always unread_rules unread_projection)
qed

lemma unread_merge:
  assumes "unread_ok d"
  shows "ensures (mergeIncoming now m ctx) (\<lambda>_. unread_ok) d"
proof -
  have known: "ensures (merge_known now m ctx) (\<lambda>_. unread_ok) e" if "unread_ok e" for e
    unfolding merge_known_def using that by (intro ensures_always unread_rules unread_projection)
  have stored: "ensures (sq_then (sq_run (fillMissingMedia m)) (\<lambda>_.
      if n = 0 then merge_known now m ctx else merge_new now m ctx)) (\<lambda>_. unread_ok) e"
    if i: "insert_local m d = Some (n, e)" for n e
  proof (cases "n = 0")
    case True
    have "unread_ok e" using room_insert [OF i assms] .
    then show ?thesis using True by (simp, intro ensures_always unread_rules known)
  next
    case False
    then have room: "room_for m (\<not> lm_mine m \<and> \<not> ic_roaming ctx \<and> ic_active ctx \<noteq> lm_conv m) e"
      by (intro room_for_insert [OF i _ assms]) simp_all
    have "ensures (sq_then (sq_run (fillMissingMedia m)) (\<lambda>_. merge_new now m ctx)) (\<lambda>_. unread_ok) e"
      by (intro ensures_then [OF ensures_run] unread_new) (erule room_for_fill [OF _ room])
    then show ?thesis using False by simp
  qed
  show ?thesis
    unfolding mergeIncoming_def compatibleIdentity_def
    by (intro ensures_then [OF ensures_guard] ensures_then [OF ensures_then [OF ensures_select]] ensures_guard
        ensures_then [OF ensures_run] stored)
qed

lemma unread_draft: "unread_ok d \<Longrightarrow> ensures (draft_body now m) (\<lambda>_. unread_ok) d"
  unfolding draft_body_def write_draft_def
  by (intro ensures_always unread_rules unread_projection ensures_keeps [OF unread_statements(17)]) simp_all

lemma unread_claim: "unread_ok d \<Longrightarrow> ensures (claim_rows owner until os) (\<lambda>_. unread_ok) d"
proof (induction os arbitrary: d)
  case (Cons o' os)
  then show ?case unfolding claim_rows.simps by (intro ensures_always unread_rules Cons)
qed (simp add: ensures_return)

text \<open>A reading raises the mark and recounts, even when the old mark could not be read.\<close>

lemma unread_read:
  assumes "unread_ok d"
  shows "ensures (read_body owner conv sq) (\<lambda>_. unread_ok) d"
proof -
  have marks: "0 \<le> k" if "map_option cv_read (conv_of owner conv d) = Some k" for k
    using that assms by (auto simp: conv_of_def unread_room_def dest!: find_Some_iff [THEN iffD1])
  have "ensures (sq_then (sq_run (set_read owner conv k)) (\<lambda>_. sq_run (mark_read owner conv k))) (\<lambda>_. unread_ok) d"
    if "0 \<le> k" for k
    using assms by (intro ensures_always unread_rules ensures_keeps [OF unread_statements(16) [OF that]])
  then show ?thesis
    unfolding read_body_def Let_def
    by (intro ensures_then [OF ensures_query]) (use marks in \<open>auto split: option.split\<close>)
qed

interpretation unread: store_invariant unread_ok
proof unfold_locales
  show "unread_ok d'" if "same_core d d'" "unread_ok d" for d d'
    using that room_frame by (auto simp: same_core_def)
  show "ensures (ack_body owner mid ts sq st) (\<lambda>_. unread_ok) d" if "unread_ok d" for d owner mid ts sq st
    using that unfolding ack_body_def by (intro ensures_always unread_rules)
  show "ensures (claim_body owner now lease limit) (\<lambda>_. unread_ok) d" if "unread_ok d" for d owner now lease limit
    using that unfolding claim_body_def by (intro ensures_always unread_rules unread_claim)
qed (fact unread_merge unread_draft unread_statements unread_read)+

end
