(* ===== verification/ClientHistory.thy ===== *)
theory ClientHistory
  imports ClientMessages
begin

text \<open>
  What the message store promises its readers: the bound on the unread counter, paging through a
  conversation, and the numbering and the leases of the attempts to send.
\<close>

section \<open>The unread counter\<close>

text \<open>
  C14: the unread counter is bounded. After any sequence of operations on a store whose counters are in
  bounds (an empty one is), the counter of a conversation is not negative and never more than the
  incoming messages stored for it beyond what was read; before a first reading, all of them count.
\<close>

theorem unread_bounded:
  assumes "unread_ok (cn_db c)" and "cn_txn c = None" and "cv \<in> set (cd_convs (cn_db (store_run ops c)))"
  shows "0 \<le> cv_unread cv \<and>
    cv_unread cv \<le> int (count_where
      (\<lambda>r. lm_conv r = cv_id cv \<and> \<not> lm_mine r \<and> (lm_seq r > cv_read cv \<or> cv_read cv = 0))
      (cd_messages (cn_db (store_run ops c))))"
proof -
  have "unread_ok (cn_db (store_run ops c))"
    using unread.run [OF assms(2,1)] by blast
  then have "0 \<le> cv_unread cv \<and> cv_unread cv \<le> int (count_where (uncounted cv) (cd_messages (cn_db (store_run ops c))))"
    using assms(3) by (simp add: unread_room_def)
  moreover have "uncounted cv = (\<lambda>r. lm_conv r = cv_id cv \<and> \<not> lm_mine r \<and> (lm_seq r > cv_read cv \<or> cv_read cv = 0))"
    by (simp add: uncounted_def fun_eq_iff)
  ultimately show ?thesis by (simp only: )
qed

definition demo_in :: "string \<Rightarrow> int \<Rightarrow> msg_dto" where
  "demo_in mid sq = demo_msg\<lparr>lm_id := mid, lm_seq := sq, lm_ts := 40 + sq, lm_status := 2\<rparr>"

definition demo_got :: cconn where
  "demo_got = store_run [(demo_io, Incoming (demo_in ''a1'' 1) no_ctx), (demo_io, Incoming (demo_in ''a2'' 2) no_ctx),
     (demo_io, Incoming (demo_in ''a4'' 4) no_ctx)] demo_conn"

definition demo_conv :: conv_row where
  "demo_conv = \<lparr>cv_id = 9, cv_owner = 7, cv_peer = 9, cv_last = ''hi'', cv_time = 44, cv_unread = 3, cv_read = 0,
     cv_lastId = ''a4''\<rparr>"

lemma unread_bounded_witness:
  "demo_conv \<in> set (cd_convs (cn_db demo_got)) \<and>
   cv_unread demo_conv \<le> int (count_where
      (\<lambda>r. lm_conv r = cv_id demo_conv \<and> \<not> lm_mine r \<and> (lm_seq r > cv_read demo_conv \<or> cv_read demo_conv = 0))
      (cd_messages (cn_db demo_got)))"
proof -
  have "demo_conv \<in> set (cd_convs (cn_db demo_got))" by code_simp
  moreover have "unread_ok (cn_db demo_conn)" "cn_txn demo_conn = None" by code_simp+
  ultimately show ?thesis
    using unread_bounded [of demo_conn demo_conv] unfolding demo_got_def by blast
qed

section \<open>Paging\<close>

text \<open>The unique index on \<open>(owner_id, msg_id)\<close>; no message without an identity is ever stored.\<close>

definition ids_ok :: "client_db \<Rightarrow> bool" where
  "ids_ok d \<longleftrightarrow> distinct (map (\<lambda>r. (lm_owner r, lm_id r)) (cd_messages d)) \<and> list_all (\<lambda>r. lm_id r \<noteq> []) (cd_messages d)"

text \<open>Following the cursors from the newest page, for as long as a page says that there is more.\<close>

fun read_history :: "nat \<Rightarrow> int \<Rightarrow> int \<Rightarrow> int \<Rightarrow> msg_key option \<Rightarrow> client_db \<Rightarrow> msg_dto list option" where
  "read_history n owner conv limit cursor d =
     (case listConversation read_ok owner conv cursor limit d of
        None \<Rightarrow> None
      | Some p \<Rightarrow>
          if mp_more p
          then (case n of 0 \<Rightarrow> None
                | Suc n \<Rightarrow> map_option ((@) (mp_messages p)) (read_history n owner conv limit (Some (mp_next p)) d))
          else Some (mp_messages p))"

declare read_history.simps [simp del]

lemma filter_strict_desc:
  assumes "sorted_wrt (\<lambda>a b. f b < (f a :: 'k :: linorder)) xs" and "i < length xs"
  shows "filter (\<lambda>r. f r < f (xs ! i)) xs = drop (Suc i) xs"
  using assms
proof (induction xs arbitrary: i)
  case (Cons a xs)
  show ?case
  proof (cases i)
    case 0
    then show ?thesis using Cons.prems by auto
  next
    case (Suc j)
    then have "f (xs ! j) < f a" using Cons.prems by simp
    then show ?thesis using Suc Cons by (auto dest: order.asym)
  qed
qed simp

lemma history_strict:
  assumes "ids_ok d"
  shows "sorted_wrt (\<lambda>a b. lm_key b < lm_key a) (history_rows owner conv None d)"
proof -
  let ?xs = "filter (\<lambda>r. lm_owner r = owner \<and> lm_conv r = conv) (cd_messages d)"
  have "inj_on lm_key (set ?xs)"
    using assms by (auto simp: ids_ok_def lm_key_def inj_on_def distinct_map)
  moreover have "distinct ?xs" using assms by (auto simp: ids_ok_def distinct_map)
  ultimately have "distinct (map lm_key (sort_key lm_key ?xs))" by (simp add: distinct_map)
  moreover have "sorted (map lm_key (sort_key lm_key ?xs))" by simp
  ultimately have "sorted_wrt (<) (map lm_key (sort_key lm_key ?xs))" by (simp add: strict_sorted_iff)
  then show ?thesis by (simp add: history_rows_def sorted_wrt_rev sorted_wrt_map)
qed

lemma history_cursor:
  "history_rows owner conv (Some k) d = filter (\<lambda>r. lm_key r < k) (history_rows owner conv None d)"
proof -
  have "filter (\<lambda>r. lm_owner r = owner \<and> lm_conv r = conv \<and> lm_key r < k) (cd_messages d) =
      filter (\<lambda>r. lm_key r < k) (filter (\<lambda>r. lm_owner r = owner \<and> lm_conv r = conv) (cd_messages d))"
    by (simp add: conj_ac)
  then show ?thesis
    by (simp only: history_rows_def option.case filter_sort [symmetric] rev_filter simp_thms)
qed

lemma history_set:
  "set (history_rows owner conv None d) = {r \<in> set (cd_messages d). lm_owner r = owner \<and> lm_conv r = conv}"
  by (auto simp: history_rows_def)

lemma history_rows_from:
  assumes "ids_ok d" and "j \<le> length (history_rows owner conv None d)"
    and "cursor = (if j = 0 then None else Some (lm_key (history_rows owner conv None d ! (j - 1))))"
  shows "history_rows owner conv cursor d = drop j (history_rows owner conv None d)"
proof (cases j)
  case (Suc i)
  then show ?thesis
    using assms history_cursor filter_strict_desc [OF history_strict [OF assms(1)]] by simp
qed (use assms(3) in simp)

lemma history_ids:
  "ids_ok d \<Longrightarrow> r \<in> set (history_rows owner conv None d) \<Longrightarrow> lm_id r \<noteq> []"
  unfolding history_set ids_ok_def list_all_iff by blast

lemma page_from:
  fixes d owner conv
  defines "H \<equiv> history_rows owner conv None d"
  assumes ok: "ids_ok d" and args: "0 < owner" "0 < conv" "0 < limit" "limit \<le> 200"
    and j: "j \<le> length H" and cursor: "cursor = (if j = 0 then None else Some (lm_key (H ! (j - 1))))"
  shows "listConversation read_ok owner conv cursor limit d =
    Some \<lparr>mp_messages = map (dto_of d) (take (nat limit) (drop j H)), mp_more = nat limit < length H - j,
          mp_next = (if j = length H then (0, 0, 0, []) else lm_key (last (take (nat limit) (drop j H))))\<rparr>"
proof -
  have rows: "history_rows owner conv cursor d = drop j H"
    using history_rows_from ok j cursor unfolding H_def by blast
  have "(case cursor of None \<Rightarrow> False | Some (_, _, _, mid) \<Rightarrow> mid = []) = False"
  proof (cases "j = 0")
    case False
    then have "H ! (j - 1) \<in> set H" using j by simp
    then show ?thesis using cursor False history_ids [OF ok] unfolding H_def by (auto simp: lm_key_def)
  qed (simp add: cursor)
  moreover have "take (nat limit) (take (nat limit + 1) (drop j H)) = take (nat limit) (drop j H)"
    by (simp add: min_def)
  moreover have "(nat limit < length (take (nat limit + 1) (drop j H))) = (nat limit < length H - j)"
    by auto
  ultimately show ?thesis
    using args j by (simp add: listConversation_def rows Let_def)
qed

lemma pages_from:
  fixes d owner conv
  defines "H \<equiv> history_rows owner conv None d"
  assumes ok: "ids_ok d" and args: "0 < owner" "0 < conv" "0 < limit" "limit \<le> 200"
    and j: "j \<le> length H" and fuel: "length H - j \<le> n"
    and cursor: "cursor = (if j = 0 then None else Some (lm_key (H ! (j - 1))))"
  shows "read_history n owner conv limit cursor d = Some (map (dto_of d) (drop j H))"
  using j fuel cursor
proof (induction n arbitrary: j cursor)
  case (0 j)
  then show ?case
    using page_from [OF ok args, folded H_def, where j = j and cursor = cursor] by (subst read_history.simps) simp
next
  case (Suc n)
  note page = page_from [OF ok args, folded H_def, OF Suc.prems(1,3)]
  show ?case
  proof (cases "nat limit < length H - j")
    case False
    then show ?thesis using page by (subst read_history.simps) simp
  next
    case True
    let ?k = "j + nat limit"
    have k: "?k \<le> length H" "length H - ?k \<le> n" "?k \<noteq> 0"
      using True args Suc.prems by auto
    have "last (take (nat limit) (drop j H)) = H ! (?k - 1)"
      using True args by (subst last_conv_nth) (auto simp: nth_append)
    then have "read_history n owner conv limit (Some (lm_key (last (take (nat limit) (drop j H))))) d =
        Some (map (dto_of d) (drop ?k H))"
      using Suc.IH [OF k(1,2) refl] args by simp
    moreover have "take (nat limit) (drop j H) @ drop ?k H = drop j H"
      by (metis add.commute append_take_drop_id drop_drop)
    moreover have "j \<noteq> length H" using True by simp
    ultimately show ?thesis
      using page True by (subst read_history.simps) (simp flip: map_append)
  qed
qed

text \<open>
  C13: paging misses nothing and repeats nothing. Starting from the newest page and following the
  cursors, with any page size the query allows, reads exactly the messages stored for the conversation,
  once each, in strictly falling order of time, sequence number, local order and identity, and it comes
  to an end after at most as many pages as there are messages.
\<close>

theorem history_pages_complete:
  assumes "ids_ok d" and "0 < owner" and "0 < conv" and "0 < limit" and "limit \<le> 200"
  shows "\<exists>ms. read_history (length (cd_messages d)) owner conv limit None d = Some (map (dto_of d) ms) \<and>
    set ms = {r \<in> set (cd_messages d). lm_owner r = owner \<and> lm_conv r = conv} \<and>
    sorted_wrt (\<lambda>a b. lm_key b < lm_key a) ms"
proof (intro exI conjI)
  have "length (history_rows owner conv None d) \<le> length (cd_messages d)"
    by (simp add: history_rows_def)
  then show "read_history (length (cd_messages d)) owner conv limit None d =
      Some (map (dto_of d) (history_rows owner conv None d))"
    using pages_from [OF assms, where j = 0 and n = "length (cd_messages d)" and cursor = None] by simp
qed (fact history_set history_strict [OF assms(1)])+


lemma history_pages_complete_witness:
  "\<exists>ms. read_history (length (cd_messages (cn_db demo_got))) 7 9 2 None (cn_db demo_got)
       = Some (map (dto_of (cn_db demo_got)) ms) \<and>
     set ms = {r \<in> set (cd_messages (cn_db demo_got)). lm_owner r = 7 \<and> lm_conv r = 9} \<and>
     sorted_wrt (\<lambda>a b. lm_key b < lm_key a) ms"
proof -
  have "ids_ok (cn_db demo_got)" by code_simp
  then show ?thesis by (rule history_pages_complete) simp_all
qed

section \<open>Attempts to send\<close>

text \<open>The unique index on \<open>(owner_id, msg_id)\<close> of the outbox.\<close>

definition outbox_ok :: "client_db \<Rightarrow> bool" where
  "outbox_ok d \<longleftrightarrow> distinct (map (\<lambda>o'. (ob_owner o', ob_id o')) (cd_outbox d))"

text \<open>
  Attempt \<open>n\<close> of a message holds its lease until \<open>T\<close>, or is finished; later attempts have higher numbers.
\<close>

definition leased :: "int \<Rightarrow> int \<Rightarrow> int \<Rightarrow> string \<Rightarrow> client_db \<Rightarrow> bool" where
  "leased T n owner mid d \<longleftrightarrow> T \<le> MAX_I64 \<and> local_of owner mid d \<noteq> None \<and>
     (\<forall>o' \<in> set (cd_outbox d). ob_owner o' = owner \<and> ob_id o' = mid \<longrightarrow>
        n \<le> ob_retry o' \<and> (T \<le> ob_next o' \<or> n \<le> ob_finished o'))"

lemma leased_evolved:
  assumes "leased T n owner mid d" and "evolved d d'" and "set (cd_outbox d') \<subseteq> set (cd_outbox d)"
  shows "leased T n owner mid d'"
  using assms known_evolved unfolding leased_def by blast

lemma leased_upd:
  assumes "leased T n owner mid d"
    and "\<And>o'. o' \<in> set (cd_outbox d) \<Longrightarrow> P o' \<Longrightarrow> ob_owner (f o') = ob_owner o' \<and> ob_id (f o') = ob_id o' \<and>
      (ob_owner o' = owner \<and> ob_id o' = mid \<longrightarrow> n \<le> ob_retry o' \<longrightarrow> T \<le> ob_next o' \<or> n \<le> ob_finished o' \<longrightarrow>
       n \<le> ob_retry (f o') \<and> (T \<le> ob_next (f o') \<or> n \<le> ob_finished (f o')))"
  shows "leased T n owner mid (d\<lparr>cd_outbox := upd_where P f (cd_outbox d)\<rparr>)"
proof -
  have "n \<le> ob_retry (if P x then f x else x) \<and>
      (T \<le> ob_next (if P x then f x else x) \<or> n \<le> ob_finished (if P x then f x else x))"
    if "x \<in> set (cd_outbox d)" "ob_owner (if P x then f x else x) = owner" "ob_id (if P x then f x else x) = mid" for x
    using assms(1) assms(2) [of x] that unfolding leased_def by (cases "P x") auto
  then have "\<forall>o' \<in> set (upd_where P f (cd_outbox d)). ob_owner o' = owner \<and> ob_id o' = mid \<longrightarrow>
      n \<le> ob_retry o' \<and> (T \<le> ob_next o' \<or> n \<le> ob_finished o')"
    unfolding upd_where_def set_map by blast
  then show ?thesis using assms(1) by (simp add: leased_def)
qed

lemma leased_statements:
  "keeps (leased T n owner mid) (insert_local m)" "keeps (leased T n owner mid) (fillMissingMedia m)"
  "keeps (leased T n owner mid) (settle_where P sq ts st)" "keeps (leased T n owner mid) (project draft m t)"
  "keeps (leased T n owner mid) (read_active m)" "keeps (leased T n owner mid) (touch_preview o1 i1 ts)"
  "keeps (leased T n owner mid) (bumpMaxSeen o1 peer k ts)" "keeps (leased T n owner mid) (mark_read o1 conv k)"
  "keeps (leased T n owner mid) (remove_outbox o1 i1)" "keeps (leased T n owner mid) (set_read o1 conv k)"
  "keeps (leased T n owner mid) (upsert_conv m u f)" "keeps (leased T n owner mid) (alloc_order o1 k)"
  "keeps (leased T n owner mid) (note_retryable o1 i1)" "keeps (leased T n owner mid) (cancel_row o1 i1)"
  "keeps (leased T n owner mid) (finish_row o1 i1 a terminal t err)"
  "(lm_owner m, lm_id m) \<noteq> (owner, mid) \<Longrightarrow> keeps (leased T n owner mid) (enqueue m)"
proof -
  show "keeps (leased T n owner mid) (remove_outbox o1 i1)"
    by (rule keepsI, erule leased_evolved) (auto simp: remove_outbox_def Let_def evolved_refl)
  show "keeps (leased T n owner mid) (note_retryable o1 i1)"
    by (rule keepsI) (auto simp: note_retryable_def Let_def intro!: leased_upd)
  show "keeps (leased T n owner mid) (cancel_row o1 i1)"
    by (rule keepsI) (auto simp: cancel_row_def Let_def leased_def [THEN iffD1, THEN conjunct1] intro!: leased_upd)
  show "keeps (leased T n owner mid) (finish_row o1 i1 a terminal t err)"
    by (rule keepsI) (auto simp: finish_row_def Let_def intro!: leased_upd)
  show "keeps (leased T n owner mid) (enqueue m)" if "(lm_owner m, lm_id m) \<noteq> (owner, mid)"
    using that by (auto intro!: keepsI simp: leased_def enqueue_def split: if_splits)
qed (rule keepsI, erule leased_evolved,
     (erule evolved_insert evolved_fill evolved_settle | rule evolved_refl, drule frames, simp),
     drule frames, simp)+


text \<open>Attempt \<open>n\<close> is finished, where it must be.\<close>

definition over :: "bool \<Rightarrow> int \<Rightarrow> int \<Rightarrow> string \<Rightarrow> client_db \<Rightarrow> bool" where
  "over b n owner mid d \<longleftrightarrow>
     (b \<longrightarrow> (\<forall>o' \<in> set (cd_outbox d). ob_owner o' = owner \<and> ob_id o' = mid \<longrightarrow> n \<le> ob_finished o'))"

lemma leased_lease:
  assumes "lease_row o1 i1 a until p d = Some (k, d')" and "leased T n owner mid d" and "over b n owner mid d"
    and "(o1, i1) = (owner, mid) \<Longrightarrow> n \<le> a \<and> (T \<le> until \<or> b)"
  shows "leased T n owner mid d' \<and> over b n owner mid d'"
proof -
  let ?P = "\<lambda>o'. ob_owner o' = o1 \<and> ob_id o' = i1"
  let ?f = "\<lambda>o'. o'\<lparr>ob_retry := a, ob_next := until, ob_version := 1,
      ob_packet := prot_num CHAT_INFO_RQ, ob_payload := p\<rparr>"
  have d': "d' = d\<lparr>cd_outbox := upd_where ?P ?f (cd_outbox d)\<rparr>"
    using assms(1) by (simp add: lease_row_def Let_def)
  have "leased T n owner mid d'"
    unfolding d' by (rule leased_upd [OF assms(2)]) (use assms(3,4) in \<open>auto simp: over_def\<close>)
  moreover have "over b n owner mid d'"
    using assms(3) by (auto simp: over_def d' upd_where_def)
  ultimately show ?thesis by blast
qed

lemma claim_rows_leased:
  assumes "leased T n owner mid d" and "over b n owner mid d"
    and "\<And>o'. o' \<in> set os \<Longrightarrow> (o1, ob_id o') = (owner, mid) \<Longrightarrow> n \<le> ob_retry o' \<and> (T \<le> until \<or> b)"
  shows "ensures (claim_rows o1 until os) (\<lambda>_. leased T n owner mid) d"
proof -
  have "ensures (claim_rows o1 until os) (\<lambda>_ d. leased T n owner mid d \<and> over b n owner mid d) d"
    using assms
  proof (induction os arbitrary: d)
    case Nil
    then show ?case by (simp add: ensures_return)
  next
    case (Cons x os)
    have "leased T n owner mid d' \<and> over b n owner mid d'"
      if "lease_row o1 (ob_id x) (ob_retry x + 1) until p d = Some (k, d')" for p k d'
      by (rule leased_lease [OF that Cons.prems(1,2)]) (use Cons.prems(3) [of x] in auto)
    moreover have "ensures (claim_rows o1 until os) (\<lambda>_ d. leased T n owner mid d \<and> over b n owner mid d) d'"
      if "leased T n owner mid d' \<and> over b n owner mid d'" for d'
      by (rule Cons.IH) (use that in simp, use that in simp, rule Cons.prems(3), simp_all)
    ultimately have tail: "ensures (sq_then (claim_rows o1 until os) (\<lambda>as. sq_return (y # as)))
        (\<lambda>_ d. leased T n owner mid d \<and> over b n owner mid d) d'"
      if "lease_row o1 (ob_id x) (ob_retry x + 1) until p d = Some (k, d')" for y p k d'
      using that by (intro ensures_then) (blast intro: ensures_weaken ensures_return)
    show ?case
      unfolding claim_rows.simps
      by (intro ensures_then [OF ensures_select] ensures_case_option ensures_then [OF ensures_guard]
          ensures_then [OF ensures_run] tail) simp_all
  qed
  then show ?thesis by (rule ensures_weaken) simp
qed

lemma due_rows:
  "set (due owner now limit d) \<subseteq> {o' \<in> set (cd_outbox d). ob_owner o' = owner \<and> ob_next o' \<le> now}"
  unfolding due_def by (auto dest: in_set_takeD)

lemma outbox_same:
  "outbox_ok d \<Longrightarrow> o' \<in> set (cd_outbox d) \<Longrightarrow> x \<in> set (cd_outbox d) \<Longrightarrow> ob_owner x = ob_owner o' \<Longrightarrow>
     ob_id x = ob_id o' \<Longrightarrow> x = o'"
  by (auto simp: outbox_ok_def distinct_map inj_on_def)

lemma leased_claim:
  assumes "leased T n owner mid d" and "outbox_ok d" and "0 < lease"
  shows "ensures (claim_body o1 now lease limit) (\<lambda>_. leased T n owner mid) d"
proof -
  let ?os = "due o1 now limit d" and ?b = "now + lease < T \<and> (o1 = owner \<and> mid \<in> ob_id ` set (due o1 now limit d))"
  have out: "o' \<in> set (cd_outbox d)" "ob_owner o' = o1" "ob_next o' \<le> now" if "o' \<in> set ?os" for o'
    using that due_rows [of o1 now limit d] by auto
  have "over ?b n owner mid d"
    unfolding over_def
  proof (intro impI ballI)
    fix x assume b: ?b and x: "x \<in> set (cd_outbox d)" "ob_owner x = owner \<and> ob_id x = mid"
    then obtain o' where o': "o' \<in> set ?os" "ob_id o' = mid" by blast
    then have "x = o'" using outbox_same [OF assms(2) out(1) x(1)] out(2) x(2) b by simp
    then have "ob_next x < T" using out(3) [OF o'(1)] b assms(3) by simp
    then show "n \<le> ob_finished x" using assms(1) x unfolding leased_def by fastforce
  qed
  moreover have "n \<le> ob_retry o' \<and> (T \<le> now + lease \<or> ?b)"
    if "o' \<in> set ?os" "(o1, ob_id o') = (owner, mid)" for o'
    using that out [OF that(1)] assms(1) unfolding leased_def by (auto simp: image_iff)
  ultimately show ?thesis
    unfolding claim_body_def
    by (intro ensures_then [OF ensures_select] ensures_then [OF ensures_guard] claim_rows_leased [OF assms(1)])
qed


lemma outbox_ok_upd:
  assumes "outbox_ok d" and "\<And>o'. ob_owner (f o') = ob_owner o' \<and> ob_id (f o') = ob_id o'"
  shows "outbox_ok (d\<lparr>cd_outbox := upd_where P f (cd_outbox d)\<rparr>)"
proof -
  have "map (\<lambda>o'. (ob_owner o', ob_id o')) (upd_where P f xs) = map (\<lambda>o'. (ob_owner o', ob_id o')) xs" for xs
    using assms(2) by (simp add: upd_where_def)
  then show ?thesis using assms(1) by (simp add: outbox_ok_def)
qed

interpretation outboxing: statement_invariant outbox_ok
proof unfold_locales
  show "keeps outbox_ok (enqueue m)" for m
    by (rule keepsI) (auto simp: enqueue_def outbox_ok_def list_ex_iff split: if_splits)
  show "keeps outbox_ok (remove_outbox owner mid)" for owner mid
    by (rule keepsI) (auto simp: remove_outbox_def outbox_ok_def Let_def distinct_map inj_on_def)
  show "keeps outbox_ok (note_retryable owner mid)" for owner mid
    by (rule keepsI) (auto simp: note_retryable_def Let_def intro!: outbox_ok_upd)
  show "keeps outbox_ok (lease_row owner mid a until p)" for owner mid a until p
    by (rule keepsI) (auto simp: lease_row_def Let_def intro!: outbox_ok_upd)
  show "keeps outbox_ok (finish_row owner mid a terminal t err)" for owner mid a terminal t err
    by (rule keepsI) (auto simp: finish_row_def Let_def intro!: outbox_ok_upd)
  show "keeps outbox_ok (cancel_row owner mid)" for owner mid
    by (rule keepsI) (auto simp: cancel_row_def Let_def intro!: outbox_ok_upd)
qed (auto simp: outbox_ok_def same_core_def intro!: keepsI dest: frames)

lemma keeps_conj: "keeps P f \<Longrightarrow> keeps Q f \<Longrightarrow> keeps (\<lambda>d. P d \<and> Q d) f"
  unfolding keeps_def by meson

lemmas leased_rules = leased_statements(1-15) [THEN ensures_keeps] ensures_return ensures_guard ensures_select
  ensures_if ensures_case_option

lemma leased_fts: "leased T n owner mid d \<Longrightarrow> ensures (upsertFts m) (\<lambda>_. leased T n owner mid) d"
  unfolding upsertFts_def by (intro ensures_always ensures_run) (auto simp: leased_def)

lemma leased_projection:
  "leased T n owner mid d \<Longrightarrow> ensures (finishProjection now m b ctx) (\<lambda>_. leased T n owner mid) d"
  unfolding finishProjection_def by (intro ensures_always leased_rules)

lemma leased_merge: "leased T n owner mid d \<Longrightarrow> ensures (mergeIncoming now m ctx) (\<lambda>_. leased T n owner mid) d"
  unfolding mergeIncoming_def compatibleIdentity_def merge_known_def merge_new_def Let_def
  by (intro ensures_always leased_rules leased_fts leased_projection)

lemma leased_write:
  "leased T n owner mid d \<Longrightarrow> (lm_owner m, lm_id m) \<noteq> (owner, mid) \<Longrightarrow>
     ensures (write_draft now m) (\<lambda>_. leased T n owner mid) d"
  unfolding write_draft_def
  by (intro ensures_always leased_rules leased_fts leased_projection ensures_keeps [OF leased_statements(16)])

text \<open>A message the store holds is not put into the outbox again.\<close>

lemma leased_draft: 
  assumes "leased T n owner mid d"
  shows "ensures (draft_body now m) (\<lambda>_. leased T n owner mid) d"
proof (cases "(lm_owner m, lm_id m) = (owner, mid)")
  case True
  then obtain r where "local_of (lm_owner m) (lm_id m) d = Some r" using assms by (auto simp: leased_def)
  then show ?thesis
    unfolding draft_body_def compatibleIdentity_def using assms
    by (intro ensures_then [OF ensures_then [OF ensures_select]] ensures_guard ensures_then [OF ensures_select])
      (simp add: ensures_return)
next
  case False
  then show ?thesis
    unfolding draft_body_def compatibleIdentity_def using assms
    by (intro ensures_always leased_rules leased_write) simp_all
qed

interpretation leasing: store_invariant "\<lambda>d. outbox_ok d \<and> leased T n owner mid d" for T n owner mid
proof unfold_locales
  let ?P = "\<lambda>d. outbox_ok d \<and> leased T n owner mid d"
  show "?P d'" if "same_core d d'" "?P d" for d d'
    using that by (auto simp: same_core_def outbox_ok_def leased_def local_of_def)
  show "ensures (mergeIncoming now m ctx) (\<lambda>_. ?P) d" if "?P d" for d now m ctx
    using that by (intro ensures_conj outboxing.merge leased_merge) simp_all
  show "ensures (draft_body now m) (\<lambda>_. ?P) d" if "?P d" for d now m
    using that by (intro ensures_conj outboxing.draft leased_draft) simp_all
  show "ensures (ack_body o1 i1 ts sq st) (\<lambda>_. ?P) d" if "?P d" for d o1 i1 ts sq st
    using that by (intro ensures_conj outboxing.ack) (simp, unfold ack_body_def, intro ensures_always leased_rules, simp_all)
  show "ensures (claim_body o1 now lease limit) (\<lambda>_. ?P) d" if "?P d" "0 < lease" for d o1 now lease limit
    using that by (intro ensures_conj outboxing.claim leased_claim) simp_all
  show "keeps ?P (finish_row o1 i1 a terminal t err)" for o1 i1 a terminal t err
    by (rule keeps_conj [OF outboxing.finish leased_statements(15)])
  show "keeps ?P (cancel_row o1 i1)" for o1 i1
    by (rule keeps_conj [OF outboxing.cancel leased_statements(14)])
  show "ensures (read_body o1 conv sq) (\<lambda>_. ?P) d" if "?P d" for d o1 conv sq
    using that by (intro ensures_conj outboxing.read)
      (simp, unfold read_body_def Let_def, intro ensures_always leased_rules ensures_query, simp_all)
qed

text \<open>What a claim hands out: the due messages, each under a new attempt that is leased.\<close>

definition handed :: "int \<Rightarrow> outbox_row \<Rightarrow> outbox_attempt \<Rightarrow> bool" where
  "handed owner o' a \<longleftrightarrow> oa_id a = ob_id o' \<and> oa_attempt a = ob_retry o' + 1 \<and> ob_owner o' = owner"

lemma claim_rows_handed:
  assumes "list_all (\<lambda>o'. ob_owner o' = owner) os"
  shows "ensures (claim_rows owner until os) (\<lambda>as _. list_all2 (handed owner) os as) d"
  using assms
proof (induction os arbitrary: d)
  case (Cons o' os)
  then show ?case
    unfolding claim_rows.simps
    by (intro ensures_then [OF ensures_select] ensures_case_option ensures_then [OF ensures_guard]
        ensures_then [OF ensures_run] ensures_then [OF ensures_weaken [OF Cons.IH]] ensures_return)
      (auto simp: handed_def)
qed (simp add: ensures_return)

lemma due_ids:
  assumes "outbox_ok d"
  shows "distinct (map ob_id (due owner now limit d))"
proof -
  have "distinct (map ob_id (filter (\<lambda>o'. ob_owner o' = owner \<and> ob_next o' \<le> now \<and> ob_retry o' < MAX_I32) (cd_outbox d)))"
    using assms by (auto simp: outbox_ok_def distinct_map inj_on_def)
  then show ?thesis
    unfolding due_def by (simp add: take_map [symmetric] distinct_take distinct_map)
qed

lemma lease_row_leases:
  assumes "lease_row owner mid n until p d = Some (k, d')" and "local_of owner mid d \<noteq> None" and "until \<le> MAX_I64"
  shows "leased until n owner mid d'"
proof -
  have "ob_retry o' = n \<and> ob_next o' = until"
    if "o' \<in> set (cd_outbox d')" "ob_owner o' = owner" "ob_id o' = mid" for o'
  proof -
    let ?f = "\<lambda>o'. if ob_owner o' = owner \<and> ob_id o' = mid then o'\<lparr>ob_retry := n, ob_next := until, ob_version := 1,
      ob_packet := prot_num CHAT_INFO_RQ, ob_payload := p\<rparr> else o'"
    have "cd_outbox d' = map ?f (cd_outbox d)"
      using assms(1) by (auto simp: lease_row_def Let_def upd_where_def)
    then have "o' \<in> ?f ` set (cd_outbox d)" using that(1) by (simp only: set_map)
    then obtain y where "o' = ?f y" by (rule imageE)
    then show ?thesis using that(2,3) by (cases "ob_owner y = owner \<and> ob_id y = mid") auto
  qed
  moreover have "local_of owner mid d' = local_of owner mid d"
    using frames(13) [OF assms(1)] by (intro local_of_cong) simp
  ultimately show ?thesis using assms(2,3) by (auto simp: leased_def)
qed

lemma claim_rows_lease:
  assumes "distinct (map ob_id os)" and "until \<le> MAX_I64"
  shows "ensures (claim_rows owner until os)
    (\<lambda>as d'. (\<forall>a \<in> set as. oa_id a \<in> ob_id ` set os \<and> leased until (oa_attempt a) owner (oa_id a) d')) d"
  using assms(1)
proof (induction os arbitrary: d)
  case Nil
  then show ?case by (simp add: ensures_return)
next
  case (Cons x os d)
  let ?Q = "\<lambda>n as d'. (\<forall>a \<in> set as. oa_id a \<in> ob_id ` set os \<and> leased until (oa_attempt a) owner (oa_id a) d')
      \<and> leased until n owner (ob_id x) d'"
  have tail: "ensures (claim_rows owner until os) (?Q (ob_retry x + 1)) d'"
    if known: "readMessage owner (ob_id x) d = Some m"
      and row: "lease_row owner (ob_id x) (ob_retry x + 1) until p d = Some (k, d')" for m p k d'
  proof (intro ensures_conj)
    show "ensures (claim_rows owner until os)
        (\<lambda>as d'. \<forall>a \<in> set as. oa_id a \<in> ob_id ` set os \<and> leased until (oa_attempt a) owner (oa_id a) d') d'"
      using Cons by simp
    have "local_of owner (ob_id x) d \<noteq> None" using known by (auto simp: readMessage_def)
    then have "leased until (ob_retry x + 1) owner (ob_id x) d'"
      by (rule lease_row_leases [OF row _ assms(2)])
    then show "ensures (claim_rows owner until os) (\<lambda>_. leased until (ob_retry x + 1) owner (ob_id x)) d'"
      by (rule claim_rows_leased [where b = False]) (use Cons.prems in \<open>auto simp: over_def image_iff\<close>)
  qed
  show ?case
    unfolding claim_rows.simps
    by (intro ensures_then [OF ensures_select] ensures_case_option ensures_then [OF ensures_guard]
        ensures_then [OF ensures_run] ensures_then [OF ensures_weaken [OF tail]] ensures_return) auto
qed

lemma claim_leases:
  assumes "outbox_ok d" and "now + lease \<le> MAX_I64"
  shows "ensures (claim_body owner now lease limit)
    (\<lambda>as d'. list_all2 (handed owner) (due owner now limit d) as \<and>
       (\<forall>a \<in> set as. leased (now + lease) (oa_attempt a) owner (oa_id a) d')) d"
proof -
  have "list_all (\<lambda>o'. ob_owner o' = owner) (due owner now limit d)"
    using due_rows [of owner now limit d] by (auto simp: list_all_iff)
  note rows = ensures_conj [OF claim_rows_handed [OF this] claim_rows_lease [OF due_ids [OF assms(1)] assms(2)]]
  show ?thesis
    unfolding claim_body_def
    by (intro ensures_then [OF ensures_select] ensures_then [OF ensures_guard] ensures_weaken [OF rows]) auto
qed

lemma claimOutbox_leases:
  assumes run: "claimOutbox w owner now lease limit c = (Some as, c')" and idle: "cn_txn c = None"
    and ok: "outbox_ok (cn_db c)"
  shows "cn_txn c' = None \<and> outbox_ok (cn_db c') \<and>
    list_all2 (handed owner) (due owner now limit (cn_db c)) as \<and>
    (\<forall>a \<in> set as. leased (now + lease) (oa_attempt a) owner (oa_id a) (cn_db c'))"
proof -
  have args: "now + lease \<le> MAX_I64" "0 < lease"
      and tx: "runTx w (claim_body owner now lease limit) c = (Some as, c')"
    using run by (auto simp: claimOutbox_def split: if_splits)
  have "ensures (claim_body owner now lease limit)
      (\<lambda>as d'. (list_all2 (handed owner) (due owner now limit (cn_db c)) as \<and>
         (\<forall>a \<in> set as. leased (now + lease) (oa_attempt a) owner (oa_id a) d')) \<and> outbox_ok d')
      (cn_db c\<lparr>cd_journal := js\<rparr>)" for js
  proof (rule ensures_conj)
    have "outbox_ok (cn_db c\<lparr>cd_journal := js\<rparr>)" using ok by (simp add: outbox_ok_def)
    then show "ensures (claim_body owner now lease limit) (\<lambda>_. outbox_ok) (cn_db c\<lparr>cd_journal := js\<rparr>)"
      by (rule outboxing.claim [OF _ args(2)])
    show "ensures (claim_body owner now lease limit)
      (\<lambda>as d'. list_all2 (handed owner) (due owner now limit (cn_db c)) as \<and>
         (\<forall>a \<in> set as. leased (now + lease) (oa_attempt a) owner (oa_id a) d')) (cn_db c\<lparr>cd_journal := js\<rparr>)"
      using claim_leases [OF \<open>outbox_ok (cn_db c\<lparr>cd_journal := js\<rparr>)\<close> args(1), of owner limit]
      by (simp add: due_def)
  qed
  then show ?thesis using runTx_ensures [OF tx idle] by blast
qed

text \<open>
  C12: a claim is a lease. When a message is claimed for sending and claimed again later, with any
  operations in between, the later attempt has a higher number; and the second claim comes only after
  the lease of the first has run out, unless that attempt was reported finished before.
\<close>

theorem claims_do_not_overlap:
  assumes "claimOutbox w owner now lease limit c = (Some as, c1)" and "a \<in> set as"
    and "claimOutbox w' owner now' lease' limit' (store_run ops c1) = (Some as', c2)" and "a' \<in> set as'"
    and "oa_id a' = oa_id a" and "cn_txn c = None" and "outbox_ok (cn_db c)"
  shows "oa_attempt a < oa_attempt a' \<and>
    (now + lease \<le> now' \<or>
     (\<exists>o' \<in> set (cd_outbox (cn_db (store_run ops c1))).
        ob_owner o' = owner \<and> ob_id o' = oa_id a \<and> oa_attempt a \<le> ob_finished o'))"
proof -
  let ?d = "cn_db (store_run ops c1)"
  have c1: "cn_txn c1 = None" "outbox_ok (cn_db c1)" "leased (now + lease) (oa_attempt a) owner (oa_id a) (cn_db c1)"
    using claimOutbox_leases [OF assms(1,6,7)] assms(2) by auto
  then have d: "cn_txn (store_run ops c1) = None" "outbox_ok ?d" "leased (now + lease) (oa_attempt a) owner (oa_id a) ?d"
    using leasing.run [OF c1(1)] by simp_all
  have "list_all2 (handed owner) (due owner now' limit' ?d) as'"
    using claimOutbox_leases [OF assms(3) d(1,2)] by blast
  then obtain o' where o': "o' \<in> set (due owner now' limit' ?d)" "handed owner o' a'"
    using assms(4) by (metis in_set_conv_nth list_all2_conv_all_nth)
  then have "o' \<in> set (cd_outbox ?d)" "ob_owner o' = owner" "ob_id o' = oa_id a" "ob_next o' \<le> now'"
      "oa_attempt a' = ob_retry o' + 1"
    using due_rows [of owner now' limit' ?d] assms(5) by (auto simp: handed_def)
  then show ?thesis using d(3) unfolding leased_def by fastforce
qed


definition demo_attempt :: "int \<Rightarrow> outbox_attempt" where
  "demo_attempt n = \<lparr>oa_id = ''m1'', oa_payload = empty_chat\<lparr>ci_my := 7, ci_friend := 9, ci_msgId := ''m1'', ci_msg := ''hi''\<rparr>,
     oa_packet = prot_num CHAT_INFO_RQ, oa_attempt = n, oa_order = 1\<rparr>"

definition demo_claimed :: cconn where
  "demo_claimed = snd (claimOutbox demo_io 7 100 30 8 demo_sent)"

lemma claims_do_not_overlap_witness:
  "oa_attempt (demo_attempt 1) < oa_attempt (demo_attempt 2) \<and> ((100::int) + 30 \<le> 130 \<or>
     (\<exists>o' \<in> set (cd_outbox (cn_db (store_run [(demo_io, Claim 7 120 30 8)] demo_claimed))).
        ob_owner o' = 7 \<and> ob_id o' = oa_id (demo_attempt 1) \<and> oa_attempt (demo_attempt 1) \<le> ob_finished o'))"
proof -
  let ?c = "store_run [(demo_io, Claim 7 120 30 8)] demo_claimed"
  have first: "claimOutbox demo_io 7 100 30 8 demo_sent = (Some [demo_attempt 1], demo_claimed)"
    by (rule prod_eqI, code_simp) (simp add: demo_claimed_def)
  have second: "claimOutbox demo_io 7 130 30 8 ?c = (Some [demo_attempt 2], snd (claimOutbox demo_io 7 130 30 8 ?c))"
    by (rule prod_eqI, code_simp) simp
  have "demo_attempt 1 \<in> set [demo_attempt 1]" "demo_attempt 2 \<in> set [demo_attempt 2]"
      "oa_id (demo_attempt 2) = oa_id (demo_attempt 1)" "cn_txn demo_sent = None" "outbox_ok (cn_db demo_sent)"
    by (simp, simp, simp add: demo_attempt_def, code_simp, code_simp)
  then show ?thesis by (rule claims_do_not_overlap [OF first _ second])
qed

end
