(* ===== verification/ClientServices.thy ===== *)
theory ClientServices
  imports ClientStore
begin

text \<open>
  Small services of the client over the store: friends (\<^verbatim>\<open>client_core/src/friend/FriendService.cpp\<close>),
  reply suggestions (\<^verbatim>\<open>client_core/src/ai/AiSuggestionService.cpp\<close>) and the decision which store to
  open after a restart (\<^verbatim>\<open>client_core/runtime/RecoveryResolver.h\<close>). Both services have a repository;
  each of their methods is one step.
\<close>

section \<open>Friends\<close>

record friend_service =
  fs_owner :: int
  fs_online :: "int \<Rightarrow> bool option"

definition onFriendInfo :: "write_io \<Rightarrow> friend_dto \<Rightarrow> friend_service \<Rightarrow> cconn \<Rightarrow> bool \<times> cconn" where
  "onFriendInfo w f s c = (let (r, c) = upsertFriend w (fs_owner s) f c in (r \<noteq> None, c))"

definition onFriendRequest :: "write_io \<Rightarrow> request_dto \<Rightarrow> friend_service \<Rightarrow> cconn \<Rightarrow> bool option \<times> cconn" where
  "onFriendRequest w r s c = upsertFriendRequest w (fs_owner s) r c"

definition fs_accept :: "write_io \<Rightarrow> string \<Rightarrow> friend_dto \<Rightarrow> friend_service \<Rightarrow> cconn \<Rightarrow> bool \<times> cconn" where
  "fs_accept w i f s c = (let (r, c) = acceptFriendRequest w (fs_owner s) i f c in (r \<noteq> None, c))"

definition fs_reject :: "write_io \<Rightarrow> string \<Rightarrow> friend_service \<Rightarrow> cconn \<Rightarrow> bool \<times> cconn" where
  "fs_reject w i s c = (let (r, c) = setFriendRequestState w (fs_owner s) i RqRejected c in (r \<noteq> None, c))"

definition fs_delete :: "write_io \<Rightarrow> int \<Rightarrow> friend_service \<Rightarrow> cconn \<Rightarrow> bool option \<times> friend_service \<times> cconn" where
  "fs_delete w i s c =
     (case cl_deleteFriend w (fs_owner s) i c of
        (None, c) \<Rightarrow> (None, s, c)
      | (Some b, c) \<Rightarrow> (Some b, s\<lparr>fs_online := (fs_online s)(i := None)\<rparr>, c))"

definition onPresence :: "int \<Rightarrow> bool \<Rightarrow> friend_service \<Rightarrow> friend_service" where
  "onPresence i on s = s\<lparr>fs_online := (fs_online s)(i \<mapsto> on)\<rparr>"

text \<open>A friend and whether it is online; a friend whose presence is not known is not.\<close>

definition fs_loadFriends :: "read_io \<Rightarrow> friend_service \<Rightarrow> client_db \<Rightarrow> (friend_dto \<times> bool) list option" where
  "fs_loadFriends io s d =
     map_option (map (\<lambda>f. (f, fs_online s (fd_id f) = Some True))) (cl_loadFriends io (fs_owner s) d)"

definition fs_loadRequests :: "read_io \<Rightarrow> friend_service \<Rightarrow> client_db \<Rightarrow> request_dto list option" where
  "fs_loadRequests io s d = cl_loadFriendRequests io (fs_owner s) d"

section \<open>Suggestions\<close>

abbreviation "SUGGESTION_TIMEOUT \<equiv> (20000::int)"
abbreviation "SUGGESTION_TIMED_OUT \<equiv> (1001::int)"

record flight =
  fl_id :: string
  fl_conv :: int
  fl_peer :: int
  fl_tone :: string
  fl_context :: string
  fl_generation :: int
  fl_deadline :: int

record suggester =
  sg_owner :: int
  sg_generation :: int
  sg_seq :: nat
  sg_flights :: "flight list"
  sg_byConv :: "int \<Rightarrow> string option"

definition new_suggester :: "int \<Rightarrow> suggester" where
  "new_suggester owner = \<lparr>sg_owner = owner, sg_generation = 0, sg_seq = 0, sg_flights = [], sg_byConv = (\<lambda>_. None)\<rparr>"

definition makeRequestId :: "suggester \<Rightarrow> string \<times> suggester" where
  "makeRequestId s = (''ai-'' @ nat_str (sg_seq s), s\<lparr>sg_seq := sg_seq s + 1\<rparr>)"

definition flight_of :: "string \<Rightarrow> suggester \<Rightarrow> flight option" where
  "flight_of i s = find (\<lambda>f. fl_id f = i) (sg_flights s)"

definition drop_flight :: "flight \<Rightarrow> suggester \<Rightarrow> suggester" where
  "drop_flight f s =
     s\<lparr>sg_flights := filter (\<lambda>g. fl_id g \<noteq> fl_id f) (sg_flights s), sg_byConv := (sg_byConv s)(fl_conv f := None)\<rparr>"

text \<open>The identity of the request, and whether it is one that is already under way.\<close>

definition requestAiReply ::
    "int \<Rightarrow> int \<Rightarrow> int \<Rightarrow> string \<Rightarrow> string \<Rightarrow> suggester \<Rightarrow> (string \<times> bool) option \<times> suggester" where
  "requestAiReply now conv peer tone ctx s =
     (if conv \<le> 0 then (None, s)
      else case sg_byConv s conv of
        Some i \<Rightarrow> (Some (i, True), s)
      | None \<Rightarrow>
          let (i, s) = makeRequestId s;
              f = \<lparr>fl_id = i, fl_conv = conv, fl_peer = peer, fl_tone = tone, fl_context = ctx,
                   fl_generation = sg_generation s, fl_deadline = now + SUGGESTION_TIMEOUT\<rparr>
          in (Some (i, False), s\<lparr>sg_flights := sg_flights s @ [f], sg_byConv := (sg_byConv s)(conv \<mapsto> i)\<rparr>))"

definition suggestion_of :: "flight \<Rightarrow> int \<Rightarrow> suggestion_status \<Rightarrow> string list \<Rightarrow> int \<Rightarrow> suggestion_row" where
  "suggestion_of f now st items err =
     \<lparr>ag_id = fl_id f, ag_conv = fl_conv f, ag_peer = fl_peer f, ag_tone = fl_tone f, ag_status = st,
      ag_text = joinSuggestions items, ag_error = err, ag_time = now, ag_context = fl_context f\<rparr>"

definition cancelAiReply :: "write_io \<Rightarrow> int \<Rightarrow> string \<Rightarrow> suggester \<times> cconn \<Rightarrow> bool \<times> suggester \<times> cconn" where
  "cancelAiReply w now i = (\<lambda>(s, c).
     case flight_of i s of
       None \<Rightarrow> (False, s, c)
     | Some f \<Rightarrow> (True, drop_flight f s,
                  snd (upsertAiSuggestion w (sg_owner s) (suggestion_of f now SgAborted [] 0) c)))"

definition onAiResult ::
    "write_io \<Rightarrow> int \<Rightarrow> string \<Rightarrow> suggestion_status \<Rightarrow> string list \<Rightarrow> int \<Rightarrow> suggester \<times> cconn \<Rightarrow> suggester \<times> cconn" where
  "onAiResult w now i st items err = (\<lambda>(s, c).
     case flight_of i s of
       None \<Rightarrow> (s, c)
     | Some f \<Rightarrow>
         if fl_generation f \<noteq> sg_generation s then (drop_flight f s, c)
         else (drop_flight f s, snd (upsertAiSuggestion w (sg_owner s) (suggestion_of f now st items err) c)))"

definition sg_invalidate :: "suggester \<Rightarrow> suggester" where
  "sg_invalidate s = s\<lparr>sg_generation := sg_generation s + 1, sg_flights := [], sg_byConv := (\<lambda>_. None)\<rparr>"

fun time_out :: "(nat \<Rightarrow> write_io) \<Rightarrow> int \<Rightarrow> int \<Rightarrow> flight list \<Rightarrow> cconn \<Rightarrow> cconn" where
  "time_out w owner now [] c = c"
| "time_out w owner now (f # fs) c =
     time_out (\<lambda>n. w (n + 1)) owner now fs
       (snd (upsertAiSuggestion (w 0) owner (suggestion_of f now SgError [] SUGGESTION_TIMED_OUT) c))"

definition sg_tick :: "(nat \<Rightarrow> write_io) \<Rightarrow> int \<Rightarrow> suggester \<times> cconn \<Rightarrow> suggester \<times> cconn" where
  "sg_tick w now = (\<lambda>(s, c).
     let late = filter (\<lambda>f. fl_deadline f \<le> now) (sg_flights s)
     in (s\<lparr>sg_flights := filter (\<lambda>f. \<not> fl_deadline f \<le> now) (sg_flights s),
           sg_byConv := (\<lambda>k. if k \<in> fl_conv ` set late then None else sg_byConv s k)\<rparr>,
         time_out w (sg_owner s) now late c))"

definition loadSuggestions :: "read_io \<Rightarrow> int \<Rightarrow> suggester \<Rightarrow> client_db \<Rightarrow> (suggestion_row \<times> string list) list option" where
  "loadSuggestions io conv s d = loadAiSuggestions io (sg_owner s) conv d"

section \<open>Recovery\<close>

datatype cutover_state = CutMissing | CutCorrupt | CutLegacy | CutPrepared | CutNoWrite | CutDirty
datatype recovery_action = RecLegacy | RecNative | RecRepair

record evidence =
  ev_state :: cutover_state
  ev_owner :: int
  ev_epoch :: int

definition ev_valid :: "int \<Rightarrow> evidence \<Rightarrow> bool" where
  "ev_valid owner e \<longleftrightarrow> ev_state e \<noteq> CutCorrupt \<and> (ev_state e = CutMissing \<or> ev_owner e = owner \<and> ev_epoch e > 0)"

definition resolveRecovery :: "int \<Rightarrow> evidence \<Rightarrow> evidence \<Rightarrow> bool \<Rightarrow> bool \<Rightarrow> recovery_action" where
  "resolveRecovery owner d m nativeExists nativeLoadable =
     (if owner \<le> 0 \<or> \<not> ev_valid owner d \<or> \<not> ev_valid owner m then RecRepair
      else if ev_state d = CutMissing \<and> ev_state m = CutMissing then (if nativeExists then RecRepair else RecLegacy)
      else if ev_state d = CutMissing \<or> ev_state m = CutMissing \<or> ev_state d \<noteq> ev_state m \<or> ev_epoch d \<noteq> ev_epoch m
      then RecRepair
      else if ev_state d = CutLegacy \<or> ev_state d = CutPrepared then RecLegacy
      else if ev_state d = CutNoWrite \<or> ev_state d = CutDirty
      then (if nativeExists \<and> nativeLoadable then RecNative else RecRepair)
      else RecRepair)"

section \<open>The column of candidates\<close>

lemma join_snoc:
  "joinSuggestions (xs @ [x]) = (if joinSuggestions xs = [] then x else joinSuggestions xs @ [CHR 0x1F] @ x)"
  by (simp add: joinSuggestions_def)

lemma split_plain: "CHR 0x1F \<notin> set s \<Longrightarrow> split_us s = [s]"
proof -
  assume "CHR 0x1F \<notin> set s"
  then have "dropWhile (\<lambda>c. c \<noteq> CHR 0x1F) s = []" by (auto simp: dropWhile_eq_Nil_conv)
  then show ?thesis by (simp only: split_us.simps [of s] list.case)
qed

lemma split_append:
  assumes "CHR 0x1F \<notin> set x"
  shows "split_us (s @ CHR 0x1F # x) = split_us s @ [x]"
proof (induction s rule: split_us.induct)
  case (1 s)
  let ?P = "\<lambda>c. c \<noteq> CHR 0x1F"
  show ?case
  proof (cases "dropWhile ?P s")
    case Nil
    then have "CHR 0x1F \<notin> set s" by (auto simp: dropWhile_eq_Nil_conv)
    then have "dropWhile ?P (s @ CHR 0x1F # x) = CHR 0x1F # x" "takeWhile ?P (s @ CHR 0x1F # x) = s"
      by (induction s) auto
    then have "split_us (s @ CHR 0x1F # x) = s # split_us x"
      by (simp only: split_us.simps [of "s @ CHR 0x1F # x"] list.case)
    then show ?thesis using split_plain [OF assms] split_plain [OF \<open>CHR 0x1F \<notin> set s\<close>] by simp
  next
    case (Cons u rest)
    then have s: "split_us s = takeWhile ?P s # split_us rest" by (simp only: split_us.simps [of s] list.case)
    have "dropWhile ?P s \<noteq> []" using Cons by simp
    then have "\<exists>c \<in> set s. \<not> ?P c" unfolding dropWhile_eq_Nil_conv by simp
    then have "dropWhile ?P (s @ CHR 0x1F # x) = u # rest @ CHR 0x1F # x"
        "takeWhile ?P (s @ CHR 0x1F # x) = takeWhile ?P s"
      using Cons by (simp_all only: dropWhile_append takeWhile_append) auto
    then have "split_us (s @ CHR 0x1F # x) = takeWhile ?P s # split_us (rest @ CHR 0x1F # x)"
      by (simp only: split_us.simps [of "s @ CHR 0x1F # x"] list.case)
    then show ?thesis using 1 [OF Cons] s by simp
  qed
qed

lemma join_empty: "joinSuggestions xs = [] \<longleftrightarrow> (\<forall>x \<in> set xs. x = [])"
  by (induction xs rule: rev_induct) (auto simp: join_snoc joinSuggestions_def [of "[]"])

text \<open>
  The candidates of a suggestion are read back as they were written, as long as no candidate
  contains the separator and the first one is not empty.
\<close>

theorem suggestions_read_back:
  assumes "list_all (\<lambda>x. CHR 0x1F \<notin> set x) xs" and "xs = [] \<or> hd xs \<noteq> []"
  shows "splitSuggestions (joinSuggestions xs) = xs"
  using assms
proof (induction xs rule: rev_induct)
  case Nil
  then show ?case by (simp add: joinSuggestions_def splitSuggestions_def)
next
  case (snoc x xs)
  show ?case
  proof (cases "xs = []")
    case True
    then have "x \<noteq> []" using snoc.prems(2) by simp
    then show ?thesis
      using True snoc.prems(1) split_plain [of x] by (simp add: joinSuggestions_def splitSuggestions_def)
  next
    case False
    then have hd: "hd xs \<noteq> []" using snoc.prems(2) by simp
    then have ne: "joinSuggestions xs \<noteq> []" using False by (auto simp: join_empty intro: bexI [of _ "hd xs"])
    have "splitSuggestions (joinSuggestions xs) = xs" using snoc hd by simp
    then show ?thesis
      using ne snoc.prems(1) split_append [of x "joinSuggestions xs"] by (simp add: join_snoc splitSuggestions_def)
  qed
qed

lemma suggestions_read_back_witness:
  "splitSuggestions (joinSuggestions [''ok'', [], ''see you'']) = [''ok'', [], ''see you'']"
  by (rule suggestions_read_back) simp_all

end
