(* ===== verification/Completions.thy ===== *)
theory Completions
  imports Prelude "HOL-Library.List_Lexorder" "HOL-Library.Char_ord"
begin

text \<open>
  The two ledgers of the client runtime: \<^verbatim>\<open>client_core/runtime/CompletionRegistry.h\<close>, which records
  the final result of each operation once and in bounded space, and
  \<^verbatim>\<open>client_core/runtime/InvalidationBus.h\<close>, which keeps the newest version of each kind of data and
  what its observer has seen. Each method runs under a mutex, so it is one step.
\<close>

section \<open>Results of operations\<close>

datatype completion_result = CompOk | CompCancelled | CompFailed | CompTimeout

record completion =
  cp_id :: string
  cp_result :: completion_result
  cp_consumed :: bool
  cp_created :: int
  cp_error :: string

text \<open>The records of a \<open>std::map\<close>, in the order of their keys.\<close>

record registry =
  rg_capacity :: nat
  rg_records :: "completion list"

definition recorded :: "string \<Rightarrow> registry \<Rightarrow> bool" where
  "recorded i g \<longleftrightarrow> list_ex (\<lambda>r. cp_id r = i) (rg_records g)"

text \<open>The first consumed record makes room.\<close>

fun evict_one :: "completion list \<Rightarrow> completion list option" where
  "evict_one [] = None"
| "evict_one (r # rs) = (if cp_consumed r then Some rs else map_option (Cons r) (evict_one rs))"

definition rg_complete :: "int \<Rightarrow> string \<Rightarrow> completion_result \<Rightarrow> string \<Rightarrow> registry \<Rightarrow> bool \<times> registry" where
  "rg_complete now i res err g =
     (if i = [] \<or> recorded i g then (False, g)
      else case (if length (rg_records g) \<ge> rg_capacity g then evict_one (rg_records g) else Some (rg_records g)) of
        None \<Rightarrow> (False, g)
      | Some rs \<Rightarrow>
          (True, g\<lparr>rg_records := insort_key cp_id
             \<lparr>cp_id = i, cp_result = res, cp_consumed = False, cp_created = now, cp_error = err\<rparr> rs\<rparr>))"

definition rg_peek :: "string \<Rightarrow> registry \<Rightarrow> completion option" where
  "rg_peek i g = find (\<lambda>r. cp_id r = i) (rg_records g)"

definition rg_consume :: "string \<Rightarrow> registry \<Rightarrow> completion option \<times> registry" where
  "rg_consume i g =
     (rg_peek i g, g\<lparr>rg_records := upd_where (\<lambda>r. cp_id r = i) (\<lambda>r. r\<lparr>cp_consumed := True\<rparr>) (rg_records g)\<rparr>)"

definition rg_evictExpired :: "int \<Rightarrow> int \<Rightarrow> registry \<Rightarrow> nat \<times> registry" where
  "rg_evictExpired now ttl g =
     (let keep = filter (\<lambda>r. \<not> (cp_consumed r \<or> now - cp_created r \<ge> ttl)) (rg_records g)
      in (length (rg_records g) - length keep, g\<lparr>rg_records := keep\<rparr>))"

definition rg_unconsumed :: "registry \<Rightarrow> nat" where
  "rg_unconsumed g = count_where (\<lambda>r. \<not> cp_consumed r) (rg_records g)"

definition rg_reset :: "registry \<Rightarrow> registry" where
  "rg_reset g = g\<lparr>rg_records := []\<rparr>"

text \<open>One record for an operation.\<close>

definition registry_ok :: "registry \<Rightarrow> bool" where
  "registry_ok g \<longleftrightarrow> distinct (map cp_id (rg_records g)) \<and> [] \<notin> cp_id ` set (rg_records g)"

lemma recorded_iff: "recorded i g \<longleftrightarrow> i \<in> cp_id ` set (rg_records g)"
  by (auto simp: recorded_def list_ex_iff)

lemma evict_one_Some:
  "evict_one rs = Some rs' \<Longrightarrow>
     \<exists>xs r ys. rs = xs @ r # ys \<and> cp_consumed r \<and> rs' = xs @ ys"
proof (induction rs arbitrary: rs')
  case (Cons r rs)
  show ?case
  proof (cases "cp_consumed r")
    case True
    then show ?thesis using Cons.prems by (intro exI [of _ "[]"]) auto
  next
    case False
    then obtain us where "evict_one rs = Some us" "rs' = r # us" using Cons.prems by auto
    then show ?thesis using Cons.IH [of us] by (metis append_Cons)
  qed
qed simp

lemma evict_one_None: "evict_one rs = None \<longleftrightarrow> (\<forall>r \<in> set rs. \<not> cp_consumed r)"
  by (induction rs) auto

lemma distinct_insort_map:
  "distinct (map f (insort_key f x xs)) \<longleftrightarrow> f x \<notin> f ` set xs \<and> distinct (map f xs)"
  by (induction xs) (auto simp: set_insort_key)

lemma registry_ok_complete:
  assumes "rg_complete now i res err g = (b, g')" and "registry_ok g"
  shows "registry_ok g'"
proof (cases b)
  case True
  then obtain rs where i: "i \<noteq> []" "\<not> recorded i g"
    and rs: "rs = rg_records g \<or> evict_one (rg_records g) = Some rs"
    and g': "g' = g\<lparr>rg_records := insort_key cp_id
             \<lparr>cp_id = i, cp_result = res, cp_consumed = False, cp_created = now, cp_error = err\<rparr> rs\<rparr>"
    using assms(1) by (auto simp: rg_complete_def split: if_splits option.splits)
  have "distinct (map cp_id rs)" "cp_id ` set rs \<subseteq> cp_id ` set (rg_records g)"
    using rs assms(2) evict_one_Some [of "rg_records g" rs] by (auto simp: registry_ok_def)
  moreover have "i \<notin> cp_id ` set (rg_records g)" using i(2) by (simp add: recorded_iff)
  moreover have "[] \<notin> cp_id ` set (rg_records g)" using assms(2) by (simp add: registry_ok_def)
  ultimately show ?thesis
    using i(1) by (simp add: registry_ok_def g' distinct_insort_map set_insort_key) blast
next
  case False
  then have "g' = g" using assms(1) by (auto simp: rg_complete_def split: if_splits option.splits)
  then show ?thesis using assms(2) by simp
qed

text \<open>
  When there are fewer unconsumed results than the capacity, a new result is always taken: a consumed
  record makes room.
\<close>

lemma complete_takes:
  assumes "i \<noteq> []" and "\<not> recorded i g" and "rg_unconsumed g < rg_capacity g"
  shows "fst (rg_complete now i res err g)"
proof (cases "length (rg_records g) \<ge> rg_capacity g")
  case True
  have "evict_one (rg_records g) \<noteq> None"
  proof
    assume "evict_one (rg_records g) = None"
    then have "rg_unconsumed g = length (rg_records g)"
      by (simp add: evict_one_None rg_unconsumed_def count_where_def)
    then show False using True assms(3) by simp
  qed
  then show ?thesis using assms(1,2) True by (auto simp: rg_complete_def)
qed (use assms in \<open>simp add: rg_complete_def\<close>)

text \<open>What a completion adds and what it may take away.\<close>

lemma complete_records:
  assumes "rg_complete now i res err g = (b, g')"
  shows "b \<Longrightarrow> \<exists>r \<in> set (rg_records g'). cp_id r = i \<and> cp_result r = res \<and> \<not> cp_consumed r"
    and "r \<in> set (rg_records g) \<Longrightarrow> \<not> cp_consumed r \<Longrightarrow> r \<in> set (rg_records g')"
    and "r \<in> set (rg_records g') \<Longrightarrow> r \<in> set (rg_records g) \<or> b \<and> cp_id r = i \<and> \<not> cp_consumed r"
    and "rg_capacity g' = rg_capacity g"
    and "b \<Longrightarrow> \<not> recorded i g \<and> i \<noteq> []"
    and "\<not> b \<Longrightarrow> g' = g"
  using assms
  by (auto simp: rg_complete_def set_insort_key split: if_splits option.splits dest!: evict_one_Some)

text \<open>The registry stays within its capacity: when it is full, a record makes room or nothing is added.\<close>

lemma complete_bounded:
  assumes "rg_complete now i res err g = (b, g')" and "length (rg_records g) \<le> rg_capacity g"
  shows "length (rg_records g') \<le> rg_capacity g'"
  using assms by (auto simp: rg_complete_def not_le split: if_splits option.splits dest!: evict_one_Some)

section \<open>Versions of the data\<close>

datatype domain = DomConversations | DomMessages | DomFriends | DomTransfers | DomAccount

record inv_bus =
  ib_current :: "domain \<Rightarrow> int option"
  ib_consumed :: "domain \<Rightarrow> int option"

definition no_bus :: inv_bus where
  "no_bus = \<lparr>ib_current = (\<lambda>_. None), ib_consumed = (\<lambda>_. None)\<rparr>"

definition or_zero :: "int option \<Rightarrow> int" where
  "or_zero v = (case v of None \<Rightarrow> 0 | Some x \<Rightarrow> x)"

definition ib_version :: "domain \<Rightarrow> inv_bus \<Rightarrow> int" where
  "ib_version d b = or_zero (ib_current b d)"

definition ib_publish :: "domain \<Rightarrow> int \<Rightarrow> inv_bus \<Rightarrow> bool \<times> inv_bus" where
  "ib_publish d v b =
     (if v \<le> or_zero (ib_current b d) then (False, b) else (True, b\<lparr>ib_current := (ib_current b)(d \<mapsto> v)\<rparr>))"

definition ib_consume :: "domain \<Rightarrow> inv_bus \<Rightarrow> int \<times> inv_bus" where
  "ib_consume d b =
     (case ib_current b d of
        None \<Rightarrow> (0, b)
      | Some v \<Rightarrow>
          if v \<le> or_zero (ib_consumed b d) then (0, b)
          else (v, b\<lparr>ib_consumed := (ib_consumed b)(d \<mapsto> v)\<rparr>))"

definition ib_stale :: "domain \<Rightarrow> inv_bus \<Rightarrow> bool" where
  "ib_stale d b = (case ib_current b d of None \<Rightarrow> False | Some v \<Rightarrow> v > or_zero (ib_consumed b d))"

text \<open>Consuming catches up; publishing a newer version leaves the observer behind again.\<close>

lemma consume_catches_up: "ib_consume d b = (v, b') \<Longrightarrow> \<not> ib_stale d b'"
  by (auto simp: ib_consume_def ib_stale_def or_zero_def split: option.splits if_splits)

lemma publish_makes_stale:
  "ib_publish d v b = (True, b') \<Longrightarrow> or_zero (ib_consumed b d) \<le> or_zero (ib_current b d) \<Longrightarrow> ib_stale d b'"
  by (auto simp: ib_publish_def ib_stale_def split: if_splits)

end
