(* ===== verification/ClientRuntime.thy ===== *)
theory ClientRuntime
  imports ClientMessages ClientServices Completions SyncService
begin

text \<open>
  The runtime of a signed-in account on the client (\<^verbatim>\<open>client_core/src/runtime/ClientRuntime.cpp\<close>):
  its life cycle, the results and change notices it publishes, sending and acknowledging messages,
  the outbox pump, storing what arrives, and asking the server for missing messages.

  Each entry point is one step. The mutexes of the code make that so for the parts between two locks;
  where another thread can run in between and it matters, the parts are definitions of their own
  (\<open>send_prepare\<close> and \<open>send_note\<close>). A step takes what it meets outside as an environment: clocks,
  what the writer and the queries do, the new message id, and which packets the connection accepts.
  The message that arrives is the request the server forwards, so \<open>ChatProtocolMessage\<close>, which has
  the same fields, is a \<open>chat_info\<close>.
\<close>

abbreviation "CHAT_MSG_LEN \<equiv> (8192::nat)"

datatype rt_phase =
    RtIdle | RtStarting | RtRunning | RtStopping | RtStopped | RtDestroyed | RtDestroying

text \<open>What leaves the runtime: packets, and calls of the platform's event sink.\<close>

datatype rt_out =
    OutChat chat_info
  | OutRoam int int int
  | OutRoamConvs
  | OutListRequests
  | OutAddFriend string
  | OutAnswer int string bool
  | OutDeleteFriend int
  | OutInvalidated domain int int int
  | OutCompleted completion int int

record runtime =
  rt_phase :: rt_phase
  rt_owner :: int
  rt_instance :: nat
  rt_gapTimeout :: int
  rt_generation :: int
  rt_opSeq :: nat
  rt_admitted :: "string list"
  rt_completions :: registry
  rt_bus :: inv_bus
  rt_version :: int
  rt_auth :: bool
  rt_core :: bool
  rt_db :: "cconn option"
  rt_dbOwner :: "int option"
  rt_pump :: bool
  rt_friends :: friend_service
  rt_sync :: sync_service
  rt_inflight :: "string \<Rightarrow> (int \<times> string) option"
  rt_gapPending :: "int list"
  rt_gapInFlight :: "int list"
  rt_gapPages :: "int \<Rightarrow> int option"
  rt_gapTimers :: "int \<Rightarrow> (int \<times> bool) option"
  rt_wake :: bool
  rt_wakeAt :: int
  rt_out :: "rt_out list"

record rt_env =
  rn_write :: "nat \<Rightarrow> write_io"
  rn_read :: read_io
  rn_sync :: sync_io
  rn_now :: int
  rn_nowMs :: int
  rn_clock :: int
  rn_connected :: bool
  rn_msgId :: "string option"
  rn_send :: "nat \<Rightarrow> bool"
  rn_jitter :: "byte option"
  rn_error :: string

definition new_runtime :: "int \<Rightarrow> nat \<Rightarrow> nat \<Rightarrow> int \<Rightarrow> runtime" where
  "new_runtime owner inst capacity timeout =
     \<lparr>rt_phase = RtIdle, rt_owner = owner, rt_instance = inst, rt_gapTimeout = timeout, rt_generation = 0,
      rt_opSeq = 0, rt_admitted = [], rt_completions = \<lparr>rg_capacity = capacity, rg_records = []\<rparr>,
      rt_bus = no_bus, rt_version = 0, rt_auth = False, rt_core = False, rt_db = None, rt_dbOwner = None, rt_pump = False,
      rt_friends = \<lparr>fs_owner = owner, fs_online = (\<lambda>_. None)\<rparr>,
      rt_sync = \<lparr>sv_owner = owner, sv_repo = None, sv_trackers = (\<lambda>_. None)\<rparr>, rt_inflight = (\<lambda>_. None),
      rt_gapPending = [], rt_gapInFlight = [], rt_gapPages = (\<lambda>_. None), rt_gapTimers = (\<lambda>_. None),
      rt_wake = False, rt_wakeAt = 0, rt_out = []\<rparr>"

definition emit :: "rt_out \<Rightarrow> runtime \<Rightarrow> runtime" where
  "emit x rt = rt\<lparr>rt_out := rt_out rt @ [x]\<rparr>"

section \<open>Results and change notices\<close>

text \<open>
  A change notice is given in three parts that other threads can come between: the version is taken
  from the atomic counter, the version is published under the mutex, and the event sink is called
  after the mutex is released.
\<close>

definition claim_version :: "runtime \<Rightarrow> int \<times> runtime" where
  "claim_version rt = (let v = rt_version rt + 1 in (v, rt\<lparr>rt_version := v\<rparr>))"

definition publish_locked :: "domain \<Rightarrow> int \<Rightarrow> int \<Rightarrow> runtime \<Rightarrow> bool \<times> runtime" where
  "publish_locked area v gen rt =
     (if rt_phase rt \<noteq> RtRunning \<or> gen \<noteq> rt_generation rt then (False, rt)
      else let (b, bus) = ib_publish area v (rt_bus rt) in (b, rt\<lparr>rt_bus := bus\<rparr>))"

definition tell_sink :: "domain \<Rightarrow> int \<Rightarrow> int \<Rightarrow> runtime \<Rightarrow> runtime" where
  "tell_sink area v gen rt = emit (OutInvalidated area v gen (rt_owner rt)) rt"

text \<open>
  The three together, without anything in between: \<open>publishInvalidation\<close>, and the handlers' call
  \<open>publishInvalidation(..., ++m_dbVersion, generation)\<close>. The theory \<open>Announcements\<close> lets the parts of
  any number of calls interleave.
\<close>

definition publishInvalidation :: "domain \<Rightarrow> int \<Rightarrow> int \<Rightarrow> runtime \<Rightarrow> bool \<times> runtime" where
  "publishInvalidation area v gen rt =
     (let (b, rt) = publish_locked area v gen rt in (b, if b then tell_sink area v gen rt else rt))"

definition announce :: "domain \<Rightarrow> int \<Rightarrow> runtime \<Rightarrow> runtime" where
  "announce area gen rt =
     (let (v, rt) = claim_version rt in snd (publishInvalidation area v gen rt))"

lemmas announcing_defs = announce_def claim_version_def publishInvalidation_def publish_locked_def tell_sink_def

definition announce_chat :: "int \<Rightarrow> runtime \<Rightarrow> runtime" where
  "announce_chat gen rt = announce DomConversations gen (announce DomMessages gen rt)"

definition consumeInvalidation :: "domain \<Rightarrow> runtime \<Rightarrow> int \<times> runtime" where
  "consumeInvalidation area rt = (let (v, bus) = ib_consume area (rt_bus rt) in (v, rt\<lparr>rt_bus := bus\<rparr>))"

definition op_id :: "string \<Rightarrow> runtime \<Rightarrow> nat \<Rightarrow> string" where
  "op_id area rt k =
     area @ '':'' @ int_str (rt_owner rt) @ '':'' @ nat_str (rt_instance rt) @ '':'' @
     int_str (rt_generation rt) @ '':'' @ nat_str k"

definition nextOperationId :: "string \<Rightarrow> runtime \<Rightarrow> string \<times> runtime" where
  "nextOperationId area rt =
     (if area = [] \<or> rt_phase rt \<noteq> RtRunning \<or> length (rt_admitted rt) \<ge> rg_capacity (rt_completions rt) then ([], rt)
      else let k = rt_opSeq rt + 1; i = op_id area rt k
           in (i, rt\<lparr>rt_opSeq := k, rt_admitted := List.insert i (rt_admitted rt)\<rparr>))"

definition completeOperation :: "rt_env \<Rightarrow> string \<Rightarrow> completion_result \<Rightarrow> string \<Rightarrow> runtime \<Rightarrow> bool \<times> runtime" where
  "completeOperation E i res err rt =
     (if rt_phase rt \<noteq> RtRunning \<or> i \<notin> set (rt_admitted rt) then (False, rt)
      else let (b, g) = rg_complete (rn_clock E) i res err (rt_completions rt) in
        if \<not> b then (False, rt)
        else case rg_peek i g of
          None \<Rightarrow> (False, rt\<lparr>rt_completions := g\<rparr>)
        | Some r \<Rightarrow> (True, emit (OutCompleted r (rt_generation rt) (rt_owner rt)) (rt\<lparr>rt_completions := g\<rparr>)))"

definition consumeOperation :: "string \<Rightarrow> runtime \<Rightarrow> completion option \<times> runtime" where
  "consumeOperation i rt =
     (let (r, g) = rg_consume i (rt_completions rt) in
      if r = None then (None, rt)
      else (r, rt\<lparr>rt_completions := g, rt_admitted := removeAll i (rt_admitted rt)\<rparr>))"

section \<open>Gaps\<close>

definition armGapTimer :: "int \<Rightarrow> int \<Rightarrow> bool \<Rightarrow> runtime \<Rightarrow> runtime" where
  "armGapTimer conv at timeout rt =
     (if conv \<le> 0 \<or> at \<le> 0 then rt else rt\<lparr>rt_gapTimers := (rt_gapTimers rt)(conv \<mapsto> (at, timeout))\<rparr>)"

definition cancelGapTimer :: "int \<Rightarrow> runtime \<Rightarrow> runtime" where
  "cancelGapTimer conv rt = rt\<lparr>rt_gapTimers := (rt_gapTimers rt)(conv := None)\<rparr>"

text \<open>The sync service reads the stored sequence numbers from the message table.\<close>

definition sync_now :: "runtime \<Rightarrow> sync_service" where
  "sync_now rt =
     (case rt_db rt of
        None \<Rightarrow> rt_sync rt
      | Some c \<Rightarrow> (rt_sync rt)\<lparr>sv_repo := map_option
          (\<lambda>db. db\<lparr>sd_messages := map (\<lambda>r. (lm_owner r, lm_conv r, lm_seq r)) (cd_messages (cn_db c))\<rparr>)
          (sv_repo (rt_sync rt))\<rparr>)"

definition failGap :: "rt_env \<Rightarrow> int \<Rightarrow> runtime \<Rightarrow> runtime" where
  "failGap E conv rt =
     (let s = snd (svc_markGapFailed (rn_sync E) (rn_nowMs E) conv (sync_now rt));
          (at, s) = svc_nextRetryAtMs (rn_sync E) conv s;
          rt = rt\<lparr>rt_sync := s\<rparr>
      in if at > 0 then armGapTimer conv at False rt else rt)"

definition requestRoamMessages :: "rt_env \<Rightarrow> int \<Rightarrow> int \<Rightarrow> int \<Rightarrow> runtime \<Rightarrow> bool \<times> runtime" where
  "requestRoamMessages E peer bseq limit rt =
     (if rt_phase rt \<noteq> RtRunning \<or> \<not> rt_auth rt \<or> peer \<le> 0 \<or> bseq \<le> 0 \<or> limit \<le> 0 \<or> limit > 100 \<or>
         \<not> rt_core rt \<or> \<not> rn_connected E
      then (False, rt) else (True, emit (OutRoam peer bseq limit) rt))"

definition requestRoamConversations :: "rt_env \<Rightarrow> runtime \<Rightarrow> bool \<times> runtime" where
  "requestRoamConversations E rt =
     (if rt_phase rt \<noteq> RtRunning \<or> \<not> rt_auth rt \<or> \<not> rt_core rt \<or> \<not> rn_connected E then (False, rt)
      else (True, emit OutRoamConvs rt))"

definition ask_for_gap :: "rt_env \<Rightarrow> int \<Rightarrow> gap \<Rightarrow> runtime \<Rightarrow> runtime" where
  "ask_for_gap E conv g rt =
     (let rt = rt\<lparr>rt_gapPending := List.insert conv (rt_gapPending rt)\<rparr> in
      if conv \<in> set (rt_gapInFlight rt) then rt
      else let pages = (case rt_gapPages rt conv of None \<Rightarrow> 0 | Some p \<Rightarrow> p) in
        if pages \<ge> 5 then failGap E conv (rt\<lparr>rt_gapPages := (rt_gapPages rt)(conv := None)\<rparr>)
        else
          let rt = rt\<lparr>rt_gapPages := (rt_gapPages rt)(conv \<mapsto> pages + 1),
                      rt_gapInFlight := List.insert conv (rt_gapInFlight rt)\<rparr>;
              (ok, rt) = requestRoamMessages E conv (gto g + 1) (min 100 (gto g - gfrom g + 1)) rt
          in if ok then armGapTimer conv (rn_nowMs E + max 1 (rt_gapTimeout rt)) True rt
             else failGap E conv (rt\<lparr>rt_gapInFlight := removeAll conv (rt_gapInFlight rt)\<rparr>))"

definition maybeRequestGap :: "rt_env \<Rightarrow> int \<Rightarrow> runtime \<Rightarrow> runtime" where
  "maybeRequestGap E conv rt =
     (if conv \<le> 0 \<or> rt_phase rt \<noteq> RtRunning \<or> rt_db rt = None then rt
      else
        let (gaps, s) = svc_hasGaps (rn_sync E) conv (sync_now rt); rt = rt\<lparr>rt_sync := s\<rparr> in
        if \<not> gaps
        then rt\<lparr>rt_gapPending := removeAll conv (rt_gapPending rt), rt_gapInFlight := removeAll conv (rt_gapInFlight rt),
                rt_gapPages := (rt_gapPages rt)(conv := None)\<rparr>
        else
          let (due, s) = svc_pendingGaps (rn_sync E) (rn_nowMs E) conv (sync_now rt); rt = rt\<lparr>rt_sync := s\<rparr> in
          case due of
            [] \<Rightarrow>
              (let (at, s) = svc_nextRetryAtMs (rn_sync E) conv (sync_now rt); rt = rt\<lparr>rt_sync := s\<rparr>
               in if at > 0 then armGapTimer conv at False rt else rt)
          | g # _ \<Rightarrow>
              if \<not> rt_auth rt \<or> \<not> rt_core rt \<or> \<not> rn_connected E
              then rt\<lparr>rt_gapPending := List.insert conv (rt_gapPending rt)\<rparr>
              else ask_for_gap E conv g rt)"

text \<open>\<open>runSyncTimer\<close>, when the timer of a conversation has come due.\<close>

definition gapTimerFires :: "rt_env \<Rightarrow> int \<Rightarrow> runtime \<Rightarrow> runtime" where
  "gapTimerFires E conv rt =
     (case rt_gapTimers rt conv of
        None \<Rightarrow> rt
      | Some (at, timeout) \<Rightarrow>
          if at > rn_nowMs E then rt
          else let rt = cancelGapTimer conv rt in
            if timeout
            then let was = conv \<in> set (rt_gapInFlight rt);
                     rt = rt\<lparr>rt_gapInFlight := removeAll conv (rt_gapInFlight rt),
                             rt_gapPages := (rt_gapPages rt)(conv := None),
                             rt_gapPending := List.insert conv (rt_gapPending rt)\<rparr>
                 in if was \<and> rt_db rt \<noteq> None then failGap E conv rt else rt
            else maybeRequestGap E conv rt)"

section \<open>Arriving messages\<close>

definition incoming_dto :: "int \<Rightarrow> chat_info \<Rightarrow> msg_dto" where
  "incoming_dto owner p =
     (let mine = (ci_my p = owner); peer = (if mine then ci_friend p else ci_my p) in
      \<lparr>lm_owner = owner, lm_id = ci_msgId p, lm_conv = peer, lm_peer = peer, lm_seq = ci_seq p, lm_ts = ci_ts p,
       lm_order = 0, lm_mine = mine, lm_type = ci_type p, lm_content = ci_msg p,
       lm_status = (if mine then 1 else 2),
       lm_media = no_media\<lparr>mc_fileId := ci_fileId p, mc_fileName := ci_fileName p, mc_fileSize := ci_fileSize p,
         mc_contentType := ci_contentType p, mc_sha256 := ci_sha256 p, mc_imgW := ci_imgW p, mc_imgH := ci_imgH p,
         mc_thumbFileId := ci_thumbFileId p, mc_thumbSize := ci_thumbSize p, mc_thumbSha256 := ci_thumbSha256 p,
         mc_thumbW := ci_thumbW p, mc_thumbH := ci_thumbH p, mc_largeFileId := ci_largeFileId p,
         mc_largeSize := ci_largeSize p, mc_largeSha256 := ci_largeSha256 p, mc_largeW := ci_largeW p,
         mc_largeH := ci_largeH p\<rparr>,
       md_pinyin = [], md_initials = []\<rparr>)"

definition note_seq :: "rt_env \<Rightarrow> int \<Rightarrow> int \<Rightarrow> runtime \<Rightarrow> runtime" where
  "note_seq E peer sq rt =
     (let s = snd (svc_observeSeq (rn_sync E) peer sq (sync_now rt));
          (gaps, s) = svc_hasGaps (rn_sync E) peer s;
          rt = rt\<lparr>rt_sync := s\<rparr>
      in if gaps then rt\<lparr>rt_gapPending := List.insert peer (rt_gapPending rt)\<rparr> else rt)"

definition storeProtocolMessage :: "rt_env \<Rightarrow> write_io \<Rightarrow> chat_info \<Rightarrow> bool \<Rightarrow> runtime \<Rightarrow> bool \<times> runtime" where
  "storeProtocolMessage E w p roaming rt =
     (let mine = (ci_my p = rt_owner rt); peer = (if mine then ci_friend p else ci_my p) in
      case rt_db rt of
        None \<Rightarrow> (False, rt)
      | Some c \<Rightarrow>
          if rt_phase rt \<noteq> RtRunning \<or> peer \<le> 0 \<or> (if mine then ci_my p else ci_friend p) \<noteq> rt_owner rt \<or>
             ci_msgId p = [] \<or> ci_seq p \<le> 0
          then (False, rt)
          else case onIncoming w (incoming_dto (rt_owner rt) p) \<lparr>ic_roaming = roaming, ic_active = 0\<rparr> c of
            (None, c) \<Rightarrow> (False, rt\<lparr>rt_db := Some c\<rparr>)
          | (Some _, c) \<Rightarrow> (True, note_seq E peer (ci_seq p) (rt\<lparr>rt_db := Some c\<rparr>)))"

definition handleIncomingChat :: "rt_env \<Rightarrow> chat_info \<Rightarrow> runtime \<Rightarrow> runtime" where
  "handleIncomingChat E p rt =
     (let gen = rt_generation rt;
          (ok, rt) = storeProtocolMessage E (rn_write E 0) p False rt;
          rt = (if ok then announce_chat gen rt else rt)
      in maybeRequestGap E (if ci_my p = rt_owner rt then ci_friend p else ci_my p) rt)"

fun store_all :: "rt_env \<Rightarrow> nat \<Rightarrow> chat_info list \<Rightarrow> bool \<Rightarrow> runtime \<Rightarrow> bool \<times> runtime" where
  "store_all E k [] changed rt = (changed, rt)"
| "store_all E k (p # ps) changed rt =
     (let (ok, rt) = storeProtocolMessage E (rn_write E k) p True rt in store_all E (k + 1) ps (ok \<or> changed) rt)"

definition handleRoamConversations :: "rt_env \<Rightarrow> chat_info list \<Rightarrow> runtime \<Rightarrow> runtime" where
  "handleRoamConversations E ps rt =
     (let gen = rt_generation rt; (changed, rt) = store_all E 0 ps False rt
      in if changed then announce_chat gen rt else rt)"

text \<open>The page ends the round of requests for this conversation.\<close>

definition end_round :: "rt_env \<Rightarrow> int \<Rightarrow> runtime \<Rightarrow> runtime" where
  "end_round E peer rt =
     (let rt = (if rt_db rt = None then rt
                else let (gaps, s) = svc_hasGaps (rn_sync E) peer (sync_now rt); rt = rt\<lparr>rt_sync := s\<rparr>
                     in if gaps then failGap E peer rt else rt)
      in rt\<lparr>rt_gapPages := (rt_gapPages rt)(peer := None)\<rparr>)"

definition handleRoamMessages :: "rt_env \<Rightarrow> int \<Rightarrow> chat_info list \<Rightarrow> bool \<Rightarrow> runtime \<Rightarrow> runtime" where
  "handleRoamMessages E peer ps hasMore rt =
     (let gen = rt_generation rt;
          rt = cancelGapTimer peer rt;
          rt = rt\<lparr>rt_gapInFlight := removeAll peer (rt_gapInFlight rt)\<rparr>;
          own = filter (\<lambda>p. (if ci_my p = rt_owner rt then ci_friend p else ci_my p) = peer) ps;
          (changed, rt) = store_all E 0 own False rt;
          rt = (if changed then announce_chat gen rt else rt);
          rt = (if \<not> changed \<or> \<not> hasMore then end_round E peer rt else rt)
      in maybeRequestGap E peer rt)"

section \<open>Sending\<close>

record command =
  cmd_op :: string
  cmd_id :: string
  cmd_order :: int
  cmd_accepted :: bool

definition wakeOutboxPump :: "runtime \<Rightarrow> runtime" where
  "wakeOutboxPump rt = rt\<lparr>rt_wake := True\<rparr>"

definition scheduleOutboxPump :: "int \<Rightarrow> runtime \<Rightarrow> runtime" where
  "scheduleOutboxPump at rt =
     (if at \<le> 0 then rt else if rt_wakeAt rt = 0 \<or> at < rt_wakeAt rt then rt\<lparr>rt_wakeAt := at\<rparr> else rt)"

definition text_intent :: "int \<Rightarrow> int \<Rightarrow> int \<Rightarrow> string \<Rightarrow> string \<Rightarrow> string \<Rightarrow> msg_dto" where
  "text_intent owner conv peer txt pinyin initials =
     \<lparr>lm_owner = owner, lm_id = [], lm_conv = conv, lm_peer = peer, lm_seq = 0, lm_ts = 0, lm_order = 0,
      lm_mine = False, lm_type = 0, lm_content = txt, lm_status = 0, lm_media = no_media,
      md_pinyin = pinyin, md_initials = initials\<rparr>"

text \<open>
  Storing the draft, and noting afterwards that the message is under way. The outbox pump may run in
  between. \<open>valid\<close> says that the intent passed the checks.
\<close>

definition send_prepare :: "rt_env \<Rightarrow> string \<Rightarrow> string \<Rightarrow> msg_dto \<Rightarrow> runtime \<Rightarrow> command \<times> runtime" where
  "send_prepare E area fault intent rt =
     (let (i, rt) = nextOperationId area rt; out = \<lparr>cmd_op = i, cmd_id = [], cmd_order = 0, cmd_accepted = False\<rparr> in
      if i = [] then (out, rt)
      else case rt_db rt of
        None \<Rightarrow> (out, snd (completeOperation E i CompFailed ''database/message service not ready'' rt))
      | Some c \<Rightarrow>
          if fault \<noteq> [] then (out, snd (completeOperation E i CompFailed fault rt))
          else
            let (r, c) = prepareOutgoing (rn_write E 0) (rn_msgId E) intent c; rt = rt\<lparr>rt_db := Some c\<rparr>;
                out = out\<lparr>cmd_id := sr_id r, cmd_order := sr_order r, cmd_accepted := sr_ok r\<rparr>
            in if sr_ok r then (out, rt) else (out, snd (completeOperation E i CompFailed (rn_error E) rt)))"

definition send_note :: "command \<Rightarrow> runtime \<Rightarrow> runtime" where
  "send_note out rt =
     (if \<not> cmd_accepted out then rt
      else let rt = rt\<lparr>rt_inflight := (rt_inflight rt)(cmd_id out \<mapsto> (0, cmd_op out))\<rparr>
           in wakeOutboxPump (announce_chat (rt_generation rt) rt))"

definition sendText :: "rt_env \<Rightarrow> int \<Rightarrow> int \<Rightarrow> string \<Rightarrow> string \<Rightarrow> string \<Rightarrow> runtime \<Rightarrow> command \<times> runtime" where
  "sendText E conv peer txt pinyin initials rt =
     (let (out, rt) = send_prepare E ''send_text'' (if txt = [] then ''empty text''
                          else if length txt \<ge> CHAT_MSG_LEN then ''text exceeds protocol byte limit'' else [])
                        (text_intent (rt_owner rt) conv peer txt pinyin initials) rt
      in (out, send_note out rt))"

definition media_intent_ok :: "msg_dto \<Rightarrow> bool" where
  "media_intent_ok m \<longleftrightarrow>
     (lm_type m = TYPE_IMAGE \<or> lm_type m = TYPE_FILE) \<and> lm_conv m > 0 \<and> lm_peer m > 0 \<and>
     mc_fileId (lm_media m) \<noteq> [] \<and> mc_fileName (lm_media m) \<noteq> [] \<and> mc_fileSize (lm_media m) > 0 \<and>
     mc_fileSize (lm_media m) \<le> FILE_MAX_SIZE \<and> mc_contentType (lm_media m) \<noteq> [] \<and>
     length (mc_sha256 (lm_media m)) = 64 \<and>
     (lm_type m = TYPE_IMAGE \<longrightarrow> mc_imgW (lm_media m) > 0 \<and> mc_imgH (lm_media m) > 0)"

definition sendMedia :: "rt_env \<Rightarrow> string \<Rightarrow> string \<Rightarrow> msg_dto \<Rightarrow> runtime \<Rightarrow> command \<times> runtime" where
  "sendMedia E imageText fileText m rt =
     (let (out, rt) = send_prepare E ''send_media'' (if media_intent_ok m then [] else ''invalid media intent'')
                        (m\<lparr>lm_owner := rt_owner rt,
                           lm_content := (if lm_type m = TYPE_IMAGE then imageText else fileText)\<rparr>) rt
      in (out, send_note out rt))"

definition rt_markRead :: "rt_env \<Rightarrow> int \<Rightarrow> int \<Rightarrow> runtime \<Rightarrow> string \<times> runtime" where
  "rt_markRead E conv sq rt =
     (let (i, rt) = nextOperationId ''mark_read'' rt in
      if i = [] then ([], rt)
      else
        let (ok, err, rt) = (case rt_db rt of
              None \<Rightarrow> (False, ''invalid mark-read intent'', rt)
            | Some c \<Rightarrow>
                if conv \<le> 0 \<or> sq < 0 then (False, ''invalid mark-read intent'', rt)
                else let (ok, c) = markRead (rn_write E 0) (rt_owner rt) conv sq c
                     in (ok, rn_error E, rt\<lparr>rt_db := Some c\<rparr>))
        in if ok
           then (i, snd (completeOperation E i CompOk [] (announce DomConversations (rt_generation rt) rt)))
           else (i, snd (completeOperation E i CompFailed err rt)))"

section \<open>The outbox pump\<close>

text \<open>One claimed message: handed to the connection and noted, or given back for a retry a second later.\<close>

definition flush_one :: "rt_env \<Rightarrow> int \<Rightarrow> nat \<Rightarrow> outbox_attempt \<Rightarrow> nat \<times> int \<times> runtime \<Rightarrow> nat \<times> int \<times> runtime" where
  "flush_one E now k a = (\<lambda>(sent, wake, rt).
     if rn_send E k
     then let rt = emit (OutChat (oa_payload a)) rt;
              i = (case rt_inflight rt (oa_id a) of None \<Rightarrow> [] | Some (_, i) \<Rightarrow> i)
          in (sent + 1, now + 30, rt\<lparr>rt_inflight := (rt_inflight rt)(oa_id a \<mapsto> (oa_attempt a, i))\<rparr>)
     else (sent, if wake = 0 \<or> now + 1 < wake then now + 1 else wake,
           rt\<lparr>rt_db := map_option (\<lambda>c. snd (finishOutboxAttempt (rn_write E (k + 1)) (rt_owner rt) (oa_id a)
                 (oa_attempt a) False (now + 1) ''not_connected'' c)) (rt_db rt)\<rparr>))"

fun flush_all :: "rt_env \<Rightarrow> int \<Rightarrow> nat \<Rightarrow> outbox_attempt list \<Rightarrow> nat \<times> int \<times> runtime \<Rightarrow> nat \<times> int \<times> runtime" where
  "flush_all E now k [] s = s"
| "flush_all E now k (a # xs) s = flush_all E now (k + 1) xs (flush_one E now k a s)"

definition flushOutbox :: "rt_env \<Rightarrow> int \<Rightarrow> int \<Rightarrow> runtime \<Rightarrow> nat \<times> runtime" where
  "flushOutbox E now limit rt =
     (case rt_db rt of
        None \<Rightarrow> (0, rt)
      | Some c \<Rightarrow>
          if rt_phase rt \<noteq> RtRunning \<or> \<not> rt_auth rt \<or> \<not> rt_core rt \<or> \<not> rn_connected E then (0, rt)
          else case claimOutbox (rn_write E 0) (rt_owner rt) now 30 limit c of
            (None, c) \<Rightarrow> (0, rt\<lparr>rt_db := Some c\<rparr>)
          | (Some xs, c) \<Rightarrow>
              let (sent, wake, rt) = flush_all E now 0 xs (0, 0, rt\<lparr>rt_db := Some c\<rparr>)
              in (sent, if wake > 0 then scheduleOutboxPump wake rt else rt))"

text \<open>One round of \<open>runOutboxPump\<close>, after its wait has ended.\<close>

definition pump_round :: "rt_env \<Rightarrow> runtime \<Rightarrow> runtime" where
  "pump_round E rt =
     (let immediate = rt_wake rt; now = rn_now E; next = rt\<lparr>rt_wake := False\<rparr> in
      if \<not> rt_pump rt then rt
      else if \<not> rt_auth rt then next
      else if \<not> immediate \<and> rt_wakeAt rt > now then next
      else snd (flushOutbox E now 32 (if rt_wakeAt rt \<le> now then next\<lparr>rt_wakeAt := 0\<rparr> else next)))"

fun each_gap :: "rt_env \<Rightarrow> int list \<Rightarrow> runtime \<Rightarrow> runtime" where
  "each_gap E [] rt = rt"
| "each_gap E (conv # convs) rt = each_gap E convs (maybeRequestGap E conv rt)"

definition setAccountAuthenticated :: "rt_env \<Rightarrow> bool \<Rightarrow> runtime \<Rightarrow> runtime" where
  "setAccountAuthenticated E on rt =
     (let rt = rt\<lparr>rt_auth := on\<rparr>
      in if on then (let rt = wakeOutboxPump rt in each_gap E (rt_gapPending rt) rt) else rt)"

section \<open>Acknowledgements\<close>

record chat_ack =
  ca_peer :: int
  ca_seq :: int
  ca_result :: int
  ca_id :: string

text \<open>The end of an acknowledgement that was processed: the operation, the sequence number, the notices.\<close>

definition ack_operation :: "rt_env \<Rightarrow> chat_ack \<Rightarrow> string \<Rightarrow> int \<Rightarrow> runtime \<Rightarrow> runtime" where
  "ack_operation E a i retryAt rt =
     (if ca_result a = CHAT_RESULT_SERVER_ERROR then scheduleOutboxPump retryAt rt
      else snd (completeOperation E i
        (if ca_result a = CHAT_RESULT_SUCC \<or> ca_result a = CHAT_RESULT_FAIL then CompOk else CompFailed)
        (rn_error E) (rt\<lparr>rt_inflight := (rt_inflight rt)(ca_id a := None)\<rparr>)))"

definition ack_seq :: "rt_env \<Rightarrow> chat_ack \<Rightarrow> runtime \<Rightarrow> runtime" where
  "ack_seq E a rt =
     (if ca_seq a \<le> 0 then rt
      else
        let (ok, s) = svc_observeSeq (rn_sync E) (ca_peer a) (ca_seq a) (sync_now rt);
            (gaps, s) = (if ok then svc_hasGaps (rn_sync E) (ca_peer a) s else (False, s));
            rt = rt\<lparr>rt_sync := s\<rparr>
        in maybeRequestGap E (ca_peer a)
             (if gaps then rt\<lparr>rt_gapPending := List.insert (ca_peer a) (rt_gapPending rt)\<rparr> else rt))"

definition handleChatAck :: "rt_env \<Rightarrow> chat_ack \<Rightarrow> runtime \<Rightarrow> runtime" where
  "handleChatAck E a rt =
     (case rt_db rt of
        None \<Rightarrow> rt
      | Some c \<Rightarrow>
          let (attempt, i) = (case rt_inflight rt (ca_id a) of None \<Rightarrow> (0, []) | Some x \<Rightarrow> x) in
          if rt_phase rt \<noteq> RtRunning \<or> ca_id a = [] \<or> attempt \<le> 0 then rt
          else case findMessage (rn_read E) (rt_owner rt) (ca_id a) (cn_db c) of
            None \<Rightarrow> rt
          | Some m \<Rightarrow>
              if \<not> lm_mine m \<or> lm_peer m \<noteq> ca_peer a then rt
              else
                let ((ok, retryAt), c) = onProtocolAck (rn_write E 0) (rt_owner rt) (ca_id a) (ca_result a)
                                           (ca_seq a) attempt (rn_now E) (rn_jitter E) c;
                    rt = rt\<lparr>rt_db := Some c\<rparr>
                in if \<not> ok then rt
                   else let rt = ack_seq E a (ack_operation E a i retryAt rt)
                        in announce_chat (rt_generation rt) rt)"

section \<open>Friends\<close>

record friend_info_in =
  fp_id :: int
  fp_icon :: int
  fp_status :: int
  fp_nick :: string
  fp_sign :: string

record friend_request_in =
  fw_requester :: int
  fw_target :: int
  fw_time :: int
  fw_requesterNick :: string

definition handleFriendInfo :: "rt_env \<Rightarrow> friend_info_in \<Rightarrow> runtime \<Rightarrow> runtime" where
  "handleFriendInfo E v rt =
     (case rt_db rt of
        None \<Rightarrow> rt
      | Some c \<Rightarrow>
          if fp_id v \<le> 0 then rt
          else
            let f = \<lparr>fd_id = fp_id v, fd_nick = fp_nick v, fd_tel = [], fd_avatar = int_str (fp_icon v),
                     fd_signature = fp_sign v, fd_sex = 0\<rparr>;
                (ok, c) = onFriendInfo (rn_write E 0) f (rt_friends rt) c; rt = rt\<lparr>rt_db := Some c\<rparr>
            in if ok
               then announce DomFriends (rt_generation rt)
                      (rt\<lparr>rt_friends := onPresence (fp_id v) (fp_status v = STATUS_ONLINE) (rt_friends rt)\<rparr>)
               else rt)"

definition request_of :: "int \<Rightarrow> friend_request_in \<Rightarrow> request_dto" where
  "request_of owner v =
     \<lparr>fq_id = int_str (fw_requester v) @ '':'' @ int_str (fw_target v) @ '':'' @ int_str (fw_time v),
      fq_from = fw_requester v, fq_to = fw_target v, fq_outgoing = (fw_target v \<noteq> owner), fq_state = RqPending,
      fq_message = fw_requesterNick v, fq_created = fw_time v\<rparr>"

fun store_requests :: "rt_env \<Rightarrow> nat \<Rightarrow> friend_request_in list \<Rightarrow> bool \<times> runtime \<Rightarrow> bool \<times> runtime" where
  "store_requests E k [] s = s"
| "store_requests E k (v # vs) (changed, rt) =
     (case rt_db rt of
        None \<Rightarrow> (changed, rt)
      | Some c \<Rightarrow>
          if fw_requester v \<le> 0 \<or> fw_target v \<le> 0 then store_requests E (k + 1) vs (changed, rt)
          else let (r, c) = onFriendRequest (rn_write E k) (request_of (rt_owner rt) v) (rt_friends rt) c
               in store_requests E (k + 1) vs (changed \<or> r \<noteq> None, rt\<lparr>rt_db := Some c\<rparr>))"

definition handleFriendRequestList :: "rt_env \<Rightarrow> friend_request_in list \<Rightarrow> runtime \<Rightarrow> runtime" where
  "handleFriendRequestList E vs rt =
     (let (changed, rt) = store_requests E 0 vs (False, rt)
      in if changed then announce DomFriends (rt_generation rt) rt else rt)"

definition handleFriendOffline :: "int \<Rightarrow> runtime \<Rightarrow> runtime" where
  "handleFriendOffline i rt =
     (if rt_db rt = None then rt
      else announce DomFriends (rt_generation rt) (rt\<lparr>rt_friends := onPresence i False (rt_friends rt)\<rparr>))"

definition handleDeleteFriendResult :: "rt_env \<Rightarrow> int \<Rightarrow> int \<Rightarrow> runtime \<Rightarrow> runtime" where
  "handleDeleteFriendResult E rs i rt =
     (case rt_db rt of
        None \<Rightarrow> rt
      | Some c \<Rightarrow>
          if rs \<noteq> DELETE_FRIEND_SUCCESS then rt
          else let (r, s, c) = fs_delete (rn_write E 0) i (rt_friends rt) c;
                   rt = rt\<lparr>rt_db := Some c, rt_friends := s\<rparr>
               in if r = None then rt else announce DomFriends (rt_generation rt) rt)"

text \<open>
  The packets of \<open>requestFriendRequests\<close>, \<open>sendAddFriendRequest\<close>, \<open>answerFriendRequest\<close> and
  \<open>deleteFriend\<close>; the identity travels as 32 bits. These do not look at the phase.
\<close>

definition send_packet :: "rt_env \<Rightarrow> bool \<Rightarrow> rt_out \<Rightarrow> runtime \<Rightarrow> bool \<times> runtime" where
  "send_packet E valid x rt =
     (if \<not> rt_auth rt \<or> \<not> rt_core rt \<or> \<not> rn_connected E \<or> \<not> valid then (False, rt) else (True, emit x rt))"

definition requestFriendRequests :: "rt_env \<Rightarrow> runtime \<Rightarrow> bool \<times> runtime" where
  "requestFriendRequests E = send_packet E True OutListRequests"

definition sendAddFriendRequest :: "rt_env \<Rightarrow> string \<Rightarrow> runtime \<Rightarrow> bool \<times> runtime" where
  "sendAddFriendRequest E nick = send_packet E (nick \<noteq> []) (OutAddFriend nick)"

definition answerFriendRequest :: "rt_env \<Rightarrow> int \<Rightarrow> string \<Rightarrow> bool \<Rightarrow> runtime \<Rightarrow> bool \<times> runtime" where
  "answerFriendRequest E i nick agree = send_packet E (i > 0) (OutAnswer (narrow32 i) nick agree)"

definition rt_deleteFriend :: "rt_env \<Rightarrow> int \<Rightarrow> runtime \<Rightarrow> bool \<times> runtime" where
  "rt_deleteFriend E i = send_packet E (i > 0) (OutDeleteFriend (narrow32 i))"

definition rt_loadFriends :: "rt_env \<Rightarrow> runtime \<Rightarrow> (friend_dto \<times> bool) list option" where
  "rt_loadFriends E rt =
     (case rt_db rt of None \<Rightarrow> None | Some c \<Rightarrow> fs_loadFriends (rn_read E) (rt_friends rt) (cn_db c))"

definition rt_loadFriendRequests :: "rt_env \<Rightarrow> runtime \<Rightarrow> request_dto list option" where
  "rt_loadFriendRequests E rt =
     (case rt_db rt of None \<Rightarrow> None | Some c \<Rightarrow> fs_loadRequests (rn_read E) (rt_friends rt) (cn_db c))"

section \<open>Life cycle\<close>

text \<open>A store with its owner (0 while it is not open) and its table of gaps, or none.\<close>

definition setDatabase :: "(int \<times> cconn \<times> (int \<times> int \<times> gap) list) option \<Rightarrow> runtime \<Rightarrow> bool \<times> runtime" where
  "setDatabase db rt =
     (if rt_phase rt \<noteq> RtIdle \<and> rt_phase rt \<noteq> RtStopped then (False, rt)
      else case db of
        None \<Rightarrow> (True, rt\<lparr>rt_db := None, rt_dbOwner := None\<rparr>)
      | Some (owner, c, gaps) \<Rightarrow>
          if owner \<noteq> 0 \<and> owner \<noteq> rt_owner rt then (False, rt)
          else (True, rt\<lparr>rt_db := Some c, rt_dbOwner := Some owner,
            rt_friends := \<lparr>fs_owner = rt_owner rt, fs_online = (\<lambda>_. None)\<rparr>,
            rt_sync := \<lparr>sv_owner = rt_owner rt, sv_repo = Some \<lparr>sd_messages = [], sd_gaps = gaps\<rparr>,
                        sv_trackers = (\<lambda>_. None)\<rparr>\<rparr>))"

definition attachClientCore :: "runtime \<Rightarrow> bool \<times> runtime" where
  "attachClientCore rt =
     (if rt_phase rt \<noteq> RtIdle \<and> rt_phase rt \<noteq> RtStopped then (False, rt) else (True, rt\<lparr>rt_core := True\<rparr>))"

text \<open>
  \<open>start\<close> fails at once while another life cycle operation runs (\<open>busy\<close>); the others wait for it.
  Without a store it makes one, which is not open and has no services.
\<close>

definition rt_start :: "bool \<Rightarrow> runtime \<Rightarrow> bool \<times> runtime" where
  "rt_start busy rt =
     (if busy \<or> rt_phase rt = RtDestroyed then (False, rt)
      else if rt_phase rt = RtRunning then (True, rt)
      else if rt_owner rt \<le> 0 \<or>
              (case rt_dbOwner rt of None \<Rightarrow> False | Some ow \<Rightarrow> ow \<noteq> 0 \<and> ow \<noteq> rt_owner rt) then (False, rt)
      else if rt_phase rt = RtStarting then (True, rt)
      else (True, rt\<lparr>rt_dbOwner := (case rt_dbOwner rt of None \<Rightarrow> Some 0 | Some ow \<Rightarrow> Some ow),
                     rt_phase := RtRunning, rt_generation := rt_generation rt + 1,
                     rt_pump := True, rt_wake := True\<rparr>))"

fun cancel_all :: "int \<Rightarrow> string \<Rightarrow> string list \<Rightarrow> registry \<Rightarrow> registry" where
  "cancel_all now err [] g = g"
| "cancel_all now err (i # is) g = cancel_all now err is (snd (rg_complete now i CompCancelled err g))"

definition stopControlled :: "rt_env \<Rightarrow> runtime \<Rightarrow> runtime" where
  "stopControlled E rt =
     (if rt_phase rt \<noteq> RtRunning \<and> rt_phase rt \<noteq> RtStarting then rt
      else rt\<lparr>rt_phase := RtStopped, rt_auth := False,
              rt_completions := cancel_all (rn_clock E) ''runtime stopping'' (rt_admitted rt) (rt_completions rt),
              rt_pump := False, rt_wake := True, rt_gapTimers := (\<lambda>_. None), rt_bus := no_bus\<rparr>)"

definition rt_stop :: "rt_env \<Rightarrow> runtime \<Rightarrow> runtime" where
  "rt_stop = stopControlled"

definition forget_account :: "runtime \<Rightarrow> runtime" where
  "forget_account rt =
     rt\<lparr>rt_db := None, rt_dbOwner := None, rt_inflight := (\<lambda>_. None), rt_gapPending := [], rt_gapInFlight := [],
        rt_gapPages := (\<lambda>_. None)\<rparr>"

definition rt_logout :: "rt_env \<Rightarrow> runtime \<Rightarrow> runtime" where
  "rt_logout E rt =
     (let rt = forget_account (stopControlled E rt)
      in rt\<lparr>rt_generation := rt_generation rt + 1, rt_bus := no_bus\<rparr>)"

definition rt_destroy :: "rt_env \<Rightarrow> runtime \<Rightarrow> runtime" where
  "rt_destroy E rt =
     (if rt_phase rt = RtDestroyed then rt
      else (forget_account rt)\<lparr>rt_phase := RtDestroyed, rt_auth := False,
        rt_completions := cancel_all (rn_clock E) ''runtime destroying'' (rt_admitted rt) (rt_completions rt),
        rt_core := False, rt_pump := False, rt_wake := True, rt_gapTimers := (\<lambda>_. None), rt_bus := no_bus\<rparr>)"

end
