(* ===== verification/RuntimeRuns.thy ===== *)
theory RuntimeRuns
  imports ClientRuntime ClientHistory
begin

text \<open>
  Runs of the client runtime: any sequence of its entry points and timers. The laws an invariant of
  the runtime has to satisfy, and three that do: the ledger of operations and the store a message was
  accepted into (\<open>RuntimeProperties\<close>), and the versions that are announced (\<open>Announcements\<close>).
\<close>

section \<open>Steps\<close>

datatype rt_op =
    RtText int int string string string
  | RtMedia string string msg_dto
  | RtMarkRead int int
  | RtFlush int int
  | RtPump
  | RtAuth bool
  | RtIncoming chat_info
  | RtAck chat_ack
  | RtRoamConvs "chat_info list"
  | RtRoamMsgs int "chat_info list" bool
  | RtAskConvs
  | RtAskMsgs int int int
  | RtGapTimer int
  | RtFriendInfo friend_info_in
  | RtRequests "friend_request_in list"
  | RtOffline int
  | RtDeleted int int
  | RtListRequests
  | RtAddFriend string
  | RtAnswer int string bool
  | RtDeleteFriend int
  | RtNextOp string
  | RtComplete string completion_result string
  | RtConsume string
  | RtCatchUp domain
  | RtSetDatabase "(int \<times> cconn \<times> (int \<times> int \<times> gap) list) option"
  | RtAttach
  | RtStart bool
  | RtStop
  | RtLogout
  | RtDestroy

fun rt_step :: "rt_env \<Rightarrow> rt_op \<Rightarrow> runtime \<Rightarrow> runtime" where
  "rt_step E (RtText conv peer txt pinyin initials) rt = snd (sendText E conv peer txt pinyin initials rt)"
| "rt_step E (RtMedia a b m) rt = snd (sendMedia E a b m rt)"
| "rt_step E (RtMarkRead conv sq) rt = snd (rt_markRead E conv sq rt)"
| "rt_step E (RtFlush now limit) rt = snd (flushOutbox E now limit rt)"
| "rt_step E RtPump rt = pump_round E rt"
| "rt_step E (RtAuth on) rt = setAccountAuthenticated E on rt"
| "rt_step E (RtIncoming p) rt = handleIncomingChat E p rt"
| "rt_step E (RtAck a) rt = handleChatAck E a rt"
| "rt_step E (RtRoamConvs ps) rt = handleRoamConversations E ps rt"
| "rt_step E (RtRoamMsgs peer ps hasMore) rt = handleRoamMessages E peer ps hasMore rt"
| "rt_step E RtAskConvs rt = snd (requestRoamConversations E rt)"
| "rt_step E (RtAskMsgs peer b l) rt = snd (requestRoamMessages E peer b l rt)"
| "rt_step E (RtGapTimer conv) rt = gapTimerFires E conv rt"
| "rt_step E (RtFriendInfo v) rt = handleFriendInfo E v rt"
| "rt_step E (RtRequests vs) rt = handleFriendRequestList E vs rt"
| "rt_step E (RtOffline i) rt = handleFriendOffline i rt"
| "rt_step E (RtDeleted rs i) rt = handleDeleteFriendResult E rs i rt"
| "rt_step E RtListRequests rt = snd (requestFriendRequests E rt)"
| "rt_step E (RtAddFriend nick) rt = snd (sendAddFriendRequest E nick rt)"
| "rt_step E (RtAnswer i nick agree) rt = snd (answerFriendRequest E i nick agree rt)"
| "rt_step E (RtDeleteFriend i) rt = snd (rt_deleteFriend E i rt)"
| "rt_step E (RtNextOp dm) rt = snd (nextOperationId dm rt)"
| "rt_step E (RtComplete i res err) rt = snd (completeOperation E i res err rt)"
| "rt_step E (RtConsume i) rt = snd (consumeOperation i rt)"
| "rt_step E (RtCatchUp area) rt = snd (consumeInvalidation area rt)"
| "rt_step E (RtSetDatabase db) rt = snd (setDatabase db rt)"
| "rt_step E RtAttach rt = snd (attachClientCore rt)"
| "rt_step E (RtStart busy) rt = snd (rt_start busy rt)"
| "rt_step E RtStop rt = rt_stop E rt"
| "rt_step E RtLogout rt = rt_logout E rt"
| "rt_step E RtDestroy rt = rt_destroy E rt"

fun rt_run :: "(rt_env \<times> rt_op) list \<Rightarrow> runtime \<Rightarrow> runtime" where
  "rt_run [] rt = rt"
| "rt_run ((E, op) # ops) rt = rt_run ops (rt_step E op rt)"

text \<open>The part of the state that an invariant may speak of; the rest changes freely.\<close>

definition loud where
  "loud rt = (rt_phase rt, rt_owner rt, rt_instance rt, rt_generation rt, rt_opSeq rt, rt_admitted rt,
     rt_completions rt, rt_bus rt, rt_version rt, rt_db rt, rt_out rt)"

fun is_packet :: "rt_out \<Rightarrow> bool" where
  "is_packet (OutInvalidated _ _ _ _) = False"
| "is_packet (OutCompleted _ _ _) = False"
| "is_packet _ = True"

locale runtime_law =
  fixes I :: "runtime \<Rightarrow> bool" and ok :: "rt_op \<Rightarrow> bool"
  assumes quiet: "loud rt' = loud rt \<Longrightarrow> I rt \<Longrightarrow> I rt'"
    and packet: "is_packet x \<Longrightarrow> I rt \<Longrightarrow> I (emit x rt)"
    and noted: "I rt \<Longrightarrow> I (announce area gen rt)"
    and caught_up: "ok (RtCatchUp area) \<Longrightarrow> I rt \<Longrightarrow> I (snd (consumeInvalidation area rt))"
    and admit: "I rt \<Longrightarrow> I (snd (nextOperationId dm rt))"
    and complete: "I rt \<Longrightarrow> I (snd (completeOperation E i res err rt))"
    and consume: "I rt \<Longrightarrow> I (snd (consumeOperation i rt))"
    and store: "rt_db rt = Some c \<Longrightarrow> I rt \<Longrightarrow> I (rt\<lparr>rt_db := Some (store_step w op c)\<rparr>)"
    and set_db: "ok (RtSetDatabase db) \<Longrightarrow> I rt \<Longrightarrow> I (snd (setDatabase db rt))"
    and start: "I rt \<Longrightarrow> I (snd (rt_start busy rt))"
    and stop: "I rt \<Longrightarrow> I (stopControlled E rt)"
    and forget: "I rt \<Longrightarrow> I (forget_account rt)"
    and next_generation: "I rt \<Longrightarrow> I (rt\<lparr>rt_generation := rt_generation rt + 1, rt_bus := no_bus\<rparr>)"
    and destroy: "I rt \<Longrightarrow> I (rt_destroy E rt)"
begin

lemma quiet_iff: "loud rt' = loud rt \<Longrightarrow> I rt' = I rt"
  using quiet by metis

lemma quiet_updates [simp]:
  "I (rt\<lparr>rt_auth := x1\<rparr>) = I rt"
  "I (rt\<lparr>rt_core := x2\<rparr>) = I rt"
  "I (rt\<lparr>rt_friends := x3\<rparr>) = I rt"
  "I (rt\<lparr>rt_sync := x4\<rparr>) = I rt"
  "I (rt\<lparr>rt_inflight := x5\<rparr>) = I rt"
  "I (rt\<lparr>rt_gapPending := x6\<rparr>) = I rt"
  "I (rt\<lparr>rt_gapInFlight := x7\<rparr>) = I rt"
  "I (rt\<lparr>rt_gapPages := x8\<rparr>) = I rt"
  "I (rt\<lparr>rt_gapTimers := x9\<rparr>) = I rt"
  "I (rt\<lparr>rt_wake := x10\<rparr>) = I rt"
  "I (rt\<lparr>rt_wakeAt := x11\<rparr>) = I rt"
  by (rule quiet_iff, simp add: loud_def)+

lemma timers [simp]: "I (armGapTimer conv at timeout rt) = I rt" "I (cancelGapTimer conv rt) = I rt"
    "I (scheduleOutboxPump at rt) = I rt" "I (wakeOutboxPump rt) = I rt"
  by (simp_all add: armGapTimer_def cancelGapTimer_def scheduleOutboxPump_def wakeOutboxPump_def)

lemma noted_chat: "I rt \<Longrightarrow> I (announce_chat gen rt)"
  unfolding announce_chat_def by (intro noted)

lemma failed: "I (failGap E conv rt) = I rt"
  by (simp add: failGap_def Let_def split: prod.splits)

lemma asked:
  "I rt \<Longrightarrow> I (snd (requestRoamMessages E peer b l rt))"
  "I rt \<Longrightarrow> I (snd (requestRoamConversations E rt))"
  "is_packet x \<Longrightarrow> I rt \<Longrightarrow> I (snd (send_packet E valid x rt))"
  by (simp_all add: requestRoamMessages_def requestRoamConversations_def send_packet_def packet)

lemma asked_gap: "I rt \<Longrightarrow> I (ask_for_gap E conv g rt)"
proof -
  assume I: "I rt"
  have "I (snd (requestRoamMessages E conv b l (rt\<lparr>rt_gapPending := x6, rt_gapPages := x8, rt_gapInFlight := x7\<rparr>)))"
    for b l x6 x8 x7 using I by (simp add: asked)
  then show ?thesis
    using I unfolding ask_for_gap_def Let_def by (simp add: failed split: prod.split) (metis snd_conv)
qed

lemma maybe_gap: "I rt \<Longrightarrow> I (maybeRequestGap E conv rt)"
  by (simp add: maybeRequestGap_def Let_def asked_gap split: prod.split list.split)

lemma store_at: "rt_db rt = Some c \<Longrightarrow> I rt \<Longrightarrow> c' = store_step w op c \<Longrightarrow> I (rt\<lparr>rt_db := Some c'\<rparr>)"
  using store by simp

lemma store_same: "rt_db rt = Some c \<Longrightarrow> I rt \<Longrightarrow> I (rt\<lparr>rt_db := Some c\<rparr>)"
  by (rule quiet) (simp_all add: loud_def)

lemma seq_noted: "I (note_seq E peer sq rt) = I rt"
  by (simp add: note_seq_def Let_def split: prod.split)

lemma stored: "I rt \<Longrightarrow> I (snd (storeProtocolMessage E w p roaming rt))"
proof (cases "rt_db rt")
  case (Some c)
  let ?m = "incoming_dto (rt_owner rt) p" and ?ctx = "\<lparr>ic_roaming = roaming, ic_active = 0\<rparr>"
  assume I: "I rt"
  have "I (rt\<lparr>rt_db := Some (snd (onIncoming w ?m ?ctx c))\<rparr>)"
    by (rule store_at [OF Some I, of _ w "Incoming ?m ?ctx"]) (simp add: onIncoming_def)
  then show ?thesis
    using Some I by (auto simp: storeProtocolMessage_def Let_def seq_noted split: prod.split option.split)
qed (simp add: storeProtocolMessage_def)

lemma stored_all: "I rt \<Longrightarrow> I (snd (store_all E k ps b rt))"
proof (induction ps arbitrary: k b rt)
  case (Cons p ps)
  obtain b1 rt1 where st: "storeProtocolMessage E (rn_write E k) p True rt = (b1, rt1)" by (rule prod.exhaust)
  then have "I rt1" using stored [OF Cons.prems, of E "rn_write E k" p True] by simp
  then show ?case using Cons.IH st by simp
qed simp

lemma round_ended: "I (end_round E peer rt) = I rt"
  by (simp add: end_round_def Let_def failed split: prod.split)

lemma arrivals:
  assumes "I rt"
  shows "I (handleIncomingChat E p rt)"
    and "I (handleRoamConversations E ps rt)"
    and "I (handleRoamMessages E peer ps hasMore rt)"
proof -
  obtain b1 rt1 where st: "storeProtocolMessage E (rn_write E 0) p False rt = (b1, rt1)" by (rule prod.exhaust)
  then have "I rt1" using stored [OF assms, of E "rn_write E 0" p False] by simp
  then show "I (handleIncomingChat E p rt)"
    unfolding handleIncomingChat_def Let_def st by (auto intro!: maybe_gap noted_chat)
  show "I (handleRoamConversations E ps rt)"
    using stored_all [OF assms, of E 0 ps False]
    by (auto simp: handleRoamConversations_def Let_def intro: noted_chat split: prod.split)
  define rt1 where "rt1 = (cancelGapTimer peer rt)\<lparr>rt_gapInFlight := removeAll peer (rt_gapInFlight (cancelGapTimer peer rt))\<rparr>"
  define own where "own = filter (\<lambda>p. (if ci_my p = rt_owner rt1 then ci_friend p else ci_my p) = peer) ps"
  obtain b2 rt2 where st2: "store_all E 0 own False rt1 = (b2, rt2)" by (rule prod.exhaust)
  have "I rt1" using assms by (simp add: rt1_def)
  then have "I rt2" using stored_all [of rt1 E 0 own False] st2 by simp
  then have "I (if b2 then announce_chat (rt_generation rt) rt2 else rt2)" by (simp add: noted_chat)
  then have "I (maybeRequestGap E peer
      (if \<not> b2 \<or> \<not> hasMore then end_round E peer (if b2 then announce_chat (rt_generation rt) rt2 else rt2)
       else (if b2 then announce_chat (rt_generation rt) rt2 else rt2)))"
    by (intro maybe_gap) (auto simp: round_ended)
  then show "I (handleRoamMessages E peer ps hasMore rt)"
    unfolding handleRoamMessages_def Let_def rt1_def [symmetric] own_def [symmetric] st2 prod.case .
qed

lemma prepared: "I rt \<Longrightarrow> I (snd (send_prepare E dm fault intent rt))"
proof -
  assume I: "I rt"
  obtain i rt1 where op: "nextOperationId dm rt = (i, rt1)" by (rule prod.exhaust)
  have I1: "I rt1" using admit [OF I, of dm] op by simp
  have I2: "I (rt1\<lparr>rt_db := Some (snd (prepareOutgoing w gen intent c))\<rparr>)" if c: "rt_db rt1 = Some c" for c w gen
  proof (cases "snd (prepareOutgoing w gen intent c) = c")
    case True
    then show ?thesis using store_same [OF c I1] by simp
  next
    case False
    then obtain m where "snd (prepareOutgoing w gen intent c) = store_step w (Draft m) c"
      by (auto simp: prepareOutgoing_def Let_def split: option.splits if_splits prod.splits) (metis snd_conv)+
    then show ?thesis by (rule store_at [OF c I1])
  qed
  show ?thesis
    using I1 I2 unfolding send_prepare_def op Let_def
    by (auto intro!: complete split: option.split prod.split) (metis snd_conv)+
qed

lemma sent_noted: "I rt \<Longrightarrow> I (send_note out rt)"
  by (simp add: send_note_def Let_def noted_chat)

lemma sends: "I rt \<Longrightarrow> I (snd (sendText E conv peer txt pinyin initials rt))"
    "I rt \<Longrightarrow> I (snd (sendMedia E a b m rt))"
  using prepared by (auto simp: sendText_def sendMedia_def Let_def intro!: sent_noted split: prod.split) (metis snd_conv)+

lemma marked: "I rt \<Longrightarrow> I (snd (rt_markRead E conv sq rt))"
proof -
  assume I: "I rt"
  obtain i rt1 where op: "nextOperationId ''mark_read'' rt = (i, rt1)" by (rule prod.exhaust)
  have I1: "I rt1" using admit [OF I, of "''mark_read''"] op by simp
  show ?thesis
  proof (cases "rt_db rt1")
    case None
    then show ?thesis using I1 by (simp add: rt_markRead_def op complete)
  next
    case (Some c)
    obtain b c' where mr: "markRead (rn_write E 0) (rt_owner rt1) conv sq c = (b, c')" by (rule prod.exhaust)
    have "I (rt1\<lparr>rt_db := Some c'\<rparr>)"
      by (rule store_at [OF Some I1, of _ "rn_write E 0" "MarkRead (rt_owner rt1) conv sq"])
        (use mr in \<open>auto simp: markRead_def split: prod.splits\<close>)
    then show ?thesis using I1 by (simp add: rt_markRead_def op Some mr complete noted)
  qed
qed

lemma flushed_one: "I rt \<Longrightarrow> I (snd (snd (flush_one E now k a (n, t, rt))))"
proof (cases "rn_send E k \<or> rt_db rt = None")
  case True
  assume "I rt"
  then have "I (rt\<lparr>rt_db := rt_db rt\<rparr>)" "I (emit (OutChat (oa_payload a)) rt)"
    by (auto intro: packet quiet simp: loud_def)
  moreover have "rt_db rt = None \<Longrightarrow> I (rt\<lparr>rt_db := None\<rparr>)" using calculation(1) by simp
  ultimately show ?thesis using True by (auto simp: flush_one_def Let_def)
next
  case False
  assume I: "I rt"
  then obtain c where "rt_db rt = Some c" using False by auto
  then show ?thesis
    using False store_at [OF _ I, of c _ "rn_write E (k + 1)"
        "FinishAttempt (rt_owner rt) (oa_id a) (oa_attempt a) False (now + 1) ''not_connected''"]
    by (simp add: flush_one_def)
qed

lemma flushed_all: "I rt \<Longrightarrow> I (snd (snd (flush_all E now k xs (n, t, rt))))"
proof (induction xs arbitrary: k n t rt)
  case (Cons a xs)
  obtain n1 t1 rt1 where one: "flush_one E now k a (n, t, rt) = (n1, t1, rt1)" by (rule prod_cases3)
  then have "I rt1" using flushed_one [OF Cons.prems, of E now k a n t] by simp
  then show ?case using Cons.IH one by simp
qed simp

lemma flushed: "I rt \<Longrightarrow> I (snd (flushOutbox E now limit rt))"
proof -
  assume I: "I rt"
  have I1: "I (rt\<lparr>rt_db := Some c'\<rparr>)"
    if "rt_db rt = Some c" "claimOutbox w (rt_owner rt) now 30 limit c = (r, c')" for c w r c'
    by (rule store_at [OF that(1) I, of _ w "Claim (rt_owner rt) now 30 limit"]) (simp add: that(2))
  have "I rt'" if "rt_db rt = Some c" "claimOutbox w (rt_owner rt) now 30 limit c = (r, c')"
      "flush_all E now 0 xs (0, 0, rt\<lparr>rt_db := Some c'\<rparr>) = (n, t, rt')" for c w r c' xs n t rt'
    using flushed_all [OF I1 [OF that(1,2)], of E now 0 xs 0 0] that(3) by simp
  then show ?thesis
    using I I1 by (auto simp: flushOutbox_def Let_def split: option.split prod.split)
qed

lemma pumped: "I rt \<Longrightarrow> I (pump_round E rt)"
  by (simp add: pump_round_def Let_def flushed)

lemma authenticated: "I rt \<Longrightarrow> I (setAccountAuthenticated E on rt)"
proof -
  have "I rt \<Longrightarrow> I (each_gap E convs rt)" for convs rt by (induction convs arbitrary: rt) (simp_all add: maybe_gap)
  then show "I rt \<Longrightarrow> I (setAccountAuthenticated E on rt)" by (simp add: setAccountAuthenticated_def Let_def)
qed

lemma acked: "I rt \<Longrightarrow> I (handleChatAck E a rt)"
proof -
  assume I: "I rt"
  have op: "I r \<Longrightarrow> I (ack_operation E a i t r)" for i t r
    by (simp add: ack_operation_def complete)
  have sq: "I r \<Longrightarrow> I (ack_seq E a r)" for r
    by (auto simp: ack_seq_def Let_def intro!: maybe_gap split: prod.split)
  have I1: "I (rt\<lparr>rt_db := Some (snd (onProtocolAck w (rt_owner rt) (ca_id a) rs n attempt now jitter c))\<rparr>)"
    if c: "rt_db rt = Some c" for c w rs n attempt now jitter
  proof (cases "snd (onProtocolAck w (rt_owner rt) (ca_id a) rs n attempt now jitter c) = c")
    case True
    then show ?thesis using store_same [OF c I] by simp
  next
    case False
    then have "\<exists>op. snd (onProtocolAck w (rt_owner rt) (ca_id a) rs n attempt now jitter c) = store_step w op c"
      unfolding onProtocolAck_def Let_def
      by (auto split: option.splits if_splits prod.splits)
        (metis store_step.simps(3) store_step.simps(5) snd_conv)+
    then show ?thesis using store_at [OF c I] by blast
  qed
  have "I (rt\<lparr>rt_db := Some c'\<rparr>)"
    if "rt_db rt = Some c" "onProtocolAck w (rt_owner rt) (ca_id a) rs n attempt now jitter c = (r, c')"
    for c w rs n attempt now jitter r c'
    using I1 [OF that(1), of w rs n attempt now jitter] that(2) by simp
  then show ?thesis
    using I unfolding handleChatAck_def Let_def
    by (auto intro!: noted_chat sq op split: option.split prod.split)
qed

lemma friends_handled:
  assumes I: "I rt"
  shows "I (handleFriendInfo E v rt)" and "I (handleFriendRequestList E vs rt)"
    and "I (handleFriendOffline i rt)" and "I (handleDeleteFriendResult E rs i rt)"
proof -
  have "I (rt\<lparr>rt_db := Some c'\<rparr>)"
    if "rt_db rt = Some c" "onFriendInfo w f s c = (b, c')" for c w f s b c'
    by (rule store_at [OF that(1) I, of _ w "PutFriend (fs_owner s) f"])
      (use that(2) in \<open>auto simp: onFriendInfo_def split: prod.splits\<close>)
  then show "I (handleFriendInfo E v rt)"
    using I unfolding handleFriendInfo_def Let_def by (auto intro!: noted split: option.split prod.split)
  have reqs: "I r \<Longrightarrow> I (snd (store_requests E k vs (b, r)))" for k b r
  proof (induction vs arbitrary: k b r)
    case (Cons v vs)
    show ?case
    proof (cases "rt_db r")
      case (Some c)
      let ?w = "rn_write E k" and ?q = "request_of (rt_owner r) v"
      have "I (r\<lparr>rt_db := Some (snd (onFriendRequest ?w ?q (rt_friends r) c))\<rparr>)"
        by (rule store_at [OF Some Cons.prems, of _ ?w "PutRequest (fs_owner (rt_friends r)) ?q"])
          (simp add: onFriendRequest_def)
      then show ?thesis using Cons.IH Cons.prems Some by (auto split: prod.split)
    qed (use Cons.prems in simp)
  qed simp
  show "I (handleFriendRequestList E vs rt)"
    using reqs [OF I, of 0 False] by (auto simp: handleFriendRequestList_def Let_def intro: noted split: prod.split)
  show "I (handleFriendOffline i rt)" using I by (simp add: handleFriendOffline_def noted)
  have "I (rt\<lparr>rt_db := Some c'\<rparr>)"
    if "rt_db rt = Some c" "fs_delete w i s c = (b, s', c')" for c w s b s' c'
    by (rule store_at [OF that(1) I, of _ w "DropFriend (fs_owner s) i"])
      (use that(2) in \<open>auto simp: fs_delete_def split: prod.splits option.splits\<close>)
  then show "I (handleDeleteFriendResult E rs i rt)"
    using I unfolding handleDeleteFriendResult_def Let_def by (auto intro!: noted split: option.split prod.split)
qed

lemma timer_fired: "I rt \<Longrightarrow> I (gapTimerFires E conv rt)"
  by (auto simp: gapTimerFires_def Let_def failed intro!: maybe_gap split: option.split)

lemma attached: "I rt \<Longrightarrow> I (snd (attachClientCore rt))"
  by (simp add: attachClientCore_def)

theorem step: "ok op \<Longrightarrow> I rt \<Longrightarrow> I (rt_step E op rt)"
  by (cases op)
    (simp_all add: sends marked flushed pumped authenticated arrivals acked asked timer_fired friends_handled
      admit complete consume caught_up set_db attached start stop destroy rt_stop_def rt_logout_def Let_def
      requestFriendRequests_def sendAddFriendRequest_def answerFriendRequest_def rt_deleteFriend_def
      next_generation forget)

theorem run: "list_all (\<lambda>(E, op). ok op) ops \<Longrightarrow> I rt \<Longrightarrow> I (rt_run ops rt)"
  by (induction ops rt rule: rt_run.induct) (simp_all add: step)

end

end
