(* ===== verification/RuntimeProperties.thy ===== *)
theory RuntimeProperties
  imports RuntimeRuns
begin

text \<open>
  What the client runtime promises over any run of it: an operation is completed once and its
  completion is never refused, and a message it accepted is kept.
  At the end two ways in which it falls short: an acknowledgement that comes too early, and a request
  for missing messages that is outstanding when the runtime is stopped.
\<close>

section \<open>The ledger of operations\<close>

definition completed_ops :: "rt_out list \<Rightarrow> string list" where
  "completed_ops xs = concat (map (\<lambda>x. case x of OutCompleted r _ _ \<Rightarrow> [cp_id r] | _ \<Rightarrow> []) xs)"

text \<open>The number at the end of the identity of an operation.\<close>

definition op_num :: "string \<Rightarrow> nat" where
  "op_num i = digits_val (rev (takeWhile (\<lambda>ch. ch \<noteq> CHR '':'') (rev i)))"

lemma op_num_op_id [simp]: "op_num (op_id dm rt k) = k"
proof -
  have colon: "\<not> is_digit CHR '':''" by code_simp
  have "ch \<noteq> CHR '':''" if "ch \<in> set (rev (nat_str k))" for ch
    using nat_str_digits [of k] that colon by auto
  then have tw: "takeWhile (\<lambda>ch. ch \<noteq> CHR '':'') (rev (nat_str k) @ CHR '':'' # ys) = rev (nat_str k)" for ys
    by (simp add: takeWhile_tail)
  obtain ys where ys: "op_id dm rt k = ys @ CHR '':'' # nat_str k"
    unfolding op_id_def by (metis append.assoc append_Cons append_Nil)
  have "rev (op_id dm rt k) = rev (nat_str k) @ CHR '':'' # rev ys" unfolding ys by simp
  then show ?thesis unfolding op_num_def by (simp only: tw rev_rev_ident digits_val_nat_str)
qed

definition ledger_ok :: "nat \<Rightarrow> runtime \<Rightarrow> bool" where
  "ledger_ok cap rt \<longleftrightarrow>
     registry_ok (rt_completions rt) \<and> rg_capacity (rt_completions rt) = cap \<and> distinct (rt_admitted rt) \<and>
     length (rg_records (rt_completions rt)) \<le> cap \<and> length (rt_admitted rt) \<le> cap \<and> [] \<notin> set (rt_admitted rt) \<and>
     (\<forall>r \<in> set (rg_records (rt_completions rt)). cp_consumed r \<longleftrightarrow> cp_id r \<notin> set (rt_admitted rt)) \<and>
     (\<forall>i \<in> set (rt_admitted rt) \<union> cp_id ` set (rg_records (rt_completions rt)) \<union> set (completed_ops (rt_out rt)).
        op_num i \<le> rt_opSeq rt) \<and>
     distinct (completed_ops (rt_out rt)) \<and>
     (\<forall>i \<in> set (completed_ops (rt_out rt)) \<inter> set (rt_admitted rt). recorded i (rt_completions rt))"

lemma completed_simps [simp]:
  "completed_ops [] = []" "completed_ops (xs @ ys) = completed_ops xs @ completed_ops ys"
  "completed_ops [OutCompleted r g ow] = [cp_id r]" "is_packet x \<Longrightarrow> completed_ops [x] = []"
  "completed_ops [OutInvalidated a v g ow] = []"
  by (auto simp: completed_ops_def split: rt_out.splits)

lemma ledger_quiet:
  assumes "rt_opSeq rt' = rt_opSeq rt" "rt_admitted rt' = rt_admitted rt" "rt_completions rt' = rt_completions rt"
    and "completed_ops (rt_out rt') = completed_ops (rt_out rt)" and "ledger_ok cap rt"
  shows "ledger_ok cap rt'"
  using assms by (simp add: ledger_ok_def)

lemma announce_shape:
  "announce area gen rt = rt\<lparr>rt_version := rt_version rt + 1\<rparr> \<or>
   (\<exists>bus. announce area gen rt =
      emit (OutInvalidated area (rt_version rt + 1) gen (rt_owner rt)) (rt\<lparr>rt_version := rt_version rt + 1, rt_bus := bus\<rparr>)
      \<and> gen = rt_generation rt \<and> rt_phase rt = RtRunning)"
  by (auto simp: announcing_defs Let_def ib_publish_def split: if_splits)

lemma ledger_records:
  assumes "ledger_ok cap rt" and "rg_complete now i res err (rt_completions rt) = (b, g)" and "i \<in> set (rt_admitted rt)"
  shows "ledger_ok cap (rt\<lparr>rt_completions := g\<rparr>)"
    and "b \<Longrightarrow> i \<notin> set (completed_ops (rt_out rt)) \<and> recorded i g \<and> op_num i \<le> rt_opSeq rt"
proof -
  note r = complete_records [OF assms(2)]
  have L: "registry_ok (rt_completions rt)"
      "\<And>r. r \<in> set (rg_records (rt_completions rt)) \<Longrightarrow> cp_consumed r \<longleftrightarrow> cp_id r \<notin> set (rt_admitted rt)"
      "\<And>r. r \<in> set (rg_records (rt_completions rt)) \<Longrightarrow> op_num (cp_id r) \<le> rt_opSeq rt"
      "\<And>j. j \<in> set (rt_admitted rt) \<Longrightarrow> op_num j \<le> rt_opSeq rt"
      "\<And>j. j \<in> set (completed_ops (rt_out rt)) \<Longrightarrow> j \<in> set (rt_admitted rt) \<Longrightarrow> recorded j (rt_completions rt)"
    using assms(1) by (auto simp: ledger_ok_def)
  have keep: "recorded j g" if j: "recorded j (rt_completions rt)" "j \<in> set (rt_admitted rt)" for j
  proof -
    obtain q where "q \<in> set (rg_records (rt_completions rt))" "cp_id q = j"
      using j(1) by (auto simp: recorded_iff)
    then show ?thesis using r(2) [of q] L(2) [of q] j(2) by (auto simp: recorded_iff)
  qed
  have "\<forall>r \<in> set (rg_records g). (cp_consumed r \<longleftrightarrow> cp_id r \<notin> set (rt_admitted rt)) \<and> op_num (cp_id r) \<le> rt_opSeq rt"
    using L(2,3,4) assms(3) r(3) by (intro ballI) (drule r(3), auto)
  then show "ledger_ok cap (rt\<lparr>rt_completions := g\<rparr>)"
    using assms(1) registry_ok_complete [OF assms(2) L(1)] complete_bounded [OF assms(2)] r(4) keep
    by (auto simp: ledger_ok_def)
  show "i \<notin> set (completed_ops (rt_out rt)) \<and> recorded i g \<and> op_num i \<le> rt_opSeq rt" if b
    using r(1) [OF that] r(5) [OF that] L(4,5) assms(3) by (auto simp: recorded_iff)
qed

lemma ledger_complete: "ledger_ok cap rt \<Longrightarrow> ledger_ok cap (snd (completeOperation E i res err rt))"
proof -
  assume L: "ledger_ok cap rt"
  obtain b g where c: "rg_complete (rn_clock E) i res err (rt_completions rt) = (b, g)" by (rule prod.exhaust)
  show ?thesis
  proof (cases "rt_phase rt \<noteq> RtRunning \<or> i \<notin> set (rt_admitted rt) \<or> \<not> b")
    case True
    then show ?thesis using L by (auto simp: completeOperation_def Let_def c)
  next
    case False
    note l = ledger_records [OF L c]
    have "ledger_ok cap (emit (OutCompleted r gen ow) (rt\<lparr>rt_completions := g\<rparr>))" if "cp_id r = i" for r gen ow
      using l False that unfolding emit_def by (auto simp: ledger_ok_def)
    moreover have "rg_peek i g = Some r \<Longrightarrow> cp_id r = i" for r by (simp add: rg_peek_def find_Some_iff) blast
    ultimately show ?thesis
      using l(1) False by (auto simp: completeOperation_def Let_def c split: option.split)
  qed
qed

lemma ledger_admit: "ledger_ok cap rt \<Longrightarrow> ledger_ok cap (snd (nextOperationId dm rt))"
proof -
  assume L: "ledger_ok cap rt"
  let ?i = "op_id dm rt (rt_opSeq rt + 1)"
  have num: "op_num ?i = Suc (rt_opSeq rt)" by simp
  have "j \<noteq> ?i" if "j \<in> set (rt_admitted rt) \<union> cp_id ` set (rg_records (rt_completions rt)) \<union> set (completed_ops (rt_out rt))" for j
    using L that num unfolding ledger_ok_def by (metis not_less_eq_eq order_refl)
  then have new: "?i \<notin> set (rt_admitted rt)" "?i \<notin> cp_id ` set (rg_records (rt_completions rt))"
      "?i \<notin> set (completed_ops (rt_out rt))" by blast+
  have "?i \<noteq> []" by (simp add: op_id_def)
  then show ?thesis
    using L new num unfolding nextOperationId_def Let_def
    by (auto simp: ledger_ok_def simp del: op_num_op_id intro: le_SucI) (metis imageI le_SucI)+
qed

lemma ledger_consume: "ledger_ok cap rt \<Longrightarrow> ledger_ok cap (snd (consumeOperation i rt))"
proof -
  assume L: "ledger_ok cap rt"
  let ?R = "rg_records (rt_completions rt)" and ?f = "\<lambda>r. r\<lparr>cp_consumed := True\<rparr>"
  let ?R' = "upd_where (\<lambda>r. cp_id r = i) ?f ?R"
  have ids: "map cp_id ?R' = map cp_id ?R" "length ?R' = length ?R" by (simp_all add: upd_where_def)
  then have ids': "cp_id ` set ?R' = cp_id ` set ?R" by (metis set_map)
  have cons: "cp_consumed r \<longleftrightarrow> cp_id r \<notin> set (removeAll i (rt_admitted rt))" if "r \<in> set ?R'" for r
    using that L by (auto simp: upd_where_def ledger_ok_def split: if_splits)
  have len: "length (removeAll i xs) \<le> length xs" for xs :: "string list" by (simp add: removeAll_filter_not_eq)
  have num: "op_num j \<le> rt_opSeq rt" if "j \<in> set (rt_admitted rt) \<union> cp_id ` set ?R \<union> set (completed_ops (rt_out rt))" for j
    using L that by (simp add: ledger_ok_def)
  have L': "registry_ok (rt_completions rt)" "distinct (rt_admitted rt)"
      "length (rt_admitted rt) \<le> cap" "[] \<notin> set (rt_admitted rt)"
      "length ?R \<le> cap" "rg_capacity (rt_completions rt) = cap" "distinct (completed_ops (rt_out rt))"
      "\<And>j. j \<in> set (completed_ops (rt_out rt)) \<Longrightarrow> j \<in> set (rt_admitted rt) \<Longrightarrow> j \<in> cp_id ` set ?R"
    using L by (auto simp: ledger_ok_def recorded_iff)
  have "ledger_ok cap (rt\<lparr>rt_completions := (rt_completions rt)\<lparr>rg_records := ?R'\<rparr>, rt_admitted := removeAll i (rt_admitted rt)\<rparr>)"
    unfolding ledger_ok_def registry_ok_def recorded_iff
    using L'(1)
    by (simp add: ids ids' registry_ok_def cons le_trans [OF len L'(3)] L' num distinct_removeAll) (use num L'(8) in blast)
  then show ?thesis using L by (simp add: consumeOperation_def rg_consume_def)
qed

lemma ledger_cancel:
  "ledger_ok cap rt \<Longrightarrow> set xs \<subseteq> set (rt_admitted rt) \<Longrightarrow>
     ledger_ok cap (rt\<lparr>rt_completions := cancel_all now err xs (rt_completions rt)\<rparr>)"
proof (induction xs arbitrary: rt)
  case (Cons i xs)
  obtain b g where c: "rg_complete now i CompCancelled err (rt_completions rt) = (b, g)" by (rule prod.exhaust)
  have "ledger_ok cap (rt\<lparr>rt_completions := g\<rparr>)" using ledger_records(1) [OF Cons.prems(1) c] Cons.prems(2) by simp
  from Cons.IH [OF this] Cons.prems(2) show ?case by (simp add: c)
qed (simp add: ledger_ok_def)

interpretation ledger: runtime_law "ledger_ok cap" "\<lambda>_. True" for cap
proof unfold_locales
  show "ledger_ok cap rt'" if "loud rt' = loud rt" "ledger_ok cap rt" for rt' rt
    using that by (simp add: loud_def ledger_ok_def)
  show "ledger_ok cap (emit x rt)" if "is_packet x" "ledger_ok cap rt" for x rt
    by (rule ledger_quiet [OF _ _ _ _ that(2)]) (simp_all add: emit_def that(1))
  show "ledger_ok cap (announce area gen rt)" if "ledger_ok cap rt" for area gen rt
    using announce_shape [of area gen rt]
    by (elim disjE exE conjE) (simp_all add: emit_def ledger_quiet [OF _ _ _ _ that])
  show "ledger_ok cap (snd (consumeInvalidation area rt))" if "ledger_ok cap rt" for area rt
    by (rule ledger_quiet [OF _ _ _ _ that]) (simp_all add: consumeInvalidation_def Let_def split: prod.split)
  show "ledger_ok cap (rt\<lparr>rt_db := Some (store_step w op c)\<rparr>)" if "ledger_ok cap rt" for rt w op c
    by (rule ledger_quiet [OF _ _ _ _ that]) simp_all
  show "ledger_ok cap (snd (setDatabase db rt))" if "ledger_ok cap rt" for db rt
    by (rule ledger_quiet [OF _ _ _ _ that]) (simp_all add: setDatabase_def split: option.split)
  show "ledger_ok cap (snd (rt_start busy rt))" if "ledger_ok cap rt" for busy rt
    by (rule ledger_quiet [OF _ _ _ _ that]) (simp_all add: rt_start_def)
  show forget: "ledger_ok cap (forget_account rt)" if "ledger_ok cap rt" for rt
    by (rule ledger_quiet [OF _ _ _ _ that]) (simp_all add: forget_account_def)
  show "ledger_ok cap (rt\<lparr>rt_generation := rt_generation rt + 1, rt_bus := no_bus\<rparr>)" if "ledger_ok cap rt" for rt
    by (rule ledger_quiet [OF _ _ _ _ that]) simp_all
  show "ledger_ok cap (stopControlled E rt)" if "ledger_ok cap rt" for E rt
    using that ledger_quiet [OF _ _ _ _ ledger_cancel [OF that subset_refl]] by (simp add: stopControlled_def)
  show "ledger_ok cap (rt_destroy E rt)" if "ledger_ok cap rt" for E rt
    using that ledger_quiet [OF _ _ _ _ ledger_cancel [OF that subset_refl]]
    by (simp add: rt_destroy_def forget_account_def)
qed (rule ledger_admit ledger_complete ledger_consume, assumption)+

text \<open>
  C15: an operation is completed once, and its completion is not refused. Over any run of a new
  runtime with a given capacity, no operation is reported as completed twice; at no time does the
  registry keep more results than the capacity, consumed or not; and while the runtime runs, an
  admitted operation that has no result yet can be completed with any result, and only then.
\<close>

theorem operations_complete_once:
  assumes "rt = rt_run ops (new_runtime owner inst capacity timeout)"
  shows "distinct (completed_ops (rt_out rt)) \<and>
     length (rg_records (rt_completions rt)) \<le> capacity \<and>
     (rt_phase rt = RtRunning \<longrightarrow> i \<in> set (rt_admitted rt) \<longrightarrow>
        fst (completeOperation E i res err rt) = (\<not> recorded i (rt_completions rt)))"
proof -
  have "ledger_ok capacity (new_runtime owner inst capacity timeout)"
    by (simp add: ledger_ok_def new_runtime_def registry_ok_def)
  then have L: "ledger_ok capacity rt"
    using ledger.run [of ops] assms by (simp add: list_all_iff split_def)
  let ?g = "rt_completions rt" and ?U = "filter (\<lambda>r. \<not> cp_consumed r) (rg_records (rt_completions rt))"
  have d: "distinct (map cp_id ?U)" using L by (simp add: ledger_ok_def registry_ok_def distinct_map_filter)
  have sub: "set (map cp_id ?U) \<subseteq> set (rt_admitted rt)" using L by (auto simp: ledger_ok_def)
  have card: "card (set (rt_admitted rt)) \<le> rg_capacity ?g"
    using L card_length order_trans unfolding ledger_ok_def by blast
  have unc: "rg_unconsumed ?g = card (set (map cp_id ?U))"
    using distinct_card [OF d] by (simp add: rg_unconsumed_def count_where_def)
  have "rg_unconsumed ?g \<le> rg_capacity ?g"
    using card_mono [OF _ sub] card unc by simp
  moreover have "fst (completeOperation E i res err rt) = (\<not> recorded i ?g)"
    if run: "rt_phase rt = RtRunning" and adm: "i \<in> set (rt_admitted rt)"
  proof (cases "recorded i ?g")
    case True
    then show ?thesis by (simp add: completeOperation_def rg_complete_def)
  next
    case False
    then have "set (map cp_id ?U) \<subset> set (rt_admitted rt)" using sub adm by (auto simp: recorded_iff)
    then have "rg_unconsumed ?g < rg_capacity ?g" using psubset_card_mono card unc by (metis List.finite_set order_less_le_trans)
    moreover have "i \<noteq> []" using L adm by (auto simp: ledger_ok_def)
    ultimately have b: "fst (rg_complete (rn_clock E) i res err ?g)" using complete_takes False by blast
    obtain b' g where c: "rg_complete (rn_clock E) i res err ?g = (b', g)" by (rule prod.exhaust)
    then have "rg_peek i g \<noteq> None"
      using b complete_records(1) [OF c] by (auto simp: rg_peek_def find_None_iff)
    then show ?thesis using run adm b False by (auto simp: completeOperation_def c)
  qed
  ultimately show ?thesis using L by (simp add: ledger_ok_def)
qed

definition demo_env :: rt_env where
  "demo_env = \<lparr>rn_write = (\<lambda>_. demo_io), rn_read = read_ok, rn_sync = \<lparr>io_ranges = True, io_gaps = True, io_replace = True\<rparr>,
     rn_now = 100, rn_nowMs = 100000, rn_clock = 5, rn_connected = True, rn_msgId = Some ''m1'',
     rn_send = (\<lambda>_. True), rn_jitter = Some 0, rn_error = []\<rparr>"

abbreviation "demo_op \<equiv> ''ping:7:1:1:1''"

lemma operations_complete_once_witness:
  "fst (completeOperation demo_env demo_op CompOk []
     (rt_run [(demo_env, RtStart False), (demo_env, RtNextOp ''ping'')] (new_runtime 7 1 4 5000)))"
proof -
  let ?rt = "rt_run [(demo_env, RtStart False), (demo_env, RtNextOp ''ping'')] (new_runtime 7 1 4 5000)"
  have "rt_phase ?rt = RtRunning" by code_simp
  moreover have "demo_op \<in> set (rt_admitted ?rt)" by code_simp
  moreover have "\<not> recorded demo_op (rt_completions ?rt)" by code_simp
  ultimately show ?thesis
    using operations_complete_once [OF refl, of "[(demo_env, RtStart False), (demo_env, RtNextOp ''ping'')]" 7 1 4 5000
        demo_op demo_env CompOk "[]"] by blast
qed

section \<open>Accepted texts\<close>

fun keeps_store :: "rt_op \<Rightarrow> bool" where
  "keeps_store (RtSetDatabase db) = False"
| "keeps_store _ = True"

text \<open>The store, while there is one, still secures a message that an earlier store had.\<close>

definition safe_in :: "client_db \<Rightarrow> int \<Rightarrow> string \<Rightarrow> int \<Rightarrow> runtime \<Rightarrow> bool" where
  "safe_in d owner mid k rt \<longleftrightarrow>
     (case rt_db rt of
        None \<Rightarrow> True
      | Some c \<Rightarrow> cn_txn c = None \<and> secured owner mid k (cn_db c) \<and> evolved d (cn_db c))"

lemma safe_quiet: "rt_db rt' = rt_db rt \<or> rt_db rt' = None \<Longrightarrow> safe_in d owner mid k rt \<Longrightarrow> safe_in d owner mid k rt'"
  by (auto simp: safe_in_def)

lemma announce_db [simp]: "rt_db (announce area gen rt) = rt_db rt" "rt_db (announce_chat gen rt) = rt_db rt"
  by (simp_all add: announcing_defs announce_chat_def Let_def emit_def split_def)

lemma completeOperation_db [simp]: "rt_db (snd (completeOperation E i res err rt)) = rt_db rt"
  by (simp add: completeOperation_def Let_def emit_def split: prod.split option.split)

lemma nextOperationId_db [simp]: "rt_db (snd (nextOperationId dm rt)) = rt_db rt"
  by (simp add: nextOperationId_def Let_def)

interpretation safe: runtime_law "safe_in d owner mid k" keeps_store for d owner mid k
proof unfold_locales
  show "safe_in d owner mid k (rt\<lparr>rt_db := Some (store_step w op c)\<rparr>)"
    if "rt_db rt = Some c" "safe_in d owner mid k rt" for rt c w op
    using that secure.run [of c owner mid k "[(w, op)]"] evolving.run [of c d "[(w, op)]"]
    by (simp add: safe_in_def)
qed (erule safe_quiet [rotated];
  simp add: loud_def emit_def consumeInvalidation_def consumeOperation_def rt_start_def stopControlled_def forget_account_def
    rt_destroy_def Let_def split: prod.split)+

lemma send_prepare_stores:
  assumes "send_prepare E dm [] intent rt = (out, rt1)" and "cmd_accepted out" and "rt_db rt = Some c"
  shows "\<exists>c1 m. commitOutgoingDraft (rn_write E 0) m c = (Some (cmd_order out), c1) \<and> rt_db rt1 = Some c1 \<and>
     m = intent\<lparr>lm_id := cmd_id out, lm_order := 0, lm_seq := 0, lm_ts := 0, lm_status := 0, lm_mine := True\<rparr>"
proof -
  obtain i rt0 where op: "nextOperationId dm rt = (i, rt0)" by (rule prod.exhaust)
  then have db: "rt_db rt0 = Some c" using assms(3) nextOperationId_db [of dm rt] by simp
  obtain r c1 where p: "prepareOutgoing (rn_write E 0) (rn_msgId E) intent c = (r, c1)" by (rule prod.exhaust)
  have ne: "i \<noteq> []" using assms(1,2) by (auto simp: send_prepare_def op Let_def)
  have r: "sr_ok r" "cmd_id out = sr_id r" "cmd_order out = sr_order r" "rt_db rt1 = Some c1"
    using assms(1,2) ne by (auto simp: send_prepare_def op db p Let_def split: if_splits)
  then show ?thesis
    using p unfolding prepareOutgoing_def Let_def
    by (auto split: if_splits option.splits prod.splits)
qed

text \<open>
  C6: a text the runtime accepted is not lost. When \<open>sendText\<close> accepts a text under an identity the
  store did not hold, then after any run of the runtime - messages arriving, acknowledgements of any
  kind, the outbox pump, stops and starts, with any part of them failing - until the store is
  replaced, the runtime either has no store any more (it was logged out or destroyed) or the store
  holds the text, for the same conversation and under the local order that was returned, and it has a
  delivery status or is in the outbox.
\<close>

theorem accepted_text_kept:
  assumes "sendText E conv peer txt pinyin initials rt = (out, rt1)" and "cmd_accepted out"
    and "rt_db rt = Some c" and "cn_txn c = None"
    and "local_of (rt_owner rt) (cmd_id out) (cn_db c) = None"
    and "list_all (\<lambda>(E, op). keeps_store op) ops"
  shows "rt_db (rt_run ops rt1) = None \<or>
     (\<exists>c' x. rt_db (rt_run ops rt1) = Some c' \<and> local_of (rt_owner rt) (cmd_id out) (cn_db c') = Some x \<and>
        lm_content x = txt \<and> lm_conv x = conv \<and> lm_peer x = peer \<and> lm_order x = cmd_order out \<and> lm_mine x \<and>
        (lm_status x \<noteq> 0 \<or> queued (rt_owner rt) (cmd_id out) (cmd_order out) (cn_db c')))"
proof -
  let ?bad = "if txt = [] then ''empty text''
    else if length txt \<ge> CHAT_MSG_LEN then ''text exceeds protocol byte limit'' else []"
  obtain rt0 where sp: "send_prepare E ''send_text'' ?bad (text_intent (rt_owner rt) conv peer txt pinyin initials) rt = (out, rt0)"
    and rt1: "rt1 = send_note out rt0"
    using assms(1) by (auto simp: sendText_def Let_def split: prod.splits)
  have bad: "?bad = []"
    using sp assms(2,3) by (auto simp: send_prepare_def Let_def split: prod.splits if_splits option.splits)
  then obtain c1 m where cd: "commitOutgoingDraft (rn_write E 0) m c = (Some (cmd_order out), c1)" "rt_db rt0 = Some c1"
    and m: "m = (text_intent (rt_owner rt) conv peer txt pinyin initials)\<lparr>lm_id := cmd_id out, lm_order := 0, lm_seq := 0,
        lm_ts := 0, lm_status := 0, lm_mine := True\<rparr>"
    using send_prepare_stores [OF sp [unfolded bad] assms(2,3)] by blast
  let ?m = "m\<lparr>lm_order := cmd_order out\<rparr>"
  have k: "cn_txn c1 = None" "draft_kept ?m (cn_db c1)"
    using commitOutgoingDraft_keeps(1) [OF cd(1) assms(4)] assms(5) by (simp_all add: m text_intent_def)
  have "rt_db rt1 = Some c1" using cd(2) assms(2) by (simp add: rt1 send_note_def wakeOutboxPump_def Let_def)
  then have "safe_in (cn_db c1) (rt_owner rt) (cmd_id out) (cmd_order out) rt1"
    using k evolved_refl [OF refl] by (simp add: safe_in_def draft_kept_def m text_intent_def)
  then have S: "safe_in (cn_db c1) (rt_owner rt) (cmd_id out) (cmd_order out) (rt_run ops rt1)"
    using safe.run [OF assms(6)] by blast
  show ?thesis
  proof (cases "rt_db (rt_run ops rt1)")
    case (Some c')
    then have "draft_kept ?m (cn_db c')" "secured (rt_owner rt) (cmd_id out) (cmd_order out) (cn_db c')"
      using S draft_kept_step [OF k(2), of "cn_db c'"] by (simp_all add: safe_in_def m text_intent_def)
    then show ?thesis
      using Some unfolding draft_kept_def secured_def settled_def grown_def
      by (auto simp: m text_intent_def)
  qed simp
qed

definition demo_runtime :: runtime where
  "demo_runtime = rt_run [(demo_env, RtSetDatabase (Some (7, demo_conn, []))), (demo_env, RtAttach),
     (demo_env, RtStart False), (demo_env, RtAuth True)] (new_runtime 7 1 4 5000)"

definition demo_conn1 :: cconn where
  "demo_conn1 = the (rt_db demo_runtime)"

lemma accepted_text_kept_witness:
  "rt_db (rt_run [(demo_env, RtPump), (demo_env, RtStop)] (snd (sendText demo_env 9 9 ''hi'' [] [] demo_runtime))) = None \<or>
   (\<exists>c' x. rt_db (rt_run [(demo_env, RtPump), (demo_env, RtStop)] (snd (sendText demo_env 9 9 ''hi'' [] [] demo_runtime))) = Some c' \<and>
      local_of 7 ''m1'' (cn_db c') = Some x \<and> lm_content x = ''hi'')"
proof -
  let ?s = "sendText demo_env 9 9 ''hi'' [] [] demo_runtime"
  have "cmd_accepted (fst ?s)" "cmd_id (fst ?s) = ''m1''" "rt_owner demo_runtime = 7" by code_simp+
  moreover have "rt_db demo_runtime \<noteq> None" "cn_txn demo_conn1 = None" "local_of 7 ''m1'' (cn_db demo_conn1) = None"
    by code_simp+
  moreover have "rt_db demo_runtime = Some demo_conn1" using calculation(4) by (auto simp: demo_conn1_def)
  ultimately show ?thesis
    using accepted_text_kept [of demo_env 9 9 "''hi''" "[]" "[]" demo_runtime "fst ?s" "snd ?s" demo_conn1
        "[(demo_env, RtPump), (demo_env, RtStop)]"] by auto
qed

section \<open>Two shortcomings\<close>

lemma early_ack: "rt_inflight rt (ca_id a) = Some (0, i) \<Longrightarrow> handleChatAck E a rt = rt"
  by (simp add: handleChatAck_def split: option.split)

text \<open>
  C40: an acknowledgement can be missed. When the outbox pump sends a draft after \<open>send_prepare\<close> has
  stored it and before \<open>send_note\<close> runs, the attempt the pump noted is overwritten with 0; from then on
  an acknowledgement of the message, with any result, changes nothing, until the pump sends the
  message again after its lease of 30 seconds.
\<close>

theorem early_ack_is_dropped:
  assumes "cmd_accepted out" and "ca_id a = cmd_id out"
  shows "handleChatAck E a (send_note out (pump_round E' rt)) = send_note out (pump_round E' rt)"
proof -
  have "rt_inflight (announce_chat gen r) = rt_inflight r" for gen r
    by (simp add: announcing_defs announce_chat_def Let_def emit_def split_def)
  then have "rt_inflight (send_note out r) (ca_id a) = Some (0, cmd_op out)" for r
    using assms by (simp add: send_note_def Let_def wakeOutboxPump_def)
  then show ?thesis by (rule early_ack)
qed

definition demo_ack :: chat_ack where
  "demo_ack = \<lparr>ca_peer = 9, ca_seq = 1, ca_result = 0, ca_id = ''m1''\<rparr>"

definition demo_prepared :: "command \<times> runtime" where
  "demo_prepared = send_prepare demo_env ''send_text'' [] (text_intent 7 9 9 ''hi'' [] []) demo_runtime"

text \<open>In the run the message was sent, and its only acknowledgement leaves it without a status.\<close>

lemma early_ack_is_dropped_witness:
  "length (filter (\<lambda>x. case x of OutChat _ \<Rightarrow> True | _ \<Rightarrow> False) (rt_out (pump_round demo_env (snd demo_prepared)))) = 1 \<and>
   map_option (\<lambda>c. map lm_status (cd_messages (cn_db c)))
     (rt_db (handleChatAck demo_env demo_ack
        (send_note (fst demo_prepared) (pump_round demo_env (snd demo_prepared))))) = Some [0]"
proof -
  have "cmd_accepted (fst demo_prepared)" "ca_id demo_ack = cmd_id (fst demo_prepared)" by code_simp+
  from early_ack_is_dropped [OF this]
  have "handleChatAck demo_env demo_ack (send_note (fst demo_prepared) (pump_round demo_env (snd demo_prepared))) =
      send_note (fst demo_prepared) (pump_round demo_env (snd demo_prepared))" .
  moreover have "map_option (\<lambda>c. map lm_status (cd_messages (cn_db c)))
      (rt_db (send_note (fst demo_prepared) (pump_round demo_env (snd demo_prepared)))) = Some [0]" by code_simp
  moreover have "length (filter (\<lambda>x. case x of OutChat _ \<Rightarrow> True | _ \<Rightarrow> False)
      (rt_out (pump_round demo_env (snd demo_prepared)))) = 1" by code_simp
  ultimately show ?thesis by simp
qed

lemma failGap_out [simp]: "rt_out (failGap E conv rt) = rt_out rt"
  by (simp add: failGap_def armGapTimer_def Let_def split: prod.split)

lemma outstanding_blocks: "conv \<in> set (rt_gapInFlight rt) \<Longrightarrow> rt_out (maybeRequestGap E conv rt) = rt_out rt"
  by (auto simp: maybeRequestGap_def ask_for_gap_def armGapTimer_def Let_def split: prod.split list.split)

text \<open>
  A request for missing messages that is outstanding when the runtime is stopped blocks the
  conversation. Stopping clears the timer of the request but not the mark that one is outstanding; after
  the restart no timer is left that would drop the mark, and asking again for the conversation, on
  whatever occasion, sends nothing.
\<close>

theorem outstanding_gap_blocks_after_restart:
  assumes "conv \<in> set (rt_gapInFlight rt)" and "rt_phase rt = RtRunning" and "rt' = snd (rt_start busy (rt_stop E rt))"
  shows "rt_gapTimers rt' conv = None \<and> conv \<in> set (rt_gapInFlight rt') \<and>
     rt_out (maybeRequestGap E' conv (rt'\<lparr>rt_auth := on\<rparr>)) = rt_out rt'"
proof -
  have "rt_gapTimers rt' conv = None \<and> conv \<in> set (rt_gapInFlight rt')"
    using assms by (simp add: rt_stop_def stopControlled_def rt_start_def)
  then show ?thesis using outstanding_blocks [of conv "rt'\<lparr>rt_auth := on\<rparr>" E'] by simp
qed

text \<open>The messages 2 to 4 of a conversation are asked for.\<close>

definition demo_gap :: runtime where
  "demo_gap = ask_for_gap demo_env 9 \<lparr>gfrom = 2, gto = 4, gattempt = 0, gretry = 0\<rparr> demo_runtime"

lemma outstanding_gap_blocks_after_restart_witness:
  "OutRoam 9 5 3 \<in> set (rt_out demo_gap) \<and>
   rt_out (maybeRequestGap demo_env 9 ((snd (rt_start False (rt_stop demo_env demo_gap)))\<lparr>rt_auth := True\<rparr>)) =
     rt_out (snd (rt_start False (rt_stop demo_env demo_gap)))"
proof -
  have "OutRoam 9 5 3 \<in> set (rt_out demo_gap)" by code_simp
  moreover have "9 \<in> set (rt_gapInFlight demo_gap)" "rt_phase demo_gap = RtRunning" by code_simp+
  ultimately show ?thesis
    using outstanding_gap_blocks_after_restart [of 9 demo_gap _ False demo_env demo_env True] by simp
qed

end
