(* ===== verification/Announcements.thy ===== *)
theory Announcements
  imports RuntimeProperties "HOL-Library.Multiset"
begin

text \<open>
  Change notices of the client runtime under any interleaving of its threads. A handler takes a
  version from the atomic counter, publishes it under the mutex and calls the event sink after the
  mutex is released (\<^verbatim>\<open>ClientRuntime.cpp\<close>, \<open>publishInvalidation\<close> and its callers); between two of
  these parts any other thread may do anything. The parts are the definitions \<open>claim_version\<close>,
  \<open>publish_locked\<close> and \<open>tell_sink\<close> that \<open>announce\<close> is composed of.
\<close>

section \<open>Interleavings\<close>

text \<open>What is claimed, published or refused, and read by the observer, in the order of time.\<close>

datatype note_event =
    Claimed domain int
  | Granted domain int int
  | Refused domain int int
  | Caught domain int

record race =
  rc_rt :: runtime
  rc_open :: "(domain \<times> int \<times> int) list"
  rc_telling :: "(domain \<times> int \<times> int) list"
  rc_log :: "note_event list"

definition new_race :: "runtime \<Rightarrow> race" where
  "new_race rt = \<lparr>rc_rt = rt, rc_open = [], rc_telling = [], rc_log = []\<rparr>"

fun catches_up :: "rt_op \<Rightarrow> bool" where
  "catches_up (RtCatchUp area) = True"
| "catches_up _ = False"

text \<open>
  The generation a handler announces for was read before or when it takes the version. \<open>Rest\<close> is
  whatever a handler does before, between and after these parts, \<open>Whole\<close> an operation that nothing
  interrupts; \<open>Catch_up\<close> is the observer's \<open>consumeInvalidation\<close>.
\<close>

inductive race_step :: "race \<Rightarrow> race \<Rightarrow> bool" where
  Claim: "gen \<le> rt_generation (rc_rt s) \<Longrightarrow> claim_version (rc_rt s) = (v, rt) \<Longrightarrow>
    race_step s (s\<lparr>rc_rt := rt, rc_open := (area, v, gen) # rc_open s, rc_log := rc_log s @ [Claimed area v]\<rparr>)"
| Publish: "(area, v, gen) \<in> set (rc_open s) \<Longrightarrow> publish_locked area v gen (rc_rt s) = (b, rt) \<Longrightarrow>
    race_step s (s\<lparr>rc_rt := rt, rc_open := remove1 (area, v, gen) (rc_open s),
      rc_telling := (if b then (area, v, gen) # rc_telling s else rc_telling s),
      rc_log := rc_log s @ [if b then Granted area v gen else Refused area v gen]\<rparr>)"
| Tell: "(area, v, gen) \<in> set (rc_telling s) \<Longrightarrow>
    race_step s (s\<lparr>rc_rt := tell_sink area v gen (rc_rt s), rc_telling := remove1 (area, v, gen) (rc_telling s)\<rparr>)"
| Catch_up: "consumeInvalidation area (rc_rt s) = (w, rt) \<Longrightarrow>
    race_step s (s\<lparr>rc_rt := rt, rc_log := rc_log s @ [Caught area w]\<rparr>)"
| Whole: "\<not> catches_up op \<Longrightarrow> race_step s (s\<lparr>rc_rt := rt_step E op (rc_rt s)\<rparr>)"
| Rest: "loud rt = loud (rc_rt s) \<or> (\<exists>c w op. rt_db (rc_rt s) = Some c \<and> rt = (rc_rt s)\<lparr>rt_db := Some (store_step w op c)\<rparr>) \<Longrightarrow>
    race_step s (s\<lparr>rc_rt := rt\<rparr>)"

inductive race_run :: "race \<Rightarrow> race \<Rightarrow> bool" for s where
  Start: "race_run s s"
| Then: "race_run s s' \<Longrightarrow> race_step s' s'' \<Longrightarrow> race_run s s''"

inductive_cases race_stepE: "race_step s s'"

section \<open>What stays true\<close>

text \<open>The versions the sink was told, with their generations.\<close>

definition notices :: "rt_out list \<Rightarrow> (int \<times> int) list" where
  "notices xs = concat (map (\<lambda>x. case x of OutInvalidated a v g ow \<Rightarrow> [(v, g)] | _ \<Rightarrow> []) xs)"

lemma notices_simps [simp]:
  "notices [] = []" "notices (xs @ ys) = notices xs @ notices ys"
  "notices [OutCompleted r g ow] = []" "is_packet x \<Longrightarrow> notices [x] = []"
  "notices [OutInvalidated a v g ow] = [(v, g)]"
  by (auto simp: notices_def split: rt_out.splits)

abbreviation "versions \<equiv> map (\<lambda>(a :: domain, v :: int, g :: int). v)"

text \<open>
  The runtime's part of the invariant, for the versions \<open>P\<close> under way, the announcements \<open>L\<close> that
  were published or refused, and what \<open>W\<close> the observer may have read last.
\<close>

definition notes_ok :: "int list \<Rightarrow> (domain \<times> int \<times> int) set \<Rightarrow> (domain \<times> int) set \<Rightarrow> runtime \<Rightarrow> bool" where
  "notes_ok P L W rt \<longleftrightarrow>
     0 \<le> rt_version rt \<and>
     (\<forall>a. or_zero (ib_current (rt_bus rt) a) \<le> rt_version rt) \<and>
     distinct (map fst (notices (rt_out rt)) @ P) \<and>
     (\<forall>v \<in> fst ` set (notices (rt_out rt)) \<union> set P. v \<le> rt_version rt) \<and>
     (\<forall>(a, v, g) \<in> L. g \<le> rt_generation rt \<and>
        (rt_phase rt = RtRunning \<and> g = rt_generation rt \<longrightarrow> v \<le> or_zero (ib_current (rt_bus rt) a))) \<and>
     (\<forall>a w. ib_consumed (rt_bus rt) a = Some w \<longrightarrow> w \<le> rt_version rt \<and> (a, w) \<in> W)"

lemma notes_quiet:
  assumes "notices (rt_out rt') = notices (rt_out rt)" "rt_version rt' = rt_version rt"
    and "rt_generation rt' = rt_generation rt \<and> (rt_phase rt' = RtRunning \<longrightarrow> rt_phase rt = RtRunning \<and> rt_bus rt' = rt_bus rt)
         \<or> rt_generation rt < rt_generation rt'"
    and "rt_bus rt' = rt_bus rt \<or> rt_bus rt' = no_bus" and "notes_ok P L W rt"
  shows "notes_ok P L W rt'"
  using assms by (fastforce simp: notes_ok_def no_bus_def or_zero_def)

lemma notes_okD:
  assumes "notes_ok P L W rt"
  shows "or_zero (ib_current (rt_bus rt) a) \<le> rt_version rt"
    and "v \<in> fst ` set (notices (rt_out rt)) \<union> set P \<Longrightarrow> v \<le> rt_version rt"
    and "(a, v, g) \<in> L \<Longrightarrow> g \<le> rt_generation rt"
    and "(a, v, g) \<in> L \<Longrightarrow> rt_phase rt = RtRunning \<Longrightarrow> g = rt_generation rt \<Longrightarrow> v \<le> or_zero (ib_current (rt_bus rt) a)"
    and "ib_consumed (rt_bus rt) a = Some w \<Longrightarrow> w \<le> rt_version rt \<and> (a, w) \<in> W"
    and "0 \<le> rt_version rt" and "distinct (map fst (notices (rt_out rt)) @ P)"
  using assms unfolding notes_ok_def by blast+

lemma notes_okI:
  assumes "0 \<le> rt_version rt" and "distinct (map fst (notices (rt_out rt)) @ P)"
    and "\<And>a. or_zero (ib_current (rt_bus rt) a) \<le> rt_version rt"
    and "\<And>v. v \<in> fst ` set (notices (rt_out rt)) \<union> set P \<Longrightarrow> v \<le> rt_version rt"
    and "\<And>a v g. (a, v, g) \<in> L \<Longrightarrow> g \<le> rt_generation rt \<and>
        (rt_phase rt = RtRunning \<and> g = rt_generation rt \<longrightarrow> v \<le> or_zero (ib_current (rt_bus rt) a))"
    and "\<And>a w. ib_consumed (rt_bus rt) a = Some w \<Longrightarrow> w \<le> rt_version rt \<and> (a, w) \<in> W"
  shows "notes_ok P L W rt"
  using assms unfolding notes_ok_def by blast

lemma or_zero_Some [simp]: "or_zero (Some x) = x"
  by (simp add: or_zero_def)

lemma version_new:
  assumes "notes_ok P L W rt"
  shows "rt_version rt + 1 \<notin> fst ` set (notices (rt_out rt)) \<union> set P"
    and "v \<in> fst ` set (notices (rt_out rt)) \<union> set P \<Longrightarrow> v \<le> rt_version rt + 1"
  using notes_okD(2) [OF assms, of "rt_version rt + 1"] notes_okD(2) [OF assms, of v] by linarith+

text \<open>A version that is published is one of those under way; its announcement is then ended.\<close>

lemma notes_granted:
  assumes N: "notes_ok P L W rt" and new: "or_zero (ib_current (rt_bus rt) area) < v" "v \<le> rt_version rt"
    and rt': "rt' = rt\<lparr>rt_bus := (rt_bus rt)\<lparr>ib_current := (ib_current (rt_bus rt))(area \<mapsto> v)\<rparr>\<rparr>"
  shows "notes_ok P (insert (area, v, rt_generation rt) L) W rt'"
proof (rule notes_okI)
  note D = notes_okD [OF N]
  show "or_zero (ib_current (rt_bus rt') a) \<le> rt_version rt'" for a
    using D(1) [of a] new(2) by (simp add: rt' fun_upd_apply)
  show "g \<le> rt_generation rt' \<and> (rt_phase rt' = RtRunning \<and> g = rt_generation rt' \<longrightarrow> x \<le> or_zero (ib_current (rt_bus rt') a))"
    if "(a, x, g) \<in> insert (area, v, rt_generation rt) L" for a x g
    using that D(3,4) [of a x g] new(1) by (auto simp: rt' fun_upd_apply)
qed (use notes_okD [OF N] in \<open>simp_all add: rt'\<close>)

lemma notes_claimed:
  assumes N: "notes_ok P L W rt" and "\<And>a w. (a, w) \<in> W \<Longrightarrow> w < rt_version rt + 1 \<Longrightarrow> (a, w) \<in> W'"
  shows "notes_ok ((rt_version rt + 1) # P) L W' (rt\<lparr>rt_version := rt_version rt + 1\<rparr>)" (is "notes_ok _ _ _ ?rt")
proof (rule notes_okI)
  note D = notes_okD [OF N]
  show "or_zero (ib_current (rt_bus ?rt) a) \<le> rt_version ?rt" for a using D(1) [of a] by simp
  show "distinct (map fst (notices (rt_out ?rt)) @ (rt_version rt + 1) # P)" using D(7) version_new(1) [OF N] by simp
  show "v \<le> rt_version ?rt" if "v \<in> fst ` set (notices (rt_out ?rt)) \<union> set ((rt_version rt + 1) # P)" for v
    using that version_new(2) [OF N, of v] by auto
  show "w \<le> rt_version ?rt \<and> (a, w) \<in> W'" if "ib_consumed (rt_bus ?rt) a = Some w" for a w
    using that D(5) [of a w] assms(2) [of a w] by auto
  show "g \<le> rt_generation ?rt \<and> (rt_phase ?rt = RtRunning \<and> g = rt_generation ?rt \<longrightarrow> v \<le> or_zero (ib_current (rt_bus ?rt) a))"
    if "(a, v, g) \<in> L" for a v g using D(3,4) [OF that] by simp
qed (use notes_okD(6) [OF N] in simp)

lemma notes_tell:
  assumes N: "notes_ok (v # P) L W rt"
  shows "notes_ok P L W (tell_sink area v gen rt)" (is "notes_ok _ _ _ ?rt")
proof (rule notes_okI)
  note D = notes_okD [OF N]
  have n: "notices (rt_out ?rt) = notices (rt_out rt) @ [(v, gen)]" by (simp add: tell_sink_def emit_def)
  have same: "rt_version ?rt = rt_version rt" "rt_bus ?rt = rt_bus rt" "rt_generation ?rt = rt_generation rt"
      "rt_phase ?rt = rt_phase rt" by (simp_all add: tell_sink_def emit_def)
  show "distinct (map fst (notices (rt_out ?rt)) @ P)" using D(7) by (auto simp: n)
  show "x \<le> rt_version ?rt" if "x \<in> fst ` set (notices (rt_out ?rt)) \<union> set P" for x
    using that D(2) [of x] by (auto simp: n same)
  show "g \<le> rt_generation ?rt \<and> (rt_phase ?rt = RtRunning \<and> g = rt_generation ?rt \<longrightarrow> x \<le> or_zero (ib_current (rt_bus ?rt) a))"
    if "(a, x, g) \<in> L" for a x g using D(3,4) [OF that] by (simp add: same)
qed (use notes_okD [OF N] in \<open>simp_all add: tell_sink_def emit_def\<close>)

lemma notes_fewer_ended: "notes_ok P L W rt \<Longrightarrow> L' \<subseteq> L \<Longrightarrow> notes_ok P L' W rt"
  unfolding notes_ok_def by blast

lemma notes_drop: "notes_ok (v # P) L W rt \<Longrightarrow> notes_ok P L W rt"
  by (auto simp: notes_ok_def)

lemma notes_announce:
  assumes N: "notes_ok P L W rt"
  shows "notes_ok P L W (announce area gen rt)"
proof -
  have c: "notes_ok ((rt_version rt + 1) # P) L W (rt\<lparr>rt_version := rt_version rt + 1\<rparr>)" (is "notes_ok _ _ _ ?rt")
    by (rule notes_claimed [OF N]) simp
  show ?thesis
  proof (cases "rt_phase rt = RtRunning \<and> gen = rt_generation rt")
    case True
    let ?rt' = "?rt\<lparr>rt_bus := (rt_bus ?rt)\<lparr>ib_current := (ib_current (rt_bus ?rt))(area \<mapsto> rt_version rt + 1)\<rparr>\<rparr>"
    have new: "or_zero (ib_current (rt_bus ?rt) area) < rt_version rt + 1" using notes_okD(1) [OF N, of area] by simp
    have "notes_ok ((rt_version rt + 1) # P) L W ?rt'"
      by (rule notes_fewer_ended [OF notes_granted [OF c new _ refl]]) auto
    then show ?thesis
      using notes_tell [of "rt_version rt + 1" P L W ?rt' area gen] True new
      by (simp add: announcing_defs Let_def ib_publish_def)
  next
    case False
    then have "announce area gen rt = ?rt" by (auto simp: announcing_defs Let_def)
    then show ?thesis using notes_drop [OF c] by simp
  qed
qed

interpretation noting: runtime_law "notes_ok P L W" "\<lambda>op. \<not> catches_up op" for P L W
proof unfold_locales
  show "notes_ok P L W rt'" if "loud rt' = loud rt" "notes_ok P L W rt" for rt' rt
    using that by (simp add: loud_def notes_ok_def)
  show "notes_ok P L W (emit x rt)" if "is_packet x" "notes_ok P L W rt" for x rt
    by (rule notes_quiet [OF _ _ _ _ that(2)]) (simp_all add: emit_def that(1))
  show "notes_ok P L W (snd (nextOperationId dm rt))" if "notes_ok P L W rt" for dm rt
    by (rule notes_quiet [OF _ _ _ _ that]) (simp_all add: nextOperationId_def Let_def)
  show "notes_ok P L W (snd (completeOperation E i res err rt))" if "notes_ok P L W rt" for E i res err rt
    by (rule notes_quiet [OF _ _ _ _ that])
      (simp_all add: completeOperation_def Let_def emit_def split: prod.split option.split)
  show "notes_ok P L W (snd (consumeOperation i rt))" if "notes_ok P L W rt" for i rt
    by (rule notes_quiet [OF _ _ _ _ that]) (simp_all add: consumeOperation_def Let_def split: prod.split)
  show "notes_ok P L W (rt\<lparr>rt_db := Some (store_step w op c)\<rparr>)" if "notes_ok P L W rt" for rt w op c
    by (rule notes_quiet [OF _ _ _ _ that]) simp_all
  show "notes_ok P L W (snd (setDatabase db rt))" if "notes_ok P L W rt" for db rt
    by (rule notes_quiet [OF _ _ _ _ that]) (simp_all add: setDatabase_def split: option.split)
  show "notes_ok P L W (snd (rt_start busy rt))" if "notes_ok P L W rt" for busy rt
    by (rule notes_quiet [OF _ _ _ _ that]) (simp_all add: rt_start_def)
  show "notes_ok P L W (forget_account rt)" if "notes_ok P L W rt" for rt
    by (rule notes_quiet [OF _ _ _ _ that]) (simp_all add: forget_account_def)
  show "notes_ok P L W (rt\<lparr>rt_generation := rt_generation rt + 1, rt_bus := no_bus\<rparr>)" if "notes_ok P L W rt" for rt
    by (rule notes_quiet [OF _ _ _ _ that]) simp_all
  show "notes_ok P L W (stopControlled E rt)" if "notes_ok P L W rt" for E rt
    by (rule notes_quiet [OF _ _ _ _ that]) (simp_all add: stopControlled_def)
  show "notes_ok P L W (rt_destroy E rt)" if "notes_ok P L W rt" for E rt
    by (rule notes_quiet [OF _ _ _ _ that]) (simp_all add: rt_destroy_def forget_account_def)
qed (use notes_announce in auto)

text \<open>What never goes back.\<close>

definition further :: "runtime \<Rightarrow> runtime \<Rightarrow> bool" where
  "further rt0 rt \<longleftrightarrow> rt_version rt0 \<le> rt_version rt \<and> rt_generation rt0 \<le> rt_generation rt \<and>
     set (notices (rt_out rt0)) \<subseteq> set (notices (rt_out rt))"

lemma further_quiet:
  assumes "set (notices (rt_out rt)) \<subseteq> set (notices (rt_out rt'))" "rt_version rt \<le> rt_version rt'"
    "rt_generation rt \<le> rt_generation rt'" and "further rt0 rt"
  shows "further rt0 rt'"
  using assms by (auto simp: further_def)

interpretation advancing: runtime_law "further rt0" "\<lambda>_. True" for rt0
proof unfold_locales
  show "further rt0 (announce area gen rt)" if "further rt0 rt" for area gen rt
    by (rule further_quiet [OF _ _ _ that]) (auto simp: announcing_defs emit_def Let_def split_def)
  show "further rt0 (snd (completeOperation E i res err rt))" if "further rt0 rt" for E i res err rt
    by (rule further_quiet [OF _ _ _ that])
      (simp_all add: completeOperation_def Let_def emit_def split: prod.split option.split)
  show "further rt0 (snd (setDatabase db rt))" if "further rt0 rt" for db rt
    by (rule further_quiet [OF _ _ _ that]) (simp_all add: setDatabase_def split: option.split)
qed (erule further_quiet [rotated 3]; simp add: loud_def emit_def consumeInvalidation_def nextOperationId_def
      consumeOperation_def rt_start_def stopControlled_def forget_account_def rt_destroy_def Let_def split_def)+

section \<open>The invariant of the interleavings\<close>

text \<open>The announcements that were accepted, in order; those that were accepted or refused; and the
  versions the observer has read with only later versions claimed since.\<close>

definition granted :: "note_event list \<Rightarrow> (domain \<times> int \<times> int) list" where
  "granted xs = concat (map (\<lambda>x. case x of Granted a v g \<Rightarrow> [(a, v, g)] | _ \<Rightarrow> []) xs)"

definition ended :: "note_event list \<Rightarrow> (domain \<times> int \<times> int) set" where
  "ended xs = {(a, v, g). Granted a v g \<in> set xs \<or> Refused a v g \<in> set xs}"

definition read_last :: "note_event list \<Rightarrow> (domain \<times> int) set" where
  "read_last xs = {(a, w). \<exists>ys zs. xs = ys @ Caught a w # zs \<and> (\<forall>b v. Claimed b v \<in> set zs \<longrightarrow> w < v)}"

definition accepted_before :: "domain \<times> int \<times> int \<Rightarrow> domain \<times> int \<times> int \<Rightarrow> bool" where
  "accepted_before = (\<lambda>(a, v, g) (a', v', g'). g \<le> g' \<and> (a = a' \<and> g = g' \<longrightarrow> v < v'))"

lemma granted_simps [simp]:
  "granted [] = []" "granted (xs @ ys) = granted xs @ granted ys" "granted [Claimed a v] = []"
  "granted [Granted a v g] = [(a, v, g)]" "granted [Refused a v g] = []" "granted [Caught a w] = []"
  by (simp_all add: granted_def)

lemma ended_simps [simp]:
  "ended [] = {}" "ended (xs @ ys) = ended xs \<union> ended ys" "ended [Claimed a v] = {}"
  "ended [Granted a v g] = {(a, v, g)}" "ended [Refused a v g] = {(a, v, g)}" "ended [Caught a w] = {}"
  by (auto simp: ended_def)

lemma granted_ended: "x \<in> set (granted xs) \<Longrightarrow> x \<in> ended xs"
  by (force simp: granted_def ended_def split: note_event.splits)

lemma in_granted: "(a, v, g) \<in> set (granted xs) \<longleftrightarrow> Granted a v g \<in> set xs"
  by (force simp: granted_def split: note_event.splits)

lemma read_grows:
  assumes "(a, w) \<in> read_last xs" and "\<And>b v. Claimed b v \<in> set ys \<Longrightarrow> w < v"
  shows "(a, w) \<in> read_last (xs @ ys)"
proof -
  obtain us zs where "xs = us @ Caught a w # zs" "\<forall>b v. Claimed b v \<in> set zs \<longrightarrow> w < v"
    using assms(1) by (auto simp: read_last_def)
  then have "xs @ ys = us @ Caught a w # (zs @ ys) \<and> (\<forall>b v. Claimed b v \<in> set (zs @ ys) \<longrightarrow> w < v)"
    using assms(2) by auto
  then show ?thesis unfolding read_last_def by blast
qed

lemma read_now: "(a, w) \<in> read_last (xs @ [Caught a w])"
  unfolding read_last_def by force

definition race_ok :: "race \<Rightarrow> bool" where
  "race_ok s \<longleftrightarrow>
     notes_ok (versions (rc_open s) @ versions (rc_telling s)) (ended (rc_log s)) (read_last (rc_log s)) (rc_rt s) \<and>
     (\<forall>(a, v, g) \<in> set (rc_open s). g \<le> rt_generation (rc_rt s) \<and> Claimed a v \<in> set (rc_log s)) \<and>
     (\<forall>(a, v, g) \<in> ended (rc_log s). Claimed a v \<in> set (rc_log s)) \<and>
     (\<forall>a v. Claimed a v \<in> set (rc_log s) \<longrightarrow> 0 < v \<and> v \<le> rt_version (rc_rt s)) \<and>
     sorted_wrt accepted_before (granted (rc_log s)) \<and>
     (\<forall>(a, v, g) \<in> set (granted (rc_log s)). (a, v, g) \<in> set (rc_telling s) \<or> (v, g) \<in> set (notices (rt_out (rc_rt s))))"

lemma race_okI:
  assumes "notes_ok (versions (rc_open s) @ versions (rc_telling s)) (ended (rc_log s)) (read_last (rc_log s)) (rc_rt s)"
    and "\<And>a v g. (a, v, g) \<in> set (rc_open s) \<Longrightarrow> g \<le> rt_generation (rc_rt s) \<and> Claimed a v \<in> set (rc_log s)"
    and "\<And>a v g. (a, v, g) \<in> ended (rc_log s) \<Longrightarrow> Claimed a v \<in> set (rc_log s)"
    and "\<And>a v. Claimed a v \<in> set (rc_log s) \<Longrightarrow> 0 < v \<and> v \<le> rt_version (rc_rt s)"
    and "sorted_wrt accepted_before (granted (rc_log s))"
    and "\<And>a v g. (a, v, g) \<in> set (granted (rc_log s)) \<Longrightarrow>
        (a, v, g) \<in> set (rc_telling s) \<or> (v, g) \<in> set (notices (rt_out (rc_rt s)))"
  shows "race_ok s"
  using assms unfolding race_ok_def by blast

lemma race_okD:
  assumes "race_ok s"
  shows "notes_ok (versions (rc_open s) @ versions (rc_telling s)) (ended (rc_log s)) (read_last (rc_log s)) (rc_rt s)"
    and "(a, v, g) \<in> set (rc_open s) \<Longrightarrow> g \<le> rt_generation (rc_rt s) \<and> Claimed a v \<in> set (rc_log s)"
    and "(a, v, g) \<in> ended (rc_log s) \<Longrightarrow> Claimed a v \<in> set (rc_log s)"
    and "Claimed a v \<in> set (rc_log s) \<Longrightarrow> 0 < v \<and> v \<le> rt_version (rc_rt s)"
    and "sorted_wrt accepted_before (granted (rc_log s))"
    and "(a, v, g) \<in> set (granted (rc_log s)) \<Longrightarrow>
        (a, v, g) \<in> set (rc_telling s) \<or> (v, g) \<in> set (notices (rt_out (rc_rt s)))"
  using assms unfolding race_ok_def by blast+

lemma mset_remove1: "x \<in> set xs \<Longrightarrow> mset (map f xs) = add_mset (f x) (mset (map f (remove1 x xs)))"
  by (induction xs) auto

lemma distinct_fewer:
  assumes "mset ys \<subseteq># mset xs" and "distinct xs"
  shows "distinct ys"
proof -
  have "count (mset ys) a = (if a \<in> set ys then 1 else 0)" for a
  proof -
    have "count (mset xs) a \<le> 1" using assms(2) by (simp add: distinct_count_atmost_1)
    then have "count (mset ys) a \<le> 1" using mset_subset_eq_count [OF assms(1), of a] by linarith
    then show ?thesis by (cases "a \<in> set ys") (auto simp: le_Suc_eq count_eq_zero_iff)
  qed
  then show ?thesis by (simp add: distinct_count_atmost_1)
qed

lemma notes_fewer:
  assumes "mset Q \<subseteq># mset P" and "notes_ok P L W rt"
  shows "notes_ok Q L W rt"
proof -
  have "set Q \<subseteq> set P" using set_mset_mono [OF assms(1)] by simp
  moreover have "distinct Q" using distinct_fewer [OF assms(1)] assms(2) by (simp add: notes_ok_def)
  ultimately show ?thesis using assms(2) by (auto simp: notes_ok_def)
qed

lemma notes_more_read:
  "notes_ok P L W rt \<Longrightarrow> (\<And>a w. (a, w) \<in> W \<Longrightarrow> (a, w) \<in> W') \<Longrightarrow> notes_ok P L W' rt"
  unfolding notes_ok_def by blast

lemma race_kept:
  assumes ok: "race_ok s" and "\<And>P L W. notes_ok P L W (rc_rt s) \<Longrightarrow> notes_ok P L W rt" and f: "further (rc_rt s) rt"
  shows "race_ok (s\<lparr>rc_rt := rt\<rparr>)" (is "race_ok ?s")
proof (rule race_okI)
  note D = race_okD [OF ok]
  show "notes_ok (versions (rc_open ?s) @ versions (rc_telling ?s)) (ended (rc_log ?s)) (read_last (rc_log ?s)) (rc_rt ?s)"
    using D(1) assms(2) by simp
  show "g \<le> rt_generation (rc_rt ?s) \<and> Claimed a v \<in> set (rc_log ?s)" if "(a, v, g) \<in> set (rc_open ?s)" for a v g
    using D(2) [of a v g] that f by (simp add: further_def)
  show "0 < v \<and> v \<le> rt_version (rc_rt ?s)" if "Claimed a v \<in> set (rc_log ?s)" for a v
    using D(4) [of a v] that f by (simp add: further_def)
  show "(a, v, g) \<in> set (rc_telling ?s) \<or> (v, g) \<in> set (notices (rt_out (rc_rt ?s)))"
    if "(a, v, g) \<in> set (granted (rc_log ?s))" for a v g
    using D(6) [of a v g] that f by (auto simp: further_def)
qed (use race_okD [OF ok] in simp_all)

lemma publish_locked_cases:
  assumes "publish_locked area v gen rt = (b, rt')"
  obtains "b" "rt_phase rt = RtRunning" "gen = rt_generation rt" "or_zero (ib_current (rt_bus rt) area) < v"
      "rt' = rt\<lparr>rt_bus := (rt_bus rt)\<lparr>ib_current := (ib_current (rt_bus rt))(area \<mapsto> v)\<rparr>\<rparr>"
    | "\<not> b" "rt' = rt"
      "rt_phase rt = RtRunning \<and> gen = rt_generation rt \<longrightarrow> v \<le> or_zero (ib_current (rt_bus rt) area)"
proof (cases "rt_phase rt = RtRunning \<and> gen = rt_generation rt \<and> or_zero (ib_current (rt_bus rt) area) < v")
  case True
  then show ?thesis using assms that(1) by (auto simp: publish_locked_def ib_publish_def)
next
  case False
  then have "\<not> b \<and> rt' = rt" using assms by (auto simp: publish_locked_def ib_publish_def split: if_splits)
  then show ?thesis using False that(2) by auto
qed

lemma notes_publish:
  assumes "notes_ok P L W rt" and "publish_locked area v gen rt = (b, rt')" and "v \<in> set P" and "gen \<le> rt_generation rt"
  shows "notes_ok P (insert (area, v, gen) L) W rt'"
  using assms(2)
proof (cases rule: publish_locked_cases)
  case 1
  then show ?thesis using notes_granted [OF assms(1) 1(4) _ 1(5)] notes_okD(2) [OF assms(1), of v] assms(3) by simp
next
  case 2
  then show ?thesis using assms(1,4) unfolding notes_ok_def 2(2) by auto
qed

lemma notes_consume:
  assumes "notes_ok P L W rt" and "consumeInvalidation area rt = (w, rt')"
    and "W \<subseteq> W'" and "(area, w) \<in> W'"
  shows "notes_ok P L W' rt'"
proof -
  have "rt' = rt \<or> rt' = rt\<lparr>rt_bus := (rt_bus rt)\<lparr>ib_consumed := (ib_consumed (rt_bus rt))(area \<mapsto> w)\<rparr>\<rparr> \<and>
      ib_current (rt_bus rt) area = Some w"
    using assms(2) by (auto simp: consumeInvalidation_def ib_consume_def Let_def split: option.splits if_splits)
  then show ?thesis
  proof
    assume "rt' = rt"
    then show ?thesis using assms(1,3) by (fastforce simp: notes_ok_def)
  next
    assume r: "rt' = rt\<lparr>rt_bus := (rt_bus rt)\<lparr>ib_consumed := (ib_consumed (rt_bus rt))(area \<mapsto> w)\<rparr>\<rparr> \<and>
      ib_current (rt_bus rt) area = Some w"
    then have "or_zero (Some w) \<le> rt_version rt" using assms(1) by (metis notes_ok_def)
    then have "w \<le> rt_version rt" by (simp add: or_zero_def)
    then show ?thesis using assms(1,3,4) r by (auto simp: notes_ok_def)
  qed
qed

lemma race_claim:
  assumes ok: "race_ok s" and g: "gen \<le> rt_generation (rc_rt s)" and c: "claim_version (rc_rt s) = (v, rt)"
  shows "race_ok (s\<lparr>rc_rt := rt, rc_open := (area, v, gen) # rc_open s, rc_log := rc_log s @ [Claimed area v]\<rparr>)"
    (is "race_ok ?s")
proof (rule race_okI)
  note D = race_okD [OF ok]
  have v: "v = rt_version (rc_rt s) + 1" "rt = (rc_rt s)\<lparr>rt_version := rt_version (rc_rt s) + 1\<rparr>"
    using c by (auto simp: claim_version_def Let_def)
  have "(a, w) \<in> read_last (rc_log s @ [Claimed area v])" if "(a, w) \<in> read_last (rc_log s)" "w < v" for a w
    by (rule read_grows [OF that(1)]) (use that(2) in auto)
  then show "notes_ok (versions (rc_open ?s) @ versions (rc_telling ?s)) (ended (rc_log ?s)) (read_last (rc_log ?s)) (rc_rt ?s)"
    using notes_claimed [OF D(1)] unfolding v by simp
  show "0 < x \<and> x \<le> rt_version (rc_rt ?s)" if "Claimed a x \<in> set (rc_log ?s)" for a x
    using D(4) [of a x] notes_okD(6) [OF D(1)] that by (auto simp: v)
  show "h \<le> rt_generation (rc_rt ?s) \<and> Claimed a x \<in> set (rc_log ?s)" if "(a, x, h) \<in> set (rc_open ?s)" for a x h
    using D(2) [of a x h] that g by (auto simp: v)
  show "Claimed a x \<in> set (rc_log ?s)" if "(a, x, h) \<in> ended (rc_log ?s)" for a x h
    using D(3) [of a x h] that by auto
  show "(a, x, h) \<in> set (rc_telling ?s) \<or> (x, h) \<in> set (notices (rt_out (rc_rt ?s)))"
    if "(a, x, h) \<in> set (granted (rc_log ?s))" for a x h using D(6) [of a x h] that by (simp add: v)
qed (use race_okD(5) [OF ok] in simp)

lemma race_publish:
  assumes ok: "race_ok s" and x: "(area, v, gen) \<in> set (rc_open s)"
    and p: "publish_locked area v gen (rc_rt s) = (b, rt)"
  shows "race_ok (s\<lparr>rc_rt := rt, rc_open := remove1 (area, v, gen) (rc_open s),
      rc_telling := (if b then (area, v, gen) # rc_telling s else rc_telling s),
      rc_log := rc_log s @ [if b then Granted area v gen else Refused area v gen]\<rparr>)" (is "race_ok ?s")
proof -
  let ?P = "versions (rc_open s) @ versions (rc_telling s)"
  have N: "notes_ok ?P (ended (rc_log s)) (read_last (rc_log s)) (rc_rt s)"
    and O: "\<And>a v g. (a, v, g) \<in> set (rc_open s) \<Longrightarrow> g \<le> rt_generation (rc_rt s) \<and> Claimed a v \<in> set (rc_log s)"
    using ok by (auto simp: race_ok_def)
  have same: "rt_version rt = rt_version (rc_rt s)" "rt_generation rt = rt_generation (rc_rt s)"
      "rt_out rt = rt_out (rc_rt s)"
    using p by (auto simp: publish_locked_def Let_def split: if_splits prod.splits)
  have "v \<in> set ?P" using x by force
  then have N1: "notes_ok ?P (insert (area, v, gen) (ended (rc_log s))) (read_last (rc_log s)) rt"
    using notes_publish [OF N p] O [OF x] by blast
  have "mset (versions (rc_open ?s) @ versions (rc_telling ?s)) \<subseteq># mset ?P"
    using mset_remove1 [OF x, of "\<lambda>(a, v, g). v"] by simp
  moreover have "ended (rc_log ?s) = insert (area, v, gen) (ended (rc_log s))" by simp
  moreover have "(a, w) \<in> read_last (rc_log ?s)" if "(a, w) \<in> read_last (rc_log s)" for a w
    using read_grows [OF that, of "[if b then Granted area v gen else Refused area v gen]"] by (auto split: if_splits)
  ultimately have "notes_ok (versions (rc_open ?s) @ versions (rc_telling ?s)) (ended (rc_log ?s)) (read_last (rc_log ?s)) rt"
    using notes_fewer [OF _ N1] notes_more_read by metis
  moreover have "sorted_wrt accepted_before (granted (rc_log ?s))"
  proof (cases b)
    case True
    then have here: "rt_phase (rc_rt s) = RtRunning" "gen = rt_generation (rc_rt s)"
        "or_zero (ib_current (rt_bus (rc_rt s)) area) < v"
      using p by (auto elim: publish_locked_cases)
    have "accepted_before y (area, v, gen)" if y: "y \<in> set (granted (rc_log s))" for y
    proof -
      obtain a' v' g' where y': "y = (a', v', g')" by (rule prod_cases3)
      then have "(a', v', g') \<in> ended (rc_log s)" using granted_ended y by blast
      then show ?thesis
        using notes_okD(3,4) [OF N, of a' v' g'] here by (auto simp: accepted_before_def y')
    qed
    then show ?thesis using True ok by (simp add: race_ok_def sorted_wrt_append)
  qed (use ok in \<open>simp add: race_ok_def\<close>)
  moreover have "set (remove1 (area, v, gen) (rc_open s)) \<subseteq> set (rc_open s)" by (rule set_remove1_subset)
  ultimately show ?thesis
    using ok O [OF x] unfolding race_ok_def by (cases b) (auto simp: same)
qed

lemma race_tell:
  assumes ok: "race_ok s" and x: "(area, v, gen) \<in> set (rc_telling s)"
  shows "race_ok (s\<lparr>rc_rt := tell_sink area v gen (rc_rt s), rc_telling := remove1 (area, v, gen) (rc_telling s)\<rparr>)"
    (is "race_ok ?s")
proof (rule race_okI)
  note D = race_okD [OF ok]
  let ?P = "versions (rc_open ?s) @ versions (rc_telling ?s)"
  have same: "rt_version (rc_rt ?s) = rt_version (rc_rt s)" "rt_generation (rc_rt ?s) = rt_generation (rc_rt s)"
      "notices (rt_out (rc_rt ?s)) = notices (rt_out (rc_rt s)) @ [(v, gen)]"
    by (simp_all add: tell_sink_def emit_def)
  have "mset (v # ?P) \<subseteq># mset (versions (rc_open s) @ versions (rc_telling s))"
    using mset_remove1 [OF x, of "\<lambda>(a, v, g). v"] by simp
  then have "notes_ok (v # ?P) (ended (rc_log s)) (read_last (rc_log s)) (rc_rt s)"
    using D(1) by (rule notes_fewer)
  then show "notes_ok ?P (ended (rc_log ?s)) (read_last (rc_log ?s)) (rc_rt ?s)" using notes_tell by simp
  have "y \<in> set (rc_telling ?s) \<or> y = (area, v, gen)" if "y \<in> set (rc_telling s)" for y
    using that by (cases "y = (area, v, gen)") (simp_all add: in_set_remove1)
  then show "(a, y, h) \<in> set (rc_telling ?s) \<or> (y, h) \<in> set (notices (rt_out (rc_rt ?s)))"
    if "(a, y, h) \<in> set (granted (rc_log ?s))" for a y h
    using D(6) [of a y h] that unfolding same by auto
  show "h \<le> rt_generation (rc_rt ?s) \<and> Claimed a y \<in> set (rc_log ?s)" if "(a, y, h) \<in> set (rc_open ?s)" for a y h
    using D(2) [of a y h] that unfolding same by simp
  show "0 < y \<and> y \<le> rt_version (rc_rt ?s)" if "Claimed a y \<in> set (rc_log ?s)" for a y
    using D(4) [of a y] that unfolding same by simp
qed (use race_okD(3,5) [OF ok] in simp_all)

lemma race_catch_up:
  assumes ok: "race_ok s" and c: "consumeInvalidation area (rc_rt s) = (w, rt)"
  shows "race_ok (s\<lparr>rc_rt := rt, rc_log := rc_log s @ [Caught area w]\<rparr>)" (is "race_ok ?s")
proof -
  have same: "rt_version rt = rt_version (rc_rt s)" "rt_generation rt = rt_generation (rc_rt s)"
      "rt_out rt = rt_out (rc_rt s)"
    using c by (auto simp: consumeInvalidation_def Let_def split: prod.splits)
  have "read_last (rc_log s) \<subseteq> read_last (rc_log ?s)" using read_grows [of _ _ "rc_log s" "[Caught area w]"] by auto
  then have N: "notes_ok (versions (rc_open s) @ versions (rc_telling s)) (ended (rc_log s)) (read_last (rc_log ?s)) rt"
    using notes_consume [OF race_okD(1) [OF ok] c] read_now by simp
  show ?thesis
  proof (rule race_okI)
    note D = race_okD [OF ok]
    show "g \<le> rt_generation (rc_rt ?s) \<and> Claimed a v \<in> set (rc_log ?s)" if "(a, v, g) \<in> set (rc_open ?s)" for a v g
      using D(2) [of a v g] that by (simp add: same)
    show "Claimed a v \<in> set (rc_log ?s)" if "(a, v, g) \<in> ended (rc_log ?s)" for a v g
      using D(3) [of a v g] that by simp
    show "0 < v \<and> v \<le> rt_version (rc_rt ?s)" if "Claimed a v \<in> set (rc_log ?s)" for a v
      using D(4) [of a v] that by (simp add: same)
    show "(a, v, g) \<in> set (rc_telling ?s) \<or> (v, g) \<in> set (notices (rt_out (rc_rt ?s)))"
      if "(a, v, g) \<in> set (granted (rc_log ?s))" for a v g using D(6) [of a v g] that by (simp add: same)
  qed (use N race_okD(5) [OF ok] in simp_all)
qed

lemma race_step_ok: "race_step s s' \<Longrightarrow> race_ok s \<Longrightarrow> race_ok s'"
proof (induction rule: race_step.induct)
  case (Whole op s E)
  have "further (rc_rt s) (rc_rt s)" by (simp add: further_def)
  then have "further (rc_rt s) (rt_step E op (rc_rt s))" by (intro advancing.step) simp
  then show ?case using noting.step [OF Whole(1)] Whole(2) by (intro race_kept) auto
next
  case (Rest rt s)
  have refl: "further (rc_rt s) (rc_rt s)" by (simp add: further_def)
  have "further (rc_rt s) rt" using Rest(1) advancing.quiet [OF _ refl] advancing.store [OF _ refl] by blast
  moreover have "notes_ok P L W rt" if "notes_ok P L W (rc_rt s)" for P L W
    using Rest(1) noting.quiet [OF _ that] noting.store [OF _ that] by blast
  ultimately show ?case using Rest(2) by (intro race_kept)
qed (simp_all add: race_claim race_publish race_tell race_catch_up)

lemma race_run_ok: "race_run s s' \<Longrightarrow> race_ok s \<Longrightarrow> race_ok s'"
  by (induction rule: race_run.induct) (blast intro: race_step_ok)+

lemma race_start: "race_ok (new_race (new_runtime owner inst capacity timeout))"
  by (simp add: race_ok_def new_race_def new_runtime_def notes_ok_def no_bus_def or_zero_def)

text \<open>What an ended announcement of the current generation means for the observer.\<close>

lemma ended_noticed:
  assumes ok: "race_ok s" and run: "rt_phase (rc_rt s) = RtRunning"
    and e: "(a, v, rt_generation (rc_rt s)) \<in> ended (rc_log s)"
  shows "ib_stale a (rt_bus (rc_rt s)) \<or>
     (\<exists>ys w zs. rc_log s = ys @ Caught a w # zs \<and> v \<le> w \<and> Claimed a v \<in> set ys)"
proof (cases "ib_stale a (rt_bus (rc_rt s))")
  case False
  note D = race_okD [OF ok]
  have v: "Claimed a v \<in> set (rc_log s)" "0 < v" using D(3) [OF e] D(4) [of a v] by auto
  moreover have "v \<le> or_zero (ib_current (rt_bus (rc_rt s)) a)" using notes_okD(4) [OF D(1) e run refl] .
  ultimately obtain c where c: "ib_current (rt_bus (rc_rt s)) a = Some c" "v \<le> c"
    by (cases "ib_current (rt_bus (rc_rt s)) a") (auto simp: or_zero_def)
  then have "c \<le> or_zero (ib_consumed (rt_bus (rc_rt s)) a)" using False by (simp add: ib_stale_def)
  then obtain w where w: "ib_consumed (rt_bus (rc_rt s)) a = Some w" "v \<le> w"
    using c(2) v(2) by (cases "ib_consumed (rt_bus (rc_rt s)) a") (auto simp: or_zero_def)
  then obtain ys zs where l: "rc_log s = ys @ Caught a w # zs" "\<forall>b x. Claimed b x \<in> set zs \<longrightarrow> w < x"
    using notes_okD(5) [OF D(1) w(1)] by (auto simp: read_last_def)
  then have "Claimed a v \<in> set ys" using v(1) w(2) by fastforce
  then show ?thesis using l(1) w(2) by blast
qed simp

text \<open>
  C16: change notices, however the threads interleave. Over any run of a new runtime in which any
  number of announcements are under way at once - each taking its version, being published or refused
  under the mutex, and calling the sink in steps of their own, with any operation of the runtime and
  any reading by the observer in between - the sink is never told the same version twice; the
  announcements that are accepted follow each other with increasing versions of an area within a
  generation, and generations do not go back; every accepted announcement has been told to the sink or
  is being told; and no change is missed: while the runtime runs, for every announcement of its
  generation that has been accepted or refused, the observer is marked as behind in that area, or it
  has read the area's version, this one or a later one, after the announcement took its version.
  (The order in which the sink hears of them is another matter: \<open>sink_hears_out_of_order\<close>.)
\<close>

theorem announced_changes_are_noticed:
  assumes "race_run (new_race (new_runtime owner inst capacity timeout)) s"
  shows "distinct (map fst (notices (rt_out (rc_rt s)))) \<and>
     sorted_wrt accepted_before (granted (rc_log s)) \<and>
     (\<forall>a v g. Granted a v g \<in> set (rc_log s) \<longrightarrow>
        (a, v, g) \<in> set (rc_telling s) \<or> (v, g) \<in> set (notices (rt_out (rc_rt s)))) \<and>
     (\<forall>a v. rt_phase (rc_rt s) = RtRunning \<and> (a, v, rt_generation (rc_rt s)) \<in> ended (rc_log s) \<longrightarrow>
        ib_stale a (rt_bus (rc_rt s)) \<or>
        (\<exists>ys w zs. rc_log s = ys @ Caught a w # zs \<and> v \<le> w \<and> Claimed a v \<in> set ys))"
proof -
  have ok: "race_ok s" using race_run_ok [OF assms race_start] .
  note D = race_okD [OF this]
  have "distinct (map fst (notices (rt_out (rc_rt s))))" using notes_okD(7) [OF D(1)] by simp
  then show ?thesis using D(5,6) ended_noticed [OF ok] by (auto simp: in_granted)
qed

section \<open>Two threads\<close>

text \<open>A runtime that runs, and two threads that have each taken a version for the messages.\<close>

definition demo_running :: runtime where
  "demo_running = snd (rt_start False (new_runtime 7 1 4 5000))"

lemma demo_running [simp]:
  "rt_phase demo_running = RtRunning" "rt_generation demo_running = 1" "rt_version demo_running = 0"
  "rt_bus demo_running = no_bus" "rt_out demo_running = []" "rt_owner demo_running = 7"
  by (simp_all add: demo_running_def rt_start_def new_runtime_def)

definition demo_claimed :: race where
  "demo_claimed = \<lparr>rc_rt = demo_running\<lparr>rt_version := 2\<rparr>, rc_open = [(DomMessages, 2, 1), (DomMessages, 1, 1)],
     rc_telling = [], rc_log = [Claimed DomMessages 1, Claimed DomMessages 2]\<rparr>"

lemma demo_claimed_run: "race_run (new_race (new_runtime 7 1 4 5000)) demo_claimed"
proof -
  let ?s0 = "new_race (new_runtime 7 1 4 5000)"
  let ?s1 = "?s0\<lparr>rc_rt := demo_running\<rparr>"
  let ?s2 = "?s1\<lparr>rc_rt := demo_running\<lparr>rt_version := 1\<rparr>, rc_open := (DomMessages, 1, 1) # rc_open ?s1,
      rc_log := rc_log ?s1 @ [Claimed DomMessages 1]\<rparr>"
  let ?s3 = "?s2\<lparr>rc_rt := demo_running\<lparr>rt_version := 2\<rparr>, rc_open := (DomMessages, 2, 1) # rc_open ?s2,
      rc_log := rc_log ?s2 @ [Claimed DomMessages 2]\<rparr>"
  have "race_step ?s0 ?s1"
    using race_step.Whole [of "RtStart False" ?s0] by (simp add: demo_running_def new_race_def)
  moreover have "race_step ?s1 ?s2"
    by (rule race_step.Claim) (simp_all add: claim_version_def)
  moreover have "race_step ?s2 ?s3"
    by (rule race_step.Claim) (simp_all add: claim_version_def)
  ultimately have "race_run ?s0 ?s3" by (meson race_run.intros)
  then show ?thesis by (simp add: new_race_def demo_claimed_def)
qed

text \<open>The later version is published first, the earlier one is refused, and the observer reads 2.\<close>

lemma announced_changes_are_noticed_witness:
  "\<exists>s. race_run (new_race (new_runtime 7 1 4 5000)) s \<and> Refused DomMessages 1 1 \<in> set (rc_log s) \<and>
     (ib_stale DomMessages (rt_bus (rc_rt s)) \<or>
      (\<exists>ys w zs. rc_log s = ys @ Caught DomMessages w # zs \<and> 1 \<le> w \<and> Claimed DomMessages 1 \<in> set ys))"
proof -
  let ?s4 = "demo_claimed\<lparr>rc_rt := snd (publish_locked DomMessages 2 1 (rc_rt demo_claimed)),
      rc_open := [(DomMessages, 1, 1)], rc_telling := [(DomMessages, 2, 1)],
      rc_log := rc_log demo_claimed @ [Granted DomMessages 2 1]\<rparr>"
  let ?s5 = "?s4\<lparr>rc_open := [], rc_log := rc_log ?s4 @ [Refused DomMessages 1 1]\<rparr>"
  let ?s6 = "?s5\<lparr>rc_rt := snd (consumeInvalidation DomMessages (rc_rt ?s5)), rc_log := rc_log ?s5 @ [Caught DomMessages 2]\<rparr>"
  have "race_step demo_claimed ?s4"
    using race_step.Publish [of DomMessages 2 1 demo_claimed True]
    by (simp add: demo_claimed_def publish_locked_def ib_publish_def no_bus_def or_zero_def)
  moreover have "race_step ?s4 ?s5"
    using race_step.Publish [of DomMessages 1 1 ?s4 False "rc_rt ?s4"]
    by (simp add: demo_claimed_def publish_locked_def ib_publish_def no_bus_def or_zero_def)
  moreover have "race_step ?s5 ?s6"
    using race_step.Catch_up [of DomMessages ?s5 2]
    by (simp add: demo_claimed_def publish_locked_def ib_publish_def no_bus_def or_zero_def consumeInvalidation_def
        ib_consume_def)
  ultimately have r: "race_run (new_race (new_runtime 7 1 4 5000)) ?s6"
    using demo_claimed_run by (meson race_run.intros)
  have "rt_phase (rc_rt ?s6) = RtRunning" "rt_generation (rc_rt ?s6) = 1"
    by (simp_all add: demo_claimed_def publish_locked_def consumeInvalidation_def split_def Let_def)
  moreover have "(DomMessages, 1, 1) \<in> ended (rc_log ?s6)" by (simp add: ended_def)
  ultimately have "ib_stale DomMessages (rt_bus (rc_rt ?s6)) \<or>
      (\<exists>ys w zs. rc_log ?s6 = ys @ Caught DomMessages w # zs \<and> 1 \<le> w \<and> Claimed DomMessages 1 \<in> set ys)"
    using announced_changes_are_noticed [OF r] by metis
  then show ?thesis using r by (intro exI [of _ ?s6]) simp
qed

text \<open>
  The sink is called after the mutex is released, so it can hear of version 2 before version 1 of the
  same area, although both were published in order: what it is told does not increase.
\<close>

theorem sink_hears_out_of_order:
  "\<exists>s. race_run (new_race (new_runtime 7 1 4 5000)) s \<and>
     granted (rc_log s) = [(DomMessages, 1, 1), (DomMessages, 2, 1)] \<and>
     rt_out (rc_rt s) = [OutInvalidated DomMessages 2 1 7, OutInvalidated DomMessages 1 1 7]"
proof -
  let ?s4 = "demo_claimed\<lparr>rc_rt := snd (publish_locked DomMessages 1 1 (rc_rt demo_claimed)),
      rc_open := [(DomMessages, 2, 1)], rc_telling := [(DomMessages, 1, 1)],
      rc_log := rc_log demo_claimed @ [Granted DomMessages 1 1]\<rparr>"
  let ?s5 = "?s4\<lparr>rc_rt := snd (publish_locked DomMessages 2 1 (rc_rt ?s4)),
      rc_open := [], rc_telling := [(DomMessages, 2, 1), (DomMessages, 1, 1)],
      rc_log := rc_log ?s4 @ [Granted DomMessages 2 1]\<rparr>"
  let ?s6 = "?s5\<lparr>rc_rt := tell_sink DomMessages 2 1 (rc_rt ?s5), rc_telling := [(DomMessages, 1, 1)]\<rparr>"
  let ?s7 = "?s6\<lparr>rc_rt := tell_sink DomMessages 1 1 (rc_rt ?s6), rc_telling := []\<rparr>"
  note defs = demo_claimed_def publish_locked_def ib_publish_def no_bus_def or_zero_def
  have "race_step demo_claimed ?s4"
    using race_step.Publish [of DomMessages 1 1 demo_claimed True] by (simp add: defs)
  moreover have "race_step ?s4 ?s5"
    using race_step.Publish [of DomMessages 2 1 ?s4 True] by (simp add: defs)
  moreover have "race_step ?s5 ?s6"
    using race_step.Tell [of DomMessages 2 1 ?s5] by simp
  moreover have "race_step ?s6 ?s7"
    using race_step.Tell [of DomMessages 1 1 ?s6] by simp
  ultimately have "race_run (new_race (new_runtime 7 1 4 5000)) ?s7"
    using demo_claimed_run by (meson race_run.intros)
  moreover have "granted (rc_log ?s7) = [(DomMessages, 1, 1), (DomMessages, 2, 1)]"
    by (simp add: demo_claimed_def granted_def)
  moreover have "rt_out (rc_rt ?s7) = [OutInvalidated DomMessages 2 1 7, OutInvalidated DomMessages 1 1 7]"
    by (simp add: defs tell_sink_def emit_def)
  ultimately show ?thesis by blast
qed

end
