(* ===== verification/ClientUploads.thy ===== *)
theory ClientUploads
  imports ClientMessages HttpFiles
begin

text \<open>
  Sending files (\<^verbatim>\<open>client_core/src/media/MediaService.cpp\<close>) over the drafts of uploads the repository
  keeps (\<^verbatim>\<open>NativeRepository.cpp\<close>, \<^verbatim>\<open>upsertUploadDraft\<close> to \<^verbatim>\<open>loadActiveUploadDrafts\<close>): each file of a
  message has a draft; a draft gets a session of the server, its chunks are sent, those the server has
  are left out, the session is finalized, and when all files of the message have an identity the
  message is put into the outbox.

  The transport is an argument: what it answers to the n-th call. The calls and their answers are kept
  in the order they were made. \<open>MediaService\<close> is single-threaded, so its operations are functions.
\<close>

section \<open>Drafts\<close>

text \<open>The column of the chunks that are done.\<close>

definition joinChunkIndices :: "int list \<Rightarrow> string" where
  "joinChunkIndices xs = foldl (\<lambda>out i. (if out \<noteq> [] then out @ '','' else out) @ int_str i) [] xs"

function chunk_parts :: "string \<Rightarrow> string list" where
  "chunk_parts s =
     (if s = [] then []
      else case dropWhile (\<lambda>ch. ch \<noteq> CHR '','') s of
        [] \<Rightarrow> [s]
      | _ # rest \<Rightarrow> takeWhile (\<lambda>ch. ch \<noteq> CHR '','') s # chunk_parts rest)"
  by pat_completeness auto
termination
proof (relation "measure length", goal_cases)
  case (2 s x rest)
  have "length (dropWhile (\<lambda>ch. ch \<noteq> CHR '','') s) \<le> length s" by (rule length_dropWhile_le)
  then show ?case using 2(2) by simp
qed simp

declare chunk_parts.simps [simp del]

definition splitChunkIndices :: "string \<Rightarrow> int list" where
  "splitChunkIndices s =
     (let parts = filter (\<lambda>p. p \<noteq> []) (chunk_parts s)
      in if list_all (\<lambda>p. c_stoi p \<noteq> None) parts then map (\<lambda>p. the (c_stoi p)) parts else [])"

text \<open>A draft as it is read: the row with the column of chunks parsed.\<close>

record upload_draft = draft_row +
  ud_done :: "int list"

definition draft_of :: "draft_row \<Rightarrow> upload_draft" where
  "draft_of r = draft_row.extend r \<lparr>ud_done = splitChunkIndices (up_chunks r)\<rparr>"

definition terminal_draft :: "'a draft_row_scheme \<Rightarrow> bool" where
  "terminal_draft r \<longleftrightarrow> up_state r = UpSent \<or> up_state r = UpDropped"

definition is_draft :: "int \<Rightarrow> string \<Rightarrow> media_variant \<Rightarrow> int \<times> draft_row \<Rightarrow> bool" where
  "is_draft owner mid v = (\<lambda>(o', r). o' = owner \<and> up_id r = mid \<and> up_variant r = v)"

text \<open>\<open>INSERT ... ON CONFLICT(owner_id,msg_id,variant) DO NOTHING\<close>.\<close>

definition put_draft :: "int \<Rightarrow> int \<Rightarrow> draft_row \<Rightarrow> client_db \<Rightarrow> (nat \<times> client_db) option" where
  "put_draft now owner r d =
     (if list_ex (is_draft owner (up_id r) (up_variant r)) (cd_uploads d) then Some (0, d)
      else Some (1, d\<lparr>cd_uploads := cd_uploads d @
        [(owner, r\<lparr>up_upload := [], up_chunkSize := 0, up_chunkCount := 0, up_chunks := [], up_file := [],
                   up_state := UpPending, up_error := 0,
                   up_created := (if up_created r > 0 then up_created r else now),
                   up_updated := (if up_created r > 0 then up_created r else now)\<rparr>)]\<rparr>))"

definition upsertUploadDraft :: "write_io \<Rightarrow> int \<Rightarrow> draft_row \<Rightarrow> cconn \<Rightarrow> bool option \<times> cconn" where
  "upsertUploadDraft w owner r c =
     (if owner \<le> 0 \<or> up_id r = [] \<or> up_conv r \<le> 0 \<or> up_peer r \<le> 0 \<or> up_path r = [] \<or> up_size r \<le> 0 \<or>
         length (up_sha r) \<noteq> 64 \<or> up_w r < 0 \<or> up_h r < 0 \<or> up_w r > 100000 \<or> up_h r > 100000
      then (None, c)
      else runTx w (sq_then (sq_run (put_draft (wi_clock w) owner r)) (\<lambda>n. sq_return (n > 0))) c)"

text \<open>An UPDATE of one draft that has to change a row.\<close>

definition set_draft ::
    "int \<Rightarrow> string \<Rightarrow> media_variant \<Rightarrow> (draft_row \<Rightarrow> bool) \<Rightarrow> (draft_row \<Rightarrow> draft_row) \<Rightarrow>
     client_db \<Rightarrow> (nat \<times> client_db) option" where
  "set_draft owner mid v P f d =
     (let Q = (\<lambda>x. is_draft owner mid v x \<and> P (snd x))
      in Some (count_where Q (cd_uploads d), d\<lparr>cd_uploads := upd_where Q (\<lambda>(o', r). (o', f r)) (cd_uploads d)\<rparr>))"

definition change_draft ::
    "int \<Rightarrow> string \<Rightarrow> media_variant \<Rightarrow> (draft_row \<Rightarrow> bool) \<Rightarrow> (draft_row \<Rightarrow> draft_row) \<Rightarrow>
     cconn \<Rightarrow> unit option \<times> cconn" where
  "change_draft owner mid v P f = sq_then (sq_run (set_draft owner mid v P f)) (\<lambda>n. sq_guard (n = 1))"

definition resumable :: "draft_row \<Rightarrow> bool" where
  "resumable r \<longleftrightarrow> up_state r = UpPending \<or> up_state r = UpUploading \<or> up_state r = UpFailed"

definition setUploadDraftSession ::
    "write_io \<Rightarrow> int \<Rightarrow> string \<Rightarrow> media_variant \<Rightarrow> string \<Rightarrow> int \<Rightarrow> int \<Rightarrow> cconn \<Rightarrow> unit option \<times> cconn" where
  "setUploadDraftSession w owner mid v uid csize pieces c =
     (if owner \<le> 0 \<or> mid = [] \<or> uid = [] \<or> csize \<le> 0 \<or> pieces \<le> 0 then (None, c)
      else runTx w (change_draft owner mid v resumable
        (\<lambda>r. r\<lparr>up_upload := uid, up_chunkSize := csize, up_chunkCount := pieces, up_state := UpUploading,
               up_error := 0, up_updated := wi_clock w\<rparr>)) c)"

definition add_chunk :: "int \<Rightarrow> string \<Rightarrow> string" where
  "add_chunk i s =
     (let xs = splitChunkIndices s in joinChunkIndices (if i \<in> set xs then xs else sort (xs @ [i])))"

definition mark_body :: "int \<Rightarrow> int \<Rightarrow> string \<Rightarrow> media_variant \<Rightarrow> int \<Rightarrow> cconn \<Rightarrow> unit option \<times> cconn" where
  "mark_body now owner mid v i =
     sq_then (sq_select (\<lambda>d. find (is_draft owner mid v) (cd_uploads d))) (\<lambda>x.
     case x of
       None \<Rightarrow> sq_guard False
     | Some (_, r) \<Rightarrow>
         sq_then (sq_guard (i < up_chunkCount r \<and> \<not> terminal_draft r)) (\<lambda>_.
         sq_then (sq_run (set_draft owner mid v (\<lambda>_. True)
           (\<lambda>q. q\<lparr>up_chunks := add_chunk i (up_chunks r), up_updated := now\<rparr>))) (\<lambda>_. sq_return ())))"

definition markUploadChunkDone ::
    "write_io \<Rightarrow> int \<Rightarrow> string \<Rightarrow> media_variant \<Rightarrow> int \<Rightarrow> cconn \<Rightarrow> unit option \<times> cconn" where
  "markUploadChunkDone w owner mid v i c =
     (if owner \<le> 0 \<or> mid = [] \<or> i < 0 then (None, c) else runTx w (mark_body (wi_clock w) owner mid v i) c)"

definition setUploadDraftFileId ::
    "write_io \<Rightarrow> int \<Rightarrow> string \<Rightarrow> media_variant \<Rightarrow> string \<Rightarrow> cconn \<Rightarrow> unit option \<times> cconn" where
  "setUploadDraftFileId w owner mid v fid c =
     (if owner \<le> 0 \<or> mid = [] \<or> fid = [] then (None, c)
      else runTx w (change_draft owner mid v (\<lambda>r. resumable r \<or> up_state r = UpFinal \<and> up_file r = fid)
        (\<lambda>r. r\<lparr>up_file := fid, up_state := UpFinal, up_error := 0, up_updated := wi_clock w\<rparr>)) c)"

definition resetUploadDraftForNewSession ::
    "write_io \<Rightarrow> int \<Rightarrow> string \<Rightarrow> media_variant \<Rightarrow> string \<Rightarrow> int \<Rightarrow> int \<Rightarrow> cconn \<Rightarrow> unit option \<times> cconn" where
  "resetUploadDraftForNewSession w owner mid v uid csize pieces c =
     (if owner \<le> 0 \<or> mid = [] \<or> uid = [] \<or> csize \<le> 0 \<or> pieces \<le> 0 then (None, c)
      else runTx w (change_draft owner mid v resumable
        (\<lambda>r. r\<lparr>up_upload := uid, up_chunkSize := csize, up_chunkCount := pieces, up_chunks := [], up_file := [],
               up_state := UpUploading, up_error := 0, up_updated := wi_clock w\<rparr>)) c)"

definition setUploadDraftState ::
    "write_io \<Rightarrow> int \<Rightarrow> string \<Rightarrow> media_variant \<Rightarrow> draft_state \<Rightarrow> int \<Rightarrow> cconn \<Rightarrow> unit option \<times> cconn" where
  "setUploadDraftState w owner mid v st code c =
     (if owner \<le> 0 \<or> mid = [] then (None, c)
      else runTx w (change_draft owner mid v (\<lambda>r. \<not> terminal_draft r)
        (\<lambda>r. r\<lparr>up_state := st, up_error := code, up_updated := wi_clock w\<rparr>)) c)"

definition getUploadDraft :: "read_io \<Rightarrow> int \<Rightarrow> string \<Rightarrow> media_variant \<Rightarrow> client_db \<Rightarrow> upload_draft option" where
  "getUploadDraft io owner mid v d =
     (if owner \<le> 0 \<or> mid = [] then None
      else fetch_one io (map (draft_of \<circ> snd) (filter (is_draft owner mid v) (cd_uploads d))))"

definition loadActiveUploadDrafts :: "read_io \<Rightarrow> int \<Rightarrow> client_db \<Rightarrow> upload_draft list option" where
  "loadActiveUploadDrafts io owner d =
     (if owner \<le> 0 then None
      else fetch_all io (map draft_of (sort_key up_updated
        (map snd (filter (\<lambda>(o', r). o' = owner \<and> \<not> terminal_draft r) (cd_uploads d))))))"

section \<open>The transport\<close>

record up_result =
  ur_ok :: bool
  ur_retryable :: bool
  ur_status :: int

record session_info =
  ui_instant :: bool
  ui_challenge :: string
  ui_offset :: int
  ui_length :: nat
  ui_upload :: string
  ui_chunkSize :: int
  ui_chunkCount :: int
  ui_state :: string
  ui_file :: string
  ui_received :: "int list"

text \<open>A call with its answer.\<close>

datatype up_call =
    CallCreate upload_draft up_result session_info
  | CallQuery string up_result session_info
  | CallChunk string int string string up_result
  | CallProve string string up_result string
  | CallFinalize string up_result string
  | CallCancel string

record media_env =
  mv_write :: "nat \<Rightarrow> write_io"
  mv_read :: "nat \<Rightarrow> read_io"
  mv_file :: "nat \<Rightarrow> string \<Rightarrow> string option"
  mv_create :: "nat \<Rightarrow> up_result \<times> session_info"
  mv_query :: "nat \<Rightarrow> up_result \<times> session_info"
  mv_chunk :: "nat \<Rightarrow> up_result"
  mv_prove :: "nat \<Rightarrow> up_result \<times> string"
  mv_finalize :: "nat \<Rightarrow> up_result \<times> string"
  mv_junk :: bytes

record media =
  mw_owner :: int
  mw_conn :: cconn
  mw_calls :: "up_call list"
  mw_writes :: nat
  mw_reads :: nat
  mw_progress :: "(string \<times> media_variant \<times> nat \<times> int) list"

section \<open>Steps\<close>

text \<open>
  A step of the service returns a value, or ends the method with its result: \<open>Inl\<close> is a \<open>return\<close> of the
  code.
\<close>

type_synonym 'a up_step = "media \<Rightarrow> (bool + 'a) \<times> media"

definition mw_then :: "'a up_step \<Rightarrow> ('a \<Rightarrow> 'b up_step) \<Rightarrow> 'b up_step" where
  "mw_then m k s = (case m s of (Inl b, s) \<Rightarrow> (Inl b, s) | (Inr x, s) \<Rightarrow> k x s)"

definition mw_value :: "'a \<Rightarrow> 'a up_step" where
  "mw_value x s = (Inr x, s)"

definition mw_return :: "bool \<Rightarrow> 'a up_step" where
  "mw_return b s = (Inl b, s)"

text \<open>An operation of the repository: its result, if it reported success.\<close>

definition mw_write :: "media_env \<Rightarrow> (write_io \<Rightarrow> int \<Rightarrow> cconn \<Rightarrow> 'a option \<times> cconn) \<Rightarrow> 'a option up_step" where
  "mw_write E f s =
     (let (r, c) = f (mv_write E (mw_writes s)) (mw_owner s) (mw_conn s)
      in (Inr r, s\<lparr>mw_conn := c, mw_writes := mw_writes s + 1\<rparr>))"

definition mw_must :: "'a option up_step \<Rightarrow> 'a up_step" where
  "mw_must m = mw_then m (\<lambda>r. case r of None \<Rightarrow> mw_return False | Some x \<Rightarrow> mw_value x)"

definition mw_get :: "media_env \<Rightarrow> string \<Rightarrow> media_variant \<Rightarrow> upload_draft option up_step" where
  "mw_get E mid v s =
     (Inr (getUploadDraft (mv_read E (mw_reads s)) (mw_owner s) mid v (cn_db (mw_conn s))),
      s\<lparr>mw_reads := mw_reads s + 1\<rparr>)"

definition mw_call :: "(nat \<Rightarrow> 'a) \<Rightarrow> ('a \<Rightarrow> up_call) \<Rightarrow> 'a up_step" where
  "mw_call answers entry s =
     (let a = answers (length (mw_calls s)) in (Inr a, s\<lparr>mw_calls := mw_calls s @ [entry a]\<rparr>))"

definition reportProgress :: "upload_draft \<Rightarrow> unit up_step" where
  "reportProgress d s =
     (Inr (), s\<lparr>mw_progress := mw_progress s @ [(up_id d, up_variant d, length (ud_done d), up_chunkCount d)]\<rparr>)"

text \<open>The codes of errors: 1001 network, 1002 session lost, 1003 rejected, 1004 local file.\<close>

definition failDraft :: "media_env \<Rightarrow> upload_draft \<Rightarrow> int \<Rightarrow> 'a up_step" where
  "failDraft E d code =
     mw_then (mw_write E (\<lambda>w owner. setUploadDraftState w owner (up_id d) (up_variant d) UpFailed code)) (\<lambda>_.
     mw_return False)"

definition fail_code :: "up_result \<Rightarrow> int" where
  "fail_code r = (if ur_retryable r then 1001 else 1003)"

text \<open>A part of a local file, if it can be read and has all of it.\<close>

definition read_part :: "string option \<Rightarrow> int \<Rightarrow> nat \<Rightarrow> string option" where
  "read_part file off n =
     (case file of
        None \<Rightarrow> None
      | Some content \<Rightarrow>
          let got = (if off < 0 then [] else take n (drop (nat off) content))
          in if length got = n then Some got else None)"

definition readChunk :: "string option \<Rightarrow> upload_draft \<Rightarrow> int \<Rightarrow> string option" where
  "readChunk file d i =
     (let off = i * up_chunkSize d; n = min (up_chunkSize d) (up_size d - off)
      in if n \<le> 0 then None else read_part file off (nat n))"

text \<open>The file as it is now.\<close>

definition mw_file :: "media_env \<Rightarrow> upload_draft \<Rightarrow> string option up_step" where
  "mw_file E d s = (Inr (mv_file E (length (mw_calls s)) (up_path d)), s)"

section \<open>Uploading one file\<close>

fun mark_all :: "media_env \<Rightarrow> upload_draft \<Rightarrow> int list \<Rightarrow> unit up_step" where
  "mark_all E d [] = mw_value ()"
| "mark_all E d (i # is) =
     mw_then (mw_write E (\<lambda>w owner. markUploadChunkDone w owner (up_id d) (up_variant d) i)) (\<lambda>_. mark_all E d is)"

definition createSession :: "media_env \<Rightarrow> upload_draft \<Rightarrow> (up_result \<times> session_info) up_step" where
  "createSession E d = mw_call (mv_create E) (\<lambda>(r, u). CallCreate d r u)"

text \<open>The identity of the file: the method ends with whether it was stored.\<close>

definition adopt_file :: "media_env \<Rightarrow> upload_draft \<Rightarrow> string \<Rightarrow> 'a up_step" where
  "adopt_file E d fid =
     mw_then (mw_write E (\<lambda>w owner. setUploadDraftFileId w owner (up_id d) (up_variant d) fid)) (\<lambda>x.
     mw_return (x \<noteq> None))"

text \<open>An instant upload: the file is on the server, and a part of it proves that the user has it.\<close>

definition instant_upload :: "media_env \<Rightarrow> upload_draft \<Rightarrow> session_info \<Rightarrow> 'a up_step" where
  "instant_upload E d u =
     mw_then (mw_file E d) (\<lambda>file.
     case read_part file (ui_offset u) (ui_length u) of
       None \<Rightarrow> failDraft E d 1004
     | Some proof' \<Rightarrow>
         mw_then (mw_call (mv_prove E) (\<lambda>(r, fid). CallProve (ui_challenge u) proof' r fid)) (\<lambda>(r, fid).
         if \<not> ur_ok r then failDraft E d (fail_code r) else adopt_file E d fid))"

definition open_session :: "media_env \<Rightarrow> upload_draft \<Rightarrow> upload_draft up_step" where
  "open_session E d =
     (if up_upload d \<noteq> [] then mw_value d
      else
        mw_then (createSession E d) (\<lambda>(r, u).
        if \<not> ur_ok r then failDraft E d (fail_code r)
        else if ui_instant u then instant_upload E d u
        else
          mw_then (mw_must (mw_write E (\<lambda>w owner. setUploadDraftSession w owner (up_id d) (up_variant d)
            (ui_upload u) (ui_chunkSize u) (ui_chunkCount u)))) (\<lambda>_.
          mw_then (mark_all E d (ui_received u)) (\<lambda>_.
          mw_then (mw_must (mw_get E (up_id d) (up_variant d))) (\<lambda>d.
          mw_then (reportProgress d) (\<lambda>_. mw_value d))))))"

text \<open>The session is gone: another one, from the start. \<open>code\<close> gives the error when there is none.\<close>

definition fresh_session :: "media_env \<Rightarrow> (up_result \<Rightarrow> int) \<Rightarrow> upload_draft \<Rightarrow> upload_draft up_step" where
  "fresh_session E code d =
     mw_then (createSession E d) (\<lambda>(r, u).
     if \<not> ur_ok r \<or> ui_instant u then failDraft E d (code r)
     else
       mw_then (mw_must (mw_write E (\<lambda>w owner. resetUploadDraftForNewSession w owner (up_id d) (up_variant d)
         (ui_upload u) (ui_chunkSize u) (ui_chunkCount u)))) (\<lambda>_.
       mw_must (mw_get E (up_id d) (up_variant d))))"

definition ask_session :: "media_env \<Rightarrow> upload_draft \<Rightarrow> upload_draft up_step" where
  "ask_session E d =
     mw_then (mw_call (mv_query E) (\<lambda>(r, u). CallQuery (up_upload d) r u)) (\<lambda>(r, u).
     if ur_ok r then
       if ui_state u = ''finalized'' \<and> ui_file u \<noteq> [] then
         adopt_file E d (ui_file u)
       else if ui_state u = ''cancelled'' then fresh_session E (\<lambda>_. 1002) d
       else mw_then (mark_all E d (ui_received u)) (\<lambda>_. mw_value d)
     else if ur_status r = 404 \<or> ur_status r = 410 then
       fresh_session E (\<lambda>r. if ur_retryable r then 1002 else 1003) d
     else failDraft E d (fail_code r))"

definition revive :: "media_env \<Rightarrow> upload_draft \<Rightarrow> upload_draft up_step" where
  "revive E d =
     (if up_state d = UpFailed \<and> up_upload d \<noteq> [] then
        mw_then (mw_must (mw_write E (\<lambda>w owner. setUploadDraftState w owner (up_id d) (up_variant d) UpUploading 0))) (\<lambda>_.
        mw_must (mw_get E (up_id d) (up_variant d)))
      else mw_value d)"

text \<open>
  The chunks that are not done, in order. Before each the draft is read again: it may have been
  cancelled meanwhile.
\<close>

fun send_chunks :: "media_env \<Rightarrow> int list \<Rightarrow> upload_draft \<Rightarrow> unit up_step" where
  "send_chunks E [] d = mw_value ()"
| "send_chunks E (i # is) d =
     mw_then (mw_must (mw_get E (up_id d) (up_variant d))) (\<lambda>q.
     if up_state q \<noteq> UpUploading then mw_value ()
     else
       mw_then (mw_file E d) (\<lambda>file.
       case readChunk file d i of
         None \<Rightarrow> failDraft E d 1004
       | Some part \<Rightarrow>
         mw_then (mw_call (mv_chunk E) (CallChunk (up_upload d) i (sha256Hex (mv_junk E) part) part)) (\<lambda>r.
         if \<not> ur_ok r then failDraft E d (fail_code r)
         else
           mw_then (mw_must (mw_write E (\<lambda>w owner. markUploadChunkDone w owner (up_id d) (up_variant d) i))) (\<lambda>_.
           let d = d\<lparr>ud_done := ud_done d @ [i]\<rparr> in
           mw_then (reportProgress d) (\<lambda>_. send_chunks E is d)))))"

definition missing_chunks :: "upload_draft \<Rightarrow> int list" where
  "missing_chunks d = filter (\<lambda>i. i \<notin> set (ud_done d)) (map int [0..<nat (up_chunkCount d)])"

definition send_missing :: "media_env \<Rightarrow> upload_draft \<Rightarrow> upload_draft up_step" where
  "send_missing E d =
     (if up_state d = UpUploading then
        mw_then (send_chunks E (missing_chunks d) d) (\<lambda>_. mw_must (mw_get E (up_id d) (up_variant d)))
      else mw_value d)"

definition finish_session :: "media_env \<Rightarrow> upload_draft \<Rightarrow> bool up_step" where
  "finish_session E d =
     (if up_state d = UpUploading \<and> int (length (ud_done d)) = up_chunkCount d then
        mw_then (mw_call (mv_finalize E) (\<lambda>(r, fid). CallFinalize (up_upload d) r fid)) (\<lambda>(r, fid).
        if \<not> ur_ok r then failDraft E d (fail_code r)
        else adopt_file E d fid)
      else mw_value True)"

definition mw_result :: "bool up_step \<Rightarrow> media \<Rightarrow> bool \<times> media" where
  "mw_result m s = (case m s of (Inl b, s) \<Rightarrow> (b, s) | (Inr b, s) \<Rightarrow> (b, s))"

definition processVariant :: "media_env \<Rightarrow> upload_draft \<Rightarrow> media \<Rightarrow> bool \<times> media" where
  "processVariant E d =
     (if up_state d = UpFinal \<or> terminal_draft d then (\<lambda>s. (True, s))
      else mw_result (mw_then (open_session E d) (\<lambda>d.
        mw_then (ask_session E d) (\<lambda>d.
        mw_then (revive E d) (\<lambda>d.
        mw_then (send_missing E d) (finish_session E))))))"

section \<open>Sending the message\<close>

definition find_variant :: "media_variant \<Rightarrow> upload_draft list \<Rightarrow> upload_draft option" where
  "find_variant v ds = find (\<lambda>d. up_variant d = v) (rev ds)"

definition isImageType :: "string \<Rightarrow> bool" where
  "isImageType t \<longleftrightarrow> take 6 t = ''image/''"

definition card_media :: "upload_draft \<Rightarrow> upload_draft option \<Rightarrow> upload_draft option \<Rightarrow> media_cols" where
  "card_media origin large small =
     (let m = no_media\<lparr>mc_mediaPath := up_path origin, mc_fileId := up_file origin, mc_fileName := up_name origin,
            mc_fileSize := up_size origin, mc_contentType := up_type origin, mc_sha256 := up_sha origin,
            mc_imgW := up_w origin, mc_imgH := up_h origin\<rparr>;
          m = (case large of None \<Rightarrow> m | Some l \<Rightarrow>
            m\<lparr>mc_largeFileId := up_file l, mc_largePath := up_path l, mc_largeSize := up_size l,
              mc_largeSha256 := up_sha l, mc_largeW := up_w l, mc_largeH := up_h l\<rparr>)
      in case small of None \<Rightarrow> m | Some t \<Rightarrow>
            m\<lparr>mc_thumbFileId := up_file t, mc_thumbPath := up_path t, mc_thumbSize := up_size t,
              mc_thumbSha256 := up_sha t, mc_thumbW := up_w t, mc_thumbH := up_h t\<rparr>)"

definition card_of :: "int \<Rightarrow> string \<Rightarrow> upload_draft \<Rightarrow> upload_draft option \<Rightarrow> upload_draft option \<Rightarrow> msg_dto" where
  "card_of owner mid origin large small =
     \<lparr>lm_owner = owner, lm_id = mid, lm_conv = up_conv origin, lm_peer = up_peer origin, lm_seq = 0, lm_ts = 0,
      lm_order = 0, lm_mine = True, lm_type = (if isImageType (up_type origin) then 1 else 2), lm_content = [],
      lm_status = 0, lm_media = card_media origin large small, md_pinyin = [], md_initials = []\<rparr>"

fun all_sent :: "media_env \<Rightarrow> string \<Rightarrow> upload_draft list \<Rightarrow> unit up_step" where
  "all_sent E mid [] = mw_value ()"
| "all_sent E mid (d # ds) =
     mw_then (mw_write E (\<lambda>w owner. setUploadDraftState w owner mid (up_variant d) UpSent 0)) (\<lambda>_. all_sent E mid ds)"

definition has_message :: "media_env \<Rightarrow> string \<Rightarrow> bool up_step" where
  "has_message E mid s =
     (Inr (findMessage (mv_read E (mw_reads s)) (mw_owner s) mid (cn_db (mw_conn s)) \<noteq> None),
      s\<lparr>mw_reads := mw_reads s + 1\<rparr>)"

definition sendMessageCard :: "media_env \<Rightarrow> string \<Rightarrow> upload_draft list \<Rightarrow> bool up_step" where
  "sendMessageCard E mid ds =
     mw_then (has_message E mid) (\<lambda>known.
     if known then mw_then (all_sent E mid ds) (\<lambda>_. mw_value True)
     else case find_variant Origin ds of
       None \<Rightarrow> mw_return False
     | Some origin \<Rightarrow>
         if up_file origin = [] then mw_return False
         else
           mw_then (mw_must (mw_write E (\<lambda>w owner. commitOutgoingDraft w
             (card_of owner mid origin (find_variant LargeThumbnail ds) (find_variant SmallThumbnail ds))))) (\<lambda>_.
           mw_then (all_sent E mid ds) (\<lambda>_. mw_value True)))"

fun read_drafts :: "media_env \<Rightarrow> string \<Rightarrow> media_variant list \<Rightarrow> upload_draft list up_step" where
  "read_drafts E mid [] = mw_value []"
| "read_drafts E mid (v # vs) =
     mw_then (mw_get E mid v) (\<lambda>d. mw_then (read_drafts E mid vs) (\<lambda>ds.
       mw_value (case d of None \<Rightarrow> ds | Some d \<Rightarrow> d # ds)))"

definition all_variants :: "media_variant list" where
  "all_variants = [Origin, LargeThumbnail, SmallThumbnail]"

text \<open>Each draft is moved on; the drafts as they are afterwards, and whether all have an identity.\<close>

definition finished_draft :: "upload_draft option \<Rightarrow> bool" where
  "finished_draft d = (case d of None \<Rightarrow> False | Some d \<Rightarrow> up_state d = UpFinal \<or> up_state d = UpSent)"

fun process_all :: "media_env \<Rightarrow> string \<Rightarrow> upload_draft list \<Rightarrow> (upload_draft list \<times> bool) up_step" where
  "process_all E mid [] = mw_value ([], True)"
| "process_all E mid (d # ds) =
     mw_then (\<lambda>s. let (b, s) = processVariant E d s in (Inr b, s)) (\<lambda>b.
     if \<not> b then mw_then (process_all E mid ds) (\<lambda>(xs, _). mw_value (d # xs, False))
     else
       mw_then (mw_get E mid (up_variant d)) (\<lambda>q.
       mw_then (process_all E mid ds) (\<lambda>(xs, ready).
       mw_value (case q of None \<Rightarrow> xs | Some q \<Rightarrow> q # xs, ready \<and> finished_draft q))))"

definition pumpMessage :: "media_env \<Rightarrow> string \<Rightarrow> media \<Rightarrow> bool \<times> media" where
  "pumpMessage E mid =
     mw_result (mw_then (read_drafts E mid all_variants) (\<lambda>ds.
       if ds = [] then mw_return False
       else if list_ex (\<lambda>d. up_state d = UpDropped) ds then mw_return False
       else if list_all terminal_draft ds then mw_return (list_all (\<lambda>d. up_state d = UpSent) ds)
       else
         mw_then (process_all E mid ds) (\<lambda>(xs, ready).
         if ready then sendMessageCard E mid xs else mw_return False)))"

fun pump_all :: "media_env \<Rightarrow> string list \<Rightarrow> nat \<times> media \<Rightarrow> nat \<times> media" where
  "pump_all E [] s = s"
| "pump_all E (mid # mids) (n, s) =
     (let (b, s) = pumpMessage E mid s in pump_all E mids (if b then n + 1 else n, s))"

definition resumeAll :: "media_env \<Rightarrow> media \<Rightarrow> nat \<times> media" where
  "resumeAll E s =
     (let ds = loadActiveUploadDrafts (mv_read E (mw_reads s)) (mw_owner s) (cn_db (mw_conn s));
          s = s\<lparr>mw_reads := mw_reads s + 1\<rparr>
      in case ds of None \<Rightarrow> (0, s) | Some ds \<Rightarrow> pump_all E (sort (remdups (map up_id ds))) (0, s))"

fun enqueue_all :: "media_env \<Rightarrow> string \<Rightarrow> draft_row list \<Rightarrow> bool up_step" where
  "enqueue_all E mid [] = mw_value True"
| "enqueue_all E mid (r # rs) =
     (if up_id r \<noteq> mid then mw_return False
      else mw_then (mw_must (mw_write E (\<lambda>w owner. upsertUploadDraft w owner r))) (\<lambda>_. enqueue_all E mid rs))"

definition enqueueUploads :: "media_env \<Rightarrow> draft_row list \<Rightarrow> media \<Rightarrow> bool \<times> media" where
  "enqueueUploads E rs =
     mw_result (if rs = [] then mw_return False else enqueue_all E (up_id (hd rs)) rs)"

fun cancel_variants :: "media_env \<Rightarrow> string \<Rightarrow> bool \<Rightarrow> media_variant list \<Rightarrow> bool up_step" where
  "cancel_variants E mid found [] = mw_value found"
| "cancel_variants E mid found (v # vs) =
     mw_then (mw_get E mid v) (\<lambda>d.
     case d of
       None \<Rightarrow> cancel_variants E mid found vs
     | Some d \<Rightarrow>
         if terminal_draft d then cancel_variants E mid True vs
         else
           mw_then (mw_must (mw_write E (\<lambda>w owner. setUploadDraftState w owner mid v UpDropped 0))) (\<lambda>_.
           if up_upload d = [] then cancel_variants E mid True vs
           else mw_then (mw_call (\<lambda>_. ()) (\<lambda>_. CallCancel (up_upload d))) (\<lambda>_. cancel_variants E mid True vs)))"

definition cancelUploads :: "media_env \<Rightarrow> string \<Rightarrow> media \<Rightarrow> bool \<times> media" where
  "cancelUploads E mid = mw_result (cancel_variants E mid False all_variants)"

text \<open>A run of the service.\<close>

datatype media_op = Enqueue "draft_row list" | Pump string | ResumeAll | CancelUpload string

fun media_step :: "media_env \<Rightarrow> media \<Rightarrow> media_op \<Rightarrow> media" where
  "media_step E s (Enqueue rs) = snd (enqueueUploads E rs s)"
| "media_step E s (Pump mid) = snd (pumpMessage E mid s)"
| "media_step E s ResumeAll = snd (resumeAll E s)"
| "media_step E s (CancelUpload mid) = snd (cancelUploads E mid s)"

end
