(* ===== verification/UploadRuns.thy ===== *)
theory UploadRuns
  imports ClientUploads
begin

text \<open>
  What the media service promises over any run of it: the server is asked to finish an upload only
  when it has confirmed every chunk of it, and each chunk that is sent is the part of the file it
  stands for, with its digest. The proofs are triples over the steps of the service: what holds of the
  calls made and of the stored drafts before a step and after it.
\<close>

section \<open>The column of chunks\<close>

lemma int_str_comma: "CHR '','' \<notin> set (int_str i)" "int_str i \<noteq> []"
proof -
  have no: "\<not> is_digit CHR '',''" by code_simp
  then show "CHR '','' \<notin> set (int_str i)"
    using nat_str_digits by (auto simp: int_str_def)
  show "int_str i \<noteq> []" using nat_str_digits by (auto simp: int_str_def)
qed

lemma joinChunkIndices_Cons: "joinChunkIndices (i # is) = int_str i @ concat (map (\<lambda>j. CHR '','' # int_str j) is)"
proof -
  have "foldl (\<lambda>out i. (if out \<noteq> [] then out @ '','' else out) @ int_str i) s is =
      s @ concat (map (\<lambda>j. CHR '','' # int_str j) is)" if "s \<noteq> []" for s
    using that by (induction "is" arbitrary: s) simp_all
  then show ?thesis using int_str_comma(2) by (simp add: joinChunkIndices_def)
qed

lemma chunk_parts_join:
  assumes "p \<noteq> []" and "CHR '','' \<notin> set p"
  shows "chunk_parts (p @ concat (map (\<lambda>j. CHR '','' # int_str j) is)) = p # map int_str is"
  using assms
proof (induction "is" arbitrary: p)
  case Nil
  then have d: "dropWhile (\<lambda>ch. ch \<noteq> CHR '','') p = []" by (auto simp: dropWhile_eq_Nil_conv)
  show ?case using Nil.prems(1) by (subst chunk_parts.simps) (simp add: d)
next
  case (Cons i "is")
  let ?t = "concat (map (\<lambda>j. CHR '','' # int_str j) is)"
  have "\<And>x. x \<in> set p \<Longrightarrow> x \<noteq> CHR '',''" using Cons.prems by auto
  then have "dropWhile (\<lambda>ch. ch \<noteq> CHR '','') (p @ CHR '','' # int_str i @ ?t) = CHR '','' # int_str i @ ?t"
      "takeWhile (\<lambda>ch. ch \<noteq> CHR '','') (p @ CHR '','' # int_str i @ ?t) = p"
    by (simp_all add: dropWhile_append2 takeWhile_append2)
  then show ?case
    using Cons.IH [OF int_str_comma(2,1)] Cons.prems by (subst chunk_parts.simps) simp
qed

lemma digit_code: "is_digit ch \<Longrightarrow> 48 \<le> (of_char ch :: nat) \<and> (of_char ch :: nat) \<le> 57"
  by (auto simp: is_digit_def)

lemma digits_int:
  assumes "\<forall>ch \<in> set ds. is_digit ch"
  shows "foldl (\<lambda>a ch. 10 * a + (of_char ch - 48)) (int v) ds = int (foldl (\<lambda>v ch. v * 10 + digit_val ch) v ds)"
  using assms
proof (induction ds arbitrary: v)
  case (Cons ch ds)
  have "(of_char ch :: int) = int (digit_val ch) + 48"
    using digit_code [of ch] Cons.prems of_nat_of_char [of ch, where 'a = int] by (simp add: digit_val_def of_nat_diff)
  then have v: "10 * int v + (of_char ch - 48) = int (v * 10 + digit_val ch)" by simp
  have "\<forall>x \<in> set ds. is_digit x" using Cons.prems by simp
  then show ?case unfolding foldl.simps v by (rule Cons.IH)
qed simp

lemma c_stoi_int_str:
  assumes "0 \<le> i"
  shows "c_stoi (int_str i) = (if i < 2 ^ 31 then Some i else None)"
proof -
  define u where "u = nat_str (nat i)"
  have u: "u \<noteq> []" "\<forall>x \<in> set u. is_digit x" using nat_str_digits by (simp_all add: u_def)
  have "is_digit x \<Longrightarrow> c_digit x \<and> \<not> c_space x \<and> x \<noteq> CHR ''-'' \<and> x \<noteq> CHR ''+''" for x
    using digit_code [of x] by (auto simp: c_digit_def c_space_def)
  then have t: "takeWhile c_digit u = u" and h: "\<not> c_space (hd u)" "hd u \<noteq> CHR ''-''" "hd u \<noteq> CHR ''+''"
    using u by (simp_all add: takeWhile_eq_all_conv)
  have w: "dropWhile c_space u = u" using h(1) by (simp add: dropWhile_eq_self_iff)
  have v: "foldl (\<lambda>a c. 10 * a + (of_char c - 48)) (0::int) u = i"
    using digits_int [OF u(2), of 0] digits_val_nat_str [of "nat i"] assms by (simp add: digits_val_def u_def)
  have "c_stol u = (if i < 2 ^ 63 then Some i else None)"
    using u(1) h(2,3) assms unfolding c_stol_def Let_def w by (simp add: t v)
  moreover have "int_str i = u" using assms by (simp add: int_str_def u_def)
  ultimately show ?thesis using assms by (simp add: c_stoi_def)
qed

text \<open>An index beyond the range of the code's integers would lose the whole column.\<close>

lemma split_join:
  assumes "\<forall>i \<in> set is. 0 \<le> i"
  shows "splitChunkIndices (joinChunkIndices is) = (if \<forall>i \<in> set is. i < 2 ^ 31 then is else [])"
proof -
  have "chunk_parts (joinChunkIndices is) = map int_str is"
    using int_str_comma
    by (cases "is") (simp_all add: joinChunkIndices_Cons chunk_parts_join, simp add: joinChunkIndices_def chunk_parts.simps)
  moreover have "filter (\<lambda>p. p \<noteq> []) (map int_str is) = map int_str is"
    using int_str_comma(2) by (simp add: filter_id_conv)
  moreover have "map (\<lambda>i. the (c_stoi (int_str i))) is = is" if "\<forall>i \<in> set is. i < 2 ^ 31"
    using assms that by (induction "is") (auto simp: c_stoi_int_str)
  ultimately show ?thesis
    using assms by (auto simp: splitChunkIndices_def Let_def list_all_iff c_stoi_int_str o_def)
qed

lemma split_add_chunk:
  assumes "distinct (splitChunkIndices s)" and "\<forall>x \<in> set (splitChunkIndices s). 0 \<le> x" and "0 \<le> i"
  shows "distinct (splitChunkIndices (add_chunk i s))"
    and "set (splitChunkIndices (add_chunk i s)) \<subseteq> insert i (set (splitChunkIndices s))"
  using assms by (auto simp: add_chunk_def Let_def split_join)

section \<open>What holds of calls and drafts\<close>

definition server_has :: "up_call list \<Rightarrow> string \<Rightarrow> int \<Rightarrow> bool" where
  "server_has cs uid i \<longleftrightarrow>
     (\<exists>sha part r. CallChunk uid i sha part r \<in> set cs \<and> ur_ok r) \<or>
     (\<exists>d r u. CallCreate d r u \<in> set cs \<and> ur_ok r \<and> ui_upload u = uid \<and> i \<in> set (ui_received u)) \<or>
     (\<exists>r u. CallQuery uid r u \<in> set cs \<and> ur_ok r \<and> i \<in> set (ui_received u))"

text \<open>The server opened the session \<open>u\<close> for the draft \<open>d\<close>.\<close>

definition opened :: "up_call list \<Rightarrow> upload_draft \<Rightarrow> session_info \<Rightarrow> bool" where
  "opened cs d u \<longleftrightarrow> (\<exists>r. CallCreate d r u \<in> set cs \<and> ur_ok r \<and> \<not> ui_instant u)"

definition created_for :: "up_call list \<Rightarrow> 'a draft_row_scheme \<Rightarrow> bool" where
  "created_for cs r \<longleftrightarrow>
     (\<exists>d u. opened cs d u \<and> ui_upload u = up_upload r \<and> ui_chunkSize u = up_chunkSize r \<and>
        ui_chunkCount u = up_chunkCount r \<and> up_path d = up_path r \<and> up_size d = up_size r)"

definition draft_ok :: "up_call list \<Rightarrow> upload_draft \<Rightarrow> bool" where
  "draft_ok cs d \<longleftrightarrow>
     (if up_upload d = [] then up_state d \<noteq> UpUploading \<and> up_chunkCount d = 0 \<and> ud_done d = []
      else created_for cs d) \<and>
     distinct (ud_done d) \<and>
     (\<forall>i \<in> set (ud_done d). 0 \<le> i \<and> i < up_chunkCount d \<and> server_has cs (up_upload d) i)"

definition row_key :: "int \<times> draft_row \<Rightarrow> int \<times> string \<times> media_variant" where
  "row_key = (\<lambda>(o', r). (o', up_id r, up_variant r))"

definition drafts_ok :: "up_call list \<Rightarrow> (int \<times> draft_row) list \<Rightarrow> bool" where
  "drafts_ok cs us \<longleftrightarrow> distinct (map row_key us) \<and> (\<forall>(o', r) \<in> set us. draft_ok cs (draft_of r))"

text \<open>The part of a file a chunk stands for.\<close>

definition file_part :: "string \<Rightarrow> int \<Rightarrow> int \<Rightarrow> int \<Rightarrow> string" where
  "file_part content csize fsize i = take (nat (min csize (fsize - i * csize))) (drop (nat (i * csize)) content)"

text \<open>What a call may say, after the calls before it.\<close>

definition call_ok :: "media_env \<Rightarrow> up_call list \<Rightarrow> up_call \<Rightarrow> bool" where
  "call_ok E cs e =
     (case e of
        CallFinalize uid r fid \<Rightarrow>
          \<exists>d u. opened cs d u \<and> ui_upload u = uid \<and> (\<forall>i. 0 \<le> i \<and> i < ui_chunkCount u \<longrightarrow> server_has cs uid i)
      | CallChunk uid i sha part r \<Rightarrow>
          sha = sha256Hex (mv_junk E) part \<and>
          (\<exists>d u content. opened cs d u \<and> ui_upload u = uid \<and> mv_file E (length cs) (up_path d) = Some content \<and>
             part = file_part content (ui_chunkSize u) (up_size d) i)
      | _ \<Rightarrow> True)"

definition log_ok :: "media_env \<Rightarrow> up_call list \<Rightarrow> bool" where
  "log_ok E cs \<longleftrightarrow> (\<forall>k < length cs. call_ok E (take k cs) (cs ! k))"

lemma log_ok_snoc [simp]: "log_ok E (cs @ [e]) \<longleftrightarrow> log_ok E cs \<and> call_ok E cs e"
  by (auto simp: log_ok_def less_Suc_eq nth_append)

lemma log_okD: "log_ok E (cs @ e # cs') \<Longrightarrow> call_ok E cs e"
  unfolding log_ok_def by (drule spec [of _ "length cs"]) simp

lemma log_ok_Nil [simp]: "log_ok E []"
  by (simp add: log_ok_def)

text \<open>More calls take nothing away.\<close>

lemma more_calls:
  assumes "set cs \<subseteq> set cs'"
  shows "server_has cs uid i \<Longrightarrow> server_has cs' uid i" "opened cs d u \<Longrightarrow> opened cs' d u"
    "created_for cs r \<Longrightarrow> created_for cs' r"
  using assms by (auto simp: server_has_def opened_def created_for_def)

lemma draft_ok_mono: "set cs \<subseteq> set cs' \<Longrightarrow> draft_ok cs d \<Longrightarrow> draft_ok cs' d"
  by (auto simp: draft_ok_def intro: more_calls split: if_splits)

lemma drafts_ok_mono: "set cs \<subseteq> set cs' \<Longrightarrow> drafts_ok cs us \<Longrightarrow> drafts_ok cs' us"
  by (auto simp: drafts_ok_def intro: draft_ok_mono)

section \<open>What the repository does to the drafts\<close>

abbreviation drafts_of :: "cconn \<Rightarrow> (int \<times> draft_row) list" where
  "drafts_of c \<equiv> cd_uploads (cn_db c)"

text \<open>
  Rows of one draft may have changed by \<open>R\<close>, and all of them have.
\<close>

definition may_change ::
    "(int \<times> string \<times> media_variant) \<Rightarrow> (draft_row \<Rightarrow> draft_row \<Rightarrow> bool) \<Rightarrow>
     (int \<times> draft_row) list \<Rightarrow> (int \<times> draft_row) list \<Rightarrow> bool" where
  "may_change k R = list_all2 (\<lambda>x y. row_key y = row_key x \<and> (y = x \<or> row_key x = k \<and> R (snd x) (snd y)))"

definition has_changed ::
    "(int \<times> string \<times> media_variant) \<Rightarrow> (draft_row \<Rightarrow> draft_row \<Rightarrow> bool) \<Rightarrow>
     (int \<times> draft_row) list \<Rightarrow> (int \<times> draft_row) list \<Rightarrow> bool" where
  "has_changed k R us us' \<longleftrightarrow> (\<forall>y \<in> set us'. row_key y = k \<longrightarrow> (\<exists>x \<in> set us. row_key x = k \<and> R (snd x) (snd y)))"

definition draft_op ::
    "string \<Rightarrow> media_variant \<Rightarrow> (draft_row \<Rightarrow> draft_row \<Rightarrow> bool) \<Rightarrow>
     (write_io \<Rightarrow> int \<Rightarrow> cconn \<Rightarrow> 'a option \<times> cconn) \<Rightarrow> bool" where
  "draft_op mid v R f \<longleftrightarrow>
     (\<forall>w o' c r c'. cn_txn c = None \<and> distinct (map row_key (drafts_of c)) \<and> f w o' c = (r, c') \<longrightarrow>
        cn_txn c' = None \<and> may_change (o', mid, v) R (drafts_of c) (drafts_of c') \<and>
        (r \<noteq> None \<longrightarrow> has_changed (o', mid, v) R (drafts_of c) (drafts_of c')))"

lemma count_one: "count_where Q xs = Suc 0 \<Longrightarrow> \<exists>x \<in> set xs. Q x"
  using count_where_0 [of Q xs] by auto

lemma may_change_refl [simp]: "may_change k R us us"
  by (simp add: may_change_def list_all2_same)

lemma is_draft_key: "is_draft owner mid v x \<longleftrightarrow> row_key x = (owner, mid, v)"
  by (cases x) (auto simp: is_draft_def row_key_def)

lemma may_change_upd:
  assumes "\<And>x. Q x \<Longrightarrow> row_key x = k \<and> R (snd x) (f (snd x)) \<and> row_key (fst x, f (snd x)) = row_key x"
  shows "may_change k R us (upd_where Q (\<lambda>(o', r). (o', f r)) us)"
  unfolding may_change_def using assms by (induction us) (auto split: prod.splits)

lemma has_changed_upd:
  assumes "\<And>x. Q x \<Longrightarrow> row_key x = k \<and> R (snd x) (f (snd x)) \<and> row_key (fst x, f (snd x)) = row_key x"
    and "distinct (map row_key us)" and "x \<in> set us" and "Q x"
  shows "has_changed k R us (upd_where Q (\<lambda>(o', r). (o', f r)) us)"
  unfolding has_changed_def
proof (intro ballI impI)
  fix y
  assume y: "y \<in> set (upd_where Q (\<lambda>(o', r). (o', f r)) us)" "row_key y = k"
  then have "y \<in> (\<lambda>z. if Q z then (fst z, f (snd z)) else z) ` set us"
    by (simp add: upd_where_def split_beta)
  then obtain z where z: "y = (if Q z then (fst z, f (snd z)) else z)" "z \<in> set us" by (rule imageE)
  then have "row_key z = k" using y(2) assms(1) by (metis (full_types))
  then have "z = x" using assms(2,3,4) assms(1) [of x] z(2) by (metis distinct_map inj_onD)
  then show "\<exists>x \<in> set us. row_key x = k \<and> R (snd x) (snd y)" using assms(1) [OF assms(4)] assms(3,4) z by (intro bexI [of _ x]) auto
qed

lemma change_draft_op:
  assumes f: "\<And>w o' c. f w o' c = (None, c) \<or> f w o' c = runTx w (change_draft o' mid v P (g (wi_clock w))) c"
    and g: "\<And>t r. up_id (g t r) = up_id r \<and> up_variant (g t r) = up_variant r"
    and R: "\<And>t r. P r \<Longrightarrow> R r (g t r)"
  shows "draft_op mid v R f"
  unfolding draft_op_def
proof (intro allI impI)
  fix w o' c r c'
  assume a: "cn_txn c = None \<and> distinct (map row_key (drafts_of c)) \<and> f w o' c = (r, c')"
  let ?Q = "\<lambda>x. is_draft o' mid v x \<and> P (snd x)"
  let ?us = "upd_where ?Q (\<lambda>(o', r). (o', g (wi_clock w) r)) (drafts_of c)"
  have Q: "?Q x \<Longrightarrow> row_key x = (o', mid, v) \<and> R (snd x) (g (wi_clock w) (snd x)) \<and>
      row_key (fst x, g (wi_clock w) (snd x)) = row_key x" for x
    using g R by (cases x) (auto simp: is_draft_key, auto simp: row_key_def)
  have e: "ensures (change_draft o' mid v P (g (wi_clock w)))
      (\<lambda>_ d'. cd_uploads d' = ?us \<and> (\<exists>x \<in> set (drafts_of c). ?Q x)) (cn_db c\<lparr>cd_journal := js\<rparr>)" for js
    unfolding change_draft_def
    by (intro ensures_intros) (auto simp: set_draft_def Let_def dest: count_one)
  show "cn_txn c' = None \<and> may_change (o', mid, v) R (drafts_of c) (drafts_of c') \<and>
        (r \<noteq> None \<longrightarrow> has_changed (o', mid, v) R (drafts_of c) (drafts_of c'))"
  proof (cases "f w o' c = (None, c)")
    case True
    then show ?thesis using a by simp
  next
    case False
    then have run: "runTx w (change_draft o' mid v P (g (wi_clock w))) c = (r, c')" using f a by metis
    note x = runTx_ensures [OF run _ e]
    have M: "may_change (o', mid, v) R (drafts_of c) ?us"
      by (rule may_change_upd) (rule Q)
    have H: "has_changed (o', mid, v) R (drafts_of c) ?us" if "y \<in> set (drafts_of c)" "?Q y" for y
      by (rule has_changed_upd) (rule Q, simp, use a that in auto)
    have "may_change (o', mid, v) R (drafts_of c) (drafts_of c')" using x a M by auto
    moreover have "has_changed (o', mid, v) R (drafts_of c) (drafts_of c')" if "r \<noteq> None"
      using x a that H by auto
    ultimately show ?thesis using x a by simp
  qed
qed

definition session_edit :: "string \<Rightarrow> int \<Rightarrow> int \<Rightarrow> draft_row \<Rightarrow> draft_row \<Rightarrow> bool" where
  "session_edit uid csize n r r' \<longleftrightarrow> uid \<noteq> [] \<and>
     (\<exists>t. r' = r\<lparr>up_upload := uid, up_chunkSize := csize, up_chunkCount := n, up_state := UpUploading,
               up_error := 0, up_updated := t\<rparr>)"

definition reset_edit :: "string \<Rightarrow> int \<Rightarrow> int \<Rightarrow> draft_row \<Rightarrow> draft_row \<Rightarrow> bool" where
  "reset_edit uid csize n r r' \<longleftrightarrow> uid \<noteq> [] \<and>
     (\<exists>t. r' = r\<lparr>up_upload := uid, up_chunkSize := csize, up_chunkCount := n, up_chunks := [], up_file := [],
               up_state := UpUploading, up_error := 0, up_updated := t\<rparr>)"

definition mark_edit :: "int \<Rightarrow> draft_row \<Rightarrow> draft_row \<Rightarrow> bool" where
  "mark_edit i r r' \<longleftrightarrow> 0 \<le> i \<and> i < up_chunkCount r \<and>
     (\<exists>t. r' = r\<lparr>up_chunks := add_chunk i (up_chunks r), up_updated := t\<rparr>)"

definition file_edit :: "string \<Rightarrow> draft_row \<Rightarrow> draft_row \<Rightarrow> bool" where
  "file_edit fid r r' \<longleftrightarrow>
     (\<exists>t. r' = r\<lparr>up_file := fid, up_state := UpFinal, up_error := 0, up_updated := t\<rparr>)"

definition state_edit :: "draft_state \<Rightarrow> int \<Rightarrow> draft_row \<Rightarrow> draft_row \<Rightarrow> bool" where
  "state_edit st code r r' \<longleftrightarrow> (\<exists>t. r' = r\<lparr>up_state := st, up_error := code, up_updated := t\<rparr>)"

lemmas edit_defs = session_edit_def reset_edit_def mark_edit_def file_edit_def state_edit_def

lemma session_op: "draft_op mid v (session_edit uid csize n) (\<lambda>w owner. setUploadDraftSession w owner mid v uid csize n)"
proof (cases "uid = []")
  case True
  then show ?thesis by (auto simp: draft_op_def setUploadDraftSession_def)
next
  case False
  show ?thesis
    by (rule change_draft_op [where P = resumable and g = "\<lambda>t r. r\<lparr>up_upload := uid, up_chunkSize := csize,
          up_chunkCount := n, up_state := UpUploading, up_error := 0, up_updated := t\<rparr>"])
      (use False in \<open>auto simp: setUploadDraftSession_def session_edit_def\<close>)
qed

lemma reset_op: "draft_op mid v (reset_edit uid csize n) (\<lambda>w owner. resetUploadDraftForNewSession w owner mid v uid csize n)"
proof (cases "uid = []")
  case True
  then show ?thesis by (auto simp: draft_op_def resetUploadDraftForNewSession_def)
next
  case False
  show ?thesis
    by (rule change_draft_op [where P = resumable and g = "\<lambda>t r. r\<lparr>up_upload := uid, up_chunkSize := csize,
          up_chunkCount := n, up_chunks := [], up_file := [], up_state := UpUploading, up_error := 0, up_updated := t\<rparr>"])
      (use False in \<open>auto simp: resetUploadDraftForNewSession_def reset_edit_def\<close>)
qed

lemma file_op: "draft_op mid v (file_edit fid) (\<lambda>w owner. setUploadDraftFileId w owner mid v fid)"
  by (rule change_draft_op [where P = "\<lambda>r. resumable r \<or> up_state r = UpFinal \<and> up_file r = fid"
        and g = "\<lambda>t r. r\<lparr>up_file := fid, up_state := UpFinal, up_error := 0, up_updated := t\<rparr>"])
    (auto simp: setUploadDraftFileId_def file_edit_def)

lemma state_op: "draft_op mid v (state_edit st code) (\<lambda>w owner. setUploadDraftState w owner mid v st code)"
  by (rule change_draft_op [where P = "\<lambda>r. \<not> terminal_draft r"
        and g = "\<lambda>t r. r\<lparr>up_state := st, up_error := code, up_updated := t\<rparr>"])
    (auto simp: setUploadDraftState_def state_edit_def)

lemma ensures_case_prod: "(\<And>a b. x = (a, b) \<Longrightarrow> ensures (k a b) Q d) \<Longrightarrow> ensures (case x of (a, b) \<Rightarrow> k a b) Q d"
  by (cases x) simp

lemma mark_op: "draft_op mid v (mark_edit i) (\<lambda>w owner. markUploadChunkDone w owner mid v i)"
  unfolding draft_op_def
proof (intro allI impI)
  fix w o' c r c'
  assume a: "cn_txn c = None \<and> distinct (map row_key (drafts_of c)) \<and> markUploadChunkDone w o' mid v i c = (r, c')"
  let ?g = "\<lambda>r. r\<lparr>up_chunks := add_chunk i (up_chunks r), up_updated := wi_clock w\<rparr>"
  let ?Q = "\<lambda>x. is_draft o' mid v x \<and> 0 \<le> i \<and> i < up_chunkCount (snd x)"
  let ?us = "upd_where ?Q (\<lambda>(o', r). (o', ?g r)) (drafts_of c)"
  have Q: "?Q x \<Longrightarrow> row_key x = (o', mid, v) \<and> mark_edit i (snd x) (?g (snd x)) \<and>
      row_key (fst x, ?g (snd x)) = row_key x" for x
    by (cases x) (auto simp: is_draft_key mark_edit_def, auto simp: row_key_def)
  have eq: "upd_where (is_draft o' mid v) (\<lambda>(o', q). (o', q\<lparr>up_chunks := add_chunk i (up_chunks q0), up_updated := wi_clock w\<rparr>))
      (drafts_of c) = ?us"
    if "(o1, q0) \<in> set (drafts_of c)" "is_draft o' mid v (o1, q0)" "0 \<le> i" "i < up_chunkCount q0" for o1 q0
  proof -
    have "x = (o1, q0)" if x: "x \<in> set (drafts_of c)" "is_draft o' mid v x" for x
      using a x \<open>(o1, q0) \<in> _\<close> \<open>is_draft o' mid v (o1, q0)\<close> unfolding is_draft_key by (metis distinct_map inj_onD)
    then show ?thesis unfolding upd_where_def using that(3,4) by (intro map_cong) auto
  qed
  have e: "ensures (mark_body (wi_clock w) o' mid v i)
      (\<lambda>_ d'. cd_uploads d' = ?us \<and> (\<exists>x \<in> set (drafts_of c). ?Q x)) (cn_db c\<lparr>cd_journal := js\<rparr>)" if "0 \<le> i" for js
    unfolding mark_body_def using that
    by (intro ensures_intros ensures_case_prod)
      (force simp: set_draft_def Let_def eq dest!: find_SomeD)+
  have M: "may_change (o', mid, v) (mark_edit i) (drafts_of c) ?us"
    by (rule may_change_upd) (rule Q)
  have H: "has_changed (o', mid, v) (mark_edit i) (drafts_of c) ?us" if "y \<in> set (drafts_of c)" "?Q y" for y
    by (rule has_changed_upd) (rule Q, simp, use a that in auto)
  show "cn_txn c' = None \<and> may_change (o', mid, v) (mark_edit i) (drafts_of c) (drafts_of c') \<and>
        (r \<noteq> None \<longrightarrow> has_changed (o', mid, v) (mark_edit i) (drafts_of c) (drafts_of c'))"
  proof (cases "o' \<le> 0 \<or> mid = [] \<or> i < 0")
    case True
    then show ?thesis using a by (auto simp: markUploadChunkDone_def)
  next
    case False
    then have "runTx w (mark_body (wi_clock w) o' mid v i) c = (r, c')" "0 \<le> i"
      using a by (simp_all add: markUploadChunkDone_def)
    from runTx_ensures [OF this(1) _ e [OF this(2)]] show ?thesis using a M H by auto
  qed
qed

section \<open>Triples\<close>

type_synonym view = "int \<Rightarrow> up_call list \<Rightarrow> (int \<times> draft_row) list \<Rightarrow> bool"

text \<open>A draft as it was read is still the one stored, as far as its session goes.\<close>

definition same_session :: "'a draft_row_scheme \<Rightarrow> 'b draft_row_scheme \<Rightarrow> bool" where
  "same_session r d \<longleftrightarrow> up_upload r = up_upload d \<and> up_chunkSize r = up_chunkSize d \<and>
     up_chunkCount r = up_chunkCount d \<and> up_path r = up_path d \<and> up_size r = up_size d"

definition draft_key :: "int \<Rightarrow> upload_draft \<Rightarrow> int \<times> string \<times> media_variant" where
  "draft_key o' d = (o', up_id d, up_variant d)"

definition held :: "upload_draft \<Rightarrow> view" where
  "held d o' cs us \<longleftrightarrow> draft_ok cs d \<and> (\<forall>x \<in> set us. row_key x = draft_key o' d \<longrightarrow> same_session (snd x) d)"

definition media_ok :: "media_env \<Rightarrow> upload_draft set \<Rightarrow> media \<Rightarrow> bool" where
  "media_ok E D s \<longleftrightarrow> cn_txn (mw_conn s) = None \<and> log_ok E (mw_calls s) \<and>
     drafts_ok (mw_calls s) (drafts_of (mw_conn s)) \<and>
     (\<forall>d \<in> D. held d (mw_owner s) (mw_calls s) (drafts_of (mw_conn s)))"

definition triple :: "media_env \<Rightarrow> upload_draft set \<Rightarrow> view \<Rightarrow> 'a up_step \<Rightarrow> ('a \<Rightarrow> view) \<Rightarrow> bool" where
  "triple E D P m Q \<longleftrightarrow>
     (\<forall>s. media_ok E D s \<and> P (mw_owner s) (mw_calls s) (drafts_of (mw_conn s)) \<longrightarrow>
        (case m s of (r, s') \<Rightarrow> media_ok E D s' \<and> mw_owner s' = mw_owner s \<and>
           (\<forall>x. r = Inr x \<longrightarrow> Q x (mw_owner s') (mw_calls s') (drafts_of (mw_conn s')))))"

named_theorems triple_intros "what a step of the media service does"

lemma tripleI:
  assumes "\<And>s r s'. media_ok E D s \<Longrightarrow> P (mw_owner s) (mw_calls s) (drafts_of (mw_conn s)) \<Longrightarrow> m s = (r, s') \<Longrightarrow>
    media_ok E D s' \<and> mw_owner s' = mw_owner s \<and>
    (\<forall>x. r = Inr x \<longrightarrow> Q x (mw_owner s') (mw_calls s') (drafts_of (mw_conn s')))"
  shows "triple E D P m Q"
  using assms by (auto simp: triple_def split: prod.splits)

lemma tripleD:
  assumes "triple E D P m Q" and "media_ok E D s" and "P (mw_owner s) (mw_calls s) (drafts_of (mw_conn s))"
    and "m s = (r, s')"
  shows "media_ok E D s'" and "mw_owner s' = mw_owner s"
    and "r = Inr x \<Longrightarrow> Q x (mw_owner s') (mw_calls s') (drafts_of (mw_conn s'))"
proof -
  have "media_ok E D s' \<and> mw_owner s' = mw_owner s \<and>
      (\<forall>x. r = Inr x \<longrightarrow> Q x (mw_owner s') (mw_calls s') (drafts_of (mw_conn s')))"
    using mp [OF spec [OF assms(1) [unfolded triple_def]] conjI [OF assms(2,3)]] unfolding assms(4) prod.case .
  then show "media_ok E D s'" "mw_owner s' = mw_owner s"
      "r = Inr x \<Longrightarrow> Q x (mw_owner s') (mw_calls s') (drafts_of (mw_conn s'))" by blast+
qed

lemma triple_then [triple_intros]:
  assumes "triple E D P m R" and "\<And>x. triple E D (R x) (k x) Q"
  shows "triple E D P (mw_then m k) Q"
proof (rule tripleI)
  fix s r s'
  assume ok: "media_ok E D s" "P (mw_owner s) (mw_calls s) (drafts_of (mw_conn s))" and run: "mw_then m k s = (r, s')"
  obtain r1 s1 where m: "m s = (r1, s1)" by (cases "m s")
  note t = tripleD [OF assms(1) ok m]
  show "media_ok E D s' \<and> mw_owner s' = mw_owner s \<and>
    (\<forall>x. r = Inr x \<longrightarrow> Q x (mw_owner s') (mw_calls s') (drafts_of (mw_conn s')))"
  proof (cases r1)
    case (Inl b)
    then show ?thesis using run m t by (auto simp: mw_then_def)
  next
    case (Inr x)
    then have "k x s1 = (r, s')" using run m by (simp add: mw_then_def)
    from tripleD [OF assms(2) t(1) t(3) [OF Inr] this] t(2) show ?thesis by metis
  qed
qed

lemma triple_value [triple_intros]: "(\<And>o' cs us. P o' cs us \<Longrightarrow> Q x o' cs us) \<Longrightarrow> triple E D P (mw_value x) Q"
  by (rule tripleI) (auto simp: mw_value_def)

lemma triple_return [triple_intros]: "triple E D P (mw_return b) Q"
  by (rule tripleI) (auto simp: mw_return_def)

lemma triple_pre: "triple E D R m Q \<Longrightarrow> (\<And>o' cs us. P o' cs us \<Longrightarrow> R o' cs us) \<Longrightarrow> triple E D P m Q"
  by (auto simp: triple_def)

lemma triple_post:
  assumes "triple E D P m R" and "\<And>x o' cs us. R x o' cs us \<Longrightarrow> Q x o' cs us"
  shows "triple E D P m Q"
proof (rule tripleI)
  fix s r s'
  assume "media_ok E D s" "P (mw_owner s) (mw_calls s) (drafts_of (mw_conn s))" "m s = (r, s')"
  note t = tripleD [OF assms(1) this]
  show "media_ok E D s' \<and> mw_owner s' = mw_owner s \<and>
    (\<forall>x. r = Inr x \<longrightarrow> Q x (mw_owner s') (mw_calls s') (drafts_of (mw_conn s')))"
    using t(1,2) assms(2) [OF t(3)] by blast
qed

lemma triple_if [triple_intros]:
  "(b \<Longrightarrow> triple E D P m Q) \<Longrightarrow> (\<not> b \<Longrightarrow> triple E D P k Q) \<Longrightarrow> triple E D P (if b then m else k) Q"
  by simp

lemma triple_option [triple_intros]:
  "(x = None \<Longrightarrow> triple E D P m Q) \<Longrightarrow> (\<And>y. x = Some y \<Longrightarrow> triple E D P (k y) Q) \<Longrightarrow>
     triple E D P (case x of None \<Rightarrow> m | Some y \<Rightarrow> k y) Q"
  by (cases x) simp_all

lemma triple_pair [triple_intros]:
  "(\<And>a b. x = (a, b) \<Longrightarrow> triple E D P (k a b) Q) \<Longrightarrow> triple E D P (case x of (a, b) \<Rightarrow> k a b) Q"
  by (cases x) simp

lemma triple_must [triple_intros]:
  assumes "triple E D P m (\<lambda>r o' cs us. \<forall>x. r = Some x \<longrightarrow> Q x o' cs us)"
  shows "triple E D P (mw_must m) Q"
  unfolding mw_must_def
  by (rule triple_then [OF assms]) (auto intro!: triple_option triple_return triple_value)

lemma triple_progress [triple_intros]: "(\<And>o' cs us. P o' cs us \<Longrightarrow> Q () o' cs us) \<Longrightarrow> triple E D P (reportProgress d) Q"
  by (rule tripleI) (auto simp: reportProgress_def media_ok_def)

lemma triple_file:
  assumes "\<And>o' cs us. P o' cs us \<Longrightarrow> Q (mv_file E (length cs) (up_path d)) o' cs us"
  shows "triple E D P (mw_file E d) Q"
  by (rule tripleI) (use assms in \<open>auto simp: mw_file_def\<close>)

lemma held_mono: "set cs \<subseteq> set cs' \<Longrightarrow> held d o' cs us \<Longrightarrow> held d o' cs' us"
  unfolding held_def using draft_ok_mono by blast

lemma triple_call:
  assumes "\<And>o' cs us a. P o' cs us \<Longrightarrow> drafts_ok cs us \<Longrightarrow> call_ok E cs (e a) \<and> Q a o' (cs @ [e a]) us"
  shows "triple E D P (mw_call answers e) Q"
proof (rule tripleI)
  fix s r s'
  assume ok: "media_ok E D s" "P (mw_owner s) (mw_calls s) (drafts_of (mw_conn s))" and run: "mw_call answers e s = (r, s')"
  let ?a = "answers (length (mw_calls s))"
  have m: "set (mw_calls s) \<subseteq> set (mw_calls s @ [e ?a])" by auto
  show "media_ok E D s' \<and> mw_owner s' = mw_owner s \<and>
    (\<forall>x. r = Inr x \<longrightarrow> Q x (mw_owner s') (mw_calls s') (drafts_of (mw_conn s')))"
    using run assms [OF ok(2), of ?a] ok(1) drafts_ok_mono [OF m] held_mono [OF m]
    by (auto simp: mw_call_def Let_def media_ok_def)
qed

text \<open>A draft that is read is in order and held from then on.\<close>

lemma getUploadDraftD:
  assumes "getUploadDraft io owner mid v db = Some d"
  shows "\<exists>r. (owner, r) \<in> set (cd_uploads db) \<and> d = draft_of r \<and> up_id r = mid \<and> up_variant r = v"
proof -
  let ?rows = "map (draft_of \<circ> snd) (filter (is_draft owner mid v) (cd_uploads db))"
  have "fetch_one io ?rows = Some d" using assms by (simp add: getUploadDraft_def split: if_splits)
  then have "d \<in> set ?rows" by (rule fetch_one_in)
  then show ?thesis by (auto simp: is_draft_def)
qed

lemma draft_of_fields [simp]:
  "up_id (draft_of r) = up_id r" "up_variant (draft_of r) = up_variant r" "up_upload (draft_of r) = up_upload r"
  "up_chunkSize (draft_of r) = up_chunkSize r" "up_chunkCount (draft_of r) = up_chunkCount r"
  "up_path (draft_of r) = up_path r" "up_size (draft_of r) = up_size r" "up_state (draft_of r) = up_state r"
  "ud_done (draft_of r) = splitChunkIndices (up_chunks r)"
  by (simp_all add: draft_of_def draft_row.defs)

lemma held_read:
  assumes "drafts_ok cs us" and "(o', r) \<in> set us"
  shows "held (draft_of r) o' cs us"
proof -
  have k: "draft_key o' (draft_of r) = row_key (o', r)" by (simp add: draft_key_def row_key_def)
  have "x = (o', r)" if "x \<in> set us" "row_key x = row_key (o', r)" for x
    using assms that unfolding drafts_ok_def by (metis distinct_map inj_onD)
  then have "\<forall>x \<in> set us. row_key x = row_key (o', r) \<longrightarrow> same_session (snd x) (draft_of r)"
    by (simp add: same_session_def) fastforce
  then show ?thesis
    using assms unfolding held_def k by (auto simp: drafts_ok_def)
qed

lemma triple_get:
  assumes "\<And>o' cs us. P o' cs us \<Longrightarrow> Q None o' cs us"
    and "\<And>o' cs us d. P o' cs us \<Longrightarrow> held d o' cs us \<Longrightarrow> up_id d = mid \<Longrightarrow> up_variant d = v \<Longrightarrow> Q (Some d) o' cs us"
  shows "triple E D P (mw_get E mid v) Q"
proof (rule tripleI)
  fix s r s'
  assume ok: "media_ok E D s" "P (mw_owner s) (mw_calls s) (drafts_of (mw_conn s))" and run: "mw_get E mid v s = (r, s')"
  obtain x where x: "getUploadDraft (mv_read E (mw_reads s)) (mw_owner s) mid v (cn_db (mw_conn s)) = x" "r = Inr x"
      "s' = s\<lparr>mw_reads := mw_reads s + 1\<rparr>"
    using run by (auto simp: mw_get_def)
  have "Q x (mw_owner s) (mw_calls s) (drafts_of (mw_conn s))"
  proof (cases x)
    case None
    then show ?thesis using assms(1) ok by simp
  next
    case (Some d)
    then obtain q where "(mw_owner s, q) \<in> set (drafts_of (mw_conn s))" "d = draft_of q" "up_id q = mid" "up_variant q = v"
      using getUploadDraftD x(1) by metis
    then show ?thesis
      using assms(2) [OF ok(2)] held_read ok(1) Some by (auto simp: media_ok_def)
  qed
  then show "media_ok E D s' \<and> mw_owner s' = mw_owner s \<and>
    (\<forall>x. r = Inr x \<longrightarrow> Q x (mw_owner s') (mw_calls s') (drafts_of (mw_conn s')))"
    using ok x by (simp add: media_ok_def)
qed

text \<open>A change of one draft leaves what is known of the others.\<close>

lemma may_changeD:
  assumes "may_change k R us us'" and "y \<in> set us'"
  shows "y \<in> set us \<or> (\<exists>x \<in> set us. row_key x = k \<and> row_key y = k \<and> R (snd x) (snd y))"
  using assms unfolding may_change_def list_all2_conv_all_nth by (metis in_set_conv_nth)

lemma held_other:
  assumes "may_change k R us us'" and "draft_key o' d \<noteq> k" and "held d o' cs us"
  shows "held d o' cs us'"
  using may_changeD [OF assms(1)] assms(2,3) unfolding held_def by metis

lemma held_same:
  assumes "may_change k R us us'" and "\<And>r r'. R r r' \<Longrightarrow> same_session r' r" and "held d o' cs us"
  shows "held d o' cs us'"
  unfolding held_def
proof (intro conjI ballI impI)
  show "draft_ok cs d" using assms(3) by (simp add: held_def)
  fix y
  assume "y \<in> set us'" "row_key y = draft_key o' d"
  moreover have "same_session (snd x) d" if "x \<in> set us" "row_key x = draft_key o' d" for x
    using assms(3) that by (simp add: held_def)
  moreover have "same_session r' d" if "R r r'" "same_session r d" for r r'
    using assms(2) [OF that(1)] that(2) by (simp add: same_session_def)
  ultimately show "same_session (snd y) d" using may_changeD [OF assms(1)] by metis
qed

lemma drafts_ok_change:
  assumes "may_change k R us us'" and "drafts_ok cs us"
    and "\<And>r r'. (fst k, r) \<in> set us \<Longrightarrow> row_key (fst k, r) = k \<Longrightarrow> draft_ok cs (draft_of r) \<Longrightarrow> R r r' \<Longrightarrow>
      draft_ok cs (draft_of r')"
  shows "drafts_ok cs us'"
proof -
  have "map row_key us' = map row_key us"
    using assms(1) by (auto simp: may_change_def list_all2_conv_all_nth intro!: nth_equalityI)
  moreover have "draft_ok cs (draft_of (snd y))" if "y \<in> set us'" for y
    using may_changeD [OF assms(1) that]
  proof (elim disjE bexE conjE)
    fix x assume "x \<in> set us" "row_key x = k" "R (snd x) (snd y)"
    moreover have "fst k = fst x" using \<open>row_key x = k\<close> by (cases x) (auto simp: row_key_def)
    ultimately show ?thesis using assms(2) assms(3) [of "snd x" "snd y"] by (auto simp: drafts_ok_def)
  qed (use assms(2) in \<open>auto simp: drafts_ok_def\<close>)
  ultimately show ?thesis using assms(2) by (auto simp: drafts_ok_def)
qed

lemma triple_write:
  assumes op: "draft_op mid v R f" and other: "\<And>d o'. d \<in> D \<Longrightarrow> draft_key o' d \<noteq> (o', mid, v)"
    and row: "\<And>o' cs us r r'. P o' cs us \<Longrightarrow> (o', r) \<in> set us \<Longrightarrow> row_key (o', r) = (o', mid, v) \<Longrightarrow>
      draft_ok cs (draft_of r) \<Longrightarrow> R r r' \<Longrightarrow> draft_ok cs (draft_of r')"
    and post: "\<And>o' cs us us' r. P o' cs us \<Longrightarrow> may_change (o', mid, v) R us us' \<Longrightarrow>
      (r \<noteq> None \<Longrightarrow> has_changed (o', mid, v) R us us') \<Longrightarrow> Q r o' cs us'"
  shows "triple E D P (mw_write E f) Q"
proof (rule tripleI)
  fix s r s'
  assume ok: "media_ok E D s" "P (mw_owner s) (mw_calls s) (drafts_of (mw_conn s))" and run: "mw_write E f s = (r, s')"
  obtain x c where f: "f (mv_write E (mw_writes s)) (mw_owner s) (mw_conn s) = (x, c)" by (rule prod.exhaust)
  have s': "r = Inr x" "s' = s\<lparr>mw_conn := c, mw_writes := mw_writes s + 1\<rparr>"
    using run by (simp_all add: mw_write_def f)
  have "distinct (map row_key (drafts_of (mw_conn s)))" "cn_txn (mw_conn s) = None"
    using ok(1) by (simp_all add: media_ok_def drafts_ok_def)
  then have e: "cn_txn c = None" "may_change (mw_owner s, mid, v) R (drafts_of (mw_conn s)) (drafts_of c)"
      "x \<noteq> None \<Longrightarrow> has_changed (mw_owner s, mid, v) R (drafts_of (mw_conn s)) (drafts_of c)"
    using op f unfolding draft_op_def by blast+
  have "drafts_ok (mw_calls s) (drafts_of c)"
    by (rule drafts_ok_change [OF e(2)]) (use ok(1) in \<open>auto simp: media_ok_def intro: row [OF ok(2)]\<close>)
  moreover have "held d (mw_owner s) (mw_calls s) (drafts_of c)" if "d \<in> D" for d
    using held_other [OF e(2) other [OF that]] ok(1) that by (simp add: media_ok_def)
  moreover have "Q x (mw_owner s) (mw_calls s) (drafts_of c)" using post [OF ok(2) e(2,3)] by blast
  ultimately show "media_ok E D s' \<and> mw_owner s' = mw_owner s \<and>
    (\<forall>x. r = Inr x \<longrightarrow> Q x (mw_owner s') (mw_calls s') (drafts_of (mw_conn s')))"
    using ok(1) e(1) s' by (simp add: media_ok_def)
qed

section \<open>The edits keep drafts in order\<close>

lemma created_for_draft_of [simp]: "created_for cs (draft_of r) = created_for cs r"
  by (simp add: created_for_def)

lemma draft_ok_session:
  assumes "session_edit (ui_upload u) (ui_chunkSize u) (ui_chunkCount u) r r'" and "draft_ok cs (draft_of r)"
    and "up_upload r = []" and "opened cs d u" and "up_path d = up_path r" and "up_size d = up_size r"
  shows "draft_ok cs (draft_of r')"
proof -
  obtain t where r': "r' = r\<lparr>up_upload := ui_upload u, up_chunkSize := ui_chunkSize u, up_chunkCount := ui_chunkCount u,
      up_state := UpUploading, up_error := 0, up_updated := t\<rparr>" "ui_upload u \<noteq> []"
    using assms(1) by (auto simp: session_edit_def)
  have "created_for cs r'" unfolding created_for_def using assms(4-6) r' by (intro exI [of _ d] exI [of _ u]) simp
  then show ?thesis using assms(2,3) r' by (simp add: draft_ok_def)
qed

lemma split_Nil [simp]: "splitChunkIndices [] = []"
  by (simp add: splitChunkIndices_def chunk_parts.simps)

lemma draft_ok_reset:
  assumes "reset_edit (ui_upload u) (ui_chunkSize u) (ui_chunkCount u) r r'"
    and "opened cs d u" and "up_path d = up_path r" and "up_size d = up_size r"
  shows "draft_ok cs (draft_of r')"
proof -
  obtain t where r': "r' = r\<lparr>up_upload := ui_upload u, up_chunkSize := ui_chunkSize u, up_chunkCount := ui_chunkCount u,
      up_chunks := [], up_file := [], up_state := UpUploading, up_error := 0, up_updated := t\<rparr>" "ui_upload u \<noteq> []"
    using assms(1) by (auto simp: reset_edit_def)
  have "created_for cs r'" unfolding created_for_def using assms(2-4) r' by (intro exI [of _ d] exI [of _ u]) simp
  then show ?thesis using r' by (simp add: draft_ok_def)
qed

lemma draft_ok_mark:
  assumes "mark_edit i r r'" and "draft_ok cs (draft_of r)" and "0 \<le> i \<Longrightarrow> server_has cs (up_upload r) i"
  shows "draft_ok cs (draft_of r')"
proof -
  obtain t where r': "r' = r\<lparr>up_chunks := add_chunk i (up_chunks r), up_updated := t\<rparr>" "0 \<le> i" "i < up_chunkCount r"
    using assms(1) by (auto simp: mark_edit_def)
  have ok: "distinct (splitChunkIndices (up_chunks r))" "up_upload r \<noteq> []" "created_for cs r"
      "\<And>j. j \<in> set (splitChunkIndices (up_chunks r)) \<Longrightarrow> 0 \<le> j \<and> j < up_chunkCount r \<and> server_has cs (up_upload r) j"
    using assms(2) r' by (auto simp: draft_ok_def split: if_splits)
  have "\<forall>x \<in> set (splitChunkIndices (up_chunks r)). 0 \<le> x" using ok(4) by blast
  note a = split_add_chunk [OF ok(1) this r'(2)]
  have "created_for cs r'" using ok(3) r' by (simp add: created_for_def)
  then show ?thesis using a ok assms(3) r' by (auto simp: draft_ok_def)
qed

lemma draft_ok_file: "file_edit fid r r' \<Longrightarrow> draft_ok cs (draft_of r) \<Longrightarrow> draft_ok cs (draft_of r')"
  by (auto simp: file_edit_def draft_ok_def created_for_def)

lemma draft_ok_state:
  "state_edit st code r r' \<Longrightarrow> st = UpUploading \<longrightarrow> up_upload r \<noteq> [] \<Longrightarrow> draft_ok cs (draft_of r) \<Longrightarrow> draft_ok cs (draft_of r')"
  by (auto simp: state_edit_def draft_ok_def created_for_def)

lemma same_session_edits:
  "mark_edit i r r' \<Longrightarrow> same_session r' r" "file_edit fid r r' \<Longrightarrow> same_session r' r"
  "state_edit st code r r' \<Longrightarrow> same_session r' r"
  by (auto simp: edit_defs same_session_def)

section \<open>The steps of an upload\<close>

definition apart :: "upload_draft set \<Rightarrow> string \<Rightarrow> media_variant \<Rightarrow> bool" where
  "apart D mid v \<longleftrightarrow> (\<forall>d \<in> D. up_id d \<noteq> mid \<or> up_variant d \<noteq> v)"

lemma apartD: "apart D mid v \<Longrightarrow> d \<in> D \<Longrightarrow> draft_key o' d \<noteq> (o', mid, v)"
  by (auto simp: apart_def draft_key_def)

lemma triple_fail [triple_intros]:
  assumes "apart D (up_id d) (up_variant d)"
  shows "triple E D P (failDraft E d code) Q"
  unfolding failDraft_def
  by (rule triple_then [OF _ triple_return], rule triple_write [OF state_op apartD [OF assms]])
    (auto intro: draft_ok_state)

lemma triple_adopt [triple_intros]:
  assumes "apart D (up_id d) (up_variant d)"
  shows "triple E D P (adopt_file E d fid) Q"
  unfolding adopt_file_def
  by (rule triple_then [OF _ triple_return], rule triple_write [OF file_op apartD [OF assms]])
    (auto intro: draft_ok_file)

text \<open>The server has what is to be marked.\<close>

definition has_marks :: "string \<Rightarrow> media_variant \<Rightarrow> int list \<Rightarrow> view" where
  "has_marks mid v is o' cs us \<longleftrightarrow>
     (\<forall>x \<in> set us. row_key x = (o', mid, v) \<longrightarrow> (\<forall>i \<in> set is. 0 \<le> i \<longrightarrow> server_has cs (up_upload (snd x)) i))"

lemma has_marks_change:
  assumes "has_marks mid v is o' cs us" and "may_change (o', mid, v) R us us'" and "\<And>r r'. R r r' \<Longrightarrow> same_session r' r"
  shows "has_marks mid v is o' cs us'"
  unfolding has_marks_def
proof (intro ballI impI)
  fix y i
  assume y: "y \<in> set us'" "row_key y = (o', mid, v)" and i: "i \<in> set is" "0 \<le> i"
  have u: "up_upload r' = up_upload r" if "R r r'" for r r' using assms(3) [OF that] by (simp add: same_session_def)
  then show "server_has cs (up_upload (snd y)) i"
    using may_changeD [OF assms(2) y(1)]
  proof (elim disjE bexE conjE)
    fix x
    assume "x \<in> set us" "row_key x = (o', mid, v)" "R (snd x) (snd y)"
    then show ?thesis using assms(1) i u by (simp add: has_marks_def)
  qed (use assms(1) y(2) i in \<open>simp add: has_marks_def\<close>)
qed

lemma held_marks:
  assumes "held d o' cs us" and "\<And>i. i \<in> set is \<Longrightarrow> server_has cs (up_upload d) i"
  shows "has_marks (up_id d) (up_variant d) is o' cs us"
  using assms by (auto simp: held_def has_marks_def draft_key_def same_session_def)

lemma triple_mark:
  assumes "apart D mid v"
  shows "triple E D (\<lambda>o' cs us. has_marks mid v (i # is) o' cs us \<and> (b \<longrightarrow> held e o' cs us))
    (mw_write E (\<lambda>w owner. markUploadChunkDone w owner mid v i))
    (\<lambda>_ o' cs us. has_marks mid v is o' cs us \<and> (b \<longrightarrow> held e o' cs us))"
proof (rule triple_write [OF mark_op apartD [OF assms]])
  fix o' cs us r r'
  assume m: "has_marks mid v (i # is) o' cs us \<and> (b \<longrightarrow> held e o' cs us)" "(o', r) \<in> set us"
    "row_key (o', r) = (o', mid, v)" and ok: "draft_ok cs (draft_of r)" and e: "mark_edit i r r'"
  have "0 \<le> i \<Longrightarrow> server_has cs (up_upload r) i"
    using bspec [OF m(1) [THEN conjunct1, unfolded has_marks_def] m(2)] m(3) by simp
  then show "draft_ok cs (draft_of r')" by (rule draft_ok_mark [OF e ok])
next
  fix o' cs us us' and r :: "unit option"
  assume pre: "has_marks mid v (i # is) o' cs us \<and> (b \<longrightarrow> held e o' cs us)" "may_change (o', mid, v) (mark_edit i) us us'"
  have "has_marks mid v is o' cs us" using pre(1) by (auto simp: has_marks_def)
  then show "has_marks mid v is o' cs us' \<and> (b \<longrightarrow> held e o' cs us')"
    using has_marks_change [OF _ pre(2)] held_same [OF pre(2)] pre(1) same_session_edits(1) by blast
qed

lemma triple_mark_all:
  assumes "apart D (up_id d) (up_variant d)"
  shows "triple E D (\<lambda>o' cs us. has_marks (up_id d) (up_variant d) is o' cs us \<and> (b \<longrightarrow> held e o' cs us))
    (mark_all E d is) (\<lambda>_ o' cs us. b \<longrightarrow> held e o' cs us)"
proof (induction "is")
  case Nil
  show ?case by (auto intro!: triple_value)
next
  case (Cons i "is")
  show ?case by (simp only: mark_all.simps) (rule triple_then [OF triple_mark [OF assms] Cons])
qed

text \<open>A draft that was read again.\<close>

definition again :: "upload_draft \<Rightarrow> upload_draft \<Rightarrow> view" where
  "again d d' o' cs us \<longleftrightarrow> held d' o' cs us \<and> up_id d' = up_id d \<and> up_variant d' = up_variant d"

lemma again_refl: "held d o' cs us \<Longrightarrow> again d d o' cs us"
  by (simp add: again_def)

lemma triple_reread [triple_intros]:
  "triple E D P (mw_must (mw_get E (up_id d) (up_variant d))) (again d)"
  by (rule triple_must, rule triple_get) (auto simp: again_def)

text \<open>A session was asked for.\<close>

definition asked :: "upload_draft \<Rightarrow> up_result \<Rightarrow> session_info \<Rightarrow> view" where
  "asked d r u o' cs us \<longleftrightarrow> held d o' cs us \<and>
     (ur_ok r \<longrightarrow> (\<not> ui_instant u \<longrightarrow> opened cs d u) \<and> (\<forall>i \<in> set (ui_received u). server_has cs (ui_upload u) i))"

lemma triple_create: "triple E D (held d) (createSession E d) (\<lambda>(r, u). asked d r u)"
  unfolding createSession_def
proof (rule triple_call)
  fix o' cs us and a :: "up_result \<times> session_info"
  assume h: "held d o' cs us"
  obtain r u where a: "a = (r, u)" by (cases a)
  have "held d o' (cs @ [CallCreate d r u]) us" by (rule held_mono [OF _ h]) auto
  then show "call_ok E cs (case a of (r, u) \<Rightarrow> CallCreate d r u) \<and>
      (case a of (r, u) \<Rightarrow> asked d r u) o' (cs @ [case a of (r, u) \<Rightarrow> CallCreate d r u]) us"
    by (auto simp: a asked_def call_ok_def opened_def server_has_def)
qed

lemma triple_instant [triple_intros]:
  assumes "apart D (up_id d) (up_variant d)"
  shows "triple E D P (instant_upload E d u) Q"
  unfolding instant_upload_def
  by (rule triple_then [where R = "\<lambda>_ _ _ _. True"], rule triple_file, simp, intro triple_option triple_fail assms,
      rule triple_then [where R = "\<lambda>_ _ _ _. True"], rule triple_call, simp add: call_ok_def split: prod.splits,
      intro triple_pair triple_if triple_fail triple_adopt assms)

lemma triple_set_session:
  assumes "apart D (up_id d) (up_variant d)" and "up_upload d = []" and "ur_ok r" and "\<not> ui_instant u"
  shows "triple E D (asked d r u)
    (mw_must (mw_write E (\<lambda>w owner. setUploadDraftSession w owner (up_id d) (up_variant d) (ui_upload u)
      (ui_chunkSize u) (ui_chunkCount u))))
    (\<lambda>_. has_marks (up_id d) (up_variant d) (ui_received u))"
proof (rule triple_must, rule triple_write [OF session_op apartD [OF assms(1)]])
  fix o' cs us q q'
  assume a: "asked d r u o' cs us" "(o', q) \<in> set us" "row_key (o', q) = (o', up_id d, up_variant d)"
    and ok: "draft_ok cs (draft_of q)" and e: "session_edit (ui_upload u) (ui_chunkSize u) (ui_chunkCount u) q q'"
  have "opened cs d u" "same_session q d"
    using a assms(3,4) by (auto simp: asked_def held_def draft_key_def)
  then show "draft_ok cs (draft_of q')"
    using assms(2) by (intro draft_ok_session [OF e ok]) (auto simp: same_session_def)
next
  fix o' cs us us' and x :: "unit option"
  assume a: "asked d r u o' cs us"
    and c: "x \<noteq> None \<Longrightarrow> has_changed (o', up_id d, up_variant d)
      (session_edit (ui_upload u) (ui_chunkSize u) (ui_chunkCount u)) us us'"
  have "up_upload q' = ui_upload u" if "session_edit (ui_upload u) (ui_chunkSize u) (ui_chunkCount u) q q'" for q q'
    using that by (auto simp: session_edit_def)
  then show "\<forall>y. x = Some y \<longrightarrow> has_marks (up_id d) (up_variant d) (ui_received u) o' cs us'"
    using a c assms(3) unfolding asked_def has_marks_def has_changed_def by fastforce
qed

lemma triple_open:
  assumes "apart D (up_id d) (up_variant d)"
  shows "triple E D (held d) (open_session E d) (again d)"
proof -
  have marks: "triple E D (has_marks (up_id d) (up_variant d) is) (mark_all E d is) (\<lambda>_ _ _ _. True)" for "is"
    using triple_mark_all [OF assms, of E "is" False] by simp
  have progress: "triple E D (again d d') (mw_then (reportProgress d') (\<lambda>_. mw_value d')) (again d)" for d'
    by (rule triple_then [where R = "\<lambda>_. again d d'"]) (rule triple_progress triple_value, assumption)+
  have "triple E D (asked d r u)
      (if \<not> ur_ok r then failDraft E d (fail_code r)
       else if ui_instant u then instant_upload E d u
       else
         mw_then (mw_must (mw_write E (\<lambda>w owner. setUploadDraftSession w owner (up_id d) (up_variant d)
           (ui_upload u) (ui_chunkSize u) (ui_chunkCount u)))) (\<lambda>_.
         mw_then (mark_all E d (ui_received u)) (\<lambda>_.
         mw_then (mw_must (mw_get E (up_id d) (up_variant d))) (\<lambda>d.
         mw_then (reportProgress d) (\<lambda>_. mw_value d))))) (again d)"
    if "up_upload d = []" for r u
    using that
    by (intro triple_if triple_fail triple_instant assms)
      (rule triple_then [OF triple_set_session [OF assms]], simp_all,
       rule triple_then [OF marks], rule triple_then [OF triple_reread], rule progress)
  then show ?thesis
    unfolding open_session_def
    by (intro triple_if) (rule triple_value, erule again_refl, rule triple_then [OF triple_create],
      auto split: prod.splits)
qed

lemma triple_fresh:
  assumes "apart D (up_id d) (up_variant d)"
  shows "triple E D (held d) (fresh_session E code d) (again d)"
proof -
  have "triple E D (asked d r u)
      (if \<not> ur_ok r \<or> ui_instant u then failDraft E d (code r)
       else
         mw_then (mw_must (mw_write E (\<lambda>w owner. resetUploadDraftForNewSession w owner (up_id d) (up_variant d)
           (ui_upload u) (ui_chunkSize u) (ui_chunkCount u)))) (\<lambda>_.
         mw_must (mw_get E (up_id d) (up_variant d)))) (again d)" for r u
  proof (intro triple_if triple_fail assms)
    assume ok: "\<not> (\<not> ur_ok r \<or> ui_instant u)"
    show "triple E D (asked d r u) (mw_then (mw_must (mw_write E (\<lambda>w owner. resetUploadDraftForNewSession w owner
        (up_id d) (up_variant d) (ui_upload u) (ui_chunkSize u) (ui_chunkCount u)))) (\<lambda>_.
         mw_must (mw_get E (up_id d) (up_variant d)))) (again d)"
    proof (rule triple_then [where R = "\<lambda>_ _ _ _. True", OF triple_must triple_reread], rule triple_write [OF reset_op apartD [OF assms]])
      fix o' cs us q q'
      assume a: "asked d r u o' cs us" "(o', q) \<in> set us" "row_key (o', q) = (o', up_id d, up_variant d)"
        and e: "reset_edit (ui_upload u) (ui_chunkSize u) (ui_chunkCount u) q q'"
      have "opened cs d u" "same_session q d"
        using a ok by (auto simp: asked_def held_def draft_key_def)
      then show "draft_ok cs (draft_of q')" by (intro draft_ok_reset [OF e]) (auto simp: same_session_def)
    qed auto
  qed
  then show ?thesis
    unfolding fresh_session_def by (intro triple_then [OF triple_create]) (auto split: prod.splits)
qed

lemma triple_ask:
  assumes "apart D (up_id d) (up_variant d)"
  shows "triple E D (held d) (ask_session E d) (again d)"
  unfolding ask_session_def
proof (rule triple_then [where R = "\<lambda>(r, u) o' cs us. held d o' cs us \<and> (ur_ok r \<longrightarrow> has_marks (up_id d) (up_variant d) (ui_received u) o' cs us)"])
  show "triple E D (held d) (mw_call (mv_query E) (\<lambda>(r, u). CallQuery (up_upload d) r u))
     (\<lambda>(r, u) o' cs us. held d o' cs us \<and> (ur_ok r \<longrightarrow> has_marks (up_id d) (up_variant d) (ui_received u) o' cs us))"
  proof (rule triple_call)
    fix o' cs us and a :: "up_result \<times> session_info"
    assume h: "held d o' cs us"
    obtain r u where a: "a = (r, u)" by (cases a)
    have h': "held d o' (cs @ [CallQuery (up_upload d) r u]) us" by (rule held_mono [OF _ h]) auto
    have "has_marks (up_id d) (up_variant d) (ui_received u) o' (cs @ [CallQuery (up_upload d) r u]) us" if "ur_ok r"
      by (rule held_marks [OF h']) (use that in \<open>auto simp: server_has_def\<close>)
    with h' show "call_ok E cs (case a of (r, u) \<Rightarrow> CallQuery (up_upload d) r u) \<and>
        (case a of (r, u) \<Rightarrow> \<lambda>o' cs us. held d o' cs us \<and> (ur_ok r \<longrightarrow> has_marks (up_id d) (up_variant d) (ui_received u) o' cs us))
          o' (cs @ [case a of (r, u) \<Rightarrow> CallQuery (up_upload d) r u]) us"
      by (simp add: a call_ok_def)
  qed
next
  note fresh = triple_pre [OF triple_fresh [OF assms]]
  note marks = triple_pre [OF triple_mark_all [OF assms, of E _ True d]]
  show "triple E D ((case x of (r, u) \<Rightarrow> \<lambda>o' cs us. held d o' cs us \<and>
         (ur_ok r \<longrightarrow> has_marks (up_id d) (up_variant d) (ui_received u) o' cs us)))
      (case x of (r, u) \<Rightarrow>
        if ur_ok r then
          if ui_state u = ''finalized'' \<and> ui_file u \<noteq> [] then adopt_file E d (ui_file u)
          else if ui_state u = ''cancelled'' then fresh_session E (\<lambda>_. 1002) d
          else mw_then (mark_all E d (ui_received u)) (\<lambda>_. mw_value d)
        else if ur_status r = 404 \<or> ur_status r = 410 then fresh_session E (\<lambda>r. if ur_retryable r then 1002 else 1003) d
        else failDraft E d (fail_code r)) (again d)" for x :: "up_result \<times> session_info"
    by (intro triple_pair triple_if triple_adopt triple_fail assms)
      (auto intro!: fresh triple_then [OF marks] triple_value again_refl)
qed

lemma triple_revive:
  assumes "apart D (up_id d) (up_variant d)"
  shows "triple E D (held d) (revive E d) (again d)"
  unfolding revive_def
proof (intro triple_if)
  assume up: "up_state d = UpFailed \<and> up_upload d \<noteq> []"
  show "triple E D (held d) (mw_then (mw_must (mw_write E (\<lambda>w owner. setUploadDraftState w owner (up_id d) (up_variant d)
      UpUploading 0))) (\<lambda>_. mw_must (mw_get E (up_id d) (up_variant d)))) (again d)"
  proof (rule triple_then [where R = "\<lambda>_ _ _ _. True", OF triple_must triple_reread],
      rule triple_write [OF state_op apartD [OF assms]])
    fix o' cs us q q'
    assume a: "held d o' cs us" "(o', q) \<in> set us" "row_key (o', q) = (o', up_id d, up_variant d)"
      and ok: "draft_ok cs (draft_of q)" and e: "state_edit UpUploading 0 q q'"
    have "same_session q d" using a by (auto simp: held_def draft_key_def)
    then show "draft_ok cs (draft_of q')" using up by (intro draft_ok_state [OF e _ ok]) (auto simp: same_session_def)
  qed auto
qed (auto intro!: triple_value again_refl)

lemma readChunk_part:
  "readChunk (Some content) d i = Some part \<Longrightarrow> part = file_part content (up_chunkSize d) (up_size d) i"
  by (auto simp: readChunk_def read_part_def file_part_def Let_def split: if_splits)

text \<open>What sending a chunk needs of the draft.\<close>

definition sending :: "upload_draft \<Rightarrow> view" where
  "sending d o' cs us \<longleftrightarrow> created_for cs d \<and> (\<forall>x \<in> set us. row_key x = draft_key o' d \<longrightarrow> same_session (snd x) d)"

lemma held_sending: "held d o' cs us \<Longrightarrow> up_state d = UpUploading \<Longrightarrow> sending d o' cs us"
  by (auto simp: held_def sending_def draft_ok_def split: if_splits)

lemma triple_chunk:
  "triple E D (\<lambda>o' cs us. sending d o' cs us \<and> mv_file E (length cs) (up_path d) = Some content \<and>
      readChunk (Some content) d i = Some part)
    (mw_call (mv_chunk E) (CallChunk (up_upload d) i (sha256Hex (mv_junk E) part) part))
    (\<lambda>r o' cs us. sending d o' cs us \<and> (ur_ok r \<longrightarrow> has_marks (up_id d) (up_variant d) [i] o' cs us))"
proof (rule triple_call)
  fix o' cs us a
  assume pre: "sending d o' cs us \<and> mv_file E (length cs) (up_path d) = Some content \<and>
      readChunk (Some content) d i = Some part"
  let ?e = "CallChunk (up_upload d) i (sha256Hex (mv_junk E) part) part a"
  obtain d0 u where c: "opened cs d0 u" "ui_upload u = up_upload d" "ui_chunkSize u = up_chunkSize d"
      "up_path d0 = up_path d" "up_size d0 = up_size d"
    using pre by (auto simp: sending_def created_for_def)
  have "part = file_part content (ui_chunkSize u) (up_size d0) i" using readChunk_part pre c by metis
  then have "call_ok E cs ?e"
    using c pre unfolding call_ok_def by (auto intro!: exI [of _ d0] exI [of _ u])
  moreover have "sending d o' (cs @ [?e]) us"
    using pre more_calls(3) [of cs "cs @ [?e]" d] by (auto simp: sending_def)
  moreover have "has_marks (up_id d) (up_variant d) [i] o' (cs @ [?e]) us" if "ur_ok a"
  proof -
    have "server_has (cs @ [?e]) (up_upload d) i"
      unfolding server_has_def using that by (intro disjI1 exI conjI) auto
    then show ?thesis using pre by (auto simp: sending_def has_marks_def draft_key_def same_session_def)
  qed
  ultimately show "call_ok E cs ?e \<and> sending d o' (cs @ [?e]) us \<and>
      (ur_ok a \<longrightarrow> has_marks (up_id d) (up_variant d) [i] o' (cs @ [?e]) us)" by blast
qed

lemma sending_change:
  "may_change k R us us' \<Longrightarrow> (\<And>r r'. R r r' \<Longrightarrow> same_session r' r) \<Longrightarrow> sending d o' cs us \<Longrightarrow> sending d o' cs us'"
proof -
  assume m: "may_change k R us us'" and s: "\<And>r r'. R r r' \<Longrightarrow> same_session r' r" and d: "sending d o' cs us"
  have "same_session r' d" if "R r r'" "same_session r d" for r r'
    using s [OF that(1)] that(2) by (simp add: same_session_def)
  then show ?thesis
    using d may_changeD [OF m] unfolding sending_def by metis
qed

lemma triple_mark_sent:
  assumes "apart D (up_id d) (up_variant d)"
  shows "triple E D (\<lambda>o' cs us. sending d o' cs us \<and> has_marks (up_id d) (up_variant d) [i] o' cs us)
    (mw_must (mw_write E (\<lambda>w owner. markUploadChunkDone w owner (up_id d) (up_variant d) i))) (\<lambda>_. sending d)"
proof (rule triple_must, rule triple_write [OF mark_op apartD [OF assms]])
  fix o' cs us r r'
  assume m: "sending d o' cs us \<and> has_marks (up_id d) (up_variant d) [i] o' cs us" "(o', r) \<in> set us"
    "row_key (o', r) = (o', up_id d, up_variant d)" and ok: "draft_ok cs (draft_of r)" and e: "mark_edit i r r'"
  have "0 \<le> i \<Longrightarrow> server_has cs (up_upload r) i"
    using bspec [OF m(1) [THEN conjunct2, unfolded has_marks_def] m(2)] m(3) by simp
  then show "draft_ok cs (draft_of r')" by (rule draft_ok_mark [OF e ok])
next
  fix o' cs us us' and r :: "unit option"
  assume "sending d o' cs us \<and> has_marks (up_id d) (up_variant d) [i] o' cs us"
    "may_change (o', up_id d, up_variant d) (mark_edit i) us us'"
  then show "\<forall>x. r = Some x \<longrightarrow> sending d o' cs us'" using sending_change same_session_edits(1) by blast
qed

lemma triple_keep_read: "triple E D P (mw_must (mw_get E mid v)) (\<lambda>_. P)"
  by (rule triple_must, rule triple_get) auto

lemma sending_done [simp]: "sending (d\<lparr>ud_done := xs\<rparr>) = sending d"
  by (simp add: sending_def created_for_def draft_key_def same_session_def fun_eq_iff)

lemma triple_send_chunks:
  assumes "apart D (up_id d) (up_variant d)"
  shows "triple E D (sending d) (send_chunks E is d) (\<lambda>_ _ _ _. True)"
  using assms
proof (induction "is" arbitrary: d)
  case Nil
  show ?case by (auto intro: triple_value)
next
  case (Cons i "is")
  let ?d = "d\<lparr>ud_done := ud_done d @ [i]\<rparr>"
  have IH: "triple E D (sending d) (send_chunks E is ?d) (\<lambda>_ _ _ _. True)"
    using Cons.IH [of ?d] Cons.prems by simp
  have rest: "triple E D (\<lambda>o' cs us. sending d o' cs us \<and> (ur_ok r \<longrightarrow> has_marks (up_id d) (up_variant d) [i] o' cs us))
      (if \<not> ur_ok r then failDraft E d (fail_code r)
       else mw_then (mw_must (mw_write E (\<lambda>w owner. markUploadChunkDone w owner (up_id d) (up_variant d) i))) (\<lambda>_.
         let d = ?d in mw_then (reportProgress d) (\<lambda>_. send_chunks E is d))) (\<lambda>_ _ _ _. True)" for r
  proof (intro triple_if triple_fail Cons.prems)
    assume "\<not> \<not> ur_ok r"
    then show "triple E D (\<lambda>o' cs us. sending d o' cs us \<and> (ur_ok r \<longrightarrow> has_marks (up_id d) (up_variant d) [i] o' cs us))
       (mw_then (mw_must (mw_write E (\<lambda>w owner. markUploadChunkDone w owner (up_id d) (up_variant d) i))) (\<lambda>_.
         let d = ?d in mw_then (reportProgress d) (\<lambda>_. send_chunks E is d))) (\<lambda>_ _ _ _. True)"
      unfolding Let_def
      by (intro triple_then [OF triple_pre [OF triple_mark_sent [OF Cons.prems]]]
          triple_then [OF triple_progress IH]) auto
  qed
  have part: "triple E D (\<lambda>o' cs us. sending d o' cs us \<and> got = mv_file E (length cs) (up_path d))
      (case readChunk got d i of
         None \<Rightarrow> failDraft E d 1004
       | Some part \<Rightarrow>
         mw_then (mw_call (mv_chunk E) (CallChunk (up_upload d) i (sha256Hex (mv_junk E) part) part)) (\<lambda>r.
         if \<not> ur_ok r then failDraft E d (fail_code r)
         else mw_then (mw_must (mw_write E (\<lambda>w owner. markUploadChunkDone w owner (up_id d) (up_variant d) i))) (\<lambda>_.
           let d = ?d in mw_then (reportProgress d) (\<lambda>_. send_chunks E is d)))) (\<lambda>_ _ _ _. True)" for got
  proof (intro triple_option triple_fail Cons.prems)
    fix part
    assume c: "readChunk got d i = Some part"
    then obtain content where f: "got = Some content"
      by (cases got) (simp_all add: readChunk_def read_part_def Let_def split: if_splits)
    show "triple E D (\<lambda>o' cs us. sending d o' cs us \<and> got = mv_file E (length cs) (up_path d))
       (mw_then (mw_call (mv_chunk E) (CallChunk (up_upload d) i (sha256Hex (mv_junk E) part) part)) (\<lambda>r.
         if \<not> ur_ok r then failDraft E d (fail_code r)
         else mw_then (mw_must (mw_write E (\<lambda>w owner. markUploadChunkDone w owner (up_id d) (up_variant d) i))) (\<lambda>_.
           let d = ?d in mw_then (reportProgress d) (\<lambda>_. send_chunks E is d)))) (\<lambda>_ _ _ _. True)"
      by (rule triple_then [OF triple_pre [OF triple_chunk [where content = content]] rest]) (use c f in auto)
  qed
  show ?case
    unfolding send_chunks.simps
    by (rule triple_then [OF triple_keep_read], intro triple_if triple_value, simp,
        rule triple_then [OF triple_file part]) auto
qed

lemma triple_send_missing:
  assumes "apart D (up_id d) (up_variant d)"
  shows "triple E D (held d) (send_missing E d) (again d)"
  unfolding send_missing_def
  by (intro triple_if triple_then [OF triple_pre [OF triple_send_chunks [OF assms]] triple_reread] triple_value)
    (auto intro: held_sending again_refl)

lemma all_done:
  assumes "distinct xs" and "\<forall>i \<in> set xs. 0 \<le> i \<and> i < n" and "int (length xs) = n" and "0 \<le> i" and "i < n"
  shows "i \<in> set xs"
proof -
  have "set xs \<subseteq> {0..<n}" using assms(2) by auto
  moreover have "card (set xs) = card {0..<n}" using assms(1,3) by (simp add: distinct_card)
  ultimately have "set xs = {0..<n}" by (intro card_subset_eq) simp_all
  then show ?thesis using assms(4,5) by simp
qed

lemma triple_finish:
  assumes "apart D (up_id d) (up_variant d)"
  shows "triple E D (held d) (finish_session E d) (\<lambda>_ _ _ _. True)"
  unfolding finish_session_def
proof (intro triple_if)
  assume d: "up_state d = UpUploading \<and> int (length (ud_done d)) = up_chunkCount d"
  show "triple E D (held d) (mw_then (mw_call (mv_finalize E) (\<lambda>(r, fid). CallFinalize (up_upload d) r fid)) (\<lambda>(r, fid).
        if \<not> ur_ok r then failDraft E d (fail_code r) else adopt_file E d fid)) (\<lambda>_ _ _ _. True)"
  proof (rule triple_then [where R = "\<lambda>_ _ _ _. True"], rule triple_call)
    fix o' cs us and a :: "up_result \<times> string"
    assume h: "held d o' cs us"
    then have ok: "draft_ok cs d" by (simp add: held_def)
    then have "created_for cs d" using d by (auto simp: draft_ok_def split: if_splits)
    then obtain d0 u where c: "opened cs d0 u" "ui_upload u = up_upload d" "ui_chunkCount u = up_chunkCount d"
      by (auto simp: created_for_def)
    have "server_has cs (up_upload d) i" if "0 \<le> i" "i < up_chunkCount d" for i
      using all_done [of "ud_done d" "up_chunkCount d" i] ok d that by (auto simp: draft_ok_def)
    then show "call_ok E cs (case a of (r, fid) \<Rightarrow> CallFinalize (up_upload d) r fid) \<and> True"
      using c by (cases a) (auto simp: call_ok_def intro!: exI [of _ d0] exI [of _ u])
  qed (intro triple_pair triple_if triple_fail triple_adopt assms)
qed (auto intro: triple_value)

section \<open>Whole operations\<close>

lemma mw_result_ok:
  assumes "triple E D P m Q" and "media_ok E D s" and "P (mw_owner s) (mw_calls s) (drafts_of (mw_conn s))"
  shows "media_ok E D (snd (mw_result m s))" and "mw_owner (snd (mw_result m s)) = mw_owner s"
proof -
  obtain r s' where m: "m s = (r, s')" by (rule prod.exhaust)
  have "snd (mw_result m s) = s'" by (simp add: mw_result_def m split: sum.split)
  then show "media_ok E D (snd (mw_result m s))" "mw_owner (snd (mw_result m s)) = mw_owner s"
    using tripleD(1,2) [OF assms m] by simp_all
qed

lemma again_step:
  assumes "\<And>d'. up_id d' = up_id d \<Longrightarrow> up_variant d' = up_variant d \<Longrightarrow> triple E D (held d') (k d') Q"
  shows "triple E D (again d d') (k d') Q"
  by (rule tripleI) (use assms in \<open>auto simp: again_def dest: tripleD\<close>)

lemma process_ok:
  assumes "apart D (up_id d) (up_variant d)" and "media_ok E D s"
    and "held d (mw_owner s) (mw_calls s) (drafts_of (mw_conn s))"
  shows "media_ok E D (snd (processVariant E d s)) \<and> mw_owner (snd (processVariant E d s)) = mw_owner s"
proof (cases "up_state d = UpFinal \<or> terminal_draft d")
  case False
  have "triple E D (held d) (mw_then (open_session E d) (\<lambda>d. mw_then (ask_session E d) (\<lambda>d.
        mw_then (revive E d) (\<lambda>d. mw_then (send_missing E d) (finish_session E))))) (\<lambda>_ _ _ _. True)"
    using assms(1)
    by (intro triple_then [OF triple_open] triple_then [OF triple_ask] triple_then [OF triple_revive]
        triple_then [OF triple_send_missing] again_step triple_finish) simp_all
  from mw_result_ok [OF this assms(2,3)] show ?thesis using False by (simp add: processVariant_def)
qed (use assms(2) in \<open>simp add: processVariant_def\<close>)

text \<open>What is known of further drafts is kept with the step.\<close>

lemma triple_frame:
  assumes "triple E (D \<union> F) P m Q"
  shows "triple E D (\<lambda>o' cs us. P o' cs us \<and> (\<forall>d \<in> F. held d o' cs us)) m
    (\<lambda>x o' cs us. Q x o' cs us \<and> (\<forall>d \<in> F. held d o' cs us))"
proof (rule tripleI)
  fix s r s'
  assume ok: "media_ok E D s" "P (mw_owner s) (mw_calls s) (drafts_of (mw_conn s)) \<and>
      (\<forall>d \<in> F. held d (mw_owner s) (mw_calls s) (drafts_of (mw_conn s)))" and m: "m s = (r, s')"
  have "media_ok E (D \<union> F) s" using ok by (auto simp: media_ok_def)
  note t = tripleD [OF assms this conjunct1 [OF ok(2)] m]
  have "\<forall>d \<in> F. held d (mw_owner s') (mw_calls s') (drafts_of (mw_conn s'))" using t(1) by (auto simp: media_ok_def)
  moreover have "media_ok E D s'" using t(1) by (auto simp: media_ok_def)
  ultimately show "media_ok E D s' \<and> mw_owner s' = mw_owner s \<and> (\<forall>x. r = Inr x \<longrightarrow>
      Q x (mw_owner s') (mw_calls s') (drafts_of (mw_conn s')) \<and>
      (\<forall>d \<in> F. held d (mw_owner s') (mw_calls s') (drafts_of (mw_conn s'))))"
    using t(2,3) by blast
qed

lemma apart_empty [simp]: "apart {} mid v"
  by (simp add: apart_def)

lemma triple_process_all:
  assumes "distinct (map (\<lambda>d. (up_id d, up_variant d)) ds)"
  shows "triple E {} (\<lambda>o' cs us. \<forall>d \<in> set ds. held d o' cs us) (process_all E mid ds) (\<lambda>_ _ _ _. True)"
  using assms
proof (induction ds)
  case Nil
  show ?case by (auto intro: triple_value)
next
  case (Cons d ds)
  let ?F = "\<lambda>o' cs us. \<forall>e \<in> set ds. held e o' cs us"
  have IH: "triple E {} ?F (process_all E mid ds) (\<lambda>_ _ _ _. True)" using Cons by simp
  have ap: "apart (set ds) (up_id d) (up_variant d)" using Cons.prems by (auto simp: apart_def intro: rev_image_eqI)
  have "triple E ({} \<union> set ds) (held d) (\<lambda>s. let (b, s) = processVariant E d s in (Inr b, s)) (\<lambda>_ _ _ _. True)"
    by (rule tripleI) (use process_ok [OF ap] in \<open>auto simp: split_beta\<close>)
  from triple_frame [OF this]
  have step: "triple E {} (\<lambda>o' cs us. held d o' cs us \<and> ?F o' cs us)
      (\<lambda>s. let (b, s) = processVariant E d s in (Inr b, s)) (\<lambda>_ o' cs us. True \<and> ?F o' cs us)" .
  have get: "triple E {} (\<lambda>o' cs us. True \<and> ?F o' cs us) (mw_get E mid (up_variant d)) (\<lambda>_. ?F)"
    by (rule triple_get) auto
  show ?case
    unfolding process_all.simps list.set ball_simps
    by (rule triple_then [OF triple_pre [OF step]], simp,
        intro triple_if triple_then [OF triple_pre [OF IH]] triple_then [OF get] triple_then [OF IH] triple_pair triple_value)
      simp_all
qed

lemma triple_read_drafts:
  assumes "distinct vs"
  shows "triple E D (\<lambda>_ _ _. True) (read_drafts E mid vs)
    (\<lambda>ds o' cs us. (\<forall>d \<in> set ds. held d o' cs us \<and> up_id d = mid \<and> up_variant d \<in> set vs) \<and> distinct (map up_variant ds))"
  using assms
proof (induction vs arbitrary: D)
  case Nil
  show ?case by (auto intro: triple_value)
next
  case (Cons v vs)
  let ?Q = "\<lambda>vs ds o' cs us. (\<forall>d \<in> set ds. held d o' cs us \<and> up_id d = mid \<and> up_variant d \<in> set vs) \<and> distinct (map up_variant ds)"
  let ?G = "\<lambda>x o' cs us. \<forall>d. x = Some d \<longrightarrow> held d o' cs us \<and> up_id d = mid \<and> up_variant d = v"
  have get: "triple E D (\<lambda>_ _ _. True) (mw_get E mid v) ?G"
    by (rule triple_get) auto
  have rest: "triple E D (?G x) (read_drafts E mid vs) (\<lambda>ds o' cs us. ?Q vs ds o' cs us \<and> ?G x o' cs us)" for x
  proof (cases x)
    case None
    then show ?thesis using Cons by simp
  next
    case (Some d)
    have "triple E (D \<union> {d}) (\<lambda>_ _ _. True) (read_drafts E mid vs) (?Q vs)" using Cons by simp
    note t = triple_frame [OF this]
    show ?thesis
    proof (cases "up_id d = mid \<and> up_variant d = v")
      case True
      show ?thesis unfolding Some by (rule triple_post [OF triple_pre [OF t]]) (simp_all add: True)
    next
      case False
      then show ?thesis unfolding Some by (intro tripleI) auto
    qed
  qed
  show ?case
    unfolding read_drafts.simps
    by (rule triple_then [OF get], rule triple_then [OF rest], rule triple_value)
      (use Cons.prems in \<open>auto split: option.splits\<close>)
qed

text \<open>The message that carries the files does not touch the drafts.\<close>

lemma draft_body_uploads: "cd_uploads d = us \<Longrightarrow> ensures (draft_body now m) (\<lambda>_ d'. cd_uploads d' = us) d"
  unfolding draft_body_def write_draft_def compatibleIdentity_def upsertFts_def finishProjection_def
  by (intro ensures_always ensures_select ensures_guard ensures_return ensures_case_option ensures_if ensures_query ensures_run)
    (auto simp: insert_local_def fillMissingMedia_def alloc_order_def enqueue_def upsert_conv_def project_def
      read_active_def bumpMaxSeen_def Let_def split: if_splits option.splits)

lemma triple_commit: "triple E D P (mw_must (mw_write E (\<lambda>w owner. commitOutgoingDraft w (m owner)))) (\<lambda>_. P)"
proof (rule triple_must, rule tripleI)
  fix s r s'
  assume ok: "media_ok E D s" "P (mw_owner s) (mw_calls s) (drafts_of (mw_conn s))"
    and run: "mw_write E (\<lambda>w owner. commitOutgoingDraft w (m owner)) s = (r, s')"
  obtain x c where c: "commitOutgoingDraft (mv_write E (mw_writes s)) (m (mw_owner s)) (mw_conn s) = (x, c)" by (rule prod.exhaust)
  have "cn_txn c = None \<and> drafts_of c = drafts_of (mw_conn s)"
  proof (cases "lm_owner (m (mw_owner s)) \<le> 0 \<or> lm_id (m (mw_owner s)) = []")
    case True
    then show ?thesis using c ok(1) by (auto simp: commitOutgoingDraft_def media_ok_def)
  next
    case False
    then have "runTx (mv_write E (mw_writes s)) (draft_body (wi_clock (mv_write E (mw_writes s))) (m (mw_owner s))) (mw_conn s) = (x, c)"
      using c by (simp add: commitOutgoingDraft_def)
    from runTx_ensures [OF this _ draft_body_uploads [of _ "drafts_of (mw_conn s)"]] ok(1)
    show ?thesis by (auto simp: media_ok_def)
  qed
  then show "media_ok E D s' \<and> mw_owner s' = mw_owner s \<and> (\<forall>x. r = Inr x \<longrightarrow>
      (\<forall>y. x = Some y \<longrightarrow> P (mw_owner s') (mw_calls s') (drafts_of (mw_conn s'))))"
    using run ok by (auto simp: mw_write_def c media_ok_def)
qed

lemma triple_set_state:
  assumes "st \<noteq> UpUploading"
  shows "triple E {} P (mw_write E (\<lambda>w owner. setUploadDraftState w owner mid v st code)) (\<lambda>_ _ _ _. True)"
  by (rule triple_write [OF state_op]) (use assms in \<open>auto intro: draft_ok_state\<close>)

lemma triple_all_sent: "triple E {} (\<lambda>_ _ _. True) (all_sent E mid ds) (\<lambda>_ _ _ _. True)"
  by (induction ds) (auto intro!: triple_value triple_then [OF triple_set_state])

lemma triple_card: "triple E {} P (sendMessageCard E mid ds) (\<lambda>_ _ _ _. True)"
proof -
  have has: "triple E {} P (has_message E mid) (\<lambda>_ _ _ _. True)"
    by (rule tripleI) (auto simp: has_message_def media_ok_def)
  have sent: "triple E {} (\<lambda>_ _ _. True) (mw_then (all_sent E mid ds) (\<lambda>_. mw_value True)) (\<lambda>_ _ _ _. True)"
    by (rule triple_then [OF triple_all_sent], rule triple_value) simp
  have card: "triple E {} (\<lambda>_ _ _. True) (mw_then (mw_must (mw_write E (\<lambda>w owner. commitOutgoingDraft w
      (card_of owner mid origin l sm)))) (\<lambda>_. mw_then (all_sent E mid ds) (\<lambda>_. mw_value True))) (\<lambda>_ _ _ _. True)"
    for origin l sm
    by (rule triple_then [OF triple_commit [where m = "\<lambda>owner. card_of owner mid origin l sm"] sent])
  show ?thesis
    unfolding sendMessageCard_def
    by (intro triple_then [OF has] triple_if triple_option triple_return sent card)
qed

lemma pump_ok:
  assumes "media_ok E {} s"
  shows "media_ok E {} (snd (pumpMessage E mid s)) \<and> mw_owner (snd (pumpMessage E mid s)) = mw_owner s"
proof -
  have process: "triple E {} (\<lambda>o' cs us. (\<forall>d \<in> set ds. held d o' cs us \<and> up_id d = mid \<and> up_variant d \<in> set vs) \<and>
      distinct (map up_variant ds)) (process_all E mid ds) (\<lambda>_ _ _ _. True)" for ds vs
  proof (cases "distinct (map up_variant ds)")
    case True
    then have "distinct (map (\<lambda>d. (up_id d, up_variant d)) ds)" by (auto simp: distinct_map inj_on_def)
    then show ?thesis by (intro triple_pre [OF triple_process_all]) simp_all
  next
    case False
    then show ?thesis by (intro tripleI) auto
  qed
  have "triple E {} (\<lambda>_ _ _. True) (mw_then (read_drafts E mid all_variants) (\<lambda>ds.
       if ds = [] then mw_return False
       else if list_ex (\<lambda>d. up_state d = UpDropped) ds then mw_return False
       else if list_all terminal_draft ds then mw_return (list_all (\<lambda>d. up_state d = UpSent) ds)
       else
         mw_then (process_all E mid ds) (\<lambda>(xs, ready).
         if ready then sendMessageCard E mid xs else mw_return False))) (\<lambda>_ _ _ _. True)"
    by (rule triple_then [OF triple_read_drafts], simp add: all_variants_def,
        intro triple_if triple_return triple_then [OF process] triple_pair triple_card)
  from mw_result_ok [OF this assms] show ?thesis unfolding pumpMessage_def by simp
qed

lemma pump_all_ok:
  assumes "media_ok E {} s"
  shows "media_ok E {} (snd (pump_all E mids (n, s)))"
  using assms
proof (induction mids arbitrary: n s)
  case (Cons mid mids)
  then show ?case using pump_ok [OF Cons.prems, of mid] by (simp add: split_beta)
qed simp

lemma resume_ok: "media_ok E {} s \<Longrightarrow> media_ok E {} (snd (resumeAll E s))"
  unfolding resumeAll_def Let_def
  by (simp add: media_ok_def [of E "{}" "s\<lparr>mw_reads := _\<rparr>"] media_ok_def [of E "{}" s]
      pump_all_ok split: option.split)

lemma draft_ok_new: "draft_ok cs (draft_of (r\<lparr>up_upload := [], up_chunkSize := 0, up_chunkCount := 0, up_chunks := [],
    up_file := [], up_state := UpPending, up_error := 0, up_created := t, up_updated := t\<rparr>))"
  by (simp add: draft_ok_def)

lemma put_draft_ok:
  assumes "put_draft now o' r d = Some (n, d')" and "drafts_ok cs (cd_uploads d)"
  shows "drafts_ok cs (cd_uploads d')"
proof (cases "list_ex (is_draft o' (up_id r) (up_variant r)) (cd_uploads d)")
  case True
  then show ?thesis using assms by (simp add: put_draft_def)
next
  case False
  then have "row_key (o', r) \<notin> set (map row_key (cd_uploads d))"
    by (auto simp: list_ex_iff is_draft_key row_key_def)
  then show ?thesis
    using assms False draft_ok_new by (auto simp: put_draft_def drafts_ok_def row_key_def)
qed

lemma triple_put: "triple E {} P (mw_write E (\<lambda>w owner. upsertUploadDraft w owner r)) (\<lambda>_ _ _ _. True)"
proof (rule tripleI)
  fix s x s'
  assume ok: "media_ok E {} s" and run: "mw_write E (\<lambda>w owner. upsertUploadDraft w owner r) s = (x, s')"
  let ?w = "mv_write E (mw_writes s)"
  obtain y c where c: "upsertUploadDraft ?w (mw_owner s) r (mw_conn s) = (y, c)" by (rule prod.exhaust)
  have idle: "cn_txn (mw_conn s) = None" and us: "drafts_ok (mw_calls s) (drafts_of (mw_conn s))"
    using ok by (simp_all add: media_ok_def)
  have e: "ensures (sq_then (sq_run (put_draft (wi_clock ?w) (mw_owner s) r)) (\<lambda>n. sq_return (n > 0)))
      (\<lambda>_ d'. drafts_ok (mw_calls s) (cd_uploads d')) (cn_db (mw_conn s)\<lparr>cd_journal := js\<rparr>)" for js
    by (intro ensures_intros) (rule put_draft_ok, assumption, simp add: us)
  have "cn_txn c = None \<and> drafts_ok (mw_calls s) (drafts_of c)"
  proof (cases "c = mw_conn s")
    case False
    then have "runTx ?w (sq_then (sq_run (put_draft (wi_clock ?w) (mw_owner s) r)) (\<lambda>n. sq_return (n > 0))) (mw_conn s) = (y, c)"
      using c by (auto simp: upsertUploadDraft_def split: if_splits)
    from runTx_ensures [OF this idle e] us show ?thesis by auto
  qed (use idle us in simp)
  then show "media_ok E {} s' \<and> mw_owner s' = mw_owner s \<and> (\<forall>x'. x = Inr x' \<longrightarrow> True)"
    using run ok by (auto simp: mw_write_def c media_ok_def)
qed

lemma triple_enqueue: "triple E {} (\<lambda>_ _ _. True) (enqueue_all E mid rs) (\<lambda>_ _ _ _. True)"
proof (induction rs)
  case (Cons r rs)
  have "triple E {} (\<lambda>_ _ _. True) (mw_must (mw_write E (\<lambda>w owner. upsertUploadDraft w owner r))) (\<lambda>_ _ _ _. True)"
    by (rule triple_must) (rule triple_post [OF triple_put], simp)
  from triple_then [OF this Cons] show ?case by (auto intro!: triple_if triple_return)
qed (auto intro!: triple_value)

lemma triple_cancel: "triple E {} (\<lambda>_ _ _. True) (cancel_variants E mid found vs) (\<lambda>_ _ _ _. True)"
proof (induction vs arbitrary: found)
  case (Cons v vs)
  have get: "triple E {} (\<lambda>_ _ _. True) (mw_get E mid v) (\<lambda>_ _ _ _. True)" by (rule triple_get) simp_all
  have put: "triple E {} (\<lambda>_ _ _. True) (mw_must (mw_write E (\<lambda>w owner. setUploadDraftState w owner mid v UpDropped 0)))
      (\<lambda>_ _ _ _. True)"
    by (rule triple_must) (rule triple_post [OF triple_set_state], simp_all)
  have call: "triple E {} (\<lambda>_ _ _. True) (mw_call (\<lambda>_. ()) (\<lambda>_. CallCancel uid)) (\<lambda>_ _ _ _. True)" for uid
    by (rule triple_call) (simp add: call_ok_def)
  show ?case
    unfolding cancel_variants.simps
    by (intro triple_then [OF get] triple_option triple_if triple_then [OF put] triple_then [OF call] Cons)
qed (auto intro!: triple_value)

lemma media_step_ok: "media_ok E {} s \<Longrightarrow> media_ok E {} (media_step E s op)"
proof (cases op)
  case (Enqueue rs)
  assume ok: "media_ok E {} s"
  have "triple E {} (\<lambda>_ _ _. True) (if rs = [] then mw_return False else enqueue_all E (up_id (hd rs)) rs) (\<lambda>_ _ _ _. True)"
    by (intro triple_if triple_return triple_enqueue)
  from mw_result_ok(1) [OF this ok] show ?thesis using Enqueue by (simp add: enqueueUploads_def)
next
  case (CancelUpload mid)
  assume ok: "media_ok E {} s"
  from mw_result_ok(1) [OF triple_cancel ok] show ?thesis using CancelUpload by (simp add: cancelUploads_def)
qed (simp_all add: pump_ok resume_ok)

lemma media_run_ok: "media_ok E {} s \<Longrightarrow> media_ok E {} (foldl (media_step E) s ops)"
  by (induction ops arbitrary: s) (simp_all add: media_step_ok)

text \<open>A service that has done nothing yet, over a store without drafts.\<close>

definition media_new :: "int \<Rightarrow> cconn \<Rightarrow> media" where
  "media_new owner c = \<lparr>mw_owner = owner, mw_conn = c, mw_calls = [], mw_writes = 0, mw_reads = 0, mw_progress = []\<rparr>"

lemma media_new_ok: "cn_txn c = None \<Longrightarrow> cd_uploads (cn_db c) = [] \<Longrightarrow> media_ok E {} (media_new owner c)"
  by (simp add: media_ok_def media_new_def drafts_ok_def)

text \<open>
  An upload is finished only when it is complete. Whenever the service asks the server to finish
  the upload of a session, the server has opened that session before, and since it has confirmed every
  chunk of it: it took the chunk, or listed it when the session was created or asked for. This holds
  after any sequence of operations, whatever the server answers, whichever writes and reads of the
  store fail or come late, and however often uploads are taken up again.
\<close>

theorem finished_uploads_complete:
  assumes "cn_txn c = None" and "cd_uploads (cn_db c) = []"
    and "mw_calls (foldl (media_step E) (media_new owner c) ops) = cs @ CallFinalize uid r fid # cs'"
  shows "\<exists>d x u. CallCreate d x u \<in> set cs \<and> ur_ok x \<and> ui_upload u = uid \<and>
     (\<forall>i. 0 \<le> i \<and> i < ui_chunkCount u \<longrightarrow> server_has cs uid i)"
proof -
  have "log_ok E (cs @ CallFinalize uid r fid # cs')"
    using media_run_ok [OF media_new_ok [OF assms(1,2)], of E owner ops] assms(3) by (simp add: media_ok_def)
  from log_okD [OF this] show ?thesis by (auto simp: call_ok_def opened_def)
qed

text \<open>
  What is sent is what was announced: every chunk the service sends carries its digest, belongs to
  a session that the server opened for a file, and is the part of that file, as it is at that moment,
  that the index stands for in the chunk size of that session.
\<close>

theorem sent_chunks_are_parts:
  assumes "cn_txn c = None" and "cd_uploads (cn_db c) = []"
    and "mw_calls (foldl (media_step E) (media_new owner c) ops) = cs @ CallChunk uid i sha part r # cs'"
  shows "sha = sha256Hex (mv_junk E) part \<and>
     (\<exists>d x u content. CallCreate d x u \<in> set cs \<and> ur_ok x \<and> ui_upload u = uid \<and>
        mv_file E (length cs) (up_path d) = Some content \<and>
        part = file_part content (ui_chunkSize u) (up_size d) i)"
proof -
  have "log_ok E (cs @ CallChunk uid i sha part r # cs')"
    using media_run_ok [OF media_new_ok [OF assms(1,2)], of E owner ops] assms(3) by (simp add: media_ok_def)
  from log_okD [OF this] show ?thesis by (auto simp: call_ok_def opened_def)
qed

end
