(* ===== verification/Spec2Isabelle.thy ===== *)
theory Spec2Isabelle
  imports Protocol Frames Sha256 SyncTracker SyncService AuthMachine TokenStore TokenManager
    DeviceProof AccountSession RateLimit
    ServerDb UserStore FriendStore MessageStore AuthStore UploadStore
    ChannelCrypto SecureChannel
    ServerDispatch ServerWrites ServerSafety ServerRuns ServerProperties ServerAi
    HttpFiles HttpProperties
    ClientHistory ClientServices RuntimeProperties Announcements UploadRuns
begin

text \<open>
  A verification development for the instant messenger of this repository: the C++ client core under
  \<^verbatim>\<open>client_core/\<close> and the C++ server under \<^verbatim>\<open>im_server/\<close>, with the parts of \<^verbatim>\<open>protocol/\<close> and of the
  Android bindings they share.

  \<^bold>\<open>The program.\<close> Client and server speak framed protobuf packets over one TCP or TLS connection, inside
  an application-layer secure channel, and HTTP for files. The server routes a packet to a handler; the
  handlers keep users, friendships, messages, device keys, sign-in sessions and uploads in SQLite and
  forward to the sessions of signed-in users. The client signs in with a password, a token or a refresh,
  keeps messages in an encrypted SQLite file, sends from an outbox, asks for what it missed, and uploads
  files in resumable chunks.

  \<^bold>\<open>Theories.\<close> \<open>Prelude\<close> has the shared vocabulary; each other theory names the files it models.

  \<^item> Wire: \<open>Protocol\<close> (numbers, limits, text helpers), \<open>Frames\<close> (\<open>FrameCodec\<close>, \<open>Session\<close>'s reader),
    \<open>Sha256\<close>, \<open>ChannelCrypto\<close> and \<open>SecureChannel\<close> (\<open>ClientSecureChannel\<close>, \<open>AppCrypto\<close> and the channel
    half of \<open>Session\<close>).
  \<^item> Client account: \<open>AuthMachine\<close> (\<open>AuthStateMachine\<close>), \<open>TokenStore\<close>, \<open>TokenManager\<close>, \<open>DeviceProof\<close>,
    \<open>AccountSession\<close>.
  \<^item> Client messages: \<open>SyncTracker\<close>, \<open>SyncService\<close>; \<open>ClientDb\<close> (tables, writer), \<open>ClientStore\<close>
    (\<open>NativeRepository\<close>), \<open>ClientRuns\<close>, \<open>ClientMessages\<close> (\<open>MessageService\<close>), \<open>ClientHistory\<close>,
    \<open>ClientServices\<close> (\<open>FriendService\<close>, \<open>AiSuggestionService\<close>, \<open>RecoveryResolver\<close>), \<open>Completions\<close>,
    \<open>ClientRuntime\<close>, \<open>RuntimeRuns\<close>, \<open>RuntimeProperties\<close>, \<open>Announcements\<close> (change notices of
    interleaving threads); \<open>ClientUploads\<close> (\<open>MediaService\<close> over the drafts of uploads) and \<open>UploadRuns\<close>.
  \<^item> Server storage: \<open>Sql\<close> (what is used of SQLite), \<open>ServerDb\<close>, \<open>UserStore\<close>, \<open>FriendStore\<close>,
    \<open>MessageStore\<close>, \<open>AuthStore\<close>, \<open>UploadStore\<close> (all \<open>Database.cpp\<close>), \<open>RateLimit\<close>.
  \<^item> Server: \<open>ServerCore\<close> (state, presence, session binding), \<open>AuthHandlers\<close>, \<open>ChatHandlers\<close>, \<open>AiContext\<close>,
    \<open>AiHandlers\<close>, \<open>ServerDispatch\<close> (routing, closing, heartbeat), \<open>ServerWrites\<close> (every step as a sequence
    of elementary writes), \<open>ServerSafety\<close> and \<open>ServerRuns\<close> (reachable states and their invariants),
    \<open>ServerDemo\<close>, \<open>ServerSignIn\<close>, \<open>ServerProperties\<close>, \<open>ServerAi\<close>, \<open>HttpFiles\<close> (\<open>HttpFileServer\<close>),
    \<open>HttpProperties\<close>.

  \<^bold>\<open>How the model is made.\<close> A class is a record of its fields and a method a function from the old to the
  new state; definitions keep the names of the source, with a prefix where names clash. A mutex makes a
  method one step; where another thread can run between two locks and it matters, the parts are
  definitions of their own: \<open>send_prepare\<close> and \<open>send_note\<close>, and \<open>claim_version\<close>, \<open>publish_locked\<close> and
  \<open>tell_sink\<close>, which \<open>Announcements\<close> interleaves. What the server sends is posted to the strand of a
  session, which drops it when the session was closed (\<open>strand_frames\<close>). Database calls go through \<open>sq_run\<close>, \<open>sq_query\<close> and transactions of \<open>Sql\<close>,
  which draw the success of each SQLite call from a script that the theorems leave arbitrary: so "after
  any failures" means any script. What a step meets outside (clocks, random bytes, the writer's turn,
  outcomes of file operations, which packets the connection accepts) is an argument.

  \<^bold>\<open>What the lemmas show.\<close>
  Framing, tokens, conversation ids and uploads round-trip; the incremental SHA-256 equals its reference.
  The channel delivers in order what was sent, and an honest handshake agrees. The stores refine
  what they stand for: friendship as a symmetric relation, a message log numbered per conversation,
  single-use refresh tokens, chunk lists. On the server, over all reachable states, no message is shown
  to a third user, one marked delivered was posted to a session of its receiver (which loses it only if it
  was told to close before), and a session gets a user only by a credential.
  On the client, whatever is late, refused or fails: a text that was accepted is kept until it has a
  delivery status, what is known of a message does not change, unread counters are bounded, paging
  misses nothing, claims of the outbox are leases, every operation completes once within a bounded
  registry, no announced change is missed by the observer, the server is asked to finish an upload only
  when it has confirmed every chunk, and a session that was kicked stays logged out. Properties of kind
  \<open>error\<close> state where the code falls short of its purpose.

  \<^bold>\<open>How the proofs are organised.\<close> An interface between components is a locale with an interpretation on
  the model: \<open>store_invariant\<close>, \<open>statement_base\<close> and \<open>statement_invariant\<close> for invariants of the client
  store (interpreted as \<open>evolving\<close>, \<open>settling\<close>, \<open>securing\<close>, \<open>secure\<close>, \<open>unread\<close>, \<open>outboxing\<close>, \<open>leasing\<close>),
  \<open>runtime_law\<close> for invariants of the runtime (\<open>ledger\<close>, \<open>safe\<close>, \<open>noting\<close>, \<open>advancing\<close>), and those of the server and
  the codecs in their theories. Postconditions of transactions are derived with \<open>ensures\<close>, a small
  calculus of postconditions (\<open>ClientDb\<close>).

  \<^bold>\<open>Bounds and fuel.\<close> \<open>hkdf_loop\<close> is a partial function, proved to return within the lengths of RFC 5869.
  The matcher of \<open>AiContext\<close>, the readers of whole histories on both sides (one page per stored message
  is enough, which is proved where it is used) take fuel. Machine integers are words where they wrap; the
  counters and times of the stores, which SQLite keeps in 64 bits, are unbounded integers with the
  range checks of the code written out. A NULL text column is the empty string.

  \<^bold>\<open>Parameters.\<close> SQLite (by the scripts above), OpenSSL and Argon2, the code generated for
  \<^verbatim>\<open>im.proto\<close>, cpp-httplib, the file system, the model service, random tokens and clocks.

  \<^bold>\<open>Not modelled.\<close> Threads, sockets and TLS of \<open>ClientCore\<close>, \<open>Server\<close> and \<open>Session\<close>; opening, encrypting,
  migrating and importing the client's file (\<open>NativeDatabase\<close>, \<open>SchemaManager\<close>, \<open>CipherDatabase\<close>,
  \<open>MigrationImporter\<close>): the calls are SQLCipher's; full-text search; the HTTP clients of the AI models; the
  HTTP transport of the client's uploads, whose answers are an argument; the
  JNI bindings, which convert values, and the Kotlin, Swift and Qt user interfaces. A handler of the
  server runs to its end: a crash inside one is not modelled, a restart between two is.
\<close>

end
